(* ===== verification/Minos_Prelude.thy ===== *)
theory Minos_Prelude
  imports Main "HOL-Library.Word"
begin

text \<open>
  Shared vocabulary of the development: the C integer types of
  \<^verbatim>\<open>os/include/minos/types.h\<close> as words, the error numbers of
  \<^verbatim>\<open>os/include/minos/errno.h\<close>, the alignment macros, the collections of
  rewrite rules the component theories fill, and the generic facts on lists and words the
  component proofs share.
\<close>

unbundle bit_operations_syntax

section \<open>C types and error numbers\<close>

type_synonym u8 = "8 word"
type_synonym u16 = "16 word"
type_synonym u32 = "32 word"
type_synonym u64 = "64 word"

text \<open>
  Error returns are negative C integers. A function of the source that returns \<open>int\<close>
  returns \<open>int\<close> here, with the source's own numbers.
\<close>

definition EPERM :: int where "EPERM = 1"
definition ENOENT :: int where "ENOENT = 2"
definition EIO :: int where "EIO = 5"
definition EAGAIN :: int where "EAGAIN = 11"
definition ENOMEM :: int where "ENOMEM = 12"
definition EBUSY :: int where "EBUSY = 16"
definition EINVAL :: int where "EINVAL = 22"
definition ENOSPC :: int where "ENOSPC = 28"
definition ETIMEDOUT :: int where "ETIMEDOUT = 110"
definition ENOPID :: int where "ENOPID = 134"
definition EABORT :: int where "EABORT = 135"

named_theorems errno_defs \<open>the error numbers\<close>

declare EPERM_def [errno_defs] ENOENT_def [errno_defs] EIO_def [errno_defs]
  EAGAIN_def [errno_defs] ENOMEM_def [errno_defs] EBUSY_def [errno_defs]
  EINVAL_def [errno_defs] ENOSPC_def [errno_defs] ETIMEDOUT_def [errno_defs]
  ENOPID_def [errno_defs] EABORT_def [errno_defs]

text \<open>
  Collections the component theories fill: \<open>bm_simps\<close> (what a bitmap operation does to
  one bit), \<open>inv_intros\<close> (an operation keeps its component's invariant).
\<close>

named_theorems bm_simps \<open>effect of the bitmap operations on one bit\<close>
named_theorems inv_intros \<open>preservation of the component invariants\<close>

section \<open>Alignment macros\<close>

text \<open>
  \<open>ALIGN\<close> and \<open>BALIGN\<close> of \<^verbatim>\<open>types.h\<close>; \<open>__round_mask(x, y)\<close> is
  \<open>y - 1\<close> at the width of \<open>x\<close>.
\<close>

definition ALIGN :: "u64 \<Rightarrow> u64 \<Rightarrow> u64" where
  "ALIGN x y = x AND NOT (y - 1)"

definition BALIGN :: "u64 \<Rightarrow> u64 \<Rightarrow> u64" where
  "BALIGN x y = (x + y - 1) AND NOT (y - 1)"

section \<open>Generic facts\<close>

lemma div_mod_64_eq_iff: "(i::nat) = j \<longleftrightarrow> i div 64 = j div 64 \<and> i mod 64 = j mod 64"
  by (metis div_mult_mod_eq)

lemma div_64_eq_iff: "i div 64 = q \<longleftrightarrow> 64 * q \<le> i \<and> i < 64 * q + 64" for i q :: nat
  by (auto intro: div_nat_eqI)

lemma obtain_word_pos:
  fixes pos :: nat
  obtains q r where "pos = 64 * q + r" "r < 64" "pos div 64 = q" "pos mod 64 = r"
  by (rule that [of "pos div 64" "pos mod 64"]) simp_all

lemma mask_literals:
  "(0xffffffff :: u64) = mask 32" "(0xffff :: u64) = mask 16" "(0xff :: u64) = mask 8"
  "(0xf :: u64) = mask 4" "(0x3 :: u64) = mask 2" "(0x1 :: u64) = mask 1"
  by (simp_all add: mask_eq_exp_minus_1)

lemma remove1_eq_filter: "distinct xs \<Longrightarrow> remove1 x xs = filter (\<lambda>y. y \<noteq> x) xs"
  by (simp add: distinct_remove1_removeAll removeAll_filter_not_eq) metis

lemma bit_u64_lt: "bit w i \<Longrightarrow> i < 64" for w :: u64
  by (drule bit_imp_le_length) simp

lemma word_bit_ex: "w \<noteq> 0 \<Longrightarrow> \<exists>n. bit w n" for w :: "'a::len word"
  by (metis bit_0_eq bit_eqI bot_apply bot_boolE)

lemma unat_u64_less: "unat (x :: u64) < 2 ^ 64"
  using unsigned_less [of x] by (simp only: len_num1 len_bit0 len_num0) simp

lemma unat_add_u64: "unat x + unat y < 2 ^ 64 \<Longrightarrow> unat (x + y) = unat x + unat y" for x y :: u64
  by (simp add: unat_word_ariths)

lemma unat_sub_u64: "unat y \<le> unat x \<Longrightarrow> unat (x - y) = unat x - unat y" for x y :: u64
  by (simp add: unat_sub word_le_nat_alt)

lemma and_not_mask_push: "x AND NOT (mask n) = push_bit n (drop_bit n x)" for x :: "'a::len word"
  by (rule bit_eqI) (auto simp: bit_simps dest: bit_imp_le_length)

lemma unat_and_not_mask: "unat (x AND NOT (mask n)) = unat x div 2 ^ n * 2 ^ n" for x :: "'a::len word"
proof -
  have "unat x div 2 ^ n * 2 ^ n \<le> unat x" by simp
  then have "unat x div 2 ^ n * 2 ^ n < 2 ^ LENGTH('a)" using unsigned_less [of x] le_less_trans by blast
  then show ?thesis
    unfolding and_not_mask_push unsigned_push_bit_eq unsigned_drop_bit_eq
    by (simp add: take_bit_nat_eq_self push_bit_eq_mult drop_bit_eq_div)
qed

lemma unat_ALIGN: "n < 64 \<Longrightarrow> unat (ALIGN x (2 ^ n)) = unat x div 2 ^ n * 2 ^ n"
  by (simp add: ALIGN_def unat_and_not_mask flip: mask_eq_exp_minus_1)

lemma unat_BALIGN:
  assumes "n < 64" "unat x + (2 ^ n - 1) < 2 ^ 64"
  shows "unat (BALIGN x (2 ^ n)) = (unat x + (2 ^ n - 1)) div 2 ^ n * 2 ^ n"
proof -
  have "unat (2 ^ n - 1 :: u64) = 2 ^ n - 1"
    using assms(1) uint_mask_eq [of n, where 'a = 64] by (simp add: mask_eq_exp_minus_1 unat_eq_nat_uint nat_diff_distrib nat_power_eq)
  then have "unat (x + (2 ^ n - 1)) = unat x + (2 ^ n - 1)"
    using assms(2) by (simp add: unat_word_ariths)
  moreover have "x + 2 ^ n - 1 = x + (2 ^ n - 1)" by simp
  ultimately show ?thesis
    by (simp only: BALIGN_def unat_and_not_mask flip: mask_eq_exp_minus_1)
qed

lemma fun_upd_inject: "f(x := a) = f(x := b) \<longleftrightarrow> a = b"
  by (metis fun_upd_same)

lemma distinct_filter_nth:
  assumes "\<And>i j. i < length xs \<Longrightarrow> j < length xs \<Longrightarrow> xs ! i = xs ! j \<Longrightarrow> P (xs ! i) \<Longrightarrow> i = j"
  shows "distinct (filter P xs)"
  using assms
proof (induction xs)
  case (Cons x xs)
  have "distinct (filter P xs)"
    using Cons.prems [of "Suc i" "Suc j" for i j] by (intro Cons.IH) auto
  moreover have "x \<notin> set xs" if "P x"
    using Cons.prems [of 0 "Suc j" for j] that by (force simp: in_set_conv_nth)
  ultimately show ?case by auto
qed simp

lemma unat_drop_bit: "unat (drop_bit n x) = unat x div 2 ^ n" for x :: u64
  unfolding unsigned_drop_bit_eq using unat_u64_less [of x] by (simp add: drop_bit_eq_div take_bit_nat_eq_self)

lemma sint_ucast_small:
  fixes w :: u64
  assumes "unat w < 2 ^ 31" shows "sint (ucast w :: 32 word) = int (unat w)"
proof -
  have "int (unat w) < int (2 ^ 31)" using assms by (simp only: of_nat_less_iff)
  then have "uint w < 2 ^ 31" by simp
  then have "uint (ucast w :: 32 word) = uint w" unfolding unsigned_ucast_eq by (simp add: take_bit_int_eq_self)
  moreover have "- (2 ^ 31) \<le> uint w" by (rule order_trans [of _ 0]) simp_all
  ultimately show ?thesis using \<open>uint w < 2 ^ 31\<close> by (simp add: sint_uint signed_take_bit_int_eq_self)
qed

lemma u32_left: "unat x < 2 ^ 32 \<Longrightarrow> ucast (ucast x :: 32 word) = x" for x :: u64
  by (simp add: word_unat_eq_iff unsigned_ucast_eq unsigned_take_bit_eq take_bit_nat_eq_self)

end
