(* ===== verification/Bitmap.thy ===== *)
theory Bitmap
  imports Minos_Prelude
begin

text \<open>
  Bit searches and bitmaps: \<^verbatim>\<open>os/arch/aarch64/include/asm/bitops.h\<close>,
  \<^verbatim>\<open>os/core/find_bit.c\<close> and \<^verbatim>\<open>os/core/bitmap.c\<close>. A bitmap is the
  list of its 64-bit words; bit numbers and sizes are natural numbers, because every search
  is bounded by the size of the map. \<open>bm_bit\<close> reads one bit, and every operation is
  characterised by what it does to \<open>bm_bit\<close>.
\<close>

section \<open>Words\<close>

text \<open>
  \<^verbatim>\<open>__ffs\<close>: binary search for the lowest set bit. \<open>ffs_half\<close> is one
  \<^verbatim>\<open>if ((word & m) == 0) { num += k; word >>= k; }\<close>.
\<close>

fun ffs_half :: "u64 \<Rightarrow> nat \<Rightarrow> nat \<times> u64 \<Rightarrow> nat \<times> u64" where
  "ffs_half m k (num, w) = (if w AND m = 0 then (num + k, drop_bit k w) else (num, w))"

definition bit_ffs :: "u64 \<Rightarrow> nat" where
  "bit_ffs word =
    (let s1 = ffs_half 0xffffffff 32 (0, word);
         s2 = ffs_half 0xffff 16 s1;
         s3 = ffs_half 0xff 8 s2;
         s4 = ffs_half 0xf 4 s3;
         (num, w) = ffs_half 0x3 2 s4
     in if w AND 0x1 = 0 then num + 1 else num)"

text \<open>
  \<^verbatim>\<open>__fls\<close>: the same search from the top; \<open>fls_half\<close> is one
  \<^verbatim>\<open>if (!(word & (~0ul << (64 - k)))) { num -= k; word <<= k; }\<close>.
\<close>

fun fls_half :: "nat \<Rightarrow> nat \<times> u64 \<Rightarrow> nat \<times> u64" where
  "fls_half k (num, w) =
    (if w AND push_bit (64 - k) (NOT 0) = 0 then (num - k, push_bit k w) else (num, w))"

definition bit_fls :: "u64 \<Rightarrow> nat" where
  "bit_fls word =
    (let s1 = fls_half 32 (64 - 1, word);
         s2 = fls_half 16 s1;
         s3 = fls_half 8 s2;
         s4 = fls_half 4 s3;
         (num, w) = fls_half 2 s4
     in if w AND push_bit (64 - 1) (NOT 0) = 0 then num - 1 else num)"

definition ffz :: "u64 \<Rightarrow> nat" where
  "ffz x = bit_ffs (NOT x)"

definition first_set :: "u64 \<Rightarrow> nat \<Rightarrow> bool" where
  "first_set w n \<longleftrightarrow> bit w n \<and> (\<forall>i<n. \<not> bit w i)"

definition last_set :: "u64 \<Rightarrow> nat \<Rightarrow> bool" where
  "last_set w n \<longleftrightarrow> bit w n \<and> (\<forall>i>n. \<not> bit w i)"

lemma first_set_unique: "first_set w m \<Longrightarrow> first_set w n \<Longrightarrow> m = n"
  unfolding first_set_def by (metis linorder_neqE_nat)

lemma and_mask_eq_0_iff: "w AND mask k = 0 \<longleftrightarrow> (\<forall>i<k. \<not> bit w i)" for w :: u64
  by (auto simp: bit_eq_iff bit_simps dest: bit_u64_lt)

lemma and_one_eq_0_iff: "w AND 1 = 0 \<longleftrightarrow> \<not> bit w 0" for w :: u64
  using and_mask_eq_0_iff [of w 1] by simp

text \<open>
  The state of the search: what is left of the word, shifted, has a set bit in its first
  \<open>k\<close> positions, and its first set bit is the first set bit of the whole word.
\<close>

definition ffs_inv :: "u64 \<Rightarrow> nat \<Rightarrow> nat \<times> u64 \<Rightarrow> bool" where
  "ffs_inv v k s \<longleftrightarrow> (\<exists>i<k. bit (snd s) i) \<and> (\<forall>m. first_set (snd s) m \<longrightarrow> first_set v (fst s + m))"

lemma ffs_half_inv:
  assumes "ffs_inv v (2 * k) s" shows "ffs_inv v k (ffs_half (mask k) k s)"
proof (cases s)
  case (Pair n w)
  show ?thesis
  proof (cases "w AND mask k = 0")
    case True
    then have low: "\<forall>i<k. \<not> bit w i" by (simp add: and_mask_eq_0_iff)
    with assms Pair obtain i where i: "i < 2 * k" "k \<le> i" "bit w i"
      by (auto simp: ffs_inv_def) (metis not_less)
    have "first_set w (k + m)" if "first_set (drop_bit k w) m" for m
      using that low unfolding first_set_def bit_drop_bit_eq
      by (auto simp: not_less) (metis le_add_diff_inverse nat_add_left_cancel_less not_less)
    moreover have "i - k < k" "bit (drop_bit k w) (i - k)"
      using i by (auto simp: bit_drop_bit_eq)
    ultimately show ?thesis
      using assms True Pair by (auto simp: ffs_inv_def add.assoc)
  next
    case False
    then have "\<exists>i<k. bit w i" by (simp add: and_mask_eq_0_iff)
    with False assms Pair show ?thesis by (auto simp: ffs_inv_def)
  qed
qed

lemma first_set_bit_ffs:
  assumes "w \<noteq> 0" shows "first_set w (bit_ffs w)"
proof -
  have "ffs_inv w (2 * 32) (0, w)"
    using word_bit_ex [OF assms] bit_imp_le_length by (fastforce simp: ffs_inv_def)
  from ffs_half_inv [OF this] have "ffs_inv w (2 * 16) (ffs_half (mask 32) 32 (0, w))" by simp
  from ffs_half_inv [OF this]
  have "ffs_inv w (2 * 8) (ffs_half (mask 16) 16 (ffs_half (mask 32) 32 (0, w)))" by simp
  from ffs_half_inv [OF this] have "ffs_inv w (2 * 4)
    (ffs_half (mask 8) 8 (ffs_half (mask 16) 16 (ffs_half (mask 32) 32 (0, w))))" by simp
  from ffs_half_inv [OF this] have "ffs_inv w (2 * 2) (ffs_half (mask 4) 4
    (ffs_half (mask 8) 8 (ffs_half (mask 16) 16 (ffs_half (mask 32) 32 (0, w)))))" by simp
  from ffs_half_inv [OF this] obtain n v where
    nv: "ffs_half (mask 2) 2 (ffs_half (mask 4) 4 (ffs_half (mask 8) 8
      (ffs_half (mask 16) 16 (ffs_half (mask 32) 32 (0, w))))) = (n, v)"
    and inv: "ffs_inv w 2 (n, v)"
    by (metis surj_pair)
  have "first_set v (if v AND 1 = 0 then 1 else 0)"
    using inv by (auto simp: ffs_inv_def first_set_def and_one_eq_0_iff less_2_cases_iff)
  then have "first_set w (if v AND 1 = 0 then n + 1 else n)"
    using inv by (auto simp: ffs_inv_def split: if_splits)
  moreover have "bit_ffs w = (if v AND 1 = 0 then n + 1 else n)"
    unfolding bit_ffs_def mask_literals Let_def by (simp add: nv del: ffs_half.simps)
  ultimately show ?thesis by simp
qed

lemma bit_ffs_less: "w \<noteq> 0 \<Longrightarrow> bit_ffs w < 64"
  using first_set_bit_ffs [of w] bit_imp_le_length unfolding first_set_def by fastforce

text \<open>The search from the top, with the same kind of invariant.\<close>

definition fls_inv :: "u64 \<Rightarrow> nat \<Rightarrow> nat \<times> u64 \<Rightarrow> bool" where
  "fls_inv v k s \<longleftrightarrow> k \<le> fst s + 1 \<and> fst s \<le> 63 \<and> snd s = push_bit (63 - fst s) v \<and>
     (\<forall>i>fst s. \<not> bit v i) \<and> (\<exists>i\<ge>64 - k. bit (snd s) i)"

lemma and_not_mask_eq_0_iff: "w AND NOT (mask m) = 0 \<longleftrightarrow> (\<forall>i\<ge>m. \<not> bit w i)" for w :: u64
  by (auto simp: bit_eq_iff bit_simps dest: bit_u64_lt) (meson not_less)

lemma fls_half_inv:
  assumes inv: "fls_inv v (2 * k) s" and k: "2 * k \<le> 64"
  shows "fls_inv v k (fls_half k s)"
proof (cases s)
  case (Pair n w)
  note inv' = inv [unfolded fls_inv_def Pair, simplified]
  show ?thesis
  proof (cases "\<forall>i\<ge>64 - k. \<not> bit w i")
    case True
    have "\<not> bit v i" if i: "n - k < i" for i
    proof (cases "i \<le> n")
      case True
      have "64 - k \<le> i + (63 - n)" using i inv' by linarith
      with \<open>\<forall>i\<ge>64 - k. \<not> bit w i\<close> have "\<not> bit w (i + (63 - n))" by simp
      moreover have "i + (63 - n) < 64" using True inv' by linarith
      ultimately show ?thesis using inv' by (auto simp: bit_simps)
    qed (use inv' in simp)
    moreover obtain i where i: "64 - 2 * k \<le> i" "bit w i" using inv' by auto
    then have "i < 64 - k" using True by (meson not_le)
    with i k have "bit (push_bit k w) (i + k)" "64 - k \<le> i + k" by (auto simp: bit_simps)
    moreover have "63 - (n - k) = 63 - n + k" using inv' by linarith
    ultimately show ?thesis
      using True inv' Pair k
      by (auto simp: fls_inv_def and_not_mask_eq_0_iff push_bit_push_bit add.commute)
  next
    case False
    with inv' Pair k show ?thesis by (auto simp: fls_inv_def and_not_mask_eq_0_iff)
  qed
qed

lemma last_set_bit_fls:
  assumes "w \<noteq> 0" shows "last_set w (bit_fls w)"
proof -
  have "fls_inv w (2 * 32) (63, w)"
    using word_bit_ex [OF assms] by (auto simp: fls_inv_def dest: bit_u64_lt)
  from fls_half_inv [OF this] have "fls_inv w (2 * 16) (fls_half 32 (63, w))" by simp
  from fls_half_inv [OF this] have "fls_inv w (2 * 8) (fls_half 16 (fls_half 32 (63, w)))" by simp
  from fls_half_inv [OF this]
  have "fls_inv w (2 * 4) (fls_half 8 (fls_half 16 (fls_half 32 (63, w))))" by simp
  from fls_half_inv [OF this]
  have "fls_inv w (2 * 2) (fls_half 4 (fls_half 8 (fls_half 16 (fls_half 32 (63, w)))))" by simp
  from fls_half_inv [OF this] obtain n v where
    nv: "fls_half 2 (fls_half 4 (fls_half 8 (fls_half 16 (fls_half 32 (63, w))))) = (n, v)"
    and inv: "fls_inv w 2 (n, v)"
    by (metis surj_pair numeral_le_iff semiring_norm(71,68,69,73,76,78) mult_2 numeral_Bit0)
  have "fls_inv w 1 (fls_half 1 (n, v))" by (rule fls_half_inv) (use inv in simp_all)
  then obtain m u where mu: "fls_half 1 (n, v) = (m, u)" "fls_inv w 1 (m, u)" by (metis surj_pair)
  then obtain i where i: "63 \<le> i" "bit u i" by (auto simp: fls_inv_def)
  then have "i = 63" using bit_u64_lt [OF i(2)] by simp
  with i have "bit u 63" by simp
  with mu have "last_set w m" by (auto simp: fls_inv_def last_set_def bit_simps)
  then have "last_set w (fst (fls_half 1 (n, v)))" using mu by simp
  moreover have "bit_fls w = fst (fls_half 1 (n, v))"
    unfolding bit_fls_def Let_def using nv by (simp del: fls_half.simps) simp
  ultimately show ?thesis by simp
qed

section \<open>Searching a bitmap\<close>

type_synonym bitmap = "u64 list"

definition bm_bit :: "bitmap \<Rightarrow> nat \<Rightarrow> bool" where
  "bm_bit bm i \<longleftrightarrow> bit (bm ! (i div 64)) (i mod 64)"

text \<open>The masks of \<^verbatim>\<open>bitmap.h\<close> and the word index.\<close>

definition BIT_WORD :: "nat \<Rightarrow> nat" where
  "BIT_WORD nr = nr div 64"

definition BITMAP_FIRST_WORD_MASK :: "nat \<Rightarrow> u64" where
  "BITMAP_FIRST_WORD_MASK start = push_bit (start mod 64) (NOT 0)"

definition BITMAP_LAST_WORD_MASK :: "nat \<Rightarrow> u64" where
  "BITMAP_LAST_WORD_MASK nbits = drop_bit (unat ((- word_of_nat nbits :: u64) AND 63)) (NOT 0)"

lemma bit_first_word_mask [bm_simps]:
  "bit (BITMAP_FIRST_WORD_MASK start) j \<longleftrightarrow> start mod 64 \<le> j \<and> j < 64"
  by (auto simp: BITMAP_FIRST_WORD_MASK_def bit_simps)

lemma uint_neg_and_63: "uint ((- word_of_nat n :: u64) AND 63) = (- int n) mod 64"
proof -
  have "(63 :: u64) = mask 6" by (simp add: mask_eq_exp_minus_1)
  moreover have "- word_of_nat n = (word_of_int (- int n) :: u64)" by simp
  ultimately have "(- word_of_nat n :: u64) AND 63 = take_bit 6 (word_of_int (- int n) :: u64)"
    by (simp only: take_bit_eq_mask)
  also have "uint \<dots> = take_bit 6 (- int n)"
    by (simp add: unsigned_take_bit_eq unsigned_of_int del: of_int_minus)
  finally show ?thesis by (simp add: take_bit_eq_mod)
qed

lemma neg_and_63: "unat ((- word_of_nat n :: u64) AND 63) = (64 - n mod 64) mod 64"
proof -
  have "int ((64 - n mod 64) mod 64) = (- int n) mod 64"
  proof (cases "n mod 64 = 0")
    case False
    then have "int n mod 64 \<noteq> 0" by (metis of_nat_eq_0_iff of_nat_mod of_nat_numeral)
    with False show ?thesis by (simp add: zmod_zminus1_eq_if of_nat_diff of_nat_mod)
  qed (auto simp: zmod_zminus1_eq_if simp flip: of_nat_mod)
  then show ?thesis by (simp add: unat_eq_nat_uint uint_neg_and_63 nat_eq_iff)
qed

lemma bit_last_word_mask [bm_simps]:
  "bit (BITMAP_LAST_WORD_MASK nbits) j \<longleftrightarrow> j < (if nbits mod 64 = 0 then 64 else nbits mod 64)"
  unfolding BITMAP_LAST_WORD_MASK_def neg_and_63
  by (auto simp: bit_drop_bit_eq bit_simps)

text \<open>
  \<^verbatim>\<open>_find_next_bit\<close>: \<open>find_next_loop\<close> is its \<open>while (!tmp)\<close> and the
  final \<open>min\<close>. \<open>invert\<close> is 0 or all ones.
\<close>

function find_next_loop :: "bitmap \<Rightarrow> nat \<Rightarrow> u64 \<Rightarrow> nat \<Rightarrow> u64 \<Rightarrow> nat" where
  "find_next_loop addr nbits invert start tmp =
    (if tmp = 0 then
       (let start' = start + 64 in
        if start' \<ge> nbits then nbits
        else find_next_loop addr nbits invert start' ((addr ! (start' div 64)) XOR invert))
     else min (start + bit_ffs tmp) nbits)"
  by pat_completeness auto
termination
  by (relation "measure (\<lambda>(addr, nbits, invert, start, tmp). nbits - start)") auto

declare find_next_loop.simps [simp del]

definition find_next_bit_gen :: "bitmap \<Rightarrow> nat \<Rightarrow> nat \<Rightarrow> u64 \<Rightarrow> nat" where
  "find_next_bit_gen addr nbits start invert =
    (if nbits = 0 \<or> start \<ge> nbits then nbits
     else
       let tmp = (addr ! (start div 64)) XOR invert;
           tmp = tmp AND BITMAP_FIRST_WORD_MASK start;
           start = start div 64 * 64
       in find_next_loop addr nbits invert start tmp)"

definition find_next_bit :: "bitmap \<Rightarrow> nat \<Rightarrow> nat \<Rightarrow> nat" where
  "find_next_bit addr sz offset = find_next_bit_gen addr sz offset 0"

definition find_next_zero_bit :: "bitmap \<Rightarrow> nat \<Rightarrow> nat \<Rightarrow> nat" where
  "find_next_zero_bit addr sz offset = find_next_bit_gen addr sz offset (NOT 0)"

text \<open>
  \<^verbatim>\<open>_find_next_bit_loop\<close>: the \<open>goto loop\<close> is taken at most once, with offset 0.
\<close>

definition find_next_bit_loop_gen :: "bitmap \<Rightarrow> nat \<Rightarrow> nat \<Rightarrow> u64 \<Rightarrow> nat" where
  "find_next_bit_loop_gen addr sz offset invert =
    (let bit = find_next_bit_gen addr sz offset invert in
     if bit \<ge> sz \<and> offset \<noteq> 0 then find_next_bit_gen addr sz 0 invert else bit)"

definition find_next_bit_loop :: "bitmap \<Rightarrow> nat \<Rightarrow> nat \<Rightarrow> nat" where
  "find_next_bit_loop addr sz offset = find_next_bit_loop_gen addr sz offset 0"

definition find_next_zero_bit_loop :: "bitmap \<Rightarrow> nat \<Rightarrow> nat \<Rightarrow> nat" where
  "find_next_zero_bit_loop addr sz offset = find_next_bit_loop_gen addr sz offset (NOT 0)"

text \<open>\<^verbatim>\<open>find_first_bit\<close> and \<^verbatim>\<open>find_first_zero_bit\<close>: the loops over \<open>idx\<close>.\<close>

function find_first_bit_from :: "bitmap \<Rightarrow> nat \<Rightarrow> nat \<Rightarrow> nat" where
  "find_first_bit_from addr sz idx =
    (if idx * 64 < sz then
       if addr ! idx \<noteq> 0 then min (idx * 64 + bit_ffs (addr ! idx)) sz
       else find_first_bit_from addr sz (idx + 1)
     else sz)"
  by pat_completeness auto
termination
  by (relation "measure (\<lambda>(addr, sz, idx). sz - idx * 64)") auto

declare find_first_bit_from.simps [simp del]

definition find_first_bit :: "bitmap \<Rightarrow> nat \<Rightarrow> nat" where
  "find_first_bit addr sz = find_first_bit_from addr sz 0"

function find_first_zero_bit_from :: "bitmap \<Rightarrow> nat \<Rightarrow> nat \<Rightarrow> nat" where
  "find_first_zero_bit_from addr sz idx =
    (if idx * 64 < sz then
       if addr ! idx \<noteq> NOT 0 then min (idx * 64 + ffz (addr ! idx)) sz
       else find_first_zero_bit_from addr sz (idx + 1)
     else sz)"
  by pat_completeness auto
termination
  by (relation "measure (\<lambda>(addr, sz, idx). sz - idx * 64)") auto

declare find_first_zero_bit_from.simps [simp del]

definition find_first_zero_bit :: "bitmap \<Rightarrow> nat \<Rightarrow> nat" where
  "find_first_zero_bit addr sz = find_first_zero_bit_from addr sz 0"

text \<open>\<^verbatim>\<open>find_last_bit\<close>: the \<open>do ... while (idx--)\<close> loop goes down to index 0.\<close>

fun find_last_bit_down :: "bitmap \<Rightarrow> nat \<Rightarrow> nat \<Rightarrow> u64 \<Rightarrow> nat" where
  "find_last_bit_down addr sz idx val =
    (let val = val AND addr ! idx in
     if val \<noteq> 0 then idx * 64 + bit_fls val
     else case idx of 0 \<Rightarrow> sz | Suc idx' \<Rightarrow> find_last_bit_down addr sz idx' (NOT 0))"

definition find_last_bit :: "bitmap \<Rightarrow> nat \<Rightarrow> nat" where
  "find_last_bit addr sz =
    (if sz \<noteq> 0
     then find_last_bit_down addr sz ((sz - 1) div 64) (BITMAP_LAST_WORD_MASK sz)
     else sz)"

subsection \<open>The reference search\<close>

text \<open>
  What every search computes: the first position from \<open>s\<close> that satisfies \<open>P\<close>, or the
  size \<open>n\<close> if there is none.
\<close>

definition search_from :: "(nat \<Rightarrow> bool) \<Rightarrow> nat \<Rightarrow> nat \<Rightarrow> nat" where
  "search_from P n s = (case filter P [s..<n] of [] \<Rightarrow> n | i # _ \<Rightarrow> i)"

lemma search_from_ge [simp]: "n \<le> s \<Longrightarrow> search_from P n s = n"
  by (simp add: search_from_def)

lemma search_from_unfold:
  "s < n \<Longrightarrow> search_from P n s = (if P s then s else search_from P n (Suc s))"
  by (simp add: search_from_def upt_conv_Cons)

lemma search_from_le: "search_from P n s \<le> n"
proof (induction "n - s" arbitrary: s)
  case (Suc d)
  then show ?case
    by (cases "s < n") (auto simp: search_from_unfold)
qed simp

lemma search_from_skip:
  assumes "\<And>i. s \<le> i \<Longrightarrow> i < t \<Longrightarrow> \<not> P i" "t \<le> n" "s \<le> t"
  shows "search_from P n s = search_from P n t"
  using assms
proof (induction "t - s" arbitrary: s)
  case (Suc d)
  then have "s < t" by simp
  with Suc.prems Suc.hyps(1) [of "Suc s"] Suc.hyps(2) show ?case
    by (simp add: search_from_unfold)
qed simp

lemma search_from_eqI:
  assumes "s \<le> r" "r < n" "P r" "\<And>i. s \<le> i \<Longrightarrow> i < r \<Longrightarrow> \<not> P i"
  shows "search_from P n s = r"
  using search_from_skip [of s r P n] assms by (simp add: search_from_unfold)

lemma search_from_none:
  "(\<And>i. s \<le> i \<Longrightarrow> i < n \<Longrightarrow> \<not> P i) \<Longrightarrow> search_from P n s = n"
  using search_from_skip [of s n P n] by (cases "s \<le> n") auto

lemma search_from_correct:
  assumes "search_from P n s < n"
  shows "P (search_from P n s)" "s \<le> search_from P n s"
  using assms by (induction "n - s" arbitrary: s) (auto simp: search_from_unfold Suc_diff_le
      not_less intro: Suc_leD split: if_splits)

lemma search_from_before: "s \<le> i \<Longrightarrow> i < search_from P n s \<Longrightarrow> \<not> P i"
proof (induction "n - s" arbitrary: s)
  case (Suc d)
  then have "s < n" by simp
  show ?case
  proof (cases "i = s")
    case False
    then show ?thesis
      using Suc.prems Suc.hyps(1) [of "Suc s"] Suc.hyps(2) \<open>s < n\<close>
      by (auto simp: search_from_unfold split: if_splits)
  qed (use Suc.prems \<open>s < n\<close> in \<open>auto simp: search_from_unfold split: if_splits\<close>)
qed simp

subsection \<open>The searches compute the reference search\<close>

definition bm_xbit :: "bitmap \<Rightarrow> u64 \<Rightarrow> nat \<Rightarrow> bool" where
  "bm_xbit addr invert i \<longleftrightarrow> bit ((addr ! (i div 64)) XOR invert) (i mod 64)"

lemma bm_xbit_0: "bm_xbit addr 0 = bm_bit addr"
  by (auto simp: bm_xbit_def bm_bit_def)

lemma bm_xbit_not0: "bm_xbit addr (- 1) = (\<lambda>i. \<not> bm_bit addr i)"
  by (rule ext) (simp add: bm_xbit_def bm_bit_def bit_simps)

text \<open>The bits of the word of \<open>s\<close>, masked below \<open>s\<close>.\<close>

lemma bit_masked_word:
  assumes "start mod 64 = 0" "start \<le> s" "s < start + 64" "i < 64"
  shows "bit (((addr ! (start div 64)) XOR invert) AND BITMAP_FIRST_WORD_MASK s) i
    \<longleftrightarrow> s \<le> start + i \<and> bm_xbit addr invert (start + i)"
proof -
  have "(start + i) div 64 = start div 64" "(start + i) mod 64 = i"
    using assms by auto
  moreover obtain q where "start = 64 * q" using assms(1) by (auto simp: mod_eq_0_iff_dvd)
  then have "s div 64 = q" using assms by (intro div_nat_eqI) auto
  then have "s = start + s mod 64" using \<open>start = 64 * q\<close> by (metis mult_div_mod_eq)
  then have "s mod 64 \<le> i \<longleftrightarrow> s \<le> start + i" by linarith
  ultimately show ?thesis
    using assms(4) by (auto simp: bm_xbit_def bit_and_iff bm_simps)
qed

lemma first_word_mask_0 [simp]: "n mod 64 = 0 \<Longrightarrow> BITMAP_FIRST_WORD_MASK n = NOT 0"
  by (simp add: BITMAP_FIRST_WORD_MASK_def)

lemma find_next_loop_eq:
  assumes "start mod 64 = 0" "start \<le> s" "s < start + 64"
    and "tmp = ((addr ! (start div 64)) XOR invert) AND BITMAP_FIRST_WORD_MASK s"
  shows "find_next_loop addr nbits invert start tmp = search_from (bm_xbit addr invert) nbits s"
  using assms
proof (induction addr nbits invert start tmp arbitrary: s rule: find_next_loop.induct)
  case (1 addr nbits invert start tmp)
  let ?P = "bm_xbit addr invert"
  have bits: "bit tmp i \<longleftrightarrow> s \<le> start + i \<and> ?P (start + i)" if "i < 64" for i
    using bit_masked_word [of start s i addr invert] "1.prems" that by simp
  show ?case
  proof (cases "tmp = 0")
    case True
    have none: "\<not> ?P i" if "s \<le> i" "i < start + 64" for i
      using bits [of "i - start"] True that "1.prems" by auto
    show ?thesis
    proof (cases "start + 64 \<ge> nbits")
      case True
      then have "search_from ?P nbits s = nbits" using none by (intro search_from_none) auto
      with \<open>tmp = 0\<close> True show ?thesis by (simp add: find_next_loop.simps [of addr nbits invert start])
    next
      case False
      then have "search_from ?P nbits s = search_from ?P nbits (start + 64)"
        using none "1.prems" by (intro search_from_skip) auto
      moreover have "find_next_loop addr nbits invert (start + 64)
          ((addr ! ((start + 64) div 64)) XOR invert) = search_from ?P nbits (start + 64)"
        by (rule "1.IH" [OF \<open>tmp = 0\<close> refl False]) (use "1.prems" in auto)
      ultimately show ?thesis
        using \<open>tmp = 0\<close> False by (simp add: find_next_loop.simps [of addr nbits invert start])
    qed
  next
    case False
    from first_set_bit_ffs [OF this] bit_ffs_less [OF this]
    have j: "bit_ffs tmp < 64" "bit tmp (bit_ffs tmp)" "\<forall>i<bit_ffs tmp. \<not> bit tmp i"
      by (auto simp: first_set_def)
    have before: "\<not> ?P i" if "s \<le> i" "i < start + bit_ffs tmp" for i
      using bits [of "i - start"] j that "1.prems" by auto
    have "search_from ?P nbits s = min (start + bit_ffs tmp) nbits"
    proof (cases "start + bit_ffs tmp < nbits")
      case True
      then have "search_from ?P nbits s = start + bit_ffs tmp"
        using bits [OF j(1)] j(2) before by (intro search_from_eqI) auto
      with True show ?thesis by simp
    next
      case False
      then have "search_from ?P nbits s = nbits" using before by (intro search_from_none) auto
      with False show ?thesis by simp
    qed
    with False show ?thesis by (simp add: find_next_loop.simps [of addr nbits invert start])
  qed
qed

lemma find_next_bit_gen_eq:
  "find_next_bit_gen addr nbits start invert = search_from (bm_xbit addr invert) nbits start"
proof (cases "nbits = 0 \<or> start \<ge> nbits")
  case False
  have "start div 64 * 64 div 64 = start div 64" by simp
  then have "find_next_loop addr nbits invert (start div 64 * 64)
      (((addr ! (start div 64)) XOR invert) AND BITMAP_FIRST_WORD_MASK start)
    = search_from (bm_xbit addr invert) nbits start"
    by (intro find_next_loop_eq) (auto simp: div_mult_mod_eq intro: order_le_less_trans)
  with False show ?thesis by (simp add: find_next_bit_gen_def Let_def)
qed (auto simp: find_next_bit_gen_def)

lemma find_next_bit_eq: "find_next_bit addr sz s = search_from (bm_bit addr) sz s"
  by (simp add: find_next_bit_def find_next_bit_gen_eq bm_xbit_0)

lemma find_next_zero_bit_eq:
  "find_next_zero_bit addr sz s = search_from (\<lambda>i. \<not> bm_bit addr i) sz s"
  by (simp add: find_next_zero_bit_def find_next_bit_gen_eq bm_xbit_not0)

lemma find_next_bit_loop_gen_eq:
  "find_next_bit_loop_gen addr sz offset invert =
    (if search_from (bm_xbit addr invert) sz offset < sz
     then search_from (bm_xbit addr invert) sz offset
     else search_from (bm_xbit addr invert) sz 0)"
  by (auto simp: find_next_bit_loop_gen_def find_next_bit_gen_eq Let_def)

text \<open>
  The wrapping search finds a clear bit whenever there is one anywhere in the map, wherever
  it starts; this is what the block allocator and the virq allocator rely on.
\<close>

lemma find_next_zero_bit_loop_found:
  assumes "find_next_zero_bit_loop addr sz offset < sz"
  shows "\<not> bm_bit addr (find_next_zero_bit_loop addr sz offset)"
  using assms search_from_correct [of "\<lambda>i. \<not> bm_bit addr i" sz]
  by (auto simp: find_next_zero_bit_loop_def find_next_bit_loop_gen_eq bm_xbit_not0 split: if_splits)

lemma find_next_zero_bit_loop_none:
  "find_next_zero_bit_loop addr sz offset \<ge> sz \<longleftrightarrow> (\<forall>i < sz. bm_bit addr i)"
proof -
  let ?P = "\<lambda>i. \<not> bm_bit addr i"
  have "search_from ?P sz 0 < sz \<longleftrightarrow> (\<exists>i < sz. ?P i)"
    using search_from_correct [of ?P sz 0] search_from_before [of 0 _ ?P sz]
    by (meson linorder_not_less order_less_le_trans zero_le)
  moreover have "search_from ?P sz offset < sz \<Longrightarrow> \<exists>i < sz. ?P i"
    using search_from_correct [of ?P sz offset] by blast
  ultimately show ?thesis
    by (auto simp: find_next_zero_bit_loop_def find_next_bit_loop_gen_eq bm_xbit_not0 not_le)
qed

lemma search_from_word:
  assumes "addr ! idx XOR invert \<noteq> 0"
  shows "search_from (bm_xbit addr invert) sz (idx * 64) =
    min (idx * 64 + bit_ffs (addr ! idx XOR invert)) sz"
  using find_next_loop_eq [of "idx * 64" "idx * 64" _ addr invert sz] assms
  by (simp add: find_next_loop.simps)

lemma search_from_skip_word:
  assumes "addr ! idx XOR invert = 0" "idx * 64 < sz"
  shows "search_from (bm_xbit addr invert) sz (idx * 64)
    = search_from (bm_xbit addr invert) sz ((idx + 1) * 64)"
proof (cases "(idx + 1) * 64 < sz")
  case True
  then show ?thesis
    using find_next_loop_eq [of "idx * 64" "idx * 64" _ addr invert sz]
      find_next_loop_eq [of "(idx + 1) * 64" "(idx + 1) * 64" _ addr invert sz] assms
    by (simp add: find_next_loop.simps [of addr sz invert "idx * 64"] add.commute)
next
  case False
  then show ?thesis
    using find_next_loop_eq [of "idx * 64" "idx * 64" _ addr invert sz] assms
    by (simp add: find_next_loop.simps [of addr sz invert "idx * 64"])
qed

lemma find_first_bit_from_eq:
  "find_first_bit_from addr sz idx = search_from (bm_bit addr) sz (idx * 64)"
proof (induction addr sz idx rule: find_first_bit_from.induct)
  case (1 addr sz idx)
  show ?case
    using search_from_word [of addr idx 0 sz] search_from_skip_word [of addr idx 0 sz] 1
    by (auto simp: find_first_bit_from.simps [of addr sz idx] bm_xbit_0 not_less)
qed

lemma find_first_zero_bit_from_eq:
  "find_first_zero_bit_from addr sz idx = search_from (\<lambda>i. \<not> bm_bit addr i) sz (idx * 64)"
proof (induction addr sz idx rule: find_first_zero_bit_from.induct)
  case (1 addr sz idx)
  have inv: "w XOR (- 1) = NOT w" "NOT w = 0 \<longleftrightarrow> w = - 1" for w :: u64
    by (simp_all add: bit_eq_iff bit_simps)
  show ?case
    using search_from_word [of addr idx "- 1" sz] search_from_skip_word [of addr idx "- 1" sz] 1
    by (auto simp: find_first_zero_bit_from.simps [of addr sz idx] bm_xbit_not0 not_less ffz_def inv)
qed

lemma find_first_bit_eq: "find_first_bit addr sz = search_from (bm_bit addr) sz 0"
  by (simp add: find_first_bit_def find_first_bit_from_eq)

lemma find_first_zero_bit_eq:
  "find_first_zero_bit addr sz = search_from (\<lambda>i. \<not> bm_bit addr i) sz 0"
  by (simp add: find_first_zero_bit_def find_first_zero_bit_from_eq)

text \<open>
  \<^verbatim>\<open>for_each_set_bit\<close>: the positions the loop visits, from \<open>bit\<close>.
\<close>

function for_each_set_bit_from :: "bitmap \<Rightarrow> nat \<Rightarrow> nat \<Rightarrow> nat list" where
  "for_each_set_bit_from addr sz b =
    (if b < sz then b # for_each_set_bit_from addr sz (find_next_bit addr sz (b + 1)) else [])"
  by pat_completeness auto
termination
proof (relation "measure (\<lambda>(addr, sz, b). sz - b)")
  fix addr sz and b :: nat
  assume "b < sz"
  then show "((addr, sz, find_next_bit addr sz (b + 1)), (addr, sz, b))
      \<in> measure (\<lambda>(addr, sz, b). sz - b)"
    using search_from_correct(2) [of "bm_bit addr" sz "b + 1"]
    by (auto simp: find_next_bit_eq) (meson Suc_le_lessD diff_less_mono2 linorder_not_less
        less_le_trans diff_is_0_eq zero_less_diff)
qed simp

declare for_each_set_bit_from.simps [simp del]

definition for_each_set_bit :: "bitmap \<Rightarrow> nat \<Rightarrow> nat list" where
  "for_each_set_bit addr sz = for_each_set_bit_from addr sz (find_first_bit addr sz)"

lemma for_each_set_bit_from_eq:
  "for_each_set_bit_from addr sz (search_from (bm_bit addr) sz s) = filter (bm_bit addr) [s..<sz]"
proof (induction "sz - s" arbitrary: s rule: less_induct)
  case less
  let ?r = "search_from (bm_bit addr) sz s"
  show ?case
  proof (cases "?r < sz")
    case True
    from search_from_correct [OF True] have r: "bm_bit addr ?r" "s \<le> ?r" by auto
    have "filter (bm_bit addr) [s..<?r] = []"
      using search_from_before [of s _ "bm_bit addr" sz] by (auto simp: filter_empty_conv)
    moreover have "[s..<sz] = [s..<?r] @ ?r # [Suc ?r..<sz]"
      using r True by (metis le_add_diff_inverse less_imp_le upt_add_eq_append upt_conv_Cons)
    ultimately have "filter (bm_bit addr) [s..<sz] = ?r # filter (bm_bit addr) [Suc ?r..<sz]"
      using r by simp
    then show ?thesis
      using less [of "Suc ?r"] True r
      by (simp add: for_each_set_bit_from.simps [of addr sz ?r] find_next_bit_eq)
  next
    case False
    then have "filter (bm_bit addr) [s..<sz] = []"
      using search_from_before [of s _ "bm_bit addr" sz] search_from_le [of "bm_bit addr" sz s]
      by (auto simp: filter_empty_conv)
    with False show ?thesis by (simp add: for_each_set_bit_from.simps)
  qed
qed

lemma for_each_set_bit_eq: "for_each_set_bit addr sz = filter (bm_bit addr) [0..<sz]"
  by (simp add: for_each_set_bit_def find_first_bit_eq for_each_set_bit_from_eq)

section \<open>Updating a bitmap\<close>

text \<open>
  The atomic bit operations of \<^verbatim>\<open>bitops.h\<close> (\<open>*addr |= bit\<close> and so on,
  as \<^verbatim>\<open>bitmap.h\<close> documents them); bit \<open>nr\<close> of a little-endian array of
  words is bit \<open>nr mod 64\<close> of word \<open>nr div 64\<close>.
\<close>

definition bm_set_bit :: "nat \<Rightarrow> bitmap \<Rightarrow> bitmap" where
  "bm_set_bit nr p = p[nr div 64 := (p ! (nr div 64)) OR push_bit (nr mod 64) 1]"

definition bm_clear_bit :: "nat \<Rightarrow> bitmap \<Rightarrow> bitmap" where
  "bm_clear_bit nr p = p[nr div 64 := (p ! (nr div 64)) AND NOT (push_bit (nr mod 64) 1)]"

definition bm_test_bit :: "nat \<Rightarrow> bitmap \<Rightarrow> bool" where
  "bm_test_bit nr p = bm_bit p nr"

definition bm_test_and_set_bit :: "nat \<Rightarrow> bitmap \<Rightarrow> bool \<times> bitmap" where
  "bm_test_and_set_bit nr p = (bm_bit p nr, bm_set_bit nr p)"

lemma length_bm_set_bit [simp]: "length (bm_set_bit nr p) = length p"
  by (simp add: bm_set_bit_def)

lemma length_bm_clear_bit [simp]: "length (bm_clear_bit nr p) = length p"
  by (simp add: bm_clear_bit_def)

lemma bm_bit_update:
  assumes "nr div 64 < length p" "\<And>j. j < 64 \<Longrightarrow> bit w j = (if j = nr mod 64 then v else bit (p ! (nr div 64)) j)"
  shows "bm_bit (p[nr div 64 := w]) i = (if i = nr then v else bm_bit p i)"
  using assms by (auto simp: bm_bit_def nth_list_update div_mod_64_eq_iff [of i nr])

lemma bm_bit_set_bit [bm_simps]:
  "nr < 64 * length p \<Longrightarrow> bm_bit (bm_set_bit nr p) i \<longleftrightarrow> i = nr \<or> bm_bit p i"
  unfolding bm_set_bit_def
  by (subst bm_bit_update [where v = True]) (auto simp: bit_simps)

lemma bm_bit_clear_bit [bm_simps]:
  "nr < 64 * length p \<Longrightarrow> bm_bit (bm_clear_bit nr p) i \<longleftrightarrow> i \<noteq> nr \<and> bm_bit p i"
  unfolding bm_clear_bit_def
  by (subst bm_bit_update [where v = False]) (auto simp: bit_simps)

text \<open>
  \<^verbatim>\<open>bitmap_set\<close> and \<^verbatim>\<open>bitmap_clear\<close>: the loop runs over whole words
  while the rest of the range covers the current word, then masks the last word.
\<close>

function bitmap_set_loop :: "bitmap \<Rightarrow> nat \<Rightarrow> int \<Rightarrow> nat \<Rightarrow> u64 \<Rightarrow> nat \<Rightarrow> bitmap" where
  "bitmap_set_loop bm p len bits_to_set mask_to_set sz =
    (if len - int bits_to_set \<ge> 0 then
       bitmap_set_loop (bm[p := (bm ! p) OR mask_to_set]) (p + 1) (len - int bits_to_set) 64 (NOT 0) sz
     else if len \<noteq> 0 then
       bm[p := (bm ! p) OR (mask_to_set AND BITMAP_LAST_WORD_MASK sz)]
     else bm)"
  by pat_completeness auto
termination
  by (relation "measure (\<lambda>(bm, p, len, b, m, sz). nat len + (if b = 0 then 1 else 0))") auto

declare bitmap_set_loop.simps [simp del]

definition bitmap_set :: "bitmap \<Rightarrow> nat \<Rightarrow> int \<Rightarrow> bitmap" where
  "bitmap_set bm start len =
    bitmap_set_loop bm (BIT_WORD start) len (64 - start mod 64) (BITMAP_FIRST_WORD_MASK start)
      (nat (int start + len))"

function bitmap_clear_loop :: "bitmap \<Rightarrow> nat \<Rightarrow> int \<Rightarrow> nat \<Rightarrow> u64 \<Rightarrow> nat \<Rightarrow> bitmap" where
  "bitmap_clear_loop bm p len bits_to_clear mask_to_clear sz =
    (if len - int bits_to_clear \<ge> 0 then
       bitmap_clear_loop (bm[p := (bm ! p) AND NOT mask_to_clear]) (p + 1)
         (len - int bits_to_clear) 64 (NOT 0) sz
     else if len \<noteq> 0 then
       bm[p := (bm ! p) AND NOT (mask_to_clear AND BITMAP_LAST_WORD_MASK sz)]
     else bm)"
  by pat_completeness auto
termination
  by (relation "measure (\<lambda>(bm, p, len, b, m, sz). nat len + (if b = 0 then 1 else 0))") auto

declare bitmap_clear_loop.simps [simp del]

definition bitmap_clear :: "bitmap \<Rightarrow> nat \<Rightarrow> int \<Rightarrow> bitmap" where
  "bitmap_clear bm start len =
    bitmap_clear_loop bm (BIT_WORD start) len (64 - start mod 64) (BITMAP_FIRST_WORD_MASK start)
      (nat (int start + len))"

text \<open>
  One word of the range: the bits of word \<open>pos div 64\<close> from \<open>pos\<close> up to \<open>pos + n\<close>.
\<close>

lemma word_range_first:
  assumes "pos div 64 < length bm"
    and "\<And>j. j < 64 \<Longrightarrow> bit w j \<longleftrightarrow> (if pos mod 64 \<le> j then v else bit (bm ! (pos div 64)) j)"
  shows "bm_bit (bm[pos div 64 := w]) i \<longleftrightarrow>
    (if pos \<le> i \<and> i < pos + (64 - pos mod 64) then v else bm_bit bm i)"
proof -
  obtain q r where q: "pos = 64 * q + r" "r < 64" "pos div 64 = q" "pos mod 64 = r"
    by (rule obtain_word_pos)
  have A: "i div 64 = q \<Longrightarrow> (r \<le> i mod 64 \<longleftrightarrow> pos \<le> i) \<and> i < pos + (64 - r)"
    using q(1,2) div_mult_mod_eq [of i 64] mod_less_divisor [of 64 i] by linarith
  have B: "pos \<le> i \<and> i < pos + (64 - r) \<Longrightarrow> i div 64 = q"
    using q(1,2) by (simp add: div_64_eq_iff)
  show ?thesis
  proof (cases "i div 64 = q")
    case True
    with A assms(1) assms(2) [of "i mod 64"] show ?thesis unfolding q(3,4) by (simp add: bm_bit_def)
  next
    case False
    with B show ?thesis unfolding q(3,4) by (auto simp: bm_bit_def)
  qed
qed

lemma word_range_last:
  assumes "pos div 64 < length bm" "0 < n" "n < 64 - pos mod 64"
    and "\<And>j. j < 64 \<Longrightarrow> bit w j \<longleftrightarrow>
      (if pos mod 64 \<le> j \<and> j < (pos + n) mod 64 then v else bit (bm ! (pos div 64)) j)"
  shows "bm_bit (bm[pos div 64 := w]) i \<longleftrightarrow> (if pos \<le> i \<and> i < pos + n then v else bm_bit bm i)"
proof -
  obtain q r where q: "pos = 64 * q + r" "r < 64" "pos div 64 = q" "pos mod 64 = r"
    by (rule obtain_word_pos)
  have "(64 * q + (r + n)) mod 64 = r + n" using assms(3) unfolding q(4) by simp
  then have m: "(pos + n) mod 64 = r + n" using q(1) by (simp add: add.assoc)
  have A: "i div 64 = q \<Longrightarrow> (r \<le> i mod 64 \<longleftrightarrow> pos \<le> i) \<and> (i mod 64 < r + n \<longleftrightarrow> i < pos + n)"
    using q(1) div_mult_mod_eq [of i 64] by linarith
  have B: "pos \<le> i \<and> i < pos + n \<Longrightarrow> i div 64 = q"
    using q(1) assms(3) unfolding q(4) div_64_eq_iff by linarith
  show ?thesis
  proof (cases "i div 64 = q")
    case True
    with A assms(1) assms(4) [of "i mod 64"] show ?thesis unfolding m q(3,4) by (simp add: bm_bit_def)
  next
    case False
    with B show ?thesis unfolding q(3,4) by (auto simp: bm_bit_def)
  qed
qed

lemma next_word_pos:
  "(pos + (64 - pos mod 64)) div 64 = pos div 64 + 1" "(pos + (64 - pos mod 64)) mod 64 = 0"
  for pos :: nat
proof -
  obtain q r where "pos = 64 * q + r" "r < 64" "pos div 64 = q" "pos mod 64 = r"
    by (rule obtain_word_pos)
  then have "pos + (64 - pos mod 64) = (pos div 64 + 1) * 64" by simp
  then show "(pos + (64 - pos mod 64)) div 64 = pos div 64 + 1"
    "(pos + (64 - pos mod 64)) mod 64 = 0" by simp_all
qed

lemma word_index_less: "0 < n \<Longrightarrow> pos + n \<le> 64 * k \<Longrightarrow> pos div 64 < k" for n pos k :: nat
  by (rule less_mult_imp_div_less) simp

lemma add_mod_word: "n < 64 - pos mod 64 \<Longrightarrow> (pos + n) mod 64 = pos mod 64 + n" for n pos :: nat
  by (metis less_diff_conv add.commute mod_add_left_eq mod_less)

lemma last_word_mask_in_word:
  "0 < n \<Longrightarrow> n < 64 - pos mod 64 \<Longrightarrow>
   bit (BITMAP_LAST_WORD_MASK (pos + n)) j \<longleftrightarrow> j < (pos + n) mod 64"
  by (simp add: bm_simps add_mod_word)

lemma range_len_pos: "len - int (64 - pos mod 64) \<ge> 0 \<Longrightarrow> 0 < nat len" for pos :: nat
  using mod_less_divisor [of 64 pos] by linarith

lemma bitmap_set_loop_bit:
  assumes "p = pos div 64" "b = 64 - pos mod 64" "m = BITMAP_FIRST_WORD_MASK pos"
    and "0 \<le> len" "sz = pos + nat len" "sz \<le> 64 * length bm"
  shows "bm_bit (bitmap_set_loop bm p len b m sz) i \<longleftrightarrow> pos \<le> i \<and> i < sz \<or> bm_bit bm i"
  using assms
proof (induction bm p len b m sz arbitrary: pos rule: bitmap_set_loop.induct)
  case (1 bm p len b m sz)
  note prems = "1.prems"
  show ?case
  proof (cases "len - int b \<ge> 0")
    case True
    let ?bm = "bm[p := (bm ! p) OR m]" and ?pos = "pos + b"
    have "pos div 64 < length bm"
      by (rule word_index_less [of "nat len"]) (use True prems range_len_pos in auto)
    then have w: "bm_bit ?bm j \<longleftrightarrow> pos \<le> j \<and> j < ?pos \<or> bm_bit bm j" for j
      unfolding prems(1,2) by (subst word_range_first [where v = True])
        (auto simp: bit_or_iff prems(3) bm_simps)
    have "bm_bit (bitmap_set_loop ?bm (p + 1) (len - int b) 64 (NOT 0) sz) i
      \<longleftrightarrow> ?pos \<le> i \<and> i < sz \<or> bm_bit ?bm i"
    proof (rule "1.IH" [OF True, of ?pos])
      show "p + 1 = ?pos div 64" "64 = 64 - ?pos mod 64" "NOT 0 = BITMAP_FIRST_WORD_MASK ?pos"
        unfolding prems(1,2) using next_word_pos [of pos] by simp_all
      show "0 \<le> len - int b" by (rule True)
      show "sz = ?pos + nat (len - int b)" using True prems(5) by linarith
      show "sz \<le> 64 * length ?bm" using prems(6) by simp
    qed
    moreover have "?pos \<le> sz" using True prems by linarith
    moreover have "bitmap_set_loop bm p len b m sz
        = bitmap_set_loop ?bm (p + 1) (len - int b) 64 (NOT 0) sz"
      using True by (subst bitmap_set_loop.simps) (simp only: if_True)
    ultimately show ?thesis by (simp only: w) (metis le_trans linorder_not_less not_less_iff_gr_or_eq
        order_less_le_trans le_add1)
  next
    case False
    show ?thesis
    proof (cases "len = 0")
      case True
      with False have "bitmap_set_loop bm p len b m sz = bm"
        by (subst bitmap_set_loop.simps) simp
      with True prems show ?thesis by auto
    next
      case nz: False
      have n: "0 < nat len" "nat len < 64 - pos mod 64" using nz False prems by auto
      have "pos div 64 < length bm" by (rule word_index_less [OF n(1)]) (use prems in simp)
      then have "bm_bit (bm[pos div 64 := (bm ! p) OR (m AND BITMAP_LAST_WORD_MASK sz)]) i
        \<longleftrightarrow> (if pos \<le> i \<and> i < pos + nat len then True else bm_bit bm i)"
        by (rule word_range_last [OF _ n])
          (auto simp: bit_simps prems(1,3,5) last_word_mask_in_word [OF n] bit_first_word_mask)
      moreover have "bitmap_set_loop bm p len b m sz = bm[p := (bm ! p) OR (m AND BITMAP_LAST_WORD_MASK sz)]"
        using False nz by (subst bitmap_set_loop.simps) simp
      ultimately show ?thesis unfolding prems(1,5) by auto
    qed
  qed
qed

lemma bitmap_clear_loop_bit:
  assumes "p = pos div 64" "b = 64 - pos mod 64" "m = BITMAP_FIRST_WORD_MASK pos"
    and "0 \<le> len" "sz = pos + nat len" "sz \<le> 64 * length bm"
  shows "bm_bit (bitmap_clear_loop bm p len b m sz) i \<longleftrightarrow> \<not> (pos \<le> i \<and> i < sz) \<and> bm_bit bm i"
  using assms
proof (induction bm p len b m sz arbitrary: pos rule: bitmap_clear_loop.induct)
  case (1 bm p len b m sz)
  note prems = "1.prems"
  show ?case
  proof (cases "len - int b \<ge> 0")
    case True
    let ?bm = "bm[p := (bm ! p) AND NOT m]" and ?pos = "pos + b"
    have "pos div 64 < length bm"
      by (rule word_index_less [of "nat len"]) (use True prems range_len_pos in auto)
    then have w: "bm_bit ?bm j \<longleftrightarrow> \<not> (pos \<le> j \<and> j < ?pos) \<and> bm_bit bm j" for j
      unfolding prems(1,2) by (subst word_range_first [where v = False])
        (auto simp: bit_simps prems(3) bm_simps)
    have "bm_bit (bitmap_clear_loop ?bm (p + 1) (len - int b) 64 (NOT 0) sz) i
      \<longleftrightarrow> \<not> (?pos \<le> i \<and> i < sz) \<and> bm_bit ?bm i"
    proof (rule "1.IH" [OF True, of ?pos])
      show "p + 1 = ?pos div 64" "64 = 64 - ?pos mod 64" "NOT 0 = BITMAP_FIRST_WORD_MASK ?pos"
        unfolding prems(1,2) using next_word_pos [of pos] by simp_all
      show "0 \<le> len - int b" by (rule True)
      show "sz = ?pos + nat (len - int b)" using True prems(5) by linarith
      show "sz \<le> 64 * length ?bm" using prems(6) by simp
    qed
    moreover have "?pos \<le> sz" using True prems by linarith
    moreover have "bitmap_clear_loop bm p len b m sz
        = bitmap_clear_loop ?bm (p + 1) (len - int b) 64 (NOT 0) sz"
      using True by (subst bitmap_clear_loop.simps) (simp only: if_True)
    ultimately show ?thesis by (simp only: w) (metis le_trans linorder_not_less not_less_iff_gr_or_eq
        order_less_le_trans le_add1)
  next
    case False
    show ?thesis
    proof (cases "len = 0")
      case True
      with False have "bitmap_clear_loop bm p len b m sz = bm"
        by (subst bitmap_clear_loop.simps) simp
      with True prems show ?thesis by auto
    next
      case nz: False
      have n: "0 < nat len" "nat len < 64 - pos mod 64" using nz False prems by auto
      have "pos div 64 < length bm" by (rule word_index_less [OF n(1)]) (use prems in simp)
      then have "bm_bit (bm[pos div 64 := (bm ! p) AND NOT (m AND BITMAP_LAST_WORD_MASK sz)]) i
        \<longleftrightarrow> (if pos \<le> i \<and> i < pos + nat len then False else bm_bit bm i)"
        by (rule word_range_last [OF _ n])
          (auto simp: bit_simps prems(1,3,5) last_word_mask_in_word [OF n] bit_first_word_mask)
      moreover have "bitmap_clear_loop bm p len b m sz = bm[p := (bm ! p) AND NOT (m AND BITMAP_LAST_WORD_MASK sz)]"
        using False nz by (subst bitmap_clear_loop.simps) simp
      ultimately show ?thesis unfolding prems(1,5) by auto
    qed
  qed
qed

lemma bm_bit_bitmap_set [bm_simps]:
  "0 \<le> len \<Longrightarrow> start + nat len \<le> 64 * length bm \<Longrightarrow>
   bm_bit (bitmap_set bm start len) i \<longleftrightarrow> start \<le> i \<and> i < start + nat len \<or> bm_bit bm i"
  unfolding bitmap_set_def by (subst bitmap_set_loop_bit) (auto simp: BIT_WORD_def nat_add_distrib)

lemma bm_bit_bitmap_clear [bm_simps]:
  "0 \<le> len \<Longrightarrow> start + nat len \<le> 64 * length bm \<Longrightarrow>
   bm_bit (bitmap_clear bm start len) i \<longleftrightarrow> \<not> (start \<le> i \<and> i < start + nat len) \<and> bm_bit bm i"
  unfolding bitmap_clear_def by (subst bitmap_clear_loop_bit) (auto simp: BIT_WORD_def nat_add_distrib)

lemma length_bitmap_set_loop [simp]: "length (bitmap_set_loop bm p len b m sz) = length bm"
  by (induction bm p len b m sz rule: bitmap_set_loop.induct) (subst bitmap_set_loop.simps, simp)

lemma length_bitmap_clear_loop [simp]: "length (bitmap_clear_loop bm p len b m sz) = length bm"
  by (induction bm p len b m sz rule: bitmap_clear_loop.induct) (subst bitmap_clear_loop.simps, simp)

lemma length_bitmap_set [simp]: "length (bitmap_set bm start len) = length bm"
  by (simp add: bitmap_set_def)

lemma length_bitmap_clear [simp]: "length (bitmap_clear bm start len) = length bm"
  by (simp add: bitmap_clear_def)

section \<open>Searching for a free area\<close>

text \<open>
  \<^verbatim>\<open>bitmap_find_next_zero_area_align\<close>. The \<open>goto again\<close> loop need not end
  for an empty request (\<open>nr = 0\<close>), so the loop is a partial function; below, every
  non-empty request returns. A result beyond the size reports failure.
\<close>

partial_function (option) bitmap_find_next_zero_area_align ::
  "bitmap \<Rightarrow> nat \<Rightarrow> nat \<Rightarrow> nat \<Rightarrow> u64 \<Rightarrow> nat option" where
  "bitmap_find_next_zero_area_align bm sz start nr align =
    (let index = find_next_zero_bit bm sz start; e = index + nr in
     if e > sz then Some e
     else if word_of_nat index AND (align - 1) \<noteq> 0
     then bitmap_find_next_zero_area_align bm sz (index + 1) nr align
     else let i = find_next_bit bm e index in
       if i < e then bitmap_find_next_zero_area_align bm sz (i + 1) nr align else Some index)"

text \<open>What the search looks for: an aligned position followed by \<open>nr\<close> clear bits.\<close>

definition free_area :: "bitmap \<Rightarrow> nat \<Rightarrow> u64 \<Rightarrow> nat \<Rightarrow> bool" where
  "free_area bm nr align x \<longleftrightarrow>
    (word_of_nat x :: u64) AND (align - 1) = 0 \<and> (\<forall>i. x \<le> i \<and> i < x + nr \<longrightarrow> \<not> bm_bit bm i)"

lemma free_area_skip_used:
  assumes "x \<le> i" "i < y + nr" "y \<le> x" "bm_bit bm i" shows "\<not> free_area bm nr align x"
  using assms by (force simp: free_area_def)

text \<open>
  Every non-empty request returns; the result is the first free aligned area from
  \<open>start\<close> that fits, or a value beyond the size if no area fits.
\<close>

lemma zero_area_align_correct:
  assumes "0 < nr"
  shows "\<exists>r. bitmap_find_next_zero_area_align bm sz start nr align = Some r \<and>
    (if \<exists>x\<ge>start. x + nr \<le> sz \<and> free_area bm nr align x
     then start \<le> r \<and> r + nr \<le> sz \<and> free_area bm nr align r
       \<and> (\<forall>x. start \<le> x \<and> x < r \<longrightarrow> \<not> free_area bm nr align x)
     else sz < r)"
proof (induction "sz - start" arbitrary: start rule: less_induct)
  case less
  let ?P = "\<lambda>i. \<not> bm_bit bm i" and ?ok = "free_area bm nr align"
  let ?f = "bitmap_find_next_zero_area_align bm sz"
  define index where "index = search_from ?P sz start"
  have unf: "?f start nr align =
    (if index + nr > sz then Some (index + nr)
     else if (word_of_nat index :: u64) AND (align - 1) \<noteq> 0 then ?f (index + 1) nr align
     else if search_from (bm_bit bm) (index + nr) index < index + nr
     then ?f (search_from (bm_bit bm) (index + nr) index + 1) nr align else Some index)"
    by (subst bitmap_find_next_zero_area_align.simps)
      (simp add: Let_def find_next_zero_bit_eq find_next_bit_eq index_def)
  have before: "\<not> ?ok x" if "start \<le> x" "x < index" for x
    using search_from_before [of start x ?P sz] that assms
    by (auto simp: index_def free_area_def intro!: exI [of _ x])
  have again: ?case if "start \<le> y" "y < sz" "?f start nr align = ?f (y + 1) nr align"
    and none: "\<And>x. start \<le> x \<Longrightarrow> x \<le> y \<Longrightarrow> \<not> ?ok x" for y
  proof -
    have skip: "y + 1 \<le> x" if "start \<le> x" "?ok x" for x
      using none [of x] that by (metis Suc_eq_plus1 not_less_eq_eq)
    have "sz - (y + 1) < sz - start" using that by linarith
    from less [OF this] obtain r where r: "?f (y + 1) nr align = Some r"
      and rr: "if \<exists>x\<ge>y + 1. x + nr \<le> sz \<and> ?ok x
        then y + 1 \<le> r \<and> r + nr \<le> sz \<and> ?ok r \<and> (\<forall>x. y + 1 \<le> x \<and> x < r \<longrightarrow> \<not> ?ok x)
        else sz < r" by blast
    show ?thesis
    proof (cases "\<exists>x\<ge>start. x + nr \<le> sz \<and> ?ok x")
      case True
      with rr skip have "y + 1 \<le> r \<and> r + nr \<le> sz \<and> ?ok r \<and> (\<forall>x. y + 1 \<le> x \<and> x < r \<longrightarrow> \<not> ?ok x)"
        by metis
      with True that(1) skip show ?thesis unfolding that(3) r by auto
    next
      case False
      with that(1) have "\<not> (\<exists>x\<ge>y + 1. x + nr \<le> sz \<and> ?ok x)" by (metis le_trans trans_le_add1)
      then have "sz < r" using rr by (simp only: if_False)
      with False show ?thesis unfolding that(3) r by (simp only: if_False option.inject simp_thms)
    qed
  qed
  show ?case
  proof (cases "index + nr > sz")
    case True
    then have "\<not> (\<exists>x\<ge>start. x + nr \<le> sz \<and> ?ok x)" using before by (meson leD leI le_less_trans add_le_cancel_right)
    with True show ?thesis unfolding unf by simp
  next
    case False
    then have "index < sz" using assms by simp
    then have idx: "start \<le> index" "\<not> bm_bit bm index"
      using search_from_correct [of ?P sz start] by (auto simp: index_def)
    show ?thesis
    proof (cases "(word_of_nat index :: u64) AND (align - 1) = 0")
      case mis: False
      show ?thesis
      proof (rule again [of index])
        show "\<not> ?ok x" if "start \<le> x" "x \<le> index" for x
          using before [of x] that mis by (cases "x = index") (auto simp: free_area_def)
      qed (use idx \<open>index < sz\<close> False mis unf in auto)
    next
      case al: True
      let ?i = "search_from (bm_bit bm) (index + nr) index"
      show ?thesis
      proof (cases "?i < index + nr")
        case True
        note i = search_from_correct [OF True]
        show ?thesis
        proof (rule again [of ?i])
          show "\<not> ?ok x" if "start \<le> x" "x \<le> ?i" for x
            using before [of x] free_area_skip_used [of x ?i index nr bm align] that True i
            by (cases "x < index") auto
        qed (use idx i True False al unf in auto)
      next
        case noset: False
        have "?ok index"
          using al search_from_before [of index _ "bm_bit bm" "index + nr"] noset
          by (auto simp: free_area_def)
        with noset al False idx before show ?thesis unfolding unf by (auto intro!: exI [of _ index])
      qed
    qed
  qed
qed

section \<open>The search from the top\<close>

text \<open>The reference for \<^verbatim>\<open>find_last_bit\<close>: scan down from \<open>n\<close>, one position at a time.\<close>

primrec search_down :: "(nat \<Rightarrow> bool) \<Rightarrow> nat \<Rightarrow> nat \<Rightarrow> nat" where
  "search_down P d 0 = d"
| "search_down P d (Suc n) = (if P n then n else search_down P d n)"

lemma search_down_skip:
  "n \<le> m \<Longrightarrow> \<forall>i. n \<le> i \<and> i < m \<longrightarrow> \<not> P i \<Longrightarrow> search_down P d m = search_down P d n"
  by (induction m) (auto simp: le_Suc_eq)

lemma search_down_hit:
  assumes "P k" "k < m" "\<forall>i. k < i \<and> i < m \<longrightarrow> \<not> P i" shows "search_down P d m = k"
  using search_down_skip [of "Suc k" m P d] assms by auto

lemma search_down_none: "\<forall>i<n. \<not> P i \<Longrightarrow> search_down P d n = d"
  by (induction n) auto

lemma search_down_found:
  "\<exists>i<n. P i \<Longrightarrow> P (search_down P d n) \<and> search_down P d n < n
     \<and> (\<forall>i. search_down P d n < i \<and> i < n \<longrightarrow> \<not> P i)"
  by (induction n) (auto simp: less_Suc_eq)

lemma search_down_word:
  assumes val: "\<And>j. bit val j \<longleftrightarrow> j < lim \<and> bit (addr ! idx) j" and lim: "lim \<le> 64"
  shows "search_down (bm_bit addr) d (64 * idx + lim) =
    (if val \<noteq> 0 then 64 * idx + bit_fls val else search_down (bm_bit addr) d (64 * idx))"
proof -
  have bits: "bm_bit addr i \<longleftrightarrow> bit val (i - 64 * idx)" if "64 * idx \<le> i" "i < 64 * idx + lim" for i
  proof -
    obtain j where "i = 64 * idx + j" "j < lim"
      using \<open>64 * idx \<le> i\<close> \<open>i < 64 * idx + lim\<close> by (metis nat_add_left_cancel_less le_iff_add)
    with lim val show ?thesis by (simp add: bm_bit_def)
  qed
  show ?thesis
  proof (cases "val = 0")
    case True
    then show ?thesis using bits by (simp add: search_down_skip)
  next
    case False
    note last = last_set_bit_fls [OF False, unfolded last_set_def]
    then have "bit_fls val < lim" using val by blast
    moreover have "bm_bit addr (64 * idx + bit_fls val)"
      using bits [of "64 * idx + bit_fls val"] last calculation by simp
    moreover have "\<not> bm_bit addr i" if "64 * idx + bit_fls val < i" "i < 64 * idx + lim" for i
      using bits [of i] last that by simp
    ultimately show ?thesis using False by (simp add: search_down_hit)
  qed
qed

lemma find_last_bit_down_eq:
  assumes "\<And>j. bit val j \<longleftrightarrow> j < lim" "lim \<le> 64"
  shows "find_last_bit_down addr sz idx val = search_down (bm_bit addr) sz (64 * idx + lim)"
  using assms
proof (induction idx arbitrary: val lim)
  case 0
  have "bit (val AND addr ! 0) j \<longleftrightarrow> j < lim \<and> bit (addr ! 0) j" for j
    using 0 by (simp add: bit_simps)
  from search_down_word [OF this \<open>lim \<le> 64\<close>, of sz] show ?case
    by (subst find_last_bit_down.simps) (simp add: Let_def)
next
  case (Suc idx)
  have "bit (val AND addr ! Suc idx) j \<longleftrightarrow> j < lim \<and> bit (addr ! Suc idx) j" for j
    using Suc.prems by (simp add: bit_simps)
  note word = search_down_word [OF this \<open>lim \<le> 64\<close>, of sz]
  have "find_last_bit_down addr sz idx (NOT 0) = search_down (bm_bit addr) sz (64 * idx + 64)"
    by (rule Suc.IH) (auto simp: bit_simps dest: bit_u64_lt)
  with word show ?case
    by (subst find_last_bit_down.simps) (simp add: Let_def mult.commute add.commute)
qed

lemma find_last_bit_eq: "find_last_bit addr sz = search_down (bm_bit addr) sz sz"
proof (cases "sz = 0")
  case False
  define q r where "q = (sz - 1) div 64" and "r = (if sz mod 64 = 0 then 64 else sz mod 64)"
  have "64 * q + r = sz"
  proof (cases "sz mod 64 = 0")
    case True
    then obtain k where "sz = 64 * k" by (auto elim: dvdE simp: mod_0_imp_dvd)
    with \<open>sz \<noteq> 0\<close> obtain k' where "sz = 64 * k' + 64" by (cases k) auto
    then show ?thesis by (simp add: q_def r_def div_64_eq_iff)
  next
    case False
    obtain k j where "sz = 64 * k + j" "j < 64" "sz mod 64 = j" by (rule obtain_word_pos)
    moreover from this False have "(sz - 1) div 64 = k" by (auto simp: div_64_eq_iff)
    ultimately show ?thesis using False by (simp add: q_def r_def)
  qed
  moreover have "find_last_bit_down addr sz q (BITMAP_LAST_WORD_MASK sz)
      = search_down (bm_bit addr) sz (64 * q + r)"
    by (rule find_last_bit_down_eq) (auto simp: bit_last_word_mask r_def less_imp_le)
  ultimately show ?thesis using False by (simp add: find_last_bit_def q_def)
qed (simp add: find_last_bit_def)

section \<open>Properties\<close>

text \<open>
  C25. Every search routine of \<^verbatim>\<open>find_bit.c\<close>, which skips 64 bits at a time and reads the
  first and last word through masks, returns what the search bit by bit returns: the first
  position from the start with the wanted bit, or the size; the last set bit, or the size;
  and the iterator visits the set bits in increasing order.
\<close>

theorem find_bit_equivalence:
  "find_next_bit addr sz s = search_from (bm_bit addr) sz s \<and>
   find_next_zero_bit addr sz s = search_from (\<lambda>i. \<not> bm_bit addr i) sz s \<and>
   find_first_bit addr sz = search_from (bm_bit addr) sz 0 \<and>
   find_first_zero_bit addr sz = search_from (\<lambda>i. \<not> bm_bit addr i) sz 0 \<and>
   find_last_bit addr sz = search_down (bm_bit addr) sz sz \<and>
   for_each_set_bit addr sz = filter (bm_bit addr) [0..<sz]"
  by (intro conjI find_next_bit_eq find_next_zero_bit_eq find_first_bit_eq find_first_zero_bit_eq
      find_last_bit_eq for_each_set_bit_eq)

text \<open>
  C24. \<^verbatim>\<open>bitmap_find_next_zero_area_align\<close> returns for every non-empty request: the first
  aligned position, from the start on, that is followed by \<open>nr\<close> clear bits within the size,
  or a value beyond the size if there is none.
\<close>

theorem zero_area_found:
  assumes "0 < nr"
  shows "\<exists>r. bitmap_find_next_zero_area_align bm sz start nr align = Some r \<and>
    (if \<exists>x\<ge>start. x + nr \<le> sz \<and> free_area bm nr align x
     then start \<le> r \<and> r + nr \<le> sz \<and> free_area bm nr align r
       \<and> (\<forall>x. start \<le> x \<and> x < r \<longrightarrow> \<not> free_area bm nr align x)
     else sz < r)"
  using assms by (rule zero_area_align_correct)

theorem zero_area_found_witness:
  "\<exists>r. bitmap_find_next_zero_area_align [0x2F] 64 0 4 4 = Some r \<and>
    (if \<exists>x\<ge>0. x + 4 \<le> 64 \<and> free_area [0x2F] 4 4 x
     then 0 \<le> r \<and> r + 4 \<le> 64 \<and> free_area [0x2F] 4 4 r
       \<and> (\<forall>x. 0 \<le> x \<and> x < r \<longrightarrow> \<not> free_area [0x2F] 4 4 x)
     else 64 < r)"
  using zero_area_found [of 4 "[0x2F]" 64 0 4] by simp

text \<open>
  C29. An area that the search returns can be taken and given back: \<^verbatim>\<open>bitmap_set\<close> marks
  exactly the bits of the area, and \<^verbatim>\<open>bitmap_clear\<close> afterwards restores every bit.
\<close>

theorem zero_area_set_clear:
  assumes "0 < nr" "sz \<le> 64 * length bm"
    and "bitmap_find_next_zero_area_align bm sz start nr align = Some r" "r \<le> sz"
  shows "bm_bit (bitmap_set bm r (int nr)) i = (r \<le> i \<and> i < r + nr \<or> bm_bit bm i) \<and>
    bm_bit (bitmap_clear (bitmap_set bm r (int nr)) r (int nr)) i = bm_bit bm i"
proof -
  have r: "r + nr \<le> sz" "free_area bm nr align r"
    using zero_area_align_correct [OF assms(1), of bm sz start align] assms(3,4)
    by (auto split: if_splits)
  then have "r + nat (int nr) \<le> 64 * length bm" using assms(2) by simp
  then show ?thesis
    using r(2) by (auto simp: bm_simps free_area_def)
qed

theorem zero_area_set_clear_witness:
  "bm_bit (bitmap_set [0x0F] 4 (int 3)) 5 \<and>
   bm_bit (bitmap_clear (bitmap_set [0x0F] 4 (int 3)) 4 (int 3)) 5 = bm_bit [0x0F] 5"
proof -
  have f: "bitmap_find_next_zero_area_align [0x0F] 64 0 3 1 = Some 4"
    by (subst bitmap_find_next_zero_area_align.simps) code_simp
  show ?thesis
    using zero_area_set_clear [of 3 64 "[0x0F]" 0 1 4 5] f by simp
qed

end
