(* ===== verification/Prio_Table.thy ===== *)
theory Prio_Table
  imports Bitmap
begin

text \<open>
  The two-level priority table used by the scheduler (\<^verbatim>\<open>os_rdy_grp\<close>,
  \<^verbatim>\<open>os_rdy_table\<close> of \<^verbatim>\<open>os/core/sched.c\<close>) and by every event
  (\<^verbatim>\<open>wait_grp\<close>, \<^verbatim>\<open>wait_tbl\<close> of \<^verbatim>\<open>os/core/event.c\<close>): one
  byte per group of eight priorities and a group byte with one bit per non-zero byte. The
  lowest number is the highest priority, found with the table
  \<^verbatim>\<open>ffs_table\<close> of \<^verbatim>\<open>os/core/bitmap.c\<close>. The locale \<open>prio_table\<close>
  states the contract of such a table; the byte table is its interpretation, for both users.
\<close>

section \<open>The table of lowest set bits\<close>

definition ffs_table :: "nat list" where
  "ffs_table = [
    0, 0, 1, 0, 2, 0, 1, 0, 3, 0, 1, 0, 2, 0, 1, 0,
    4, 0, 1, 0, 2, 0, 1, 0, 3, 0, 1, 0, 2, 0, 1, 0,
    5, 0, 1, 0, 2, 0, 1, 0, 3, 0, 1, 0, 2, 0, 1, 0,
    4, 0, 1, 0, 2, 0, 1, 0, 3, 0, 1, 0, 2, 0, 1, 0,
    6, 0, 1, 0, 2, 0, 1, 0, 3, 0, 1, 0, 2, 0, 1, 0,
    4, 0, 1, 0, 2, 0, 1, 0, 3, 0, 1, 0, 2, 0, 1, 0,
    5, 0, 1, 0, 2, 0, 1, 0, 3, 0, 1, 0, 2, 0, 1, 0,
    4, 0, 1, 0, 2, 0, 1, 0, 3, 0, 1, 0, 2, 0, 1, 0,
    7, 0, 1, 0, 2, 0, 1, 0, 3, 0, 1, 0, 2, 0, 1, 0,
    4, 0, 1, 0, 2, 0, 1, 0, 3, 0, 1, 0, 2, 0, 1, 0,
    5, 0, 1, 0, 2, 0, 1, 0, 3, 0, 1, 0, 2, 0, 1, 0,
    4, 0, 1, 0, 2, 0, 1, 0, 3, 0, 1, 0, 2, 0, 1, 0,
    6, 0, 1, 0, 2, 0, 1, 0, 3, 0, 1, 0, 2, 0, 1, 0,
    4, 0, 1, 0, 2, 0, 1, 0, 3, 0, 1, 0, 2, 0, 1, 0,
    5, 0, 1, 0, 2, 0, 1, 0, 3, 0, 1, 0, 2, 0, 1, 0,
    4, 0, 1, 0, 2, 0, 1, 0, 3, 0, 1, 0, 2, 0, 1, 0]"

text \<open>The entry of \<open>g\<close> is the position of its lowest set bit, checked entry by entry.\<close>

primrec ffs_entries :: "nat \<Rightarrow> nat list \<Rightarrow> bool" where
  "ffs_entries g [] = True"
| "ffs_entries g (f # fs) =
    ((g = 0 \<or> odd (g div 2 ^ f) \<and> g mod 2 ^ f = 0 \<and> f < 8) \<and> ffs_entries (g + 1) fs)"

lemma ffs_entries_nth:
  "ffs_entries g fs \<Longrightarrow> i < length fs \<Longrightarrow> g + i \<noteq> 0 \<Longrightarrow>
    odd ((g + i) div 2 ^ (fs ! i)) \<and> (g + i) mod 2 ^ (fs ! i) = 0 \<and> fs ! i < 8"
proof (induction fs arbitrary: g i)
  case (Cons f fs)
  show ?case
  proof (cases i)
    case (Suc j)
    with Cons.prems Cons.IH [of "g + 1" j] show ?thesis by simp
  qed (use Cons.prems in simp)
qed simp

lemma ffs_entries_table: "ffs_entries 0 ffs_table"
  unfolding ffs_table_def by simp

lemma length_ffs_table: "length ffs_table = 256"
  unfolding ffs_table_def by simp

definition ffs8 :: "u8 \<Rightarrow> nat" where
  "ffs8 w = ffs_table ! unat w"

lemma ffs8_correct:
  assumes "w \<noteq> 0"
  shows "bit w (ffs8 w)" "\<forall>i<ffs8 w. \<not> bit w i" "ffs8 w < 8"
proof -
  have "0 < unat w" "unat w < 256" using assms unsigned_less [of w] by (auto simp: unat_gt_0)
  then have g: "odd (unat w div 2 ^ ffs8 w)" "unat w mod 2 ^ ffs8 w = 0" "ffs8 w < 8"
    using ffs_entries_nth [OF ffs_entries_table, of "unat w"]
    by (simp_all add: ffs8_def length_ffs_table)
  then show "ffs8 w < 8" by simp
  have bit: "bit w i \<longleftrightarrow> odd (unat w div 2 ^ i)" for i
    using bit_unsigned_iff [where 'a = nat, of w i] bit_imp_le_length [of w i]
    by (auto simp: bit_iff_odd possible_bit_def)
  with g show "bit w (ffs8 w)" by simp
  show "\<forall>i<ffs8 w. \<not> bit w i"
  proof safe
    fix i assume i: "i < ffs8 w" "bit w i"
    obtain q where q: "unat w = 2 ^ ffs8 w * q" using g(2) by (auto simp: mod_eq_0_iff_dvd)
    moreover obtain d where "ffs8 w = Suc (i + d)" using i(1) less_imp_Suc_add by blast
    ultimately have "unat w div 2 ^ i = 2 * (2 ^ d * q)" by (simp add: power_add mult_ac)
    with i bit show False by simp
  qed
qed

section \<open>The contract of a priority table\<close>

text \<open>
  \<open>pops\<close> takes the top priority out of a table, at most \<open>n\<close> times: what a loop over
  CPUs (the scheduler) or over waiters (an event broadcast) does with the table.
\<close>

fun pops :: "('t \<Rightarrow> nat) \<Rightarrow> (nat \<Rightarrow> 't \<Rightarrow> 't) \<Rightarrow> ('t \<Rightarrow> bool) \<Rightarrow> nat \<Rightarrow> 't \<Rightarrow> nat list" where
  "pops ptop pclear pempty 0 t = []"
| "pops ptop pclear pempty (Suc n) t =
    (if pempty t then [] else ptop t # pops ptop pclear pempty n (pclear (ptop t) t))"

locale prio_table =
  fixes ok :: "'t \<Rightarrow> bool"
    and prios :: "'t \<Rightarrow> nat set"
    and pset :: "nat \<Rightarrow> 't \<Rightarrow> 't"
    and pclear :: "nat \<Rightarrow> 't \<Rightarrow> 't"
    and ptop :: "'t \<Rightarrow> nat"
    and pempty :: "'t \<Rightarrow> bool"
  assumes prios_bound: "ok t \<Longrightarrow> prios t \<subseteq> {..<64}"
    and set_law: "ok t \<Longrightarrow> p < 64 \<Longrightarrow> ok (pset p t) \<and> prios (pset p t) = insert p (prios t)"
    and clear_law: "ok t \<Longrightarrow> p < 64 \<Longrightarrow> ok (pclear p t) \<and> prios (pclear p t) = prios t - {p}"
    and top_law: "ok t \<Longrightarrow> prios t \<noteq> {} \<Longrightarrow>
      ptop t \<in> prios t \<and> (\<forall>p\<in>prios t. ptop t \<le> p)"
    and empty_law: "ok t \<Longrightarrow> pempty t \<longleftrightarrow> prios t = {}"
begin

lemma finite_prios: "ok t \<Longrightarrow> finite (prios t)"
  using prios_bound finite_subset by blast

lemma top_eq_Min: "ok t \<Longrightarrow> prios t \<noteq> {} \<Longrightarrow> ptop t = Min (prios t)"
  using top_law [of t] finite_prios [of t] by (metis Min_eqI)

lemma top_less: "ok t \<Longrightarrow> prios t \<noteq> {} \<Longrightarrow> ptop t < 64"
  using top_law [of t] prios_bound [of t] by blast

lemma clear_top:
  "ok t \<Longrightarrow> prios t \<noteq> {} \<Longrightarrow>
    ok (pclear (ptop t) t) \<and> prios (pclear (ptop t) t) = prios t - {Min (prios t)}"
  using clear_law [of t "ptop t"] top_less [of t] top_eq_Min [of t] by simp

lemma pops_eq:
  "ok t \<Longrightarrow> pops ptop pclear pempty n t = take n (sorted_list_of_set (prios t))"
proof (induction n arbitrary: t)
  case (Suc n)
  show ?case
  proof (cases "prios t = {}")
    case True
    with Suc.prems show ?thesis by (simp add: empty_law)
  next
    case False
    with Suc.prems have "sorted_list_of_set (prios t) =
        Min (prios t) # sorted_list_of_set (prios t - {Min (prios t)})"
      by (simp add: finite_prios sorted_list_of_set_nonempty)
    with Suc False clear_top [of t] show ?thesis
      by (simp add: empty_law top_eq_Min)
  qed
qed simp

lemma set_clear_cancel:
  assumes "ok t" "p < 64" "p \<notin> prios t" shows "prios (pclear p (pset p t)) = prios t"
  using assms set_law [of t p] clear_law [of "pset p t" p] by auto

end

section \<open>The byte table\<close>

type_synonym ptbl = "u8 \<times> u8 list"

text \<open>
  A priority's own positions, as \<^verbatim>\<open>task_init\<close> of \<^verbatim>\<open>task.c\<close> stores them in
  a task: its byte \<open>by\<close>, its bit in the byte \<open>bitx\<close>, its byte's bit in the group
  \<open>bity\<close>.
\<close>

definition prio_by :: "nat \<Rightarrow> nat" where
  "prio_by prio = drop_bit 3 prio"

definition prio_bx :: "nat \<Rightarrow> nat" where
  "prio_bx prio = prio AND 0x07"

definition prio_bity :: "nat \<Rightarrow> u8" where
  "prio_bity prio = push_bit (prio_by prio) 1"

definition prio_bitx :: "nat \<Rightarrow> u8" where
  "prio_bitx prio = push_bit (prio_bx prio) 1"

definition ptbl_set :: "nat \<Rightarrow> u8 \<Rightarrow> u8 \<Rightarrow> ptbl \<Rightarrow> ptbl" where
  "ptbl_set by bitx bity t = (fst t OR bity, (snd t)[by := snd t ! by OR bitx])"

definition ptbl_clear :: "nat \<Rightarrow> u8 \<Rightarrow> u8 \<Rightarrow> ptbl \<Rightarrow> ptbl" where
  "ptbl_clear by bitx bity t =
    (let tbl = (snd t)[by := snd t ! by AND NOT bitx] in
     (if tbl ! by = 0 then fst t AND NOT bity else fst t, tbl))"

definition ptbl_highest :: "ptbl \<Rightarrow> nat" where
  "ptbl_highest t = (let y = ffs8 (fst t); x = ffs8 (snd t ! y) in push_bit 3 y + x)"

definition ptbl_empty :: "ptbl \<Rightarrow> bool" where
  "ptbl_empty t \<longleftrightarrow> list_all (\<lambda>b. b = 0) (snd t)"

definition ptbl_zero :: ptbl where
  "ptbl_zero = (0, replicate 8 0)"

definition ptbl_ok :: "ptbl \<Rightarrow> bool" where
  "ptbl_ok t \<longleftrightarrow> length (snd t) = 8 \<and> (\<forall>y<8. bit (fst t) y \<longleftrightarrow> snd t ! y \<noteq> 0)"

definition ptbl_prios :: "ptbl \<Rightarrow> nat set" where
  "ptbl_prios t = {p. p < 64 \<and> bit (snd t ! (p div 8)) (p mod 8)}"

definition ptbl_add :: "nat \<Rightarrow> ptbl \<Rightarrow> ptbl" where
  "ptbl_add p = ptbl_set (prio_by p) (prio_bitx p) (prio_bity p)"

definition ptbl_del :: "nat \<Rightarrow> ptbl \<Rightarrow> ptbl" where
  "ptbl_del p = ptbl_clear (prio_by p) (prio_bitx p) (prio_bity p)"

lemma prio_by_eq: "prio_by p = p div 8"
  by (simp add: prio_by_def drop_bit_eq_div)

lemma prio_bx_eq: "prio_bx p = p mod 8"
proof -
  have "(0x07 :: nat) = mask 3" by (simp add: mask_eq_exp_minus_1)
  then show ?thesis by (simp only: prio_bx_def flip: take_bit_eq_mask) (simp add: take_bit_eq_mod)
qed

lemma div_mod_8_eq_iff: "(i::nat) = j \<longleftrightarrow> i div 8 = j div 8 \<and> i mod 8 = j mod 8"
  by (metis div_mult_mod_eq)

lemma bit_prio_bitx: "bit (prio_bitx p) j \<longleftrightarrow> j = p mod 8"
  by (auto simp: prio_bitx_def prio_bx_eq bit_simps)

lemma bit_prio_bity: "p < 64 \<Longrightarrow> bit (prio_bity p) j \<longleftrightarrow> j = p div 8"
  by (auto simp: prio_bity_def prio_by_eq bit_simps)

lemma prio_bitx_nonzero: "prio_bitx p \<noteq> 0" "w OR prio_bitx p \<noteq> 0"
  using bit_prio_bitx [of p "p mod 8"] by (auto simp: bit_eq_iff bit_simps intro!: exI [of _ "p mod 8"])

lemma ptbl_zero_ok: "ptbl_ok ptbl_zero" "ptbl_prios ptbl_zero = {}"
  by (auto simp: ptbl_ok_def ptbl_zero_def ptbl_prios_def)

lemma ptbl_add_law:
  assumes ok: "ptbl_ok t" and p: "p < 64"
  shows "ptbl_ok (ptbl_add p t) \<and> ptbl_prios (ptbl_add p t) = insert p (ptbl_prios t)"
proof
  have d: "p div 8 < 8" using p by simp
  show "ptbl_ok (ptbl_add p t)"
    using ok d p unfolding ptbl_ok_def ptbl_add_def ptbl_set_def prio_by_eq
    by (auto simp: bit_simps bit_prio_bity nth_list_update prio_bitx_nonzero)
  show "ptbl_prios (ptbl_add p t) = insert p (ptbl_prios t)"
    using ok d p unfolding ptbl_ok_def ptbl_add_def ptbl_set_def ptbl_prios_def prio_by_eq
    by (auto simp: bit_simps bit_prio_bitx nth_list_update div_mod_8_eq_iff [of _ p])
qed

lemma ptbl_del_law:
  assumes ok: "ptbl_ok t" and p: "p < 64"
  shows "ptbl_ok (ptbl_del p t) \<and> ptbl_prios (ptbl_del p t) = ptbl_prios t - {p}"
proof
  have d: "p div 8 < 8" using p by simp
  show "ptbl_ok (ptbl_del p t)"
    using ok d p unfolding ptbl_ok_def ptbl_del_def ptbl_clear_def prio_by_eq
    by (auto simp: Let_def bit_simps bit_prio_bity nth_list_update)
  show "ptbl_prios (ptbl_del p t) = ptbl_prios t - {p}"
    using ok d p unfolding ptbl_ok_def ptbl_del_def ptbl_clear_def ptbl_prios_def prio_by_eq
    by (auto simp: Let_def bit_simps bit_prio_bitx nth_list_update div_mod_8_eq_iff [of _ p])
qed

lemma byte_prio:
  "y < 8 \<Longrightarrow> n < 8 \<Longrightarrow> 8 * y + n \<in> ptbl_prios t \<longleftrightarrow> bit (snd t ! y) n"
  by (auto simp: ptbl_prios_def)

lemma ptbl_empty_iff: 
  assumes "ptbl_ok t" shows "ptbl_empty t \<longleftrightarrow> ptbl_prios t = {}"
proof
  assume "ptbl_empty t"
  with assms show "ptbl_prios t = {}"
    by (auto simp: ptbl_empty_def ptbl_ok_def ptbl_prios_def list_all_length)
next
  assume none: "ptbl_prios t = {}"
  have "snd t ! y = 0" if "y < 8" for y
  proof (rule ccontr)
    assume "snd t ! y \<noteq> 0"
    then obtain n where "bit (snd t ! y) n" using word_bit_ex by blast
    moreover from this have "n < 8" using bit_imp_le_length by fastforce
    ultimately show False using byte_prio [OF that, of n t] none by simp
  qed
  with assms show "ptbl_empty t" by (simp add: ptbl_empty_def ptbl_ok_def list_all_length)
qed

lemma ptbl_highest_law:
  assumes ok: "ptbl_ok t" and ne: "ptbl_prios t \<noteq> {}"
  shows "ptbl_highest t \<in> ptbl_prios t \<and> (\<forall>p\<in>ptbl_prios t. ptbl_highest t \<le> p)"
proof -
  let ?y = "ffs8 (fst t)" and ?x = "ffs8 (snd t ! ffs8 (fst t))"
  have grp: "bit (fst t) (p div 8)" if "p \<in> ptbl_prios t" for p
    using ok that by (auto simp: ptbl_ok_def ptbl_prios_def)
  with ne have "fst t \<noteq> 0" by auto
  note y = ffs8_correct [OF this]
  with ok have "snd t ! ?y \<noteq> 0" by (auto simp: ptbl_ok_def)
  note x = ffs8_correct [OF this]
  have top: "ptbl_highest t = 8 * ?y + ?x" by (simp add: ptbl_highest_def Let_def push_bit_eq_mult)
  have "8 * ?y + ?x \<le> p" if p: "p \<in> ptbl_prios t" for p
  proof -
    have "?y \<le> p div 8" using y(2) grp [OF p] by (meson not_le)
    moreover have "?x \<le> p mod 8" if "?y = p div 8"
      using x(2) p that by (metis (no_types, lifting) mem_Collect_eq not_le ptbl_prios_def)
    ultimately show ?thesis
      using div_mult_mod_eq [of p 8] x(3) by (cases "?y = p div 8") linarith+
  qed
  with top byte_prio [OF y(3) x(3), of t] x(1) show ?thesis by simp
qed

interpretation pt: prio_table ptbl_ok ptbl_prios ptbl_add ptbl_del ptbl_highest ptbl_empty
  by unfold_locales (auto simp: ptbl_add_law ptbl_del_law ptbl_highest_law ptbl_empty_iff,
    simp add: ptbl_prios_def)

section \<open>Properties\<close>

text \<open>
  C27. The ready table is a priority queue: reading the highest priority through the 256-entry
  table of first set bits and removing it, again and again, gives the priorities of the table
  in increasing order.
\<close>

theorem ready_table_order:
  assumes "ptbl_ok t"
  shows "pops ptbl_highest ptbl_del ptbl_empty n t = take n (sorted_list_of_set (ptbl_prios t))"
  using assms by (rule pt.pops_eq)

theorem ready_table_order_witness:
  "pops ptbl_highest ptbl_del ptbl_empty 2 (ptbl_add 7 (ptbl_add 60 (ptbl_add 9 ptbl_zero)))
    = take 2 (sorted_list_of_set {7, 60, 9})"
proof -
  have z: "ptbl_ok ptbl_zero" "ptbl_prios ptbl_zero = {}" by (rule ptbl_zero_ok)+
  have a: "ptbl_ok (ptbl_add 9 ptbl_zero)" "ptbl_prios (ptbl_add 9 ptbl_zero) = {9}"
    using ptbl_add_law [OF z(1), of 9] z(2) by simp_all
  have b: "ptbl_ok (ptbl_add 60 (ptbl_add 9 ptbl_zero))" "ptbl_prios (ptbl_add 60 (ptbl_add 9 ptbl_zero)) = {60, 9}"
    using ptbl_add_law [OF a(1), of 60] a(2) by simp_all
  show ?thesis
    using ready_table_order [of "ptbl_add 7 (ptbl_add 60 (ptbl_add 9 ptbl_zero))" 2] ptbl_add_law [OF b(1), of 7] b(2)
    by simp
qed

end
