(* ===== verification/Sched_Pick.thy ===== *)
theory Sched_Pick
  imports Prio_Table "HOL-Library.Multiset"
begin

text \<open>
  The assignment of real-time priorities to CPUs: \<^verbatim>\<open>sched_new\<close> of
  \<^verbatim>\<open>os/core/sched.c\<close>. It takes the ready table, the priority each CPU runs now
  (\<^verbatim>\<open>os_prio_cur\<close>) and the scheduling class of each CPU, and computes the priority
  each CPU should run next (\<^verbatim>\<open>os_highest_rdy\<close>). The number of CPUs
  (\<^verbatim>\<open>NR_CPUS\<close>) is the length of the per-CPU arrays.
\<close>

section \<open>The algorithm\<close>

definition OS_REALTIME_TASK :: nat where "OS_REALTIME_TASK = 64"
definition OS_LOWEST_PRIO :: nat where "OS_LOWEST_PRIO = OS_REALTIME_TASK - 1"
definition OS_PRIO_PCPU :: nat where "OS_PRIO_PCPU = OS_LOWEST_PRIO + 1"
definition OS_PRIO_IDLE :: nat where "OS_PRIO_IDLE = OS_LOWEST_PRIO + 2"

named_theorems prio_defs \<open>the priority constants of task_def.h\<close>
declare OS_REALTIME_TASK_def [prio_defs] OS_LOWEST_PRIO_def [prio_defs]
  OS_PRIO_PCPU_def [prio_defs] OS_PRIO_IDLE_def [prio_defs]

datatype sched_class = SCHED_CLASS_LOCAL | SCHED_CLASS_GLOBAL

text \<open>\<^verbatim>\<open>has_current_prio\<close> returns the index plus one, 0 for none.\<close>

definition has_high_prio :: "nat \<Rightarrow> nat list \<Rightarrow> bool list \<Rightarrow> bool" where
  "has_high_prio prio array m \<longleftrightarrow> list_ex (\<lambda>i. \<not> m ! i \<and> prio = array ! i) [0..<length array]"

definition has_current_prio :: "nat \<Rightarrow> nat list \<Rightarrow> bool list \<Rightarrow> nat" where
  "has_current_prio prio array m =
    (case find (\<lambda>i. prio = array ! i \<and> \<not> m ! i) [0..<length array] of
       None \<Rightarrow> 0 | Some i \<Rightarrow> i + 1)"

text \<open>
  The first loop of \<^verbatim>\<open>sched_new\<close>: the state is \<open>ncpu_highest\<close>,
  \<open>high_map\<close> and \<open>current_map\<close>; \<open>t\<close> is the copy of the ready table.
\<close>

fun sched_pick :: "sched_class list \<Rightarrow> nat list \<Rightarrow> ptbl \<Rightarrow> nat list \<times> bool list \<times> bool list
    \<Rightarrow> nat list \<times> bool list \<times> bool list" where
  "sched_pick cls [] t st = st"
| "sched_pick cls (i # is) t (hi, high_map, current_map) =
    (if cls ! i = SCHED_CLASS_LOCAL
     then sched_pick cls is t (hi, high_map[i := True], current_map[i := True])
     else
       let y = ffs8 (fst t); x = ffs8 (snd t ! y); p = push_bit 3 y + x;
           hi = hi[i := p];
           t = ptbl_clear y (push_bit x 1) (push_bit y 1) t
       in if ptbl_empty t then (hi, high_map, current_map)
          else sched_pick cls is t (hi, high_map, current_map))"

text \<open>
  The second loop, one iteration for CPU \<open>i\<close>: keep the running priority if it is among
  the highest, otherwise take the first of the highest that no CPU runs. The state is
  \<open>os_highest_rdy\<close>, \<open>high_map\<close> and \<open>current_map\<close>.
\<close>

definition sched_assign1 :: "nat list \<Rightarrow> nat list \<Rightarrow> nat \<Rightarrow> nat list \<times> bool list \<times> bool list
    \<Rightarrow> nat list \<times> bool list \<times> bool list" where
  "sched_assign1 cur hi i st =
    (case st of (rdy, high_map, current_map) \<Rightarrow>
     let k = has_current_prio (cur ! i) hi high_map in
     if k > 0 then (rdy[i := cur ! i], high_map[k - 1 := True], current_map[i := True])
     else case find (\<lambda>j. \<not> high_map ! j \<and> \<not> has_high_prio (hi ! j) cur current_map)
            [0..<length cur] of
         None \<Rightarrow> (rdy, high_map, current_map)
       | Some j \<Rightarrow> (rdy[i := hi ! j], high_map[j := True], current_map))"

definition sched_new :: "sched_class list \<Rightarrow> ptbl \<Rightarrow> nat list \<Rightarrow> nat list" where
  "sched_new cls t cur =
    (let n = length cur; rdy = replicate n OS_PRIO_PCPU in
     if ptbl_empty t then rdy
     else
       let (hi, high_map, current_map) = sched_pick cls [0..<n] t
             (replicate n (OS_PRIO_IDLE + 1), replicate n False, replicate n False);
           (rdy, high_map, current_map) =
             fold (sched_assign1 cur hi) [0..<n] (rdy, high_map, current_map)
       in map (\<lambda>p. if p > OS_PRIO_PCPU then OS_PRIO_PCPU else p) rdy)"

text \<open>The variant under \<^verbatim>\<open>CONFIG_OS_REALTIME_CORE0\<close>: only CPU 0 runs real-time tasks.\<close>

definition sched_new_core0 :: "ptbl \<Rightarrow> nat list \<Rightarrow> nat list" where
  "sched_new_core0 t rdy =
    (let rdy = rdy[0 := OS_PRIO_PCPU] in
     if ptbl_empty t then rdy else rdy[0 := ptbl_highest t])"

section \<open>The priorities picked\<close>

lemma ptbl_clear_at:
  assumes "y < 8" "x < 8"
  shows "ptbl_clear y (push_bit x 1) (push_bit y 1) t = ptbl_del (8 * y + x) t"
  using assms by (simp add: ptbl_del_def prio_by_eq prio_bitx_def prio_bity_def prio_bx_eq)

lemma ptbl_clear_highest:
  assumes "ptbl_ok t" "ptbl_prios t \<noteq> {}"
  shows "(let y = ffs8 (fst t); x = ffs8 (snd t ! y) in
     ptbl_clear y (push_bit x 1) (push_bit y 1) t) = ptbl_del (ptbl_highest t) t"
proof -
  have "fst t \<noteq> 0" using assms by (auto simp: ptbl_ok_def ptbl_prios_def)
  note y = ffs8_correct [OF this]
  then have "snd t ! ffs8 (fst t) \<noteq> 0" using assms by (auto simp: ptbl_ok_def)
  note x = ffs8_correct [OF this]
  show ?thesis
    using ptbl_clear_at [OF y(3) x(3)] by (simp add: Let_def ptbl_highest_def push_bit_eq_mult mult.commute)
qed

abbreviation all_global :: "sched_class list \<Rightarrow> nat \<Rightarrow> bool" where
  "all_global cls n \<equiv> cls = replicate n SCHED_CLASS_GLOBAL"

abbreviation ptbl_pops :: "nat \<Rightarrow> ptbl \<Rightarrow> nat list" where
  "ptbl_pops \<equiv> pops ptbl_highest ptbl_del ptbl_empty"

lemma length_pops: "length (pops f g e n t) \<le> n"
  by (induction f g e n t rule: pops.induct) auto

lemma sched_pick_global:
  assumes "ptbl_ok t" "ptbl_prios t \<noteq> {}" "k \<le> n" "length ps = k" "all_global cls n"
  shows "sched_pick cls [k..<n] t (ps @ replicate (n - k) v, hm, cm) =
    (ps @ ptbl_pops (n - k) t @ replicate (n - k - length (ptbl_pops (n - k) t)) v, hm, cm)"
  using assms
proof (induction "n - k" arbitrary: k ps t)
  case 0
  then show ?case by simp
next
  case (Suc m)
  then have k: "k < n" "n - k = Suc m" "m = n - Suc k" by simp_all
  let ?t' = "ptbl_del (ptbl_highest t) t" and ?p = "ptbl_highest t"
  have t': "ptbl_ok ?t'" using pt.clear_top Suc.prems by blast
  have ne: "\<not> ptbl_empty t" using Suc.prems pt.empty_law by blast
  have step: "sched_pick cls [k..<n] t (ps @ replicate (n - k) v, hm, cm) =
    (if ptbl_empty ?t' then ((ps @ [?p]) @ replicate (n - Suc k) v, hm, cm)
     else sched_pick cls [Suc k..<n] ?t' ((ps @ [?p]) @ replicate (n - Suc k) v, hm, cm))"
    using ptbl_clear_highest [OF Suc.prems(1,2)] k Suc.prems
    by (simp add: upt_conv_Cons [OF k(1)] Let_def ptbl_highest_def list_update_append)
  show ?case
  proof (cases "ptbl_empty ?t'")
    case True
    then have "pops ptbl_highest ptbl_del ptbl_empty m ?t' = []" by (cases m) auto
    with True ne k step show ?thesis by simp
  next
    case False
    then have "ptbl_prios ?t' \<noteq> {}" using t' pt.empty_law by blast
    from Suc.hyps(1) [OF k(3) t' this, of "ps @ [?p]"] k Suc.prems False ne step show ?thesis
      by simp
  qed
qed

section \<open>The assignment\<close>

text \<open>
  The candidate list holds distinct real-time priorities, padded with an impossible one; no
  CPU runs the impossible one, and no two CPUs run the same real-time priority.
\<close>

definition cand_ok :: "nat list \<Rightarrow> bool" where
  "cand_ok hi \<longleftrightarrow> (\<forall>i<length hi. hi ! i < 64 \<or> hi ! i = 66) \<and>
    (\<forall>i<length hi. \<forall>j<length hi. hi ! i = hi ! j \<and> hi ! i < 64 \<longrightarrow> i = j)"

definition cur_ok :: "nat list \<Rightarrow> bool" where
  "cur_ok cur \<longleftrightarrow> (\<forall>p\<in>set cur. p \<le> OS_PRIO_PCPU) \<and>
    (\<forall>i<length cur. \<forall>j<length cur. cur ! i = cur ! j \<and> cur ! i \<le> OS_LOWEST_PRIO \<longrightarrow> i = j)"

definition assign_inv :: "nat list \<Rightarrow> nat list \<Rightarrow> nat \<Rightarrow> nat list \<times> bool list \<times> bool list \<Rightarrow> bool" where
  "assign_inv cur hi i st \<longleftrightarrow> (case st of (rdy, hm, cm) \<Rightarrow>
     length rdy = length cur \<and> length hm = length cur \<and> length cm = length cur \<and>
     (\<forall>c<length cur. cm ! c \<longleftrightarrow> c < i \<and> cur ! c \<in> set hi) \<and>
     (\<forall>j<length cur. hm ! j \<longrightarrow> (\<forall>c<length cur. i \<le> c \<longrightarrow> cur ! c \<noteq> hi ! j)) \<and>
     (\<forall>c<i. cur ! c \<in> set hi \<longrightarrow> rdy ! c = cur ! c) \<and>
     mset (take i rdy) = image_mset (nth hi) (mset_set {j. j < length cur \<and> hm ! j}))"

lemma find_upt_Some:
  "find P [0..<n] = Some j \<Longrightarrow> j < n \<and> P j"
  by (auto simp: find_Some_iff)

lemma has_current_prio_0: "has_current_prio p hi hm = 0 \<longleftrightarrow> (\<forall>j<length hi. hi ! j = p \<longrightarrow> hm ! j)"
  by (auto simp: has_current_prio_def find_None_iff split: option.splits dest!: find_upt_Some)

lemma has_current_prio_Suc:
  "has_current_prio p hi hm = Suc j \<Longrightarrow> j < length hi \<and> hi ! j = p \<and> \<not> hm ! j"
  by (auto simp: has_current_prio_def split: option.splits dest!: find_upt_Some)

lemma mset_take_update:
  "i < length rdy \<Longrightarrow> mset (take (Suc i) (rdy[i := v])) = add_mset v (mset (take i rdy))"
  by (simp add: take_Suc_conv_app_nth)

lemma marked_update:
  assumes "j < length hm" "\<not> hm ! j" "length hm = n"
  shows "mset_set {l. l < n \<and> hm[j := True] ! l} = add_mset j (mset_set {l. l < n \<and> hm ! l})"
proof -
  have "{l. l < n \<and> hm[j := True] ! l} = insert j {l. l < n \<and> hm ! l}"
    using assms by (auto simp: nth_list_update)
  then show ?thesis using assms by simp
qed

lemma card_marked: "assign_inv cur hi i (rdy, hm, cm) \<Longrightarrow> i \<le> length cur \<Longrightarrow>
  card {j. j < length cur \<and> hm ! j} = i"
proof -
  assume inv: "assign_inv cur hi i (rdy, hm, cm)" and i: "i \<le> length cur"
  have "mset (take i rdy) = image_mset (nth hi) (mset_set {j. j < length cur \<and> hm ! j})"
    "length rdy = length cur"
    using inv by (simp_all add: assign_inv_def)
  then have "size (image_mset (nth hi) (mset_set {j. j < length cur \<and> hm ! j})) = i"
    using i by (metis length_take min.absorb2 size_mset)
  then show ?thesis by simp
qed

lemma free_candidate:
  assumes inv: "assign_inv cur hi i (rdy, hm, cm)" and i: "i < length cur"
    and hi: "cand_ok hi" "length hi = length cur" and cur: "cur_ok cur" and not: "cur ! i \<notin> set hi"
  shows "\<exists>j<length cur. \<not> hm ! j \<and> \<not> has_high_prio (hi ! j) cur cm"
proof (rule ccontr)
  let ?n = "length cur"
  let ?U = "{j. j < ?n \<and> \<not> hm ! j}"
  assume "\<not> ?thesis"
  then have "\<exists>c. c < ?n \<and> \<not> cm ! c \<and> cur ! c = hi ! j" if "j \<in> ?U" for j
    using that by (fastforce simp: has_high_prio_def list_ex_iff)
  then obtain f where f: "\<And>j. j \<in> ?U \<Longrightarrow> f j < ?n \<and> \<not> cm ! f j \<and> cur ! f j = hi ! j" by metis
  have "f ` ?U \<subseteq> {Suc i..<?n}"
  proof (rule image_subsetI)
    fix j assume j: "j \<in> ?U"
    then have "cur ! f j \<in> set hi" using f [OF j] hi by simp
    then have "\<not> f j < i" "f j \<noteq> i" using f [OF j] inv not by (auto simp: assign_inv_def)
    then show "f j \<in> {Suc i..<?n}" using f [OF j] by simp
  qed
  moreover have "inj_on f ?U"
  proof (rule inj_onI)
    fix j k assume jk: "j \<in> ?U" "k \<in> ?U" "f j = f k"
    then have "hi ! j = hi ! k" using f by metis
    moreover have "hi ! j \<noteq> 66"
      using f [OF jk(1)] cur by (auto simp: cur_ok_def prio_defs dest!: nth_mem)
    ultimately show "j = k" using hi jk by (auto simp: cand_ok_def)
  qed
  ultimately have "card ?U \<le> ?n - Suc i"
    by (metis card_atLeastLessThan card_inj_on_le finite_atLeastLessThan)
  moreover have "?U = {..<?n} - {j. j < ?n \<and> hm ! j}" by auto
  then have "card ?U = ?n - i"
    using card_marked [OF inv] i by (simp add: card_Diff_subset subset_eq)
  ultimately show False using i by simp
qed

lemma assign_inv_mark:
  assumes inv: "assign_inv cur hi i (rdy, hm, cm)" and i: "i < length cur"
    and j: "j < length cur" "\<not> hm ! j" "\<forall>c<length cur. Suc i \<le> c \<longrightarrow> cur ! c \<noteq> hi ! j"
    and own: "cur ! i \<in> set hi \<longrightarrow> hi ! j = cur ! i"
    and cm': "length cm' = length cur" "\<forall>c<length cur. cm' ! c \<longleftrightarrow> c < Suc i \<and> cur ! c \<in> set hi"
  shows "assign_inv cur hi (Suc i) (rdy[i := hi ! j], hm[j := True], cm')"
proof -
  note inv' = inv [unfolded assign_inv_def, simplified]
  have ms: "mset (take (Suc i) (rdy[i := hi ! j])) =
      image_mset (nth hi) (mset_set {l. l < length cur \<and> hm[j := True] ! l})"
    using inv' i j by (simp add: mset_take_update marked_update)
  have hm': "\<forall>l<length cur. hm[j := True] ! l \<longrightarrow>
      (\<forall>c<length cur. Suc i \<le> c \<longrightarrow> cur ! c \<noteq> hi ! l)"
    using inv' j by (auto simp: nth_list_update)
  have kept: "\<forall>c<Suc i. cur ! c \<in> set hi \<longrightarrow> rdy[i := hi ! j] ! c = cur ! c"
    using inv' i own by (auto simp: nth_list_update less_Suc_eq)
  show ?thesis
    unfolding assign_inv_def prod.case using inv' cm' ms hm' kept by (simp only: length_list_update simp_thms)
qed

lemma assign_inv_step:
  assumes inv: "assign_inv cur hi i st" and i: "i < length cur"
    and hi: "cand_ok hi" "length hi = length cur" and cur: "cur_ok cur"
  shows "assign_inv cur hi (Suc i) (sched_assign1 cur hi i st)"
proof -
  obtain rdy hm cm where st: "st = (rdy, hm, cm)" by (cases st)
  note inv' = inv [unfolded assign_inv_def st, simplified]
  show ?thesis
  proof (cases "cur ! i \<in> set hi")
    case True
    then have "has_current_prio (cur ! i) hi hm \<noteq> 0"
      using inv' i hi by (fastforce simp: has_current_prio_0 in_set_conv_nth)
    then obtain j where k: "has_current_prio (cur ! i) hi hm = Suc j" using not0_implies_Suc by blast
    note j = has_current_prio_Suc [OF k]
    have "cur ! i \<le> OS_PRIO_PCPU" using cur i by (auto simp: cur_ok_def)
    then have rt: "cur ! i \<le> OS_LOWEST_PRIO"
      using j hi by (auto simp: cand_ok_def prio_defs)
    have "cur ! c \<noteq> hi ! j" if "c < length cur" "Suc i \<le> c" for c
      using cur rt j that i unfolding cur_ok_def by (metis Suc_n_not_le_n)
    then show ?thesis
      using assign_inv_mark [OF inv [unfolded st] i, of j "cm[i := True]"] k j inv' i hi True
      by (auto simp: st sched_assign1_def nth_list_update less_Suc_eq)
  next
    case False
    then have k: "has_current_prio (cur ! i) hi hm = 0"
      unfolding has_current_prio_0 by (metis nth_mem)
    obtain j where fj: "find (\<lambda>j. \<not> hm ! j \<and> \<not> has_high_prio (hi ! j) cur cm) [0..<length cur] = Some j"
      using free_candidate [OF inv [unfolded st] i hi cur False]
      by (cases "find (\<lambda>j. \<not> hm ! j \<and> \<not> has_high_prio (hi ! j) cur cm) [0..<length cur]")
        (auto simp: find_None_iff)
    then have j: "j < length cur" "\<not> hm ! j" "\<forall>c<length cur. \<not> cm ! c \<longrightarrow> cur ! c \<noteq> hi ! j"
      by (auto dest!: find_upt_Some simp: has_high_prio_def list_ex_iff)
    have "cur ! c \<noteq> hi ! j" if "c < length cur" "Suc i \<le> c" for c
      using j inv' that by auto
    then show ?thesis
      using assign_inv_mark [OF inv [unfolded st] i, of j cm] k fj j inv' i hi False
      by (auto simp: st sched_assign1_def less_Suc_eq)
  qed
qed

lemma assign_inv_fold:
  assumes "assign_inv cur hi 0 st" "cand_ok hi" "length hi = length cur" "cur_ok cur" "m \<le> length cur"
  shows "assign_inv cur hi m (fold (sched_assign1 cur hi) [0..<m] st)"
  using assms(5)
proof (induction m)
  case (Suc m)
  then show ?case using assign_inv_step [OF _ _ assms(2,3,4), of m] by simp
qed (use assms in simp)

lemma assign_inv_start:
  "length hi = length cur \<Longrightarrow>
    assign_inv cur hi 0 (rdy, replicate (length cur) False, replicate (length cur) False)"
  if "length rdy = length cur"
proof -
  have none: "{j. j < length cur \<and> replicate (length cur) False ! j} = {}" by auto
  show "length hi = length cur \<Longrightarrow> ?thesis"
    unfolding assign_inv_def prod.case none using that by simp
qed

lemma assign_inv_done:
  assumes "assign_inv cur hi (length cur) (rdy, hm, cm)" "length hi = length cur"
  shows "mset rdy = mset hi" "\<forall>c<length cur. cur ! c \<in> set hi \<longrightarrow> rdy ! c = cur ! c"
proof -
  let ?M = "{j. j < length cur \<and> hm ! j}"
  have "card ?M = card {..<length cur}" using card_marked [OF assms(1)] by simp
  moreover have "?M \<subseteq> {..<length cur}" by auto
  ultimately have M: "?M = {..<length cur}" by (metis card_subset_eq finite_lessThan)
  have "mset (take (length cur) rdy) = image_mset (nth hi) (mset_set ?M)" "length rdy = length cur"
    using assms(1) unfolding assign_inv_def prod.case by blast+
  then have "mset rdy = image_mset (nth hi) (mset_set {..<length hi})"
    using M assms(2) by simp
  then show "mset rdy = mset hi" by (metis map_nth mset_map mset_upt atLeast0LessThan)
  show "\<forall>c<length cur. cur ! c \<in> set hi \<longrightarrow> rdy ! c = cur ! c"
    using assms(1) by (simp add: assign_inv_def)
qed

text \<open>The \<open>n\<close> highest ready priorities, and how a candidate list is built from them.\<close>

definition top_prios :: "nat \<Rightarrow> ptbl \<Rightarrow> nat list" where
  "top_prios n t = take n (sorted_list_of_set (ptbl_prios t))"

lemma set_top_prios: "ptbl_ok t \<Longrightarrow> set (top_prios n t) \<subseteq> ptbl_prios t"
  using pt.finite_prios set_take_subset unfolding top_prios_def by fastforce

lemma cand_ok_top:
  assumes "ptbl_ok t" shows "cand_ok (top_prios n t @ replicate m (OS_PRIO_IDLE + 1))"
proof -
  have "distinct (top_prios n t)" by (simp add: top_prios_def)
  moreover have "\<forall>p\<in>set (top_prios n t). p < 64"
    using set_top_prios [OF assms] pt.prios_bound [OF assms] by blast
  ultimately show ?thesis
    unfolding cand_ok_def
    by (auto simp: nth_append prio_defs nth_eq_iff_index_eq all_set_conv_all_nth)
qed

text \<open>
  \<^verbatim>\<open>sched_new\<close>, when every CPU is of the global class: the ready priorities with the
  smallest numbers are given out, one to each CPU, the CPUs that are left get
  \<^verbatim>\<open>OS_PRIO_PCPU\<close>, and a CPU already running one of those priorities keeps it.
\<close>

lemma sched_new_assignment:
  assumes t: "ptbl_ok t" and cur: "cur_ok cur" and cls: "all_global cls (length cur)"
  defines "tops \<equiv> top_prios (length cur) t"
  shows "mset (sched_new cls t cur) = mset (tops @ replicate (length cur - length tops) OS_PRIO_PCPU)"
    and "\<forall>c<length cur. cur ! c \<in> set tops \<longrightarrow> sched_new cls t cur ! c = cur ! c"
proof -
  let ?n = "length cur"
  let ?hi = "tops @ replicate (?n - length tops) (OS_PRIO_IDLE + 1)"
  let ?clip = "map (\<lambda>p. if p > OS_PRIO_PCPU then OS_PRIO_PCPU else p)"
  have tops: "\<forall>p\<in>set tops. p < 64"
    using set_top_prios [OF t] pt.prios_bound [OF t] by (auto simp: tops_def)
  have len: "length ?hi = ?n" by (simp add: tops_def top_prios_def)
  have "mset (sched_new cls t cur) = mset (?clip ?hi)
    \<and> (\<forall>c<?n. cur ! c \<in> set tops \<longrightarrow> sched_new cls t cur ! c = cur ! c)"
  proof (cases "ptbl_empty t")
    case True
    then have "tops = []" using pt.empty_law [OF t] by (simp add: tops_def top_prios_def)
    with True show ?thesis by (simp add: sched_new_def prio_defs)
  next
    case False
    then have ne: "ptbl_prios t \<noteq> {}" using pt.empty_law [OF t] by simp
    have pick: "sched_pick cls [0..<?n] t
        (replicate ?n (OS_PRIO_IDLE + 1), replicate ?n False, replicate ?n False)
      = (?hi, replicate ?n False, replicate ?n False)"
      using sched_pick_global [OF t ne, of 0 ?n "[]" cls] cls
      by (simp add: pt.pops_eq [OF t] tops_def top_prios_def)
    obtain rdy hm cm where
      f: "fold (sched_assign1 cur ?hi) [0..<?n]
        (replicate ?n OS_PRIO_PCPU, replicate ?n False, replicate ?n False) = (rdy, hm, cm)"
      by (metis prod_cases3)
    have "cand_ok ?hi" using cand_ok_top [OF t] by (simp add: tops_def)
    from assign_inv_fold [OF assign_inv_start this len cur order_refl, of "replicate ?n OS_PRIO_PCPU"]
    have "assign_inv cur ?hi ?n (rdy, hm, cm)" using len f by simp
    note fin = assign_inv_done [OF this len]
    have new: "sched_new cls t cur = ?clip rdy" using False pick f by (simp add: sched_new_def Let_def)
    have "length rdy = ?n" using fin(1) len by (metis size_mset)
    with fin tops show ?thesis unfolding new by (auto simp: prio_defs)
  qed
  moreover have "?clip ?hi = tops @ replicate (?n - length tops) OS_PRIO_PCPU"
    using tops by (auto simp: prio_defs intro!: map_idI)
  ultimately show "mset (sched_new cls t cur) = mset (tops @ replicate (?n - length tops) OS_PRIO_PCPU)"
    "\<forall>c<?n. cur ! c \<in> set tops \<longrightarrow> sched_new cls t cur ! c = cur ! c" by metis+
qed

section \<open>Properties\<close>

text \<open>
  C2. \<^verbatim>\<open>sched_new\<close>, when every CPU is of the global class: the ready priorities with the
  smallest numbers are given out, each to one CPU, the CPUs that are left get
  \<^verbatim>\<open>OS_PRIO_PCPU\<close>, and a CPU that already runs one of those priorities keeps it.
\<close>

theorem sched_new_highest:
  assumes "ptbl_ok t" "cur_ok cur" "all_global cls (length cur)"
  shows "mset (sched_new cls t cur) = mset (top_prios (length cur) t @
      replicate (length cur - length (top_prios (length cur) t)) OS_PRIO_PCPU) \<and>
    (\<forall>c<length cur. cur ! c \<in> set (top_prios (length cur) t) \<longrightarrow> sched_new cls t cur ! c = cur ! c)"
  using sched_new_assignment [OF assms] by blast

theorem sched_new_highest_witness:
  "let t = ptbl_add 9 (ptbl_add 3 ptbl_zero); g = [SCHED_CLASS_GLOBAL, SCHED_CLASS_GLOBAL] in
   mset (sched_new g t [9, 64]) = mset (top_prios 2 t @ replicate (2 - length (top_prios 2 t)) OS_PRIO_PCPU) \<and>
   top_prios 2 t = [3, 9] \<and> sched_new g t [9, 64] ! 0 = 9"
proof -
  let ?t = "ptbl_add 9 (ptbl_add 3 ptbl_zero)"
  have a: "ptbl_ok (ptbl_add 3 ptbl_zero)" "ptbl_prios (ptbl_add 3 ptbl_zero) = {3}"
    using ptbl_add_law [OF ptbl_zero_ok(1), of 3] ptbl_zero_ok(2) by simp_all
  have t: "ptbl_ok ?t" "ptbl_prios ?t = {9, 3}" using ptbl_add_law [OF a(1), of 9] a(2) by simp_all
  have top: "top_prios 2 ?t = [3, 9]" by (simp add: top_prios_def t(2))
  have c: "cur_ok [9, 64]" by (auto simp: cur_ok_def prio_defs less_Suc_eq numeral_2_eq_2)
  have g: "all_global [SCHED_CLASS_GLOBAL, SCHED_CLASS_GLOBAL] (length [9, 64 :: nat])" by simp
  note r = conjunct1 [OF sched_new_highest [OF t(1) c g]] conjunct2 [OF sched_new_highest [OF t(1) c g]]
  have "sched_new [SCHED_CLASS_GLOBAL, SCHED_CLASS_GLOBAL] ?t [9, 64] ! 0 = [9, 64] ! 0"
    using r(2) [rule_format, of 0] top by (simp add: numeral_2_eq_2)
  then show ?thesis using r(1) top by (simp add: Let_def numeral_2_eq_2)
qed

text \<open>
  With a CPU of the local class the assignment goes wrong: the first loop skips that CPU, the second one does
  not. CPU 0 is local and only priority 5 is ready; the assignment gives it to CPU 0, whose
  scheduler (\<^verbatim>\<open>local_sched\<close>) never reads \<^verbatim>\<open>os_highest_rdy\<close>, and CPU 1, the
  only one that runs real-time tasks, gets nothing.
\<close>

theorem sched_new_local_starves:
  "sched_new [SCHED_CLASS_LOCAL, SCHED_CLASS_GLOBAL] (ptbl_add 5 ptbl_zero)
     [OS_PRIO_PCPU, OS_PRIO_PCPU] = [5, OS_PRIO_PCPU]"
  by code_simp

end
