(* ===== verification/Klist.thy ===== *)
theory Klist
  imports Minos_Prelude
begin

text \<open>
  The intrusive doubly linked lists of \<^verbatim>\<open>os/include/minos/list.h\<close>, over a store of
  \<open>next\<close> and \<open>pre\<close> pointers. \<open>dll h head xs\<close> says that \<open>head\<close> is the head
  of a circular list with the nodes \<open>xs\<close>. Every operation is shown to implement the
  corresponding operation on the list of nodes, and to leave every disjoint list alone; the
  locale \<open>node_lists\<close> is the interface the components that keep nodes on several lists
  (task state lists, timer lists, event waiters) rely on.
\<close>

section \<open>Operations\<close>

record list_store =
  nxt :: "nat \<Rightarrow> nat"
  pre :: "nat \<Rightarrow> nat"

definition set_nxt :: "nat \<Rightarrow> nat \<Rightarrow> list_store \<Rightarrow> list_store" where
  "set_nxt p v h = h\<lparr>nxt := (nxt h)(p := v)\<rparr>"

definition set_pre :: "nat \<Rightarrow> nat \<Rightarrow> list_store \<Rightarrow> list_store" where
  "set_pre p v h = h\<lparr>pre := (pre h)(p := v)\<rparr>"

lemma store_simps [simp]:
  "nxt (set_nxt p v h) = (nxt h)(p := v)" "pre (set_nxt p v h) = pre h"
  "nxt (set_pre p v h) = nxt h" "pre (set_pre p v h) = (pre h)(p := v)"
  by (simp_all add: set_nxt_def set_pre_def)

definition init_list :: "nat \<Rightarrow> list_store \<Rightarrow> list_store" where
  "init_list list h = set_pre list list (set_nxt list list h)"

definition list_add :: "nat \<Rightarrow> nat \<Rightarrow> list_store \<Rightarrow> list_store" where
  "list_add head new h =
    (let h = set_pre (nxt h head) new h;
         h = set_nxt new (nxt h head) h;
         h = set_pre new head h
     in set_nxt head new h)"

definition list_add_tail :: "nat \<Rightarrow> nat \<Rightarrow> list_store \<Rightarrow> list_store" where
  "list_add_tail head new h =
    (let h = set_nxt (pre h head) new h;
         h = set_nxt new head h;
         h = set_pre new (pre h head) h
     in set_pre head new h)"

text \<open>\<^verbatim>\<open>list_del\<close> also poisons the node's own pointers, with 0x10 and 0x20.\<close>

definition list_del :: "nat \<Rightarrow> list_store \<Rightarrow> list_store" where
  "list_del list h =
    (let h = set_pre (nxt h list) (pre h list) h;
         h = set_nxt (pre h list) (nxt h list) h;
         h = set_nxt list 0x10 h
     in set_pre list 0x20 h)"

definition list_del_tail :: "nat \<Rightarrow> list_store \<Rightarrow> list_store" where
  "list_del_tail head h =
    (let h = set_nxt (pre h (pre h head)) head h
     in set_pre head (pre h (pre h head)) h)"

definition is_list_empty :: "nat \<Rightarrow> list_store \<Rightarrow> bool" where
  "is_list_empty head h \<longleftrightarrow> nxt h head = head"

definition is_list_last :: "nat \<Rightarrow> nat \<Rightarrow> list_store \<Rightarrow> bool" where
  "is_list_last head list h \<longleftrightarrow> nxt h list = head"

text \<open>
  \<^verbatim>\<open>list_for_each\<close>: the nodes from \<open>pos\<close> up to the head. The loop ends only if the
  head is reached, so it is a partial function.
\<close>

partial_function (option) list_for_each_from :: "nat \<Rightarrow> nat \<Rightarrow> list_store \<Rightarrow> nat list option" where
  "list_for_each_from head pos h =
    (if pos = head then Some []
     else Option.bind (list_for_each_from head (nxt h pos) h) (\<lambda>ps. Some (pos # ps)))"

definition list_for_each :: "nat \<Rightarrow> list_store \<Rightarrow> nat list option" where
  "list_for_each head h = list_for_each_from head (nxt h head) h"

section \<open>The lists in a store\<close>

fun links :: "list_store \<Rightarrow> nat list \<Rightarrow> bool" where
  "links h (x # y # zs) \<longleftrightarrow> nxt h x = y \<and> pre h y = x \<and> links h (y # zs)"
| "links h _ \<longleftrightarrow> True"

definition dll :: "list_store \<Rightarrow> nat \<Rightarrow> nat list \<Rightarrow> bool" where
  "dll h head xs \<longleftrightarrow> distinct (head # xs) \<and> links h (head # xs @ [head])"

lemma dll_imp_distinct: "dll h head xs \<Longrightarrow> head \<notin> set xs \<and> distinct xs"
  by (simp add: dll_def)

lemma links_split: "links h (xs @ x # ys) \<longleftrightarrow> links h (xs @ [x]) \<and> links h (x # ys)"
proof (induction xs)
  case (Cons a xs)
  then show ?case by (cases xs) auto
qed simp

lemma links_frame:
  assumes "\<forall>a\<in>set (butlast zs). nxt h' a = nxt h a" "\<forall>a\<in>set (tl zs). pre h' a = pre h a"
  shows "links h' zs \<longleftrightarrow> links h zs"
  using assms by (induction zs rule: induct_list012) (auto split: if_splits)

lemma dll_frame:
  assumes "\<forall>a\<in>insert head (set xs). nxt h' a = nxt h a \<and> pre h' a = pre h a"
  shows "dll h' head xs \<longleftrightarrow> dll h head xs"
  using assms links_frame [of "head # xs @ [head]" h' h] by (auto simp: dll_def butlast_append)

lemma init_list_dll: "dll (init_list l h) l []"
  by (simp add: dll_def init_list_def)

lemma list_add_dll:
  assumes "dll h head xs" "new \<notin> insert head (set xs)"
  shows "dll (list_add head new h) head (new # xs)"
proof (cases xs)
  case Nil
  then show ?thesis using assms by (auto simp: dll_def list_add_def Let_def)
next
  case (Cons y ys)
  let ?h' = "list_add head new h"
  have "links h (y # ys @ [head])" "nxt h head = y" using assms Cons by (auto simp: dll_def)
  moreover from this have "links ?h' (y # ys @ [head]) \<longleftrightarrow> links h (y # ys @ [head])"
    using assms Cons
    by (intro links_frame) (auto simp: list_add_def Let_def dll_def butlast_append)
  ultimately show ?thesis
    using assms Cons by (auto simp: dll_def list_add_def Let_def)
qed

lemma list_add_tail_dll:
  assumes "dll h head xs" "new \<notin> insert head (set xs)"
  shows "dll (list_add_tail head new h) head (xs @ [new])"
proof (cases xs rule: rev_cases)
  case Nil
  then show ?thesis using assms by (auto simp: dll_def list_add_tail_def Let_def)
next
  case (snoc ys y)
  let ?h' = "list_add_tail head new h"
  have l: "links h ((head # ys) @ [y])" "pre h head = y"
    using assms snoc links_split [of h "head # ys" y "[head]"] by (auto simp: dll_def)
  moreover have "links ?h' ((head # ys) @ [y]) \<longleftrightarrow> links h ((head # ys) @ [y])"
    using assms snoc l
    by (intro links_frame) (auto simp: list_add_tail_def Let_def dll_def butlast_append)
  moreover have "links ?h' [y, new, head]"
    using assms snoc l by (auto simp: dll_def list_add_tail_def Let_def)
  ultimately show ?thesis
    using assms snoc links_split [of ?h' "head # ys" y "[new, head]"] by (auto simp: dll_def)
qed

lemma list_del_dll:
  assumes "dll h head xs" "n \<in> set xs"
  shows "dll (list_del n h) head (remove1 n xs)"
proof -
  obtain as bs where xs: "xs = as @ n # bs" "n \<notin> set as" using assms split_list_first by metis
  let ?zs = "head # as"
  obtain us u where us: "?zs = us @ [u]" by (metis rev_exhaust list.distinct(1))
  obtain v vs where vs: "bs @ [head] = v # vs" by (cases "bs @ [head]") auto
  let ?h' = "list_del n h"
  have d: "distinct (head # as @ n # bs)" using assms xs by (simp add: dll_def)
  have "head # xs @ [head] = us @ u # n # v # vs"
    using xs vs by (metis us append.assoc append_Cons append_Nil)
  then have "links h (us @ u # n # v # vs)" using assms by (simp add: dll_def)
  then have l: "links h (us @ [u])" "nxt h u = n" "pre h n = u" "nxt h n = v" "pre h v = n"
    "links h (v # vs)"
    using links_split [of h us u "n # v # vs"] by auto
  have "distinct (us @ [u])" "distinct (v # vs)" "n \<notin> set (us @ [u])" "n \<notin> set (v # vs)"
    using d by (simp_all flip: us vs)
  moreover have "v \<notin> set (tl (us @ [u]))" using d vs by (cases bs) (auto simp flip: us)
  ultimately have ds: "\<forall>a\<in>set (butlast (us @ [u])). a \<notin> {u, n}"
    "\<forall>a\<in>set (tl (us @ [u])). a \<notin> {v, n}" "\<forall>a\<in>set (tl (v # vs)). a \<notin> {v, n}"
    by (auto dest: list.set_sel(2) in_set_butlastD) (cases us; auto)
  have "butlast (v # vs) = bs" using vs by (metis butlast_snoc)
  moreover have "u \<notin> set bs" using d us by (metis Un_iff distinct_append in_set_conv_decomp
        disjoint_iff append_Cons set_append list.set_intros(2))
  ultimately have ds': "\<forall>a\<in>set (butlast (v # vs)). a \<notin> {u, n}" using d by auto
  have "nxt ?h' a = nxt h a" if "a \<notin> {u, n}" for a
    using l d that by (simp add: list_del_def Let_def fun_upd_def)
  moreover have "pre ?h' a = pre h a" if "a \<notin> {v, n}" for a
    using l d that by (simp add: list_del_def Let_def fun_upd_def)
  ultimately have "links ?h' (us @ [u]) \<longleftrightarrow> links h (us @ [u])"
    "links ?h' (v # vs) \<longleftrightarrow> links h (v # vs)"
    using ds ds' by (blast intro!: links_frame)+
  moreover have "n \<noteq> u" "n \<noteq> v" using d us vs by (metis Un_iff append_Cons distinct.simps(2)
        distinct_append in_set_conv_decomp list.set_intros(1) not_distinct_conv_prefix set_append
        set_ConsD)+
  then have "nxt ?h' u = v" "pre ?h' v = u"
    using l by (auto simp: list_del_def Let_def)
  ultimately have "links ?h' (us @ u # v # vs)" using l links_split [of ?h' us u "v # vs"] by simp
  moreover have "head # remove1 n xs @ [head] = us @ u # v # vs"
    using xs vs by (simp add: remove1_append) (metis us append.assoc append_Cons append_Nil)
  ultimately show ?thesis using d xs by (simp add: dll_def remove1_append)
qed

lemma dll_next_mem: "dll h head xs \<Longrightarrow> a \<in> insert head (set xs) \<Longrightarrow> nxt h a \<in> insert head (set xs)"
proof -
  assume dll: "dll h head xs" and a: "a \<in> insert head (set xs)"
  from a obtain us vs where s: "head # xs = us @ a # vs" by (metis list.simps(15) split_list)
  obtain v ws where v: "vs @ [head] = v # ws" by (cases "vs @ [head]") auto
  have eq: "head # xs @ [head] = us @ a # v # ws" using s v by (metis append.assoc append_Cons)
  then have "links h (us @ a # v # ws)" using dll by (simp add: dll_def)
  then have "nxt h a = v" using links_split [of h us a "v # ws"] by simp
  moreover have "v \<in> set (head # xs @ [head])" unfolding eq by simp
  ultimately show ?thesis by auto
qed

lemma dll_pre_mem: "dll h head xs \<Longrightarrow> a \<in> insert head (set xs) \<Longrightarrow> pre h a \<in> insert head (set xs)"
proof -
  assume dll: "dll h head xs" and a: "a \<in> insert head (set xs)"
  from a obtain us vs where s: "xs @ [head] = us @ a # vs"
    by (metis Un_insert_right empty_set list.simps(15) set_append split_list sup_bot.right_neutral)
  obtain v ws where v: "head # us = ws @ [v]" by (metis rev_exhaust list.distinct(1))
  have eq: "head # xs @ [head] = ws @ v # a # vs" using s v by (metis append.assoc append_Cons append_Nil)
  then have "links h (ws @ v # a # vs)" using dll by (simp add: dll_def)
  then have "pre h a = v" using links_split [of h ws v "a # vs"] by simp
  moreover have "v \<in> set (head # xs @ [head])" unfolding eq by simp
  ultimately show ?thesis by auto
qed

lemma list_add_frame:
  assumes "dll h head xs" "dll h head' ys" "insert head (set xs) \<inter> insert head' (set ys) = {}"
    "new \<notin> insert head' (set ys)"
  shows "dll (list_add head new h) head' ys" "dll (list_add_tail head new h) head' ys"
proof -
  have mem: "nxt h head \<in> insert head (set xs)" "pre h head \<in> insert head (set xs)"
    using dll_next_mem [OF assms(1), of head] dll_pre_mem [OF assms(1), of head] by auto
  have "nxt h' a = nxt h a \<and> pre h' a = pre h a"
    if "a \<in> insert head' (set ys)" "h' \<in> {list_add head new h, list_add_tail head new h}" for a h'
  proof -
    have "a \<notin> insert head (set xs)" using assms(3) that by blast
    with mem assms(4) that(1) have "a \<noteq> new" "a \<noteq> head" "a \<noteq> nxt h head" "a \<noteq> pre h head" by auto
    then show ?thesis using that(2) by (auto simp: list_add_def list_add_tail_def Let_def)
  qed
  then show "dll (list_add head new h) head' ys" "dll (list_add_tail head new h) head' ys"
    using dll_frame [of head' ys "list_add head new h" h]
      dll_frame [of head' ys "list_add_tail head new h" h] assms(2) by blast+
qed

lemma list_del_frame:
  assumes "dll h head xs" "n \<in> set xs" "dll h head' ys"
    "insert head (set xs) \<inter> insert head' (set ys) = {}"
  shows "dll (list_del n h) head' ys"
proof -
  have mem: "nxt h n \<in> insert head (set xs)" "pre h n \<in> insert head (set xs)"
    using dll_next_mem [OF assms(1), of n] dll_pre_mem [OF assms(1), of n] assms(2) by auto
  have "nxt (list_del n h) a = nxt h a \<and> pre (list_del n h) a = pre h a"
    if "a \<in> insert head' (set ys)" for a
  proof -
    have "a \<notin> insert head (set xs)" using assms(4) that by blast
    with mem assms(2) have "a \<noteq> n" "a \<noteq> nxt h n" "a \<noteq> pre h n" by auto
    then show ?thesis by (simp add: list_del_def Let_def)
  qed
  then show ?thesis using dll_frame [of head' ys "list_del n h" h] assms(3) by blast
qed

lemma is_list_empty_iff: "dll h head xs \<Longrightarrow> is_list_empty head h \<longleftrightarrow> xs = []"
  by (cases xs) (auto simp: is_list_empty_def dll_def)

lemma list_first_entry: "dll h head (x # xs) \<Longrightarrow> nxt h head = x"
  by (simp add: dll_def)

lemma list_for_each_from_links:
  "links h (x # ys @ [head]) \<Longrightarrow> head \<notin> set (x # ys) \<Longrightarrow>
    list_for_each_from head x h = Some (x # ys)"
proof (induction ys arbitrary: x)
  case Nil
  then show ?case by (simp add: list_for_each_from.simps)
next
  case (Cons y ys)
  then show ?case by (subst list_for_each_from.simps) auto
qed

text \<open>The traversal of a list ends and visits its nodes in order.\<close>

lemma list_for_each_dll: "dll h head xs \<Longrightarrow> list_for_each head h = Some xs"
proof (cases xs)
  case Nil
  then show "dll h head xs \<Longrightarrow> ?thesis"
    by (simp add: list_for_each_def dll_def list_for_each_from.simps)
next
  case (Cons y ys)
  then show "dll h head xs \<Longrightarrow> ?thesis"
    using list_for_each_from_links [of h y ys head] by (auto simp: list_for_each_def dll_def)
qed

lemma list_del_tail_dll:
  assumes "dll h head (xs @ [x])" shows "dll (list_del_tail head h) head xs"
proof -
  obtain us u where us: "head # xs = us @ [u]" by (metis rev_exhaust list.distinct(1))
  have "head # (xs @ [x]) @ [head] = us @ u # [x, head]" using us by (metis append.assoc append_Cons append_Nil)
  then have "links h (us @ u # [x, head])" using assms by (metis dll_def)
  then have l: "links h (us @ [u])" "pre h x = u" "pre h head = x"
    using links_split [of h us u "[x, head]"] by auto
  let ?h' = "list_del_tail head h"
  have d: "distinct (us @ [u])" "x \<notin> set (us @ [u])" using assms by (simp_all add: dll_def flip: us)
  have "head \<notin> set (tl (us @ [u]))" using assms by (simp add: dll_def flip: us)
  then have "links ?h' (us @ [u])"
    using l d by (subst links_frame [of _ _ h]) (auto simp: list_del_tail_def Let_def)
  moreover have "x \<noteq> head" using assms by (auto simp: dll_def)
  then have "nxt ?h' u = head" "pre ?h' head = u" using l by (auto simp: list_del_tail_def Let_def)
  ultimately have "links ?h' (us @ u # [head])" using links_split [of ?h' us u "[head]"] by simp
  moreover have "head # xs @ [head] = us @ u # [head]" using us by (metis append.assoc append_Cons append_Nil)
  ultimately have "links ?h' (head # xs @ [head])" by metis
  then show ?thesis using assms by (simp add: dll_def)
qed

section \<open>The interface of node lists\<close>

text \<open>
  What the users of the lists rely on: a node is added to and removed from one list, and the
  other lists do not change. \<open>move_tail\<close>, \<open>move_head\<close> and \<open>rotate\<close> are the
  idioms of the scheduler: \<open>list_del\<close> followed by \<open>list_add_tail\<close> or
  \<open>list_add\<close> on another list or on the same one.
\<close>

locale node_lists =
  fixes lst :: "'h \<Rightarrow> nat \<Rightarrow> nat list \<Rightarrow> bool"
    and add :: "nat \<Rightarrow> nat \<Rightarrow> 'h \<Rightarrow> 'h"
    and add_tail :: "nat \<Rightarrow> nat \<Rightarrow> 'h \<Rightarrow> 'h"
    and del :: "nat \<Rightarrow> 'h \<Rightarrow> 'h"
  assumes lst_distinct: "lst h head xs \<Longrightarrow> distinct (head # xs)"
    and add_law: "lst h head xs \<Longrightarrow> new \<notin> insert head (set xs) \<Longrightarrow> lst (add head new h) head (new # xs)"
    and add_tail_law: "lst h head xs \<Longrightarrow> new \<notin> insert head (set xs) \<Longrightarrow>
      lst (add_tail head new h) head (xs @ [new])"
    and del_law: "lst h head xs \<Longrightarrow> n \<in> set xs \<Longrightarrow> lst (del n h) head (remove1 n xs)"
    and add_other: "lst h head xs \<Longrightarrow> lst h head' ys \<Longrightarrow>
      insert head (set xs) \<inter> insert head' (set ys) = {} \<Longrightarrow> new \<notin> insert head' (set ys) \<Longrightarrow>
      lst (add head new h) head' ys \<and> lst (add_tail head new h) head' ys"
    and del_other: "lst h head xs \<Longrightarrow> n \<in> set xs \<Longrightarrow> lst h head' ys \<Longrightarrow>
      insert head (set xs) \<inter> insert head' (set ys) = {} \<Longrightarrow> lst (del n h) head' ys"
begin

lemma rotate_law:
  assumes "lst h a xs" "n \<in> set xs"
  shows "lst (add_tail a n (del n h)) a (remove1 n xs @ [n])"
  using add_tail_law [OF del_law [OF assms], of n] lst_distinct [OF assms(1)] assms(2) by auto

lemma move_law:
  assumes a: "lst h a xs" and b: "lst h b ys" and n: "n \<in> set xs"
    and disj: "insert a (set xs) \<inter> insert b (set ys) = {}"
  shows "lst (add_tail b n (del n h)) a (remove1 n xs) \<and> lst (add_tail b n (del n h)) b (ys @ [n])"
    and "lst (add b n (del n h)) a (remove1 n xs) \<and> lst (add b n (del n h)) b (n # ys)"
proof -
  have b': "lst (del n h) b ys" by (rule del_other [OF a n b disj])
  have a': "lst (del n h) a (remove1 n xs)" by (rule del_law [OF a n])
  have n': "n \<notin> insert b (set ys)" "n \<notin> insert a (set (remove1 n xs))"
    using n disj lst_distinct [OF a] by auto
  have d: "insert b (set ys) \<inter> insert a (set (remove1 n xs)) = {}"
    using disj set_remove1_subset [of n xs] by blast
  note o = add_other [OF b' a' d n'(2)]
  show "lst (add_tail b n (del n h)) a (remove1 n xs) \<and> lst (add_tail b n (del n h)) b (ys @ [n])"
    using o add_tail_law [OF b' n'(1)] by blast
  show "lst (add b n (del n h)) a (remove1 n xs) \<and> lst (add b n (del n h)) b (n # ys)"
    using o add_law [OF b' n'(1)] by blast
qed

lemma move_other:
  assumes "lst h a xs" "lst h b ys" "lst h c zs" "n \<in> set xs"
    "insert a (set xs) \<inter> insert b (set ys) = {}"
    "insert c (set zs) \<inter> (insert a (set xs) \<union> insert b (set ys)) = {}"
  shows "lst (add_tail b n (del n h)) c zs \<and> lst (add b n (del n h)) c zs"
proof -
  have "lst (del n h) b ys" by (rule del_other [OF assms(1,4,2,5)])
  moreover have "lst (del n h) c zs" by (rule del_other [OF assms(1,4,3)]) (use assms in auto)
  moreover have "insert b (set ys) \<inter> insert c (set zs) = {}" "n \<notin> insert c (set zs)"
    using assms(4,6) by auto
  ultimately show ?thesis using add_other [of "del n h" b ys c zs n] by blast
qed

end

interpretation kl: node_lists dll list_add list_add_tail list_del
  by unfold_locales
    (auto simp: list_add_frame list_del_frame list_add_dll list_add_tail_dll list_del_dll dest: dll_imp_distinct)

section \<open>Properties\<close>

text \<open>
  C28. The scheduler moves a node with \<^verbatim>\<open>list_del\<close> followed by \<^verbatim>\<open>list_add_tail\<close>: the
  node leaves its list, is the last of the other one, every third list in the same store is
  untouched, and traversing each of the lists gives exactly these sequences.
\<close>

theorem node_move:
  assumes "dll h a xs" "dll h b ys" "dll h c zs" "n \<in> set xs"
    and "insert a (set xs) \<inter> insert b (set ys) = {}"
    and "insert c (set zs) \<inter> (insert a (set xs) \<union> insert b (set ys)) = {}"
  shows "list_for_each a (list_add_tail b n (list_del n h)) = Some (remove1 n xs) \<and>
    list_for_each b (list_add_tail b n (list_del n h)) = Some (ys @ [n]) \<and>
    list_for_each c (list_add_tail b n (list_del n h)) = Some zs"
  using kl.move_law(1) [OF assms(1,2,4,5)] kl.move_other [OF assms] by (simp_all add: list_for_each_dll)

theorem node_move_witness:
  "let h = list_add_tail 1 4 (init_list 3 (init_list 2 (init_list 1 \<lparr>nxt = id, pre = id\<rparr>)));
       h' = list_add_tail 2 4 (list_del 4 h) in
   list_for_each 1 h' = Some (remove1 4 [4]) \<and> list_for_each 2 h' = Some ([] @ [4]) \<and>
   list_for_each 3 h' = Some []"
proof -
  let ?h = "list_add_tail 1 4 (init_list 3 (init_list 2 (init_list 1 \<lparr>nxt = id, pre = id\<rparr>)))"
  have "dll ?h 1 [4]" "dll ?h 2 []" "dll ?h 3 []"
    by (simp_all add: dll_def list_add_tail_def init_list_def Let_def)
  from node_move [OF this, of 4] show ?thesis by (simp add: Let_def)
qed

text \<open>Single pointers: what an insertion or a removal leaves alone, and the successors of the head and of a node.\<close>

lemma nxt_add_tail_other: "dll h head xs \<Longrightarrow> q \<notin> insert head (set xs) \<Longrightarrow> q \<noteq> new \<Longrightarrow> nxt (list_add_tail head new h) q = nxt h q"
  using dll_pre_mem [of h head xs head] by (auto simp: list_add_tail_def Let_def)

lemma nxt_del_other: "dll h head xs \<Longrightarrow> n \<in> set xs \<Longrightarrow> q \<notin> insert head (set xs) \<Longrightarrow> nxt (list_del n h) q = nxt h q"
  using dll_pre_mem [of h head xs n] by (auto simp: list_del_def Let_def)

lemma next_first: "dll h head xs \<Longrightarrow> nxt h head = hd (xs @ [head])"
  by (cases xs) (auto simp: dll_def)

lemma next_mid: "dll h head (ds @ p # rs) \<Longrightarrow> nxt h p = hd (rs @ [head])"
  using links_split [of h "head # ds" p "rs @ [head]"] by (cases rs) (auto simp: dll_def)

end
