(* ===== verification/Kernel.thy ===== *)
theory Kernel
  imports Sched_Pick Klist
begin

text \<open>
  The state of the kernel that tasks, scheduler and events share, and its small accessors:
  \<^verbatim>\<open>struct task\<close> and \<^verbatim>\<open>struct task_info\<close> (\<^verbatim>\<open>task_def.h\<close>),
  \<^verbatim>\<open>struct pcpu\<close> (\<^verbatim>\<open>sched.h\<close>), \<^verbatim>\<open>struct event\<close>
  (\<^verbatim>\<open>event.h\<close>) and the global variables of \<^verbatim>\<open>sched.c\<close>, \<^verbatim>\<open>task.c\<close>,
  \<^verbatim>\<open>event.c\<close> and \<^verbatim>\<open>smp.c\<close>.

  Pointers are natural numbers, 0 is NULL; the objects live in total stores from pointers to
  records. The intrusive lists are the lists of the pointers on them, in order: the theory
  Klist shows that the pointer operations implement these list operations and leave the other
  lists alone. A section of code that runs under a lock or with interrupts disabled is one
  step; the lock of an event is nevertheless part of its state, because some paths return
  with it held. Requests that leave the modelled code (inter-processor interrupts, timers,
  hooks) are recorded in a log.
\<close>

section \<open>Constants\<close>

definition OS_NR_TASKS :: nat where "OS_NR_TASKS = 512"
definition OS_TASK_RESERVED :: nat where "OS_TASK_RESERVED = 1"

definition TASK_FLAGS_IDLE :: u64 where "TASK_FLAGS_IDLE = 1"
definition TASK_FLAGS_VCPU :: u64 where "TASK_FLAGS_VCPU = 2"

definition PCPU_AFF_NONE :: nat where "PCPU_AFF_NONE = 0xffff"
definition PCPU_AFF_PERCPU :: nat where "PCPU_AFF_PERCPU = 0xfffe"

definition TASK_STAT_RDY :: u16 where "TASK_STAT_RDY = 0x00"
definition TASK_STAT_SEM :: u16 where "TASK_STAT_SEM = 0x01"
definition TASK_STAT_MBOX :: u16 where "TASK_STAT_MBOX = 0x02"
definition TASK_STAT_Q :: u16 where "TASK_STAT_Q = 0x04"
definition TASK_STAT_SUSPEND :: u16 where "TASK_STAT_SUSPEND = 0x08"
definition TASK_STAT_MUTEX :: u16 where "TASK_STAT_MUTEX = 0x10"
definition TASK_STAT_FLAG :: u16 where "TASK_STAT_FLAG = 0x20"
definition TASK_STAT_RUNNING :: u16 where "TASK_STAT_RUNNING = 0x100"
definition TASK_STAT_STOPPED :: u16 where "TASK_STAT_STOPPED = 0x200"

definition TASK_STAT_PEND_ANY :: u16 where
  "TASK_STAT_PEND_ANY = TASK_STAT_SEM OR TASK_STAT_MBOX OR TASK_STAT_Q OR TASK_STAT_MUTEX
     OR TASK_STAT_FLAG"

definition TASK_STAT_PEND_OK :: nat where "TASK_STAT_PEND_OK = 0"
definition TASK_STAT_PEND_TO :: nat where "TASK_STAT_PEND_TO = 1"
definition TASK_STAT_PEND_ABORT :: nat where "TASK_STAT_PEND_ABORT = 2"

named_theorems stat_defs \<open>the state masks of task_def.h\<close>
declare TASK_STAT_RDY_def [stat_defs] TASK_STAT_SEM_def [stat_defs] TASK_STAT_MBOX_def [stat_defs]
  TASK_STAT_Q_def [stat_defs] TASK_STAT_SUSPEND_def [stat_defs] TASK_STAT_MUTEX_def [stat_defs]
  TASK_STAT_FLAG_def [stat_defs] TASK_STAT_RUNNING_def [stat_defs]
  TASK_STAT_STOPPED_def [stat_defs] TASK_STAT_PEND_ANY_def [stat_defs]

section \<open>State\<close>

text \<open>
  \<open>t_on_event_list\<close> is \<^verbatim>\<open>event_list.next != NULL\<close>; the \<open>ti_\<close> fields are
  those of the task's \<^verbatim>\<open>task_info\<close>, with the flag \<^verbatim>\<open>TIF_NEED_RESCHED\<close>.
\<close>

record task =
  t_pid :: int
  t_flags :: u64
  t_stat :: u16
  t_pend_stat :: nat
  t_prio :: nat
  t_bx :: nat
  t_by :: nat
  t_bitx :: u8
  t_bity :: u8
  t_affinity :: nat
  t_delay :: nat
  t_msg :: nat
  t_wait_event :: nat
  t_lock_event :: nat
  t_on_event_list :: bool
  t_flags_rdy :: u32
  t_run_time :: u64
  t_start_ns :: u64
  t_del_req :: nat
  t_udata :: nat
  t_name :: string
  ti_cpu :: nat
  ti_preempt_count :: int
  ti_need_resched :: bool

datatype pcpu_state = PCPU_STATE_RUNNING | PCPU_STATE_IDLE | PCPU_STATE_OFFLINE

record pcpu =
  pcpu_id :: nat
  p_state :: pcpu_state
  nr_pcpu_task :: nat
  task_list :: "nat list"
  new_list :: "nat list"
  ready_list :: "nat list"
  sleep_list :: "nat list"
  stop_list :: "nat list"
  idle_task :: nat
  local_rdy_tasks :: int

record event =
  e_type :: nat
  e_owner :: nat
  e_cnt :: nat
  e_data :: nat
  e_locked :: bool
  e_wait :: ptbl
  e_wait_list :: "nat list"
  e_name :: string

datatype smp_fn = Smp_set_task_ready nat | Smp_set_task_suspend nat

datatype keffect =
    Send_sgi nat nat
  | Del_timer nat
  | Mod_timer nat u64
  | Sched_tick_enable u64
  | Sched_tick_disable
  | Do_hooks nat string
  | Save_context nat
  | Restore_context nat
  | Enter_guest nat

record kernel =
  tasks :: "nat \<Rightarrow> task"
  os_task_table :: "nat list"
  os_task_nr :: int
  pid_map :: bitmap
  os_rdy :: ptbl
  os_highest_rdy :: "nat list"
  os_prio_cur :: "nat list"
  pcpus :: "pcpu list"
  pcpu_sched_class :: "sched_class list"
  current_tasks :: "nat list"
  next_tasks :: "nat list"
  os_running :: "bool list"
  smp_calls :: "smp_fn option list list"
  events :: "nat \<Rightarrow> event"
  event_list :: "nat list"
  klog :: "keffect list"

text \<open>\<^verbatim>\<open>smp_calls ! target ! caller\<close> is the call slot; \<open>None\<close> is an unlocked slot.\<close>

section \<open>Accessors\<close>

definition upd_task :: "nat \<Rightarrow> (task \<Rightarrow> task) \<Rightarrow> kernel \<Rightarrow> kernel" where
  "upd_task t f k = k\<lparr>tasks := (tasks k)(t := f (tasks k t))\<rparr>"

definition upd_pcpu :: "nat \<Rightarrow> (pcpu \<Rightarrow> pcpu) \<Rightarrow> kernel \<Rightarrow> kernel" where
  "upd_pcpu c f k = k\<lparr>pcpus := (pcpus k)[c := f (pcpus k ! c)]\<rparr>"

definition upd_event :: "nat \<Rightarrow> (event \<Rightarrow> event) \<Rightarrow> kernel \<Rightarrow> kernel" where
  "upd_event e f k = k\<lparr>events := (events k)(e := f (events k e))\<rparr>"

definition emit :: "keffect \<Rightarrow> kernel \<Rightarrow> kernel" where
  "emit x k = k\<lparr>klog := klog k @ [x]\<rparr>"

definition NR_CPUS :: "kernel \<Rightarrow> nat" where
  "NR_CPUS k = length (pcpus k)"

text \<open>\<^verbatim>\<open>get_current_task\<close> on CPU \<open>cpu\<close>, and the predicates of \<^verbatim>\<open>task.h\<close>.\<close>

definition get_current_task :: "nat \<Rightarrow> kernel \<Rightarrow> nat" where
  "get_current_task cpu k = current_tasks k ! cpu"

definition task_is_idle :: "task \<Rightarrow> bool" where
  "task_is_idle task \<longleftrightarrow> t_prio task = OS_PRIO_IDLE"

definition task_is_realtime :: "task \<Rightarrow> bool" where
  "task_is_realtime task \<longleftrightarrow> t_prio task \<le> OS_LOWEST_PRIO"

definition task_is_percpu :: "task \<Rightarrow> bool" where
  "task_is_percpu task \<longleftrightarrow> t_prio task = OS_PRIO_PCPU"

definition task_is_pending :: "task \<Rightarrow> bool" where
  "task_is_pending task \<longleftrightarrow> t_stat task AND TASK_STAT_PEND_ANY \<noteq> TASK_STAT_RDY"

definition task_is_suspend :: "task \<Rightarrow> bool" where
  "task_is_suspend task \<longleftrightarrow> t_stat task AND TASK_STAT_SUSPEND \<noteq> 0"

definition task_is_ready :: "task \<Rightarrow> bool" where
  "task_is_ready task \<longleftrightarrow> t_stat task = TASK_STAT_RDY \<or> t_stat task = TASK_STAT_RUNNING"

definition task_is_vcpu :: "task \<Rightarrow> bool" where
  "task_is_vcpu task \<longleftrightarrow> t_flags task AND TASK_FLAGS_VCPU \<noteq> 0"

definition set_need_resched :: "nat \<Rightarrow> kernel \<Rightarrow> kernel" where
  "set_need_resched cpu k =
    upd_task (get_current_task cpu k) (\<lambda>t. t\<lparr>ti_need_resched := True\<rparr>) k"

definition clear_need_resched :: "nat \<Rightarrow> kernel \<Rightarrow> kernel" where
  "clear_need_resched cpu k =
    upd_task (get_current_task cpu k) (\<lambda>t. t\<lparr>ti_need_resched := False\<rparr>) k"

definition preempt_allowed :: "nat \<Rightarrow> kernel \<Rightarrow> bool" where
  "preempt_allowed cpu k \<longleftrightarrow> ti_preempt_count (tasks k (get_current_task cpu k)) = 0"

definition preempt_disable :: "nat \<Rightarrow> kernel \<Rightarrow> kernel" where
  "preempt_disable cpu k = upd_task (get_current_task cpu k)
     (\<lambda>t. t\<lparr>ti_preempt_count := ti_preempt_count t + 1\<rparr>) k"

definition preempt_enable :: "nat \<Rightarrow> kernel \<Rightarrow> kernel" where
  "preempt_enable cpu k = upd_task (get_current_task cpu k)
     (\<lambda>t. t\<lparr>ti_preempt_count := ti_preempt_count t - 1\<rparr>) k"

text \<open>
  \<^verbatim>\<open>list_del(&task->stat_list)\<close>: the task leaves the state list it is on. The
  node is on one list only (part of the kernel invariant), so it is removed wherever it is.
\<close>

definition pcpu_list_del :: "nat \<Rightarrow> pcpu \<Rightarrow> pcpu" where
  "pcpu_list_del t p = p\<lparr>new_list := remove1 t (new_list p), ready_list := remove1 t (ready_list p),
     sleep_list := remove1 t (sleep_list p), stop_list := remove1 t (stop_list p)\<rparr>"

definition stat_list_del :: "nat \<Rightarrow> kernel \<Rightarrow> kernel" where
  "stat_list_del t k = k\<lparr>pcpus := map (pcpu_list_del t) (pcpus k)\<rparr>"

definition ready_add :: "nat \<Rightarrow> pcpu \<Rightarrow> pcpu" where
  "ready_add t p = p\<lparr>ready_list := t # ready_list p\<rparr>"

definition ready_add_tail :: "nat \<Rightarrow> pcpu \<Rightarrow> pcpu" where
  "ready_add_tail t p = p\<lparr>ready_list := ready_list p @ [t]\<rparr>"

definition sleep_add :: "nat \<Rightarrow> pcpu \<Rightarrow> pcpu" where
  "sleep_add t p = p\<lparr>sleep_list := t # sleep_list p\<rparr>"

definition sleep_add_tail :: "nat \<Rightarrow> pcpu \<Rightarrow> pcpu" where
  "sleep_add_tail t p = p\<lparr>sleep_list := sleep_list p @ [t]\<rparr>"

definition rdy_tasks_add :: "int \<Rightarrow> pcpu \<Rightarrow> pcpu" where
  "rdy_tasks_add d p = p\<lparr>local_rdy_tasks := local_rdy_tasks p + d\<rparr>"

section \<open>Frame rules\<close>

lemma upd_task_frame [simp]:
  "os_task_table (upd_task t f k) = os_task_table k" "os_task_nr (upd_task t f k) = os_task_nr k" 
  "pid_map (upd_task t f k) = pid_map k" "os_rdy (upd_task t f k) = os_rdy k" 
  "os_highest_rdy (upd_task t f k) = os_highest_rdy k" 
  "os_prio_cur (upd_task t f k) = os_prio_cur k" "pcpus (upd_task t f k) = pcpus k" 
  "pcpu_sched_class (upd_task t f k) = pcpu_sched_class k" 
  "current_tasks (upd_task t f k) = current_tasks k" "next_tasks (upd_task t f k) = next_tasks k" 
  "os_running (upd_task t f k) = os_running k" "smp_calls (upd_task t f k) = smp_calls k" 
  "events (upd_task t f k) = events k" "event_list (upd_task t f k) = event_list k" 
  "klog (upd_task t f k) = klog k"
  by (simp_all add: upd_task_def)

lemma upd_pcpu_frame [simp]:
  "tasks (upd_pcpu c g k) = tasks k" "os_task_table (upd_pcpu c g k) = os_task_table k" 
  "os_task_nr (upd_pcpu c g k) = os_task_nr k" "pid_map (upd_pcpu c g k) = pid_map k" 
  "os_rdy (upd_pcpu c g k) = os_rdy k" "os_highest_rdy (upd_pcpu c g k) = os_highest_rdy k" 
  "os_prio_cur (upd_pcpu c g k) = os_prio_cur k" 
  "pcpu_sched_class (upd_pcpu c g k) = pcpu_sched_class k" 
  "current_tasks (upd_pcpu c g k) = current_tasks k" "next_tasks (upd_pcpu c g k) = next_tasks k" 
  "os_running (upd_pcpu c g k) = os_running k" "smp_calls (upd_pcpu c g k) = smp_calls k" 
  "events (upd_pcpu c g k) = events k" "event_list (upd_pcpu c g k) = event_list k" 
  "klog (upd_pcpu c g k) = klog k"
  by (simp_all add: upd_pcpu_def)

lemma upd_event_frame [simp]:
  "tasks (upd_event e h k) = tasks k" "os_task_table (upd_event e h k) = os_task_table k" 
  "os_task_nr (upd_event e h k) = os_task_nr k" "pid_map (upd_event e h k) = pid_map k" 
  "os_rdy (upd_event e h k) = os_rdy k" "os_highest_rdy (upd_event e h k) = os_highest_rdy k" 
  "os_prio_cur (upd_event e h k) = os_prio_cur k" "pcpus (upd_event e h k) = pcpus k" 
  "pcpu_sched_class (upd_event e h k) = pcpu_sched_class k" 
  "current_tasks (upd_event e h k) = current_tasks k" 
  "next_tasks (upd_event e h k) = next_tasks k" "os_running (upd_event e h k) = os_running k" 
  "smp_calls (upd_event e h k) = smp_calls k" "event_list (upd_event e h k) = event_list k" 
  "klog (upd_event e h k) = klog k"
  by (simp_all add: upd_event_def)

lemma emit_frame [simp]:
  "tasks (emit x k) = tasks k" "os_task_table (emit x k) = os_task_table k" 
  "os_task_nr (emit x k) = os_task_nr k" "pid_map (emit x k) = pid_map k" 
  "os_rdy (emit x k) = os_rdy k" "os_highest_rdy (emit x k) = os_highest_rdy k" 
  "os_prio_cur (emit x k) = os_prio_cur k" "pcpus (emit x k) = pcpus k" 
  "pcpu_sched_class (emit x k) = pcpu_sched_class k" "current_tasks (emit x k) = current_tasks k" 
  "next_tasks (emit x k) = next_tasks k" "os_running (emit x k) = os_running k" 
  "smp_calls (emit x k) = smp_calls k" "events (emit x k) = events k" 
  "event_list (emit x k) = event_list k"
  by (simp_all add: emit_def)

lemma stat_list_del_frame [simp]:
  "tasks (stat_list_del t k) = tasks k" "os_task_table (stat_list_del t k) = os_task_table k" 
  "os_task_nr (stat_list_del t k) = os_task_nr k" "pid_map (stat_list_del t k) = pid_map k" 
  "os_rdy (stat_list_del t k) = os_rdy k" "os_highest_rdy (stat_list_del t k) = os_highest_rdy k" 
  "os_prio_cur (stat_list_del t k) = os_prio_cur k" 
  "pcpu_sched_class (stat_list_del t k) = pcpu_sched_class k" 
  "current_tasks (stat_list_del t k) = current_tasks k" 
  "next_tasks (stat_list_del t k) = next_tasks k" "os_running (stat_list_del t k) = os_running k" 
  "smp_calls (stat_list_del t k) = smp_calls k" "events (stat_list_del t k) = events k" 
  "event_list (stat_list_del t k) = event_list k" "klog (stat_list_del t k) = klog k"
  by (simp_all add: stat_list_del_def)

lemma accessor_effect [simp]:
  "tasks (upd_task t f k) = (tasks k)(t := f (tasks k t))"
  "pcpus (upd_pcpu c g k) = (pcpus k)[c := g (pcpus k ! c)]"
  "events (upd_event e h k) = (events k)(e := h (events k e))"
  "klog (emit x k) = klog k @ [x]"
  "pcpus (stat_list_del t k) = map (pcpu_list_del t) (pcpus k)"
  by (simp_all add: upd_task_def upd_pcpu_def upd_event_def emit_def stat_list_del_def)

lemma get_current_task_frame [simp]:
  "get_current_task c (upd_task t f k) = get_current_task c k"
  "get_current_task c (upd_pcpu d g k) = get_current_task c k"
  "get_current_task c (upd_event e h k) = get_current_task c k"
  "get_current_task c (emit x k) = get_current_task c k"
  "get_current_task c (stat_list_del t k) = get_current_task c k"
  by (simp_all add: get_current_task_def)

lemma NR_CPUS_frame [simp]:
  "NR_CPUS (upd_task t f k) = NR_CPUS k" "NR_CPUS (upd_pcpu c g k) = NR_CPUS k"
  "NR_CPUS (upd_event e h k) = NR_CPUS k" "NR_CPUS (emit x k) = NR_CPUS k"
  "NR_CPUS (stat_list_del t k) = NR_CPUS k"
  by (simp_all add: NR_CPUS_def)

section \<open>The state lists\<close>

text \<open>
  Every task node is on at most one state list of one CPU. \<open>all_stat\<close> lists the nodes of
  all of them; moving a node keeps them distinct.
\<close>

definition stat_lists :: "pcpu \<Rightarrow> nat list" where
  "stat_lists p = new_list p @ ready_list p @ sleep_list p @ stop_list p"

definition all_stat :: "kernel \<Rightarrow> nat list" where
  "all_stat k = concat (map stat_lists (pcpus k))"

lemma stat_lists_del: "distinct (stat_lists p) \<Longrightarrow>
    stat_lists (pcpu_list_del t p) = filter (\<lambda>x. x \<noteq> t) (stat_lists p)"
  by (simp add: stat_lists_def pcpu_list_del_def remove1_eq_filter)

lemma distinct_concat_part: "distinct (concat xss) \<Longrightarrow> xs \<in> set xss \<Longrightarrow> distinct xs"
  by (metis concat.simps(2) concat_append distinct_append split_list)

lemma all_stat_del:
  assumes "distinct (all_stat k)"
  shows "all_stat (stat_list_del t k) = filter (\<lambda>x. x \<noteq> t) (all_stat k)"
proof -
  have "stat_lists (pcpu_list_del t p) = filter (\<lambda>x. x \<noteq> t) (stat_lists p)" if "p \<in> set (pcpus k)" for p
    using stat_lists_del distinct_concat_part [of "map stat_lists (pcpus k)" "stat_lists p"] assms that
    by (simp add: all_stat_def)
  then show ?thesis
    by (simp add: all_stat_def filter_concat comp_def cong: map_cong)
qed

lemma all_stat_upd_pcpu:
  assumes "c < NR_CPUS k" "mset (stat_lists (g (pcpus k ! c))) = add_mset t (mset (stat_lists (pcpus k ! c)))"
  shows "mset (all_stat (upd_pcpu c g k)) = add_mset t (mset (all_stat k))"
proof -
  have c: "c < length (pcpus k)" using assms(1) by (simp add: NR_CPUS_def)
  have "mset (concat (map stat_lists ((pcpus k)[c := g (pcpus k ! c)]))) =
      mset (concat (map stat_lists (take c (pcpus k) @ g (pcpus k ! c) # drop (Suc c) (pcpus k))))"
    using c by (simp add: upd_conv_take_nth_drop)
  also have "\<dots> = add_mset t (mset (concat (map stat_lists
      (take c (pcpus k) @ pcpus k ! c # drop (Suc c) (pcpus k)))))"
    using assms(2) by simp
  finally show ?thesis using c by (simp add: all_stat_def id_take_nth_drop [symmetric])
qed

lemma stat_lists_add:
  "mset (stat_lists (ready_add t p)) = add_mset t (mset (stat_lists p))"
  "mset (stat_lists (ready_add_tail t p)) = add_mset t (mset (stat_lists p))"
  "mset (stat_lists (sleep_add t p)) = add_mset t (mset (stat_lists p))"
  "mset (stat_lists (sleep_add_tail t p)) = add_mset t (mset (stat_lists p))"
  by (simp_all add: stat_lists_def ready_add_def ready_add_tail_def sleep_add_def sleep_add_tail_def)

text \<open>A move of a node to a list of CPU \<open>c\<close>, by any of the four insertions.\<close>

lemma stat_move:
  assumes "distinct (all_stat k)" "c < NR_CPUS k"
    "g \<in> {ready_add t, ready_add_tail t, sleep_add t, sleep_add_tail t}"
  shows "distinct (all_stat (upd_pcpu c g (stat_list_del t k))) \<and>
    set (all_stat (upd_pcpu c g (stat_list_del t k))) = insert t (set (all_stat k))"
proof -
  let ?k = "stat_list_del t k"
  have d: "distinct (all_stat ?k)" "set (all_stat ?k) = set (all_stat k) - {t}"
    using assms(1) by (auto simp: all_stat_del)
  have "mset (all_stat (upd_pcpu c g ?k)) = add_mset t (mset (all_stat ?k))"
    by (rule all_stat_upd_pcpu) (use assms(2,3) stat_lists_add in auto)
  then have m: "mset (all_stat (upd_pcpu c g ?k)) = mset (t # all_stat ?k)" by simp
  have "distinct (t # all_stat ?k)" using d by simp
  with m d show ?thesis by (metis insert_Diff_single list.simps(15) mset_eq_imp_distinct_iff mset_eq_setD)
qed

lemma all_stat_cong: "map stat_lists (pcpus k') = map stat_lists (pcpus k) \<Longrightarrow> all_stat k' = all_stat k"
  by (simp add: all_stat_def)

lemma all_stat_frame [simp]:
  "all_stat (upd_task t f k) = all_stat k" "all_stat (upd_event e h k) = all_stat k"
  "all_stat (emit x k) = all_stat k"
  by (simp_all add: all_stat_def)

lemma all_stat_rdy_tasks [simp]: "all_stat (upd_pcpu c (rdy_tasks_add d) k) = all_stat k"
proof -
  have "stat_lists (rdy_tasks_add d p) = stat_lists p" for p
    by (simp add: stat_lists_def rdy_tasks_add_def)
  then show ?thesis by (simp add: all_stat_def map_update) (metis list_update_id map_update)
qed

end
