(* ===== verification/Sched.thy ===== *)
theory Sched
  imports Kernel
begin

text \<open>
  The scheduler, \<^verbatim>\<open>os/core/sched.c\<close>, and the cross-CPU calls of
  \<^verbatim>\<open>os/core/smp.c\<close> it uses. Every operation takes the CPU it runs on
  (\<^verbatim>\<open>smp_processor_id()\<close>) first. Readings of the clock (\<^verbatim>\<open>NOW()\<close>) are
  arguments. An operation that may spin on a busy call slot returns \<open>None\<close> then.
\<close>

section \<open>Making a task ready or not\<close>

definition CONFIG_MINOS_RESCHED_IRQ :: nat where "CONFIG_MINOS_RESCHED_IRQ = 7"
definition SMP_FUNCTION_CALL_IRQ :: nat where "SMP_FUNCTION_CALL_IRQ = 6"

definition pcpu_resched :: "nat \<Rightarrow> kernel \<Rightarrow> kernel" where
  "pcpu_resched pcpu k = emit (Send_sgi CONFIG_MINOS_RESCHED_IRQ pcpu) k"

definition set_next_task :: "nat \<Rightarrow> nat \<Rightarrow> kernel \<Rightarrow> kernel" where
  "set_next_task task cpuid k = k\<lparr>next_tasks := (next_tasks k)[cpuid := task]\<rparr>"

text \<open>The common tail of the ready operations: \<^verbatim>\<open>if (task->delay) ...\<close>.\<close>

definition cancel_delay :: "nat \<Rightarrow> kernel \<Rightarrow> kernel" where
  "cancel_delay t k =
    (if t_delay (tasks k t) \<noteq> 0
     then upd_task t (\<lambda>x. x\<lparr>t_delay := 0\<rparr>) (emit (Del_timer t) k) else k)"

definition smp_set_task_ready :: "nat \<Rightarrow> nat \<Rightarrow> kernel \<Rightarrow> kernel" where
  "smp_set_task_ready cpu t k =
    (if get_current_task cpu k = t \<or> \<not> task_is_ready (tasks k t) then k
     else
       let k = stat_list_del t k;
           k = upd_pcpu cpu (ready_add_tail t) k;
           k = upd_pcpu cpu (rdy_tasks_add 1) k;
           k = cancel_delay t k
       in set_need_resched cpu k)"

definition smp_set_task_suspend :: "nat \<Rightarrow> nat \<Rightarrow> kernel \<Rightarrow> kernel" where
  "smp_set_task_suspend cpu t k =
    (if get_current_task cpu k = t \<or> task_is_ready (tasks k t) then k
     else
       let k = stat_list_del t k;
           k = upd_pcpu cpu (sleep_add_tail t) k
       in upd_pcpu cpu (rdy_tasks_add (- 1)) k)"

fun smp_run :: "nat \<Rightarrow> smp_fn \<Rightarrow> kernel \<Rightarrow> kernel" where
  "smp_run cpu (Smp_set_task_ready t) k = smp_set_task_ready cpu t k"
| "smp_run cpu (Smp_set_task_suspend t) k = smp_set_task_suspend cpu t k"

text \<open>
  \<^verbatim>\<open>smp_function_call\<close> with \<open>wait = 0\<close>. The slot of the target CPU for this
  caller must be free, otherwise the caller spins.
\<close>

definition smp_function_call :: "nat \<Rightarrow> nat \<Rightarrow> smp_fn \<Rightarrow> kernel \<Rightarrow> (int \<times> kernel) option" where
  "smp_function_call cpuid cpu fn k =
    (let k = preempt_disable cpuid k in
     if cpu \<ge> NR_CPUS k then Some (- EINVAL, k)
     else if cpu = cpuid then Some (0, preempt_enable cpuid (smp_run cpuid fn k))
     else if smp_calls k ! cpu ! cpuid \<noteq> None then None
     else
       let k = k\<lparr>smp_calls := (smp_calls k)[cpu := (smp_calls k ! cpu)[cpuid := Some fn]]\<rparr>;
           k = emit (Send_sgi SMP_FUNCTION_CALL_IRQ cpu) k
       in Some (0, preempt_enable cpuid k))"

text \<open>\<^verbatim>\<open>smp_function_call_handler\<close>: run the calls of all callers, in order.\<close>

definition smp_call_slot :: "nat \<Rightarrow> nat \<Rightarrow> kernel \<Rightarrow> kernel" where
  "smp_call_slot cpu i k =
    (case smp_calls k ! cpu ! i of
       None \<Rightarrow> k
     | Some fn \<Rightarrow>
         let k = smp_run cpu fn k in
         k\<lparr>smp_calls := (smp_calls k)[cpu := (smp_calls k ! cpu)[i := None]]\<rparr>)"

definition smp_function_call_handler :: "nat \<Rightarrow> kernel \<Rightarrow> kernel" where
  "smp_function_call_handler cpu k = fold (smp_call_slot cpu) [0..<NR_CPUS k] k"

definition set_task_ready :: "nat \<Rightarrow> nat \<Rightarrow> kernel \<Rightarrow> kernel option" where
  "set_task_ready cpu t k =
    (let task = tasks k t in
     if task_is_idle task then Some k
     else if task_is_realtime task then
       let k = k\<lparr>os_rdy := ptbl_set (t_by task) (t_bitx task) (t_bity task) (os_rdy k)\<rparr>
       in Some (set_need_resched cpu (cancel_delay t k))
     else if pcpu_id (pcpus k ! cpu) \<noteq> t_affinity task then
       map_option snd (smp_function_call cpu (t_affinity task) (Smp_set_task_ready t) k)
     else
       let k = stat_list_del t k;
           k = upd_pcpu cpu (ready_add t) k;
           k = upd_pcpu cpu (rdy_tasks_add 1) k
       in Some (set_need_resched cpu (cancel_delay t k)))"

definition set_task_sleep :: "nat \<Rightarrow> nat \<Rightarrow> kernel \<Rightarrow> kernel option" where
  "set_task_sleep cpu t k =
    (let task = tasks k t in
     if task_is_idle task then Some k
     else if task_is_realtime task then
       Some (k\<lparr>os_rdy := ptbl_clear (t_by task) (t_bitx task) (t_bity task) (os_rdy k)\<rparr>)
     else if pcpu_id (pcpus k ! cpu) \<noteq> t_affinity task then
       map_option snd (smp_function_call cpu (t_affinity task) (Smp_set_task_suspend t) k)
     else
       let k = stat_list_del t k;
           k = upd_pcpu cpu (sleep_add t) k
       in Some (upd_pcpu cpu (rdy_tasks_add (- 1)) k))"

text \<open>\<^verbatim>\<open>get_highest_task\<close> reads the task table at the highest priority of a table.\<close>

definition get_highest_task :: "ptbl \<Rightarrow> kernel \<Rightarrow> nat" where
  "get_highest_task t k = os_task_table k ! ptbl_highest t"

section \<open>Choosing the next task\<close>

definition sched_new_k :: "kernel \<Rightarrow> kernel" where
  "sched_new_k k = k\<lparr>os_highest_rdy := sched_new (pcpu_sched_class k) (os_rdy k) (os_prio_cur k)\<rparr>"

definition get_next_local_run_task :: "nat \<Rightarrow> kernel \<Rightarrow> nat" where
  "get_next_local_run_task cpu k =
    (case ready_list (pcpus k ! cpu) of
       t # _ \<Rightarrow> t
     | [] \<Rightarrow> idle_task (pcpus k ! cpu))"

definition get_next_global_run_task :: "nat \<Rightarrow> kernel \<Rightarrow> nat" where
  "get_next_global_run_task cpu k =
    (let prio = os_highest_rdy k ! pcpu_id (pcpus k ! cpu) in
     if prio \<le> OS_LOWEST_PRIO then os_task_table k ! prio
     else case ready_list (pcpus k ! cpu) of
         t # _ \<Rightarrow> t
       | [] \<Rightarrow> idle_task (pcpus k ! cpu))"

definition CONFIG_TASK_RUN_TIME :: u64 where "CONFIG_TASK_RUN_TIME = 100"

definition MILLISECS :: "u64 \<Rightarrow> u64" where
  "MILLISECS ms = ms * 1000000"

definition run_time_left :: "u64 \<Rightarrow> u64 \<Rightarrow> u64" where
  "run_time_left now start =
    (let n = (now - start) div 1000000;
         n = (if n > CONFIG_TASK_RUN_TIME then 0 else CONFIG_TASK_RUN_TIME - n)
     in if n < 15 then CONFIG_TASK_RUN_TIME + n else n)"

definition recal_task_run_time :: "nat \<Rightarrow> nat \<Rightarrow> bool \<Rightarrow> u64 \<Rightarrow> kernel \<Rightarrow> kernel" where
  "recal_task_run_time cpu t suspend now k =
    (if \<not> task_is_percpu (tasks k t) then k
     else
       let k = upd_task t (\<lambda>x. x\<lparr>t_run_time := run_time_left now (t_start_ns x)\<rparr>) k in
       if \<not> suspend then upd_pcpu cpu (ready_add_tail t) (stat_list_del t k) else k)"

text \<open>The \<open>switch_out\<close> callbacks of the two classes; the \<open>switch_to\<close> ones are empty.\<close>

definition global_switch_out :: "nat \<Rightarrow> nat \<Rightarrow> kernel \<Rightarrow> kernel" where
  "global_switch_out cpu next k =
    (let prio = (if task_is_idle (tasks k next) then OS_PRIO_PCPU else t_prio (tasks k next))
     in k\<lparr>os_prio_cur := (os_prio_cur k)[pcpu_id (pcpus k ! cpu) := prio]\<rparr>)"

definition switch_out :: "nat \<Rightarrow> nat \<Rightarrow> kernel \<Rightarrow> kernel" where
  "switch_out cpu next k =
    (case pcpu_sched_class k ! cpu of
       SCHED_CLASS_GLOBAL \<Rightarrow> global_switch_out cpu next k
     | SCHED_CLASS_LOCAL \<Rightarrow> k)"

text \<open>
  \<^verbatim>\<open>task_sched_return\<close>: a virtual CPU that was interrupted in the guest goes back to
  it; \<open>from_guest\<close> stands for \<^verbatim>\<open>taken_from_guest\<close> on the saved registers.
\<close>

definition task_sched_return :: "(nat \<Rightarrow> bool) \<Rightarrow> nat \<Rightarrow> kernel \<Rightarrow> kernel" where
  "task_sched_return from_guest t k =
    (if task_is_vcpu (tasks k t) \<and> from_guest t then emit (Enter_guest t) k else k)"

definition no_task_sched_return :: "(nat \<Rightarrow> bool) \<Rightarrow> nat \<Rightarrow> u64 \<Rightarrow> kernel \<Rightarrow> kernel" where
  "no_task_sched_return from_guest t now k =
    (let x = tasks k t;
         k = (if ti_need_resched x \<and> task_is_percpu x \<and> t_start_ns x = 0
              then emit (Sched_tick_enable (MILLISECS (t_run_time x)))
                     (upd_task t (\<lambda>x. x\<lparr>t_start_ns := now\<rparr>) k)
              else k)
     in task_sched_return from_guest t k)"

text \<open>\<open>now1\<close>, \<open>now2\<close> and \<open>now3\<close> are the three readings of the clock, in order.\<close>

definition switch_to_task ::
  "(nat \<Rightarrow> bool) \<Rightarrow> u64 \<Rightarrow> u64 \<Rightarrow> u64 \<Rightarrow> nat \<Rightarrow> nat \<Rightarrow> nat \<Rightarrow> kernel \<Rightarrow> kernel" where
  "switch_to_task from_guest now1 now2 now3 cpu cur next k =
    (let k = emit (Save_context cur) k;
         k = (if \<not> task_is_ready (tasks k cur) then
                let k = recal_task_run_time cpu cur True now1 k in
                if t_delay (tasks k cur) \<noteq> 0
                then emit (Mod_timer cur (now2 + MILLISECS (of_nat (t_delay (tasks k cur))))) k
                else k
              else
                let k = recal_task_run_time cpu cur False now1 k in
                upd_task cur (\<lambda>x. x\<lparr>t_stat := TASK_STAT_RDY\<rparr>) k);
         k = emit (Do_hooks cur ''TASK_SWITCH_OUT'') k;
         k = switch_out cpu next k;
         k = upd_task next (\<lambda>x. x\<lparr>t_start_ns := now3\<rparr>) k;
         k = (if task_is_percpu (tasks k next)
              then emit (Sched_tick_enable (MILLISECS (t_run_time (tasks k next)))) k
              else emit Sched_tick_disable k);
         k = emit (Restore_context next) k;
         k = upd_task next (\<lambda>x. x\<lparr>t_stat := TASK_STAT_RUNNING, ti_cpu := pcpu_id (pcpus k ! cpu)\<rparr>) k;
         k = emit (Do_hooks next ''TASK_SWITCH_TO'') k
     in task_sched_return from_guest next k)"

text \<open>
  \<^verbatim>\<open>arch_switch_task_sw\<close> (\<^verbatim>\<open>vector.S\<close>): switch from the current to the next
  task of this CPU and make it current.
\<close>

definition arch_switch_task_sw ::
  "(nat \<Rightarrow> bool) \<Rightarrow> u64 \<Rightarrow> u64 \<Rightarrow> u64 \<Rightarrow> nat \<Rightarrow> kernel \<Rightarrow> kernel" where
  "arch_switch_task_sw from_guest now1 now2 now3 cpu k =
    (let next = next_tasks k ! cpu;
         k = switch_to_task from_guest now1 now2 now3 cpu (current_tasks k ! cpu) next k
     in k\<lparr>current_tasks := (current_tasks k)[cpu := next]\<rparr>)"

text \<open>The loop of \<^verbatim>\<open>global_sched\<close> and \<^verbatim>\<open>global_irq_handler\<close> that notifies the other CPUs.\<close>

definition resched_others :: "nat \<Rightarrow> kernel \<Rightarrow> kernel" where
  "resched_others cpuid k =
    fold (\<lambda>i k. if os_prio_cur k ! i \<noteq> os_highest_rdy k ! i \<and> i \<noteq> cpuid then pcpu_resched i k else k)
      [0..<NR_CPUS k] k"

definition global_sched ::
  "(nat \<Rightarrow> bool) \<Rightarrow> u64 \<Rightarrow> u64 \<Rightarrow> u64 \<Rightarrow> nat \<Rightarrow> nat \<Rightarrow> kernel \<Rightarrow> kernel" where
  "global_sched from_guest now1 now2 now3 cpu cur k =
    (let k = sched_new_k k;
         k = resched_others (pcpu_id (pcpus k ! cpu)) k;
         next = get_next_global_run_task cpu k
     in if cur \<noteq> next
        then arch_switch_task_sw from_guest now1 now2 now3 cpu
               (set_next_task next (pcpu_id (pcpus k ! cpu)) k)
        else k)"

definition local_sched ::
  "(nat \<Rightarrow> bool) \<Rightarrow> u64 \<Rightarrow> u64 \<Rightarrow> u64 \<Rightarrow> nat \<Rightarrow> nat \<Rightarrow> kernel \<Rightarrow> kernel" where
  "local_sched from_guest now1 now2 now3 cpu cur k =
    (let next = get_next_local_run_task cpu k in
     if next = cur then k
     else arch_switch_task_sw from_guest now1 now2 now3 cpu
            (set_next_task next (pcpu_id (pcpus k ! cpu)) k))"

text \<open>\<^verbatim>\<open>sched\<close> panics when preemption is disabled: \<open>None\<close>.\<close>

definition sched :: "(nat \<Rightarrow> bool) \<Rightarrow> u64 \<Rightarrow> u64 \<Rightarrow> u64 \<Rightarrow> nat \<Rightarrow> kernel \<Rightarrow> kernel option" where
  "sched from_guest now1 now2 now3 cpu k =
    (let cur = get_current_task cpu k in
     if \<not> preempt_allowed cpu k then None
     else
       let k = clear_need_resched cpu k in
       Some (case pcpu_sched_class k ! cpu of
         SCHED_CLASS_GLOBAL \<Rightarrow> global_sched from_guest now1 now2 now3 cpu cur k
       | SCHED_CLASS_LOCAL \<Rightarrow> local_sched from_guest now1 now2 now3 cpu cur k))"

definition sched_task ::
  "(nat \<Rightarrow> bool) \<Rightarrow> u64 \<Rightarrow> u64 \<Rightarrow> u64 \<Rightarrow> nat \<Rightarrow> nat \<Rightarrow> kernel \<Rightarrow> kernel option" where
  "sched_task from_guest now1 now2 now3 s_cpu t k =
    (let t_cpu = (if task_is_realtime (tasks k t) then ti_cpu (tasks k t) else t_affinity (tasks k t)) in
     if t_cpu \<noteq> s_cpu \<and> pcpu_sched_class k ! s_cpu \<noteq> SCHED_CLASS_GLOBAL
     then Some (pcpu_resched t_cpu k)
     else sched from_guest now1 now2 now3 s_cpu k)"

definition sched_tick_handler :: "nat \<Rightarrow> kernel \<Rightarrow> kernel" where
  "sched_tick_handler cpu k =
    (let t = get_current_task cpu k in
     if t_prio (tasks k t) \<noteq> OS_PRIO_PCPU then k
     else
       let k = upd_task t (\<lambda>x. x\<lparr>t_start_ns := 0, t_run_time := CONFIG_TASK_RUN_TIME\<rparr>) k;
           k = (if task_is_ready (tasks k t)
                then upd_pcpu cpu (ready_add_tail t) (stat_list_del t k) else k)
       in set_need_resched cpu k)"

definition local_irq_handler ::
  "(nat \<Rightarrow> bool) \<Rightarrow> u64 \<Rightarrow> u64 \<Rightarrow> u64 \<Rightarrow> nat \<Rightarrow> nat \<Rightarrow> kernel \<Rightarrow> kernel" where
  "local_irq_handler from_guest now1 now2 now3 cpu t k =
    (let next = get_next_local_run_task cpu k in
     if next = t then no_task_sched_return from_guest t now1 k
     else switch_to_task from_guest now1 now2 now3 cpu t next
            (set_next_task next (pcpu_id (pcpus k ! cpu)) k))"

definition global_irq_handler ::
  "(nat \<Rightarrow> bool) \<Rightarrow> u64 \<Rightarrow> u64 \<Rightarrow> u64 \<Rightarrow> nat \<Rightarrow> nat \<Rightarrow> kernel \<Rightarrow> kernel" where
  "global_irq_handler from_guest now1 now2 now3 cpu t k =
    (let cpuid = pcpu_id (pcpus k ! cpu);
         k = resched_others cpuid (sched_new_k k);
         next = get_next_global_run_task cpu k
     in if next \<noteq> t then switch_to_task from_guest now1 now2 now3 cpu t next (set_next_task next cpuid k)
        else no_task_sched_return from_guest next now1 k)"

text \<open>
  \<^verbatim>\<open>irq_return_handler\<close>, and what \<^verbatim>\<open>vector.S\<close> does after it: the next task of
  the CPU becomes its current task.
\<close>

definition irq_return_handler ::
  "(nat \<Rightarrow> bool) \<Rightarrow> u64 \<Rightarrow> u64 \<Rightarrow> u64 \<Rightarrow> nat \<Rightarrow> nat \<Rightarrow> kernel \<Rightarrow> kernel" where
  "irq_return_handler from_guest now1 now2 now3 cpu t k =
    (if ti_preempt_count (tasks k t) \<noteq> 0 \<or> \<not> ti_need_resched (tasks k t)
     then no_task_sched_return from_guest t now1 k
     else
       let k = (case pcpu_sched_class k ! cpu of
                  SCHED_CLASS_GLOBAL \<Rightarrow> global_irq_handler from_guest now1 now2 now3 cpu t k
                | SCHED_CLASS_LOCAL \<Rightarrow> local_irq_handler from_guest now1 now2 now3 cpu t k)
       in upd_task t (\<lambda>x. x\<lparr>ti_need_resched := False\<rparr>) k)"

definition irq_return ::
  "(nat \<Rightarrow> bool) \<Rightarrow> u64 \<Rightarrow> u64 \<Rightarrow> u64 \<Rightarrow> nat \<Rightarrow> kernel \<Rightarrow> kernel" where
  "irq_return from_guest now1 now2 now3 cpu k =
    (let k = irq_return_handler from_guest now1 now2 now3 cpu (current_tasks k ! cpu) k
     in k\<lparr>current_tasks := (current_tasks k)[cpu := next_tasks k ! cpu]\<rparr>)"

text \<open>\<^verbatim>\<open>resched_handler\<close>: the tasks created for this CPU by others join its lists.\<close>

definition resched_one :: "nat \<Rightarrow> nat \<Rightarrow> kernel \<Rightarrow> kernel" where
  "resched_one cpu t k =
    (let k = stat_list_del t k in
     if t_stat (tasks k t) = TASK_STAT_RDY then upd_pcpu cpu (ready_add_tail t) k
     else upd_pcpu cpu (sleep_add_tail t) k)"

definition resched_handler :: "nat \<Rightarrow> kernel \<Rightarrow> kernel" where
  "resched_handler cpu k =
    set_need_resched cpu (fold (resched_one cpu) (new_list (pcpus k ! cpu)) k)"

text \<open>\<^verbatim>\<open>set_task_suspend\<close>: the current task sleeps and the scheduler runs.\<close>

definition set_task_suspend ::
  "(nat \<Rightarrow> bool) \<Rightarrow> u64 \<Rightarrow> u64 \<Rightarrow> u64 \<Rightarrow> nat \<Rightarrow> nat \<Rightarrow> kernel \<Rightarrow> kernel option" where
  "set_task_suspend from_guest now1 now2 now3 cpu delay k =
    (let t = get_current_task cpu k;
         k = upd_task t (\<lambda>x. x\<lparr>t_delay := delay, t_stat := t_stat x OR TASK_STAT_SUSPEND\<rparr>) k
     in case set_task_sleep cpu t k of
          None \<Rightarrow> None
        | Some k \<Rightarrow> sched from_guest now1 now2 now3 cpu k)"

text \<open>\<^verbatim>\<open>pcpus_init\<close> (without \<^verbatim>\<open>CONFIG_OS_REALTIME_CORE0\<close>), before the device tree is read.\<close>

definition pcpu_init :: "nat \<Rightarrow> pcpu" where
  "pcpu_init i = \<lparr>pcpu_id = i, p_state = PCPU_STATE_OFFLINE, nr_pcpu_task = 0, task_list = [],
     new_list = [], ready_list = [], sleep_list = [], stop_list = [], idle_task = 0,
     local_rdy_tasks = 0\<rparr>"

definition pcpus_init :: "nat \<Rightarrow> kernel \<Rightarrow> kernel" where
  "pcpus_init n k = k\<lparr>pcpus := map pcpu_init [0..<n],
     pcpu_sched_class := replicate n SCHED_CLASS_GLOBAL\<rparr>"

lemma set_next_task_frame [simp]:
  "tasks (set_next_task t c k) = tasks k" "os_task_table (set_next_task t c k) = os_task_table k" 
  "os_task_nr (set_next_task t c k) = os_task_nr k" "pid_map (set_next_task t c k) = pid_map k" 
  "os_rdy (set_next_task t c k) = os_rdy k" 
  "os_highest_rdy (set_next_task t c k) = os_highest_rdy k" 
  "os_prio_cur (set_next_task t c k) = os_prio_cur k" "pcpus (set_next_task t c k) = pcpus k" 
  "pcpu_sched_class (set_next_task t c k) = pcpu_sched_class k" 
  "current_tasks (set_next_task t c k) = current_tasks k" 
  "os_running (set_next_task t c k) = os_running k" 
  "smp_calls (set_next_task t c k) = smp_calls k" "events (set_next_task t c k) = events k" 
  "event_list (set_next_task t c k) = event_list k" "klog (set_next_task t c k) = klog k"
  "NR_CPUS (set_next_task t c k) = NR_CPUS k"
  "get_current_task d (set_next_task t c k) = get_current_task d k"
  by (simp_all add: set_next_task_def NR_CPUS_def get_current_task_def)

section \<open>Invariants\<close>

text \<open>
  \<open>kernel_ok\<close>: the per-CPU arrays have one entry per CPU, the ready table is well formed
  and every task node is on at most one state list.
\<close>

definition kernel_ok :: "kernel \<Rightarrow> bool" where
  "kernel_ok k \<longleftrightarrow>
     length (os_highest_rdy k) = NR_CPUS k \<and> length (os_prio_cur k) = NR_CPUS k \<and>
     length (pcpu_sched_class k) = NR_CPUS k \<and> length (current_tasks k) = NR_CPUS k \<and>
     length (next_tasks k) = NR_CPUS k \<and> length (smp_calls k) = NR_CPUS k \<and>
     length (os_task_table k) = OS_NR_TASKS \<and>
     (\<forall>c<NR_CPUS k. pcpu_id (pcpus k ! c) = c) \<and>
     ptbl_ok (os_rdy k) \<and> distinct (all_stat k)"

text \<open>The priority a CPU reports in \<^verbatim>\<open>os_prio_cur\<close> for the task it runs.\<close>

definition run_prio :: "task \<Rightarrow> nat" where
  "run_prio task = (if task_is_idle task then OS_PRIO_PCPU else t_prio task)"

text \<open>
  \<open>sched_inv\<close>, for a system whose CPUs are all of the global class: no two CPUs run the
  same real-time priority, \<^verbatim>\<open>os_prio_cur\<close> is the priority of the running task, the task
  table has the task of every ready priority, the state lists hold per-CPU tasks, and idle
  tasks have the idle priority.
\<close>

definition sched_inv :: "kernel \<Rightarrow> bool" where
  "sched_inv k \<longleftrightarrow> kernel_ok k \<and> all_global (pcpu_sched_class k) (NR_CPUS k) \<and>
     cur_ok (os_prio_cur k) \<and>
     (\<forall>c<NR_CPUS k. os_prio_cur k ! c = run_prio (tasks k (current_tasks k ! c))) \<and>
     (\<forall>p\<in>ptbl_prios (os_rdy k). t_prio (tasks k (os_task_table k ! p)) = p) \<and>
     (\<forall>t\<in>set (all_stat k). t_prio (tasks k t) = OS_PRIO_PCPU) \<and>
     (\<forall>c<NR_CPUS k. t_prio (tasks k (idle_task (pcpus k ! c))) = OS_PRIO_IDLE)"

lemma run_prio_cong: "t_prio a = t_prio b \<Longrightarrow> run_prio a = run_prio b"
  by (simp add: run_prio_def task_is_idle_def)

text \<open>What the invariants read: a state that agrees on it keeps them.\<close>

lemma kernel_ok_cong:
  assumes "kernel_ok k" "length (os_highest_rdy k') = length (os_highest_rdy k)"
    "length (os_prio_cur k') = length (os_prio_cur k)"
    "pcpu_sched_class k' = pcpu_sched_class k" "length (current_tasks k') = length (current_tasks k)"
    "length (next_tasks k') = length (next_tasks k)" "length (smp_calls k') = length (smp_calls k)"
    "length (os_task_table k') = length (os_task_table k)" "map pcpu_id (pcpus k') = map pcpu_id (pcpus k)"
    "ptbl_ok (os_rdy k')" "distinct (all_stat k')"
  shows "kernel_ok k'"
proof -
  have n: "NR_CPUS k' = NR_CPUS k" using assms(9) unfolding NR_CPUS_def by (metis length_map)
  moreover have "pcpu_id (pcpus k' ! c) = pcpu_id (pcpus k ! c)" if "c < NR_CPUS k" for c
    using assms(9) that n unfolding NR_CPUS_def by (metis length_map nth_map)
  ultimately show ?thesis using assms by (simp add: kernel_ok_def)
qed

lemma pcpu_fields_del [simp]:
  "pcpu_id (pcpu_list_del t p) = pcpu_id p" "idle_task (pcpu_list_del t p) = idle_task p"
  "ready_list (pcpu_list_del t p) = remove1 t (ready_list p)"
  by (simp_all add: pcpu_list_del_def)

lemma pcpu_fields_add [simp]:
  "pcpu_id (ready_add t p) = pcpu_id p" "pcpu_id (ready_add_tail t p) = pcpu_id p"
  "pcpu_id (sleep_add t p) = pcpu_id p" "pcpu_id (sleep_add_tail t p) = pcpu_id p"
  "pcpu_id (rdy_tasks_add d p) = pcpu_id p" "idle_task (ready_add t p) = idle_task p"
  "idle_task (ready_add_tail t p) = idle_task p" "idle_task (sleep_add t p) = idle_task p"
  "idle_task (sleep_add_tail t p) = idle_task p" "idle_task (rdy_tasks_add d p) = idle_task p"
  "ready_list (ready_add t p) = t # ready_list p"
  "ready_list (ready_add_tail t p) = ready_list p @ [t]"
  "ready_list (sleep_add t p) = ready_list p" "ready_list (sleep_add_tail t p) = ready_list p"
  "ready_list (rdy_tasks_add d p) = ready_list p"
  by (simp_all add: ready_add_def ready_add_tail_def sleep_add_def sleep_add_tail_def rdy_tasks_add_def)

text \<open>
  \<open>lists_step t k k'\<close>: the CPUs keep their identity and idle task, and the only task that
  may join the state lists is \<open>t\<close>.
\<close>

definition lists_step :: "nat \<Rightarrow> kernel \<Rightarrow> kernel \<Rightarrow> bool" where
  "lists_step t k k' \<longleftrightarrow> NR_CPUS k' = NR_CPUS k \<and> map pcpu_id (pcpus k') = map pcpu_id (pcpus k) \<and>
     map idle_task (pcpus k') = map idle_task (pcpus k) \<and>
     (distinct (all_stat k) \<longrightarrow>
        distinct (all_stat k') \<and> set (all_stat k') \<subseteq> insert t (set (all_stat k)))"

lemma lists_step_same: "pcpus k' = pcpus k \<Longrightarrow> lists_step t k k'"
  by (auto simp: lists_step_def NR_CPUS_def all_stat_def)

lemma lists_step_trans: "lists_step t k k' \<Longrightarrow> lists_step t k' k'' \<Longrightarrow> lists_step t k k''"
  unfolding lists_step_def by (auto simp: subset_iff)

lemma lists_step_move:
  assumes "c < NR_CPUS k" "g \<in> {ready_add t, ready_add_tail t, sleep_add t, sleep_add_tail t}"
  shows "lists_step t k (upd_pcpu c g (stat_list_del t k))"
proof -
  have c: "c < length (pcpus k)" using assms(1) by (simp add: NR_CPUS_def)
  have "map pcpu_id ((map (pcpu_list_del t) (pcpus k))[c := g (pcpu_list_del t (pcpus k ! c))]) =
      map pcpu_id (pcpus k)"
    "map idle_task ((map (pcpu_list_del t) (pcpus k))[c := g (pcpu_list_del t (pcpus k ! c))]) =
      map idle_task (pcpus k)"
    using assms(2) c by (auto intro!: nth_equalityI simp: nth_list_update)
  then show ?thesis
    using stat_move [of k c g t] assms c by (auto simp: lists_step_def NR_CPUS_def)
qed

lemma lists_step_rdy_tasks: "lists_step t k (upd_pcpu c (rdy_tasks_add d) k)"
proof (cases "c < length (pcpus k)")
  case True
  then show ?thesis
    by (auto simp: lists_step_def NR_CPUS_def nth_list_update intro!: nth_equalityI)
next
  case False
  then show ?thesis by (intro lists_step_same) (simp add: list_update_beyond)
qed

text \<open>
  \<open>keeps t k k'\<close>: what an operation that moves at most the task \<open>t\<close> between state
  lists leaves alone. It is transitive, so the operations are shown to keep it piece by piece.
\<close>

definition keeps :: "nat \<Rightarrow> kernel \<Rightarrow> kernel \<Rightarrow> bool" where
  "keeps t k k' \<longleftrightarrow> lists_step t k k' \<and> (\<forall>x. t_prio (tasks k' x) = t_prio (tasks k x)) \<and>
     pcpu_sched_class k' = pcpu_sched_class k \<and> os_task_table k' = os_task_table k \<and>
     length (os_highest_rdy k') = length (os_highest_rdy k) \<and>
     length (next_tasks k') = length (next_tasks k) \<and> smp_calls k' = smp_calls k \<and>
     pid_map k' = pid_map k \<and> events k' = events k \<and> event_list k' = event_list k"

definition keeps_run :: "nat \<Rightarrow> kernel \<Rightarrow> kernel \<Rightarrow> bool" where
  "keeps_run t k k' \<longleftrightarrow> keeps t k k' \<and> os_prio_cur k' = os_prio_cur k \<and>
     current_tasks k' = current_tasks k \<and> next_tasks k' = next_tasks k \<and> os_rdy k' = os_rdy k"

lemma keeps_trans: "keeps t k k' \<Longrightarrow> keeps t k' k'' \<Longrightarrow> keeps t k k''"
  unfolding keeps_def using lists_step_trans by force

lemma keeps_run_trans [trans]: "keeps_run t k k' \<Longrightarrow> keeps_run t k' k'' \<Longrightarrow> keeps_run t k k''"
  unfolding keeps_run_def using keeps_trans by force

lemma keeps_run_refl [simp]: "keeps_run t k k"
  by (simp add: keeps_run_def keeps_def lists_step_same)

lemma keeps_run_basic [simp]:
  "keeps_run t k (emit x k)"
  "(\<And>y. t_prio (f y) = t_prio y) \<Longrightarrow> keeps_run t k (upd_task s f k)"
  "keeps_run t k (upd_pcpu c (rdy_tasks_add d) k)"
  "keeps_run t k (k\<lparr>os_highest_rdy := w\<rparr>) \<longleftrightarrow> length w = length (os_highest_rdy k)"
  by (auto simp: keeps_run_def keeps_def lists_step_same lists_step_rdy_tasks)

lemma keeps_run_move:
  "c < NR_CPUS k \<Longrightarrow> g \<in> {ready_add t, ready_add_tail t, sleep_add t, sleep_add_tail t} \<Longrightarrow>
    keeps_run t k (upd_pcpu c g (stat_list_del t k))"
  by (simp add: keeps_run_def keeps_def lists_step_move)

lemma keeps_NR_CPUS: "keeps_run t k k' \<Longrightarrow> NR_CPUS k' = NR_CPUS k"
  by (simp add: keeps_run_def keeps_def lists_step_def)

lemma kernel_ok_keeps:
  assumes "kernel_ok k" "keeps t k k'" "length (os_prio_cur k') = length (os_prio_cur k)"
    "length (current_tasks k') = length (current_tasks k)" "ptbl_ok (os_rdy k')"
  shows "kernel_ok k'"
  by (rule kernel_ok_cong [OF assms(1)])
    (use assms in \<open>auto simp: keeps_def lists_step_def kernel_ok_def\<close>)

lemma sched_inv_keeps:
  assumes inv: "sched_inv k" and keep: "keeps t k k'"
    and t: "t_prio (tasks k t) = OS_PRIO_PCPU \<or> set (all_stat k') \<subseteq> set (all_stat k)"
    and len: "length (os_prio_cur k') = length (os_prio_cur k)"
      "length (current_tasks k') = length (current_tasks k)"
    and cur: "cur_ok (os_prio_cur k')"
      "\<forall>c<NR_CPUS k. os_prio_cur k' ! c = run_prio (tasks k (current_tasks k' ! c))"
    and rdy: "ptbl_ok (os_rdy k')" "\<forall>p\<in>ptbl_prios (os_rdy k'). t_prio (tasks k (os_task_table k ! p)) = p"
  shows "sched_inv k'"
proof -
  have n: "NR_CPUS k' = NR_CPUS k" using keep by (simp add: keeps_def lists_step_def)
  have prio: "t_prio (tasks k' x) = t_prio (tasks k x)" for x using keep by (simp add: keeps_def)
  have run: "run_prio (tasks k' x) = run_prio (tasks k x)" for x using prio by (rule run_prio_cong)
  have "kernel_ok k'" using inv keep len rdy by (auto simp: sched_inv_def intro: kernel_ok_keeps)
  moreover have "idle_task (pcpus k' ! c) = idle_task (pcpus k ! c)" if "c < NR_CPUS k" for c
    using keep that n unfolding keeps_def lists_step_def NR_CPUS_def by (metis nth_map)
  moreover have "t_prio (tasks k x) = OS_PRIO_PCPU" if "x \<in> set (all_stat k')" for x
    using keep t that inv unfolding keeps_def lists_step_def sched_inv_def kernel_ok_def by blast
  ultimately show ?thesis
    using inv keep cur rdy n prio run by (simp add: sched_inv_def keeps_def)
qed

text \<open>An operation that changes no running priority keeps the invariant.\<close>

lemma sched_inv_keeps_run:
  assumes "sched_inv k" "keeps_run t k k'"
    "t_prio (tasks k t) = OS_PRIO_PCPU \<or> set (all_stat k') \<subseteq> set (all_stat k)"
  shows "sched_inv k'"
  by (rule sched_inv_keeps [OF assms(1) _ assms(3)])
    (use assms in \<open>auto simp: keeps_run_def sched_inv_def kernel_ok_def\<close>)

section \<open>The operations keep the invariant\<close>

text \<open>One rule per outermost operation, for proofs that follow the shape of the code.\<close>

named_theorems keep_intros \<open>one more operation keeps what the invariants read\<close>

lemma keep_emit [keep_intros]: "keeps_run t k k' \<Longrightarrow> keeps_run t k (emit x k')"
  by (rule keeps_run_trans [OF _ keeps_run_basic(1)])

lemma keep_upd_task [keep_intros]:
  "keeps_run t k k' \<Longrightarrow> (\<And>y. t_prio (f y) = t_prio y) \<Longrightarrow> keeps_run t k (upd_task s f k')"
  by (rule keeps_run_trans [OF _ keeps_run_basic(2)])

lemma keep_rdy_tasks [keep_intros]:
  "keeps_run t k k' \<Longrightarrow> keeps_run t k (upd_pcpu c (rdy_tasks_add d) k')"
  by (rule keeps_run_trans [OF _ keeps_run_basic(3)])

lemma keep_move:
  "keeps_run t k k' \<Longrightarrow> c < NR_CPUS k \<Longrightarrow>
    g \<in> {ready_add t, ready_add_tail t, sleep_add t, sleep_add_tail t} \<Longrightarrow>
    keeps_run t k (upd_pcpu c g (stat_list_del t k'))"
  using keeps_run_trans keeps_run_move keeps_NR_CPUS by metis

lemma keep_moves [keep_intros]:
  assumes "keeps_run t k k'" "c < NR_CPUS k"
  shows "keeps_run t k (upd_pcpu c (ready_add t) (stat_list_del t k'))"
    "keeps_run t k (upd_pcpu c (ready_add_tail t) (stat_list_del t k'))"
    "keeps_run t k (upd_pcpu c (sleep_add t) (stat_list_del t k'))"
    "keeps_run t k (upd_pcpu c (sleep_add_tail t) (stat_list_del t k'))"
  using keep_move [OF assms] by simp_all

lemma keep_if [keep_intros]:
  "(b \<Longrightarrow> keeps_run t k x) \<Longrightarrow> (\<not> b \<Longrightarrow> keeps_run t k y) \<Longrightarrow> keeps_run t k (if b then x else y)"
  by simp

lemma cancel_delay_keeps [keep_intros]: "keeps_run t k k' \<Longrightarrow> keeps_run t k (cancel_delay s k')"
  unfolding cancel_delay_def by (intro keep_intros) simp_all

lemma need_resched_keeps [keep_intros]:
  "keeps_run t k k' \<Longrightarrow> keeps_run t k (set_need_resched c k')"
  "keeps_run t k k' \<Longrightarrow> keeps_run t k (clear_need_resched c k')"
  unfolding set_need_resched_def clear_need_resched_def by (intro keep_intros, simp_all)+

lemma preempt_keeps [keep_intros]:
  "keeps_run t k k' \<Longrightarrow> keeps_run t k (preempt_disable c k')"
  "keeps_run t k k' \<Longrightarrow> keeps_run t k (preempt_enable c k')"
  unfolding preempt_disable_def preempt_enable_def by (intro keep_intros, simp_all)+

lemma smp_set_task_ready_keeps [keep_intros]:
  "keeps_run t k k' \<Longrightarrow> c < NR_CPUS k \<Longrightarrow> keeps_run t k (smp_set_task_ready c t k')"
  unfolding smp_set_task_ready_def Let_def by (intro keep_intros)

lemma smp_set_task_suspend_keeps [keep_intros]:
  "keeps_run t k k' \<Longrightarrow> c < NR_CPUS k \<Longrightarrow> keeps_run t k (smp_set_task_suspend c t k')"
  unfolding smp_set_task_suspend_def Let_def by (intro keep_intros)

fun smp_fn_task :: "smp_fn \<Rightarrow> nat" where
  "smp_fn_task (Smp_set_task_ready t) = t"
| "smp_fn_task (Smp_set_task_suspend t) = t"

lemma smp_run_keeps [keep_intros]:
  "keeps_run (smp_fn_task fn) k k' \<Longrightarrow> c < NR_CPUS k \<Longrightarrow> keeps_run (smp_fn_task fn) k (smp_run c fn k')"
  by (cases fn) (simp_all add: smp_set_task_ready_keeps smp_set_task_suspend_keeps)

lemma recal_keeps [keep_intros]:
  "keeps_run t k k' \<Longrightarrow> c < NR_CPUS k \<Longrightarrow> keeps_run t k (recal_task_run_time c t susp now k')"
  unfolding recal_task_run_time_def Let_def by (intro keep_intros) simp_all

lemma task_return_keeps [keep_intros]:
  "keeps_run t k k' \<Longrightarrow> keeps_run t k (task_sched_return fg s k')"
  unfolding task_sched_return_def by (intro keep_intros)

lemma no_task_return_keeps [keep_intros]:
  "keeps_run t k k' \<Longrightarrow> keeps_run t k (no_task_sched_return fg s now k')"
  unfolding no_task_sched_return_def Let_def by (intro keep_intros) simp_all

lemma resched_others_keeps:
  "keeps_run t k (resched_others c k)" "os_highest_rdy (resched_others c k) = os_highest_rdy k"
  "pcpus (resched_others c k) = pcpus k" "tasks (resched_others c k) = tasks k"
proof -
  let ?f = "\<lambda>i k. if os_prio_cur k ! i \<noteq> os_highest_rdy k ! i \<and> i \<noteq> c then pcpu_resched i k else k"
  have "keeps_run t k (fold ?f xs k) \<and> os_highest_rdy (fold ?f xs k) = os_highest_rdy k \<and>
      pcpus (fold ?f xs k) = pcpus k \<and> tasks (fold ?f xs k) = tasks k" for xs
  proof (induction xs arbitrary: k)
    case (Cons x xs)
    have "keeps_run t k (?f x k)" "os_highest_rdy (?f x k) = os_highest_rdy k"
      "pcpus (?f x k) = pcpus k" "tasks (?f x k) = tasks k"
      by (auto simp: pcpu_resched_def)
    with Cons [of "?f x k"] show ?case by (auto intro: keeps_run_trans)
  qed simp
  then show "keeps_run t k (resched_others c k)" "os_highest_rdy (resched_others c k) = os_highest_rdy k"
    "pcpus (resched_others c k) = pcpus k" "tasks (resched_others c k) = tasks k"
    unfolding resched_others_def by blast+
qed

text \<open>
  A switch changes the running priority of this CPU only. \<open>switch_prepare\<close> is the part of
  \<^verbatim>\<open>switch_to_task\<close> before \<^verbatim>\<open>switch_out\<close>, \<open>switch_finish\<close> the part after it.
\<close>

definition switch_prepare :: "u64 \<Rightarrow> u64 \<Rightarrow> nat \<Rightarrow> nat \<Rightarrow> kernel \<Rightarrow> kernel" where
  "switch_prepare now1 now2 cpu cur k =
    (let k = emit (Save_context cur) k;
         k = (if \<not> task_is_ready (tasks k cur) then
                let k = recal_task_run_time cpu cur True now1 k in
                if t_delay (tasks k cur) \<noteq> 0
                then emit (Mod_timer cur (now2 + MILLISECS (of_nat (t_delay (tasks k cur))))) k
                else k
              else
                let k = recal_task_run_time cpu cur False now1 k in
                upd_task cur (\<lambda>x. x\<lparr>t_stat := TASK_STAT_RDY\<rparr>) k)
     in emit (Do_hooks cur ''TASK_SWITCH_OUT'') k)"

definition switch_finish :: "(nat \<Rightarrow> bool) \<Rightarrow> u64 \<Rightarrow> nat \<Rightarrow> nat \<Rightarrow> kernel \<Rightarrow> kernel" where
  "switch_finish from_guest now3 cpu next k =
    (let k = upd_task next (\<lambda>x. x\<lparr>t_start_ns := now3\<rparr>) k;
         k = (if task_is_percpu (tasks k next)
              then emit (Sched_tick_enable (MILLISECS (t_run_time (tasks k next)))) k
              else emit Sched_tick_disable k);
         k = emit (Restore_context next) k;
         k = upd_task next (\<lambda>x. x\<lparr>t_stat := TASK_STAT_RUNNING, ti_cpu := pcpu_id (pcpus k ! cpu)\<rparr>) k;
         k = emit (Do_hooks next ''TASK_SWITCH_TO'') k
     in task_sched_return from_guest next k)"

lemma switch_to_task_split:
  "switch_to_task fg now1 now2 now3 cpu cur next k =
    switch_finish fg now3 cpu next (switch_out cpu next (switch_prepare now1 now2 cpu cur k))"
  unfolding switch_to_task_def switch_finish_def switch_prepare_def Let_def ..

lemma switch_prepare_keeps [keep_intros]:
  "keeps_run cur k k' \<Longrightarrow> c < NR_CPUS k \<Longrightarrow> keeps_run cur k (switch_prepare now1 now2 c cur k')"
  unfolding switch_prepare_def Let_def by (intro keep_intros) simp_all

lemma switch_finish_keeps [keep_intros]:
  "keeps_run t k k' \<Longrightarrow> keeps_run t k (switch_finish fg now3 c next k')"
  unfolding switch_finish_def Let_def by (intro keep_intros) simp_all

lemma keeps_pcpu_id: "keeps_run t k k' \<Longrightarrow> c < NR_CPUS k \<Longrightarrow> pcpu_id (pcpus k' ! c) = pcpu_id (pcpus k ! c)"
  unfolding keeps_run_def keeps_def lists_step_def NR_CPUS_def by (metis nth_map)

lemma switch_prepare_pcpus:
  "\<not> task_is_percpu (tasks k cur) \<Longrightarrow> pcpus (switch_prepare now1 now2 c cur k) = pcpus k"
  by (simp add: switch_prepare_def Let_def recal_task_run_time_def task_is_percpu_def)

lemma switch_finish_pcpus: "pcpus (switch_finish fg now3 c next k) = pcpus k"
  by (simp add: switch_finish_def Let_def task_sched_return_def)

lemma switch_to_task_effect:
  fixes fg :: "nat \<Rightarrow> bool" and now1 now2 now3 :: u64 and cur nt :: nat
  assumes ok: "kernel_ok k" and c: "c < NR_CPUS k" and cls: "pcpu_sched_class k ! c = SCHED_CLASS_GLOBAL"
  defines "k' \<equiv> switch_to_task fg now1 now2 now3 c cur nt k"
  shows "keeps cur k k'" "os_prio_cur k' = (os_prio_cur k)[c := run_prio (tasks k nt)]"
    "current_tasks k' = current_tasks k" "os_rdy k' = os_rdy k" "next_tasks k' = next_tasks k"
    "\<not> task_is_percpu (tasks k cur) \<Longrightarrow> pcpus k' = pcpus k"
proof -
  let ?k1 = "switch_prepare now1 now2 c cur k"
  let ?k2 = "switch_out c nt ?k1"
  have k1: "keeps_run cur k ?k1" using c by (intro keep_intros) simp_all
  have "pcpu_id (pcpus ?k1 ! c) = c" using keeps_pcpu_id [OF k1 c] ok c by (simp add: kernel_ok_def)
  moreover have "run_prio (tasks ?k1 nt) = run_prio (tasks k nt)"
    using k1 by (intro run_prio_cong) (simp add: keeps_run_def keeps_def)
  moreover have "pcpu_sched_class ?k1 ! c = SCHED_CLASS_GLOBAL"
    using k1 cls by (simp add: keeps_run_def keeps_def)
  ultimately have k2: "?k2 = ?k1\<lparr>os_prio_cur := (os_prio_cur ?k1)[c := run_prio (tasks k nt)]\<rparr>"
    by (simp add: switch_out_def global_switch_out_def run_prio_def Let_def)
  have k': "keeps_run cur ?k2 k'" "pcpus k' = pcpus ?k2" "next_tasks k' = next_tasks ?k2"
    unfolding k'_def switch_to_task_split
    by (auto intro!: keep_intros simp: switch_finish_def Let_def task_sched_return_def)
  have "keeps cur ?k1 ?k2" unfolding k2 by (simp add: keeps_def lists_step_same)
  then show "keeps cur k k'" using k1 k'(1) keeps_trans unfolding keeps_run_def by blast
  show "os_prio_cur k' = (os_prio_cur k)[c := run_prio (tasks k nt)]"
    "current_tasks k' = current_tasks k" "os_rdy k' = os_rdy k"
    using k1 k' unfolding keeps_run_def k2 by auto
  have "next_tasks ?k1 = next_tasks k"
    by (simp add: switch_prepare_def Let_def recal_task_run_time_def)
  then show "next_tasks k' = next_tasks k" using k' unfolding k2 by simp
  show "\<not> task_is_percpu (tasks k cur) \<Longrightarrow> pcpus k' = pcpus k"
    using k'(2) unfolding k2 by (simp add: switch_prepare_pcpus)
qed

lemma ready_in_all_stat: "c < NR_CPUS k \<Longrightarrow> t \<in> set (ready_list (pcpus k ! c)) \<Longrightarrow> t \<in> set (all_stat k)"
  by (auto simp: all_stat_def stat_lists_def NR_CPUS_def intro!: bexI [of _ "pcpus k ! c"])

text \<open>The task chosen for a CPU has the priority \<^verbatim>\<open>sched_new\<close> gave it.\<close>

lemma sched_inv_sched_new:
  assumes "sched_inv k"
  shows "sched_inv (sched_new_k k)" "length (os_highest_rdy (sched_new_k k)) = NR_CPUS k"
proof -
  let ?tops = "top_prios (length (os_prio_cur k)) (os_rdy k)"
  have "mset (os_highest_rdy (sched_new_k k)) =
      mset (?tops @ replicate (length (os_prio_cur k) - length ?tops) OS_PRIO_PCPU)"
    using assms sched_new_assignment(1) [of "os_rdy k" "os_prio_cur k" "pcpu_sched_class k"]
    by (simp add: sched_new_k_def sched_inv_def kernel_ok_def)
  then have "length (os_highest_rdy (sched_new_k k)) =
      length (?tops @ replicate (length (os_prio_cur k) - length ?tops) OS_PRIO_PCPU)"
    by (metis size_mset)
  also have "\<dots> = NR_CPUS k" using assms by (simp add: top_prios_def sched_inv_def kernel_ok_def)
  finally show len: "length (os_highest_rdy (sched_new_k k)) = NR_CPUS k" .
  then have "keeps_run 0 k (sched_new_k k)"
    using assms by (simp add: sched_new_k_def sched_inv_def kernel_ok_def)
  then show "sched_inv (sched_new_k k)"
    by (rule sched_inv_keeps_run [OF assms]) (simp add: sched_new_k_def all_stat_def)
qed

lemma highest_cases:
  assumes "sched_inv k" "c < NR_CPUS k"
  defines "hi \<equiv> sched_new (pcpu_sched_class k) (os_rdy k) (os_prio_cur k)"
  shows "hi ! c = OS_PRIO_PCPU \<or> hi ! c \<in> set (top_prios (NR_CPUS k) (os_rdy k))"
    and "\<And>d. d < NR_CPUS k \<Longrightarrow> d \<noteq> c \<Longrightarrow> hi ! c \<le> OS_LOWEST_PRIO \<Longrightarrow> hi ! d \<noteq> hi ! c"
    and "\<And>d. d < NR_CPUS k \<Longrightarrow> os_prio_cur k ! d \<in> set (top_prios (NR_CPUS k) (os_rdy k)) \<Longrightarrow>
      hi ! d = os_prio_cur k ! d"
proof -
  let ?n = "NR_CPUS k"
  let ?tops = "top_prios ?n (os_rdy k)"
  have ok: "ptbl_ok (os_rdy k)" "cur_ok (os_prio_cur k)" "length (os_prio_cur k) = ?n"
    "all_global (pcpu_sched_class k) (length (os_prio_cur k))"
    using assms by (simp_all add: sched_inv_def kernel_ok_def)
  note asg = sched_new_assignment [OF ok(1,2,4), unfolded ok(3), folded hi_def]
  have len: "length hi = ?n"
    using sched_inv_sched_new [OF assms(1)] by (simp add: hi_def sched_new_k_def)
  have "set hi = set (?tops @ replicate (?n - length ?tops) OS_PRIO_PCPU)"
    using asg(1) mset_eq_setD by blast
  moreover have "hi ! c \<in> set hi" using assms(2) len by simp
  ultimately show "hi ! c = OS_PRIO_PCPU \<or> hi ! c \<in> set ?tops" by auto
  show "hi ! d = os_prio_cur k ! d" if "d < ?n" "os_prio_cur k ! d \<in> set ?tops" for d
    using asg(2) that by blast
  show "hi ! d \<noteq> hi ! c" if d: "d < ?n" "d \<noteq> c" and rt: "hi ! c \<le> OS_LOWEST_PRIO" for d
  proof
    assume eq: "hi ! d = hi ! c"
    have "count (mset hi) (hi ! c) = count (mset ?tops) (hi ! c)"
      using asg(1) rt by (simp add: prio_defs)
    also have "\<dots> \<le> 1"
      by (metis distinct_count_atmost_1 distinct_sorted_list_of_set distinct_take top_prios_def
          le_refl zero_le_one)
    finally have "count (mset hi) (hi ! c) \<le> 1" .
    moreover have "2 \<le> count (mset hi) (hi ! c)"
    proof -
      have "{c, d} \<subseteq> {i. i < length hi \<and> hi ! i = hi ! c}" using assms(2) d eq len by auto
      then have "card {c, d} \<le> card {i. i < length hi \<and> hi ! i = hi ! c}"
        by (rule card_mono [rotated]) simp
      then show ?thesis
        using d unfolding count_mset count_list_eq_length_filter length_filter_conv_card
        by (simp add: eq_commute [of "hi ! c"])
    qed
    ultimately show False by simp
  qed
qed

lemma next_run_prio:
  assumes inv: "sched_inv k" and c: "c < NR_CPUS k"
  shows "run_prio (tasks k (get_next_global_run_task c (sched_new_k k))) = os_highest_rdy (sched_new_k k) ! c"
proof -
  let ?hi = "os_highest_rdy (sched_new_k k)"
  have id: "pcpu_id (pcpus k ! c) = c" using inv c by (simp add: sched_inv_def kernel_ok_def)
  have ok: "ptbl_ok (os_rdy k)" using inv by (simp add: sched_inv_def kernel_ok_def)
  have "?hi ! c = OS_PRIO_PCPU \<or> ?hi ! c \<in> set (top_prios (NR_CPUS k) (os_rdy k))"
    using highest_cases(1) [OF inv c] by (simp add: sched_new_k_def)
  then show ?thesis
  proof
    assume pcpu: "?hi ! c = OS_PRIO_PCPU"
    have "get_next_global_run_task c (sched_new_k k) =
        (case ready_list (pcpus k ! c) of t # _ \<Rightarrow> t | [] \<Rightarrow> idle_task (pcpus k ! c))"
      using pcpu id
      by (simp add: get_next_global_run_task_def sched_new_k_def prio_defs split: list.splits)
    then show ?thesis
      using inv c pcpu ready_in_all_stat [OF c]
      by (auto simp: sched_inv_def run_prio_def task_is_idle_def prio_defs split: list.splits)
  next
    assume "?hi ! c \<in> set (top_prios (NR_CPUS k) (os_rdy k))"
    then have p: "?hi ! c \<in> ptbl_prios (os_rdy k)" using set_top_prios [OF ok] by blast
    then have lt: "?hi ! c \<le> OS_LOWEST_PRIO"
      using pt.prios_bound [OF ok] by (auto simp: prio_defs)
    then have "get_next_global_run_task c (sched_new_k k) = os_task_table k ! (?hi ! c)"
      using id by (simp add: get_next_global_run_task_def sched_new_k_def)
    moreover have "t_prio (tasks k (os_task_table k ! (?hi ! c))) = ?hi ! c"
      using inv p by (simp add: sched_inv_def)
    ultimately show ?thesis using lt by (simp add: run_prio_def task_is_idle_def prio_defs)
  qed
qed

lemma cur_ok_switch:
  assumes inv: "sched_inv k" and c: "c < NR_CPUS k"
  shows "cur_ok ((os_prio_cur k)[c := os_highest_rdy (sched_new_k k) ! c])"
proof -
  let ?hi = "os_highest_rdy (sched_new_k k)" and ?cur = "os_prio_cur k"
  have len: "length ?cur = NR_CPUS k" and cur: "cur_ok ?cur"
    using inv by (simp_all add: sched_inv_def kernel_ok_def)
  have hi: "?hi = sched_new (pcpu_sched_class k) (os_rdy k) ?cur" by (simp add: sched_new_k_def)
  have ok: "ptbl_ok (os_rdy k)" using inv by (simp add: sched_inv_def kernel_ok_def)
  have tops: "p < 64" if "p \<in> set (top_prios (NR_CPUS k) (os_rdy k))" for p
    using that set_top_prios [OF ok] pt.prios_bound [OF ok] by blast
  have fresh: "?cur ! d \<noteq> ?hi ! c" if d: "d < NR_CPUS k" "d \<noteq> c" and rt: "?hi ! c \<le> OS_LOWEST_PRIO" for d
  proof
    assume eq: "?cur ! d = ?hi ! c"
    have "?hi ! c \<in> set (top_prios (NR_CPUS k) (os_rdy k))"
      using highest_cases(1) [OF inv c] rt by (auto simp: hi prio_defs)
    with eq have "?hi ! d = ?cur ! d" using highest_cases(3) [OF inv c d(1)] by (simp add: hi)
    with eq highest_cases(2) [OF inv c d] rt show False by (simp add: hi)
  qed
  have "?hi ! c \<le> OS_PRIO_PCPU"
    using highest_cases(1) [OF inv c] tops by (force simp: hi prio_defs)
  then have "\<forall>p\<in>set (?cur[c := ?hi ! c]). p \<le> OS_PRIO_PCPU"
    using cur set_update_subset_insert [of ?cur c "?hi ! c"] by (auto simp: cur_ok_def)
  moreover have "i = j"
    if "i < NR_CPUS k" "j < NR_CPUS k" "?cur[c := ?hi ! c] ! i = ?cur[c := ?hi ! c] ! j"
      "?cur[c := ?hi ! c] ! i \<le> OS_LOWEST_PRIO" for i j
    using that fresh [of i] fresh [of j] cur len c
    by (auto simp: nth_list_update cur_ok_def split: if_splits)
  ultimately show ?thesis using len by (simp add: cur_ok_def)
qed

text \<open>The invariant survives the scheduler on any CPU.\<close>

lemma sched_inv_switch:
  fixes fg :: "nat \<Rightarrow> bool" and now1 now2 now3 :: u64
  assumes inv: "sched_inv k" and c: "c < NR_CPUS k"
    and hi: "os_highest_rdy k = os_highest_rdy (sched_new_k k)"
    and nt: "run_prio (tasks k nt) = os_highest_rdy k ! c"
    and cur: "cur = current_tasks k ! c"
    and k': "k' = (switch_to_task fg now1 now2 now3 c cur nt k)\<lparr>current_tasks := (current_tasks k)[c := nt]\<rparr>"
  shows "sched_inv k'"
proof -
  let ?k1 = "switch_to_task fg now1 now2 now3 c cur nt k"
  have ok: "kernel_ok k" "pcpu_sched_class k ! c = SCHED_CLASS_GLOBAL"
    using inv c by (simp_all add: sched_inv_def)
  note eff = switch_to_task_effect [OF ok(1) c ok(2), where cur = cur and fg = fg and ?now1.0 = now1 and ?now2.0 = now2 and ?now3.0 = now3
      and nt = nt]
  have len: "length (os_prio_cur k) = NR_CPUS k" "length (current_tasks k) = NR_CPUS k"
    using ok by (simp_all add: kernel_ok_def)
  have "keeps cur ?k1 k'" unfolding k' by (simp add: keeps_def lists_step_same)
  then have keep: "keeps cur k k'" using eff(1) keeps_trans by blast
  show ?thesis
  proof (rule sched_inv_keeps [OF inv keep])
    show "t_prio (tasks k cur) = OS_PRIO_PCPU \<or>
      set (all_stat k') \<subseteq> set (all_stat k)"
      using eff(6) by (auto simp: task_is_percpu_def k' all_stat_def)
    show "cur_ok (os_prio_cur k')" using eff(2) cur_ok_switch [OF inv c] nt hi by (simp add: k')
    show "\<forall>d<NR_CPUS k. os_prio_cur k' ! d = run_prio (tasks k (current_tasks k' ! d))"
      using eff(2) inv len c by (auto simp: k' nth_list_update sched_inv_def)
  qed (use eff inv len in \<open>auto simp: k' sched_inv_def kernel_ok_def\<close>)
qed

lemma sched_new_again: "os_highest_rdy (sched_new_k k') = os_highest_rdy (sched_new_k k)"
  if "pcpu_sched_class k' = pcpu_sched_class k" "os_rdy k' = os_rdy k" "os_prio_cur k' = os_prio_cur k"
  using that by (simp add: sched_new_k_def)

text \<open>The state in which \<^verbatim>\<open>global_sched\<close> and \<^verbatim>\<open>global_irq_handler\<close> decide.\<close>

lemma sched_decide:
  assumes inv: "sched_inv k" and c: "c < NR_CPUS k"
  defines "k1 \<equiv> resched_others c (sched_new_k k)"
  shows "sched_inv k1" "NR_CPUS k1 = NR_CPUS k" "current_tasks k1 = current_tasks k"
    "pcpu_id (pcpus k1 ! c) = c" "os_highest_rdy k1 = os_highest_rdy (sched_new_k k1)"
    "run_prio (tasks k1 (get_next_global_run_task c k1)) = os_highest_rdy k1 ! c"
proof -
  let ?k0 = "sched_new_k k"
  have k0: "keeps_run 0 k ?k0"
    using inv sched_inv_sched_new(2) [OF inv]
    by (simp add: sched_new_k_def sched_inv_def kernel_ok_def)
  note r = resched_others_keeps(1) [of 0 ?k0 c, folded k1_def]
    resched_others_keeps(2,3) [of c ?k0, folded k1_def]
  have k1: "keeps_run 0 k k1" using keeps_run_trans [OF k0 r(1)] .
  show inv1: "sched_inv k1"
    by (rule sched_inv_keeps_run [OF inv k1]) (use r in \<open>simp add: sched_new_k_def all_stat_def\<close>)
  show n: "NR_CPUS k1 = NR_CPUS k" using k1 by (rule keeps_NR_CPUS)
  show "current_tasks k1 = current_tasks k" using k1 by (simp add: keeps_run_def)
  show "pcpu_id (pcpus k1 ! c) = c" using inv1 c n by (simp add: sched_inv_def kernel_ok_def)
  have hi: "os_highest_rdy (sched_new_k k1) = os_highest_rdy ?k0"
    by (rule sched_new_again) (use k1 in \<open>simp_all add: keeps_run_def keeps_def\<close>)
  with r(2) show hi1: "os_highest_rdy k1 = os_highest_rdy (sched_new_k k1)" by simp
  then have "sched_new_k k1 = k1" by (simp add: sched_new_k_def)
  then show "run_prio (tasks k1 (get_next_global_run_task c k1)) = os_highest_rdy k1 ! c"
    using next_run_prio [OF inv1, of c] c n by simp
qed

lemma sched_inv_set_next: "sched_inv k \<Longrightarrow> sched_inv (set_next_task t c k)"
  by (simp add: sched_inv_def kernel_ok_def all_stat_def set_next_task_def NR_CPUS_def)

lemma global_sched_inv:
  assumes inv: "sched_inv k" and c: "c < NR_CPUS k" and cur: "cur = get_current_task c k"
  shows "sched_inv (global_sched fg now1 now2 now3 c cur k)"
proof -
  have id: "pcpu_id (pcpus (sched_new_k k) ! c) = c"
    using inv c by (simp add: sched_new_k_def sched_inv_def kernel_ok_def)
  let ?k1 = "resched_others c (sched_new_k k)"
  let ?nt = "get_next_global_run_task c ?k1"
  let ?k2 = "set_next_task ?nt c ?k1"
  note d = sched_decide [OF inv c]
  have "length (next_tasks ?k1) = NR_CPUS k" using d by (simp add: sched_inv_def kernel_ok_def)
  then have "arch_switch_task_sw fg now1 now2 now3 c ?k2 =
      (switch_to_task fg now1 now2 now3 c cur ?nt ?k2)\<lparr>current_tasks := (current_tasks ?k2)[c := ?nt]\<rparr>"
    using d(3) cur c switch_to_task_effect(3) [of ?k2 c] sched_inv_set_next [OF d(1)] d(2)
    by (simp add: arch_switch_task_sw_def Let_def set_next_task_def get_current_task_def
        sched_inv_def NR_CPUS_def)
  moreover have "sched_inv \<dots>"
  proof (rule sched_inv_switch [where k = ?k2 and c = c])
    show "os_highest_rdy ?k2 = os_highest_rdy (sched_new_k ?k2)"
      using d(5) sched_new_again [of ?k2 ?k1] by simp
  qed (use d c cur in \<open>simp_all add: sched_inv_set_next get_current_task_def\<close>)
  ultimately show ?thesis
    using id d(1,4) by (simp add: global_sched_def Let_def)
qed

section \<open>Properties\<close>

text \<open>
  The time slice \<^verbatim>\<open>recal_task_run_time\<close> gives to a per-CPU task that is switched out
  lies between 15 and 114 milliseconds, whatever the clock and the start time are, although
  the difference of the two wraps around: a task is never left without time, and never gets
  more than the full slice and the small remainder.
\<close>

theorem run_time_left_bounds:
  "15 \<le> run_time_left now start \<and> run_time_left now start \<le> 114"
proof -
  define n where "n = (now - start) div 1000000"
  show ?thesis
    unfolding run_time_left_def Let_def CONFIG_TASK_RUN_TIME_def n_def [symmetric]
    by (auto simp: word_le_nat_alt word_less_nat_alt unat_sub not_less unat_word_ariths)
qed

end
