(* ===== verification/Sched_Steps.thy ===== *)
theory Sched_Steps
  imports Sched
begin

text \<open>
  The scheduler as a state machine: any CPU may make a task ready or let it sleep, run the
  scheduler, take a timer tick, a cross-CPU call or a reschedule interrupt, in any order. The
  invariant of the theory Sched holds in every state reached from a state that satisfies it;
  in particular two CPUs never run the same real-time task.
\<close>

section \<open>Pending cross-CPU calls\<close>

definition calls_ok :: "kernel \<Rightarrow> bool" where
  "calls_ok k \<longleftrightarrow> (\<forall>cs\<in>set (smp_calls k). length cs = NR_CPUS k) \<and>
     (\<forall>cs\<in>set (smp_calls k). \<forall>fn. Some fn \<in> set cs \<longrightarrow>
     t_prio (tasks k (smp_fn_task fn)) = OS_PRIO_PCPU)"

text \<open>Outside the scheduler, every path leaves the next task equal to the current one.\<close>

definition sys_inv :: "kernel \<Rightarrow> bool" where
  "sys_inv k \<longleftrightarrow> sched_inv k \<and> calls_ok k \<and> next_tasks k = current_tasks k"

lemma sys_inv_keeps_run:
  assumes "sys_inv k" "keeps_run t k k'"
    "t_prio (tasks k t) = OS_PRIO_PCPU \<or> set (all_stat k') \<subseteq> set (all_stat k)"
  shows "sys_inv k'"
  using assms sched_inv_keeps_run [of k t k'] keeps_NR_CPUS [of t k k']
  by (auto simp: sys_inv_def calls_ok_def keeps_run_def keeps_def)

lemma sys_inv_slot:
  assumes inv: "sys_inv k" and v: "\<forall>fn. v = Some fn \<longrightarrow> t_prio (tasks k (smp_fn_task fn)) = OS_PRIO_PCPU"
  shows "sys_inv (k\<lparr>smp_calls := (smp_calls k)[c := (smp_calls k ! c)[i := v]]\<rparr>)"
proof -
  let ?k = "k\<lparr>smp_calls := (smp_calls k)[c := (smp_calls k ! c)[i := v]]\<rparr>"
  have "sched_inv ?k"
    using inv by (auto simp: sys_inv_def sched_inv_def kernel_ok_def NR_CPUS_def all_stat_def)
  moreover have "calls_ok ?k"
  proof (cases "c < length (smp_calls k)")
    case True
    have "set ((smp_calls k)[c := (smp_calls k ! c)[i := v]]) \<subseteq>
        insert ((smp_calls k ! c)[i := v]) (set (smp_calls k))" by (rule set_update_subset_insert)
    moreover have "set ((smp_calls k ! c)[i := v]) \<subseteq> insert v (set (smp_calls k ! c))"
      by (rule set_update_subset_insert)
    moreover have "smp_calls k ! c \<in> set (smp_calls k)" using True by simp
    moreover have "NR_CPUS ?k = NR_CPUS k" by (simp add: NR_CPUS_def)
    ultimately show ?thesis
      using inv v unfolding sys_inv_def calls_ok_def
      by simp (metis (no_types, lifting) insert_iff subsetD length_list_update)
  qed (use inv in \<open>simp add: sys_inv_def calls_ok_def list_update_beyond NR_CPUS_def\<close>)
  ultimately show ?thesis using inv by (simp add: sys_inv_def)
qed

lemma smp_function_call_inv:
  assumes inv: "sys_inv k" and c: "cpuid < NR_CPUS k"
    and fn: "t_prio (tasks k (smp_fn_task fn)) = OS_PRIO_PCPU"
    and call: "smp_function_call cpuid cpu fn k = Some (r, k')"
  shows "sys_inv k' \<and> os_rdy k' = os_rdy k"
proof -
  let ?t = "smp_fn_task fn"
  let ?k1 = "preempt_disable cpuid k"
  let ?k2 = "?k1\<lparr>smp_calls := (smp_calls ?k1)[cpu := (smp_calls ?k1 ! cpu)[cpuid := Some fn]]\<rparr>"
  have k1: "keeps_run ?t k ?k1" by (intro keep_intros) simp
  then have inv1: "sys_inv ?k1" "t_prio (tasks ?k1 ?t) = OS_PRIO_PCPU" "NR_CPUS ?k1 = NR_CPUS k"
    using sys_inv_keeps_run [OF inv k1] fn by (auto simp: keeps_run_def keeps_def lists_step_def)
  have "keeps_run ?t k (preempt_enable cpuid (smp_run cpuid fn ?k1))"
    using c by (intro keep_intros) simp_all
  then have own: "sys_inv (preempt_enable cpuid (smp_run cpuid fn ?k1))"
    "os_rdy (preempt_enable cpuid (smp_run cpuid fn ?k1)) = os_rdy k"
    using sys_inv_keeps_run [OF inv] fn by (auto simp: keeps_run_def)
  have inv2: "sys_inv ?k2" by (rule sys_inv_slot [OF inv1(1)]) (use inv1 in simp)
  have k3: "keeps_run ?t ?k2 (preempt_enable cpuid (emit x ?k2))" for x by (intro keep_intros) simp
  have other: "sys_inv (preempt_enable cpuid (emit x ?k2))"
    "os_rdy (preempt_enable cpuid (emit x ?k2)) = os_rdy k" for x
    using sys_inv_keeps_run [OF inv2 k3] inv1 k1 k3 [of x] by (auto simp: keeps_run_def)
  have "os_rdy ?k1 = os_rdy k" using k1 by (simp add: keeps_run_def)
  with call inv1 own other show ?thesis
    by (auto simp: smp_function_call_def Let_def split: if_splits)
qed

lemma calls_shape:
  "sys_inv k \<Longrightarrow> c < NR_CPUS k \<Longrightarrow> c < length (smp_calls k) \<and> length (smp_calls k ! c) = NR_CPUS k"
  by (auto simp: sys_inv_def sched_inv_def kernel_ok_def calls_ok_def)

lemma smp_call_slot_inv:
  assumes inv: "sys_inv k" and c: "c < NR_CPUS k" "i < NR_CPUS k"
  shows "sys_inv (smp_call_slot c i k) \<and> NR_CPUS (smp_call_slot c i k) = NR_CPUS k"
proof (cases "smp_calls k ! c ! i")
  case (Some fn)
  then have prio: "t_prio (tasks k (smp_fn_task fn)) = OS_PRIO_PCPU"
    using inv calls_shape [OF inv c(1)] c(2) unfolding sys_inv_def calls_ok_def by (metis nth_mem)
  let ?k1 = "smp_run c fn k"
  have k1: "keeps_run (smp_fn_task fn) k ?k1" using c by (intro keep_intros) simp_all
  then have inv1: "sys_inv ?k1" using sys_inv_keeps_run [OF inv] prio by blast
  then show ?thesis
    using Some sys_inv_slot [OF inv1, of None c i] keeps_NR_CPUS [OF k1]
    by (simp add: smp_call_slot_def Let_def NR_CPUS_def)
qed (use inv in \<open>simp add: smp_call_slot_def\<close>)

lemma smp_handler_inv:
  assumes "sys_inv k" "c < NR_CPUS k" shows "sys_inv (smp_function_call_handler c k)"
proof -
  have "sys_inv (fold (smp_call_slot c) xs k) \<and> NR_CPUS (fold (smp_call_slot c) xs k) = NR_CPUS k"
    if "set xs \<subseteq> {..<NR_CPUS k}" for xs
    using assms that
  proof (induction xs arbitrary: k)
    case (Cons x xs)
    then show ?case using smp_call_slot_inv [of k c x] Cons.IH [of "smp_call_slot c x k"] by auto
  qed simp
  from this [of "[0..<NR_CPUS k]"] show ?thesis
    by (simp add: smp_function_call_handler_def lessThan_atLeast0)
qed

section \<open>Ready and sleep\<close>

text \<open>
  What the code assumes of a task: its positions in the ready table are those of its
  priority, and a real-time task is in the task table at its priority.
\<close>

definition task_ok :: "kernel \<Rightarrow> nat \<Rightarrow> bool" where
  "task_ok k t \<longleftrightarrow> (let x = tasks k t in t_prio x \<le> OS_PRIO_IDLE \<and>
     (task_is_realtime x \<longrightarrow> t_by x = prio_by (t_prio x) \<and> t_bitx x = prio_bitx (t_prio x) \<and>
        t_bity x = prio_bity (t_prio x) \<and> os_task_table k ! t_prio x = t))"

lemma realtime_less: "task_is_realtime x \<Longrightarrow> t_prio x < 64"
  by (simp add: task_is_realtime_def prio_defs)

lemma task_ok_set:
  assumes "task_ok k t" "task_is_realtime (tasks k t)"
  shows "ptbl_set (t_by (tasks k t)) (t_bitx (tasks k t)) (t_bity (tasks k t)) = ptbl_add (t_prio (tasks k t))"
    "ptbl_clear (t_by (tasks k t)) (t_bitx (tasks k t)) (t_bity (tasks k t)) = ptbl_del (t_prio (tasks k t))"
  using assms by (simp_all add: task_ok_def Let_def ptbl_add_def ptbl_del_def fun_eq_iff)

text \<open>A change of the ready table that only adds priorities of tasks in the task table.\<close>

lemma sys_inv_os_rdy:
  assumes inv: "sys_inv k" and t: "ptbl_ok r" "\<forall>p\<in>ptbl_prios r. t_prio (tasks k (os_task_table k ! p)) = p"
  shows "sys_inv (k\<lparr>os_rdy := r\<rparr>)"
  using assms by (auto simp: sys_inv_def sched_inv_def calls_ok_def kernel_ok_def NR_CPUS_def all_stat_def)

lemma percpu_prio:
  "task_ok k t \<Longrightarrow> \<not> task_is_idle (tasks k t) \<Longrightarrow> \<not> task_is_realtime (tasks k t) \<Longrightarrow>
    t_prio (tasks k t) = OS_PRIO_PCPU"
  by (auto simp: task_ok_def Let_def task_is_idle_def task_is_realtime_def prio_defs)

lemma set_task_ready_inv:
  assumes inv: "sys_inv k" and c: "c < NR_CPUS k" and t: "task_ok k t"
    and run: "set_task_ready c t k = Some k'"
  shows "sys_inv k' \<and> ptbl_prios (os_rdy k') =
    (if task_is_realtime (tasks k t) then insert (t_prio (tasks k t)) (ptbl_prios (os_rdy k))
     else ptbl_prios (os_rdy k))"
proof -
  let ?x = "tasks k t"
  have ok: "ptbl_ok (os_rdy k)" using inv by (simp add: sys_inv_def sched_inv_def kernel_ok_def)
  consider "task_is_idle ?x" | "task_is_realtime ?x" "\<not> task_is_idle ?x"
    | (percpu) "\<not> task_is_idle ?x" "\<not> task_is_realtime ?x" by blast
  then show ?thesis
  proof cases
    case 1
    then have "\<not> task_is_realtime ?x" by (simp add: task_is_idle_def task_is_realtime_def prio_defs)
    with 1 run inv show ?thesis by (simp add: set_task_ready_def)
  next
    case 2
    let ?k1 = "k\<lparr>os_rdy := ptbl_add (t_prio ?x) (os_rdy k)\<rparr>"
    note add = ptbl_add_law [OF ok realtime_less [OF 2(1)]]
    have "t_prio (tasks k (os_task_table k ! t_prio ?x)) = t_prio ?x"
      using t 2 by (simp add: task_ok_def Let_def)
    then have "sys_inv ?k1"
      using add inv by (intro sys_inv_os_rdy) (auto simp: sys_inv_def sched_inv_def)
    moreover have k': "k' = set_need_resched c (cancel_delay t ?k1)"
      using run 2 task_ok_set [OF t 2(1)] by (simp add: set_task_ready_def Let_def)
    moreover have "keeps_run t ?k1 (set_need_resched c (cancel_delay t ?k1))" by (intro keep_intros) simp
    moreover have "all_stat k' = all_stat k"
      by (simp add: k' set_need_resched_def cancel_delay_def all_stat_def)
    ultimately show ?thesis
      using sys_inv_keeps_run [of ?k1 t k'] add 2 by (auto simp: keeps_run_def all_stat_def)
  next
    case percpu
    note prio = percpu_prio [OF t percpu]
    show ?thesis
    proof (cases "pcpu_id (pcpus k ! c) = t_affinity ?x")
      case True
      let ?k1 = "set_need_resched c (cancel_delay t
        (upd_pcpu c (rdy_tasks_add 1) (upd_pcpu c (ready_add t) (stat_list_del t k))))"
      have "keeps_run t k ?k1" using c by (intro keep_intros) simp_all
      moreover have "k' = ?k1" using run True percpu by (simp add: set_task_ready_def Let_def)
      ultimately show ?thesis
        using sys_inv_keeps_run [OF inv, of t k'] prio percpu by (simp add: keeps_run_def)
    next
      case False
      then obtain r where "smp_function_call c (t_affinity ?x) (Smp_set_task_ready t) k = Some (r, k')"
        using run percpu by (auto simp: set_task_ready_def Let_def)
      from smp_function_call_inv [OF inv c _ this] prio percpu show ?thesis by simp
    qed
  qed
qed

lemma set_task_sleep_cpus: "set_task_sleep c t k = Some k' \<Longrightarrow> NR_CPUS k' = NR_CPUS k"
  by (auto simp: set_task_sleep_def smp_function_call_def Let_def NR_CPUS_def preempt_disable_def
      preempt_enable_def smp_set_task_suspend_def split: if_splits)

lemma set_task_sleep_inv:
  assumes inv: "sys_inv k" and c: "c < NR_CPUS k" and t: "task_ok k t"
    and run: "set_task_sleep c t k = Some k'"
  shows "sys_inv k' \<and> ptbl_prios (os_rdy k') =
    (if task_is_realtime (tasks k t) then ptbl_prios (os_rdy k) - {t_prio (tasks k t)}
     else ptbl_prios (os_rdy k))"
proof -
  let ?x = "tasks k t"
  have ok: "ptbl_ok (os_rdy k)" using inv by (simp add: sys_inv_def sched_inv_def kernel_ok_def)
  consider "task_is_idle ?x" | "task_is_realtime ?x" "\<not> task_is_idle ?x"
    | (percpu) "\<not> task_is_idle ?x" "\<not> task_is_realtime ?x" by blast
  then show ?thesis
  proof cases
    case 1
    then have "\<not> task_is_realtime ?x" by (simp add: task_is_idle_def task_is_realtime_def prio_defs)
    with 1 run inv show ?thesis by (simp add: set_task_sleep_def)
  next
    case 2
    note del = ptbl_del_law [OF ok realtime_less [OF 2(1)]]
    moreover have "k' = k\<lparr>os_rdy := ptbl_del (t_prio ?x) (os_rdy k)\<rparr>"
      using run 2 task_ok_set [OF t 2(1)] by (simp add: set_task_sleep_def Let_def)
    moreover have "sys_inv (k\<lparr>os_rdy := ptbl_del (t_prio ?x) (os_rdy k)\<rparr>)"
      using del inv by (intro sys_inv_os_rdy) (auto simp: sys_inv_def sched_inv_def)
    ultimately show ?thesis using 2 by simp
  next
    case percpu
    note prio = percpu_prio [OF t percpu]
    show ?thesis
    proof (cases "pcpu_id (pcpus k ! c) = t_affinity ?x")
      case True
      let ?k1 = "upd_pcpu c (rdy_tasks_add (- 1)) (upd_pcpu c (sleep_add t) (stat_list_del t k))"
      have "keeps_run t k ?k1" using c by (intro keep_intros) simp_all
      moreover have "k' = ?k1" using run True percpu by (simp add: set_task_sleep_def Let_def)
      ultimately show ?thesis
        using sys_inv_keeps_run [OF inv, of t k'] prio percpu by (simp add: keeps_run_def)
    next
      case False
      then obtain r where "smp_function_call c (t_affinity ?x) (Smp_set_task_suspend t) k = Some (r, k')"
        using run percpu by (auto simp: set_task_sleep_def Let_def)
      from smp_function_call_inv [OF inv c _ this] prio percpu show ?thesis by simp
    qed
  qed
qed

section \<open>The scheduler entry points\<close>

lemma calls_ok_keeps: "calls_ok k \<Longrightarrow> keeps t k k' \<Longrightarrow> calls_ok k'"
  by (auto simp: calls_ok_def keeps_def lists_step_def)

lemma keeps_upd_current: "keeps t k k' \<Longrightarrow> keeps t k (k'\<lparr>current_tasks := xs\<rparr>)"
  by (rule keeps_trans [of t k k']) (simp_all add: keeps_def lists_step_same)

lemma sched_decide_keeps:
  assumes "sched_inv k" "c < NR_CPUS k"
  shows "keeps t k (set_next_task x c (resched_others c (sched_new_k k)))"
    "keeps_run t k (resched_others c (sched_new_k k))"
proof -
  have "keeps_run t k (sched_new_k k)"
    using assms sched_inv_sched_new(2) [OF assms(1)]
    by (simp add: sched_new_k_def sched_inv_def kernel_ok_def)
  then show k1: "keeps_run t k (resched_others c (sched_new_k k))"
    using resched_others_keeps(1) keeps_run_trans by blast
  then have "keeps t k (resched_others c (sched_new_k k))" by (simp add: keeps_run_def)
  then show "keeps t k (set_next_task x c (resched_others c (sched_new_k k)))"
    by (rule keeps_trans) (simp add: keeps_def lists_step_same set_next_task_def)
qed

lemma global_sched_sys_inv:
  assumes inv: "sys_inv k" and c: "c < NR_CPUS k" and cur: "cur = get_current_task c k"
  shows "sys_inv (global_sched fg now1 now2 now3 c cur k)"
    "keeps cur k (global_sched fg now1 now2 now3 c cur k)"
    "os_rdy (global_sched fg now1 now2 now3 c cur k) = os_rdy k"
proof -
  let ?k1 = "resched_others c (sched_new_k k)"
  let ?nt = "get_next_global_run_task c ?k1"
  let ?k2 = "set_next_task ?nt c ?k1"
  have si: "sched_inv k" using inv by (simp add: sys_inv_def)
  note k2 = sched_decide_keeps [OF si c, of cur]
  have "sched_inv ?k2" using sched_decide(1) [OF si c] by (rule sched_inv_set_next)
  then have ok2: "kernel_ok ?k2" "pcpu_sched_class ?k2 ! c = SCHED_CLASS_GLOBAL" "c < NR_CPUS ?k2"
    using c sched_decide(2) [OF si c] by (simp_all add: sched_inv_def)
  have "keeps cur k (arch_switch_task_sw fg now1 now2 now3 c ?k2)"
    if "current_tasks ?k2 ! c = cur"
    unfolding arch_switch_task_sw_def Let_def that
    by (intro keeps_upd_current keeps_trans [OF _ switch_to_task_effect(1) [OF ok2(1,3,2)]])
      (rule k2(1))
  moreover have "current_tasks ?k2 ! c = cur"
    using cur sched_decide(3) [OF si c] by (simp add: get_current_task_def)
  moreover have id: "pcpu_id (pcpus (sched_new_k k) ! c) = c" "pcpu_id (pcpus ?k1 ! c) = c"
    using si c sched_decide(4) [OF si c] by (simp_all add: sched_new_k_def sched_inv_def kernel_ok_def)
  ultimately show keep: "keeps cur k (global_sched fg now1 now2 now3 c cur k)"
    using k2(2) by (auto simp: global_sched_def Let_def keeps_run_def)
  have "os_rdy ?k1 = os_rdy k" using k2(2) by (simp add: keeps_run_def)
  then show "os_rdy (global_sched fg now1 now2 now3 c cur k) = os_rdy k"
    using id switch_to_task_effect(4) [OF ok2(1,3,2)]
    by (simp add: global_sched_def arch_switch_task_sw_def Let_def)
  have "next_tasks (global_sched fg now1 now2 now3 c cur k) =
      current_tasks (global_sched fg now1 now2 now3 c cur k)"
  proof -
    have eq: "next_tasks ?k1 = current_tasks ?k1" "length (next_tasks ?k1) = NR_CPUS k"
      using inv k2(2) si by (simp_all add: sys_inv_def keeps_run_def sched_inv_def kernel_ok_def)
    have nx: "next_tasks ?k2 = (next_tasks ?k1)[c := ?nt]" by (simp add: set_next_task_def)
    have "next_tasks (arch_switch_task_sw fg now1 now2 now3 c ?k2) =
        current_tasks (arch_switch_task_sw fg now1 now2 now3 c ?k2)"
      using switch_to_task_effect(3,5) [OF ok2(1,3,2)] eq c
      by (simp add: arch_switch_task_sw_def Let_def nx)
    then show ?thesis using id eq by (simp add: global_sched_def Let_def)
  qed
  then show "sys_inv (global_sched fg now1 now2 now3 c cur k)"
    using calls_ok_keeps keep inv global_sched_inv [OF si c cur] by (auto simp: sys_inv_def)
qed

lemma sched_sys_inv:
  assumes inv: "sys_inv k" and c: "c < NR_CPUS k" and run: "sched fg now1 now2 now3 c k = Some k'"
  shows "sys_inv k' \<and> os_rdy k' = os_rdy k \<and> pid_map k' = pid_map k \<and> os_task_table k' = os_task_table k \<and>
    events k' = events k \<and> NR_CPUS k' = NR_CPUS k"
proof -
  let ?k1 = "clear_need_resched c k"
  have k1: "keeps_run 0 k ?k1" by (intro keep_intros) simp
  have "all_stat ?k1 = all_stat k" by (simp add: clear_need_resched_def)
  then have inv1: "sys_inv ?k1" using sys_inv_keeps_run [OF inv k1] by simp
  have "pcpu_sched_class ?k1 ! c = SCHED_CLASS_GLOBAL"
    using inv c by (simp add: clear_need_resched_def sys_inv_def sched_inv_def)
  moreover have "get_current_task c ?k1 = get_current_task c k" by (simp add: clear_need_resched_def)
  ultimately have "k' = global_sched fg now1 now2 now3 c (get_current_task c ?k1) ?k1"
    using run by (simp add: sched_def Let_def split: if_splits)
  moreover have "c < NR_CPUS ?k1" using c keeps_NR_CPUS [OF k1] by simp
  moreover have "os_rdy ?k1 = os_rdy k" "pid_map ?k1 = pid_map k" "os_task_table ?k1 = os_task_table k"
    "events ?k1 = events k" "NR_CPUS ?k1 = NR_CPUS k"
    using k1 by (simp_all add: keeps_run_def keeps_def lists_step_def)
  ultimately show ?thesis
    using global_sched_sys_inv [OF inv1, of c "get_current_task c ?k1" fg now1 now2 now3]
    by (auto simp: keeps_def lists_step_def)
qed

lemma sys_inv_upd_task:
  assumes "sys_inv k" "\<And>y. t_prio (f y) = t_prio y" shows "sys_inv (upd_task t f k)"
  by (rule sys_inv_keeps_run [OF assms(1), of 0]) (simp_all add: assms(2))



lemma irq_keeps_current:
  assumes "sys_inv k" "c < NR_CPUS k" "keeps_run t k k'" "all_stat k' = all_stat k"
  shows "sys_inv (k'\<lparr>current_tasks := (current_tasks k')[c := next_tasks k' ! c]\<rparr>)"
proof -
  have "sys_inv k'" using sys_inv_keeps_run [OF assms(1,3)] assms(4) by simp
  moreover have eq: "next_tasks k' = current_tasks k'" using assms by (simp add: sys_inv_def keeps_run_def)
  moreover have "(current_tasks k')[c := next_tasks k' ! c] = current_tasks k'" by (simp add: eq)
  moreover have "k'\<lparr>current_tasks := current_tasks k'\<rparr> = k'" by simp
  ultimately show ?thesis by metis
qed

lemma no_return_all_stat: "all_stat (no_task_sched_return fg t now k) = all_stat k"
  by (simp add: no_task_sched_return_def task_sched_return_def Let_def)

lemma irq_return_sys_inv:
  assumes inv: "sys_inv k" and c: "c < NR_CPUS k"
  shows "sys_inv (irq_return fg now1 now2 now3 c k)"
proof -
  let ?t = "current_tasks k ! c"
  have si: "sched_inv k" using inv by (simp add: sys_inv_def)
  let ?k1 = "resched_others c (sched_new_k k)"
  let ?nt = "get_next_global_run_task c ?k1"
  let ?k2 = "set_next_task ?nt c ?k1"
  let ?f = "\<lambda>x::task. x\<lparr>ti_need_resched := False\<rparr>"
  note d = sched_decide [OF si c]
  note k1 = sched_decide_keeps [OF si c, of ?t]
  have id: "pcpu_id (pcpus k ! c) = c" and cls: "pcpu_sched_class k ! c = SCHED_CLASS_GLOBAL"
    using si c by (simp_all add: sched_inv_def kernel_ok_def)
  consider (stay) "ti_preempt_count (tasks k ?t) \<noteq> 0 \<or> \<not> ti_need_resched (tasks k ?t)"
    | (same) "\<not> (ti_preempt_count (tasks k ?t) \<noteq> 0 \<or> \<not> ti_need_resched (tasks k ?t))" "?nt = ?t"
    | (switch) "\<not> (ti_preempt_count (tasks k ?t) \<noteq> 0 \<or> \<not> ti_need_resched (tasks k ?t))" "?nt \<noteq> ?t"
    by blast
  then show ?thesis
  proof cases
    case stay
    have "keeps_run ?t k (no_task_sched_return fg ?t now1 k)" by (intro keep_intros) simp
    from irq_keeps_current [OF inv c this no_return_all_stat] stay show ?thesis
      by (simp add: irq_return_def irq_return_handler_def Let_def)
  next
    case same
    let ?k3 = "upd_task ?t ?f (no_task_sched_return fg ?t now1 ?k1)"
    have "keeps_run ?t k ?k3" using k1(2) by (intro keep_intros) simp_all
    moreover have "all_stat ?k3 = all_stat k"
      using resched_others_keeps(3) [of c "sched_new_k k"]
      by (simp add: no_return_all_stat) (simp add: all_stat_def sched_new_k_def)
    ultimately show ?thesis
      using irq_keeps_current [OF inv c, of ?t ?k3] same id cls
      by (simp add: irq_return_def irq_return_handler_def global_irq_handler_def Let_def)
  next
    case switch
    let ?k3 = "switch_to_task fg now1 now2 now3 c ?t ?nt ?k2"
    have si2: "sched_inv ?k2" "c < NR_CPUS ?k2" using sched_inv_set_next [OF d(1)] d(2) c by simp_all
    then have ok2: "kernel_ok ?k2" "pcpu_sched_class ?k2 ! c = SCHED_CLASS_GLOBAL"
      by (simp_all add: sched_inv_def)
    note eff = switch_to_task_effect [OF ok2(1) si2(2) ok2(2), where cur = ?t and nt = ?nt
      and fg = fg and ?now1.0 = now1 and ?now2.0 = now2 and ?now3.0 = now3]
    let ?k4 = "?k3\<lparr>current_tasks := (current_tasks ?k2)[c := ?nt]\<rparr>"
    have "sched_inv ?k4"
    proof (rule sched_inv_switch [OF si2])
      show "os_highest_rdy ?k2 = os_highest_rdy (sched_new_k ?k2)"
        using d(5) sched_new_again [of ?k2 ?k1] by simp
    qed (use d c in simp_all)
    moreover have "keeps ?t k ?k4"
      by (intro keeps_upd_current keeps_trans [OF k1(1) eff(1)])
    moreover have nx: "next_tasks ?k3 = (next_tasks ?k1)[c := ?nt]"
      using eff(5) by (simp add: set_next_task_def)
    moreover have "next_tasks ?k1 = current_tasks ?k1" "length (next_tasks ?k1) = NR_CPUS k"
      using inv k1(2) si by (simp_all add: sys_inv_def keeps_run_def sched_inv_def kernel_ok_def)
    ultimately have "sys_inv (upd_task ?t ?f ?k4)"
      using inv calls_ok_keeps by (intro sys_inv_upd_task) (auto simp: sys_inv_def)
    moreover have "irq_return fg now1 now2 now3 c k = upd_task ?t ?f ?k4"
      using switch id cls eff(3) nx \<open>length (next_tasks ?k1) = NR_CPUS k\<close> c
      by (simp add: irq_return_def irq_return_handler_def global_irq_handler_def Let_def upd_task_def)
    ultimately show ?thesis by simp
  qed
qed


text \<open>The tick, the reschedule interrupt and \<^verbatim>\<open>set_task_suspend\<close>.\<close>

lemma tick_sys_inv:
  assumes inv: "sys_inv k" and c: "c < NR_CPUS k" shows "sys_inv (sched_tick_handler c k)"
proof (cases "t_prio (tasks k (get_current_task c k)) = OS_PRIO_PCPU")
  case True
  have "keeps_run (get_current_task c k) k (sched_tick_handler c k)"
    using c unfolding sched_tick_handler_def Let_def by (intro keep_intros) simp_all
  then show ?thesis using sys_inv_keeps_run [OF inv] True by blast
qed (use inv in \<open>simp add: sched_tick_handler_def Let_def\<close>)

lemma resched_one_inv:
  assumes "sys_inv k" "c < NR_CPUS k" "t_prio (tasks k t) = OS_PRIO_PCPU"
  shows "sys_inv (resched_one c t k) \<and> NR_CPUS (resched_one c t k) = NR_CPUS k \<and>
    (\<forall>x. t_prio (tasks (resched_one c t k) x) = t_prio (tasks k x))"
proof -
  have "keeps_run t k (resched_one c t k)"
    using assms(2) unfolding resched_one_def Let_def by (intro keep_intros) simp_all
  then show ?thesis
    using sys_inv_keeps_run [OF assms(1)] assms(3) by (auto simp: keeps_run_def keeps_def lists_step_def)
qed

lemma resched_handler_sys_inv:
  assumes inv: "sys_inv k" and c: "c < NR_CPUS k" shows "sys_inv (resched_handler c k)"
proof -
  have "sys_inv (fold (resched_one c) xs k)" if "\<forall>t\<in>set xs. t_prio (tasks k t) = OS_PRIO_PCPU" for xs
    using inv c that
  proof (induction xs arbitrary: k)
    case (Cons x xs)
    then show ?case using resched_one_inv [of k c x] Cons.IH [of "resched_one c x k"] by simp
  qed simp
  moreover have "t \<in> set (all_stat k)" if "t \<in> set (new_list (pcpus k ! c))" for t
    using c that by (auto simp: all_stat_def stat_lists_def NR_CPUS_def intro!: bexI [of _ "pcpus k ! c"])
  ultimately have "sys_inv (fold (resched_one c) (new_list (pcpus k ! c)) k)"
    using inv by (auto simp: sys_inv_def sched_inv_def)
  then show ?thesis unfolding resched_handler_def set_need_resched_def by (rule sys_inv_upd_task) simp
qed

lemma suspend_sys_inv:
  assumes inv: "sys_inv k" and c: "c < NR_CPUS k" and t: "task_ok k (get_current_task c k)"
    and run: "set_task_suspend fg now1 now2 now3 c delay k = Some k'"
  shows "sys_inv k'"
proof -
  let ?t = "get_current_task c k"
  let ?k1 = "upd_task ?t (\<lambda>x. x\<lparr>t_delay := delay, t_stat := t_stat x OR TASK_STAT_SUSPEND\<rparr>) k"
  have inv1: "sys_inv ?k1" by (rule sys_inv_upd_task [OF inv]) simp
  have t1: "task_ok ?k1 ?t" using t by (simp add: task_ok_def Let_def task_is_realtime_def)
  obtain k2 where k2: "set_task_sleep c ?t ?k1 = Some k2" "sched fg now1 now2 now3 c k2 = Some k'"
    using run by (auto simp: set_task_suspend_def Let_def split: option.splits)
  have "sys_inv k2" using set_task_sleep_inv [OF inv1 _ t1 k2(1)] c by simp
  moreover have "NR_CPUS k2 = NR_CPUS k"
    using set_task_sleep_cpus [OF k2(1)] by simp
  ultimately show ?thesis using sched_sys_inv [OF _ _ k2(2)] c by simp
qed

section \<open>The state machine\<close>

text \<open>One step of some CPU \<open>c\<close>.\<close>

inductive kstep :: "kernel \<Rightarrow> kernel \<Rightarrow> bool" where
  ready: "c < NR_CPUS k \<Longrightarrow> task_ok k t \<Longrightarrow> set_task_ready c t k = Some k' \<Longrightarrow> kstep k k'"
| sleep: "c < NR_CPUS k \<Longrightarrow> task_ok k t \<Longrightarrow> set_task_sleep c t k = Some k' \<Longrightarrow> kstep k k'"
| suspend: "c < NR_CPUS k \<Longrightarrow> task_ok k (get_current_task c k) \<Longrightarrow>
    set_task_suspend fg now1 now2 now3 c delay k = Some k' \<Longrightarrow> kstep k k'"
| sched: "c < NR_CPUS k \<Longrightarrow> sched fg now1 now2 now3 c k = Some k' \<Longrightarrow> kstep k k'"
| irq_return: "c < NR_CPUS k \<Longrightarrow> kstep k (irq_return fg now1 now2 now3 c k)"
| tick: "c < NR_CPUS k \<Longrightarrow> kstep k (sched_tick_handler c k)"
| resched: "c < NR_CPUS k \<Longrightarrow> kstep k (resched_handler c k)"
| smp_call: "c < NR_CPUS k \<Longrightarrow> kstep k (smp_function_call_handler c k)"

lemma kstep_sys_inv: "kstep k k' \<Longrightarrow> sys_inv k \<Longrightarrow> sys_inv k'"
proof (induction rule: kstep.induct)
  case (ready c k t k') then show ?case using set_task_ready_inv by blast
next
  case (sleep c k t k') then show ?case using set_task_sleep_inv by blast
next
  case (suspend c k) then show ?case using suspend_sys_inv by blast
next
  case (sched c k) then show ?case using sched_sys_inv by blast
next
  case (irq_return c k) then show ?case using irq_return_sys_inv by blast
next
  case (tick c k) then show ?case using tick_sys_inv by blast
next
  case (resched c k) then show ?case using resched_handler_sys_inv by blast
next
  case (smp_call c k) then show ?case using smp_handler_inv by blast
qed

lemma ksteps_sys_inv: "kstep\<^sup>*\<^sup>* k k' \<Longrightarrow> sys_inv k \<Longrightarrow> sys_inv k'"
  by (induction rule: rtranclp_induct) (auto intro: kstep_sys_inv)

lemma sys_inv_running_distinct:
  assumes inv: "sys_inv k" and cd: "c < NR_CPUS k" "d < NR_CPUS k"
    and same: "current_tasks k ! c = current_tasks k ! d"
    and rt: "task_is_realtime (tasks k (current_tasks k ! c))"
  shows "c = d"
proof -
  have "length (os_prio_cur k) = NR_CPUS k" "cur_ok (os_prio_cur k)"
    "os_prio_cur k ! c = run_prio (tasks k (current_tasks k ! c))"
    "os_prio_cur k ! d = run_prio (tasks k (current_tasks k ! d))"
    using inv cd by (simp_all add: sys_inv_def sched_inv_def kernel_ok_def)
  moreover have "run_prio (tasks k (current_tasks k ! c)) \<le> OS_LOWEST_PRIO"
    using rt by (simp add: run_prio_def task_is_realtime_def task_is_idle_def prio_defs)
  ultimately show ?thesis using cd same unfolding cur_ok_def by metis
qed

section \<open>What the scheduler leaves alone\<close>

text \<open>
  No step of the scheduler touches the events, the task table or the pid map; the facts are
  collected in \<open>sched_frame\<close>.
\<close>

named_theorems sched_frame \<open>the scheduler keeps events, task table and pid map\<close>

lemma frame_switch [sched_frame]:
  "events (switch_to_task fg now1 now2 now3 c cur nt k) = events k" "os_task_table (switch_to_task fg now1 now2 now3 c cur nt k) = os_task_table k"
  "pid_map (switch_to_task fg now1 now2 now3 c cur nt k) = pid_map k"
  "events (no_task_sched_return fg t now k) = events k" "os_task_table (no_task_sched_return fg t now k) = os_task_table k"
  "pid_map (no_task_sched_return fg t now k) = pid_map k"
  by (simp_all add: switch_to_task_def Let_def recal_task_run_time_def switch_out_def global_switch_out_def
      task_sched_return_def no_task_sched_return_def split: sched_class.splits)

lemma frame_resched_others [sched_frame]:
  "events (resched_others c k) = events k" "os_task_table (resched_others c k) = os_task_table k"
  "pid_map (resched_others c k) = pid_map k"
  using resched_others_keeps(1) [of 0 k c] by (auto simp: keeps_run_def keeps_def)

lemma frame_small [sched_frame]:
  "events (sched_new_k k) = events k" "os_task_table (sched_new_k k) = os_task_table k"
  "pid_map (sched_new_k k) = pid_map k"
  "events (clear_need_resched c k) = events k" "os_task_table (clear_need_resched c k) = os_task_table k"
  "pid_map (clear_need_resched c k) = pid_map k"
  "events (set_need_resched c k) = events k" "os_task_table (set_need_resched c k) = os_task_table k"
  "pid_map (set_need_resched c k) = pid_map k"
  "events (arch_switch_task_sw fg now1 now2 now3 c k) = events k" "os_task_table (arch_switch_task_sw fg now1 now2 now3 c k) = os_task_table k"
  "pid_map (arch_switch_task_sw fg now1 now2 now3 c k) = pid_map k"
  by (simp_all add: sched_new_k_def arch_switch_task_sw_def Let_def sched_frame clear_need_resched_def set_need_resched_def)

lemma frame_sched_classes [sched_frame]:
  "events (global_sched fg now1 now2 now3 c cur k) = events k" "os_task_table (global_sched fg now1 now2 now3 c cur k) = os_task_table k"
  "pid_map (global_sched fg now1 now2 now3 c cur k) = pid_map k"
  "events (local_sched fg now1 now2 now3 c cur k) = events k" "os_task_table (local_sched fg now1 now2 now3 c cur k) = os_task_table k"
  "pid_map (local_sched fg now1 now2 now3 c cur k) = pid_map k"
  by (simp_all add: global_sched_def local_sched_def Let_def sched_frame)

lemma sched_static:
  assumes "sched fg now1 now2 now3 cpu k = Some k'"
  shows "events k' = events k" "os_task_table k' = os_task_table k" "pid_map k' = pid_map k"
  using assms by (auto simp: sched_def Let_def sched_frame split: if_splits sched_class.splits)

lemma frame_irq [sched_frame]:
  "events (irq_return fg now1 now2 now3 c k) = events k" "os_task_table (irq_return fg now1 now2 now3 c k) = os_task_table k"
  "pid_map (irq_return fg now1 now2 now3 c k) = pid_map k"
  "events (sched_tick_handler c k) = events k" "os_task_table (sched_tick_handler c k) = os_task_table k"
  "pid_map (sched_tick_handler c k) = pid_map k"
  by (simp_all add: irq_return_def irq_return_handler_def global_irq_handler_def local_irq_handler_def
      sched_tick_handler_def Let_def sched_frame split: sched_class.splits)

lemma frame_smp_run [sched_frame]:
  "events (smp_run c fn k) = events k" "os_task_table (smp_run c fn k) = os_task_table k"
  "pid_map (smp_run c fn k) = pid_map k"
  by (cases fn; simp add: smp_set_task_ready_def smp_set_task_suspend_def cancel_delay_def Let_def sched_frame)+

lemma frame_fold:
  assumes "\<And>x k. f (g x k) = f k" shows "f (fold g xs k) = f k"
  by (induction xs arbitrary: k) (simp_all add: assms)

lemma frame_slots [sched_frame]:
  "events (smp_function_call_handler c k) = events k" "os_task_table (smp_function_call_handler c k) = os_task_table k"
  "pid_map (smp_function_call_handler c k) = pid_map k"
  "events (resched_handler c k) = events k" "os_task_table (resched_handler c k) = os_task_table k"
  "pid_map (resched_handler c k) = pid_map k"
  unfolding smp_function_call_handler_def resched_handler_def sched_frame
  by (rule frame_fold; simp add: smp_call_slot_def resched_one_def Let_def sched_frame split: option.splits)+

lemma set_task_sleep_static:
  assumes "set_task_sleep c t k = Some k'"
  shows "events k' = events k" "os_task_table k' = os_task_table k" "pid_map k' = pid_map k"
  using assms
  by (auto simp: set_task_sleep_def smp_function_call_def Let_def preempt_disable_def preempt_enable_def
      sched_frame simp del: smp_run.simps split: if_splits)

lemma set_task_ready_static:
  assumes "set_task_ready c t k = Some k'"
  shows "events k' = events k" "os_task_table k' = os_task_table k" "pid_map k' = pid_map k"
  using assms
  by (auto simp: set_task_ready_def smp_function_call_def Let_def preempt_disable_def preempt_enable_def
      cancel_delay_def sched_frame simp del: smp_run.simps split: if_splits)

lemma kstep_static: "kstep k k' \<Longrightarrow> events k' = events k \<and> os_task_table k' = os_task_table k \<and> pid_map k' = pid_map k"
  by (induction rule: kstep.induct)
    (auto simp: set_task_suspend_def Let_def sched_frame sched_static set_task_ready_static
      set_task_sleep_static split: option.splits)

end
