(* ===== verification/Task.thy ===== *)
theory Task
  imports Sched_Steps
begin

text \<open>
  Task management, \<^verbatim>\<open>os/core/task.c\<close>: process ids, creation of tasks, the timeout of
  a delayed or pending task, and the tasks of the boot. The memory allocator is not part of
  this theory: the addresses \<^verbatim>\<open>zalloc\<close> and \<^verbatim>\<open>__get_free_pages\<close> return are
  arguments, 0 for an allocation that failed. \<open>None\<close> is a machine fault: a NULL pointer
  is dereferenced or an array is accessed out of its bounds.
\<close>

section \<open>Process ids\<close>

definition alloc_pid :: "nat \<Rightarrow> nat \<Rightarrow> kernel \<Rightarrow> int \<times> kernel" where
  "alloc_pid prio cpuid k =
    (if prio > OS_LOWEST_PRIO then
       if prio = OS_PRIO_IDLE \<and> idle_task (pcpus k ! cpuid) \<noteq> 0 then (- 1, k)
       else
         let pid = find_next_zero_bit (pid_map k) OS_NR_TASKS OS_REALTIME_TASK in
         if pid \<ge> OS_NR_TASKS then (- 1, k)
         else (int pid, k\<lparr>pid_map := bm_set_bit pid (pid_map k)\<rparr>)
     else
       let (old, m) = bm_test_and_set_bit prio (pid_map k) in
       if \<not> old
       then (int prio, k\<lparr>pid_map := m, os_task_table := (os_task_table k)[prio := OS_TASK_RESERVED]\<rparr>)
       else (- 1, k\<lparr>pid_map := m\<rparr>))"

definition release_pid :: "int \<Rightarrow> kernel \<Rightarrow> kernel option" where
  "release_pid pid k =
    (if pid > int OS_NR_TASKS then Some k
     else if pid < 0 \<or> pid \<ge> int OS_NR_TASKS then None
     else Some (k\<lparr>pid_map := bm_clear_bit (nat pid) (pid_map k),
                  os_task_table := (os_task_table k)[nat pid := 0]\<rparr>))"

definition pid_to_task :: "int \<Rightarrow> kernel \<Rightarrow> nat option" where
  "pid_to_task pid k =
    (if pid \<ge> int OS_NR_TASKS then Some 0
     else if pid < 0 then None else Some (os_task_table k ! nat pid))"

section \<open>Timeout\<close>

definition task_timeout_handler :: "nat \<Rightarrow> nat \<Rightarrow> kernel \<Rightarrow> kernel option" where
  "task_timeout_handler cpu t k =
    (let k' =
      (if task_is_pending (tasks k t) then
         set_task_ready cpu t (upd_task t (\<lambda>x. x\<lparr>t_delay := 0,
           t_stat := (t_stat x AND NOT TASK_STAT_SUSPEND) AND NOT TASK_STAT_PEND_ANY,
           t_pend_stat := TASK_STAT_PEND_TO\<rparr>) k)
       else if t_delay (tasks k t) \<noteq> 0 \<and> \<not> task_is_ready (tasks k t) then
         set_task_ready cpu t (upd_task t (\<lambda>x. x\<lparr>t_delay := 0,
           t_stat := t_stat x AND NOT TASK_STAT_SUSPEND\<rparr>) k)
       else Some k)
     in map_option (set_need_resched cpu) k')"

section \<open>Creation\<close>

definition TASK_NAME_SIZE :: nat where "TASK_NAME_SIZE = 31"

text \<open>
  \<^verbatim>\<open>task_init\<close> on a task's fields. Without a stack (the idle tasks) the task
  information is not touched.
\<close>

definition task_init :: "string \<Rightarrow> nat \<Rightarrow> nat \<Rightarrow> nat \<Rightarrow> int \<Rightarrow> nat \<Rightarrow> u64 \<Rightarrow> task \<Rightarrow> task" where
  "task_init name stack arg prio pid aff opt task =
    (let task = (if stack \<noteq> 0
           then task\<lparr>ti_cpu := aff, ti_preempt_count := 0, ti_need_resched := False\<rparr> else task);
         task = task\<lparr>t_udata := arg, t_flags := opt, t_pid := pid, t_prio := prio\<rparr>;
         task = (if prio \<le> OS_LOWEST_PRIO
           then task\<lparr>t_by := prio_by prio, t_bx := prio_bx prio, t_bity := prio_bity prio,
                  t_bitx := prio_bitx prio\<rparr> else task);
         task = task\<lparr>t_pend_stat := 0,
           t_stat := (if opt AND TASK_FLAGS_VCPU \<noteq> 0 then TASK_STAT_STOPPED else TASK_STAT_RDY),
           t_affinity := aff, t_flags := opt, t_del_req := 0, t_run_time := CONFIG_TASK_RUN_TIME\<rparr>;
         task = (if prio = OS_PRIO_IDLE then task\<lparr>t_flags := opt OR TASK_FLAGS_IDLE\<rparr> else task)
     in task\<lparr>t_name := take TASK_NAME_SIZE name\<rparr>)"

text \<open>The contents of a zeroed \<^verbatim>\<open>struct task\<close>.\<close>

definition zero_task :: task where
  "zero_task = \<lparr>t_pid = 0, t_flags = 0, t_stat = 0, t_pend_stat = 0, t_prio = 0, t_bx = 0, t_by = 0,
     t_bitx = 0, t_bity = 0, t_affinity = 0, t_delay = 0, t_msg = 0, t_wait_event = 0,
     t_lock_event = 0, t_on_event_list = False, t_flags_rdy = 0, t_run_time = 0, t_start_ns = 0,
     t_del_req = 0, t_udata = 0, t_name = [], ti_cpu = 0, ti_preempt_count = 0,
     ti_need_resched = False\<rparr>"

text \<open>
  \<^verbatim>\<open>__create_task\<close> with \<^verbatim>\<open>CONFIG_VIRT\<close>: the task at \<open>mem\<close> and its stack
  at \<open>stack\<close> are what the allocators returned. It returns the task, or 0.
\<close>

definition create_task0 :: "nat \<Rightarrow> nat \<Rightarrow> nat \<Rightarrow> string \<Rightarrow> nat \<Rightarrow> nat \<Rightarrow> int \<Rightarrow> nat \<Rightarrow> u64 \<Rightarrow> kernel
    \<Rightarrow> nat \<times> kernel" where
  "create_task0 cpu mem stack name arg prio pid aff opt k =
    (if mem = 0 then (0, k)
     else if stack = 0 then (0, k)
     else
       let k = k\<lparr>os_task_table := (os_task_table k)[nat pid := mem], os_task_nr := os_task_nr k + 1\<rparr>;
           aff = (if aff = PCPU_AFF_NONE then 0 else if aff = PCPU_AFF_PERCPU then cpu else aff)
       in (mem, upd_task mem (\<lambda>_. task_init name stack arg prio pid aff opt zero_task) k))"

definition task_list_add :: "nat \<Rightarrow> pcpu \<Rightarrow> pcpu" where
  "task_list_add t p = p\<lparr>task_list := task_list p @ [t], nr_pcpu_task := nr_pcpu_task p + 1\<rparr>"

definition new_add_tail :: "nat \<Rightarrow> pcpu \<Rightarrow> pcpu" where
  "new_add_tail t p = p\<lparr>new_list := new_list p @ [t]\<rparr>"

text \<open>The part of \<^verbatim>\<open>create_task\<close> that puts a per-CPU task on the lists of its CPU.\<close>

definition create_task_lists :: "nat \<Rightarrow> nat \<Rightarrow> nat \<Rightarrow> nat \<Rightarrow> kernel \<Rightarrow> kernel" where
  "create_task_lists cpu t aff prio k =
    (if aff < NR_CPUS k \<and> prio = OS_PRIO_PCPU then
       let k = upd_pcpu aff (task_list_add t) k in
       if aff = cpu then
         if t_stat (tasks k t) = TASK_STAT_RDY then upd_pcpu aff (ready_add_tail t) k
         else upd_pcpu aff (sleep_add_tail t) k
       else upd_pcpu aff (new_add_tail t) k
     else k)"

text \<open>
  \<^verbatim>\<open>create_task\<close>. When \<^verbatim>\<open>__create_task\<close> fails, the code releases the pid and goes
  on to use the NULL task: a fault.
\<close>

definition create_task :: "(nat \<Rightarrow> bool) \<Rightarrow> u64 \<Rightarrow> u64 \<Rightarrow> u64 \<Rightarrow> nat \<Rightarrow> nat \<Rightarrow> nat \<Rightarrow> string \<Rightarrow> nat
    \<Rightarrow> nat \<Rightarrow> nat \<Rightarrow> u64 \<Rightarrow> kernel \<Rightarrow> (int \<times> kernel) option" where
  "create_task fg now1 now2 now3 cpu mem stack name arg prio aff opt k =
    (if aff \<ge> NR_CPUS k \<and> aff \<noteq> PCPU_AFF_NONE then Some (- EINVAL, k)
     else
       let (pid, k) = alloc_pid prio aff k in
       if pid < 0 then Some (- ENOPID, k)
       else
         let (t, k) = create_task0 cpu mem stack name arg prio pid aff opt k in
         if t = 0 then None
         else
           let k = emit (Do_hooks t ''CREATE_TASK'') k;
               aff = t_affinity (tasks k t);
               k = create_task_lists cpu t aff prio k
           in if t_flags (tasks k t) AND TASK_FLAGS_VCPU \<noteq> 0 then Some (pid, k)
              else if task_is_realtime (tasks k t) then
                case set_task_ready cpu t k of
                  None \<Rightarrow> None
                | Some k \<Rightarrow>
                    if os_running k ! cpu then
                      case sched fg now1 now2 now3 cpu k of None \<Rightarrow> None | Some k \<Rightarrow> Some (pid, k)
                    else Some (pid, k)
              else if aff \<noteq> cpu then Some (pid, pcpu_resched aff k)
              else Some (pid, k))"

definition create_realtime_task where
  "create_realtime_task fg now1 now2 now3 cpu mem stack name arg prio flags k =
    create_task fg now1 now2 now3 cpu mem stack name arg prio 0 flags k"

definition create_vcpu_task where
  "create_vcpu_task fg now1 now2 now3 cpu mem stack name arg aff flags k =
    create_task fg now1 now2 now3 cpu mem stack name arg OS_PRIO_PCPU aff (flags OR TASK_FLAGS_VCPU) k"

text \<open>
  \<^verbatim>\<open>create_percpu_task\<close> over the online CPUs, each with the memory it is given; a failed
  creation is only reported.
\<close>

fun create_percpu_task where
  "create_percpu_task fg now1 now2 now3 cpu name arg flags [] k = Some k"
| "create_percpu_task fg now1 now2 now3 cpu name arg flags ((c, mem, stack) # cs) k =
    (case create_task fg now1 now2 now3 cpu mem stack name arg OS_PRIO_PCPU c flags k of
       None \<Rightarrow> None
     | Some (ret, k) \<Rightarrow> create_percpu_task fg now1 now2 now3 cpu name arg flags cs k)"

section \<open>Boot\<close>

text \<open>
  \<^verbatim>\<open>tasks_early_init\<close>: every CPU starts with its zeroed idle task as current and next
  task. \<open>idle i\<close> is the address of \<^verbatim>\<open>idle_tasks[i]\<close>.
\<close>

definition tasks_early_init :: "(nat \<Rightarrow> nat) \<Rightarrow> nat \<Rightarrow> kernel \<Rightarrow> kernel" where
  "tasks_early_init idle n k =
    fold (\<lambda>i k. (upd_task (idle i) (\<lambda>_. zero_task\<lparr>ti_cpu := i\<rparr>) k)
        \<lparr>current_tasks := (current_tasks k)[i := idle i], next_tasks := (next_tasks k)[i := idle i]\<rparr>)
      [0..<n] k"

text \<open>
  \<^verbatim>\<open>create_idle_task\<close> on CPU \<open>cpu\<close>, whose static idle task is at \<open>t\<close>. The test
  \<^verbatim>\<open>pid < -1\<close> never holds; with pid \<open>-1\<close> the task table is written out of its bounds.
\<close>

definition create_idle_task :: "nat \<Rightarrow> nat \<Rightarrow> kernel \<Rightarrow> kernel option" where
  "create_idle_task cpu t k =
    (let (pid, k) = alloc_pid OS_PRIO_IDLE cpu k in
     if pid < - 1 then None
     else if t = 0 then None
     else if pid < 0 then None
     else
       let k = k\<lparr>os_task_table := (os_task_table k)[nat pid := t], os_task_nr := os_task_nr k + 1\<rparr>;
           k = upd_task t (task_init ''idle-task'' 0 0 OS_PRIO_IDLE pid cpu 0) k;
           k = upd_task t (\<lambda>x. x\<lparr>t_stat := TASK_STAT_RUNNING, t_flags := t_flags x OR TASK_FLAGS_IDLE\<rparr>) k;
           k = upd_pcpu cpu (\<lambda>p. p\<lparr>idle_task := t\<rparr>) k;
           k = emit (Do_hooks t ''CREATE_TASK'') k
       in Some (k\<lparr>os_prio_cur := (os_prio_cur k)[cpu := OS_PRIO_PCPU],
                  os_highest_rdy := (os_highest_rdy k)[cpu := OS_PRIO_PCPU]\<rparr>))"

section \<open>The pid allocator\<close>

definition pids :: "kernel \<Rightarrow> nat set" where
  "pids k = {p. p < OS_NR_TASKS \<and> bm_bit (pid_map k) p}"

text \<open>
  The contract of an allocator of identifiers with requests \<open>'r\<close>: an identifier is handed
  out only while it is free and only if it is admissible for the request, allocation fails
  only when no admissible one is left, and a released one is free again.
\<close>

locale id_allocator =
  fixes ok :: "'s \<Rightarrow> bool"
    and used :: "'s \<Rightarrow> nat set"
    and admissible :: "'r \<Rightarrow> 's \<Rightarrow> nat set"
    and alloc :: "'r \<Rightarrow> 's \<Rightarrow> int \<times> 's"
    and release :: "nat \<Rightarrow> 's \<Rightarrow> 's"
  assumes alloc_ok: "ok s \<Longrightarrow> ok (snd (alloc r s))"
    and alloc_some: "ok s \<Longrightarrow> alloc r s = (i, s') \<Longrightarrow> 0 \<le> i \<Longrightarrow>
      nat i \<in> admissible r s - used s \<and> used s' = insert (nat i) (used s)"
    and alloc_none: "ok s \<Longrightarrow> alloc r s = (i, s') \<Longrightarrow> i < 0 \<Longrightarrow>
      admissible r s \<subseteq> used s \<and> used s' = used s"
    and release_law: "ok s \<Longrightarrow> n \<in> used s \<Longrightarrow> ok (release n s) \<and> used (release n s) = used s - {n}"
begin

lemma alloc_release: "ok s \<Longrightarrow> alloc r s = (i, s') \<Longrightarrow> 0 \<le> i \<Longrightarrow> used (release (nat i) s') = used s"
  using alloc_some [of s r i s'] release_law [of s' "nat i"] alloc_ok [of s r] by auto

lemma alloc_succeeds: "ok s \<Longrightarrow> \<not> admissible r s \<subseteq> used s \<Longrightarrow> 0 \<le> fst (alloc r s)"
  using alloc_none [of s r "fst (alloc r s)" "snd (alloc r s)"] by fastforce

lemma two_allocs_differ:
  assumes "ok s" "alloc r s = (i, s')" "alloc q s' = (j, s'')" "0 \<le> i" "0 \<le> j"
  shows "i \<noteq> j"
proof -
  have "nat i \<in> used s'" using alloc_some [OF assms(1,2,4)] by simp
  moreover have "ok s'" using alloc_ok [OF assms(1), of r] assms(2) by simp
  then have "nat j \<notin> used s'" using alloc_some [OF _ assms(3,5)] by simp
  ultimately show ?thesis by auto
qed

end

text \<open>
  The identifiers \<^verbatim>\<open>alloc_pid\<close> may give to a task of priority \<open>prio\<close> on CPU
  \<open>cpuid\<close>: the priority itself for a real-time task, otherwise any from 64 on; none for a
  second idle task.
\<close>

fun pid_admissible :: "nat \<times> nat \<Rightarrow> kernel \<Rightarrow> nat set" where
  "pid_admissible (prio, cpuid) k =
    (if prio \<le> OS_LOWEST_PRIO then {prio}
     else if prio = OS_PRIO_IDLE \<and> idle_task (pcpus k ! cpuid) \<noteq> 0 then {}
     else {OS_REALTIME_TASK..<OS_NR_TASKS})"

definition pid_ok :: "kernel \<Rightarrow> bool" where
  "pid_ok k \<longleftrightarrow> length (pid_map k) = 8"

definition release_pid' :: "nat \<Rightarrow> kernel \<Rightarrow> kernel" where
  "release_pid' pid k = the (release_pid (int pid) k)"

lemma bm_bit_pid_map:
  assumes "pid_ok k" "i < OS_NR_TASKS"
  shows "bm_bit (bm_set_bit i (pid_map k)) j \<longleftrightarrow> j = i \<or> bm_bit (pid_map k) j"
    "bm_bit (bm_clear_bit i (pid_map k)) j \<longleftrightarrow> j \<noteq> i \<and> bm_bit (pid_map k) j"
  using assms by (auto simp: bm_simps pid_ok_def OS_NR_TASKS_def)

lemma find_free_pid:
  assumes "find_next_zero_bit m OS_NR_TASKS OS_REALTIME_TASK = p"
  shows "p < OS_NR_TASKS \<Longrightarrow> OS_REALTIME_TASK \<le> p \<and> \<not> bm_bit m p"
    and "\<not> p < OS_NR_TASKS \<Longrightarrow> \<forall>i. OS_REALTIME_TASK \<le> i \<and> i < OS_NR_TASKS \<longrightarrow> bm_bit m i"
  using assms search_from_correct [of "\<lambda>i. \<not> bm_bit m i" OS_NR_TASKS OS_REALTIME_TASK]
    search_from_before [of OS_REALTIME_TASK _ "\<lambda>i. \<not> bm_bit m i" OS_NR_TASKS]
  by (auto simp: find_next_zero_bit_eq)

lemma alloc_pid_law:
  assumes ok: "pid_ok k" and al: "alloc_pid prio cpu k = (i, k')"
  shows "pid_ok k' \<and> (if 0 \<le> i
    then nat i \<in> pid_admissible (prio, cpu) k - pids k \<and> pids k' = insert (nat i) (pids k)
    else pid_admissible (prio, cpu) k \<subseteq> pids k \<and> pids k' = pids k)"
proof (cases "prio > OS_LOWEST_PRIO")
  case True
  define p where "p = find_next_zero_bit (pid_map k) OS_NR_TASKS OS_REALTIME_TASK"
  note fp = find_free_pid [OF p_def [symmetric]]
  show ?thesis
  proof (cases "p < OS_NR_TASKS \<and> \<not> (prio = OS_PRIO_IDLE \<and> idle_task (pcpus k ! cpu) \<noteq> 0)")
    case free: True
    then have k': "i = int p" "k' = k\<lparr>pid_map := bm_set_bit p (pid_map k)\<rparr>"
      using al True by (auto simp: alloc_pid_def p_def Let_def)
    have "pids k' = insert p (pids k)"
      using bm_bit_pid_map(1) [OF ok, of p] free by (auto simp: pids_def k')
    then show ?thesis using k' ok True free fp(1) by (auto simp: pids_def pid_ok_def)
  next
    case False
    then have "i = - 1" "k' = k"
      using al True by (auto simp: alloc_pid_def p_def Let_def split: if_splits)
    then show ?thesis using ok True False fp(2) by (auto simp: pids_def)
  qed
next
  case False
  then have p: "prio < OS_NR_TASKS" by (simp add: prio_defs OS_NR_TASKS_def)
  have k': "pid_map k' = bm_set_bit prio (pid_map k)"
    "i = (if bm_bit (pid_map k) prio then - 1 else int prio)"
    using al False
    by (auto simp: alloc_pid_def bm_test_and_set_bit_def bm_test_bit_def bm_bit_def split: if_splits)
  have "pids k' = insert prio (pids k)"
    using bm_bit_pid_map(1) [OF ok p] p by (auto simp: pids_def k')
  then show ?thesis using k' ok False p by (auto simp: pids_def pid_ok_def)
qed

lemma release_pid_law:
  assumes "pid_ok k" "i \<in> pids k"
  shows "pid_ok (release_pid' i k) \<and> pids (release_pid' i k) = pids k - {i}"
proof -
  have i: "i < OS_NR_TASKS" using assms by (simp add: pids_def)
  then show ?thesis
    using assms bm_bit_pid_map(2) [OF assms(1) i]
    by (auto simp: release_pid'_def release_pid_def pids_def pid_ok_def)
qed

interpretation pid: id_allocator pid_ok pids pid_admissible "\<lambda>(prio, cpu). alloc_pid prio cpu" release_pid'
proof unfold_locales
  fix k :: kernel and r :: "nat \<times> nat" and i k'
  assume ok: "pid_ok k"
  obtain prio cpu where r: "r = (prio, cpu)" by (cases r)
  show "pid_ok (snd ((case r of (prio, cpu) \<Rightarrow> alloc_pid prio cpu) k))"
    using alloc_pid_law [OF ok, of prio cpu] r by (metis case_prod_conv prod.collapse)
  show "nat i \<in> pid_admissible r k - pids k \<and> pids k' = insert (nat i) (pids k)"
    if "(case r of (prio, cpu) \<Rightarrow> alloc_pid prio cpu) k = (i, k')" "0 \<le> i"
    using alloc_pid_law [OF ok, of prio cpu i k'] that r by simp
  show "pid_admissible r k \<subseteq> pids k \<and> pids k' = pids k"
    if "(case r of (prio, cpu) \<Rightarrow> alloc_pid prio cpu) k = (i, k')" "i < 0"
    using alloc_pid_law [OF ok, of prio cpu i k'] that r by simp
next
  fix k i assume "pid_ok k" "i \<in> pids k"
  then show "pid_ok (release_pid' i k) \<and> pids (release_pid' i k) = pids k - {i}"
    by (rule release_pid_law)
qed

section \<open>Creating a task keeps the scheduler invariant\<close>

text \<open>
  \<open>task_inv\<close>: the scheduler invariant, and every ready real-time priority belongs to an
  allocated pid. \<open>unused k t\<close>: the address \<open>t\<close> is not that of a task in use, as for
  any address the allocator returns.
\<close>

definition task_inv :: "kernel \<Rightarrow> bool" where
  "task_inv k \<longleftrightarrow> sys_inv k \<and> pid_ok k \<and> ptbl_prios (os_rdy k) \<subseteq> pids k"

definition unused :: "kernel \<Rightarrow> nat \<Rightarrow> bool" where
  "unused k t \<longleftrightarrow> t \<notin> set (all_stat k) \<and> t \<notin> set (current_tasks k) \<and> t \<notin> set (os_task_table k) \<and>
     t \<notin> idle_task ` set (pcpus k) \<and>
     (\<forall>cs\<in>set (smp_calls k). \<forall>fn. Some fn \<in> set cs \<longrightarrow> smp_fn_task fn \<noteq> t)"

lemma sys_inv_table:
  assumes inv: "sys_inv k" and p: "p \<notin> ptbl_prios (os_rdy k)"
  shows "sys_inv (k\<lparr>os_task_table := (os_task_table k)[p := v], pid_map := m, os_task_nr := n\<rparr>)"
proof -
  have "(os_task_table k)[p := v] ! q = os_task_table k ! q" if "q \<in> ptbl_prios (os_rdy k)" for q
    using p that by (metis nth_list_update_neq)
  then show ?thesis
    using inv by (simp add: sys_inv_def sched_inv_def calls_ok_def kernel_ok_def NR_CPUS_def all_stat_def)
qed

lemma sys_inv_new_task:
  assumes inv: "sys_inv k" and t: "unused k t"
  shows "sys_inv (upd_task t f k)"
proof -
  have ok: "ptbl_ok (os_rdy k)" "length (os_task_table k) = 512" "length (current_tasks k) = NR_CPUS k"
    using inv by (simp_all add: sys_inv_def sched_inv_def kernel_ok_def OS_NR_TASKS_def)
  have "os_task_table k ! p \<noteq> t" if "p \<in> ptbl_prios (os_rdy k)" for p
  proof -
    have "p < 512" using pt.prios_bound [OF ok(1)] that by auto
    then show ?thesis using t ok(2) unfolding unused_def by (metis nth_mem)
  qed
  moreover have "current_tasks k ! c \<noteq> t" "idle_task (pcpus k ! c) \<noteq> t" if "c < NR_CPUS k" for c
    using t that ok(3) unfolding unused_def NR_CPUS_def by (metis nth_mem, metis image_eqI nth_mem)
  ultimately show ?thesis
    using inv t
    by (auto simp: sys_inv_def sched_inv_def calls_ok_def kernel_ok_def unused_def)
qed

text \<open>Adding a node that is on no list keeps the lists distinct.\<close>

lemma sys_inv_list_add:
  assumes inv: "sys_inv k" and c: "c < NR_CPUS k"
    and t: "t \<notin> set (all_stat k)" "t_prio (tasks k t) = OS_PRIO_PCPU"
    and g: "mset (stat_lists (g (pcpus k ! c))) = add_mset t (mset (stat_lists (pcpus k ! c)))"
      "pcpu_id (g (pcpus k ! c)) = pcpu_id (pcpus k ! c)"
      "idle_task (g (pcpus k ! c)) = idle_task (pcpus k ! c)"
  shows "sys_inv (upd_pcpu c g k)"
proof -
  have m: "mset (all_stat (upd_pcpu c g k)) = mset (t # all_stat k)"
    using all_stat_upd_pcpu [of c k g t] c g(1) by simp
  moreover have "distinct (t # all_stat k)"
    using inv t by (simp add: sys_inv_def sched_inv_def kernel_ok_def)
  ultimately have d: "distinct (all_stat (upd_pcpu c g k))"
    "set (all_stat (upd_pcpu c g k)) = insert t (set (all_stat k))"
    by (metis mset_eq_imp_distinct_iff, metis list.simps(15) mset_eq_setD)
  have keep: "pcpu_id ((pcpus k)[c := g (pcpus k ! c)] ! d) = pcpu_id (pcpus k ! d)"
    "idle_task ((pcpus k)[c := g (pcpus k ! c)] ! d) = idle_task (pcpus k ! d)" for d
    using g(2,3) by (cases "d = c \<and> c < length (pcpus k)"; auto simp: nth_list_update list_update_beyond)+
  show ?thesis
    using inv d t keep by (simp add: sys_inv_def sched_inv_def calls_ok_def kernel_ok_def)
qed

lemma task_init_fields [simp]:
  "t_prio (task_init name stack arg prio pid aff opt x) = prio"
  "t_affinity (task_init name stack arg prio pid aff opt x) = aff"
  "t_pid (task_init name stack arg prio pid aff opt x) = pid"
  "prio \<noteq> OS_PRIO_IDLE \<Longrightarrow> t_flags (task_init name stack arg prio pid aff opt x) = opt"
  by (simp_all add: task_init_def Let_def)

lemma task_init_table:
  "prio \<le> OS_LOWEST_PRIO \<Longrightarrow> t_by (task_init name stack arg prio pid aff opt x) = prio_by prio"
  "prio \<le> OS_LOWEST_PRIO \<Longrightarrow> t_bitx (task_init name stack arg prio pid aff opt x) = prio_bitx prio"
  "prio \<le> OS_LOWEST_PRIO \<Longrightarrow> t_bity (task_init name stack arg prio pid aff opt x) = prio_bity prio"
  by (simp_all add: task_init_def Let_def prio_defs)

lemma create_task0_inv:
  assumes inv: "task_inv k" and un: "unused k mem" and m: "mem \<noteq> 0" "stack \<noteq> 0"
    and prio: "prio \<le> OS_PRIO_PCPU"
    and al: "alloc_pid prio acpu k = (pid, k1)" "0 \<le> pid"
    and cr: "create_task0 cpu mem stack name arg prio pid aff opt k1 = (t, k2)"
  shows "t = mem \<and> sys_inv k2 \<and> task_ok k2 mem \<and> all_stat k2 = all_stat k \<and> os_rdy k2 = os_rdy k \<and>
    pid_ok k2 \<and> pids k2 = insert (nat pid) (pids k) \<and> nat pid \<notin> pids k \<and> NR_CPUS k2 = NR_CPUS k \<and>
    os_task_table k2 ! nat pid = mem \<and> t_prio (tasks k2 mem) = prio \<and> t_pid (tasks k2 mem) = pid \<and>
    t_flags (tasks k2 mem) = opt \<and>
    t_affinity (tasks k2 mem) = (if aff = PCPU_AFF_NONE then 0 else if aff = PCPU_AFF_PERCPU then cpu else aff)"
proof -
  let ?p = "nat pid"
  have ok: "pid_ok k" "sys_inv k" using inv by (simp_all add: task_inv_def)
  have law: "pid_ok k1" "?p \<in> pid_admissible (prio, acpu) k - pids k" "pids k1 = insert ?p (pids k)"
    using alloc_pid_law [OF ok(1) al(1)] al(2) by simp_all
  have new: "?p \<notin> ptbl_prios (os_rdy k)" using law(2) inv by (auto simp: task_inv_def)
  have len: "length (os_task_table k) = OS_NR_TASKS"
    using ok(2) by (simp add: sys_inv_def sched_inv_def kernel_ok_def)
  have lt: "?p < OS_NR_TASKS" and rt: "prio \<le> OS_LOWEST_PRIO \<longrightarrow> ?p = prio"
    using law(2) by (auto simp: OS_NR_TASKS_def prio_defs split: if_splits)
  have k1: "(os_task_table k1)[?p := mem] = (os_task_table k)[?p := mem]" "os_task_nr k1 = os_task_nr k"
    "\<And>x y. k1\<lparr>os_task_table := x, os_task_nr := y\<rparr> =
      k\<lparr>os_task_table := x, pid_map := pid_map k1, os_task_nr := y\<rparr>"
    using al by (auto simp: alloc_pid_def Let_def split: if_splits prod.splits)
  define a where "a = (if aff = PCPU_AFF_NONE then 0 else if aff = PCPU_AFF_PERCPU then cpu else aff)"
  let ?f = "\<lambda>_. task_init name stack arg prio pid a opt zero_task"
  let ?k' = "(upd_task mem ?f k)\<lparr>os_task_table := (os_task_table k)[?p := mem], pid_map := pid_map k1,
    os_task_nr := os_task_nr k + 1\<rparr>"
  have k2: "t = mem" "k2 = ?k'"
    using cr m unfolding create_task0_def a_def Let_def
    by (auto simp: upd_task_def k1)
  have "sys_inv ?k'"
    using sys_inv_table [where k = "upd_task mem ?f k" and p = ?p and v = mem and m = "pid_map k1"
      and n = "os_task_nr k + 1", OF sys_inv_new_task [OF ok(2) un]] new by simp
  moreover have "task_ok ?k' mem"
    using prio rt len lt
    by (auto simp: task_ok_def Let_def task_init_table task_is_realtime_def prio_defs)
  ultimately show ?thesis
    using k2 law len lt prio
    by (auto simp: a_def all_stat_def NR_CPUS_def pids_def pid_ok_def prio_defs)
qed

lemma sys_inv_pcpu_same:
  assumes "sys_inv k" "\<And>p. stat_lists (g p) = stat_lists p" "\<And>p. pcpu_id (g p) = pcpu_id p"
    "\<And>p. idle_task (g p) = idle_task p"
  shows "sys_inv (upd_pcpu c g k)" "all_stat (upd_pcpu c g k) = all_stat k"
proof -
  have eq: "map stat_lists ((pcpus k)[c := g (pcpus k ! c)]) = map stat_lists (pcpus k)"
    using assms(2) by (simp add: map_update) (metis list_update_id map_update)
  then show st: "all_stat (upd_pcpu c g k) = all_stat k" by (simp add: all_stat_def)
  have "pcpu_id ((pcpus k)[c := g (pcpus k ! c)] ! d) = pcpu_id (pcpus k ! d)"
    "idle_task ((pcpus k)[c := g (pcpus k ! c)] ! d) = idle_task (pcpus k ! d)" for d
    using assms(3,4) by (cases "d = c \<and> c < length (pcpus k)"; auto simp: nth_list_update list_update_beyond)+
  then show "sys_inv (upd_pcpu c g k)"
    using assms(1) st by (simp add: sys_inv_def sched_inv_def calls_ok_def kernel_ok_def)
qed

lemma create_task_lists_inv:
  assumes inv: "sys_inv k" and t: "t \<notin> set (all_stat k)" "t_prio (tasks k t) = prio"
  shows "sys_inv (create_task_lists cpu t aff prio k)"
proof (cases "aff < NR_CPUS k \<and> prio = OS_PRIO_PCPU")
  case True
  let ?k1 = "upd_pcpu aff (task_list_add t) k"
  have k1: "sys_inv ?k1" "all_stat ?k1 = all_stat k"
    using sys_inv_pcpu_same [OF inv, of "task_list_add t" aff]
    by (simp_all add: task_list_add_def stat_lists_def)
  have "sys_inv (upd_pcpu aff g ?k1)"
    if "g \<in> {ready_add_tail t, sleep_add_tail t, new_add_tail t}" for g
    by (rule sys_inv_list_add [OF k1(1), where t = t])
      (use that True t k1(2) in \<open>auto simp: stat_lists_add new_add_tail_def stat_lists_def
        ready_add_tail_def sleep_add_tail_def\<close>)
  then show ?thesis using True by (auto simp: create_task_lists_def Let_def)
qed (use inv in \<open>auto simp: create_task_lists_def\<close>)

lemma create_task_lists_frame:
  "os_rdy (create_task_lists cpu t aff prio k) = os_rdy k"
  "pid_map (create_task_lists cpu t aff prio k) = pid_map k"
  "tasks (create_task_lists cpu t aff prio k) = tasks k"
  "os_task_table (create_task_lists cpu t aff prio k) = os_task_table k"
  "NR_CPUS (create_task_lists cpu t aff prio k) = NR_CPUS k"
  by (simp_all add: create_task_lists_def Let_def)

lemma set_task_ready_frame:
  assumes "set_task_ready c t k = Some k'" "c < NR_CPUS k"
  shows "pid_map k' = pid_map k \<and> NR_CPUS k' = NR_CPUS k \<and> os_task_table k' = os_task_table k"
  using assms
  by (auto simp: set_task_ready_def smp_function_call_def Let_def NR_CPUS_def preempt_disable_def
      preempt_enable_def smp_set_task_ready_def set_need_resched_def cancel_delay_def split: if_splits)

lemma create_task_inv:
  assumes inv: "task_inv k" and cpu: "cpu < NR_CPUS k" and un: "unused k mem" and m: "mem \<noteq> 0" "stack \<noteq> 0"
    and prio: "prio \<le> OS_PRIO_PCPU"
    and run: "create_task fg now1 now2 now3 cpu mem stack name arg prio aff opt k = Some (pid, k')" "0 \<le> pid"
  shows "task_inv k' \<and> nat pid \<notin> pids k \<and> pids k' = insert (nat pid) (pids k) \<and> os_task_table k' ! nat pid = mem"
proof -
  obtain pid1 k1 where al: "alloc_pid prio aff k = (pid1, k1)" by fastforce
  have pid1: "0 \<le> pid1" using run al by (auto simp: create_task_def errno_defs split: if_splits)
  obtain t k2 where cr: "create_task0 cpu mem stack name arg prio pid1 aff opt k1 = (t, k2)" by fastforce
  note c0 = create_task0_inv [OF inv un m prio al pid1 cr]
  then have t: "t = mem" by simp
  have fl: "t_flags (tasks k2 mem) = opt" using c0 by simp
  let ?k3 = "emit (Do_hooks mem ''CREATE_TASK'') k2"
  let ?aff = "t_affinity (tasks k2 mem)"
  let ?k4 = "create_task_lists cpu mem ?aff prio ?k3"
  have k3: "sys_inv ?k3" using sys_inv_keeps_run [of k2 0 ?k3] c0 by simp
  have "mem \<notin> set (all_stat ?k3)" using c0 un by (simp add: unused_def)
  then have inv4: "sys_inv ?k4" using create_task_lists_inv [OF k3] c0 by simp
  have ok4: "task_ok ?k4 mem" using c0 by (simp add: task_ok_def create_task_lists_frame)
  have fin: "task_inv x \<and> nat pid1 \<notin> pids k \<and> pids x = insert (nat pid1) (pids k) \<and> os_task_table x ! nat pid1 = mem"
    if "sys_inv x" "pid_map x = pid_map ?k4" "os_task_table x = os_task_table ?k4"
      "ptbl_prios (os_rdy x) \<subseteq> insert (nat pid1) (pids k)" for x
    using that c0 by (simp add: task_inv_def pids_def pid_ok_def create_task_lists_frame)
  have rdy: "ptbl_prios (os_rdy ?k4) \<subseteq> pids k" using inv c0 by (simp add: task_inv_def create_task_lists_frame)
  have now: "sys_inv (pcpu_resched ?aff ?k4)"
    using sys_inv_keeps_run [OF inv4, of 0 "pcpu_resched ?aff ?k4"] by (simp add: pcpu_resched_def)
  have "create_task fg now1 now2 now3 cpu mem stack name arg prio aff opt k =
    (if opt AND TASK_FLAGS_VCPU \<noteq> 0 then Some (pid1, ?k4)
     else if task_is_realtime (tasks ?k4 mem) then
       (case set_task_ready cpu mem ?k4 of None \<Rightarrow> None
        | Some k \<Rightarrow> if os_running k ! cpu then
             (case sched fg now1 now2 now3 cpu k of None \<Rightarrow> None | Some k \<Rightarrow> Some (pid1, k))
           else Some (pid1, k))
     else if ?aff \<noteq> cpu then Some (pid1, pcpu_resched ?aff ?k4) else Some (pid1, ?k4))"
    if "\<not> (aff \<ge> NR_CPUS k \<and> aff \<noteq> PCPU_AFF_NONE)"
    using m pid1 fl unfolding create_task_def if_not_P [OF that] al Let_def prod.case cr [unfolded t]
    by (simp add: create_task_lists_frame)
  then consider (stay) "k' = ?k4" "pid = pid1" | (ipi) "k' = pcpu_resched ?aff ?k4" "pid = pid1"
    | (rt) k5 where "task_is_realtime (tasks ?k4 mem)" "set_task_ready cpu mem ?k4 = Some k5" "pid = pid1"
        "k' = k5 \<or> sched fg now1 now2 now3 cpu k5 = Some k'"
    using run by (auto simp: create_task_def errno_defs split: if_splits option.splits)
  then show ?thesis
  proof cases
    case stay
    then show ?thesis using fin [of ?k4] inv4 rdy by blast
  next
    case ipi
    then show ?thesis using fin [of k'] now rdy by (auto simp: pcpu_resched_def)
  next
    case (rt k5)
    have cpu4: "cpu < NR_CPUS ?k4" using cpu c0 by (simp add: create_task_lists_frame)
    note r = set_task_ready_inv [OF inv4 cpu4 ok4 rt(2)] set_task_ready_frame [OF rt(2) cpu4]
    have "t_prio (tasks ?k4 mem) = nat pid1"
      using rt(1) c0 alloc_pid_law [OF _ al] pid1 inv
      by (auto simp: create_task_lists_frame task_is_realtime_def task_inv_def split: if_splits)
    then have rdy5: "ptbl_prios (os_rdy k5) \<subseteq> insert (nat pid1) (pids k)" using r rdy rt(1) by auto
    show ?thesis
      using rt(3,4) fin [of k5] fin [of k'] r rdy5 sched_sys_inv [of k5 cpu fg now1 now2 now3 k'] cpu4
      by auto
  qed
qed

section \<open>The boot establishes the invariant\<close>

text \<open>
  The zeroed static data of a system with \<open>n\<close> CPUs, and the boot up to the idle tasks:
  \<^verbatim>\<open>pcpus_init\<close>, \<^verbatim>\<open>tasks_early_init\<close>, \<^verbatim>\<open>create_idle_task\<close> on every CPU.
\<close>

definition zero_event :: event where
  "zero_event = \<lparr>e_type = 0, e_owner = 0, e_cnt = 0, e_data = 0, e_locked = False, e_wait = ptbl_zero,
     e_wait_list = [], e_name = []\<rparr>"

definition zero_kernel :: "nat \<Rightarrow> kernel" where
  "zero_kernel n = \<lparr>tasks = (\<lambda>_. zero_task), os_task_table = replicate OS_NR_TASKS 0, os_task_nr = 0,
     pid_map = replicate 8 0, os_rdy = ptbl_zero, os_highest_rdy = replicate n 0,
     os_prio_cur = replicate n 0, pcpus = [], pcpu_sched_class = replicate n SCHED_CLASS_LOCAL,
     current_tasks = replicate n 0, next_tasks = replicate n 0, os_running = replicate n False,
     smp_calls = replicate n (replicate n None), events = (\<lambda>_. zero_event), event_list = [], klog = []\<rparr>"

fun boot_idle :: "(nat \<Rightarrow> nat) \<Rightarrow> nat \<Rightarrow> kernel \<Rightarrow> kernel option" where
  "boot_idle idle 0 k = Some k"
| "boot_idle idle (Suc m) k =
    (case boot_idle idle m k of None \<Rightarrow> None | Some k \<Rightarrow> create_idle_task m (idle m) k)"

definition boot :: "(nat \<Rightarrow> nat) \<Rightarrow> nat \<Rightarrow> kernel option" where
  "boot idle n = boot_idle idle n (tasks_early_init idle n (pcpus_init n (zero_kernel n)))"

lemma tasks_early_init_fields:
  assumes "m \<le> length (current_tasks k)" "length (next_tasks k) = length (current_tasks k)"
  shows "current_tasks (tasks_early_init idle m k) = map idle [0..<m] @ drop m (current_tasks k)"
    "next_tasks (tasks_early_init idle m k) = map idle [0..<m] @ drop m (next_tasks k)"
    "os_task_table (tasks_early_init idle m k) = os_task_table k"
    "pid_map (tasks_early_init idle m k) = pid_map k" "os_rdy (tasks_early_init idle m k) = os_rdy k"
    "os_highest_rdy (tasks_early_init idle m k) = os_highest_rdy k"
    "os_prio_cur (tasks_early_init idle m k) = os_prio_cur k"
    "pcpus (tasks_early_init idle m k) = pcpus k"
    "pcpu_sched_class (tasks_early_init idle m k) = pcpu_sched_class k"
    "smp_calls (tasks_early_init idle m k) = smp_calls k"
  using assms unfolding tasks_early_init_def
  by (induction m) (auto simp: Cons_nth_drop_Suc list_update_append1 list_update_append
      simp flip: Cons_nth_drop_Suc)

text \<open>After the idle tasks of the first \<open>m\<close> CPUs.\<close>

definition boot_state :: "(nat \<Rightarrow> nat) \<Rightarrow> nat \<Rightarrow> nat \<Rightarrow> kernel \<Rightarrow> bool" where
  "boot_state idle n m k \<longleftrightarrow>
     pcpus k = map (\<lambda>c. if c < m then (pcpu_init c)\<lparr>idle_task := idle c\<rparr> else pcpu_init c) [0..<n] \<and>
     current_tasks k = map idle [0..<n] \<and> next_tasks k = map idle [0..<n] \<and>
     os_rdy k = ptbl_zero \<and> length (os_task_table k) = OS_NR_TASKS \<and>
     length (os_highest_rdy k) = n \<and> length (os_prio_cur k) = n \<and>
     pcpu_sched_class k = replicate n SCHED_CLASS_GLOBAL \<and> smp_calls k = replicate n (replicate n None) \<and>
     pid_ok k \<and> pids k \<subseteq> {OS_REALTIME_TASK..<OS_NR_TASKS} \<and> card (pids k) = m \<and>
     (\<forall>c<m. t_prio (tasks k (idle c)) = OS_PRIO_IDLE \<and> os_prio_cur k ! c = OS_PRIO_PCPU)"

lemma boot_state_start:
  "boot_state idle n 0 (tasks_early_init idle n (pcpus_init n (zero_kernel n)))"
proof -
  let ?k = "pcpus_init n (zero_kernel n)"
  have len: "n \<le> length (current_tasks ?k)" "length (next_tasks ?k) = length (current_tasks ?k)"
    by (simp_all add: pcpus_init_def zero_kernel_def)
  note f = tasks_early_init_fields [OF len, of idle]
  have "bm_bit (replicate 8 0) p = False" if "p < OS_NR_TASKS" for p
    using that by (simp add: bm_bit_def OS_NR_TASKS_def)
  then show ?thesis
    by (auto simp: boot_state_def f pids_def pid_ok_def) (simp_all add: pcpus_init_def zero_kernel_def)
qed

lemma boot_state_step:
  assumes st: "boot_state idle n m k" and m: "m < n" "n \<le> 448"
    and idle: "inj_on idle {..<n}" "idle m \<noteq> 0"
  shows "\<exists>k'. create_idle_task m (idle m) k = Some k' \<and> boot_state idle n (Suc m) k'"
proof -
  note st' = st [unfolded boot_state_def]
  obtain pid k1 where al: "alloc_pid OS_PRIO_IDLE m k = (pid, k1)" by fastforce
  have ok: "pid_ok k" using st' by simp
  have free: "idle_task (pcpus k ! m) = 0" using st' m by (simp add: pcpu_init_def)
  have adm: "pid_admissible (OS_PRIO_IDLE, m) k = {OS_REALTIME_TASK..<OS_NR_TASKS}"
    using free by (simp add: prio_defs)
  have "card {OS_REALTIME_TASK..<OS_NR_TASKS} = 448" by (simp add: OS_NR_TASKS_def prio_defs)
  then have "\<not> {OS_REALTIME_TASK..<OS_NR_TASKS} \<subseteq> pids k"
    using st' m by (metis finite_atLeastLessThan finite_subset card_mono leD less_le_trans)
  then have pid: "0 \<le> pid" using alloc_pid_law [OF ok al] adm by (auto split: if_splits)
  have law: "pid_ok k1" "nat pid \<in> {OS_REALTIME_TASK..<OS_NR_TASKS} - pids k" "pids k1 = insert (nat pid) (pids k)"
    using alloc_pid_law [OF ok al] pid adm by simp_all
  obtain mp where k1: "k1 = k\<lparr>pid_map := mp\<rparr>"
    using al pid by (auto simp: alloc_pid_def Let_def prio_defs split: if_splits)
  obtain k' where k': "create_idle_task m (idle m) k = Some k'" and
    f: "pcpus k' = (pcpus k)[m := (pcpus k ! m)\<lparr>idle_task := idle m\<rparr>]"
    "current_tasks k' = current_tasks k" "next_tasks k' = next_tasks k" "os_rdy k' = os_rdy k"
    "length (os_task_table k') = length (os_task_table k)"
    "length (os_highest_rdy k') = length (os_highest_rdy k)"
    "os_prio_cur k' = (os_prio_cur k)[m := OS_PRIO_PCPU]"
    "pcpu_sched_class k' = pcpu_sched_class k" "smp_calls k' = smp_calls k" "pid_map k' = pid_map k1"
    "t_prio (tasks k' (idle m)) = OS_PRIO_IDLE" "\<And>x. x \<noteq> idle m \<Longrightarrow> tasks k' x = tasks k x"
    using al pid idle(2) by (simp add: create_idle_task_def Let_def k1)
  have fin: "finite (pids k)" using st' finite_subset by blast
  have "pids k' = insert (nat pid) (pids k)" using law(3) f(10) by (simp add: pids_def)
  then have pids: "pids k' \<subseteq> {OS_REALTIME_TASK..<OS_NR_TASKS}" "card (pids k') = Suc m" "pid_ok k'"
    using law st' fin f(10) by (auto simp: pid_ok_def)
  have pc0: "pcpus k = map (\<lambda>c. if c < m then (pcpu_init c)\<lparr>idle_task := idle c\<rparr> else pcpu_init c) [0..<n]"
    and cur0: "length (os_prio_cur k) = n"
      "\<And>c. c < m \<Longrightarrow> t_prio (tasks k (idle c)) = OS_PRIO_IDLE \<and> os_prio_cur k ! c = OS_PRIO_PCPU"
    using st' by blast+
  have pc: "pcpus k' = map (\<lambda>c. if c < Suc m then (pcpu_init c)\<lparr>idle_task := idle c\<rparr> else pcpu_init c) [0..<n]"
    unfolding f(1) pc0 using m(1) by (auto intro!: nth_equalityI simp: nth_list_update)
  have "t_prio (tasks k' (idle c)) = OS_PRIO_IDLE \<and> os_prio_cur k' ! c = OS_PRIO_PCPU" if "c < Suc m" for c
  proof (cases "c = m")
    case False
    then have "idle c \<noteq> idle m" using idle(1) that m by (auto simp: inj_on_def)
    then show ?thesis using f(7,12) cur0 False that by simp
  qed (use f(7,11) cur0 m in simp)
  then have "boot_state idle n (Suc m) k'" unfolding boot_state_def using f pc pids st' by simp
  with k' show ?thesis by blast
qed

lemma boot_state_all:
  assumes "inj_on idle {..<n}" "\<forall>c<n. idle c \<noteq> 0" "n \<le> 448" "boot_state idle n 0 k" "m \<le> n"
  shows "\<exists>k'. boot_idle idle m k = Some k' \<and> boot_state idle n m k'"
  using assms(5)
proof (induction m)
  case (Suc m)
  then obtain k' where "boot_idle idle m k = Some k'" "boot_state idle n m k'" by auto
  with boot_state_step [OF this(2) _ assms(3,1)] assms(2) Suc.prems show ?case by simp
qed (use assms in simp)

lemma boot_state_inv:
  assumes "boot_state idle n n k" shows "task_inv k"
proof -
  note st = assms [unfolded boot_state_def]
  have n: "NR_CPUS k = n" using st by (simp add: NR_CPUS_def)
  have "stat_lists ((pcpu_init c)\<lparr>idle_task := i\<rparr>) = []" for c i
    by (simp add: stat_lists_def pcpu_init_def)
  then have "all_stat k = []" using st by (auto simp: all_stat_def)
  moreover have "pcpu_id (pcpus k ! c) = c" "idle_task (pcpus k ! c) = idle c" if "c < n" for c
    using st that by (simp_all add: pcpu_init_def)
  moreover have "cur_ok (os_prio_cur k)"
    using st by (auto simp: cur_ok_def in_set_conv_nth prio_defs)
  ultimately show ?thesis
    using st n ptbl_zero_ok
    by (simp add: task_inv_def sys_inv_def sched_inv_def kernel_ok_def calls_ok_def run_prio_def
        task_is_idle_def)
qed

lemma boot_task_inv:
  assumes "inj_on idle {..<n}" "\<forall>c<n. idle c \<noteq> 0" "n \<le> 448"
  shows "\<exists>k. boot idle n = Some k \<and> task_inv k \<and> NR_CPUS k = n"
proof -
  obtain k where "boot idle n = Some k" "boot_state idle n n k"
    using boot_state_all [OF assms boot_state_start order_refl] by (auto simp: boot_def)
  moreover from this have "NR_CPUS k = n" by (simp add: boot_state_def NR_CPUS_def)
  ultimately show ?thesis using boot_state_inv by blast
qed

section \<open>Properties\<close>

text \<open>
  C23. The boot succeeds and establishes the invariant of the system, for up to 448 CPUs
  (the pids that are not real-time priorities) with distinct idle tasks: no two CPUs run the
  same real-time priority, the per-CPU data agree with each other, the ready table is empty
  and the idle tasks own distinct pids.
\<close>

theorem boot_establishes_inv:
  assumes "inj_on idle {..<n}" "\<forall>c<n. idle c \<noteq> 0" "n \<le> 448"
  shows "\<exists>k. boot idle n = Some k \<and> task_inv k \<and> NR_CPUS k = n \<and> card (pids k) = n"
proof -
  obtain k where k: "boot idle n = Some k" "boot_state idle n n k"
    using boot_state_all [OF assms boot_state_start order_refl] by (auto simp: boot_def)
  then show ?thesis using boot_state_inv [OF k(2)] by (simp add: boot_state_def NR_CPUS_def)
qed

theorem boot_establishes_inv_witness:
  "\<exists>k. boot (\<lambda>i. 1000 + i) 4 = Some k \<and> task_inv k \<and> NR_CPUS k = 4 \<and> card (pids k) = 4"
  using boot_establishes_inv [of "\<lambda>i. 1000 + i" 4] by (simp add: inj_on_def)

text \<open>
  C26. \<^verbatim>\<open>alloc_pid\<close> hands out a pid only while it is free and only one that fits the request (the
  priority itself for a real-time task, otherwise one from 64 on, none for a second idle task
  of a CPU); it fails only if none is left; and \<^verbatim>\<open>release_pid\<close> makes it free again.
\<close>

theorem pid_alloc_release:
  assumes "pid_ok k" "alloc_pid prio cpu k = (i, k')"
  shows "if 0 \<le> i
    then nat i \<in> pid_admissible (prio, cpu) k - pids k \<and> pids k' = insert (nat i) (pids k) \<and>
      (\<exists>k''. release_pid i k' = Some k'' \<and> pids k'' = pids k)
    else pid_admissible (prio, cpu) k \<subseteq> pids k \<and> pids k' = pids k"
proof (cases "0 \<le> i")
  case True
  have al: "(case (prio, cpu) of (prio, cpu) \<Rightarrow> alloc_pid prio cpu) k = (i, k')" using assms(2) by simp
  note some = pid.alloc_some [OF assms(1) al True]
  then have "nat i < OS_NR_TASKS" by (auto simp: pids_def)
  then have "release_pid i k' = Some (release_pid' (nat i) k')"
    using True by (simp add: release_pid'_def release_pid_def)
  moreover have "pids (release_pid' (nat i) k') = pids k" by (rule pid.alloc_release [OF assms(1) al True])
  ultimately show ?thesis using some True by simp
next
  case False
  then show ?thesis using alloc_pid_law [OF assms] by simp
qed

theorem pid_alloc_release_witness:
  "\<exists>k'. alloc_pid 5 0 (zero_kernel 1) = (5, k') \<and> pids k' = insert 5 (pids (zero_kernel 1)) \<and>
    (\<exists>k''. release_pid 5 k' = Some k'' \<and> pids k'' = pids (zero_kernel 1))"
proof -
  have ok: "pid_ok (zero_kernel 1)" by (simp add: pid_ok_def zero_kernel_def)
  have "fst (alloc_pid 5 0 (zero_kernel 1)) = 5"
    by (simp add: alloc_pid_def zero_kernel_def prio_defs bm_test_and_set_bit_def bm_test_bit_def bm_bit_def)
  then obtain k' where "alloc_pid 5 0 (zero_kernel 1) = (5, k')" by (metis prod.collapse)
  from pid_alloc_release [OF ok this] this show ?thesis by simp
qed

text \<open>
  \<^verbatim>\<open>release_pid\<close> tests \<open>pid > OS_NR_TASKS\<close>: with 512, the first number that is
  not a pid, it writes one element past the end of \<^verbatim>\<open>os_task_table\<close>, where every larger
  number is ignored.
\<close>

theorem release_pid_off_by_one:
  "release_pid 512 k = None \<and> release_pid 513 k = Some k"
  by (simp_all add: release_pid_def OS_NR_TASKS_def)

text \<open>
  When the memory allocator fails, \<^verbatim>\<open>create_task\<close> releases the pid and then
  goes on with the NULL task: it calls the hooks and \<^verbatim>\<open>arch_init_task\<close> on it, a fault,
  where it means to return \<open>-ENOPID\<close>.
\<close>

theorem create_task_oom_faults:
  assumes "aff < NR_CPUS k" "alloc_pid prio aff k = (pid, k1)" "0 \<le> pid" "mem = 0 \<or> stack = 0"
  shows "create_task fg now1 now2 now3 cpu mem stack name arg prio aff opt k = None"
  using assms by (auto simp: create_task_def create_task0_def Let_def)

theorem create_task_oom_faults_witness:
  "create_task (\<lambda>_. False) 0 0 0 0 0 0 ''t'' 0 5 0 0 (pcpus_init 1 (zero_kernel 1)) = None"
proof -
  let ?k = "pcpus_init 1 (zero_kernel 1)"
  have "fst (alloc_pid 5 0 ?k) = 5"
    by (simp add: alloc_pid_def pcpus_init_def zero_kernel_def prio_defs bm_test_and_set_bit_def bm_test_bit_def bm_bit_def)
  then obtain k1 where k1: "alloc_pid 5 0 ?k = (5, k1)" by (metis prod.collapse)
  have "0 < NR_CPUS ?k" by (simp add: NR_CPUS_def pcpus_init_def)
  from create_task_oom_faults [OF this k1] show ?thesis by simp
qed

end
