(* ===== verification/Event.thy ===== *)
theory Event
  imports Task
begin

text \<open>
  Events, \<^verbatim>\<open>os/core/event.c\<close> and \<^verbatim>\<open>event.h\<close>: the common part of semaphores,
  mutexes, mailboxes and message queues. Real-time tasks wait in a priority table, the others
  in a list. \<open>None\<close> is a fault, a call slot that stays busy, a lock that is never
  released, or a loop that does not end.
\<close>

section \<open>Operations\<close>

definition OS_EVENT_TYPE_MBOX :: nat where "OS_EVENT_TYPE_MBOX = 1"
definition OS_EVENT_TYPE_Q :: nat where "OS_EVENT_TYPE_Q = 2"
definition OS_EVENT_TYPE_SEM :: nat where "OS_EVENT_TYPE_SEM = 3"
definition OS_EVENT_TYPE_MUTEX :: nat where "OS_EVENT_TYPE_MUTEX = 4"
definition OS_EVENT_TYPE_FLAG :: nat where "OS_EVENT_TYPE_FLAG = 5"
definition OS_EVENT_NAME_SIZE :: nat where "OS_EVENT_NAME_SIZE = 31"

definition OS_DEL_NO_PEND :: int where "OS_DEL_NO_PEND = 0"
definition OS_DEL_ALWAYS :: int where "OS_DEL_ALWAYS = 1"
definition OS_PEND_OPT_BROADCAST :: int where "OS_PEND_OPT_BROADCAST = 1"
definition OS_POST_OPT_BROADCAST :: u32 where "OS_POST_OPT_BROADCAST = 1"
definition OS_POST_OPT_FRONT :: u32 where "OS_POST_OPT_FRONT = 2"
definition OS_POST_OPT_NO_SCHED :: u32 where "OS_POST_OPT_NO_SCHED = 4"

named_theorems event_defs \<open>the constants of event.h\<close>
declare OS_EVENT_TYPE_MBOX_def [event_defs] OS_EVENT_TYPE_Q_def [event_defs]
  OS_EVENT_TYPE_SEM_def [event_defs] OS_EVENT_TYPE_MUTEX_def [event_defs]
  OS_EVENT_TYPE_FLAG_def [event_defs] OS_DEL_NO_PEND_def [event_defs] OS_DEL_ALWAYS_def [event_defs]
  OS_PEND_OPT_BROADCAST_def [event_defs] OS_POST_OPT_BROADCAST_def [event_defs]
  OS_POST_OPT_FRONT_def [event_defs] OS_POST_OPT_NO_SCHED_def [event_defs]

text \<open>The spin lock of an event; a lock that is held is never released by another step.\<close>

definition lock_event :: "nat \<Rightarrow> kernel \<Rightarrow> kernel option" where
  "lock_event e k =
    (if e_locked (events k e) then None else Some (upd_event e (\<lambda>x. x\<lparr>e_locked := True\<rparr>) k))"

definition unlock_event :: "nat \<Rightarrow> kernel \<Rightarrow> kernel" where
  "unlock_event e k = upd_event e (\<lambda>x. x\<lparr>e_locked := False\<rparr>) k"

definition event_init :: "nat \<Rightarrow> nat \<Rightarrow> nat \<Rightarrow> string \<Rightarrow> kernel \<Rightarrow> kernel" where
  "event_init e type pdata name k =
    (let k = upd_event e (\<lambda>x. x\<lparr>e_type := type, e_locked := False, e_wait_list := [], e_data := pdata,
               e_name := take OS_EVENT_NAME_SIZE name\<rparr>) k
     in k\<lparr>event_list := event_list k @ [e]\<rparr>)"

definition create_event :: "nat \<Rightarrow> nat \<Rightarrow> nat \<Rightarrow> string \<Rightarrow> kernel \<Rightarrow> nat \<times> kernel" where
  "create_event mem type pdata name k =
    (if mem = 0 then (0, k)
     else (mem, event_init mem type pdata name (upd_event mem (\<lambda>_. zero_event) k)))"

definition release_event :: "nat \<Rightarrow> kernel \<Rightarrow> kernel" where
  "release_event e k = k\<lparr>event_list := remove1 e (event_list k)\<rparr>"

definition event_has_waiter :: "nat \<Rightarrow> kernel \<Rightarrow> bool" where
  "event_has_waiter e k \<longleftrightarrow> fst (e_wait (events k e)) \<noteq> 0 \<or> e_wait_list (events k e) \<noteq> []"

definition event_task_wait :: "nat \<Rightarrow> nat \<Rightarrow> kernel \<Rightarrow> kernel" where
  "event_task_wait t e k =
    (let x = tasks k t in
     if task_is_realtime x
     then upd_event e (\<lambda>ev. ev\<lparr>e_wait := ptbl_set (t_by x) (t_bitx x) (t_bity x) (e_wait ev)\<rparr>) k
     else upd_task t (\<lambda>x. x\<lparr>t_on_event_list := True\<rparr>)
            (upd_event e (\<lambda>ev. ev\<lparr>e_wait_list := e_wait_list ev @ [t]\<rparr>) k))"

definition event_task_remove :: "nat \<Rightarrow> nat \<Rightarrow> kernel \<Rightarrow> int \<times> kernel" where
  "event_task_remove t e k =
    (let x = tasks k t; pending = task_is_pending x in
     if \<not> task_is_realtime x then
       if t_on_event_list x then
         let k = upd_task t (\<lambda>x. x\<lparr>t_on_event_list := False\<rparr>)
                   (upd_event e (\<lambda>ev. ev\<lparr>e_wait_list := remove1 t (e_wait_list ev)\<rparr>) k)
         in (if pending then 0 else - EPERM, k)
       else (- EPERM, k)
     else
       let k = upd_event e (\<lambda>ev. ev\<lparr>e_wait := ptbl_clear (t_by x) (t_bitx x) (t_bity x) (e_wait ev)\<rparr>) k
       in (if pending then 0 else - EPERM, k))"

definition event_get_waiter :: "nat \<Rightarrow> kernel \<Rightarrow> nat" where
  "event_get_waiter e k =
    (let ev = events k e in
     if fst (e_wait ev) \<noteq> 0 then get_highest_task (e_wait ev) k
     else case e_wait_list ev of t # _ \<Rightarrow> t | [] \<Rightarrow> 0)"

definition event_task_ready :: "nat \<Rightarrow> nat \<Rightarrow> nat \<Rightarrow> u16 \<Rightarrow> nat \<Rightarrow> kernel \<Rightarrow> kernel option" where
  "event_task_ready cpu t msg msk pend_stat k =
    set_task_ready cpu t (upd_task t (\<lambda>x. x\<lparr>t_pend_stat := pend_stat, t_msg := msg,
      t_stat := t_stat x AND NOT msk, t_wait_event := 0\<rparr>) k)"

text \<open>
  \<^verbatim>\<open>event_highest_task_ready\<close>: the \<open>goto again\<close> loop drops waiters that have timed
  out until it finds one that is still pending. It returns that task, or 0.
\<close>

partial_function (option) event_highest_task_ready ::
  "nat \<Rightarrow> nat \<Rightarrow> nat \<Rightarrow> u16 \<Rightarrow> nat \<Rightarrow> kernel \<Rightarrow> (nat \<times> kernel) option" where
  "event_highest_task_ready cpu e msg msk pend_stat k =
    (let t = event_get_waiter e k in
     if t = 0 then Some (0, k)
     else
       let (r, k) = event_task_remove t e k in
       if r = 0 then
         (case event_task_ready cpu t msg msk pend_stat k of None \<Rightarrow> None | Some k \<Rightarrow> Some (t, k))
       else event_highest_task_ready cpu e msg msk pend_stat k)"

text \<open>\<^verbatim>\<open>event_del_always\<close>: the list loop, then the loop over the table.\<close>

fun event_del_list :: "nat \<Rightarrow> nat \<Rightarrow> nat list \<Rightarrow> kernel \<Rightarrow> kernel option" where
  "event_del_list cpu e [] k = Some k"
| "event_del_list cpu e (t # ts) k =
    (case event_task_ready cpu t 0 TASK_STAT_MUTEX TASK_STAT_PEND_ABORT (snd (event_task_remove t e k)) of
       None \<Rightarrow> None | Some k \<Rightarrow> event_del_list cpu e ts k)"

partial_function (option) event_del_table :: "nat \<Rightarrow> nat \<Rightarrow> kernel \<Rightarrow> kernel option" where
  "event_del_table cpu e k =
    (if fst (e_wait (events k e)) = 0 then Some k
     else
       let t = get_highest_task (e_wait (events k e)) k in
       (case event_task_ready cpu t 0 TASK_STAT_MUTEX TASK_STAT_PEND_ABORT k of
          None \<Rightarrow> None
        | Some k \<Rightarrow> event_del_table cpu e (snd (event_task_remove t e k))))"

definition event_del_always :: "nat \<Rightarrow> nat \<Rightarrow> kernel \<Rightarrow> kernel option" where
  "event_del_always cpu e k =
    (case event_del_list cpu e (e_wait_list (events k e)) k of
       None \<Rightarrow> None | Some k \<Rightarrow> event_del_table cpu e k)"

section \<open>Waiters\<close>

text \<open>
  The waiters of an event in the order they are served: the real-time ones by priority, then
  the list. \<open>event_ok\<close>: the table and the list agree with the tasks.
\<close>

definition rt_waiters :: "nat \<Rightarrow> kernel \<Rightarrow> nat list" where
  "rt_waiters e k = map (nth (os_task_table k)) (sorted_list_of_set (ptbl_prios (e_wait (events k e))))"

definition ev_waiters :: "nat \<Rightarrow> kernel \<Rightarrow> nat list" where
  "ev_waiters e k = rt_waiters e k @ e_wait_list (events k e)"

definition event_ok :: "nat \<Rightarrow> kernel \<Rightarrow> bool" where
  "event_ok e k \<longleftrightarrow> ptbl_ok (e_wait (events k e)) \<and>
     (\<forall>p\<in>ptbl_prios (e_wait (events k e)). let t = os_task_table k ! p in
        t \<noteq> 0 \<and> task_ok k t \<and> t_prio (tasks k t) = p) \<and>
     distinct (e_wait_list (events k e)) \<and>
     (\<forall>t\<in>set (e_wait_list (events k e)). t \<noteq> 0 \<and> t_prio (tasks k t) = OS_PRIO_PCPU \<and>
        t_on_event_list (tasks k t))"

lemma ptbl_grp_0: "ptbl_ok t \<Longrightarrow> fst t = 0 \<longleftrightarrow> ptbl_prios t = {}"
proof -
  assume ok: "ptbl_ok t"
  have "ptbl_empty t \<longleftrightarrow> fst t = 0"
  proof
    assume "ptbl_empty t"
    then have "\<not> bit (fst t) y" if "y < 8" for y
      using ok that by (simp add: ptbl_ok_def ptbl_empty_def list_all_length)
    then show "fst t = 0" by (auto intro: bit_word_eqI)
  next
    assume "fst t = 0"
    then show "ptbl_empty t" using ok by (auto simp: ptbl_ok_def ptbl_empty_def list_all_length)
  qed
  then show ?thesis using pt.empty_law [OF ok] by simp
qed

lemma rt_waiters_eq_Nil: "event_ok e k \<Longrightarrow> rt_waiters e k = [] \<longleftrightarrow> fst (e_wait (events k e)) = 0"
  using pt.finite_prios [of "e_wait (events k e)"] ptbl_grp_0 [of "e_wait (events k e)"]
  by (auto simp: rt_waiters_def event_ok_def)

lemma event_has_waiter_iff: "event_ok e k \<Longrightarrow> event_has_waiter e k \<longleftrightarrow> ev_waiters e k \<noteq> []"
  using rt_waiters_eq_Nil [of e k] by (auto simp: event_has_waiter_def ev_waiters_def)

lemma sorted_prios_pop:
  assumes "ptbl_ok t" "ptbl_prios t \<noteq> {}"
  shows "sorted_list_of_set (ptbl_prios t) = ptbl_highest t # sorted_list_of_set (ptbl_prios (ptbl_del (ptbl_highest t) t))"
  using assms pt.clear_top [OF assms] pt.top_eq_Min [OF assms] pt.finite_prios [OF assms(1)]
  by (simp add: sorted_list_of_set_nonempty)

lemma event_ok_cong:
  assumes "event_ok e k" "e_wait (events k' e) = e_wait (events k e)"
    "e_wait_list (events k' e) = e_wait_list (events k e)" "os_task_table k' = os_task_table k"
    "\<And>t. t_prio (tasks k' t) = t_prio (tasks k t) \<and> t_by (tasks k' t) = t_by (tasks k t) \<and>
      t_bitx (tasks k' t) = t_bitx (tasks k t) \<and> t_bity (tasks k' t) = t_bity (tasks k t) \<and>
      t_on_event_list (tasks k' t) = t_on_event_list (tasks k t)"
  shows "event_ok e k'" "ev_waiters e k' = ev_waiters e k"
  using assms by (auto simp: event_ok_def ev_waiters_def rt_waiters_def task_ok_def task_is_realtime_def Let_def)

text \<open>What serving a waiter leaves alone: the rest of the event, and the preemption counts.\<close>

definition same_event :: "nat \<Rightarrow> kernel \<Rightarrow> kernel \<Rightarrow> bool" where
  "same_event e k k' \<longleftrightarrow>
    (\<exists>w l. events k' = (events k)(e := (events k e)\<lparr>e_wait := w, e_wait_list := l\<rparr>))"

definition same_preempt :: "kernel \<Rightarrow> kernel \<Rightarrow> bool" where
  "same_preempt k k' \<longleftrightarrow> (\<forall>x. ti_preempt_count (tasks k' x) = ti_preempt_count (tasks k x)) \<and>
     current_tasks k' = current_tasks k"

lemma same_event_refl: "events k' = events k \<Longrightarrow> same_event e k k'"
  unfolding same_event_def
  by (rule exI [of _ "e_wait (events k e)"], rule exI [of _ "e_wait_list (events k e)"]) simp

lemma same_event_upd:
  "events k' = (events k)(e := (events k e)\<lparr>e_wait_list := l\<rparr>) \<Longrightarrow> same_event e k k'"
  "events k' = (events k)(e := (events k e)\<lparr>e_wait := w\<rparr>) \<Longrightarrow> same_event e k k'"
  unfolding same_event_def
  by (rule exI [of _ "e_wait (events k e)"], rule exI [of _ l], simp)
    (rule exI [of _ w], rule exI [of _ "e_wait_list (events k e)"], simp)

lemma same_event_trans: "same_event e k k' \<Longrightarrow> same_event e k' k'' \<Longrightarrow> same_event e k k''"
  by (auto simp: same_event_def) blast

lemma same_preempt_trans: "same_preempt k k' \<Longrightarrow> same_preempt k' k'' \<Longrightarrow> same_preempt k k''"
  by (simp add: same_preempt_def)

text \<open>
  One turn of the loop: the first waiter is the one found, removing it leaves the rest, and
  the removal reports whether the task is still pending.
\<close>

lemma event_get_waiter_hd:
  assumes "event_ok e k"
  shows "event_get_waiter e k = (case ev_waiters e k of [] \<Rightarrow> 0 | t # _ \<Rightarrow> t)"
proof (cases "fst (e_wait (events k e)) = 0")
  case True
  then show ?thesis
    using rt_waiters_eq_Nil [OF assms] by (simp add: event_get_waiter_def ev_waiters_def Let_def)
next
  case False
  have ok: "ptbl_ok (e_wait (events k e))" using assms by (simp add: event_ok_def)
  have "ptbl_prios (e_wait (events k e)) \<noteq> {}" using ptbl_grp_0 [OF ok] False by simp
  then show ?thesis
    using sorted_prios_pop [OF ok] False
    by (simp add: event_get_waiter_def ev_waiters_def rt_waiters_def get_highest_task_def Let_def)
qed

lemma event_task_remove_hd:
  assumes ok: "event_ok e k" and ws: "ev_waiters e k = t # ts" and rm: "event_task_remove t e k = (r, k')"
  shows "(r = 0 \<longleftrightarrow> task_is_pending (tasks k t)) \<and> ev_waiters e k' = ts \<and> event_ok e k' \<and> t \<noteq> 0 \<and>
    task_ok k' t \<and> (\<forall>x. \<exists>b. tasks k' x = (tasks k x)\<lparr>t_on_event_list := b\<rparr>) \<and>
    k' = k\<lparr>tasks := tasks k', events := (events k)(e := events k' e)\<rparr> \<and>
    same_event e k k' \<and> same_preempt k k'"
proof (cases "rt_waiters e k")
  case Nil
  then have grp: "fst (e_wait (events k e)) = 0" using rt_waiters_eq_Nil [OF ok] by simp
  have wl: "e_wait_list (events k e) = t # ts" using ws Nil by (simp add: ev_waiters_def)
  then have t: "t \<noteq> 0" "t_prio (tasks k t) = OS_PRIO_PCPU" "t_on_event_list (tasks k t)" "t \<notin> set ts"
    using ok by (auto simp: event_ok_def)
  have nrt: "\<not> task_is_realtime (tasks k t)" using t by (simp add: task_is_realtime_def prio_defs)
  let ?k = "upd_task t (\<lambda>x. x\<lparr>t_on_event_list := False\<rparr>)
    (upd_event e (\<lambda>ev. ev\<lparr>e_wait_list := remove1 t (e_wait_list ev)\<rparr>) k)"
  have k': "k' = ?k" "r = (if task_is_pending (tasks k t) then 0 else - EPERM)"
    using rm nrt t by (auto simp: event_task_remove_def Let_def)
  have "ptbl_prios (e_wait (events k e)) = {}"
    using ok grp ptbl_grp_0 by (auto simp: event_ok_def)
  then have "event_ok e k'" using ok wl t by (auto simp: event_ok_def k')
  moreover have "ev_waiters e k' = ts"
    using wl Nil by (simp add: ev_waiters_def rt_waiters_def k')
  moreover have "task_ok k' t" using t nrt by (simp add: task_ok_def k' task_is_realtime_def prio_defs)
  moreover have "\<exists>b. tasks k' x = (tasks k x)\<lparr>t_on_event_list := b\<rparr>" for x
    by (cases "x = t") (auto simp: k' intro: exI [of _ "t_on_event_list (tasks k x)"])
  moreover have "same_event e k k'" by (rule same_event_upd(1)) (simp add: k')
  ultimately show ?thesis
    using t k' by (auto simp: errno_defs upd_task_def upd_event_def same_preempt_def)
next
  case (Cons w wsr)
  let ?w = "e_wait (events k e)"
  have wt: "w = t" using ws Cons by (simp add: ev_waiters_def)
  have pok: "ptbl_ok ?w" using ok by (simp add: event_ok_def)
  have ne: "ptbl_prios ?w \<noteq> {}" using Cons by (auto simp: rt_waiters_def)
  let ?p = "ptbl_highest ?w"
  note pop = sorted_prios_pop [OF pok ne]
  have tt: "t = os_task_table k ! ?p" using Cons wt by (simp add: rt_waiters_def pop)
  have p: "?p \<in> ptbl_prios ?w" "?p < 64" using pt.top_law [OF pok ne] pt.top_less [OF pok ne] by auto
  then have t: "t \<noteq> 0" "task_ok k t" "t_prio (tasks k t) = ?p"
    using ok by (auto simp: event_ok_def Let_def tt)
  have rt: "task_is_realtime (tasks k t)" using t p by (simp add: task_is_realtime_def prio_defs)
  have k': "k' = upd_event e (\<lambda>ev. ev\<lparr>e_wait := ptbl_del ?p (e_wait ev)\<rparr>) k"
    "r = (if task_is_pending (tasks k t) then 0 else - EPERM)"
    using rm rt t task_ok_set(2) [OF t(2) rt] by (auto simp: event_task_remove_def Let_def)
  note del = ptbl_del_law [OF pok p(2)]
  have "event_ok e k'" using ok del by (auto simp: event_ok_def k' task_ok_def)
  moreover have "ev_waiters e k' = ts"
    using ws wt pop by (simp add: ev_waiters_def rt_waiters_def k' tt)
  moreover have "\<exists>b. tasks k' x = (tasks k x)\<lparr>t_on_event_list := b\<rparr>" for x
    by (auto simp: k' intro: exI [of _ "t_on_event_list (tasks k x)"])
  moreover have "same_event e k k'" by (rule same_event_upd(2)) (simp add: k')
  ultimately show ?thesis
    using t k' by (auto simp: errno_defs task_ok_def upd_event_def same_preempt_def)
qed

section \<open>Waking the first pending waiter\<close>

text \<open>The cases in which \<^verbatim>\<open>set_task_ready\<close> does not wait for a busy call slot.\<close>

definition can_ready :: "nat \<Rightarrow> nat \<Rightarrow> kernel \<Rightarrow> bool" where
  "can_ready cpu t k \<longleftrightarrow> task_is_idle (tasks k t) \<or> task_is_realtime (tasks k t) \<or>
     pcpu_id (pcpus k ! cpu) = t_affinity (tasks k t) \<or>
     t_affinity (tasks k t) < NR_CPUS k \<and> smp_calls k ! t_affinity (tasks k t) ! cpu = None"

lemma set_task_ready_total: "can_ready cpu t k \<Longrightarrow> \<exists>k'. set_task_ready cpu t k = Some k'"
  by (auto simp: can_ready_def set_task_ready_def smp_function_call_def Let_def preempt_disable_def NR_CPUS_def)

lemma set_task_ready_preempt:
  "can_ready cpu t k \<Longrightarrow> set_task_ready cpu t k = Some k' \<Longrightarrow> same_preempt k k'"
  by (auto simp: can_ready_def set_task_ready_def smp_function_call_def Let_def preempt_disable_def NR_CPUS_def
      preempt_enable_def set_need_resched_def cancel_delay_def smp_set_task_ready_def get_current_task_def
      same_preempt_def split: if_splits)

text \<open>What making a task ready changes in the tasks: the delay and the scheduling marks.\<close>

definition same_task :: "task \<Rightarrow> task \<Rightarrow> bool" where
  "same_task x y \<longleftrightarrow> (\<exists>d r p. y = x\<lparr>t_delay := d, ti_need_resched := r, ti_preempt_count := p\<rparr>)"

lemma same_task_refl [simp]: "same_task x x"
  unfolding same_task_def by (rule exI [of _ "t_delay x"], rule exI [of _ "ti_need_resched x"],
    rule exI [of _ "ti_preempt_count x"]) simp

lemma same_task_updates [simp]:
  "same_task x y \<Longrightarrow> same_task x (y\<lparr>t_delay := d\<rparr>)"
  "same_task x y \<Longrightarrow> same_task x (y\<lparr>ti_need_resched := r\<rparr>)"
  "same_task x y \<Longrightarrow> same_task x (y\<lparr>ti_preempt_count := p\<rparr>)"
proof -
  assume "same_task x y"
  then obtain d' r' p' where "y = x\<lparr>t_delay := d', ti_need_resched := r', ti_preempt_count := p'\<rparr>"
    by (auto simp: same_task_def)
  then have "y\<lparr>t_delay := d\<rparr> = x\<lparr>t_delay := d, ti_need_resched := r', ti_preempt_count := p'\<rparr>"
    "y\<lparr>ti_need_resched := r\<rparr> = x\<lparr>t_delay := d', ti_need_resched := r, ti_preempt_count := p'\<rparr>"
    "y\<lparr>ti_preempt_count := p\<rparr> = x\<lparr>t_delay := d', ti_need_resched := r', ti_preempt_count := p\<rparr>"
    by simp_all
  then show "same_task x (y\<lparr>t_delay := d\<rparr>)" "same_task x (y\<lparr>ti_need_resched := r\<rparr>)"
    "same_task x (y\<lparr>ti_preempt_count := p\<rparr>)" unfolding same_task_def by blast+
qed

lemma same_task_fields:
  assumes "same_task x y"
  shows "t_stat y = t_stat x" "t_pend_stat y = t_pend_stat x" "t_prio y = t_prio x" "t_msg y = t_msg x"
    "t_by y = t_by x" "t_bitx y = t_bitx x" "t_bity y = t_bity x" "t_wait_event y = t_wait_event x"
    "t_on_event_list y = t_on_event_list x" "t_pid y = t_pid x" "t_affinity y = t_affinity x"
    "t_lock_event y = t_lock_event x" "t_flags y = t_flags x"
  using assms by (auto simp: same_task_def)

lemma set_task_ready_tasks:
  assumes "set_task_ready cpu t k = Some k'"
  shows "same_task (tasks k x) (tasks k' x)" "events k' = events k" "event_list k' = event_list k"
    "os_task_table k' = os_task_table k" "NR_CPUS k' = NR_CPUS k" "current_tasks k' = current_tasks k"
  using assms
  by (auto simp: set_task_ready_def smp_function_call_def smp_set_task_ready_def Let_def preempt_disable_def
      preempt_enable_def set_need_resched_def cancel_delay_def NR_CPUS_def split: if_splits)

lemma set_task_ready_rdy:
  assumes "set_task_ready cpu t k = Some k'" "task_ok k t" "task_is_realtime (tasks k t)" "ptbl_ok (os_rdy k)"
  shows "ptbl_ok (os_rdy k')" "ptbl_prios (os_rdy k') = insert (t_prio (tasks k t)) (ptbl_prios (os_rdy k))"
proof -
  have "\<not> task_is_idle (tasks k t)"
    using assms(3) by (simp add: task_is_idle_def task_is_realtime_def prio_defs)
  then have "os_rdy k' = ptbl_add (t_prio (tasks k t)) (os_rdy k)"
    using assms(1,3) task_ok_set(1) [OF assms(2,3)]
    by (auto simp: set_task_ready_def Let_def set_need_resched_def cancel_delay_def)
  then show "ptbl_ok (os_rdy k')" "ptbl_prios (os_rdy k') = insert (t_prio (tasks k t)) (ptbl_prios (os_rdy k))"
    using ptbl_add_law [OF assms(4) realtime_less [OF assms(3)]] by simp_all
qed

text \<open>The state after the task \<open>w\<close> has been woken with the message and the status given.\<close>

definition woken :: "nat \<Rightarrow> nat \<Rightarrow> u16 \<Rightarrow> nat \<Rightarrow> kernel \<Rightarrow> kernel \<Rightarrow> bool" where
  "woken w msg msk pend_stat k k' \<longleftrightarrow> t_pend_stat (tasks k' w) = pend_stat \<and> t_msg (tasks k' w) = msg \<and>
     t_stat (tasks k' w) = t_stat (tasks k w) AND NOT msk \<and> t_wait_event (tasks k' w) = 0 \<and>
     (task_is_realtime (tasks k w) \<longrightarrow> t_prio (tasks k w) \<in> ptbl_prios (os_rdy k'))"

lemma event_task_ready_woken:
  assumes run: "event_task_ready cpu t msg msk ps k = Some k'" and t: "task_ok k t" and ok: "ptbl_ok (os_rdy k)"
  shows "woken t msg msk ps k k'" "ev_waiters e k' = ev_waiters e k" "events k' = events k" "ptbl_ok (os_rdy k')"
proof -
  let ?k = "upd_task t (\<lambda>x. x\<lparr>t_pend_stat := ps, t_msg := msg, t_stat := t_stat x AND NOT msk,
    t_wait_event := 0\<rparr>) k"
  have r: "set_task_ready cpu t ?k = Some k'" using run by (simp add: event_task_ready_def)
  note s = set_task_ready_tasks [OF r]
  show ev: "events k' = events k" using s(2) by simp
  show "ev_waiters e k' = ev_waiters e k" using s(2,4) by (simp add: ev_waiters_def rt_waiters_def)
  have "t_prio (tasks k t) \<in> ptbl_prios (os_rdy k')" if "task_is_realtime (tasks k t)"
    using set_task_ready_rdy(2) [OF r] t ok that by (simp add: task_ok_def Let_def task_is_realtime_def)
  then show "woken t msg msk ps k k'"
    using same_task_fields [OF s(1) [of t]] by (simp add: woken_def)
  show "ptbl_ok (os_rdy k')"
  proof (cases "task_is_realtime (tasks k t)")
    case True
    then show ?thesis
      using set_task_ready_rdy(1) [OF r] t ok by (simp add: task_ok_def Let_def task_is_realtime_def)
  next
    case False
    then have "os_rdy k' = os_rdy k"
      using r by (auto simp: set_task_ready_def smp_function_call_def smp_set_task_ready_def Let_def preempt_disable_def
          preempt_enable_def set_need_resched_def cancel_delay_def task_is_realtime_def split: if_splits)
    then show ?thesis using ok by simp
  qed
qed

lemma event_task_ready_same:
  assumes "event_task_ready cpu t msg msk ps k = Some k'"
  shows "t_prio (tasks k' x) = t_prio (tasks k x)" "t_by (tasks k' x) = t_by (tasks k x)"
    "t_bitx (tasks k' x) = t_bitx (tasks k x)" "t_bity (tasks k' x) = t_bity (tasks k x)"
    "t_on_event_list (tasks k' x) = t_on_event_list (tasks k x)" "t_pid (tasks k' x) = t_pid (tasks k x)"
    "os_task_table k' = os_task_table k"
  using same_task_fields [OF set_task_ready_tasks(1) [OF assms [unfolded event_task_ready_def], of x]]
    set_task_ready_tasks(4) [OF assms [unfolded event_task_ready_def]]
  by (auto split: if_splits)

lemma event_highest_task_ready_correct:
  assumes "event_ok e k" "ptbl_ok (os_rdy k)" "\<forall>t\<in>set (ev_waiters e k). can_ready cpu t k"
  shows "\<exists>t k'. event_highest_task_ready cpu e msg msk ps k = Some (t, k') \<and>
    (case dropWhile (\<lambda>t. \<not> task_is_pending (tasks k t)) (ev_waiters e k) of
       [] \<Rightarrow> t = 0 \<and> ev_waiters e k' = []
     | w # ws \<Rightarrow> t = w \<and> w \<noteq> 0 \<and> ev_waiters e k' = ws \<and> woken w msg msk ps k k') \<and>
    same_preempt k k' \<and> same_event e k k' \<and> event_ok e k' \<and> ptbl_ok (os_rdy k')"
  using assms
proof (induction "ev_waiters e k" arbitrary: k)
  case Nil
  then show ?case
    using event_get_waiter_hd [of e k]
    by (subst event_highest_task_ready.simps)
      (simp add: same_event_refl same_preempt_def flip: Nil.hyps(1))
next
  case (Cons t ts)
  obtain r k1 where rm: "event_task_remove t e k = (r, k1)" by fastforce
  note h = event_task_remove_hd [OF Cons.prems(1) Cons.hyps(2) [symmetric] rm]
  have tk: "\<exists>b. tasks k1 x = (tasks k x)\<lparr>t_on_event_list := b\<rparr>" for x using h by blast
  have fields: "t_stat (tasks k1 x) = t_stat (tasks k x)" "t_prio (tasks k1 x) = t_prio (tasks k x)"
    "t_affinity (tasks k1 x) = t_affinity (tasks k x)" for x
    using tk [of x] by auto
  have pend: "task_is_pending (tasks k1 x) = task_is_pending (tasks k x)" for x
    by (simp add: task_is_pending_def fields)
  have rt: "task_is_realtime (tasks k1 x) = task_is_realtime (tasks k x)"
    "task_is_idle (tasks k1 x) = task_is_idle (tasks k x)" for x
    by (simp_all add: task_is_realtime_def task_is_idle_def fields)
  have k1: "k1 = k\<lparr>tasks := tasks k1, events := (events k)(e := events k1 e)\<rparr>" using h by blast
  have same: "os_rdy k1 = os_rdy k" "pcpus k1 = pcpus k" "smp_calls k1 = smp_calls k"
    by (subst k1, simp)+
  have ready: "can_ready cpu x k1 = can_ready cpu x k" for x
    using rt fields same by (simp add: can_ready_def NR_CPUS_def)
  have unf: "event_highest_task_ready cpu e msg msk ps k =
    (if r = 0 then (case event_task_ready cpu t msg msk ps k1 of None \<Rightarrow> None | Some k \<Rightarrow> Some (t, k))
     else event_highest_task_ready cpu e msg msk ps k1)"
    using event_get_waiter_hd [OF Cons.prems(1)] h rm
    by (subst event_highest_task_ready.simps) (simp flip: Cons.hyps(2))
  have k1': "ts = ev_waiters e k1" "event_ok e k1" "ptbl_ok (os_rdy k1)"
    using h Cons.prems(2) same by simp_all
  show ?case
  proof (cases "task_is_pending (tasks k t)")
    case True
    let ?f = "\<lambda>x::task. x\<lparr>t_pend_stat := ps, t_msg := msg, t_stat := t_stat x AND NOT msk, t_wait_event := 0\<rparr>"
    have "can_ready cpu t k" using Cons.prems(3) Cons.hyps(2) by (metis list.set_intros(1))
    then have "can_ready cpu t (upd_task t ?f k1)"
      using ready [of t] by (simp add: can_ready_def task_is_idle_def task_is_realtime_def)
    then obtain k2 where k2: "event_task_ready cpu t msg msk ps k1 = Some k2"
      unfolding event_task_ready_def by (blast dest: set_task_ready_total)
    have ok1: "task_ok k1 t" "ptbl_ok (os_rdy k1)" using Cons.prems(2) same h by simp_all
    note w = event_task_ready_woken(1) [OF k2 ok1] event_task_ready_woken(2) [where e = e, OF k2 ok1]
    have "woken t msg msk ps k k2" using w(1) fields rt by (simp add: woken_def)
    moreover have "same_preempt k k2"
      using h set_task_ready_preempt [OF \<open>can_ready cpu t (upd_task t ?f k1)\<close>, of k2] k2
      by (auto simp: event_task_ready_def same_preempt_def)
    moreover have ev: "events k2 = events k1" using event_task_ready_woken(3) [OF k2 ok1] .
    then have "same_event e k k2" using h by (simp add: same_event_def)
    moreover have "event_ok e k2"
      by (rule event_ok_cong(1) [OF k1'(2)]) (use ev event_task_ready_same [OF k2] in auto)
    moreover have "ptbl_ok (os_rdy k2)" using event_task_ready_woken(4) [OF k2 ok1] .
    ultimately show ?thesis using True h unf k2 w(2) by (simp flip: Cons.hyps(2))
  next
    case False
    have "\<forall>x\<in>set (ev_waiters e k1). can_ready cpu x k1"
      using Cons.prems(3) h ready Cons.hyps(2) by (metis list.set_intros(2))
    from Cons.hyps(1) [OF k1' this] obtain x k2 where ih: "event_highest_task_ready cpu e msg msk ps k1 = Some (x, k2)"
      "case dropWhile (\<lambda>t. \<not> task_is_pending (tasks k1 t)) (ev_waiters e k1) of
         [] \<Rightarrow> x = 0 \<and> ev_waiters e k2 = []
       | w # ws \<Rightarrow> x = w \<and> w \<noteq> 0 \<and> ev_waiters e k2 = ws \<and> woken w msg msk ps k1 k2"
      "same_preempt k1 k2" "same_event e k1 k2" "event_ok e k2" "ptbl_ok (os_rdy k2)"
      by blast
    have "same_preempt k k2" "same_event e k k2"
      using h ih(3,4) same_preempt_trans same_event_trans by blast+
    moreover have "woken w msg msk ps k1 k2 = woken w msg msk ps k k2" for w
      using fields rt by (simp add: woken_def)
    ultimately show ?thesis
      using ih False h pend unf
      by (simp flip: Cons.hyps(2) cong: list.case_cong)
  qed
qed

section \<open>Waking all waiters\<close>

text \<open>
  The loop of the broadcasts (\<^verbatim>\<open>sem_pend_abort\<close>, \<^verbatim>\<open>mbox_post_opt\<close>,
  \<^verbatim>\<open>queue_post_opt\<close>): the highest waiter is woken as long as there is one. The number
  counts the calls that found a task, or all calls.
\<close>

partial_function (option) event_wake_all ::
  "bool \<Rightarrow> nat \<Rightarrow> nat \<Rightarrow> nat \<Rightarrow> u16 \<Rightarrow> nat \<Rightarrow> nat \<Rightarrow> kernel \<Rightarrow> (nat \<times> kernel) option" where
  "event_wake_all every cpu e msg msk pend_stat n k =
    (if \<not> event_has_waiter e k then Some (n, k)
     else case event_highest_task_ready cpu e msg msk pend_stat k of
         None \<Rightarrow> None
       | Some (t, k) \<Rightarrow> event_wake_all every cpu e msg msk pend_stat (if every \<or> t \<noteq> 0 then n + 1 else n) k)"

text \<open>Tasks that the CPU makes ready without a call to another CPU.\<close>

definition local_ready :: "nat \<Rightarrow> nat \<Rightarrow> kernel \<Rightarrow> bool" where
  "local_ready cpu t k \<longleftrightarrow> task_is_idle (tasks k t) \<or> task_is_realtime (tasks k t) \<or>
     pcpu_id (pcpus k ! cpu) = t_affinity (tasks k t)"

lemma local_ready_can: "local_ready cpu t k \<Longrightarrow> can_ready cpu t k"
  by (auto simp: local_ready_def can_ready_def)

lemma pcpu_ids_update:
  "(c < length ps \<longrightarrow> pcpu_id x = pcpu_id (ps ! c)) \<Longrightarrow> map pcpu_id (ps[c := x]) = map pcpu_id ps"
  by (cases "c < length ps") (simp_all add: map_update list_update_same_conv list_update_beyond)

lemma pcpu_id_basic:
  "pcpu_id (ready_add t p) = pcpu_id p" "pcpu_id (ready_add_tail t p) = pcpu_id p"
  "pcpu_id (rdy_tasks_add d p) = pcpu_id p" "pcpu_id (pcpu_list_del t p) = pcpu_id p"
  "pcpu_id \<circ> pcpu_list_del t = pcpu_id"
  by (auto simp: ready_add_def ready_add_tail_def rdy_tasks_add_def pcpu_list_del_def)

lemma set_task_ready_ids:
  "set_task_ready cpu t k = Some k' \<Longrightarrow> map pcpu_id (pcpus k') = map pcpu_id (pcpus k)"
  by (auto simp: set_task_ready_def smp_function_call_def smp_set_task_ready_def Let_def preempt_disable_def
      preempt_enable_def set_need_resched_def cancel_delay_def pcpu_ids_update pcpu_id_basic split: if_splits)

lemma event_highest_keeps:
  assumes "event_highest_task_ready cpu e msg msk ps k = Some y"
  shows "map pcpu_id (pcpus (snd y)) = map pcpu_id (pcpus k) \<and>
    (\<forall>x. t_prio (tasks (snd y) x) = t_prio (tasks k x) \<and> t_affinity (tasks (snd y) x) = t_affinity (tasks k x))"
proof (rule event_highest_task_ready.raw_induct [OF _ assms], goal_cases)
  case (1 f cpu e msg msk ps k y)
  define t where "t = event_get_waiter e k"
  obtain r k1 where rm: "event_task_remove t e k = (r, k1)" by fastforce
  have k1: "pcpus k1 = pcpus k" "t_prio (tasks k1 x) = t_prio (tasks k x)"
    "t_affinity (tasks k1 x) = t_affinity (tasks k x)" for x
    using rm by (auto simp: event_task_remove_def Let_def split: if_splits)
  have "(if t = 0 then Some (0, k) else if r = 0
      then (case event_task_ready cpu t msg msk ps k1 of None \<Rightarrow> None | Some k \<Rightarrow> Some (t, k))
      else f cpu e msg msk ps k1) = Some y"
    using 1(2) unfolding Let_def t_def [symmetric] rm prod.case .
  then consider "t = 0" "y = (0, k)" | "r = 0" "event_task_ready cpu t msg msk ps k1 = Some (snd y)"
    | "f cpu e msg msk ps k1 = Some y"
    by (cases "t = 0"; cases "r = 0"; cases "event_task_ready cpu t msg msk ps k1"; simp; force)
  then show ?case
  proof cases
    case 2
    have "t_affinity (tasks (snd y) x) = t_affinity (tasks k1 x)" for x
      using same_task_fields(11) [OF set_task_ready_tasks(1) [OF 2(2) [unfolded event_task_ready_def], of x]]
      by (auto split: if_splits)
    then show ?thesis
      using set_task_ready_ids [OF 2(2) [unfolded event_task_ready_def]] event_task_ready_same(1) [OF 2(2)] k1
      by simp
  next
    case 3
    from 1(1) [OF this] show ?thesis using k1 by simp
  qed simp
qed

lemma event_wake_all_correct:
  assumes "event_ok e k" "ptbl_ok (os_rdy k)" "\<forall>t\<in>set (ev_waiters e k). local_ready cpu t k" "cpu < NR_CPUS k"
  shows "\<exists>m k'. event_wake_all every cpu e msg msk ps n k = Some (m, k') \<and> ev_waiters e k' = [] \<and> n \<le> m \<and>
    m \<le> n + length (ev_waiters e k) \<and> (every \<and> ev_waiters e k \<noteq> [] \<longrightarrow> n < m) \<and> same_preempt k k' \<and> same_event e k k' \<and> event_ok e k'"
  using assms
proof (induction "length (ev_waiters e k)" arbitrary: k n rule: less_induct)
  case less
  show ?case
  proof (cases "ev_waiters e k = []")
    case True
    then have "\<not> event_has_waiter e k" using event_has_waiter_iff [OF less.prems(1)] by simp
    then show ?thesis using True less.prems(1)
      by (subst event_wake_all.simps) (simp add: same_event_refl same_preempt_def)
  next
    case False
    then have hw: "event_has_waiter e k" using event_has_waiter_iff [OF less.prems(1)] by simp
    have "\<forall>t\<in>set (ev_waiters e k). can_ready cpu t k" using less.prems(3) local_ready_can by blast
    from event_highest_task_ready_correct [OF less.prems(1,2) this, of msg msk ps]
    obtain t k1 where hi: "event_highest_task_ready cpu e msg msk ps k = Some (t, k1)"
      and cs: "case dropWhile (\<lambda>t. \<not> task_is_pending (tasks k t)) (ev_waiters e k) of
         [] \<Rightarrow> t = 0 \<and> ev_waiters e k1 = []
       | w # ws \<Rightarrow> t = w \<and> w \<noteq> 0 \<and> ev_waiters e k1 = ws \<and> woken w msg msk ps k k1"
      and k1: "same_preempt k k1" "same_event e k k1" "event_ok e k1" "ptbl_ok (os_rdy k1)" by blast
    obtain pre where pre: "ev_waiters e k = pre @ dropWhile (\<lambda>t. \<not> task_is_pending (tasks k t)) (ev_waiters e k)"
      by (metis takeWhile_dropWhile_id)
    define ds where "ds = dropWhile (\<lambda>t. \<not> task_is_pending (tasks k t)) (ev_waiters e k)"
    have ds: "case ds of [] \<Rightarrow> t = 0 \<and> ev_waiters e k1 = [] | w # ws \<Rightarrow> t = w \<and> w \<noteq> 0 \<and> ev_waiters e k1 = ws"
      using cs unfolding ds_def [symmetric] by (cases ds) auto
    have pre': "ev_waiters e k = pre @ ds" using pre by (simp add: ds_def)
    have len: "length (ev_waiters e k1) < length (ev_waiters e k)" "set (ev_waiters e k1) \<subseteq> set (ev_waiters e k)"
      using ds pre' False by (cases ds; auto)+
    note kp = event_highest_keeps [OF hi, unfolded snd_conv]
    have n: "NR_CPUS k1 = NR_CPUS k" using kp by (metis NR_CPUS_def length_map)
    have "pcpu_id (pcpus k1 ! cpu) = pcpu_id (pcpus k ! cpu)"
      using kp less.prems(4) n unfolding NR_CPUS_def by (metis nth_map)
    then have "local_ready cpu x k1 = local_ready cpu x k" for x
      using kp by (simp add: local_ready_def task_is_idle_def task_is_realtime_def)
    then have loc: "\<forall>x\<in>set (ev_waiters e k1). local_ready cpu x k1" using less.prems(3) len(2) by blast
    let ?n = "if every \<or> t \<noteq> 0 then n + 1 else n"
    from less.hyps [OF len(1) k1(3,4) loc, of ?n] less.prems(4) n
    obtain m k2 where ih: "event_wake_all every cpu e msg msk ps ?n k1 = Some (m, k2)"
      "ev_waiters e k2 = []" "?n \<le> m" "m \<le> ?n + length (ev_waiters e k1)"
      "same_preempt k1 k2" "same_event e k1 k2" "event_ok e k2" by auto
    have "event_wake_all every cpu e msg msk ps n k = Some (m, k2)"
      using hw hi ih(1) by (subst event_wake_all.simps) simp
    moreover have "same_preempt k k2" "same_event e k k2"
      using k1 ih(5,6) same_preempt_trans same_event_trans by blast+
    ultimately show ?thesis using ih len(1) by (auto split: if_splits)
  qed
qed

section \<open>Joining the waiters\<close>

lemma task_ok_prio: "task_ok k t \<Longrightarrow> task_is_realtime (tasks k t) \<Longrightarrow> os_task_table k ! t_prio (tasks k t) = t"
  by (simp add: task_ok_def Let_def)

lemma set_ev_waiters:
  "event_ok e k \<Longrightarrow> set (ev_waiters e k) =
    nth (os_task_table k) ` ptbl_prios (e_wait (events k e)) \<union> set (e_wait_list (events k e))"
  using pt.finite_prios [of "e_wait (events k e)"] by (simp add: ev_waiters_def rt_waiters_def event_ok_def)

lemma event_task_wait_ok:
  assumes ok: "event_ok e k" and t: "task_ok k t" "t \<noteq> 0" "\<not> task_is_idle (tasks k t)"
    and new: "t \<notin> set (e_wait_list (events k e))"
  shows "event_ok e (event_task_wait t e k)"
    "set (ev_waiters e (event_task_wait t e k)) = insert t (set (ev_waiters e k))"
proof -
  let ?k = "event_task_wait t e k" and ?p = "t_prio (tasks k t)"
  have "event_ok e ?k \<and> set (ev_waiters e ?k) = insert t (set (ev_waiters e k))"
  proof (cases "task_is_realtime (tasks k t)")
    case True
    have k: "?k = upd_event e (\<lambda>ev. ev\<lparr>e_wait := ptbl_add ?p (e_wait ev)\<rparr>) k"
      using True task_ok_set(1) [OF t(1) True] by (simp add: event_task_wait_def Let_def)
    have pok: "ptbl_ok (e_wait (events k e))" using ok by (simp add: event_ok_def)
    note add = ptbl_add_law [OF pok realtime_less [OF True]]
    have ok': "event_ok e ?k"
      using ok add t task_ok_prio [OF t(1) True] by (auto simp: event_ok_def k task_ok_def Let_def)
    show ?thesis
      using ok' set_ev_waiters [OF ok'] set_ev_waiters [OF ok] add task_ok_prio [OF t(1) True]
      by (simp add: k)
  next
    case False
    have k: "?k = upd_task t (\<lambda>x. x\<lparr>t_on_event_list := True\<rparr>)
        (upd_event e (\<lambda>ev. ev\<lparr>e_wait_list := e_wait_list ev @ [t]\<rparr>) k)"
      using False by (simp add: event_task_wait_def Let_def)
    have "t_prio (tasks k t) = OS_PRIO_PCPU" using percpu_prio [OF t(1,3) False] .
    then have ok': "event_ok e ?k"
      using ok t new by (auto simp: event_ok_def k task_ok_def task_is_realtime_def Let_def)
    show ?thesis using ok' set_ev_waiters [OF ok'] set_ev_waiters [OF ok] by (auto simp: k)
  qed
  then show "event_ok e ?k" "set (ev_waiters e ?k) = insert t (set (ev_waiters e k))" by simp_all
qed

text \<open>A task that puts itself to sleep, on its own CPU.\<close>

lemma set_task_sleep_own:
  assumes "task_is_realtime (tasks k t) \<or> t_affinity (tasks k t) = pcpu_id (pcpus k ! cpu)"
  shows "\<exists>k'. set_task_sleep cpu t k = Some k' \<and> tasks k' = tasks k \<and> events k' = events k \<and>
    os_task_table k' = os_task_table k"
  using assms by (auto simp: set_task_sleep_def Let_def)

lemma set_task_sleep_rdy:
  assumes "set_task_sleep cpu t k = Some k'" "task_ok k t" "task_is_realtime (tasks k t)" "ptbl_ok (os_rdy k)"
  shows "ptbl_prios (os_rdy k') = ptbl_prios (os_rdy k) - {t_prio (tasks k t)}"
proof -
  have "\<not> task_is_idle (tasks k t)"
    using assms(3) by (simp add: task_is_idle_def task_is_realtime_def prio_defs)
  then have "k' = k\<lparr>os_rdy := ptbl_del (t_prio (tasks k t)) (os_rdy k)\<rparr>"
    using assms(1,3) task_ok_set(2) [OF assms(2,3)] by (simp add: set_task_sleep_def Let_def)
  then show ?thesis using ptbl_del_law [OF assms(4) realtime_less [OF assms(3)]] by simp
qed

section \<open>Properties\<close>

text \<open>
  A kernel with one CPU that runs the per-CPU task 5, and an event 3 with the per-CPU task 7
  on its list, pending.
\<close>

definition one_waiter :: kernel where
  "one_waiter =
    (let k = pcpus_init 1 (zero_kernel 1);
         k = upd_task 5 (\<lambda>x. x\<lparr>t_prio := OS_PRIO_PCPU, t_pid := 65\<rparr>) k;
         k = upd_task 7 (\<lambda>x. x\<lparr>t_prio := OS_PRIO_PCPU, t_pid := 66, t_on_event_list := True, t_stat := TASK_STAT_MUTEX\<rparr>) k;
         k = upd_event 3 (\<lambda>e. e\<lparr>e_wait_list := [7]\<rparr>) k
     in k\<lparr>current_tasks := [5], next_tasks := [5]\<rparr>)"

lemma one_waiter_ok:
  "event_ok 3 one_waiter" "ptbl_ok (os_rdy one_waiter)" "ev_waiters 3 one_waiter = [7]"
  "can_ready 0 7 one_waiter" "task_is_pending (tasks one_waiter 7)" "get_current_task 0 one_waiter = 5"
  "preempt_allowed 0 one_waiter" "\<not> e_locked (events one_waiter 3)"
  "e_wait_list (events one_waiter 3) = [7]" "e_data (events one_waiter 3) = 0"
  using ptbl_zero_ok
  by (auto simp: one_waiter_def Let_def event_ok_def ev_waiters_def rt_waiters_def zero_kernel_def zero_event_def
      pcpus_init_def can_ready_def task_is_pending_def stat_defs get_current_task_def preempt_allowed_def
      zero_task_def pcpu_init_def)

text \<open>
  C4. \<^verbatim>\<open>event_highest_task_ready\<close> terminates and wakes the right task: waiters are
  tried in the order of their priority, then of the wait list; those that are no longer pending are
  dropped; the first that is pending leaves the event, gets the message and the
  reason, loses the state bits of the wait and becomes ready; the others stay.
\<close>

theorem event_wakes_first_pending:
  assumes "event_ok e k" "ptbl_ok (os_rdy k)" "\<forall>t\<in>set (ev_waiters e k). can_ready cpu t k"
  shows "\<exists>t k'. event_highest_task_ready cpu e msg msk ps k = Some (t, k') \<and>
    (case dropWhile (\<lambda>t. \<not> task_is_pending (tasks k t)) (ev_waiters e k) of
       [] \<Rightarrow> t = 0 \<and> ev_waiters e k' = []
     | w # ws \<Rightarrow> t = w \<and> w \<noteq> 0 \<and> ev_waiters e k' = ws \<and> woken w msg msk ps k k') \<and> event_ok e k'"
  using event_highest_task_ready_correct [OF assms, of msg msk ps] by blast

theorem event_wakes_first_pending_witness:
  "\<exists>t k'. event_highest_task_ready 0 3 9 TASK_STAT_MUTEX TASK_STAT_PEND_OK one_waiter = Some (t, k') \<and> t = 7 \<and>
    ev_waiters 3 k' = [] \<and> woken 7 9 TASK_STAT_MUTEX TASK_STAT_PEND_OK one_waiter k' \<and> event_ok 3 k'"
  using event_wakes_first_pending [of 3 one_waiter 0 9 TASK_STAT_MUTEX TASK_STAT_PEND_OK] one_waiter_ok by simp

end
