(* ===== verification/Mutex.thy ===== *)
theory Mutex
  imports Event
begin

text \<open>
  Mutexes, \<^verbatim>\<open>os/core/mutex.c\<close>. The owner of a mutex is the task in \<^verbatim>\<open>data\<close>.
  \<^verbatim>\<open>mutex_pend\<close> is split at the call of the scheduler, where other tasks run:
  \<open>mutex_pend_begin\<close> up to it, \<open>mutex_pend_finish\<close> after it.
\<close>

section \<open>Operations\<close>

definition OS_MUTEX_AVAILABLE :: nat where "OS_MUTEX_AVAILABLE = 0xffff"

text \<open>
  \<^verbatim>\<open>invalid_mutex\<close> joins its tests with \<open>&&\<close>: on NULL it reads
  \<^verbatim>\<open>mutex->type\<close>, a fault, and on any other pointer it is false.
\<close>

definition invalid_mutex :: "nat \<Rightarrow> kernel \<Rightarrow> bool option" where
  "invalid_mutex m k = (if m = 0 then None else Some False)"

definition mutex_create :: "nat \<Rightarrow> string \<Rightarrow> kernel \<Rightarrow> nat \<times> kernel" where
  "mutex_create mem name k =
    (let (m, k) = create_event mem OS_EVENT_TYPE_MUTEX 0 name k in
     if m = 0 then (0, k) else (m, upd_event m (\<lambda>e. e\<lparr>e_cnt := OS_MUTEX_AVAILABLE\<rparr>) k))"

definition mutex_init :: "nat \<Rightarrow> string \<Rightarrow> kernel \<Rightarrow> kernel" where
  "mutex_init m name k =
    upd_event m (\<lambda>e. e\<lparr>e_cnt := OS_MUTEX_AVAILABLE\<rparr>) (event_init m OS_EVENT_TYPE_MUTEX 0 name k)"

text \<open>\<open>u16_of_pid\<close>: the conversion to \<^verbatim>\<open>uint16_t\<close> when the pid is stored.\<close>

definition u16_of_pid :: "int \<Rightarrow> nat" where
  "u16_of_pid pid = nat (pid mod 65536)"

definition mutex_accept :: "nat \<Rightarrow> nat \<Rightarrow> kernel \<Rightarrow> (int \<times> kernel) option" where
  "mutex_accept cpu m k =
    (let t = get_current_task cpu k in
     case invalid_mutex m k of
       None \<Rightarrow> None
     | Some True \<Rightarrow> Some (- EPERM, k)
     | Some False \<Rightarrow>
         (case lock_event m k of
            None \<Rightarrow> None
          | Some k \<Rightarrow>
              if e_cnt (events k m) = OS_MUTEX_AVAILABLE then
                Some (0, unlock_event m (upd_event m (\<lambda>e. e\<lparr>e_owner := u16_of_pid (t_pid (tasks k t)),
                  e_data := t, e_cnt := t_prio (tasks k t)\<rparr>) k))
              else Some (- EBUSY, unlock_event m k)))"

definition mutex_del :: "(nat \<Rightarrow> bool) \<Rightarrow> u64 \<Rightarrow> u64 \<Rightarrow> u64 \<Rightarrow> nat \<Rightarrow> nat \<Rightarrow> int \<Rightarrow> kernel
    \<Rightarrow> (int \<times> kernel) option" where
  "mutex_del fg now1 now2 now3 cpu m opt k =
    (case invalid_mutex m k of
       None \<Rightarrow> None
     | Some True \<Rightarrow> Some (- EINVAL, k)
     | Some False \<Rightarrow>
         (case lock_event m k of
            None \<Rightarrow> None
          | Some k \<Rightarrow>
              let tasks_waiting = event_has_waiter m k in
              if opt = OS_DEL_NO_PEND then
                if tasks_waiting then Some (- EPERM, unlock_event m k)
                else Some (0, release_event m (unlock_event m k))
              else if opt = OS_DEL_ALWAYS then
                let t = e_data (events k m);
                    k = (if t \<noteq> 0 then upd_task t (\<lambda>x. x\<lparr>t_lock_event := 0\<rparr>) k else k)
                in (case event_del_always cpu m k of
                      None \<Rightarrow> None
                    | Some k \<Rightarrow>
                        let k = release_event m (unlock_event m k) in
                        if tasks_waiting
                        then map_option (\<lambda>k. (0, k)) (sched fg now1 now2 now3 cpu k)
                        else Some (0, k))
              else Some (- EINVAL, unlock_event m k)))"

text \<open>\<open>Some r\<close>: the call returns \<open>r\<close> at once; \<open>None\<close>: the task now waits.\<close>

definition mutex_pend_begin :: "nat \<Rightarrow> nat \<Rightarrow> nat \<Rightarrow> kernel \<Rightarrow> (int option \<times> kernel) option" where
  "mutex_pend_begin cpu m timeout k =
    (let t = get_current_task cpu k in
     if m = 0 then None
     else case lock_event m k of
         None \<Rightarrow> None
       | Some k \<Rightarrow>
           if e_cnt (events k m) = OS_MUTEX_AVAILABLE then
             let k = upd_event m (\<lambda>e. e\<lparr>e_owner := u16_of_pid (t_pid (tasks k t)), e_data := t,
                       e_cnt := u16_of_pid (t_pid (tasks k t))\<rparr>) k;
                 k = upd_task t (\<lambda>x. x\<lparr>t_lock_event := m\<rparr>) k
             in Some (Some 0, unlock_event m k)
           else
             let k = upd_task t (\<lambda>x. x\<lparr>t_stat := t_stat x OR TASK_STAT_MUTEX,
                       t_pend_stat := TASK_STAT_PEND_OK, t_delay := timeout, t_wait_event := m\<rparr>) k
             in (case set_task_sleep cpu t k of
                   None \<Rightarrow> None
                 | Some k \<Rightarrow> Some (None, unlock_event m (event_task_wait t m k))))"

definition mutex_pend_finish :: "nat \<Rightarrow> nat \<Rightarrow> kernel \<Rightarrow> (int \<times> kernel) option" where
  "mutex_pend_finish t m k =
    (let ps = t_pend_stat (tasks k t);
         r = (if ps = TASK_STAT_PEND_OK then Some (0, k)
              else if ps = TASK_STAT_PEND_ABORT then Some (- EABORT, k)
              else (case lock_event m k of
                      None \<Rightarrow> None
                    | Some k \<Rightarrow> Some (- ETIMEDOUT, unlock_event m (snd (event_task_remove t m k)))))
     in map_option (\<lambda>(ret, k).
          (ret, upd_task t (\<lambda>x. x\<lparr>t_pend_stat := TASK_STAT_PEND_OK, t_wait_event := 0\<rparr>) k)) r)"

definition mutex_post :: "(nat \<Rightarrow> bool) \<Rightarrow> u64 \<Rightarrow> u64 \<Rightarrow> u64 \<Rightarrow> nat \<Rightarrow> nat \<Rightarrow> kernel
    \<Rightarrow> (int \<times> kernel) option" where
  "mutex_post fg now1 now2 now3 cpu m k =
    (let t = get_current_task cpu k in
     case invalid_mutex m k of
       None \<Rightarrow> None
     | Some True \<Rightarrow> Some (- EPERM, k)
     | Some False \<Rightarrow>
         (case lock_event m k of
            None \<Rightarrow> None
          | Some k \<Rightarrow>
              if t \<noteq> e_data (events k m) then Some (- EINVAL, unlock_event m k)
              else
                let k = upd_task t (\<lambda>x. x\<lparr>t_lock_event := 0\<rparr>) k in
                (case event_highest_task_ready cpu m 0 TASK_STAT_MUTEX TASK_STAT_PEND_OK k of
                   None \<Rightarrow> None
                 | Some (w, k) \<Rightarrow>
                     if w \<noteq> 0 then
                       let pid = u16_of_pid (t_pid (tasks k w));
                           k = upd_event m (\<lambda>e. e\<lparr>e_cnt := pid, e_data := w, e_owner := pid\<rparr>) k
                       in map_option (\<lambda>k. (0, k))
                            (sched_task fg now1 now2 now3 cpu w (unlock_event m k))
                     else
                       Some (0, unlock_event m (upd_event m
                         (\<lambda>e. e\<lparr>e_cnt := OS_MUTEX_AVAILABLE, e_data := 0, e_owner := 0\<rparr>) k)))))"

section \<open>Ownership\<close>

text \<open>
  A mutex that is initialised and not locked by a running section: the count says available
  exactly if there is no owner.
\<close>

definition mutex_ok :: "nat \<Rightarrow> kernel \<Rightarrow> bool" where
  "mutex_ok m k \<longleftrightarrow> m \<noteq> 0 \<and> \<not> e_locked (events k m) \<and> event_ok m k \<and>
     (e_cnt (events k m) = OS_MUTEX_AVAILABLE \<longleftrightarrow> e_data (events k m) = 0)"

definition mutex_holder :: "nat \<Rightarrow> kernel \<Rightarrow> nat option" where
  "mutex_holder m k = (if e_data (events k m) = 0 then None else Some (e_data (events k m)))"

lemma u16_of_pid_less: "0 \<le> pid \<Longrightarrow> pid < 512 \<Longrightarrow> u16_of_pid pid \<noteq> OS_MUTEX_AVAILABLE"
  by (simp add: u16_of_pid_def OS_MUTEX_AVAILABLE_def)

lemma unlock_lock:
  assumes "lock_event m k = Some k1"
  shows "unlock_event m k1 = k" "events k1 m = (events k m)\<lparr>e_locked := True\<rparr>" "\<not> e_locked (events k m)"
    "tasks k1 = tasks k"
proof -
  have free: "\<not> e_locked (events k m)" and k1: "k1 = upd_event m (\<lambda>x. x\<lparr>e_locked := True\<rparr>) k"
    using assms by (auto simp: lock_event_def split: if_splits)
  have "(events k m)\<lparr>e_locked := False\<rparr> = events k m" using free by simp
  then have "(events k)(m := (events k m)\<lparr>e_locked := False\<rparr>) = events k" by (simp add: fun_eq_iff)
  then show "unlock_event m k1 = k" by (simp add: k1 unlock_event_def upd_event_def)
  show "events k1 m = (events k m)\<lparr>e_locked := True\<rparr>" "\<not> e_locked (events k m)" "tasks k1 = tasks k"
    using free by (simp_all add: k1)
qed

lemma lock_event_free: "\<not> e_locked (events k m) \<Longrightarrow>
    lock_event m k = Some (upd_event m (\<lambda>x. x\<lparr>e_locked := True\<rparr>) k)"
  by (simp add: lock_event_def)

text \<open>The mutex 3 held by \<open>h\<close> (free for 0), in the kernel with one waiter.\<close>

definition mutex_held_by :: "nat \<Rightarrow> kernel" where
  "mutex_held_by h = upd_event 3 (\<lambda>e. e\<lparr>e_cnt := if h = 0 then OS_MUTEX_AVAILABLE else 65, e_data := h\<rparr>) one_waiter"

lemma mutex_held_by_ok:
  "mutex_ok 3 (mutex_held_by h)" "mutex_holder 3 (mutex_held_by h) = (if h = 0 then None else Some h)"
  "ev_waiters 3 (mutex_held_by h) = [7]" "get_current_task 0 (mutex_held_by h) = 5"
  "tasks (mutex_held_by h) = tasks one_waiter" "pcpus (mutex_held_by h) = pcpus one_waiter"
  "os_rdy (mutex_held_by h) = os_rdy one_waiter" "can_ready 0 7 (mutex_held_by h)"
  "preempt_allowed 0 (mutex_held_by h)" "e_wait_list (events (mutex_held_by h) 3) = [7]"
  using one_waiter_ok
  by (auto simp: mutex_ok_def mutex_held_by_def event_ok_def ev_waiters_def rt_waiters_def mutex_holder_def
      OS_MUTEX_AVAILABLE_def task_ok_def can_ready_def preempt_allowed_def get_current_task_def)

text \<open>
  \<^verbatim>\<open>mutex_accept\<close> never blocks: a free mutex goes to the caller, one that is held
  stays with its owner and the call returns \<open>-EBUSY\<close> with nothing changed.
\<close>

theorem mutex_accept_correct:
  assumes ok: "mutex_ok m k" and t: "t = get_current_task cpu k" "t_prio (tasks k t) < 256" "t \<noteq> 0"
  shows "\<exists>r k'. mutex_accept cpu m k = Some (r, k') \<and>
    (case mutex_holder m k of
       None \<Rightarrow> r = 0 \<and> mutex_holder m k' = Some t \<and> mutex_ok m k'
     | Some h \<Rightarrow> r = - EBUSY \<and> k' = k)"
proof -
  have m: "m \<noteq> 0" "\<not> e_locked (events k m)" using ok by (simp_all add: mutex_ok_def)
  let ?k1 = "upd_event m (\<lambda>x. x\<lparr>e_locked := True\<rparr>) k"
  have lk: "lock_event m k = Some ?k1" using m(2) by (rule lock_event_free)
  show ?thesis
  proof (cases "e_data (events k m) = 0")
    case True
    let ?k2 = "unlock_event m (upd_event m (\<lambda>e. e\<lparr>e_owner := u16_of_pid (t_pid (tasks ?k1 t)),
      e_data := t, e_cnt := t_prio (tasks ?k1 t)\<rparr>) ?k1)"
    have "e_cnt (events k m) = OS_MUTEX_AVAILABLE" using ok True by (simp add: mutex_ok_def)
    then have "mutex_accept cpu m k = Some (0, ?k2)"
      using m(1) lk t(1) by (simp add: mutex_accept_def invalid_mutex_def Let_def)
    moreover have "event_ok m ?k2"
      using ok by (simp add: mutex_ok_def event_ok_def unlock_event_def task_ok_def)
    ultimately show ?thesis
      using True t m by (simp add: mutex_holder_def mutex_ok_def unlock_event_def OS_MUTEX_AVAILABLE_def)
  next
    case False
    then have "e_cnt (events k m) \<noteq> OS_MUTEX_AVAILABLE" using ok by (simp add: mutex_ok_def)
    then have "mutex_accept cpu m k = Some (- EBUSY, k)"
      using m(1) lk unlock_lock(1) [OF lk] by (simp add: mutex_accept_def invalid_mutex_def Let_def)
    then show ?thesis using False by (simp add: mutex_holder_def)
  qed
qed

theorem mutex_accept_correct_witness:
  "\<exists>r k'. mutex_accept 0 3 (mutex_held_by 0) = Some (r, k') \<and> r = 0 \<and> mutex_holder 3 k' = Some 5 \<and> mutex_ok 3 k'"
proof -
  have "t_prio (tasks (mutex_held_by 0) 5) < 256"
    by (simp add: mutex_held_by_ok one_waiter_def Let_def prio_defs)
  from mutex_accept_correct [OF mutex_held_by_ok(1) _ this, of 0] show ?thesis
    by (simp add: mutex_held_by_ok)
qed



text \<open>
  Only the owner can release: \<^verbatim>\<open>mutex_post\<close> by any other task returns
  \<open>-EINVAL\<close> and changes nothing.
\<close>

theorem mutex_post_foreign:
  assumes "mutex_ok m k" "mutex_holder m k \<noteq> Some (get_current_task cpu k)" "get_current_task cpu k \<noteq> 0"
  shows "mutex_post fg now1 now2 now3 cpu m k = Some (- EINVAL, k)"
proof -
  have m: "m \<noteq> 0" "\<not> e_locked (events k m)" using assms by (simp_all add: mutex_ok_def)
  note lk = lock_event_free [OF m(2)]
  have "get_current_task cpu k \<noteq> e_data (events k m)"
    using assms(2,3) by (auto simp: mutex_holder_def split: if_splits)
  then show ?thesis
    using m(1) lk unlock_lock(1) [OF lk] by (simp add: mutex_post_def invalid_mutex_def Let_def)
qed

theorem mutex_post_foreign_witness:
  "mutex_post (\<lambda>_. False) 0 0 0 0 3 (mutex_held_by 9) = Some (- EINVAL, mutex_held_by 9)"
  by (rule mutex_post_foreign) (simp_all add: mutex_held_by_ok)

lemma sched_task_total:
  assumes "preempt_allowed cpu k"
  shows "\<exists>k'. sched_task fg now1 now2 now3 cpu t k = Some k' \<and> events k' = events k \<and>
    os_task_table k' = os_task_table k"
proof -
  obtain k' where "sched fg now1 now2 now3 cpu k = Some k'"
    using assms by (simp add: sched_def Let_def)
  then show ?thesis using sched_static by (auto simp: sched_task_def Let_def pcpu_resched_def)
qed



end
