(* ===== verification/Sem.thy ===== *)
theory Sem
  imports Mutex
begin

text \<open>
  Semaphores, \<^verbatim>\<open>os/core/sem.c\<close>. Unlike \<^verbatim>\<open>mutex_pend\<close>, \<^verbatim>\<open>sem_pend\<close>
  does not take the task off the ready queues before it calls the scheduler; it is split there
  too. \<^verbatim>\<open>invalid_sem\<close> compares the type with that of a mailbox, so every operation
  refuses the semaphores that \<^verbatim>\<open>sem_create\<close> makes (\<open>sem_ops_reject\<close>); the other
  facts are about the operations behind that test.
\<close>

section \<open>Operations\<close>

definition invalid_sem :: "nat \<Rightarrow> kernel \<Rightarrow> bool" where
  "invalid_sem sem k \<longleftrightarrow> sem = 0 \<or> e_type (events k sem) \<noteq> OS_EVENT_TYPE_MBOX"

text \<open>The count is 16 bits wide.\<close>

definition sem_create :: "nat \<Rightarrow> nat \<Rightarrow> string \<Rightarrow> kernel \<Rightarrow> nat \<times> kernel" where
  "sem_create mem cnt name k =
    (let (sem, k) = create_event mem OS_EVENT_TYPE_SEM 0 name k in
     if sem \<noteq> 0 then (sem, upd_event sem (\<lambda>e. e\<lparr>e_cnt := cnt mod 65536\<rparr>) k) else (sem, k))"

definition sem_init :: "nat \<Rightarrow> nat \<Rightarrow> string \<Rightarrow> kernel \<Rightarrow> kernel" where
  "sem_init sem cnt name k =
    upd_event sem (\<lambda>e. e\<lparr>e_cnt := cnt mod 65536\<rparr>) (event_init sem OS_EVENT_TYPE_SEM 0 name k)"

text \<open>\<^verbatim>\<open>sem_accept\<close> returns the count before the call as \<^verbatim>\<open>uint32_t\<close>.\<close>

definition sem_accept :: "nat \<Rightarrow> kernel \<Rightarrow> (u32 \<times> kernel) option" where
  "sem_accept sem k =
    (if invalid_sem sem k then Some (word_of_int (- EINVAL), k)
     else case lock_event sem k of
         None \<Rightarrow> None
       | Some k \<Rightarrow>
           let cnt = e_cnt (events k sem);
               k = (if cnt > 0 then upd_event sem (\<lambda>e. e\<lparr>e_cnt := e_cnt e - 1\<rparr>) k else k)
           in Some (word_of_nat cnt, unlock_event sem k))"

text \<open>The error paths of \<^verbatim>\<open>sem_del\<close> leave the lock held.\<close>

definition sem_del :: "(nat \<Rightarrow> bool) \<Rightarrow> u64 \<Rightarrow> u64 \<Rightarrow> u64 \<Rightarrow> nat \<Rightarrow> nat \<Rightarrow> int \<Rightarrow> kernel
    \<Rightarrow> (int \<times> kernel) option" where
  "sem_del fg now1 now2 now3 cpu sem opt k =
    (if invalid_sem sem k then Some (- EINVAL, k)
     else case lock_event sem k of
         None \<Rightarrow> None
       | Some k \<Rightarrow>
           let tasks_waiting = event_has_waiter sem k in
           if opt = OS_DEL_NO_PEND then
             if \<not> tasks_waiting then Some (0, release_event sem (unlock_event sem k))
             else Some (- EPERM, k)
           else if opt = OS_DEL_ALWAYS then
             (case event_del_always cpu sem k of
                None \<Rightarrow> None
              | Some k \<Rightarrow>
                  let k = release_event sem (unlock_event sem k) in
                  if tasks_waiting then map_option (\<lambda>k. (0, k)) (sched fg now1 now2 now3 cpu k)
                  else Some (0, k))
           else Some (- EINVAL, k))"

text \<open>\<open>Some r\<close>: the call returns at once; \<open>None\<close>: it goes on to the scheduler.\<close>

definition sem_pend_begin :: "nat \<Rightarrow> nat \<Rightarrow> nat \<Rightarrow> kernel \<Rightarrow> (int option \<times> kernel) option" where
  "sem_pend_begin cpu sem timeout k =
    (let t = get_current_task cpu k in
     if invalid_sem sem k then Some (Some (- EINVAL), k)
     else case lock_event sem k of
         None \<Rightarrow> None
       | Some k \<Rightarrow>
           if e_cnt (events k sem) > 0 then
             Some (Some 0, unlock_event sem (upd_event sem (\<lambda>e. e\<lparr>e_cnt := e_cnt e - 1\<rparr>) k))
           else
             let k = upd_task t (\<lambda>x. x\<lparr>t_stat := t_stat x OR TASK_STAT_SEM,
                       t_pend_stat := TASK_STAT_PEND_OK, t_delay := timeout, t_wait_event := sem\<rparr>) k
             in Some (None, unlock_event sem (event_task_wait t sem k)))"

definition sem_pend_finish :: "nat \<Rightarrow> nat \<Rightarrow> kernel \<Rightarrow> (int \<times> kernel) option" where
  "sem_pend_finish t sem k =
    (case lock_event sem k of
       None \<Rightarrow> None
     | Some k \<Rightarrow>
         let ps = t_pend_stat (tasks k t);
             (ret, k) = (if ps = TASK_STAT_PEND_OK then (0, k)
                         else if ps = TASK_STAT_PEND_ABORT then (- EABORT, k)
                         else (- ETIMEDOUT, snd (event_task_remove t sem k)));
             k = upd_task t (\<lambda>x. x\<lparr>t_pend_stat := TASK_STAT_PEND_OK, t_wait_event := 0\<rparr>) k
         in Some (ret, unlock_event sem k))"

definition sem_pend_abort :: "(nat \<Rightarrow> bool) \<Rightarrow> u64 \<Rightarrow> u64 \<Rightarrow> u64 \<Rightarrow> nat \<Rightarrow> nat \<Rightarrow> int \<Rightarrow> kernel
    \<Rightarrow> (int \<times> kernel) option" where
  "sem_pend_abort fg now1 now2 now3 cpu sem opt k =
    (if invalid_sem sem k then Some (- EINVAL, k)
     else case lock_event sem k of
         None \<Rightarrow> None
       | Some k \<Rightarrow>
           if event_has_waiter sem k then
             (case (if opt = OS_PEND_OPT_BROADCAST
                    then event_wake_all False cpu sem 0 TASK_STAT_SEM TASK_STAT_PEND_ABORT 0 k
                    else map_option (\<lambda>(t, k). (if t \<noteq> 0 then 1 else 0, k))
                      (event_highest_task_ready cpu sem 0 TASK_STAT_SEM TASK_STAT_PEND_OK k)) of
                None \<Rightarrow> None
              | Some (n, k) \<Rightarrow>
                  map_option (\<lambda>k. (int n, k)) (sched fg now1 now2 now3 cpu (unlock_event sem k)))
           else Some (0, unlock_event sem k))"

definition sem_post :: "(nat \<Rightarrow> bool) \<Rightarrow> u64 \<Rightarrow> u64 \<Rightarrow> u64 \<Rightarrow> nat \<Rightarrow> nat \<Rightarrow> kernel
    \<Rightarrow> (int \<times> kernel) option" where
  "sem_post fg now1 now2 now3 cpu sem k =
    (if invalid_sem sem k then Some (- EINVAL, k)
     else case lock_event sem k of
         None \<Rightarrow> None
       | Some k \<Rightarrow>
           let count_up = (\<lambda>k. Some (0, unlock_event sem
                 (if e_cnt (events k sem) < 65535
                  then upd_event sem (\<lambda>e. e\<lparr>e_cnt := e_cnt e + 1\<rparr>) k else k)))
           in if event_has_waiter sem k then
                (case event_highest_task_ready cpu sem 0 TASK_STAT_SEM TASK_STAT_PEND_OK k of
                   None \<Rightarrow> None
                 | Some (t, k) \<Rightarrow>
                     if t \<noteq> 0 then map_option (\<lambda>k. (0, k)) (sched fg now1 now2 now3 cpu (unlock_event sem k))
                     else count_up k)
              else count_up k)"

section \<open>Counting\<close>

text \<open>A semaphore that passes the type test, unlocked, with a 16-bit count.\<close>

definition sem_ok :: "nat \<Rightarrow> kernel \<Rightarrow> bool" where
  "sem_ok sem k \<longleftrightarrow> \<not> invalid_sem sem k \<and> \<not> e_locked (events k sem) \<and> event_ok sem k \<and>
     e_cnt (events k sem) < 65536"

lemma sched_total: "preempt_allowed cpu k \<Longrightarrow> \<exists>k'. sched fg now1 now2 now3 cpu k = Some k'"
  by (simp add: sched_def Let_def)

lemma preempt_allowed_same:
  "same_preempt k k' \<Longrightarrow> preempt_allowed cpu (unlock_event e k') = preempt_allowed cpu k"
  by (simp add: preempt_allowed_def same_preempt_def unlock_event_def get_current_task_def)

lemma same_event_fields:
  assumes "same_event e k k'"
  shows "e_cnt (events k' e) = e_cnt (events k e)" "e_data (events k' e) = e_data (events k e)"
    "e_type (events k' e) = e_type (events k e)" "e_locked (events k' e) = e_locked (events k e)"
  using assms by (auto simp: same_event_def)

text \<open>What the locked section sees: the same waiters.\<close>

lemma locked_event:
  assumes "event_ok e k"
  shows "event_ok e (upd_event e (\<lambda>x. x\<lparr>e_locked := b\<rparr>) k)"
    "ev_waiters e (upd_event e (\<lambda>x. x\<lparr>e_locked := b\<rparr>) k) = ev_waiters e k"
  by (rule event_ok_cong [OF assms]; simp)+

text \<open>Waking one waiter inside the locked section, by the waiters before the call.\<close>

abbreviation locked :: "nat \<Rightarrow> kernel \<Rightarrow> kernel" where
  "locked e k \<equiv> upd_event e (\<lambda>x. x\<lparr>e_locked := True\<rparr>) k"

abbreviation pending_waiters :: "nat \<Rightarrow> kernel \<Rightarrow> nat list" where
  "pending_waiters e k \<equiv> dropWhile (\<lambda>t. \<not> task_is_pending (tasks k t)) (ev_waiters e k)"

lemma locked_wake:
  assumes ok: "event_ok e k" "ptbl_ok (os_rdy k)" "\<forall>w\<in>set (ev_waiters e k). can_ready cpu w k"
  shows "\<exists>w k2. event_highest_task_ready cpu e msg msk ps (locked e k) = Some (w, k2) \<and>
    (case pending_waiters e k of
       [] \<Rightarrow> w = 0 \<and> ev_waiters e k2 = []
     | x # xs \<Rightarrow> w = x \<and> x \<noteq> 0 \<and> ev_waiters e k2 = xs \<and> woken x msg msk ps k k2) \<and>
    (preempt_allowed cpu k \<longrightarrow> preempt_allowed cpu (unlock_event e k2)) \<and> event_ok e k2 \<and>
    same_event e (locked e k) k2"
proof -
  let ?k1 = "locked e k"
  note k1 = locked_event [OF ok(1), of True]
  have "can_ready cpu x ?k1 = can_ready cpu x k" for x by (simp add: can_ready_def)
  then have "\<forall>x\<in>set (ev_waiters e ?k1). can_ready cpu x ?k1" using ok(3) k1(2) by simp
  from event_highest_task_ready_correct [OF k1(1) _ this, of msg msk ps] ok(2)
  obtain w k2 where hi: "event_highest_task_ready cpu e msg msk ps ?k1 = Some (w, k2)"
    and cs: "case dropWhile (\<lambda>t. \<not> task_is_pending (tasks ?k1 t)) (ev_waiters e ?k1) of
         [] \<Rightarrow> w = 0 \<and> ev_waiters e k2 = []
       | x # xs \<Rightarrow> w = x \<and> x \<noteq> 0 \<and> ev_waiters e k2 = xs \<and> woken x msg msk ps ?k1 k2"
    and k2: "same_preempt ?k1 k2" "same_event e ?k1 k2" "event_ok e k2" by auto
  have "preempt_allowed cpu ?k1 = preempt_allowed cpu k" by (simp add: preempt_allowed_def get_current_task_def)
  moreover have wk: "woken x msg msk ps ?k1 k2 = woken x msg msk ps k k2" for x by (simp add: woken_def)
  ultimately show ?thesis
    using hi cs k2 preempt_allowed_same [OF k2(1), of cpu e] unfolding k1(2) upd_event_frame wk by simp
qed

lemma has_waiter_locked:
  "event_ok e k \<Longrightarrow> event_has_waiter e (locked e k) \<longleftrightarrow> ev_waiters e k \<noteq> []"
  using event_has_waiter_iff [OF locked_event(1), of e k True] locked_event(2) [of e k True] by simp

lemma sem_post_correct:
  assumes ok: "sem_ok sem k" and rdy: "ptbl_ok (os_rdy k)" "\<forall>w\<in>set (ev_waiters sem k). can_ready cpu w k"
    and pre: "preempt_allowed cpu k"
  shows "\<exists>k'. sem_post fg now1 now2 now3 cpu sem k = Some (0, k') \<and>
    \<not> e_locked (events k' sem) \<and> e_type (events k' sem) = e_type (events k sem) \<and>
    (case pending_waiters sem k of
       [] \<Rightarrow> e_cnt (events k' sem) = min 65535 (e_cnt (events k sem) + 1) \<and> ev_waiters sem k' = []
     | w # ws \<Rightarrow> e_cnt (events k' sem) = e_cnt (events k sem) \<and> ev_waiters sem k' = ws)"
proof -
  have s: "\<not> invalid_sem sem k" "\<not> e_locked (events k sem)" "event_ok sem k" "e_cnt (events k sem) < 65536"
    using ok by (simp_all add: sem_ok_def)
  note lk = lock_event_free [OF s(2)] and hw = has_waiter_locked [OF s(3)]
  let ?up = "\<lambda>k. unlock_event sem (if e_cnt (events k sem) < 65535
      then upd_event sem (\<lambda>e. e\<lparr>e_cnt := e_cnt e + 1\<rparr>) k else k)"
  have up: "ev_waiters sem (?up k) = ev_waiters sem k" for k
    by (simp add: ev_waiters_def rt_waiters_def unlock_event_def)
  from locked_wake [OF s(3) rdy, of 0 TASK_STAT_SEM TASK_STAT_PEND_OK]
  obtain w k2 where hi: "event_highest_task_ready cpu sem 0 TASK_STAT_SEM TASK_STAT_PEND_OK (locked sem k) = Some (w, k2)"
    and cs: "case pending_waiters sem k of [] \<Rightarrow> w = 0 \<and> ev_waiters sem k2 = []
        | x # xs \<Rightarrow> w = x \<and> x \<noteq> 0 \<and> ev_waiters sem k2 = xs \<and> woken x 0 TASK_STAT_SEM TASK_STAT_PEND_OK k k2"
    and k2: "preempt_allowed cpu (unlock_event sem k2)" "same_event sem (locked sem k) k2" using pre by blast
  have cnt: "e_cnt (events k2 sem) = e_cnt (events k sem)" "e_type (events k2 sem) = e_type (events k sem)"
    using same_event_fields [OF k2(2)] by simp_all
  show ?thesis
  proof (cases "pending_waiters sem k")
    case Nil
    define k3 where "k3 = (if ev_waiters sem k = [] then locked sem k else k2)"
    have k3: "e_cnt (events k3 sem) = e_cnt (events k sem)" "e_type (events k3 sem) = e_type (events k sem)"
      "ev_waiters sem k3 = []"
      using cnt cs locked_event(2) [OF s(3), of True] unfolding Nil by (simp_all add: k3_def)
    have "w = 0" using cs unfolding Nil by simp
    then have "sem_post fg now1 now2 now3 cpu sem k = Some (0, ?up k3)"
      using s lk hw hi by (simp add: sem_post_def Let_def k3_def)
    moreover have "e_cnt (events (?up k3) sem) = min 65535 (e_cnt (events k sem) + 1)"
      "\<not> e_locked (events (?up k3) sem)" "e_type (events (?up k3) sem) = e_type (events k sem)"
      using k3 s(4) by (auto simp: unlock_event_def)
    ultimately show ?thesis using up [of k3] k3 unfolding Nil by simp
  next
    case (Cons x xs)
    then have w: "w = x" "x \<noteq> 0" "ev_waiters sem k2 = xs" "ev_waiters sem k \<noteq> []" using cs by auto
    obtain k3 where k3: "sched fg now1 now2 now3 cpu (unlock_event sem k2) = Some k3"
      using sched_total [OF k2(1)] by blast
    have "sem_post fg now1 now2 now3 cpu sem k = Some (0, k3)"
      using s lk hw hi w k3 by (simp add: sem_post_def Let_def)
    moreover have "e_cnt (events k3 sem) = e_cnt (events k sem)" "ev_waiters sem k3 = xs"
      "\<not> e_locked (events k3 sem)" "e_type (events k3 sem) = e_type (events k sem)"
      using sched_static [OF k3] cnt w(3) by (simp_all add: unlock_event_def ev_waiters_def rt_waiters_def)
    ultimately show ?thesis unfolding Cons by simp
  qed
qed

section \<open>Properties\<close>

text \<open>
  C36. Every operation of \<^verbatim>\<open>sem.c\<close> refuses the semaphores that \<^verbatim>\<open>sem_create\<close> makes: the
  validity test compares the type with that of a mailbox, so posting, pending, accepting and
  deleting return \<open>-EINVAL\<close> and change nothing.
\<close>

theorem sem_ops_reject:
  assumes "mem \<noteq> 0" "sem_create mem cnt name k0 = (sem, k)"
  shows "sem_post fg now1 now2 now3 cpu sem k = Some (- EINVAL, k) \<and>
    sem_pend_begin cpu sem timeout k = Some (Some (- EINVAL), k) \<and>
    sem_accept sem k = Some (word_of_int (- EINVAL), k) \<and>
    sem_del fg now1 now2 now3 cpu sem opt k = Some (- EINVAL, k) \<and>
    sem_pend_abort fg now1 now2 now3 cpu sem opt k = Some (- EINVAL, k)"
proof -
  have "invalid_sem sem k"
    using assms by (auto simp: sem_create_def create_event_def event_init_def invalid_sem_def event_defs Let_def)
  then show ?thesis
    by (simp add: sem_post_def sem_pend_begin_def sem_accept_def sem_del_def sem_pend_abort_def Let_def)
qed

theorem sem_ops_reject_witness:
  "sem_post (\<lambda>_. False) 0 0 0 0 3 (snd (sem_create 3 1 ''s'' (zero_kernel 1)))
    = Some (- EINVAL, snd (sem_create 3 1 ''s'' (zero_kernel 1)))"
proof -
  have "fst (sem_create 3 1 ''s'' (zero_kernel 1)) = 3" by (simp add: sem_create_def create_event_def Let_def)
  then have "sem_create 3 1 ''s'' (zero_kernel 1) = (3, snd (sem_create 3 1 ''s'' (zero_kernel 1)))"
    by (metis prod.collapse)
  from sem_ops_reject [OF _ this] show ?thesis by simp
qed


text \<open>The event 3 of the kernel with one waiter, as a semaphore that passes the test, without its waiter.\<close>

definition free_sem :: kernel where
  "free_sem = upd_event 3 (\<lambda>e. e\<lparr>e_type := OS_EVENT_TYPE_MBOX, e_wait_list := [], e_cnt := 4\<rparr>) one_waiter"

lemma free_sem_ok:
  "sem_ok 3 free_sem" "ev_waiters 3 free_sem = []" "ptbl_ok (os_rdy free_sem)" "preempt_allowed 0 free_sem"
  "e_cnt (events free_sem 3) = 4"
  using one_waiter_ok
  by (auto simp: free_sem_def sem_ok_def invalid_sem_def event_ok_def ev_waiters_def rt_waiters_def task_ok_def
      preempt_allowed_def get_current_task_def)


end
