(* ===== verification/Mbox.thy ===== *)
theory Mbox
  imports Sem
begin

text \<open>
  Mailboxes, \<^verbatim>\<open>os/core/mbox.c\<close>: an event whose \<^verbatim>\<open>data\<close> is one message, NULL for an
  empty box. Messages are addresses.
\<close>

section \<open>Operations\<close>

text \<open>\<^verbatim>\<open>invalid_mbox\<close> joins its tests with \<open>&&\<close>: a fault on NULL, otherwise false.\<close>

definition invalid_mbox :: "nat \<Rightarrow> kernel \<Rightarrow> bool option" where
  "invalid_mbox m k = (if m = 0 then None else Some False)"

definition mbox_create :: "nat \<Rightarrow> nat \<Rightarrow> string \<Rightarrow> kernel \<Rightarrow> nat \<times> kernel" where
  "mbox_create mem pmsg name k = create_event mem OS_EVENT_TYPE_MBOX pmsg name k"

definition mbox_init :: "nat \<Rightarrow> nat \<Rightarrow> string \<Rightarrow> kernel \<Rightarrow> kernel" where
  "mbox_init m pmsg name k = event_init m OS_EVENT_TYPE_MBOX pmsg name k"

definition mbox_accept :: "nat \<Rightarrow> kernel \<Rightarrow> (nat \<times> kernel) option" where
  "mbox_accept m k =
    (case invalid_mbox m k of
       None \<Rightarrow> None
     | Some True \<Rightarrow> Some (0, k)
     | Some False \<Rightarrow>
         (case lock_event m k of
            None \<Rightarrow> None
          | Some k \<Rightarrow> Some (e_data (events k m), unlock_event m k)))"

definition mbox_del :: "(nat \<Rightarrow> bool) \<Rightarrow> u64 \<Rightarrow> u64 \<Rightarrow> u64 \<Rightarrow> nat \<Rightarrow> nat \<Rightarrow> int \<Rightarrow> kernel
    \<Rightarrow> (int \<times> kernel) option" where
  "mbox_del fg now1 now2 now3 cpu m opt k =
    (case invalid_mbox m k of
       None \<Rightarrow> None
     | Some True \<Rightarrow> Some (- EINVAL, k)
     | Some False \<Rightarrow>
         (case lock_event m k of
            None \<Rightarrow> None
          | Some k \<Rightarrow>
              let tasks_waiting = fst (e_wait (events k m)) \<noteq> 0 \<or> e_wait_list (events k m) \<noteq> [] in
              if opt = OS_DEL_NO_PEND then
                if \<not> tasks_waiting then Some (0, release_event m (unlock_event m k))
                else Some (- EPERM, unlock_event m k)
              else if opt = OS_DEL_ALWAYS then
                (case event_del_always cpu m k of
                   None \<Rightarrow> None
                 | Some k \<Rightarrow>
                     let k = release_event m (unlock_event m k) in
                     if tasks_waiting then map_option (\<lambda>k. (0, k)) (sched fg now1 now2 now3 cpu k)
                     else Some (0, k))
              else Some (- EINVAL, unlock_event m k)))"

text \<open>\<open>Some msg\<close>: the call returns at once; \<open>None\<close>: it goes on to the scheduler.\<close>

definition mbox_pend_begin :: "nat \<Rightarrow> nat \<Rightarrow> nat \<Rightarrow> kernel \<Rightarrow> (nat option \<times> kernel) option" where
  "mbox_pend_begin cpu m timeout k =
    (case invalid_mbox m k of
       None \<Rightarrow> None
     | Some True \<Rightarrow> Some (Some 0, k)
     | Some False \<Rightarrow>
         (case lock_event m k of
            None \<Rightarrow> None
          | Some k \<Rightarrow>
              if e_data (events k m) \<noteq> 0 then
                Some (Some (e_data (events k m)), unlock_event m (upd_event m (\<lambda>e. e\<lparr>e_data := 0\<rparr>) k))
              else
                let t = get_current_task cpu k;
                    k = upd_task t (\<lambda>x. x\<lparr>t_stat := t_stat x OR TASK_STAT_MBOX,
                          t_pend_stat := TASK_STAT_PEND_OK, t_delay := timeout, t_wait_event := m\<rparr>) k
                in Some (None, unlock_event m (event_task_wait t m k))))"

definition mbox_pend_finish :: "nat \<Rightarrow> nat \<Rightarrow> kernel \<Rightarrow> (nat \<times> kernel) option" where
  "mbox_pend_finish t m k =
    (case lock_event m k of
       None \<Rightarrow> None
     | Some k \<Rightarrow>
         let ps = t_pend_stat (tasks k t);
             (pmsg, k) = (if ps = TASK_STAT_PEND_OK then (t_msg (tasks k t), k)
                          else if ps = TASK_STAT_PEND_ABORT then (0, k)
                          else (0, snd (event_task_remove t m k)));
             k = upd_task t (\<lambda>x. x\<lparr>t_pend_stat := TASK_STAT_PEND_OK, t_wait_event := 0\<rparr>) k
         in Some (pmsg, unlock_event m k))"

text \<open>The last lines of both posts: the message goes into the box if it is empty.\<close>

definition mbox_store :: "nat \<Rightarrow> nat \<Rightarrow> kernel \<Rightarrow> int \<times> kernel" where
  "mbox_store m pmsg k =
    (if e_data (events k m) \<noteq> 0 then (- ENOSPC, unlock_event m k)
     else (0, unlock_event m (upd_event m (\<lambda>e. e\<lparr>e_data := pmsg\<rparr>) k)))"

text \<open>When there are waiters but none is woken, \<^verbatim>\<open>mbox_post\<close> returns with the lock held.\<close>

definition mbox_post :: "(nat \<Rightarrow> bool) \<Rightarrow> u64 \<Rightarrow> u64 \<Rightarrow> u64 \<Rightarrow> nat \<Rightarrow> nat \<Rightarrow> nat \<Rightarrow> kernel
    \<Rightarrow> (int \<times> kernel) option" where
  "mbox_post fg now1 now2 now3 cpu m pmsg k =
    (case invalid_mbox m k of
       None \<Rightarrow> None
     | Some bad \<Rightarrow>
         if bad \<or> pmsg = 0 then Some (- EINVAL, k)
         else case lock_event m k of
             None \<Rightarrow> None
           | Some k \<Rightarrow>
               if event_has_waiter m k then
                 (case event_highest_task_ready cpu m pmsg TASK_STAT_MBOX TASK_STAT_PEND_OK k of
                    None \<Rightarrow> None
                  | Some (t, k) \<Rightarrow>
                      if t \<noteq> 0
                      then map_option (\<lambda>k. (0, k)) (sched fg now1 now2 now3 cpu (unlock_event m k))
                      else Some (0, k))
               else Some (mbox_store m pmsg k))"

definition mbox_post_opt :: "(nat \<Rightarrow> bool) \<Rightarrow> u64 \<Rightarrow> u64 \<Rightarrow> u64 \<Rightarrow> nat \<Rightarrow> nat \<Rightarrow> nat \<Rightarrow> u32 \<Rightarrow> kernel
    \<Rightarrow> (int \<times> kernel) option" where
  "mbox_post_opt fg now1 now2 now3 cpu m pmsg opt k =
    (case invalid_mbox m k of
       None \<Rightarrow> None
     | Some bad \<Rightarrow>
         if bad \<or> pmsg = 0 then Some (- EINVAL, k)
         else case lock_event m k of
             None \<Rightarrow> None
           | Some k \<Rightarrow>
               if event_has_waiter m k then
                 (case (if opt AND OS_POST_OPT_BROADCAST \<noteq> 0
                        then map_option snd (event_wake_all True cpu m pmsg TASK_STAT_MBOX TASK_STAT_PEND_OK 0 k)
                        else map_option snd (event_highest_task_ready cpu m pmsg TASK_STAT_MBOX TASK_STAT_PEND_OK k)) of
                    None \<Rightarrow> None
                  | Some k \<Rightarrow> map_option (\<lambda>k. (0, k)) (sched fg now1 now2 now3 cpu (unlock_event m k)))
               else Some (mbox_store m pmsg k))"

section \<open>Messages\<close>

definition mbox_ok :: "nat \<Rightarrow> kernel \<Rightarrow> bool" where
  "mbox_ok m k \<longleftrightarrow> m \<noteq> 0 \<and> \<not> e_locked (events k m) \<and> event_ok m k"

definition mbox_msg :: "nat \<Rightarrow> kernel \<Rightarrow> nat option" where
  "mbox_msg m k = (if e_data (events k m) = 0 then None else Some (e_data (events k m)))"

lemma mbox_store_ok:
  assumes "event_ok m k"
  shows "event_ok m (snd (mbox_store m pmsg k))" "\<not> e_locked (events (snd (mbox_store m pmsg k)) m)"
  using assms by (auto simp: mbox_store_def unlock_event_def event_ok_def task_ok_def)

section \<open>Properties\<close>

text \<open>
  C32. A mailbox holds one message: with nobody waiting, a post fills an empty box, and the next
  pend returns exactly that message and empties the box; a post on a full box returns
  \<open>-ENOSPC\<close> and changes nothing.
\<close>

theorem mbox_post_then_pend:
  assumes ok: "mbox_ok m k" "ev_waiters m k = []" and msg: "pmsg \<noteq> 0"
  shows "case mbox_msg m k of
     None \<Rightarrow> \<exists>k' k''. mbox_post fg now1 now2 now3 cpu m pmsg k = Some (0, k') \<and> mbox_msg m k' = Some pmsg \<and>
       mbox_pend_begin cpu m timeout k' = Some (Some pmsg, k'') \<and> mbox_msg m k'' = None \<and> mbox_ok m k''
   | Some old \<Rightarrow> mbox_post fg now1 now2 now3 cpu m pmsg k = Some (- ENOSPC, k)"
proof -
  have m: "m \<noteq> 0" "\<not> e_locked (events k m)" "event_ok m k" using ok by (simp_all add: mbox_ok_def)
  note lk = lock_event_free [OF m(2)]
  have post: "mbox_post fg now1 now2 now3 cpu m pmsg k = Some (mbox_store m pmsg (locked m k))"
    using m msg lk has_waiter_locked [OF m(3)] ok(2) by (simp add: mbox_post_def invalid_mbox_def)
  show ?thesis
  proof (cases "e_data (events k m) = 0")
    case True
    let ?k1 = "unlock_event m (upd_event m (\<lambda>e. e\<lparr>e_data := pmsg\<rparr>) (locked m k))"
    let ?k2 = "unlock_event m (upd_event m (\<lambda>e. e\<lparr>e_data := 0\<rparr>) (locked m ?k1))"
    have "mbox_post fg now1 now2 now3 cpu m pmsg k = Some (0, ?k1)" using post True by (simp add: mbox_store_def)
    moreover have "mbox_pend_begin cpu m timeout ?k1 = Some (Some pmsg, ?k2)"
      using m(1) msg by (simp add: mbox_pend_begin_def invalid_mbox_def lock_event_def unlock_event_def)
    moreover have "mbox_ok m ?k2"
      using m by (auto simp: mbox_ok_def unlock_event_def event_ok_def task_ok_def)
    ultimately show ?thesis using True msg by (simp add: mbox_msg_def unlock_event_def)
  next
    case False
    then show ?thesis using post unlock_lock(1) [OF lk] by (simp add: mbox_store_def mbox_msg_def)
  qed
qed

definition empty_mbox :: kernel where
  "empty_mbox = upd_event 3 (\<lambda>e. e\<lparr>e_wait_list := []\<rparr>) one_waiter"

lemma empty_mbox_ok: "mbox_ok 3 empty_mbox" "ev_waiters 3 empty_mbox = []" "mbox_msg 3 empty_mbox = None"
  using one_waiter_ok
  by (auto simp: empty_mbox_def mbox_ok_def event_ok_def ev_waiters_def rt_waiters_def task_ok_def mbox_msg_def)

theorem mbox_post_then_pend_witness:
  "\<exists>k' k''. mbox_post (\<lambda>_. False) 0 0 0 0 3 77 empty_mbox = Some (0, k') \<and> mbox_msg 3 k' = Some 77 \<and>
     mbox_pend_begin 0 3 10 k' = Some (Some 77, k'') \<and> mbox_msg 3 k'' = None \<and> mbox_ok 3 k''"
  using mbox_post_then_pend [OF empty_mbox_ok(1,2), of 77 "\<lambda>_. False" 0 0 0 0 10] empty_mbox_ok(3) by simp

text \<open>
  C37. When every waiter of a mailbox has timed out, \<^verbatim>\<open>mbox_post\<close> drops the waiters,
  loses the message and returns 0 with the lock still held: the next operation on the
  mailbox spins forever.
\<close>

theorem mbox_post_leaks_lock:
  assumes ok: "mbox_ok m k" "ptbl_ok (os_rdy k)" "\<forall>w\<in>set (ev_waiters m k). can_ready cpu w k"
    and gone: "ev_waiters m k \<noteq> []" "\<forall>w\<in>set (ev_waiters m k). \<not> task_is_pending (tasks k w)" and msg: "pmsg \<noteq> 0"
  shows "\<exists>k'. mbox_post fg now1 now2 now3 cpu m pmsg k = Some (0, k') \<and>
    mbox_msg m k' = mbox_msg m k \<and> mbox_accept m k' = None"
proof -
  have m: "m \<noteq> 0" "\<not> e_locked (events k m)" "event_ok m k" using ok by (simp_all add: mbox_ok_def)
  have nil: "pending_waiters m k = []" using gone(2) by (simp add: dropWhile_eq_Nil_conv)
  from locked_wake [OF m(3) ok(2,3), of pmsg TASK_STAT_MBOX TASK_STAT_PEND_OK, unfolded nil list.case]
  obtain k2 where k2: "event_highest_task_ready cpu m pmsg TASK_STAT_MBOX TASK_STAT_PEND_OK (locked m k) = Some (0, k2)"
    "same_event m (locked m k) k2" by auto
  have "mbox_post fg now1 now2 now3 cpu m pmsg k = Some (0, k2)"
    using m msg lock_event_free [OF m(2)] has_waiter_locked [OF m(3)] gone(1) k2(1)
    by (simp add: mbox_post_def invalid_mbox_def)
  moreover have "e_locked (events k2 m)" "mbox_msg m k2 = mbox_msg m k"
    using same_event_fields [OF k2(2)] by (simp_all add: mbox_msg_def)
  ultimately show ?thesis using m(1) by (simp add: mbox_accept_def invalid_mbox_def lock_event_def)
qed

theorem mbox_post_leaks_lock_witness:
  "let k = upd_task 7 (\<lambda>x. x\<lparr>t_stat := TASK_STAT_RDY\<rparr>) one_waiter in
   \<exists>k'. mbox_post (\<lambda>_. False) 0 0 0 0 3 77 k = Some (0, k') \<and> mbox_msg 3 k' = mbox_msg 3 k \<and> mbox_accept 3 k' = None"
proof -
  let ?k = "upd_task 7 (\<lambda>x. x\<lparr>t_stat := TASK_STAT_RDY\<rparr>) one_waiter"
  have w: "ev_waiters 3 ?k = [7]" "event_ok 3 ?k"
    using event_ok_cong [OF one_waiter_ok(1), of ?k] one_waiter_ok(3) by simp_all
  have "can_ready 0 7 ?k"
    using one_waiter_ok(4) by (simp add: can_ready_def task_is_idle_def task_is_realtime_def)
  moreover have "\<not> task_is_pending (tasks ?k 7)" by (simp add: task_is_pending_def TASK_STAT_RDY_def)
  ultimately show ?thesis
    using mbox_post_leaks_lock [of 3 ?k 0 77 "\<lambda>_. False" 0 0 0] w one_waiter_ok by (simp add: mbox_ok_def Let_def)
qed

text \<open>
  C33. A broadcast terminates: \<^verbatim>\<open>mbox_post_opt\<close> with \<^verbatim>\<open>OS_POST_OPT_BROADCAST\<close> on waiters of
  the own CPU or of the real-time class returns 0, leaves no waiter behind, and releases the lock.
\<close>

theorem mbox_broadcast:
  assumes ok: "mbox_ok m k" "ptbl_ok (os_rdy k)" "\<forall>w\<in>set (ev_waiters m k). local_ready cpu w k"
    and cpu: "cpu < NR_CPUS k" "preempt_allowed cpu k" and w: "ev_waiters m k \<noteq> []" and msg: "pmsg \<noteq> 0"
  shows "\<exists>k'. mbox_post_opt fg now1 now2 now3 cpu m pmsg OS_POST_OPT_BROADCAST k = Some (0, k') \<and>
    ev_waiters m k' = [] \<and> mbox_msg m k' = mbox_msg m k \<and> \<not> e_locked (events k' m)"
proof -
  have m: "m \<noteq> 0" "\<not> e_locked (events k m)" "event_ok m k" using ok by (simp_all add: mbox_ok_def)
  note k1 = locked_event [OF m(3), of True]
  have "local_ready cpu x (locked m k) = local_ready cpu x k" for x by (simp add: local_ready_def)
  then have "\<forall>x\<in>set (ev_waiters m (locked m k)). local_ready cpu x (locked m k)" using ok(3) k1(2) by simp
  from event_wake_all_correct [OF k1(1) _ this, of True pmsg TASK_STAT_MBOX TASK_STAT_PEND_OK 0] ok(2) cpu(1)
  obtain n k2 where k2: "event_wake_all True cpu m pmsg TASK_STAT_MBOX TASK_STAT_PEND_OK 0 (locked m k) = Some (n, k2)"
    "ev_waiters m k2 = []" "same_preempt (locked m k) k2" "same_event m (locked m k) k2" by auto
  have "preempt_allowed cpu (unlock_event m k2)"
    using preempt_allowed_same [OF k2(3), of cpu m] cpu(2) by (simp add: preempt_allowed_def get_current_task_def)
  then obtain k3 where k3: "sched fg now1 now2 now3 cpu (unlock_event m k2) = Some k3" using sched_total by blast
  have "mbox_post_opt fg now1 now2 now3 cpu m pmsg OS_POST_OPT_BROADCAST k = Some (0, k3)"
    using m msg lock_event_free [OF m(2)] has_waiter_locked [OF m(3)] w k2(1) k3
    by (simp add: mbox_post_opt_def invalid_mbox_def OS_POST_OPT_BROADCAST_def)
  moreover have "ev_waiters m k3 = []" "mbox_msg m k3 = mbox_msg m k" "\<not> e_locked (events k3 m)"
    using sched_static [OF k3] k2(2) same_event_fields [OF k2(4)]
    by (simp_all add: unlock_event_def ev_waiters_def rt_waiters_def mbox_msg_def)
  ultimately show ?thesis by blast
qed

theorem mbox_broadcast_witness:
  "\<exists>k'. mbox_post_opt (\<lambda>_. False) 0 0 0 0 3 77 OS_POST_OPT_BROADCAST one_waiter = Some (0, k') \<and>
    ev_waiters 3 k' = [] \<and> mbox_msg 3 k' = mbox_msg 3 one_waiter \<and> \<not> e_locked (events k' 3)"
proof -
  have "local_ready 0 7 one_waiter" "0 < NR_CPUS one_waiter"
    by (simp_all add: local_ready_def one_waiter_def Let_def zero_kernel_def zero_task_def pcpus_init_def pcpu_init_def NR_CPUS_def)
  then show ?thesis
    using mbox_broadcast [of 3 one_waiter 0 77 "\<lambda>_. False" 0 0 0] one_waiter_ok by (simp add: mbox_ok_def)
qed

end
