(* ===== verification/Queue.thy ===== *)
theory Queue
  imports Mbox
begin

text \<open>
  Message queues, \<^verbatim>\<open>os/core/queue.c\<close>: a ring buffer of messages behind an event. The ring
  implements a bounded double-ended queue, the locale \<open>deque\<close>; the operations on the event
  work on a store of rings, indexed by the address in \<^verbatim>\<open>data\<close>.
\<close>

section \<open>The ring\<close>

text \<open>
  \<^verbatim>\<open>q_start\<close> is the index 0 of the buffer and \<^verbatim>\<open>q_end\<close> its length; \<open>q_in\<close> and
  \<open>q_out\<close> are the indices of the next free and the next full cell.
\<close>

record queue =
  q_buf :: "nat list"
  q_in :: nat
  q_out :: nat
  q_size :: int
  q_cnt :: int

definition queue_pop :: "queue \<Rightarrow> nat \<times> queue" where
  "queue_pop q =
    (let pmsg = q_buf q ! q_out q;
         q = q\<lparr>q_out := q_out q + 1\<rparr>;
         q = q\<lparr>q_cnt := q_cnt q - 1\<rparr>
     in (pmsg, if q_out q = length (q_buf q) then q\<lparr>q_out := 0\<rparr> else q))"

definition queue_push :: "queue \<Rightarrow> nat \<Rightarrow> queue" where
  "queue_push q pmsg =
    (let q = q\<lparr>q_buf := (q_buf q)[q_in q := pmsg], q_in := q_in q + 1\<rparr>;
         q = (if q_in q = length (q_buf q) then q\<lparr>q_in := 0\<rparr> else q)
     in q\<lparr>q_cnt := q_cnt q + 1\<rparr>)"

definition queue_push_front :: "queue \<Rightarrow> nat \<Rightarrow> queue" where
  "queue_push_front q pmsg =
    (let q = (if q_out q = 0 then q\<lparr>q_out := length (q_buf q)\<rparr> else q);
         q = q\<lparr>q_out := q_out q - 1\<rparr>
     in q\<lparr>q_buf := (q_buf q)[q_out q := pmsg], q_cnt := q_cnt q + 1\<rparr>)"

text \<open>The body of \<^verbatim>\<open>queue_flush\<close>.\<close>

definition queue_reset :: "queue \<Rightarrow> queue" where
  "queue_reset q = q\<lparr>q_in := 0, q_out := 0, q_cnt := 0\<rparr>"

section \<open>The interface\<close>

fun popn :: "('q \<Rightarrow> 'a \<times> 'q) \<Rightarrow> nat \<Rightarrow> 'q \<Rightarrow> 'a list" where
  "popn pop 0 q = []"
| "popn pop (Suc n) q = (case pop q of (x, q) \<Rightarrow> x # popn pop n q)"

locale deque =
  fixes ok :: "'q \<Rightarrow> bool"
    and abs :: "'q \<Rightarrow> 'a list"
    and cap :: "'q \<Rightarrow> nat"
    and push :: "'q \<Rightarrow> 'a \<Rightarrow> 'q"
    and push_front :: "'q \<Rightarrow> 'a \<Rightarrow> 'q"
    and pop :: "'q \<Rightarrow> 'a \<times> 'q"
    and reset :: "'q \<Rightarrow> 'q"
  assumes abs_cap: "ok q \<Longrightarrow> length (abs q) \<le> cap q"
    and push_law: "ok q \<Longrightarrow> length (abs q) < cap q \<Longrightarrow>
      ok (push q x) \<and> abs (push q x) = abs q @ [x] \<and> cap (push q x) = cap q"
    and push_front_law: "ok q \<Longrightarrow> length (abs q) < cap q \<Longrightarrow>
      ok (push_front q x) \<and> abs (push_front q x) = x # abs q \<and> cap (push_front q x) = cap q"
    and pop_law: "ok q \<Longrightarrow> abs q = x # xs \<Longrightarrow>
      fst (pop q) = x \<and> ok (snd (pop q)) \<and> abs (snd (pop q)) = xs \<and> cap (snd (pop q)) = cap q"
    and reset_law: "ok q \<Longrightarrow> ok (reset q) \<and> abs (reset q) = [] \<and> cap (reset q) = cap q"
begin

lemma push_all:
  "ok q \<Longrightarrow> length (abs q) + length xs \<le> cap q \<Longrightarrow>
    ok (foldl push q xs) \<and> abs (foldl push q xs) = abs q @ xs \<and> cap (foldl push q xs) = cap q"
proof (induction xs arbitrary: q)
  case (Cons x xs)
  have "length (abs q) < cap q" using Cons.prems(2) by simp
  with Cons.IH [of "push q x"] push_law [OF Cons.prems(1), of x] Cons.prems(2) show ?case by simp
qed simp

lemma pop_all: "ok q \<Longrightarrow> n \<le> length (abs q) \<Longrightarrow> popn pop n q = take n (abs q)"
proof (induction n arbitrary: q)
  case (Suc n)
  then obtain x xs where abs: "abs q = x # xs" by (cases "abs q") auto
  obtain y q' where pop: "pop q = (y, q')" by fastforce
  have "y = x" "ok q'" "abs q' = xs" using pop_law [OF Suc.prems(1) abs] pop by simp_all
  then show ?case using Suc.IH [of q'] Suc.prems(2) abs pop by simp
qed simp

lemma fifo:
  assumes "ok q" "length (abs q) + length xs \<le> cap q"
  shows "popn pop (length (abs q) + length xs) (foldl push q xs) = abs q @ xs"
  using push_all [OF assms] pop_all [of "foldl push q xs" "length (abs q) + length xs"] by simp

lemma front_first:
  assumes "ok q" "length (abs q) < cap q"
  shows "fst (pop (push_front q x)) = x \<and> abs (snd (pop (push_front q x))) = abs q"
  using push_front_law [OF assms, of x] pop_law [of "push_front q x" x "abs q"] by simp

end

text \<open>The messages a ring holds, from the next one out on, and its invariant.\<close>

definition q_list :: "queue \<Rightarrow> nat list" where
  "q_list q = map (\<lambda>i. q_buf q ! ((q_out q + i) mod length (q_buf q))) [0..<nat (q_cnt q)]"

definition queue_ok :: "queue \<Rightarrow> bool" where
  "queue_ok q \<longleftrightarrow> q_buf q \<noteq> [] \<and> q_size q = int (length (q_buf q)) \<and> q_out q < length (q_buf q) \<and>
     0 \<le> q_cnt q \<and> q_cnt q \<le> q_size q \<and> q_in q = (q_out q + nat (q_cnt q)) mod length (q_buf q)"

abbreviation q_cap :: "queue \<Rightarrow> nat" where
  "q_cap q \<equiv> length (q_buf q)"

lemma length_q_list: "length (q_list q) = nat (q_cnt q)"
  by (simp add: q_list_def)

lemma mod_add_neq:
  fixes a i c n :: nat
  assumes "i < c" "c < n" shows "(a + c) mod n \<noteq> (a + i) mod n"
proof
  assume "(a + c) mod n = (a + i) mod n"
  then have "n dvd (a + c) - (a + i)" using assms by (simp add: mod_eq_dvd_iff_nat)
  then show False using assms dvd_imp_le [of n "c - i"] by simp
qed

lemma queue_push_law:
  assumes ok: "queue_ok q" and room: "length (q_list q) < q_cap q"
  shows "queue_ok (queue_push q x) \<and> q_list (queue_push q x) = q_list q @ [x] \<and> q_cap (queue_push q x) = q_cap q"
proof -
  let ?n = "q_cap q" and ?c = "nat (q_cnt q)"
  have c: "?c < ?n" "0 \<le> q_cnt q" "0 < ?n" using ok room by (auto simp: queue_ok_def length_q_list)
  have q_in: "q_in q = (q_out q + ?c) mod ?n" using ok by (simp add: queue_ok_def)
  have "(q_out q + Suc ?c) mod ?n = (if Suc (q_in q) = ?n then 0 else Suc (q_in q))"
    using c(3) by (simp add: q_in mod_Suc)
  moreover have c1: "nat (q_cnt q + 1) = Suc ?c" using c(2) by simp
  moreover have "q_in q \<noteq> (q_out q + i) mod ?n" if "i < ?c" for i
    unfolding q_in by (rule mod_add_neq [OF that c(1)])
  ultimately show ?thesis
    using ok c q_in by (auto simp: queue_ok_def queue_push_def q_list_def Let_def)
qed

lemma queue_push_front_law:
  assumes ok: "queue_ok q" and room: "length (q_list q) < q_cap q"
  shows "queue_ok (queue_push_front q x) \<and> q_list (queue_push_front q x) = x # q_list q \<and>
    q_cap (queue_push_front q x) = q_cap q"
proof -
  let ?n = "q_cap q" and ?c = "nat (q_cnt q)"
  have c: "?c < ?n" "0 \<le> q_cnt q" "0 < ?n" "q_out q < ?n" using ok room by (auto simp: queue_ok_def length_q_list)
  define o' where "o' = (if q_out q = 0 then ?n else q_out q) - 1"
  have o': "o' < ?n" "Suc o' mod ?n = q_out q" using c by (auto simp: o'_def)
  have shift: "(o' + Suc i) mod ?n = (q_out q + i) mod ?n" for i
    using o'(2) by (metis add_Suc_shift mod_add_left_eq)
  have run: "queue_push_front q x = q\<lparr>q_out := o', q_buf := (q_buf q)[o' := x], q_cnt := q_cnt q + 1\<rparr>"
    by (simp add: queue_push_front_def o'_def Let_def)
  have c1: "nat (q_cnt q + 1) = Suc ?c" using c(2) by simp
  have ne: "o' \<noteq> (o' + Suc i) mod ?n" if "i < ?c" for i
    using mod_add_neq [of 0 "Suc i" ?n o'] that c(1) o'(1) by simp
  have "q_list (queue_push_front q x) = x # map (\<lambda>i. (q_buf q)[o' := x] ! ((o' + Suc i) mod ?n)) [0..<?c]"
    unfolding run q_list_def using c1 o'(1) by (simp add: map_upt_Suc del: upt_Suc)
  also have "map (\<lambda>i. (q_buf q)[o' := x] ! ((o' + Suc i) mod ?n)) [0..<?c] = q_list q"
    unfolding q_list_def using ne shift by (auto simp: nth_list_update)
  finally have "q_list (queue_push_front q x) = x # q_list q" .
  moreover have "queue_ok (queue_push_front q x)"
    using ok c c1 o' shift [of ?c] by (auto simp: queue_ok_def run)
  ultimately show ?thesis by (simp add: run)
qed

lemma queue_pop_law:
  assumes ok: "queue_ok q" and l: "q_list q = x # xs"
  shows "fst (queue_pop q) = x \<and> queue_ok (snd (queue_pop q)) \<and> q_list (snd (queue_pop q)) = xs \<and>
    q_cap (snd (queue_pop q)) = q_cap q"
proof -
  let ?n = "q_cap q"
  obtain c where c: "nat (q_cnt q) = Suc c" using l length_q_list [of q] by (cases "nat (q_cnt q)") auto
  then have c': "q_cnt q = int c + 1" "nat (q_cnt q - 1) = c" by simp_all
  define o' where "o' = Suc (q_out q) mod ?n"
  have lt: "q_out q < ?n" "0 < ?n" using ok by (auto simp: queue_ok_def)
  have run: "queue_pop q = (q_buf q ! q_out q, q\<lparr>q_out := o', q_cnt := q_cnt q - 1\<rparr>)"
    using lt by (auto simp: queue_pop_def o'_def Let_def)
  have shift: "(o' + i) mod ?n = (q_out q + Suc i) mod ?n" for i by (simp add: o'_def mod_add_left_eq)
  have "q_list q = q_buf q ! q_out q # map (\<lambda>i. q_buf q ! ((q_out q + Suc i) mod ?n)) [0..<c]"
    unfolding q_list_def using c lt by (simp add: map_upt_Suc del: upt_Suc)
  then have "fst (queue_pop q) = x" "q_list (snd (queue_pop q)) = xs"
    using l shift c' unfolding run q_list_def by simp_all
  moreover have "queue_ok (snd (queue_pop q))"
    using ok c c' shift [of c] lt unfolding run queue_ok_def by (auto simp: o'_def)
  ultimately show ?thesis by (simp add: run)
qed

interpretation ring: deque queue_ok q_list q_cap queue_push queue_push_front queue_pop queue_reset
proof unfold_locales
  fix q assume "queue_ok q"
  then show "length (q_list q) \<le> q_cap q" by (auto simp: length_q_list queue_ok_def)
  show "queue_ok (queue_reset q) \<and> q_list (queue_reset q) = [] \<and> q_cap (queue_reset q) = q_cap q"
    using \<open>queue_ok q\<close> by (auto simp: queue_ok_def queue_reset_def q_list_def)
qed (rule queue_push_law queue_push_front_law queue_pop_law; assumption)+

section \<open>Operations on the event\<close>

type_synonym rings = "nat \<Rightarrow> queue"

definition invalid_queue :: "nat \<Rightarrow> kernel \<Rightarrow> bool" where
  "invalid_queue qt k \<longleftrightarrow> qt = 0 \<or> e_type (events k qt) \<noteq> OS_EVENT_TYPE_Q"

text \<open>
  \<open>q\<close>, \<open>buf\<close> and \<open>mem\<close> are the addresses of the ring, its buffer and the event as the
  allocator returned them; nothing is kept of the objects that are freed again. A negative size
  asks for more memory than there is, so the size is a natural number.
\<close>

definition queue_create :: "nat \<Rightarrow> nat \<Rightarrow> nat \<Rightarrow> nat \<Rightarrow> string \<Rightarrow> rings \<times> kernel \<Rightarrow> nat \<times> rings \<times> kernel" where
  "queue_create q buf mem sz name s =
    (case s of (rs, k) \<Rightarrow>
     if q = 0 then (0, rs, k)
     else if buf = 0 then (0, rs, k)
     else
       let rs' = rs(q := \<lparr>q_buf = replicate sz 0, q_in = 0, q_out = 0, q_size = int sz, q_cnt = 0\<rparr>);
           (qt, k) = create_event mem OS_EVENT_TYPE_Q q name k
       in if qt = 0 then (0, rs, k) else (qt, rs', k))"

definition queue_free :: "nat \<Rightarrow> kernel \<Rightarrow> kernel" where
  "queue_free qt k = release_event qt k"

text \<open>\<open>junk\<close> is the uninitialised \<^verbatim>\<open>ret\<close> that is returned when tasks wait.\<close>

definition queue_del :: "int \<Rightarrow> (nat \<Rightarrow> bool) \<Rightarrow> u64 \<Rightarrow> u64 \<Rightarrow> u64 \<Rightarrow> nat \<Rightarrow> nat \<Rightarrow> int \<Rightarrow> kernel
    \<Rightarrow> (int \<times> kernel) option" where
  "queue_del junk fg now1 now2 now3 cpu qt opt k =
    (if invalid_queue qt k then Some (- EINVAL, k)
     else case lock_event qt k of
         None \<Rightarrow> None
       | Some k \<Rightarrow>
           let tasks_waiting = event_has_waiter qt k in
           if opt = OS_DEL_NO_PEND then
             if \<not> tasks_waiting then Some (0, queue_free qt (unlock_event qt k))
             else Some (junk, unlock_event qt k)
           else if opt = OS_DEL_ALWAYS then
             (case event_del_always cpu qt k of
                None \<Rightarrow> None
              | Some k \<Rightarrow>
                  let k = queue_free qt (unlock_event qt k) in
                  if tasks_waiting then map_option (\<lambda>k. (0, k)) (sched fg now1 now2 now3 cpu k)
                  else Some (0, k))
           else Some (0, unlock_event qt k))"

definition queue_accept :: "nat \<Rightarrow> rings \<times> kernel \<Rightarrow> (nat \<times> rings \<times> kernel) option" where
  "queue_accept qt s =
    (case s of (rs, k) \<Rightarrow>
     if invalid_queue qt k then Some (0, rs, k)
     else case lock_event qt k of
         None \<Rightarrow> None
       | Some k \<Rightarrow>
           let q = e_data (events k qt) in
           if q_cnt (rs q) > 0 then
             let (pmsg, r) = queue_pop (rs q) in Some (pmsg, rs(q := r), unlock_event qt k)
           else Some (0, rs, unlock_event qt k))"

definition queue_flush :: "nat \<Rightarrow> rings \<times> kernel \<Rightarrow> (int \<times> rings \<times> kernel) option" where
  "queue_flush qt s =
    (case s of (rs, k) \<Rightarrow>
     if invalid_queue qt k then Some (- EINVAL, rs, k)
     else case lock_event qt k of
         None \<Rightarrow> None
       | Some k \<Rightarrow>
           let q = e_data (events k qt) in Some (0, rs(q := queue_reset (rs q)), unlock_event qt k))"

definition queue_pend_begin :: "nat \<Rightarrow> nat \<Rightarrow> nat \<Rightarrow> rings \<times> kernel \<Rightarrow> (nat option \<times> rings \<times> kernel) option" where
  "queue_pend_begin cpu qt timeout s =
    (case s of (rs, k) \<Rightarrow>
     if invalid_queue qt k then Some (Some 0, rs, k)
     else case lock_event qt k of
         None \<Rightarrow> None
       | Some k \<Rightarrow>
           let q = e_data (events k qt) in
           if q_cnt (rs q) > 0 then
             let (pmsg, r) = queue_pop (rs q) in Some (Some pmsg, rs(q := r), unlock_event qt k)
           else
             let t = get_current_task cpu k;
                 k = upd_task t (\<lambda>x. x\<lparr>t_stat := t_stat x OR TASK_STAT_Q,
                       t_pend_stat := TASK_STAT_PEND_OK, t_delay := timeout, t_wait_event := qt\<rparr>) k
             in Some (None, rs, unlock_event qt (event_task_wait t qt k)))"

definition queue_pend_finish :: "nat \<Rightarrow> nat \<Rightarrow> kernel \<Rightarrow> (nat \<times> kernel) option" where
  "queue_pend_finish t qt k =
    (case lock_event qt k of
       None \<Rightarrow> None
     | Some k \<Rightarrow>
         let ps = t_pend_stat (tasks k t);
             (pmsg, k) = (if ps = TASK_STAT_PEND_OK then (t_msg (tasks k t), k)
                          else if ps = TASK_STAT_PEND_ABORT then (0, k)
                          else (0, snd (event_task_remove t qt k)));
             k = upd_task t (\<lambda>x. x\<lparr>t_pend_stat := TASK_STAT_PEND_OK, t_wait_event := 0, t_msg := 0\<rparr>) k
         in Some (pmsg, unlock_event qt k))"

definition queue_post_abort :: "(nat \<Rightarrow> bool) \<Rightarrow> u64 \<Rightarrow> u64 \<Rightarrow> u64 \<Rightarrow> nat \<Rightarrow> nat \<Rightarrow> int \<Rightarrow> kernel
    \<Rightarrow> (int \<times> kernel) option" where
  "queue_post_abort fg now1 now2 now3 cpu qt opt k =
    (if invalid_queue qt k then Some (- EINVAL, k)
     else case lock_event qt k of
         None \<Rightarrow> None
       | Some k \<Rightarrow>
           if event_has_waiter qt k then
             (case (if opt = OS_PEND_OPT_BROADCAST
                    then event_wake_all True cpu qt 0 TASK_STAT_Q TASK_STAT_PEND_ABORT 0 k
                    else map_option (\<lambda>(t, k). (1, k))
                      (event_highest_task_ready cpu qt 0 TASK_STAT_Q TASK_STAT_PEND_ABORT k)) of
                None \<Rightarrow> None
              | Some (n, k) \<Rightarrow>
                  map_option (\<lambda>k. (int n, k)) (sched fg now1 now2 now3 cpu (unlock_event qt k)))
           else Some (0, unlock_event qt k))"

text \<open>The last lines of the posts: the message goes into the ring if there is room.\<close>

definition queue_store :: "nat \<Rightarrow> nat \<Rightarrow> bool \<Rightarrow> rings \<times> kernel \<Rightarrow> int \<times> rings \<times> kernel" where
  "queue_store qt pmsg front s =
    (case s of (rs, k) \<Rightarrow>
     let q = e_data (events k qt) in
     if q_cnt (rs q) \<ge> q_size (rs q) then (- ENOSPC, rs, unlock_event qt k)
     else (0, rs(q := if front then queue_push_front (rs q) pmsg else queue_push (rs q) pmsg), unlock_event qt k))"

definition queue_post0 :: "(nat \<Rightarrow> bool) \<Rightarrow> u64 \<Rightarrow> u64 \<Rightarrow> u64 \<Rightarrow> nat \<Rightarrow> nat \<Rightarrow> nat \<Rightarrow> bool \<Rightarrow> rings \<times> kernel
    \<Rightarrow> (int \<times> rings \<times> kernel) option" where
  "queue_post0 fg now1 now2 now3 cpu qt pmsg front s =
    (case s of (rs, k) \<Rightarrow>
     if invalid_queue qt k \<or> pmsg = 0 then Some (- EINVAL, rs, k)
     else case lock_event qt k of
         None \<Rightarrow> None
       | Some k \<Rightarrow>
           if event_has_waiter qt k then
             (case event_highest_task_ready cpu qt pmsg TASK_STAT_Q TASK_STAT_PEND_OK k of
                None \<Rightarrow> None
              | Some (t, k) \<Rightarrow>
                  map_option (\<lambda>k. (0, rs, k)) (sched fg now1 now2 now3 cpu (unlock_event qt k)))
           else Some (queue_store qt pmsg front (rs, k)))"

definition queue_post where
  "queue_post fg now1 now2 now3 cpu qt pmsg s = queue_post0 fg now1 now2 now3 cpu qt pmsg False s"

definition queue_post_front where
  "queue_post_front fg now1 now2 now3 cpu qt pmsg s = queue_post0 fg now1 now2 now3 cpu qt pmsg True s"

definition queue_post_opt :: "(nat \<Rightarrow> bool) \<Rightarrow> u64 \<Rightarrow> u64 \<Rightarrow> u64 \<Rightarrow> nat \<Rightarrow> nat \<Rightarrow> u32 \<Rightarrow> nat \<Rightarrow> rings \<times> kernel
    \<Rightarrow> (int \<times> rings \<times> kernel) option" where
  "queue_post_opt fg now1 now2 now3 cpu qt opt pmsg s =
    (case s of (rs, k) \<Rightarrow>
     if invalid_queue qt k \<or> pmsg = 0 then Some (- EINVAL, rs, k)
     else case lock_event qt k of
         None \<Rightarrow> None
       | Some k \<Rightarrow>
           let store = (\<lambda>k. queue_store qt pmsg (opt AND OS_POST_OPT_FRONT \<noteq> 0) (rs, k)) in
           if event_has_waiter qt k then
             (case (if opt AND OS_POST_OPT_BROADCAST \<noteq> 0
                    then event_wake_all True cpu qt pmsg TASK_STAT_Q TASK_STAT_PEND_OK 0 k
                    else map_option (\<lambda>(t, k). (1, k))
                      (event_highest_task_ready cpu qt pmsg TASK_STAT_Q TASK_STAT_PEND_OK k)) of
                None \<Rightarrow> None
              | Some (nr_task, k) \<Rightarrow>
                  if nr_task \<noteq> 0 then
                    let k = unlock_event qt k in
                    if opt AND OS_POST_OPT_NO_SCHED = 0
                    then map_option (\<lambda>k. (0, rs, k)) (sched fg now1 now2 now3 cpu k)
                    else Some (0, rs, k)
                  else Some (store k))
           else Some (store k))"

section \<open>Properties\<close>

text \<open>
  C31. The ring buffer is a first-in first-out queue: pushing messages, as many as there is room
  for, and then popping gives first the messages that were there and then the pushed ones,
  in order, although the indices wrap around at the end of the buffer.
\<close>

theorem ring_fifo:
  assumes "queue_ok q" "length (q_list q) + length xs \<le> length (q_buf q)"
  shows "popn queue_pop (length (q_list q) + length xs) (foldl queue_push q xs) = q_list q @ xs \<and>
    queue_ok (foldl queue_push q xs)"
  using ring.fifo [OF assms] ring.push_all [OF assms] by blast

theorem ring_fifo_witness:
  "let q = \<lparr>q_buf = [3, 0, 9], q_in = 1, q_out = 2, q_size = 3, q_cnt = 2\<rparr> in
   popn queue_pop (length (q_list q) + length [5]) (foldl queue_push q [5]) = [9, 3] @ [5] \<and>
   queue_ok (foldl queue_push q [5])"
proof -
  let ?q = "\<lparr>q_buf = [3, 0, 9], q_in = 1, q_out = 2, q_size = 3, q_cnt = 2\<rparr>"
  have "queue_ok ?q" "q_list ?q = [9, 3]" by code_simp+
  with ring_fifo [of ?q "[5]"] show ?thesis by (simp add: Let_def)
qed

text \<open>
  C30. The operations on a message queue without waiting tasks implement a bounded queue of
  messages: a post appends, a post to the front puts the message first, a full queue returns
  \<open>-ENOSPC\<close> and keeps its messages, an accept returns the first message and removes it, or
  returns NULL on an empty queue; the ring stays well formed and the lock is released.
\<close>

theorem queue_refines_list:
  assumes qt: "qt \<noteq> 0" "e_type (events k qt) = OS_EVENT_TYPE_Q" "\<not> e_locked (events k qt)" "event_ok qt k"
      "ev_waiters qt k = []"
    and r: "queue_ok (rs (e_data (events k qt)))" and msg: "pmsg \<noteq> 0"
  defines "q \<equiv> e_data (events k qt)"
  shows "(if length (q_list (rs q)) < length (q_buf (rs q))
      then \<exists>a b. queue_post fg now1 now2 now3 cpu qt pmsg (rs, k) = Some (0, rs(q := a), k) \<and>
          queue_ok a \<and> q_list a = q_list (rs q) @ [pmsg] \<and>
        queue_post_front fg now1 now2 now3 cpu qt pmsg (rs, k) = Some (0, rs(q := b), k) \<and>
          queue_ok b \<and> q_list b = pmsg # q_list (rs q)
      else queue_post fg now1 now2 now3 cpu qt pmsg (rs, k) = Some (- ENOSPC, rs, k) \<and>
        queue_post_front fg now1 now2 now3 cpu qt pmsg (rs, k) = Some (- ENOSPC, rs, k)) \<and>
    (case q_list (rs q) of
       [] \<Rightarrow> queue_accept qt (rs, k) = Some (0, rs, k)
     | m # ms \<Rightarrow> \<exists>c. queue_accept qt (rs, k) = Some (m, rs(q := c), k) \<and> queue_ok c \<and> q_list c = ms)"
proof -
  note lk = lock_event_free [OF qt(3)] unlock_lock(1) [OF lock_event_free [OF qt(3)]]
  have ok: "queue_ok (rs q)" "q_size (rs q) = int (length (q_buf (rs q)))" "q_cnt (rs q) = int (length (q_list (rs q)))"
    using r by (auto simp: q_def queue_ok_def length_q_list)
  have valid: "\<not> invalid_queue qt k" using qt by (simp add: invalid_queue_def)
  have post: "queue_post0 fg now1 now2 now3 cpu qt pmsg f (rs, k) =
    Some (if length (q_list (rs q)) < length (q_buf (rs q))
      then (0, rs(q := if f then queue_push_front (rs q) pmsg else queue_push (rs q) pmsg), k)
      else (- ENOSPC, rs, k))" for f
    using valid msg lk has_waiter_locked [OF qt(4)] qt(5) ok(2,3)
    by (simp add: queue_post0_def queue_store_def Let_def flip: q_def)
  have acc: "queue_accept qt (rs, k) =
    (if q_list (rs q) = [] then Some (0, rs, k)
     else Some (fst (queue_pop (rs q)), rs(q := snd (queue_pop (rs q))), k))"
    using valid lk ok(3) by (simp add: queue_accept_def Let_def case_prod_beta flip: q_def)
  show ?thesis
    using ring.push_law [OF ok(1), of pmsg] ring.push_front_law [OF ok(1), of pmsg] ring.pop_law [OF ok(1)]
    by (auto simp: queue_post_def queue_post_front_def post acc fun_upd_inject split: list.splits)
qed

text \<open>A queue with room for three messages that holds 9 and 3.\<close>

definition sample_queue :: "rings \<times> kernel" where
  "sample_queue = ((\<lambda>_. \<lparr>q_buf = [3, 0, 9], q_in = 1, q_out = 2, q_size = 3, q_cnt = 2\<rparr>),
     upd_event 3 (\<lambda>e. e\<lparr>e_type := OS_EVENT_TYPE_Q, e_wait_list := [], e_data := 8\<rparr>) one_waiter)"

theorem queue_refines_list_witness:
  "\<exists>a c. queue_post (\<lambda>_. False) 0 0 0 0 3 77 sample_queue = Some (0, (fst sample_queue)(8 := a), snd sample_queue) \<and>
     q_list a = [9, 3, 77] \<and>
     queue_accept 3 sample_queue = Some (9, (fst sample_queue)(8 := c), snd sample_queue) \<and> q_list c = [3]"
proof -
  let ?r = "\<lparr>q_buf = [3, 0, 9], q_in = 1, q_out = 2, q_size = 3, q_cnt = 2\<rparr>"
  have r: "queue_ok ?r" "q_list ?r = [9, 3]" by code_simp+
  obtain rs k where s: "sample_queue = (rs, k)" by fastforce
  have k: "k = upd_event 3 (\<lambda>e. e\<lparr>e_type := OS_EVENT_TYPE_Q, e_wait_list := [], e_data := 8\<rparr>) one_waiter"
    and rs: "rs = (\<lambda>_. ?r)" using s by (simp_all add: sample_queue_def)
  have "event_ok 3 k" "ev_waiters 3 k = []" "e_type (events k 3) = OS_EVENT_TYPE_Q" "\<not> e_locked (events k 3)"
    "e_data (events k 3) = 8"
    using one_waiter_ok by (auto simp: k event_ok_def ev_waiters_def rt_waiters_def task_ok_def)
  then show ?thesis
    using queue_refines_list [of 3 k rs 77 "\<lambda>_. False" 0 0 0 0] r by (auto simp: s rs)
qed

end
