(* ===== verification/Flag.thy ===== *)
theory Flag
  imports Queue
begin

text \<open>
  Event flags, \<^verbatim>\<open>os/core/flag.c\<close>: groups of 32 flags on which tasks wait for a
  combination of set or clear flags. The groups are a store \<open>fgs\<close> in which a group that was
  freed is \<open>None\<close>; touching one is a fault, \<open>None\<close>, as is a NULL pointer.
\<close>

section \<open>Data\<close>

definition FLAG_WAIT_CLR_ALL :: int where "FLAG_WAIT_CLR_ALL = 0"
definition FLAG_WAIT_CLR_ANY :: int where "FLAG_WAIT_CLR_ANY = 1"
definition FLAG_WAIT_SET_ALL :: int where "FLAG_WAIT_SET_ALL = 2"
definition FLAG_WAIT_SET_ANY :: int where "FLAG_WAIT_SET_ANY = 3"
definition FLAG_CONSUME :: int where "FLAG_CONSUME = 0x80"
definition FLAG_CLR :: int where "FLAG_CLR = 0"
definition FLAG_SET :: int where "FLAG_SET = 1"

lemmas flag_defs = FLAG_WAIT_CLR_ALL_def FLAG_WAIT_CLR_ANY_def FLAG_WAIT_SET_ALL_def
  FLAG_WAIT_SET_ANY_def FLAG_CONSUME_def FLAG_CLR_def FLAG_SET_def

record flag_node =
  n_addr :: nat
  n_task :: nat
  n_grp :: nat
  n_flags :: u32
  n_wait_type :: int

record flag_grp =
  f_type :: nat
  f_wait :: "flag_node list"
  f_flags :: u32
  f_locked :: bool

type_synonym flag_store = "nat \<Rightarrow> flag_grp option"

definition invalid_flag :: "nat \<Rightarrow> flag_store \<Rightarrow> bool option" where
  "invalid_flag f fgs =
    (if f = 0 then Some True
     else case fgs f of None \<Rightarrow> None | Some g \<Rightarrow> Some (f_type g \<noteq> OS_EVENT_TYPE_FLAG))"

section \<open>Operations\<close>

text \<open>
  \<^verbatim>\<open>flag_create\<close> returns NULL when the allocation succeeded and initialises the NULL
  pointer when it failed.
\<close>

definition flag_create :: "nat \<Rightarrow> u32 \<Rightarrow> nat option" where
  "flag_create mem flags = (if mem \<noteq> 0 then Some 0 else None)"

definition flag_wait_set_all :: "flag_grp \<Rightarrow> u32 \<Rightarrow> bool \<Rightarrow> u32 \<times> flag_grp" where
  "flag_wait_set_all grp flags consume =
    (let flags_rdy = f_flags grp AND flags in
     if flags_rdy = flags then
       (flags_rdy, if consume then grp\<lparr>f_flags := f_flags grp AND NOT flags_rdy\<rparr> else grp)
     else (0, grp))"

definition flag_wait_set_any :: "flag_grp \<Rightarrow> u32 \<Rightarrow> bool \<Rightarrow> u32 \<times> flag_grp" where
  "flag_wait_set_any grp flags consume =
    (let flags_rdy = f_flags grp AND flags in
     if flags_rdy \<noteq> 0 then
       (flags_rdy, if consume then grp\<lparr>f_flags := f_flags grp AND NOT flags_rdy\<rparr> else grp)
     else (0, grp))"

definition flag_wait_clr_all :: "flag_grp \<Rightarrow> u32 \<Rightarrow> bool \<Rightarrow> u32 \<times> flag_grp" where
  "flag_wait_clr_all grp flags consume =
    (let flags_rdy = NOT (f_flags grp) AND flags in
     if flags_rdy = flags then
       (flags_rdy, if consume then grp\<lparr>f_flags := f_flags grp OR flags_rdy\<rparr> else grp)
     else (0, grp))"

definition flag_wait_clr_any :: "flag_grp \<Rightarrow> u32 \<Rightarrow> bool \<Rightarrow> u32 \<times> flag_grp" where
  "flag_wait_clr_any grp flags consume =
    (let flags_rdy = NOT (f_flags grp) AND flags in
     if flags_rdy \<noteq> 0 then
       (flags_rdy, if consume then grp\<lparr>f_flags := f_flags grp OR flags_rdy\<rparr> else grp)
     else (0, grp))"

text \<open>The switch on the wait type that \<^verbatim>\<open>flag_accept\<close> and \<^verbatim>\<open>flag_pend\<close> share.\<close>

definition flag_wait :: "int \<Rightarrow> flag_grp \<Rightarrow> u32 \<Rightarrow> bool \<Rightarrow> u32 \<times> flag_grp" where
  "flag_wait wait_type grp flags consume =
    (if wait_type = FLAG_WAIT_SET_ALL then flag_wait_set_all grp flags consume
     else if wait_type = FLAG_WAIT_SET_ANY then flag_wait_set_any grp flags consume
     else if wait_type = FLAG_WAIT_CLR_ALL then flag_wait_clr_all grp flags consume
     else if wait_type = FLAG_WAIT_CLR_ANY then flag_wait_clr_any grp flags consume
     else (0, grp))"

definition flag_consume :: "int \<Rightarrow> bool \<times> int" where
  "flag_consume wait_type =
    (if wait_type AND FLAG_CONSUME \<noteq> 0 then (True, wait_type AND NOT FLAG_CONSUME) else (False, wait_type))"

definition lock_flag :: "nat \<Rightarrow> flag_store \<Rightarrow> flag_grp option" where
  "lock_flag f fgs =
    (case fgs f of None \<Rightarrow> None | Some g \<Rightarrow> if f_locked g then None else Some (g\<lparr>f_locked := True\<rparr>))"

definition unlock_flag :: "nat \<Rightarrow> flag_grp \<Rightarrow> flag_store \<Rightarrow> flag_store" where
  "unlock_flag f g fgs = fgs(f \<mapsto> g\<lparr>f_locked := False\<rparr>)"

definition flag_accept :: "nat \<Rightarrow> u32 \<Rightarrow> int \<Rightarrow> flag_store \<Rightarrow> (u32 \<times> flag_store) option" where
  "flag_accept f flags wait_type fgs =
    (case invalid_flag f fgs of
       None \<Rightarrow> None
     | Some True \<Rightarrow> Some (0, fgs)
     | Some False \<Rightarrow>
         let (consume, wait_type) = flag_consume wait_type in
         (case lock_flag f fgs of
            None \<Rightarrow> None
          | Some g \<Rightarrow> let (rdy, g) = flag_wait wait_type g flags consume in Some (rdy, unlock_flag f g fgs)))"

text \<open>The body of \<^verbatim>\<open>flag_task_ready\<close> is compiled out: it returns 0.\<close>

definition flag_task_ready :: "flag_node \<Rightarrow> u32 \<Rightarrow> kernel \<Rightarrow> bool \<times> kernel" where
  "flag_task_ready node flags k = (False, k)"

text \<open>\<^verbatim>\<open>flag_del\<close> frees the group before it releases its lock: a fault on both paths.\<close>

definition flag_del :: "nat \<Rightarrow> int \<Rightarrow> flag_store \<times> kernel \<Rightarrow> (int \<times> flag_store \<times> kernel) option" where
  "flag_del f opt s =
    (case s of (fgs, k) \<Rightarrow>
     case invalid_flag f fgs of
       None \<Rightarrow> None
     | Some True \<Rightarrow> Some (- EINVAL, fgs, k)
     | Some False \<Rightarrow>
         (case lock_flag f fgs of
            None \<Rightarrow> None
          | Some g \<Rightarrow>
              if opt = OS_DEL_NO_PEND then
                if f_wait g = [] then None
                else Some (- EPERM, unlock_flag f g fgs, k)
              else if opt = OS_DEL_ALWAYS then None
              else Some (- EINVAL, unlock_flag f g fgs, k)))"

definition flag_block :: "nat \<Rightarrow> nat \<Rightarrow> nat \<Rightarrow> flag_grp \<Rightarrow> u32 \<Rightarrow> int \<Rightarrow> nat \<Rightarrow> kernel
    \<Rightarrow> (flag_grp \<times> kernel) option" where
  "flag_block cpu node f g flags wait_type timeout k =
    (let t = get_current_task cpu k;
         pnode = \<lparr>n_addr = node, n_task = t, n_grp = f, n_flags = flags, n_wait_type = wait_type\<rparr>;
         k = upd_task t (\<lambda>x. x\<lparr>t_stat := t_stat x OR TASK_STAT_FLAG, t_pend_stat := TASK_STAT_PEND_OK,
               t_delay := timeout\<rparr>) k;
         g = g\<lparr>f_wait := f_wait g @ [pnode]\<rparr>
     in map_option (\<lambda>k. (g, k)) (set_task_sleep cpu t k))"

text \<open>\<open>node\<close> is the address of the node on the caller's stack.\<close>

definition flag_pend_begin :: "nat \<Rightarrow> nat \<Rightarrow> nat \<Rightarrow> u32 \<Rightarrow> int \<Rightarrow> nat \<Rightarrow> flag_store \<times> kernel
    \<Rightarrow> (u32 option \<times> flag_store \<times> kernel) option" where
  "flag_pend_begin cpu node f flags wait_type timeout s =
    (case s of (fgs, k) \<Rightarrow>
     case invalid_flag f fgs of
       None \<Rightarrow> None
     | Some True \<Rightarrow> Some (Some 0, fgs, k)
     | Some False \<Rightarrow>
         let (consume, wait_type) = flag_consume wait_type in
         (case lock_flag f fgs of
            None \<Rightarrow> None
          | Some g \<Rightarrow>
              let (rdy, g) = flag_wait wait_type g flags consume in
              if rdy \<noteq> 0 then Some (Some rdy, unlock_flag f g fgs, k)
              else case flag_block cpu node f g flags wait_type timeout k of
                  None \<Rightarrow> None
                | Some (g, k) \<Rightarrow> Some (None, unlock_flag f g fgs, k)))"

definition flag_pend_finish :: "nat \<Rightarrow> nat \<Rightarrow> nat \<Rightarrow> int \<Rightarrow> flag_store \<times> kernel
    \<Rightarrow> (u32 \<times> flag_store \<times> kernel) option" where
  "flag_pend_finish t node f wait_type s =
    (case s of (fgs, k) \<Rightarrow>
     case lock_flag f fgs of
       None \<Rightarrow> None
     | Some g \<Rightarrow>
         if t_pend_stat (tasks k t) \<noteq> TASK_STAT_PEND_OK then
           Some (0, unlock_flag f (g\<lparr>f_wait := filter (\<lambda>n. n_addr n \<noteq> node) (f_wait g)\<rparr>) fgs,
             upd_task t (\<lambda>x. x\<lparr>t_pend_stat := TASK_STAT_PEND_OK\<rparr>) k)
         else
           let rdy = t_flags_rdy (tasks k t);
               (consume, wait_type) = flag_consume wait_type;
               (rdy, g) =
                (if consume then
                   if wait_type = FLAG_WAIT_SET_ALL \<or> wait_type = FLAG_WAIT_SET_ANY
                   then (rdy, g\<lparr>f_flags := f_flags g AND NOT rdy\<rparr>)
                   else if wait_type = FLAG_WAIT_CLR_ALL \<or> wait_type = FLAG_WAIT_CLR_ANY
                   then (rdy, g\<lparr>f_flags := f_flags g OR rdy\<rparr>)
                   else (0, g)
                 else (rdy, g))
           in Some (rdy, unlock_flag f g fgs, k))"

definition flag_pend_get_flags_ready :: "nat \<Rightarrow> kernel \<Rightarrow> u32" where
  "flag_pend_get_flags_ready cpu k = t_flags_rdy (tasks k (get_current_task cpu k))"

text \<open>
  The loop of \<^verbatim>\<open>flag_post\<close> over the waiting nodes. The case of \<^verbatim>\<open>FLAG_WAIT_CLR_ANY\<close> has
  no \<open>break\<close> and falls into the default, which returns 0 from the function: \<open>None\<close>.
\<close>

fun flag_post_loop :: "u32 \<Rightarrow> flag_node list \<Rightarrow> bool \<Rightarrow> kernel \<Rightarrow> bool option \<times> kernel" where
  "flag_post_loop flags [] need_sched k = (Some need_sched, k)"
| "flag_post_loop flags (p # ps) need_sched k =
    (let set = flags AND n_flags p; clr = NOT flags AND n_flags p in
     if n_wait_type p = FLAG_WAIT_SET_ALL then
       let (s, k) = (if set = n_flags p then flag_task_ready p set k else (need_sched, k))
       in flag_post_loop flags ps s k
     else if n_wait_type p = FLAG_WAIT_SET_ANY then
       let (s, k) = (if set \<noteq> 0 then flag_task_ready p set k else (need_sched, k))
       in flag_post_loop flags ps s k
     else if n_wait_type p = FLAG_WAIT_CLR_ALL then
       let (s, k) = (if clr = n_flags p then flag_task_ready p clr k else (need_sched, k))
       in flag_post_loop flags ps s k
     else if n_wait_type p = FLAG_WAIT_CLR_ANY then
       let (s, k) = (if clr \<noteq> 0 then flag_task_ready p clr k else (need_sched, k))
       in (None, k)
     else (None, k))"

definition flag_post :: "(nat \<Rightarrow> bool) \<Rightarrow> u64 \<Rightarrow> u64 \<Rightarrow> u64 \<Rightarrow> nat \<Rightarrow> nat \<Rightarrow> u32 \<Rightarrow> int \<Rightarrow> flag_store \<times> kernel
    \<Rightarrow> (u32 \<times> flag_store \<times> kernel) option" where
  "flag_post fg now1 now2 now3 cpu f flags opt s =
    (case s of (fgs, k) \<Rightarrow>
     case invalid_flag f fgs of
       None \<Rightarrow> None
     | Some bad \<Rightarrow>
         if bad \<or> opt > FLAG_SET then Some (word_of_int (- EINVAL), fgs, k)
         else case lock_flag f fgs of
             None \<Rightarrow> None
           | Some g \<Rightarrow>
               let g = (if opt = FLAG_CLR then g\<lparr>f_flags := f_flags g AND NOT flags\<rparr>
                        else if opt = FLAG_SET then g\<lparr>f_flags := f_flags g OR flags\<rparr> else g)
               in (case flag_post_loop (f_flags g) (f_wait g) False k of
                     (None, k) \<Rightarrow> Some (0, unlock_flag f g fgs, k)
                   | (Some need_sched, k) \<Rightarrow>
                       map_option (\<lambda>k. (f_flags g, unlock_flag f g fgs, k))
                         (if need_sched then sched fg now1 now2 now3 cpu k else Some k)))"

section \<open>Properties\<close>

text \<open>What a wait asks for, flag by flag: the flags that are in the wanted state.\<close>

definition flag_hits :: "int \<Rightarrow> u32 \<Rightarrow> u32 \<Rightarrow> nat set" where
  "flag_hits wait_type now flags =
    {i. i < 32 \<and> bit flags i \<and> bit now i = (wait_type \<in> {FLAG_WAIT_SET_ALL, FLAG_WAIT_SET_ANY})}"

definition flag_wanted :: "u32 \<Rightarrow> nat set" where
  "flag_wanted flags = {i. i < 32 \<and> bit flags i}"

lemma flag_sets:
  fixes a b :: u32
  shows "a = b \<longleftrightarrow> flag_wanted a = flag_wanted b" "a = 0 \<longleftrightarrow> flag_wanted a = {}"
  by (auto simp: flag_wanted_def bit_eq_iff set_eq_iff dest: bit_imp_le_length)

lemma flag_hits_wanted:
  "flag_wanted (now AND flags) = flag_hits FLAG_WAIT_SET_ALL now flags"
  "flag_wanted (now AND flags) = flag_hits FLAG_WAIT_SET_ANY now flags"
  "flag_wanted (NOT now AND flags) = flag_hits FLAG_WAIT_CLR_ALL now flags"
  "flag_wanted (NOT now AND flags) = flag_hits FLAG_WAIT_CLR_ANY now flags"
  by (auto simp: flag_wanted_def flag_hits_def flag_defs bit_simps)

definition hit_flags :: "int \<Rightarrow> u32 \<Rightarrow> u32 \<Rightarrow> u32" where
  "hit_flags wt now flags = (if wt \<in> {FLAG_WAIT_SET_ALL, FLAG_WAIT_SET_ANY} then now AND flags else NOT now AND flags)"

lemma wanted_hit_flags: "flag_wanted (hit_flags wt now flags) = flag_hits wt now flags"
  by (auto simp: flag_wanted_def flag_hits_def hit_flags_def bit_simps)

lemma flag_toggle:
  "now AND NOT (now AND flags) = now XOR (now AND flags)"
  "now OR (NOT now AND flags) = now XOR (NOT now AND flags)" for now flags :: u32
  by (rule bit_eqI; auto simp: bit_simps)+

lemma flag_wait_toggle:
  "flag_wait_set_all g flags c = (let r = f_flags g AND flags in
    if r = flags then (r, if c then g\<lparr>f_flags := f_flags g XOR r\<rparr> else g) else (0, g))"
  "flag_wait_set_any g flags c = (let r = f_flags g AND flags in
    if r \<noteq> 0 then (r, if c then g\<lparr>f_flags := f_flags g XOR r\<rparr> else g) else (0, g))"
  "flag_wait_clr_all g flags c = (let r = NOT (f_flags g) AND flags in
    if r = flags then (r, if c then g\<lparr>f_flags := f_flags g XOR r\<rparr> else g) else (0, g))"
  "flag_wait_clr_any g flags c = (let r = NOT (f_flags g) AND flags in
    if r \<noteq> 0 then (r, if c then g\<lparr>f_flags := f_flags g XOR r\<rparr> else g) else (0, g))"
  unfolding flag_wait_set_all_def flag_wait_set_any_def flag_wait_clr_all_def flag_wait_clr_any_def
    Let_def flag_toggle by (rule refl)+

text \<open>The four kinds of wait as one: all or any of the hits, and consuming flips them.\<close>

lemma flag_wait_eq:
  assumes "wt \<in> {FLAG_WAIT_SET_ALL, FLAG_WAIT_SET_ANY, FLAG_WAIT_CLR_ALL, FLAG_WAIT_CLR_ANY}"
  shows "flag_wait wt g flags consume =
    (if wt \<in> {FLAG_WAIT_SET_ALL, FLAG_WAIT_CLR_ALL} \<and> hit_flags wt (f_flags g) flags \<noteq> flags then (0, g)
     else (hit_flags wt (f_flags g) flags,
       if consume then g\<lparr>f_flags := f_flags g XOR hit_flags wt (f_flags g) flags\<rparr> else g))"
  using assms
  unfolding flag_wait_def flag_wait_toggle Let_def hit_flags_def flag_defs by auto

text \<open>
  C34. \<^verbatim>\<open>flag_accept\<close> on a valid group, for the four kinds of wait: it returns exactly the
  wanted flags that are in the wanted state, if all of them are (the \<open>ALL\<close> kinds) or if there
  is one (the \<open>ANY\<close> kinds), otherwise 0; consuming turns exactly the returned flags into the
  opposite state, and nothing else of the group changes.
\<close>

theorem flag_accept_correct:
  assumes g: "f \<noteq> 0" "fgs f = Some g" "f_type g = OS_EVENT_TYPE_FLAG" "\<not> f_locked g"
    and wt: "wt \<in> {FLAG_WAIT_SET_ALL, FLAG_WAIT_SET_ANY, FLAG_WAIT_CLR_ALL, FLAG_WAIT_CLR_ANY}"
  shows "\<exists>rdy now. flag_accept f flags (if consume then wt OR FLAG_CONSUME else wt) fgs
      = Some (rdy, fgs(f \<mapsto> g\<lparr>f_flags := now\<rparr>)) \<and>
    flag_wanted rdy =
      (if wt \<in> {FLAG_WAIT_SET_ALL, FLAG_WAIT_CLR_ALL} \<and> flag_hits wt (f_flags g) flags \<noteq> flag_wanted flags
       then {} else flag_hits wt (f_flags g) flags) \<and>
    (\<forall>i<32. bit now i = (if consume \<and> i \<in> flag_wanted rdy then \<not> bit (f_flags g) i else bit (f_flags g) i))"
proof -
  let ?h = "hit_flags wt (f_flags g) flags"
  define rdy where "rdy = (if wt \<in> {FLAG_WAIT_SET_ALL, FLAG_WAIT_CLR_ALL} \<and> ?h \<noteq> flags then 0 else ?h)"
  define now where "now = (if consume then f_flags g XOR rdy else f_flags g)"
  have "flag_consume (if consume then wt OR FLAG_CONSUME else wt) = (consume, wt)"
    using wt by (cases consume) (auto simp: flag_consume_def flag_defs)
  moreover have "flag_wait wt (g\<lparr>f_locked := True\<rparr>) flags consume = (rdy, g\<lparr>f_locked := True, f_flags := now\<rparr>)"
    using flag_wait_eq [OF wt, of "g\<lparr>f_locked := True\<rparr>" flags consume] by (simp add: rdy_def now_def)
  ultimately have "flag_accept f flags (if consume then wt OR FLAG_CONSUME else wt) fgs
      = Some (rdy, fgs(f \<mapsto> g\<lparr>f_flags := now\<rparr>))"
    using g by (cases g) (simp add: flag_accept_def invalid_flag_def lock_flag_def unlock_flag_def)
  moreover have eq: "?h \<noteq> flags \<longleftrightarrow> flag_hits wt (f_flags g) flags \<noteq> flag_wanted flags"
    using flag_sets(1) [of ?h flags] by (simp only: wanted_hit_flags)
  moreover have z: "flag_wanted 0 = {}" by (simp add: flag_wanted_def)
  moreover have "flag_wanted rdy =
      (if wt \<in> {FLAG_WAIT_SET_ALL, FLAG_WAIT_CLR_ALL} \<and> flag_hits wt (f_flags g) flags \<noteq> flag_wanted flags
       then {} else flag_hits wt (f_flags g) flags)"
    using eq z by (simp add: rdy_def wanted_hit_flags)
  moreover have "\<forall>i<32. bit now i = (if consume \<and> i \<in> flag_wanted rdy then \<not> bit (f_flags g) i else bit (f_flags g) i)"
    by (auto simp: now_def flag_wanted_def bit_simps)
  ultimately show ?thesis by blast
qed

theorem flag_accept_correct_witness:
  "let g = \<lparr>f_type = OS_EVENT_TYPE_FLAG, f_wait = [], f_flags = 5, f_locked = False\<rparr> in
   \<exists>rdy now. flag_accept 9 4 (FLAG_WAIT_SET_ANY OR FLAG_CONSUME) [9 \<mapsto> g] = Some (rdy, [9 \<mapsto> g\<lparr>f_flags := now\<rparr>]) \<and>
     flag_wanted rdy = flag_hits FLAG_WAIT_SET_ANY 5 4 \<and> bit now 0"
proof -
  let ?g = "\<lparr>f_type = OS_EVENT_TYPE_FLAG, f_wait = [], f_flags = 5, f_locked = False\<rparr>"
  obtain rdy now where r: "flag_accept 9 4 (FLAG_WAIT_SET_ANY OR FLAG_CONSUME) [9 \<mapsto> ?g]
      = Some (rdy, [9 \<mapsto> ?g\<lparr>f_flags := now\<rparr>])" "flag_wanted rdy = flag_hits FLAG_WAIT_SET_ANY 5 4"
    "\<forall>i<32. bit now i = (if i \<in> flag_wanted rdy then \<not> bit (5 :: u32) i else bit (5 :: u32) i)"
    using flag_accept_correct [of 9 "[9 \<mapsto> ?g]" ?g FLAG_WAIT_SET_ANY 4 True] by (auto simp: flag_defs)
  have "bit now 0" using r(2) r(3) [rule_format, of 0] by (simp add: flag_hits_def)
  with r show ?thesis by (auto simp: Let_def)
qed

lemma flag_post_loop_same:
  "snd (flag_post_loop flags ps s k) = k \<and> (fst (flag_post_loop flags ps s k) = Some True \<longrightarrow> s)"
  by (induction ps arbitrary: s) (auto simp: flag_task_ready_def Let_def)

text \<open>
  Posting flags wakes nobody: the body of \<^verbatim>\<open>flag_task_ready\<close> is compiled out, so
  whatever the group and its waiters are, \<^verbatim>\<open>flag_post\<close> leaves every task and the ready
  queues as they were, and no waiter leaves the group.
\<close>

theorem flag_post_wakes_nobody:
  assumes "flag_post fg now1 now2 now3 cpu f flags opt (fgs, k) = Some (r, fgs', k')"
  shows "k' = k \<and> map_option f_wait (fgs' f) = map_option f_wait (fgs f)"
proof -
  from assms obtain bad where bad: "invalid_flag f fgs = Some bad"
    by (auto simp: flag_post_def split: option.splits)
  show ?thesis
  proof (cases "bad \<or> opt > FLAG_SET")
    case True
    then show ?thesis using assms bad by (auto simp: flag_post_def)
  next
    case False
    then obtain g where lk: "lock_flag f fgs = Some g"
      using assms bad by (auto simp: flag_post_def split: option.splits)
    define g2 where "g2 = (if opt = FLAG_CLR then g\<lparr>f_flags := f_flags g AND NOT flags\<rparr>
      else if opt = FLAG_SET then g\<lparr>f_flags := f_flags g OR flags\<rparr> else g)"
    obtain r k1 where lp: "flag_post_loop (f_flags g2) (f_wait g2) False k = (r, k1)" by fastforce
    have "k1 = k" "r \<noteq> Some True"
      using flag_post_loop_same [of "f_flags g2" "f_wait g2" False k] by (simp_all add: lp)
    then have "k' = k" "fgs' = unlock_flag f g2 fgs"
      using assms bad False lk lp unfolding g2_def [symmetric]
      by (cases r; simp add: flag_post_def g2_def [symmetric])+
    moreover have "f_wait g2 = f_wait g" by (simp add: g2_def)
    ultimately show ?thesis using lk by (auto simp: unlock_flag_def lock_flag_def split: option.splits if_splits)
  qed
qed

theorem flag_post_wakes_nobody_witness:
  "let n = \<lparr>n_addr = 1, n_task = 7, n_grp = 9, n_flags = 4, n_wait_type = FLAG_WAIT_SET_ANY\<rparr>;
       g = \<lparr>f_type = OS_EVENT_TYPE_FLAG, f_wait = [n], f_flags = 1, f_locked = False\<rparr> in
   flag_post (\<lambda>_. False) 0 0 0 0 9 4 FLAG_SET ([9 \<mapsto> g], one_waiter) = Some (5, [9 \<mapsto> g\<lparr>f_flags := 5\<rparr>], one_waiter) \<and>
   one_waiter = one_waiter \<and> map_option f_wait ([9 \<mapsto> g\<lparr>f_flags := 5\<rparr>] 9) = map_option f_wait ([9 \<mapsto> g] 9)"
proof -
  let ?n = "\<lparr>n_addr = 1, n_task = 7, n_grp = 9, n_flags = 4, n_wait_type = FLAG_WAIT_SET_ANY\<rparr>"
  let ?g = "\<lparr>f_type = OS_EVENT_TYPE_FLAG, f_wait = [?n], f_flags = 1, f_locked = False\<rparr>"
  have "flag_post (\<lambda>_. False) 0 0 0 0 9 4 FLAG_SET ([9 \<mapsto> ?g], one_waiter)
      = Some (5, [9 \<mapsto> ?g\<lparr>f_flags := 5\<rparr>], one_waiter)"
    by (simp add: flag_post_def invalid_flag_def lock_flag_def unlock_flag_def flag_defs flag_task_ready_def Let_def)
  from flag_post_wakes_nobody [OF this] this show ?thesis by (simp add: Let_def)
qed

end
