(* ===== verification/Bootmem.thy ===== *)
theory Bootmem
  imports Minos_Prelude
begin

text \<open>
  Boot memory, \<^verbatim>\<open>os/core/bootmem.c\<close>: until the memory manager runs, memory is taken
  from the bottom of a region and pages from its top. A panic is \<open>None\<close>.
\<close>

section \<open>Operations\<close>

record bootmem =
  bootmem_start :: u64
  bootmem_end :: u64
  bootmem_size :: u64
  bootmem_page_base :: u64

definition BOOTMEM_MIN_SIZE :: u64 where "BOOTMEM_MIN_SIZE = 32 * 1024"

definition alloc_boot_mem :: "u64 \<Rightarrow> bootmem \<Rightarrow> (u64 \<times> bootmem) option" where
  "alloc_boot_mem size_req s =
    (let request_size = BALIGN size_req 8 in
     if bootmem_size s < request_size then None
     else Some (bootmem_start s, s\<lparr>bootmem_start := bootmem_start s + request_size,
                                  bootmem_size := bootmem_size s - request_size\<rparr>))"

text \<open>
  \<^verbatim>\<open>pages * PAGE_SIZE\<close> is a product of two 32-bit \<^verbatim>\<open>int\<close>s, converted to
  \<^verbatim>\<open>size_t\<close> afterwards.
\<close>

definition boot_pages_size :: "int \<Rightarrow> u64" where
  "boot_pages_size pages = word_of_int (sint (word_of_int (pages * 0x1000) :: 32 word))"

definition alloc_boot_pages :: "int \<Rightarrow> bootmem \<Rightarrow> (u64 \<times> bootmem) option" where
  "alloc_boot_pages pages s =
    (let request_size = boot_pages_size pages in
     if pages \<le> 0 then Some (0, s)
     else if bootmem_size s < request_size then None
     else if bootmem_page_base s - request_size < bootmem_start s then None
     else let base = bootmem_page_base s - request_size
          in Some (base, s\<lparr>bootmem_page_base := base, bootmem_size := bootmem_size s - request_size\<rparr>))"

text \<open>
  \<^verbatim>\<open>bootmem_init\<close> without \<^verbatim>\<open>CONFIG_SIMPLE_MM_ALLOCATER\<close>; the configured size and
  the bounds of the image come from the build.
\<close>

definition bootmem_init :: "u64 option \<Rightarrow> u64 \<Rightarrow> u64 \<Rightarrow> u64 \<Rightarrow> bootmem option" where
  "bootmem_init config_size ram_size code_start code_end =
    (let min_size = (case config_size of
           Some c \<Rightarrow> if c < BOOTMEM_MIN_SIZE then BOOTMEM_MIN_SIZE else c
         | None \<Rightarrow> BOOTMEM_MIN_SIZE);
         sz = BALIGN (code_end - code_start) 0x1000
     in if sz + min_size \<ge> ram_size then None
        else
          let sz = ram_size - sz;
              min_size = (if min_size > sz then sz else min_size);
              start = BALIGN code_end 8;
              e = BALIGN (code_end + min_size) 0x1000
          in Some \<lparr>bootmem_start = start, bootmem_end = e, bootmem_size = e - start, bootmem_page_base = e\<rparr>)"

section \<open>Allocations do not overlap\<close>

text \<open>The size left is exactly the gap between the two ends.\<close>

definition boot_ok :: "bootmem \<Rightarrow> bool" where
  "boot_ok s \<longleftrightarrow> unat (bootmem_start s) + unat (bootmem_size s) = unat (bootmem_page_base s) \<and>
     bootmem_page_base s \<le> bootmem_end s"

datatype boot_request = Boot_mem u64 | Boot_pages int

definition request_ok :: "boot_request \<Rightarrow> bool" where
  "request_ok r = (case r of Boot_mem n \<Rightarrow> unat n + 7 < 2 ^ 64 | Boot_pages p \<Rightarrow> 0 < p \<and> p < 2 ^ 19)"

definition boot_alloc :: "boot_request \<Rightarrow> bootmem \<Rightarrow> ((nat \<times> nat) \<times> bootmem) option" where
  "boot_alloc r s =
    (case r of
       Boot_mem n \<Rightarrow> map_option (\<lambda>(b, s). ((unat b, unat n), s)) (alloc_boot_mem n s)
     | Boot_pages p \<Rightarrow> map_option (\<lambda>(b, s). ((unat b, nat p * 0x1000), s)) (alloc_boot_pages p s))"

fun boot_allocs :: "boot_request list \<Rightarrow> bootmem \<Rightarrow> ((nat \<times> nat) list \<times> bootmem) option" where
  "boot_allocs [] s = Some ([], s)"
| "boot_allocs (r # rs) s =
    (case boot_alloc r s of
       None \<Rightarrow> None
     | Some (x, s) \<Rightarrow> map_option (\<lambda>(xs, s). (x # xs, s)) (boot_allocs rs s))"

definition apart :: "nat \<times> nat \<Rightarrow> nat \<times> nat \<Rightarrow> bool" where
  "apart x y \<longleftrightarrow> fst x + snd x \<le> fst y \<or> fst y + snd y \<le> fst x"

definition inside :: "nat \<Rightarrow> nat \<Rightarrow> nat \<times> nat \<Rightarrow> bool" where
  "inside lo hi x \<longleftrightarrow> lo \<le> fst x \<and> fst x + snd x \<le> hi"

lemma boot_pages_size_eq: "0 \<le> p \<Longrightarrow> p < 2 ^ 19 \<Longrightarrow> unat (boot_pages_size p) = nat p * 0x1000"
proof -
  assume p: "0 \<le> p" "p < 2 ^ 19"
  then have "sint (word_of_int (p * 0x1000) :: 32 word) = p * 0x1000"
    unfolding sint_sbintrunc' by (simp add: signed_take_bit_int_eq_self)
  then show ?thesis
    using p unfolding boot_pages_size_def by (simp only: unat_eq_nat_uint uint_word_of_int) (simp add: nat_mult_distrib)
qed

lemma boot_alloc_step:
  assumes "boot_ok s" "request_ok r" "boot_alloc r s = Some (x, s')"
  shows "boot_ok s' \<and> bootmem_start s \<le> bootmem_start s' \<and> bootmem_page_base s' \<le> bootmem_page_base s \<and>
    bootmem_end s' = bootmem_end s \<and>
    inside (unat (bootmem_start s)) (unat (bootmem_page_base s)) x \<and>
    (fst x + snd x \<le> unat (bootmem_start s') \<or> unat (bootmem_page_base s') \<le> fst x)"
proof (cases r)
  case (Boot_mem n)
  let ?q = "BALIGN n 8"
  have "unat ?q = (unat n + 7) div 8 * 8" using unat_BALIGN [of 3 n] assms(2) Boot_mem by (simp add: request_ok_def)
  then have q: "unat n \<le> unat ?q" by simp
  have le: "unat ?q \<le> unat (bootmem_size s)" and x: "x = (unat (bootmem_start s), unat n)"
    and s': "s' = s\<lparr>bootmem_start := bootmem_start s + ?q, bootmem_size := bootmem_size s - ?q\<rparr>"
    using assms(3) Boot_mem
    by (auto simp: boot_alloc_def alloc_boot_mem_def Let_def not_less word_le_nat_alt split: if_splits)
  have "unat (bootmem_start s + ?q) = unat (bootmem_start s) + unat ?q"
    using le assms(1) unat_u64_less [of "bootmem_page_base s"] by (intro unat_add_u64) (simp add: boot_ok_def)
  moreover have "unat (bootmem_size s - ?q) = unat (bootmem_size s) - unat ?q"
    using le by (rule unat_sub_u64)
  ultimately show ?thesis
    using assms(1) q le by (simp add: boot_ok_def s' x inside_def word_le_nat_alt)
next
  case (Boot_pages p)
  let ?q = "boot_pages_size p"
  have p: "0 < p" "unat ?q = nat p * 0x1000" using assms(2) Boot_pages boot_pages_size_eq by (auto simp: request_ok_def)
  have le: "unat ?q \<le> unat (bootmem_size s)" and x: "x = (unat (bootmem_page_base s - ?q), nat p * 0x1000)"
    and s': "s' = s\<lparr>bootmem_page_base := bootmem_page_base s - ?q, bootmem_size := bootmem_size s - ?q\<rparr>"
    using assms(3) Boot_pages p(1)
    by (auto simp: boot_alloc_def alloc_boot_pages_def Let_def not_less word_le_nat_alt split: if_splits)
  have "unat (bootmem_page_base s - ?q) = unat (bootmem_page_base s) - unat ?q"
    using le assms(1) by (intro unat_sub_u64) (simp add: boot_ok_def)
  moreover have "unat (bootmem_size s - ?q) = unat (bootmem_size s) - unat ?q"
    using le by (rule unat_sub_u64)
  ultimately show ?thesis
    using assms(1) p le by (auto simp: boot_ok_def s' x inside_def word_le_nat_alt)
qed

lemma boot_allocs_apart:
  assumes "boot_ok s" "\<forall>r\<in>set rs. request_ok r" "boot_allocs rs s = Some (xs, s')"
  shows "boot_ok s' \<and> (\<forall>x\<in>set xs. inside (unat (bootmem_start s)) (unat (bootmem_page_base s)) x) \<and> sorted_wrt apart xs"
  using assms
proof (induction rs arbitrary: s xs)
  case (Cons r rs)
  obtain x s1 ys where st: "boot_alloc r s = Some (x, s1)" "boot_allocs rs s1 = Some (ys, s')" "xs = x # ys"
    using Cons.prems(3) by (auto split: option.splits prod.splits)
  have r: "request_ok r" "\<forall>r\<in>set rs. request_ok r" using Cons.prems(2) by simp_all
  note a = boot_alloc_step [OF Cons.prems(1) r(1) st(1)]
  have s1: "boot_ok s1" using a by simp
  note ih = Cons.IH [OF s1 r(2) st(2)]
  have "apart x y" if "y \<in> set ys" for y using ih a that by (auto simp: apart_def inside_def)
  moreover have "inside (unat (bootmem_start s)) (unat (bootmem_page_base s)) y" if "y \<in> set ys" for y
    using ih a that by (force simp: inside_def word_le_nat_alt)
  ultimately show ?case using ih a st(3) by auto
qed simp

section \<open>Properties\<close>

text \<open>
  C40. Boot memory is handed out once: for every sequence of requests for memory and for pages,
  in any order, the ranges handed out are pairwise disjoint and lie in the boot region, and
  the size left is always the gap between the two ends.
\<close>

theorem boot_allocations_disjoint:
  assumes "boot_ok s" "\<forall>r\<in>set rs. request_ok r" "boot_allocs rs s = Some (xs, s')"
  shows "sorted_wrt apart xs \<and> boot_ok s' \<and>
    (\<forall>x\<in>set xs. inside (unat (bootmem_start s)) (unat (bootmem_page_base s)) x)"
  using boot_allocs_apart [OF assms] by blast

theorem boot_allocations_disjoint_witness:
  "let s = \<lparr>bootmem_start = 0x1000, bootmem_end = 0x9000, bootmem_size = 0x8000, bootmem_page_base = 0x9000\<rparr> in
   \<exists>s'. boot_allocs [Boot_mem 20, Boot_pages 2, Boot_mem 8] s = Some ([(0x1000, 20), (0x7000, 0x2000), (0x1018, 8)], s') \<and>
     sorted_wrt apart [(0x1000, 20), (0x7000, 0x2000), (0x1018, 8)] \<and> boot_ok s'"
proof -
  let ?s = "\<lparr>bootmem_start = 0x1000, bootmem_end = 0x9000, bootmem_size = 0x8000, bootmem_page_base = 0x9000\<rparr>"
  have "map_option fst (boot_allocs [Boot_mem 20, Boot_pages 2, Boot_mem 8] ?s)
      = Some [(0x1000, 20), (0x7000, 0x2000), (0x1018, 8)]"
    by (simp add: boot_alloc_def alloc_boot_mem_def alloc_boot_pages_def boot_pages_size_def BALIGN_def Let_def)
  then obtain s' where s': "boot_allocs [Boot_mem 20, Boot_pages 2, Boot_mem 8] ?s
      = Some ([(0x1000, 20), (0x7000, 0x2000), (0x1018, 8)], s')" by auto
  have "boot_ok ?s" by (simp add: boot_ok_def)
  moreover have "\<forall>r\<in>set [Boot_mem 20, Boot_pages 2, Boot_mem 8]. request_ok r" by (simp add: request_ok_def)
  ultimately show ?thesis using boot_allocations_disjoint [OF _ _ s'] s' by (simp add: Let_def)
qed

end
