(* ===== verification/Mem_Region.thy ===== *)
theory Mem_Region
  imports Bootmem Prio_Table
begin

text \<open>
  The memory map of the machine, \<^verbatim>\<open>os/core/mm.c\<close>: a list of regions with flags, to which
  the device tree adds regions and from which it splits off the memory of the guests. The
  list nodes come from boot memory; a panic is \<open>None\<close>.
\<close>

section \<open>Operations\<close>

definition MEMORY_REGION_TYPE_NORMAL :: nat where "MEMORY_REGION_TYPE_NORMAL = 0"
definition MEMORY_REGION_TYPE_DMA :: nat where "MEMORY_REGION_TYPE_DMA = 1"
definition MEMORY_REGION_TYPE_RSV :: nat where "MEMORY_REGION_TYPE_RSV = 2"
definition MEMORY_REGION_TYPE_VM :: nat where "MEMORY_REGION_TYPE_VM = 3"
definition MEMORY_REGION_TYPE_DTB :: nat where "MEMORY_REGION_TYPE_DTB = 4"

record memory_region =
  r_flags :: u32
  r_phy_base :: u64
  r_vir_base :: u64
  r_size :: u64

type_synonym mem_map = "memory_region list \<times> bootmem"

text \<open>A new node at the end of the list: 56 bytes of boot memory.\<close>

definition region_new :: "u64 \<Rightarrow> u64 \<Rightarrow> u32 \<Rightarrow> mem_map \<Rightarrow> mem_map option" where
  "region_new base sz flags m =
    (case alloc_boot_mem 56 (snd m) of
       None \<Rightarrow> None
     | Some (a, bm) \<Rightarrow>
         if a = 0 then None
         else Some (fst m @ [\<lparr>r_flags = flags, r_phy_base = base, r_vir_base = base, r_size = sz\<rparr>], bm))"

definition region_conflict :: "u64 \<Rightarrow> u64 \<Rightarrow> memory_region \<Rightarrow> bool" where
  "region_conflict base sz r =
    (let r_end = r_phy_base r + r_size r - 1
     in \<not> (base > r_end \<or> base + sz < r_phy_base r))"

definition add_memory_region :: "u64 \<Rightarrow> u64 \<Rightarrow> u32 \<Rightarrow> mem_map \<Rightarrow> (int \<times> mem_map) option" where
  "add_memory_region base sz flags m =
    (if sz = 0 then Some (- EINVAL, m)
     else if list_ex (region_conflict base sz) (fst m) then Some (- EINVAL, m)
     else map_option (\<lambda>m. (0, m)) (region_new base sz flags m))"

text \<open>The first region of the list that the loop of \<^verbatim>\<open>split_memory_region\<close> does not skip.\<close>

definition split_hit :: "u64 \<Rightarrow> u64 \<Rightarrow> memory_region \<Rightarrow> bool" where
  "split_hit base new_end r =
    (let start = r_vir_base r; e = start + r_size r
     in \<not> (base > e \<or> base < start \<or> new_end > e))"

definition split_memory_region :: "u64 \<Rightarrow> u64 \<Rightarrow> u32 \<Rightarrow> mem_map \<Rightarrow> (int \<times> mem_map) option" where
  "split_memory_region base sz flags m =
    (let new_end = base + sz; rs = fst m in
     if sz = 0 then Some (- EINVAL, m)
     else case find (\<lambda>i. split_hit base new_end (rs ! i)) [0..<length rs] of
         None \<Rightarrow> None
       | Some i \<Rightarrow>
           let r = rs ! i; start = r_vir_base r; e = start + r_size r;
               add_tmp = (\<lambda>m. map_option (\<lambda>m. (0, m)) (region_new base sz flags m))
           in if base = start \<and> new_end = e then Some (0, rs[i := r\<lparr>r_flags := flags\<rparr>], snd m)
              else if base = start \<and> new_end < e then
                add_tmp (rs[i := r\<lparr>r_vir_base := new_end, r_phy_base := new_end, r_size := r_size r - sz\<rparr>], snd m)
              else if base > start \<and> new_end < e then
                (case region_new new_end (e - new_end) (r_flags r) m of
                   None \<Rightarrow> None
                 | Some (rs, bm) \<Rightarrow> add_tmp (rs[i := r\<lparr>r_size := base - start\<rparr>], bm))
              else if base > start \<and> e = new_end then
                add_tmp (rs[i := r\<lparr>r_size := r_size r - sz\<rparr>], snd m)
              else Some (- EINVAL, m))"

definition memory_region_type :: "memory_region \<Rightarrow> nat" where
  "memory_region_type r = ffs8 (ucast (r_flags r AND 0xff))"

text \<open>
  \<^verbatim>\<open>map_os_memory\<close>: the mappings it asks \<^verbatim>\<open>create_host_mapping\<close> for, as (virtual base,
  physical base, size, flags). The variable \<^verbatim>\<open>flags\<close> lives across the iterations.
\<close>

definition VM_IO :: u64 where "VM_IO = 1"

fun map_os_memory :: "u64 \<Rightarrow> memory_region list \<Rightarrow> (u64 \<times> u64 \<times> u64 \<times> u64) list" where
  "map_os_memory flags [] = []"
| "map_os_memory flags (r # rs) =
    (let type = memory_region_type r in
     if type \<noteq> MEMORY_REGION_TYPE_NORMAL \<and> type \<noteq> MEMORY_REGION_TYPE_DMA then map_os_memory flags rs
     else let flags = (if type = MEMORY_REGION_TYPE_DMA then flags OR VM_IO else flags)
          in (r_vir_base r, r_phy_base r, r_size r, flags) # map_os_memory flags rs)"

section \<open>The map stays a partition\<close>

definition rng :: "memory_region \<Rightarrow> nat \<times> nat" where
  "rng r = (unat (r_vir_base r), unat (r_size r))"

definition region_ok :: "memory_region \<Rightarrow> bool" where
  "region_ok r \<longleftrightarrow> r_phy_base r = r_vir_base r \<and> 0 < unat (r_size r) \<and>
     unat (r_vir_base r) + unat (r_size r) < 2 ^ 64"

definition map_ok :: "memory_region list \<Rightarrow> bool" where
  "map_ok rs \<longleftrightarrow> (\<forall>r\<in>set rs. region_ok r) \<and> sorted_wrt apart (map rng rs)"

text \<open>The address \<open>a\<close> belongs to a region with the flags \<open>f\<close>.\<close>

definition mapped :: "memory_region list \<Rightarrow> nat \<Rightarrow> u32 \<Rightarrow> bool" where
  "mapped rs a f \<longleftrightarrow> (\<exists>r\<in>set rs. r_flags r = f \<and> fst (rng r) \<le> a \<and> a < fst (rng r) + snd (rng r))"

lemma apart_commute: "apart x y \<longleftrightarrow> apart y x"
  by (auto simp: apart_def)

lemma apart_piece:
  assumes "apart x y" "fst x \<le> fst x'" "fst x' + snd x' \<le> fst x + snd x" "0 < snd y" "0 < snd x'"
  shows "apart x' y"
  using assms by (auto simp: apart_def)

lemma region_end: "region_ok r \<Longrightarrow> unat (r_vir_base r + r_size r) = fst (rng r) + snd (rng r)"
  by (simp add: region_ok_def rng_def unat_add_u64)

lemma region_new_total:
  assumes "boot_ok bm" "56 \<le> unat (bootmem_size bm)" "bootmem_start bm \<noteq> 0"
  shows "\<exists>bm'. region_new base sz flags (rs, bm) =
      Some (rs @ [\<lparr>r_flags = flags, r_phy_base = base, r_vir_base = base, r_size = sz\<rparr>], bm') \<and>
    boot_ok bm' \<and> unat (bootmem_size bm') = unat (bootmem_size bm) - 56 \<and> bootmem_start bm' \<noteq> 0"
proof -
  have b: "BALIGN 56 8 = 56" by (simp add: BALIGN_def)
  let ?bm = "bm\<lparr>bootmem_start := bootmem_start bm + 56, bootmem_size := bootmem_size bm - 56\<rparr>"
  have al: "alloc_boot_mem 56 bm = Some (bootmem_start bm, ?bm)"
    using assms(2) by (simp add: alloc_boot_mem_def b not_less word_le_nat_alt)
  have "boot_ok ?bm"
    using boot_alloc_step [OF assms(1), of "Boot_mem 56"] al by (simp add: request_ok_def boot_alloc_def)
  moreover have "unat (bootmem_size bm - 56) = unat (bootmem_size bm) - 56"
    using assms(2) by (simp add: unat_sub_u64)
  moreover have "unat (bootmem_start bm + 56) = unat (bootmem_start bm) + 56"
    using assms(1,2) unat_u64_less [of "bootmem_page_base bm"] by (subst unat_add_u64) (auto simp: boot_ok_def)
  ultimately show ?thesis using assms(3) al by (auto simp: region_new_def simp flip: unat_eq_0)
qed

text \<open>Replacing a region by pieces of it, the first in its place and the others at the end.\<close>

definition within :: "memory_region \<Rightarrow> nat \<Rightarrow> bool" where
  "within r a \<longleftrightarrow> fst (rng r) \<le> a \<and> a < fst (rng r) + snd (rng r)"

definition piece_of :: "memory_region \<Rightarrow> memory_region \<Rightarrow> bool" where
  "piece_of r p \<longleftrightarrow> region_ok p \<and> fst (rng r) \<le> fst (rng p) \<and> fst (rng p) + snd (rng p) \<le> fst (rng r) + snd (rng r)"

lemma apart_pieces:
  assumes "apart (rng r) (rng q)" "piece_of r p" "region_ok q"
  shows "apart (rng p) (rng q)" "apart (rng q) (rng p)"
  using assms by (auto simp: apart_def piece_of_def region_ok_def rng_def)

lemma list_split_nth:
  assumes "i < length rs"
  obtains xs ys where "rs = xs @ rs ! i # ys" "\<And>p. rs[i := p] = xs @ p # ys"
  using assms id_take_nth_drop upd_conv_take_nth_drop by metis

lemma map_ok_middle:
  "map_ok (xs @ r # ys) \<longleftrightarrow> map_ok (xs @ ys) \<and> region_ok r \<and> (\<forall>q\<in>set xs \<union> set ys. apart (rng r) (rng q))"
  by (auto simp: map_ok_def sorted_wrt_append apart_commute)

lemma map_ok_append:
  "map_ok (xs @ ys) \<longleftrightarrow> map_ok xs \<and> map_ok ys \<and> (\<forall>x\<in>set xs. \<forall>y\<in>set ys. apart (rng x) (rng y))"
  by (auto simp: map_ok_def sorted_wrt_append)

lemma map_ok_replace:
  assumes ok: "map_ok rs" and i: "i < length rs" and ps: "\<forall>q\<in>set (p # ps). piece_of (rs ! i) q"
    and ap: "sorted_wrt apart (map rng (p # ps))"
  shows "map_ok (rs[i := p] @ ps)"
proof -
  obtain xs ys where rs: "rs = xs @ rs ! i # ys" "\<And>p. rs[i := p] = xs @ p # ys"
    using list_split_nth [OF i] by metis
  define r where "r = rs ! i"
  have ok': "map_ok (xs @ ys)" "\<forall>q\<in>set (xs @ ys). apart (rng r) (rng q)"
    using ok rs(1) by (simp_all add: r_def [symmetric] map_ok_middle Un_def)
  have oks: "region_ok q" if "q \<in> set (xs @ ys)" for q using ok'(1) that by (auto simp: map_ok_def)
  have new: "apart (rng q) (rng x)" "apart (rng x) (rng q)" if "q \<in> set (p # ps)" "x \<in> set (xs @ ys)" for q x
    using apart_pieces [of r x q] ok'(2) ps oks [OF that(2)] that by (auto simp: r_def)
  have "map_ok (xs @ p # ys)"
    unfolding map_ok_middle using ok'(1) new(1) ps by (auto simp: piece_of_def)
  moreover have "map_ok ps" using ps ap by (auto simp: map_ok_def piece_of_def)
  moreover have "apart (rng x) (rng q)" if "x \<in> set (xs @ p # ys)" "q \<in> set ps" for x q
    using new(2) [of q x] ap that by auto
  ultimately show ?thesis unfolding rs(2) map_ok_append by auto
qed

lemma mapped_simps [simp]:
  "mapped [] a f \<longleftrightarrow> False"
  "mapped (r # rs) a f \<longleftrightarrow> r_flags r = f \<and> within r a \<or> mapped rs a f"
  "mapped (xs @ ys) a f \<longleftrightarrow> mapped xs a f \<or> mapped ys a f"
  by (auto simp: mapped_def within_def)

lemma mapped_replace:
  assumes ok: "map_ok rs" and i: "i < length rs" and ps: "\<forall>q\<in>set (p # ps). piece_of (rs ! i) q"
  shows "mapped (rs[i := p] @ ps) a f \<longleftrightarrow>
    (if within (rs ! i) a then mapped (p # ps) a f else mapped rs a f)"
proof -
  obtain xs ys where rs: "rs = xs @ rs ! i # ys" "\<And>p. rs[i := p] = xs @ p # ys"
    using list_split_nth [OF i] by metis
  define r where "r = rs ! i"
  have "\<forall>q\<in>set xs \<union> set ys. apart (rng r) (rng q)"
    using ok rs(1) by (simp add: r_def [symmetric] map_ok_middle)
  then have out: "\<not> mapped xs a f" "\<not> mapped ys a f" if "within r a"
    using that by (force simp: apart_def within_def mapped_def)+
  have "within r a" if "mapped (p # ps) a f"
    using that ps unfolding mapped_def piece_of_def within_def r_def by force
  moreover have "mapped rs a f \<longleftrightarrow> mapped xs a f \<or> r_flags r = f \<and> within r a \<or> mapped ys a f"
    by (subst rs(1)) (simp add: r_def)
  ultimately show ?thesis using out unfolding rs(2) r_def [symmetric] by auto
qed

lemma find_upt_first:
  "find P [0..<n] = Some i \<Longrightarrow> i < n \<and> P i" "find P [0..<n] = None \<longleftrightarrow> (\<forall>i<n. \<not> P i)"
  by (auto simp: find_Some_iff find_None_iff)

lemma mapped_within:
  assumes "map_ok rs" "i < length rs" "within (rs ! i) a"
  shows "mapped rs a f \<longleftrightarrow> f = r_flags (rs ! i)"
  using mapped_replace [OF assms(1,2), of "rs ! i" "[]" a f] assms by (auto simp: map_ok_def piece_of_def)

lemma split_pieces:
  assumes "map_ok rs" "i < length rs" "\<forall>q\<in>set (p # ps). piece_of (rs ! i) q" "sorted_wrt apart (map rng (p # ps))"
    and lo: "fst (rng (rs ! i)) \<le> lo" "hi \<le> fst (rng (rs ! i)) + snd (rng (rs ! i))"
    and cover: "\<And>a f. within (rs ! i) a \<Longrightarrow>
      mapped (p # ps) a f \<longleftrightarrow> f = (if lo \<le> a \<and> a < hi then flags else r_flags (rs ! i))"
  shows "map_ok (rs[i := p] @ ps) \<and>
    (\<forall>a f. mapped (rs[i := p] @ ps) a f \<longleftrightarrow> (if lo \<le> a \<and> a < hi then f = flags else mapped rs a f))"
proof -
  have "within (rs ! i) a" if "lo \<le> a" "a < hi" for a using that lo by (auto simp: within_def)
  then show ?thesis
    using map_ok_replace [OF assms(1-4)] mapped_replace [OF assms(1-3)] cover mapped_within [OF assms(1,2)] by auto
qed

lemma rng_simps [simp]:
  "rng \<lparr>r_flags = f, r_phy_base = p, r_vir_base = v, r_size = s\<rparr> = (unat v, unat s)"
  "rng (r\<lparr>r_flags := f\<rparr>) = rng r" "rng (r\<lparr>r_size := s\<rparr>) = (fst (rng r), unat s)"
  "rng (r\<lparr>r_vir_base := v\<rparr>) = (unat v, snd (rng r))" "rng (r\<lparr>r_phy_base := p\<rparr>) = rng r"
  by (simp_all add: rng_def)

lemma region_conflict_iff:
  assumes "region_ok r" "unat base + unat sz < 2 ^ 64"
  shows "region_conflict base sz r \<longleftrightarrow>
    unat base < fst (rng r) + snd (rng r) \<and> fst (rng r) \<le> unat base + unat sz"
proof -
  have "unat (r_phy_base r + r_size r - 1) = fst (rng r) + snd (rng r) - 1"
    using assms(1) region_end [OF assms(1)] by (subst unat_sub_u64) (auto simp: region_ok_def rng_def)
  then show ?thesis
    using assms by (auto simp: region_conflict_def Let_def word_less_nat_alt unat_add_u64 region_ok_def rng_def)
qed

lemma split_run:
  fixes base sz flags rs bm
  assumes fi: "find (\<lambda>i. split_hit base (base + sz) (rs ! i)) [0..<length rs] = Some i"
  defines "r \<equiv> rs ! i"
  assumes r: "region_ok r" and h: "fst (rng r) \<le> unat base" "unat base + unat sz \<le> fst (rng r) + snd (rng r)"
    and sz: "0 < unat sz" and nowrap: "unat base + unat sz < 2 ^ 64"
  shows "split_memory_region base sz flags (rs, bm) =
     (if base = r_vir_base r \<and> base + sz = (r_vir_base r + r_size r) then Some (0, rs[i := r\<lparr>r_flags := flags\<rparr>], bm)
      else if base = r_vir_base r then
        map_option (\<lambda>m. (0, m)) (region_new base sz flags
          (rs[i := r\<lparr>r_vir_base := base + sz, r_phy_base := base + sz, r_size := r_size r - sz\<rparr>], bm))
      else if base + sz \<noteq> (r_vir_base r + r_size r) then
        (case region_new (base + sz) ((r_vir_base r + r_size r) - (base + sz)) (r_flags r) (rs, bm) of
           None \<Rightarrow> None
         | Some (rs, bm) \<Rightarrow> map_option (\<lambda>m. (0, m))
             (region_new base sz flags (rs[i := r\<lparr>r_size := base - r_vir_base r\<rparr>], bm)))
      else map_option (\<lambda>m. (0, m)) (region_new base sz flags (rs[i := r\<lparr>r_size := r_size r - sz\<rparr>], bm)))"
proof -
  have "fst (rng r) = unat (r_vir_base r)" "snd (rng r) = unat (r_size r)" by (simp_all add: rng_def)
  note num = word_less_nat_alt word_le_nat_alt word_unat_eq_iff this region_end [OF r] unat_add_u64 [OF nowrap]
  show ?thesis using fi sz h by (auto simp: split_memory_region_def Let_def r_def [symmetric] num)
qed

section \<open>Properties\<close>

text \<open>
  \<^verbatim>\<open>add_memory_region\<close> on a range of the address space, with boot memory for one node: it
  accepts the range exactly when every region ends at or before its base or begins after its end
  (a region that begins exactly at its end is refused); then the map is still a list of disjoint
  regions and the addresses of the range have the new flags. Otherwise it returns
  \<^verbatim>\<open>-EINVAL\<close> and the map stays.
\<close>

theorem add_memory_region_correct:
  assumes ok: "map_ok rs" "boot_ok bm" "56 \<le> unat (bootmem_size bm)" "bootmem_start bm \<noteq> 0"
    and sz: "0 < unat sz" and nowrap: "unat base + unat sz < 2 ^ 64"
  shows "\<exists>ret rs' bm'. add_memory_region base sz flags (rs, bm) = Some (ret, rs', bm') \<and>
    (if \<forall>r\<in>set rs. fst (rng r) + snd (rng r) \<le> unat base \<or> unat base + unat sz < fst (rng r)
     then ret = 0 \<and> map_ok rs' \<and>
       (\<forall>a f. mapped rs' a f \<longleftrightarrow> mapped rs a f \<or> unat base \<le> a \<and> a < unat base + unat sz \<and> f = flags)
     else ret = - EINVAL \<and> rs' = rs \<and> bm' = bm)"
proof (cases "\<forall>r\<in>set rs. fst (rng r) + snd (rng r) \<le> unat base \<or> unat base + unat sz < fst (rng r)")
  let ?t = "\<lparr>r_flags = flags, r_phy_base = base, r_vir_base = base, r_size = sz\<rparr>"
  have conf: "region_conflict base sz r \<longleftrightarrow>
      \<not> (fst (rng r) + snd (rng r) \<le> unat base \<or> unat base + unat sz < fst (rng r))" if "r \<in> set rs" for r
    using region_conflict_iff [OF _ nowrap] ok(1) that by (auto simp: map_ok_def)
  have sz': "sz \<noteq> 0" using sz by auto
  case True
  then have "map_ok (rs @ [?t])"
    using ok(1) sz nowrap by (auto simp: map_ok_def region_ok_def apart_def sorted_wrt_append)
  moreover obtain bm' where "region_new base sz flags (rs, bm) = Some (rs @ [?t], bm')"
    using region_new_total [OF ok(2-4)] by blast
  ultimately show ?thesis
    using True conf sz' by (auto simp: add_memory_region_def list_ex_iff within_def)
next
  case False
  then have "list_ex (region_conflict base sz) rs"
    using region_conflict_iff [OF _ nowrap] ok(1) by (fastforce simp: map_ok_def list_ex_iff not_le not_less)
  then show ?thesis using False by (auto simp: add_memory_region_def)
qed

text \<open>A machine with one gigabyte of memory, and boot memory in it.\<close>

abbreviation one_region :: "memory_region list" where
  "one_region \<equiv> [\<lparr>r_flags = 1, r_phy_base = 0x40000000, r_vir_base = 0x40000000, r_size = 0x40000000\<rparr>]"

abbreviation some_bootmem :: bootmem where
  "some_bootmem \<equiv> \<lparr>bootmem_start = 0x41000000, bootmem_end = 0x41010000, bootmem_size = 0x10000,
     bootmem_page_base = 0x41010000\<rparr>"

theorem add_memory_region_correct_witness:
  "(\<exists>rs' bm'. add_memory_region 0x80000000 0x1000 1 (one_region, some_bootmem) = Some (0, rs', bm') \<and> map_ok rs') \<and>
   (\<exists>bm'. add_memory_region 0x3ffff000 0x1000 1 (one_region, some_bootmem) = Some (- EINVAL, one_region, bm'))"
proof -
  have hyp: "map_ok one_region" "boot_ok some_bootmem" by (simp_all add: map_ok_def region_ok_def boot_ok_def)
  show ?thesis
    using add_memory_region_correct [OF hyp, where base = "0x80000000" and sz = "0x1000" and flags = 1]
      add_memory_region_correct [OF hyp, where base = "0x3ffff000" and sz = "0x1000" and flags = 1] by auto
qed

text \<open>
  C39. \<^verbatim>\<open>split_memory_region\<close> on a range within one region, with boot memory for two nodes:
  it succeeds, the map is still a list of disjoint regions, the addresses of the range get the
  new flags and every other address keeps its own. The four branches of the code are the four
  positions of the range in its region.
\<close>

theorem split_memory_region_correct:
  assumes ok: "map_ok rs" "boot_ok bm" "112 \<le> unat (bootmem_size bm)" "bootmem_start bm \<noteq> 0"
    and sz: "0 < unat sz" and nowrap: "unat base + unat sz < 2 ^ 64"
    and hit: "\<exists>r\<in>set rs. fst (rng r) \<le> unat base \<and> unat base + unat sz \<le> fst (rng r) + snd (rng r)"
  shows "\<exists>rs' bm'. split_memory_region base sz flags (rs, bm) = Some (0, rs', bm') \<and> map_ok rs' \<and>
    (\<forall>a f. mapped rs' a f \<longleftrightarrow> (if unat base \<le> a \<and> a < unat base + unat sz then f = flags else mapped rs a f))"
proof -
  have ne: "unat (base + sz) = unat base + unat sz" using nowrap by (rule unat_add_u64)
  have hit_iff: "split_hit base (base + sz) r \<longleftrightarrow>
      fst (rng r) \<le> unat base \<and> unat base + unat sz \<le> fst (rng r) + snd (rng r)" if "region_ok r" for r
    using ne region_end [OF that] sz
    by (auto simp: split_hit_def Let_def not_less word_le_nat_alt word_less_nat_alt rng_def)
  have oks: "\<forall>i<length rs. region_ok (rs ! i)" using ok(1) by (auto simp: map_ok_def)
  obtain i where fi: "find (\<lambda>i. split_hit base (base + sz) (rs ! i)) [0..<length rs] = Some i"
    using hit hit_iff oks find_upt_first(2) [of "\<lambda>i. split_hit base (base + sz) (rs ! i)" "length rs"]
    by (metis in_set_conv_nth option.exhaust)
  define r where "r = rs ! i"
  have i: "i < length rs" "region_ok r" using find_upt_first(1) [OF fi] oks by (auto simp: r_def)
  have h: "fst (rng r) \<le> unat base" "unat base + unat sz \<le> fst (rng r) + snd (rng r)"
    using find_upt_first(1) [OF fi] hit_iff i(2) by (auto simp: r_def)
  have e: "unat (r_vir_base r + r_size r) = fst (rng r) + snd (rng r)" using i(2) by (rule region_end)
  let ?B = "unat base" and ?S = "unat sz" and ?E = "r_vir_base r + r_size r"
  let ?t = "\<lparr>r_flags = flags, r_phy_base = base, r_vir_base = base, r_size = sz\<rparr>"
  have r: "fst (rng r) = unat (r_vir_base r)" "snd (rng r) = unat (r_size r)" "r_phy_base r = r_vir_base r"
    "fst (rng r) + snd (rng r) < 2 ^ 64"
    using i(2) by (auto simp: rng_def region_ok_def)
  have t: "piece_of r ?t" using h sz nowrap by (simp add: piece_of_def region_ok_def)
  note num = word_less_nat_alt word_le_nat_alt word_unat_eq_iff ne e r
  note fold = split_pieces [OF ok(1) i(1), folded r_def, where lo = ?B and hi = "?B + ?S" and flags = flags, OF _ _ h]
  note run = split_run [OF fi, folded r_def, OF i(2) h sz nowrap, of flags bm]
  have new1: "\<exists>bm'. region_new base sz flags (xs, bm) = Some (xs @ [?t], bm')" for xs
    using region_new_total [of bm base sz flags xs] ok(2-4) by auto
  let ?goal = "\<lambda>rs'. map_ok rs' \<and>
    (\<forall>a f. mapped rs' a f \<longleftrightarrow> (if ?B \<le> a \<and> a < ?B + ?S then f = flags else mapped rs a f))"
  consider "base = r_vir_base r" "base + sz = ?E" | "base = r_vir_base r" "base + sz \<noteq> ?E"
    | "base \<noteq> r_vir_base r" "base + sz \<noteq> ?E" | "base \<noteq> r_vir_base r" "base + sz = ?E" by blast
  then show ?thesis
  proof cases
    case 1
    have "piece_of r (r\<lparr>r_flags := flags\<rparr>)" using i(2) by (simp add: piece_of_def region_ok_def)
    then have "?goal (rs[i := r\<lparr>r_flags := flags\<rparr>] @ [])"
      using 1 by (intro fold) (auto simp: within_def num)
    then show ?thesis using run 1 by auto
  next
    case 2
    then have c: "?B = fst (rng r)" "?B + ?S < fst (rng r) + snd (rng r)" using h by (auto simp: num)
    let ?p = "r\<lparr>r_vir_base := base + sz, r_phy_base := base + sz, r_size := r_size r - sz\<rparr>"
    have u: "unat (r_size r - sz) = unat (r_size r) - ?S" using c by (intro unat_sub_u64) (simp add: num)
    have "piece_of r ?p" using c u r(4) by (auto simp: piece_of_def region_ok_def ne r)
    then have "?goal (rs[i := ?p] @ [?t])"
      using c t u by (intro fold) (auto simp: within_def apart_def ne r)
    then show ?thesis using run 2 new1 [of "rs[i := ?p]"] by auto
  next
    case 3
    then have c: "fst (rng r) < ?B" "?B + ?S < fst (rng r) + snd (rng r)" using h by (auto simp: num)
    let ?p = "r\<lparr>r_size := base - r_vir_base r\<rparr>"
    let ?n = "\<lparr>r_flags = r_flags r, r_phy_base = base + sz, r_vir_base = base + sz, r_size = ?E - (base + sz)\<rparr>"
    have u: "unat (base - r_vir_base r) = ?B - unat (r_vir_base r)"
      "unat (?E - (base + sz)) = fst (rng r) + snd (rng r) - (?B + ?S)"
      using h by (subst unat_sub_u64; simp add: num)+
    have "piece_of r ?p" "piece_of r ?n" using c u r(4) by (auto simp: piece_of_def region_ok_def ne r)
    then have "?goal (rs[i := ?p] @ [?n, ?t])"
      using c t u by (intro fold) (auto simp: within_def apart_def ne r)
    moreover obtain bm1 where "region_new (base + sz) (?E - (base + sz)) (r_flags r) (rs, bm) = Some (rs @ [?n], bm1)"
      "boot_ok bm1" "56 \<le> unat (bootmem_size bm1)" "bootmem_start bm1 \<noteq> 0"
      using region_new_total [of bm "base + sz" "?E - (base + sz)" "r_flags r" rs] ok(2-4) by auto
    moreover have "(rs @ [?n])[i := ?p] = rs[i := ?p] @ [?n]" using i(1) by (simp add: list_update_append)
    ultimately show ?thesis
      using run 3 region_new_total [of bm1 base sz flags "rs[i := ?p] @ [?n]"] by auto
  next
    case 4
    then have c: "fst (rng r) < ?B" "?B + ?S = fst (rng r) + snd (rng r)" using h by (auto simp: num)
    let ?p = "r\<lparr>r_size := r_size r - sz\<rparr>"
    have u: "unat (r_size r - sz) = unat (r_size r) - ?S" using c by (intro unat_sub_u64) (simp add: num)
    have "piece_of r ?p" using c u r(4) by (auto simp: piece_of_def region_ok_def ne r)
    then have "?goal (rs[i := ?p] @ [?t])"
      using c t u by (intro fold) (auto simp: within_def apart_def ne r)
    then show ?thesis using run 4 new1 [of "rs[i := ?p]"] by auto
  qed
qed

theorem split_memory_region_correct_witness:
  "\<exists>rs' bm'. split_memory_region 0x48000000 0x1000000 8 (one_region, some_bootmem) = Some (0, rs', bm') \<and>
     map_ok rs' \<and> mapped rs' 0x48000000 8 \<and> mapped rs' 0x49000000 1"
proof -
  have hyp: "map_ok one_region" "boot_ok some_bootmem" by (simp_all add: map_ok_def region_ok_def boot_ok_def)
  obtain rs' bm' where s: "split_memory_region 0x48000000 0x1000000 8 (one_region, some_bootmem) = Some (0, rs', bm')"
      "map_ok rs'" "\<And>a f. mapped rs' a f \<longleftrightarrow>
        (if unat (0x48000000::u64) \<le> a \<and> a < unat (0x48000000::u64) + unat (0x1000000::u64) then f = 8 else mapped one_region a f)"
    using split_memory_region_correct [OF hyp, where base = "0x48000000" and sz = "0x1000000" and flags = 8] by auto
  then show ?thesis by (auto simp: within_def)
qed

text \<open>
  \<^verbatim>\<open>map_os_memory\<close> maps the normal and the DMA regions, in order; a normal region is
  mapped as IO memory exactly when a DMA region stands before it on the list, since the flags are
  not reset between the regions.
\<close>

theorem map_os_memory_flags:
  "map_os_memory f rs = map (\<lambda>i. (r_vir_base (rs ! i), r_phy_base (rs ! i), r_size (rs ! i),
        if \<exists>j\<le>i. memory_region_type (rs ! j) = MEMORY_REGION_TYPE_DMA then f OR VM_IO else f))
      (filter (\<lambda>i. memory_region_type (rs ! i) \<in> {MEMORY_REGION_TYPE_NORMAL, MEMORY_REGION_TYPE_DMA}) [0..<length rs])"
proof (induction rs arbitrary: f)
  case (Cons r rs)
  have up: "[0..<length (r # rs)] = 0 # map Suc [0..<length rs]" by (simp add: map_Suc_upt upt_conv_Cons del: upt_Suc)
  have ex: "(\<exists>j\<le>Suc i. P ((r # rs) ! j)) \<longleftrightarrow> P r \<or> (\<exists>j\<le>i. P (rs ! j))" for P i
  proof -
    have "(\<exists>j\<le>Suc i. Q j) \<longleftrightarrow> Q 0 \<or> (\<exists>j\<le>i. Q (Suc j))" for Q
      by (metis Suc_le_mono le0 not0_implies_Suc)
    then show ?thesis by simp
  qed
  have ze: "(\<exists>j\<le>0::nat. P ((r # rs) ! j)) \<longleftrightarrow> P r" for P by simp
  have "MEMORY_REGION_TYPE_NORMAL \<noteq> MEMORY_REGION_TYPE_DMA"
    by (simp add: MEMORY_REGION_TYPE_NORMAL_def MEMORY_REGION_TYPE_DMA_def)
  then show ?case
    unfolding up filter.simps list.map filter_map comp_def nth_Cons_Suc nth_Cons_0 map_map
    by (cases "memory_region_type r = MEMORY_REGION_TYPE_DMA")
      (auto simp: Let_def Cons.IH or.assoc ze ex [of _ "\<lambda>r. memory_region_type r = MEMORY_REGION_TYPE_DMA"])
qed simp

end
