(* ===== verification/Mm_Block.thy ===== *)
theory Mm_Block
  imports Mem_Region
begin

text \<open>
  The memory sections and their blocks of 2 MB, the lower half of \<^verbatim>\<open>os/core/mm_default.c\<close>: the
  state of the allocator, the maps from addresses to sections and blocks, and the block
  allocator. A pointer to a block is the index of its section with the index of the block in
  the table of the section. Mappings asked of \<^verbatim>\<open>create_host_mapping\<close> are recorded in the state.
\<close>

section \<open>State\<close>

definition MEM_SECTION_F_NORMAL :: u32 where "MEM_SECTION_F_NORMAL = 1"
definition MEM_SECTION_F_PAGE :: u32 where "MEM_SECTION_F_PAGE = 0x100"
definition MEM_SECTION_F_BLOCK :: u32 where "MEM_SECTION_F_BLOCK = 0x200"
definition MAX_MEM_SECTIONS :: nat where "MAX_MEM_SECTIONS = 32"
definition MEM_BLOCK_SIZE :: u64 where "MEM_BLOCK_SIZE = 0x200000"
definition MEM_BLOCK_SHIFT :: nat where "MEM_BLOCK_SHIFT = 21"
definition PAGES_IN_BLOCK :: nat where "PAGES_IN_BLOCK = 512"

definition GFB_SLAB :: u64 where "GFB_SLAB = 1"
definition GFB_PAGE :: u64 where "GFB_PAGE = 2"
definition GPF_PAGE_META :: u64 where "GPF_PAGE_META = 4"
definition GFB_VM :: u64 where "GFB_VM = 8"
definition GFB_IO :: u64 where "GFB_IO = 16"
definition GFB_MASK :: u64 where "GFB_MASK = 0xffff"

definition VM_NORMAL :: u64 where "VM_NORMAL = 2"
definition VM_RW :: u64 where "VM_RW = 0x300000"

definition PAGE_METAS_IN_BLOCK :: nat where "PAGE_METAS_IN_BLOCK = 254"
definition PAGE_METAS_BITMAP_SIZE :: u64 where "PAGE_METAS_BITMAP_SIZE = 32"
definition BLOCK_BITMAP_SIZE :: u64 where "BLOCK_BITMAP_SIZE = 64"
definition PAGE_META_SIZE :: u64 where "PAGE_META_SIZE = 64 + 512 * 16"

record mem_block =
  b_phy_base :: u64
  b_flags :: u16
  b_free_pages :: u16
  b_nr_pages :: u16
  b_bm_current :: u16
  b_pages_bitmap :: u64

record mem_section =
  s_phy_base :: u64
  s_id :: nat
  s_type :: u32
  s_size :: u64
  s_nr_blocks :: u64
  s_free_blocks :: u64
  s_bitmap :: bitmap
  s_bm_end :: u64
  s_bm_current :: u64
  s_blocks :: "mem_block list"
  s_pages :: u64

record page_pool =
  pp_meta_blocks :: u32
  pp_page_blocks :: u32
  pp_meta_list :: "(nat \<times> nat) list"
  pp_block_list :: "(nat \<times> nat) list"

record slab_pool =
  sp_size :: u64
  sp_head :: u64
  sp_nr :: u64

text \<open>\<^verbatim>\<open>struct slab_header\<close>: \<open>h_next\<close> is the union of \<^verbatim>\<open>next\<close> and \<^verbatim>\<open>magic\<close>.\<close>

record slab_header =
  h_size :: u64
  h_next :: u64

record slab =
  sl_pool_nr :: nat
  sl_free_size :: int
  sl_slab_free :: u64
  sl_block_list :: "(nat \<times> nat) list"
  sl_pool :: "slab_pool list"
  sl_alloc_blocks :: u64

text \<open>
  The globals of the allocator, with the memory it keeps its own data in: \<open>bitmaps\<close> at the
  addresses \<^verbatim>\<open>pages_bitmap\<close> points to, the field \<^verbatim>\<open>phy_base\<close> of every \<^verbatim>\<open>struct page\<close>, and the slab headers.
\<close>

record mm =
  mem_sections :: "mem_section list"
  free_blocks :: u64
  page_pool :: page_pool
  io_pool :: page_pool
  pslab :: slab
  bitmaps :: "u64 \<Rightarrow> bitmap"
  page_phy :: "u64 \<Rightarrow> u64"
  headers :: "u64 \<Rightarrow> slab_header"
  host_mappings :: "(u64 \<times> u64 \<times> u64 \<times> u64) list"

abbreviation is_block_section :: "mem_section \<Rightarrow> bool" where
  "is_block_section s \<equiv> s_type s AND MEM_SECTION_F_BLOCK \<noteq> 0"

abbreviation is_page_section :: "mem_section \<Rightarrow> bool" where
  "is_page_section s \<equiv> s_type s AND MEM_SECTION_F_PAGE \<noteq> 0"

definition upd_section :: "nat \<Rightarrow> (mem_section \<Rightarrow> mem_section) \<Rightarrow> mm \<Rightarrow> mm" where
  "upd_section i f m = m\<lparr>mem_sections := (mem_sections m)[i := f (mem_sections m ! i)]\<rparr>"

definition the_block :: "mm \<Rightarrow> nat \<times> nat \<Rightarrow> mem_block" where
  "the_block m p = s_blocks (mem_sections m ! fst p) ! snd p"

definition upd_block :: "nat \<times> nat \<Rightarrow> (mem_block \<Rightarrow> mem_block) \<Rightarrow> mm \<Rightarrow> mm" where
  "upd_block p f = upd_section (fst p) (\<lambda>s. s\<lparr>s_blocks := (s_blocks s)[snd p := f (s_blocks s ! snd p)]\<rparr>)"

section \<open>Operations\<close>

definition IN_RANGE_UNSIGNED :: "u64 \<Rightarrow> u64 \<Rightarrow> u64 \<Rightarrow> bool" where
  "IN_RANGE_UNSIGNED v base sz \<longleftrightarrow> v \<ge> base \<and> v < base + sz"

definition addr_to_mem_section :: "u64 \<Rightarrow> mm \<Rightarrow> nat option" where
  "addr_to_mem_section a m =
    find (\<lambda>i. IN_RANGE_UNSIGNED a (s_phy_base (mem_sections m ! i)) (s_size (mem_sections m ! i)))
      [0..<length (mem_sections m)]"

definition offset_in_section_bitmap :: "u64 \<Rightarrow> mem_section \<Rightarrow> u64" where
  "offset_in_section_bitmap a s = drop_bit MEM_BLOCK_SHIFT (a - s_phy_base s)"

definition addr_to_mem_block :: "u64 \<Rightarrow> mm \<Rightarrow> (nat \<times> nat) option" where
  "addr_to_mem_block a m =
    (case addr_to_mem_section a m of
       None \<Rightarrow> None
     | Some i \<Rightarrow> let s = mem_sections m ! i in
         if \<not> is_block_section s then None else Some (i, unat (offset_in_section_bitmap a s)))"

definition offset_in_block_bitmap :: "u64 \<Rightarrow> mem_block \<Rightarrow> u64" where
  "offset_in_block_bitmap a b = drop_bit 12 (a - b_phy_base b)"

text \<open>\<^verbatim>\<open>__alloc_mem_block\<close> on the section with index \<open>i\<close>.\<close>

definition alloc_mem_block0 :: "nat \<Rightarrow> u64 \<Rightarrow> mm \<Rightarrow> (nat \<times> nat) option \<times> mm" where
  "alloc_mem_block0 i f m =
    (let s = mem_sections m ! i in
     if s_free_blocks s = 0 then (None, m)
     else
       let bit = find_next_zero_bit_loop (s_bitmap s) (unat (s_nr_blocks s)) (unat (s_bm_current s)) in
       if bit \<ge> unat (s_nr_blocks s) then (None, m)
       else
         let cur = s_bm_current s + 1;
             cur = (if cur \<ge> s_nr_blocks s then 0 else cur);
             m = upd_section i (\<lambda>s. s\<lparr>s_free_blocks := s_free_blocks s - 1, s_bm_current := cur,
                                     s_bitmap := bm_set_bit bit (s_bitmap s)\<rparr>) m;
             m = m\<lparr>free_blocks := free_blocks m - 1\<rparr>;
             b = \<lparr>b_phy_base = s_phy_base s + word_of_nat bit * MEM_BLOCK_SIZE, b_flags = ucast (f AND GFB_MASK),
                  b_free_pages = word_of_nat PAGES_IN_BLOCK, b_nr_pages = 0, b_bm_current = 0, b_pages_bitmap = 0\<rparr>
         in (Some (i, bit), upd_block (i, bit) (\<lambda>_. b) m))"

text \<open>The loop of \<^verbatim>\<open>alloc_mem_block\<close> over the sections.\<close>

fun alloc_mem_block_from :: "nat list \<Rightarrow> u64 \<Rightarrow> mm \<Rightarrow> (nat \<times> nat) option \<times> mm" where
  "alloc_mem_block_from [] f m = (None, m)"
| "alloc_mem_block_from (i # is) f m =
    (if \<not> is_block_section (mem_sections m ! i) then alloc_mem_block_from is f m
     else case alloc_mem_block0 i f m of
         (Some p, m) \<Rightarrow> (Some p, m)
       | (None, m) \<Rightarrow> alloc_mem_block_from is f m)"

definition alloc_mem_block :: "u64 \<Rightarrow> mm \<Rightarrow> (nat \<times> nat) option \<times> mm" where
  "alloc_mem_block flags m =
    (case alloc_mem_block_from [0..<length (mem_sections m)] flags m of
       (None, m) \<Rightarrow> (None, m)
     | (Some p, m) \<Rightarrow>
         if flags AND GFB_VM = 0 then
           let f = VM_RW OR (if flags AND GFB_IO \<noteq> 0 then VM_IO else VM_NORMAL) in
           if f AND VM_NORMAL \<noteq> 0 then (Some p, m)
           else let base = b_phy_base (the_block m p)
                in (Some p, m\<lparr>host_mappings := host_mappings m @ [(base, base, MEM_BLOCK_SIZE, f)]\<rparr>)
         else (Some p, m))"

text \<open>
  \<^verbatim>\<open>release_mem_block\<close>. With fewer than 512 free pages the code jumps to the release of the lock of
  the section, which it has not looked up: a fault. The index in the meta block passes through
  the \<^verbatim>\<open>int\<close> argument of \<^verbatim>\<open>clear_bit\<close>; beyond the map of the meta block it is a wild write.
\<close>

definition release_mem_block :: "(nat \<times> nat) option \<Rightarrow> mm \<Rightarrow> mm option" where
  "release_mem_block p m =
    (case p of
       None \<Rightarrow> Some m
     | Some p \<Rightarrow>
         let b = the_block m p in
         if unat (b_free_pages b) < PAGES_IN_BLOCK then None
         else case addr_to_mem_section (b_phy_base b) m of
             None \<Rightarrow> None
           | Some i \<Rightarrow>
               let start = unat (offset_in_section_bitmap (b_phy_base b) (mem_sections m ! i));
                   m = upd_section i (\<lambda>s. s\<lparr>s_bitmap := bitmap_clear (s_bitmap s) start 1\<rparr>) m;
                   m = m\<lparr>free_blocks := free_blocks m + 1\<rparr>
               in if ucast (b_flags b) AND GFB_PAGE = 0 then Some m
                  else case addr_to_mem_block (b_pages_bitmap b) m of
                      None \<Rightarrow> Some m
                    | Some q \<Rightarrow>
                        let start = sint (ucast ((b_pages_bitmap b - b_phy_base b) div PAGE_META_SIZE) :: 32 word);
                            bmp = b_pages_bitmap (the_block m q)
                        in if start < 0 \<or> nat start \<ge> 64 * length (bitmaps m bmp) then None
                           else Some (m\<lparr>bitmaps := (bitmaps m)(bmp := bm_clear_bit (nat start) (bitmaps m bmp))\<rparr>))"

definition has_enough_memory :: "u64 \<Rightarrow> mm \<Rightarrow> bool" where
  "has_enough_memory sz m \<longleftrightarrow> free_blocks m \<ge> drop_bit MEM_BLOCK_SHIFT sz"

section \<open>The blocks of the sections\<close>

definition sec_rng :: "mem_section \<Rightarrow> nat \<times> nat" where
  "sec_rng s = (unat (s_phy_base s), unat (s_size s))"

definition sec_ok :: "mem_section \<Rightarrow> bool" where
  "sec_ok s \<longleftrightarrow> unat (s_phy_base s) + unat (s_size s) < 2 ^ 64 \<and>
    (is_block_section s \<longrightarrow> unat (s_nr_blocks s) \<le> 64 * length (s_bitmap s) \<and>
      length (s_blocks s) = unat (s_nr_blocks s) \<and> unat (s_size s) = unat (s_nr_blocks s) * 2 ^ 21)"

definition mm_ok :: "mm \<Rightarrow> bool" where
  "mm_ok m \<longleftrightarrow> (\<forall>s\<in>set (mem_sections m). sec_ok s) \<and> sorted_wrt apart (map sec_rng (mem_sections m))"

text \<open>The pointers to blocks, those that are handed out, and the memory a block stands for.\<close>

definition block_valid :: "mm \<Rightarrow> nat \<times> nat \<Rightarrow> bool" where
  "block_valid m p \<longleftrightarrow> fst p < length (mem_sections m) \<and> is_block_section (mem_sections m ! fst p) \<and>
     snd p < unat (s_nr_blocks (mem_sections m ! fst p))"

definition block_taken :: "mm \<Rightarrow> nat \<times> nat \<Rightarrow> bool" where
  "block_taken m p \<longleftrightarrow> block_valid m p \<and> bm_bit (s_bitmap (mem_sections m ! fst p)) (snd p)"

definition block_rng :: "mm \<Rightarrow> nat \<times> nat \<Rightarrow> nat \<times> nat" where
  "block_rng m p = (unat (s_phy_base (mem_sections m ! fst p)) + snd p * 2 ^ 21, 2 ^ 21)"

lemma upd_section_simps [simp]:
  "length (mem_sections (upd_section i f m)) = length (mem_sections m)"
  "i < length (mem_sections m) \<Longrightarrow> mem_sections (upd_section i f m) ! j = (if i = j then f (mem_sections m ! i) else mem_sections m ! j)"
  "free_blocks (upd_section i f m) = free_blocks m" "page_pool (upd_section i f m) = page_pool m"
  "io_pool (upd_section i f m) = io_pool m" "pslab (upd_section i f m) = pslab m"
  "bitmaps (upd_section i f m) = bitmaps m" "page_phy (upd_section i f m) = page_phy m"
  "headers (upd_section i f m) = headers m" "host_mappings (upd_section i f m) = host_mappings m"
  by (simp_all add: upd_section_def)

lemma mm_ok_upd_section:
  assumes "mm_ok m" "i < length (mem_sections m)" "sec_rng (f (mem_sections m ! i)) = sec_rng (mem_sections m ! i)"
    and "sec_ok (f (mem_sections m ! i))"
  shows "mm_ok (upd_section i f m)"
proof -
  have "map sec_rng (mem_sections (upd_section i f m)) = map sec_rng (mem_sections m)"
    using assms(2,3) by (intro nth_equalityI) auto
  moreover have "\<forall>j<length (mem_sections m). sec_ok (mem_sections (upd_section i f m) ! j)"
    using assms by (auto simp: mm_ok_def)
  ultimately show ?thesis using assms(1) by (auto simp: mm_ok_def in_set_conv_nth)
qed

lemma apart_sections:
  assumes "mm_ok m" "i < length (mem_sections m)" "j < length (mem_sections m)" "i \<noteq> j"
  shows "apart (sec_rng (mem_sections m ! i)) (sec_rng (mem_sections m ! j))"
proof -
  have less: "apart (sec_rng (mem_sections m ! a)) (sec_rng (mem_sections m ! b))"
    if "a < b" "b < length (mem_sections m)" for a b
    using assms(1) that by (auto simp: mm_ok_def sorted_wrt_iff_nth_less)
  show ?thesis using less [of i j] less [of j i] apart_commute assms by (metis linorder_neqE_nat)
qed

lemma block_in_section:
  assumes "mm_ok m" "block_valid m p"
  shows "inside (fst (sec_rng (mem_sections m ! fst p)))
     (fst (sec_rng (mem_sections m ! fst p)) + snd (sec_rng (mem_sections m ! fst p))) (block_rng m p)"
proof -
  have "sec_ok (mem_sections m ! fst p)" using assms by (auto simp: mm_ok_def block_valid_def)
  moreover have "Suc (snd p) * 2 ^ 21 \<le> unat (s_nr_blocks (mem_sections m ! fst p)) * 2 ^ 21"
    using assms(2) by (intro mult_le_mono1) (simp add: block_valid_def)
  ultimately show ?thesis using assms(2) by (simp add: inside_def sec_rng_def block_rng_def sec_ok_def block_valid_def)
qed

lemma blocks_apart:
  assumes "mm_ok m" "block_valid m p" "block_valid m q" "p \<noteq> q"
  shows "apart (block_rng m p) (block_rng m q)"
proof (cases "fst p = fst q")
  case True
  then have "snd p < snd q \<or> snd q < snd p" using assms(4) by (metis linorder_neqE_nat prod_eqI)
  then have "Suc (snd p) * 2 ^ 21 \<le> snd q * 2 ^ 21 \<or> Suc (snd q) * 2 ^ 21 \<le> snd p * 2 ^ 21"
    by (metis Suc_leI mult_le_mono1)
  then show ?thesis using True by (auto simp: apart_def block_rng_def)
next
  case False
  then have "apart (sec_rng (mem_sections m ! fst p)) (sec_rng (mem_sections m ! fst q))"
    using apart_sections assms by (simp add: block_valid_def)
  then show ?thesis
    using block_in_section [OF assms(1,2)] block_in_section [OF assms(1,3)] by (auto simp: apart_def inside_def)
qed

text \<open>What an allocation from one section does.\<close>

definition block_given :: "mm \<Rightarrow> nat \<times> nat \<Rightarrow> u64 \<Rightarrow> mm \<Rightarrow> bool" where
  "block_given m p f m' \<longleftrightarrow> block_valid m p \<and> \<not> block_taken m p \<and> mm_ok m' \<and>
     block_valid m' = block_valid m \<and> block_rng m' = block_rng m \<and>
     (\<forall>q. block_taken m' q \<longleftrightarrow> q = p \<or> block_taken m q) \<and> (\<forall>q. q \<noteq> p \<longrightarrow> the_block m' q = the_block m q) \<and>
     unat (b_phy_base (the_block m' p)) = fst (block_rng m p) \<and>
     b_free_pages (the_block m' p) = 512 \<and> b_flags (the_block m' p) = ucast (f AND GFB_MASK)"

lemma alloc_mem_block0_none:
  assumes "alloc_mem_block0 i f m = (None, m')"
  shows "m' = m \<and> (s_free_blocks (mem_sections m ! i) = 0 \<or>
    (\<forall>b < unat (s_nr_blocks (mem_sections m ! i)). bm_bit (s_bitmap (mem_sections m ! i)) b))"
  using assms by (auto simp: alloc_mem_block0_def Let_def find_next_zero_bit_loop_none split: if_splits)

lemma alloc_mem_block0_given:
  assumes ok: "mm_ok m" and i: "i < length (mem_sections m)" "is_block_section (mem_sections m ! i)"
    and a: "alloc_mem_block0 i f m = (Some p, m')"
  shows "block_given m p f m' \<and> fst p = i"
proof -
  define s where "s = mem_sections m ! i"
  define bit where "bit = find_next_zero_bit_loop (s_bitmap s) (unat (s_nr_blocks s)) (unat (s_bm_current s))"
  have s: "sec_ok s" using ok i by (auto simp: mm_ok_def s_def)
  have bit: "bit < unat (s_nr_blocks s)" "p = (i, bit)"
    using a by (auto simp: alloc_mem_block0_def Let_def s_def [symmetric] bit_def [symmetric] split: if_splits)
  have free: "\<not> bm_bit (s_bitmap s) bit" using find_next_zero_bit_loop_found bit(1) unfolding bit_def by blast
  define b where "b = \<lparr>b_phy_base = s_phy_base s + word_of_nat bit * MEM_BLOCK_SIZE, b_flags = ucast (f AND GFB_MASK),
    b_free_pages = word_of_nat PAGES_IN_BLOCK, b_nr_pages = 0, b_bm_current = 0, b_pages_bitmap = 0\<rparr>"
  obtain cur where m': "m' = upd_block p (\<lambda>_. b) ((upd_section i (\<lambda>s. s\<lparr>s_free_blocks := s_free_blocks s - 1,
      s_bm_current := cur, s_bitmap := bm_set_bit bit (s_bitmap s)\<rparr>) m)\<lparr>free_blocks := free_blocks m - 1\<rparr>)"
    using a by (auto simp: alloc_mem_block0_def Let_def s_def [symmetric] bit_def [symmetric] b_def split: if_splits)
  define s' where "s' = s\<lparr>s_free_blocks := s_free_blocks s - 1, s_bm_current := cur,
    s_bitmap := bm_set_bit bit (s_bitmap s), s_blocks := (s_blocks s)[bit := b]\<rparr>"
  have secs: "mem_sections m' = (mem_sections m)[i := s']" "length (mem_sections m') = length (mem_sections m)"
    using i(1) by (simp_all add: m' upd_block_def upd_section_def s_def s'_def bit(2))
  have same: "s_type s' = s_type s" "s_nr_blocks s' = s_nr_blocks s" "s_phy_base s' = s_phy_base s" "s_size s' = s_size s"
    "length (s_bitmap s') = length (s_bitmap s)" "length (s_blocks s') = length (s_blocks s)" "s_blocks s' = (s_blocks s)[bit := b]"
    by (simp_all add: s'_def)
  have bits: "bm_bit (s_bitmap s') c \<longleftrightarrow> c = bit \<or> bm_bit (s_bitmap s) c" for c
    using s bit(1) i(2) by (simp add: s'_def s_def bm_simps sec_ok_def)
  have nth: "mem_sections m' ! j = (if j = i then s' else mem_sections m ! j)" for j
    using i(1) by (simp add: secs(1))
  have "mm_ok (upd_section i (\<lambda>_. s') m)"
    using s ok i(1) by (intro mm_ok_upd_section) (auto simp: sec_ok_def sec_rng_def same s_def)
  then have ok': "mm_ok m'" using secs(1) by (simp add: mm_ok_def upd_section_def)
  have valid: "block_valid m' = block_valid m"
    by (rule ext) (auto simp: block_valid_def nth same s_def secs(2) split: if_splits)
  have rng: "block_rng m' = block_rng m"
    using i(1) by (intro ext) (auto simp: block_rng_def nth same s_def)
  have taken: "block_taken m' q \<longleftrightarrow> q = p \<or> block_taken m q" for q
    using bit i by (cases q) (auto simp: block_taken_def valid nth bits s_def block_valid_def)
  have blk: "the_block m' q = (if q = p then b else the_block m q)" for q
    using bit s i by (cases q) (auto simp: the_block_def nth same s_def sec_ok_def)
  have "bit * 2 ^ 21 \<le> unat (s_size s)" "bit * 2 ^ 21 < 2 ^ 64"
    using bit(1) s i unat_u64_less [of "s_size s"] by (auto simp: sec_ok_def s_def)
  then have "unat (word_of_nat bit * MEM_BLOCK_SIZE) = bit * 2 ^ 21"
    by (simp add: MEM_BLOCK_SIZE_def unat_word_ariths unat_of_nat mod_mult_left_eq)
  then have "unat (s_phy_base s + word_of_nat bit * MEM_BLOCK_SIZE) = unat (s_phy_base s) + bit * 2 ^ 21"
    using s \<open>bit * 2 ^ 21 \<le> _\<close> by (subst unat_add_u64) (auto simp: sec_ok_def)
  moreover have "block_valid m p" "\<not> block_taken m p"
    using free bit i by (auto simp: block_valid_def block_taken_def s_def)
  ultimately show ?thesis
    using ok' valid rng taken blk bit(2)
    by (simp add: block_given_def b_def PAGES_IN_BLOCK_def block_rng_def s_def)
qed

definition free_total :: "mm \<Rightarrow> nat" where
  "free_total m = (\<Sum>i<length (mem_sections m). unat (s_free_blocks (mem_sections m ! i)))"

text \<open>No section that the loop has visited could give a block.\<close>

definition exhausted :: "mem_section \<Rightarrow> bool" where
  "exhausted s \<longleftrightarrow> is_block_section s \<longrightarrow>
     s_free_blocks s = 0 \<or> (\<forall>b < unat (s_nr_blocks s). bm_bit (s_bitmap s) b)"

lemma alloc_mem_block_from_result:
  assumes "mm_ok m" "set is \<subseteq> {..<length (mem_sections m)}" "alloc_mem_block_from is f m = (r, m')"
  shows "case r of Some p \<Rightarrow> block_given m p f m' \<and> (\<exists>i\<in>set is. is_block_section (mem_sections m ! i) \<and>
             alloc_mem_block0 i f m = (Some p, m'))
         | None \<Rightarrow> m' = m \<and> (\<forall>i\<in>set is. exhausted (mem_sections m ! i))"
  using assms
proof (induction "is" f m rule: alloc_mem_block_from.induct)
  case (2 i "is" f m)
  show ?case
  proof (cases "is_block_section (mem_sections m ! i)")
    case True
    obtain q m1 where a: "alloc_mem_block0 i f m = (q, m1)" by fastforce
    show ?thesis
    proof (cases q)
      case None
      then have "m1 = m" "exhausted (mem_sections m ! i)"
        using alloc_mem_block0_none [of i f m m1] a by (auto simp: exhausted_def)
      then show ?thesis using 2 True a None by (auto split: option.splits)
    next
      case (Some p)
      then show ?thesis using 2(3-) True a alloc_mem_block0_given [of m i f p m1] by auto
    qed
  next
    case False
    then show ?thesis using 2 by (auto simp: exhausted_def split: option.splits)
  qed
qed simp

text \<open>The views of the sections do not depend on the rest of the state.\<close>

lemma section_views:
  assumes "mem_sections m' = mem_sections m"
  shows "mm_ok m' = mm_ok m" "block_valid m' = block_valid m" "block_taken m' = block_taken m"
    "block_rng m' = block_rng m" "the_block m' = the_block m" "free_total m' = free_total m"
    "addr_to_mem_section a m' = addr_to_mem_section a m" "addr_to_mem_block a m' = addr_to_mem_block a m"
  using assms by (auto simp: mm_ok_def block_valid_def block_taken_def block_rng_def the_block_def free_total_def
      addr_to_mem_section_def addr_to_mem_block_def Let_def fun_eq_iff split: option.splits)

lemma block_given_host [simp]: "block_given m p f (m'\<lparr>host_mappings := x\<rparr>) = block_given m p f m'"
  by (simp add: block_given_def section_views [of "m'\<lparr>host_mappings := x\<rparr>" m'])

lemma alloc_mem_block_result:
  assumes "mm_ok m" "alloc_mem_block f m = (r, m')"
  shows "case r of Some p \<Rightarrow> block_given m p f m' | None \<Rightarrow> m' = m \<and> list_all exhausted (mem_sections m)"
proof -
  obtain r1 m1 where a: "alloc_mem_block_from [0..<length (mem_sections m)] f m = (r1, m1)" by fastforce
  have "r = r1" "m' = m1 \<or> (\<exists>x. m' = m1\<lparr>host_mappings := x\<rparr>)" "r = None \<longrightarrow> m' = m1"
    using assms(2) a by (auto simp: alloc_mem_block_def Let_def split: option.splits if_splits)
  moreover note alloc_mem_block_from_result [OF assms(1) _ a]
  ultimately show ?thesis by (auto simp: list_all_length lessThan_atLeast0 split: option.splits)
qed

section \<open>What a release gives back\<close>

datatype block_op = Alloc u64 | Release "nat \<times> nat"

text \<open>A run of allocations and releases, with the number of allocations that succeed.\<close>

fun block_run :: "block_op list \<Rightarrow> mm \<Rightarrow> (nat \<times> mm) option" where
  "block_run [] m = Some (0, m)"
| "block_run (Alloc f # ops) m =
    (case alloc_mem_block f m of
       (None, m) \<Rightarrow> block_run ops m
     | (Some p, m) \<Rightarrow> map_option (\<lambda>(n, m). (Suc n, m)) (block_run ops m))"
| "block_run (Release p # ops) m =
    (case release_mem_block (Some p) m of None \<Rightarrow> None | Some m \<Rightarrow> block_run ops m)"

lemma free_total_upd:
  assumes "i < length (mem_sections m)"
  shows "free_total (upd_section i f m) + unat (s_free_blocks (mem_sections m ! i)) =
    free_total m + unat (s_free_blocks (f (mem_sections m ! i)))"
proof -
  let ?S = "{..<length (mem_sections m)} - {i}"
  have "free_total (upd_section i f m) = unat (s_free_blocks (f (mem_sections m ! i))) +
      (\<Sum>j\<in>?S. unat (s_free_blocks (mem_sections (upd_section i f m) ! j)))"
    using assms by (simp add: free_total_def sum.remove [of "{..<length (mem_sections m)}" i])
  also have "(\<Sum>j\<in>?S. unat (s_free_blocks (mem_sections (upd_section i f m) ! j))) =
      (\<Sum>j\<in>?S. unat (s_free_blocks (mem_sections m ! j)))"
    using assms by (intro sum.cong) auto
  finally show ?thesis
    using assms by (simp add: free_total_def sum.remove [of "{..<length (mem_sections m)}" i])
qed

lemma free_total_alloc0:
  assumes "i < length (mem_sections m)" "alloc_mem_block0 i f m = (Some p, m')"
  shows "Suc (free_total m') = free_total m"
proof -
  obtain s' where m': "mem_sections m' = (mem_sections m)[i := s']" "s_free_blocks s' = s_free_blocks (mem_sections m ! i) - 1"
    "s_free_blocks (mem_sections m ! i) \<noteq> 0"
    using assms by (auto simp: alloc_mem_block0_def Let_def upd_block_def upd_section_def split: if_splits)
  then have "free_total m' = free_total (upd_section i (\<lambda>_. s') m)" by (simp add: free_total_def upd_section_def)
  moreover have "unat (s_free_blocks (mem_sections m ! i) - 1) = unat (s_free_blocks (mem_sections m ! i)) - 1"
    "0 < unat (s_free_blocks (mem_sections m ! i))"
    using m'(3) by (simp_all add: unat_minus_one unat_gt_0)
  ultimately show ?thesis using free_total_upd [OF assms(1), of "\<lambda>_. s'"] m'(2) by simp
qed

lemma free_total_alloc:
  assumes "mm_ok m" "alloc_mem_block f m = (r, m')"
  shows "free_total m = (if r = None then 0 else 1) + free_total m' \<and> mm_ok m'"
proof -
  obtain r1 m1 where a: "alloc_mem_block_from [0..<length (mem_sections m)] f m = (r1, m1)" by fastforce
  have r: "r = r1" "m' = m1 \<or> (\<exists>x. m' = m1\<lparr>host_mappings := x\<rparr>)"
    using assms(2) a by (auto simp: alloc_mem_block_def Let_def split: option.splits if_splits)
  have "free_total m = (if r = None then 0 else 1) + free_total m1"
    using alloc_mem_block_from_result [OF assms(1) _ a] free_total_alloc0 r(1)
    by (cases r1) (auto simp: lessThan_atLeast0)
  moreover have "mm_ok m'"
    using alloc_mem_block_result [OF assms] assms(1) by (auto simp: block_given_def split: option.splits)
  moreover have "mem_sections m' = mem_sections m1" using r(2) by auto
  ultimately show ?thesis by (simp add: section_views(6) [of m' m1])
qed

lemma free_total_release:
  assumes "mm_ok m" "release_mem_block p m = Some m'"
  shows "free_total m' = free_total m \<and> mm_ok m'"
proof (cases p)
  case (Some q)
  obtain i where i: "addr_to_mem_section (b_phy_base (the_block m q)) m = Some i"
    using assms(2) Some by (auto simp: release_mem_block_def Let_def split: if_splits option.splits)
  then have il: "i < length (mem_sections m)" by (auto simp: addr_to_mem_section_def find_Some_iff)
  let ?f = "\<lambda>s. s\<lparr>s_bitmap := bitmap_clear (s_bitmap s)
    (unat (offset_in_section_bitmap (b_phy_base (the_block m q)) (mem_sections m ! i))) 1\<rparr>"
  have "mem_sections m' = mem_sections (upd_section i ?f m)"
    using assms(2) Some i by (auto simp: release_mem_block_def Let_def split: if_splits option.splits)
  moreover have "sec_ok (?f (mem_sections m ! i))"
    using assms(1) il by (auto simp: mm_ok_def sec_ok_def dest!: nth_mem)
  then have "mm_ok (upd_section i ?f m)"
    using assms(1) il by (intro mm_ok_upd_section) (auto simp: sec_rng_def)
  ultimately show ?thesis
    using free_total_upd [OF il, of ?f] section_views(1,6) [of m' "upd_section i ?f m"] by simp
qed (use assms in \<open>simp add: release_mem_block_def\<close>)

lemma block_run_total:
  assumes "mm_ok m" "block_run ops m = Some (n, m')"
  shows "n + free_total m' = free_total m"
  using assms
proof (induction ops m arbitrary: n rule: block_run.induct)
  case (2 f ops m)
  then show ?case using free_total_alloc [OF 2(3)] by (fastforce split: prod.splits option.splits)
next
  case (3 p ops m)
  then show ?case using free_total_release [OF 3(2)] by (fastforce split: option.splits)
qed simp

section \<open>Properties\<close>

text \<open>
  C19. \<^verbatim>\<open>alloc_mem_block\<close> hands out a block that is not handed out yet, and records it: its bit was
  clear, no other bit changes, its \<^verbatim>\<open>phy_base\<close> is its place in its section, its memory is disjoint
  from that of every other block handed out. It returns NULL only when every block section is
  out of blocks, by its counter or by its map.
\<close>

theorem alloc_mem_block_correct:
  assumes "mm_ok m" "alloc_mem_block f m = (r, m')"
  shows "(case r of
      Some p \<Rightarrow> \<not> block_taken m p \<and> (\<forall>q. block_taken m' q \<longleftrightarrow> q = p \<or> block_taken m q) \<and>
        unat (b_phy_base (the_block m' p)) = fst (block_rng m p) \<and> b_free_pages (the_block m' p) = 512 \<and>
        (\<forall>q. block_taken m q \<longrightarrow> apart (block_rng m' p) (block_rng m' q)) \<and>
        (\<forall>q. q \<noteq> p \<longrightarrow> the_block m' q = the_block m q) \<and> mm_ok m'
    | None \<Rightarrow> m' = m \<and> list_all exhausted (mem_sections m))"
  using alloc_mem_block_result [OF assms] blocks_apart [OF assms(1)]
  by (fastforce simp: block_given_def block_taken_def split: option.splits)

text \<open>
  C22. A release of a block never lets a later allocation succeed: \<^verbatim>\<open>release_mem_block\<close> clears the
  bit but leaves the counter \<^verbatim>\<open>free_blocks\<close> of the section alone. In every run of allocations and
  releases, the number of allocations that succeed is exactly the loss of these counters, so
  it is bounded by their initial sum however much is released in between.
\<close>

theorem released_blocks_are_lost:
  assumes "mm_ok m" "block_run ops m = Some (n, m')"
  shows "n + free_total m' = free_total m \<and> n \<le> free_total m"
  using block_run_total [OF assms] by simp

text \<open>A machine with a block section of two blocks, the first handed out.\<close>

abbreviation two_blocks :: mm where
  "two_blocks \<equiv> \<lparr>mem_sections = [\<lparr>s_phy_base = 0x40000000, s_id = 0, s_type = 0x200, s_size = 0x400000, s_nr_blocks = 2,
       s_free_blocks = 1, s_bitmap = [1], s_bm_end = 2, s_bm_current = 1,
       s_blocks = replicate 2 \<lparr>b_phy_base = 0x40000000, b_flags = 8, b_free_pages = 512, b_nr_pages = 0, b_bm_current = 0,
         b_pages_bitmap = 0\<rparr>, s_pages = 0\<rparr>],
     free_blocks = 1, page_pool = \<lparr>pp_meta_blocks = 0, pp_page_blocks = 0, pp_meta_list = [], pp_block_list = []\<rparr>,
     io_pool = \<lparr>pp_meta_blocks = 0, pp_page_blocks = 0, pp_meta_list = [], pp_block_list = []\<rparr>,
     pslab = \<lparr>sl_pool_nr = 34, sl_free_size = 0, sl_slab_free = 0, sl_block_list = [], sl_pool = [], sl_alloc_blocks = 0\<rparr>,
     bitmaps = (\<lambda>_. []), page_phy = (\<lambda>_. 0), headers = (\<lambda>_. \<lparr>h_size = 0, h_next = 0\<rparr>), host_mappings = []\<rparr>"

lemma two_blocks_ok: "mm_ok two_blocks"
  by (simp add: mm_ok_def sec_ok_def)

theorem alloc_mem_block_correct_witness:
  "fst (alloc_mem_block 8 two_blocks) = Some (0, 1) \<and> \<not> block_taken two_blocks (0, 1) \<and>
   block_taken (snd (alloc_mem_block 8 two_blocks)) (0, 1)"
proof -
  have a: "fst (alloc_mem_block 8 two_blocks) = Some (0, 1)" by code_simp
  show ?thesis
    using alloc_mem_block_correct [OF two_blocks_ok, of 8 "Some (0, 1)" "snd (alloc_mem_block 8 two_blocks)"] a
    by (simp add: prod_eq_iff)
qed

theorem released_blocks_are_lost_witness:
  "\<exists>m'. block_run [Release (0, 0), Alloc 8, Release (0, 0), Alloc 8] two_blocks = Some (1, m') \<and>
    1 + free_total m' = free_total two_blocks"
proof -
  have "map_option fst (block_run [Release (0, 0), Alloc 8, Release (0, 0), Alloc 8] two_blocks) = Some 1" by code_simp
  then obtain m' where r: "block_run [Release (0, 0), Alloc 8, Release (0, 0), Alloc 8] two_blocks = Some (1, m')" by auto
  then show ?thesis using released_blocks_are_lost [OF two_blocks_ok r] by auto
qed

end
