(* ===== verification/Mm_Page.thy ===== *)
theory Mm_Page
  imports Mm_Block
begin

text \<open>
  The page allocator of \<^verbatim>\<open>os/core/mm_default.c\<close>: pages from the blocks of a pool, with a map and a
  \<^verbatim>\<open>struct page\<close> for each page kept in a meta block, and pages from page sections. A pointer to a
  \<^verbatim>\<open>struct page\<close> is its address; NULL is \<open>None\<close>, and a fault or a loop without end is \<open>None\<close> of the outer
  option.
\<close>

section \<open>Operations\<close>

definition get_pool :: "bool \<Rightarrow> mm \<Rightarrow> page_pool" where
  "get_pool io m = (if io then io_pool m else page_pool m)"

definition upd_pool :: "bool \<Rightarrow> (page_pool \<Rightarrow> page_pool) \<Rightarrow> mm \<Rightarrow> mm" where
  "upd_pool io f m = (if io then m\<lparr>io_pool := f (io_pool m)\<rparr> else m\<lparr>page_pool := f (page_pool m)\<rparr>)"

definition upd_bitmap :: "u64 \<Rightarrow> (bitmap \<Rightarrow> bitmap) \<Rightarrow> mm \<Rightarrow> mm" where
  "upd_bitmap a f m = m\<lparr>bitmaps := (bitmaps m)(a := f (bitmaps m a))\<rparr>"

text \<open>The loop of \<^verbatim>\<open>get_page_meta\<close> over the meta blocks of the pool.\<close>

fun get_page_meta_from :: "(nat \<times> nat) list \<Rightarrow> bool \<Rightarrow> mm \<Rightarrow> u64 option \<times> mm" where
  "get_page_meta_from [] io m = (None, m)"
| "get_page_meta_from (p # ps) io m =
    (let b = the_block m p;
         bit = find_next_zero_bit_loop (bitmaps m (b_pages_bitmap b)) PAGE_METAS_IN_BLOCK (unat (b_bm_current b));
         del = upd_pool io (\<lambda>q. q\<lparr>pp_meta_list := remove1 p (pp_meta_list q)\<rparr>)
     in if bit \<ge> PAGE_METAS_IN_BLOCK then get_page_meta_from ps io (del m)
        else
          let left = b_free_pages b - 1;
              m = (if left = 0 then del m else m);
              cur = (if bit + 1 = PAGE_METAS_IN_BLOCK then 0 else word_of_nat (bit + 1));
              m = upd_block p (\<lambda>b. b\<lparr>b_free_pages := left, b_bm_current := cur\<rparr>) m;
              m = upd_bitmap (b_pages_bitmap b) (bm_set_bit bit) m
          in (Some (b_phy_base b + word_of_nat bit * PAGE_META_SIZE), m))"

definition get_page_meta :: "bool \<Rightarrow> mm \<Rightarrow> u64 option \<times> mm" where
  "get_page_meta io m =
    (case get_page_meta_from (pp_meta_list (get_pool io m)) io m of
       (Some a, m) \<Rightarrow> (Some a, m)
     | (None, m) \<Rightarrow>
         (case alloc_mem_block GPF_PAGE_META m of
            (None, m) \<Rightarrow> (None, m)
          | (Some p, m) \<Rightarrow>
              let base = b_phy_base (the_block m p);
                  bmp = base + MEM_BLOCK_SIZE - PAGE_METAS_BITMAP_SIZE;
                  m = upd_block p (\<lambda>b. b\<lparr>b_free_pages := word_of_nat (PAGE_METAS_IN_BLOCK - 1), b_pages_bitmap := bmp,
                                          b_bm_current := 1\<rparr>) m;
                  m = upd_bitmap bmp (\<lambda>_. bm_set_bit 0 (replicate 4 0)) m;
                  m = upd_pool io (\<lambda>q. q\<lparr>pp_meta_list := p # pp_meta_list q, pp_meta_blocks := pp_meta_blocks q + 1\<rparr>) m
              in (Some base, m)))"

definition block_meta_base :: "mem_block \<Rightarrow> u64" where
  "block_meta_base b = b_pages_bitmap b + BLOCK_BITMAP_SIZE"

text \<open>
  The entries of a run of \<open>count\<close> pages from the address \<open>addr\<close>: the first one carries the count,
  the others \<^verbatim>\<open>0xfff\<close>. \<open>meta\<close> is the address of the first entry, an entry is 16 bytes.
\<close>

definition set_page_metas :: "u64 \<Rightarrow> u64 \<Rightarrow> int \<Rightarrow> mm \<Rightarrow> mm" where
  "set_page_metas meta addr count m =
    m\<lparr>page_phy := fold (\<lambda>i pp. pp(meta + 16 * word_of_nat i := (addr + 0x1000 * word_of_nat i) OR 0xfff)) [1..<nat count]
        ((page_phy m)(meta := addr OR (word_of_int count AND 0xfff)))\<rparr>"

text \<open>The position of a run of free pages; a single page is looked for from the last position on.\<close>

definition find_run :: "bitmap \<Rightarrow> nat \<Rightarrow> nat \<Rightarrow> int \<Rightarrow> int \<Rightarrow> nat option" where
  "find_run bmp sz cur count align =
    (if count = 1 then Some (find_next_zero_bit bmp sz cur)
     else bitmap_find_next_zero_area_align bmp sz 0 (nat count) (word_of_int align))"

definition alloc_pages_from_block :: "nat \<times> nat \<Rightarrow> int \<Rightarrow> int \<Rightarrow> mm \<Rightarrow> (u64 option \<times> mm) option" where
  "alloc_pages_from_block p count align m =
    (let b = the_block m p; bmp = bitmaps m (b_pages_bitmap b) in
     if uint (b_free_pages b) < count then Some (None, m)
     else case find_run bmp PAGES_IN_BLOCK (unat (b_bm_current b)) count align of
         None \<Rightarrow> None
       | Some pos \<Rightarrow>
           if pos \<ge> PAGES_IN_BLOCK then Some (None, m)
           else
             let cur = word_of_int (int pos + count);
                 cur = (if cur = word_of_nat PAGES_IN_BLOCK then 0 else cur);
                 m = upd_block p (\<lambda>b. b\<lparr>b_free_pages := b_free_pages b - word_of_int count,
                       b_bm_current := (if count = 1 \<or> align = 1 then cur else b_bm_current b)\<rparr>) m;
                 m = upd_bitmap (b_pages_bitmap b) (\<lambda>bm. bitmap_set bm pos count) m;
                 meta = block_meta_base b + 16 * word_of_nat pos;
                 addr = b_phy_base b + push_bit 12 (word_of_nat pos)
             in Some (Some meta, set_page_metas meta addr count m))"

fun alloc_pages_from_list :: "(nat \<times> nat) list \<Rightarrow> bool \<Rightarrow> int \<Rightarrow> int \<Rightarrow> mm \<Rightarrow> (u64 option \<times> mm) option" where
  "alloc_pages_from_list [] io count align m = Some (None, m)"
| "alloc_pages_from_list (p # ps) io count align m =
    (case alloc_pages_from_block p count align m of
       None \<Rightarrow> None
     | Some (None, m) \<Rightarrow> alloc_pages_from_list ps io count align m
     | Some (Some page, m) \<Rightarrow>
         Some (Some page,
           if b_free_pages (the_block m p) = 0
           then upd_pool io (\<lambda>q. q\<lparr>pp_block_list := remove1 p (pp_block_list q)\<rparr>) m else m))"

definition alloc_pages_from_pool :: "bool \<Rightarrow> int \<Rightarrow> int \<Rightarrow> u64 \<Rightarrow> mm \<Rightarrow> (u64 option \<times> mm) option" where
  "alloc_pages_from_pool io count align flags m =
    (case alloc_pages_from_list (pp_block_list (get_pool io m)) io count align m of
       None \<Rightarrow> None
     | Some (Some page, m) \<Rightarrow> Some (Some page, m)
     | Some (None, m) \<Rightarrow>
         (case alloc_mem_block flags m of
            (None, m) \<Rightarrow> Some (None, m)
          | (Some p, m) \<Rightarrow>
              (case get_page_meta io m of
                 (None, m) \<Rightarrow> Some (None, m)
               | (Some meta, m) \<Rightarrow>
                   let m = upd_bitmap meta (\<lambda>_. replicate 8 0) m;
                       m = m\<lparr>page_phy := (\<lambda>a. if a - (meta + BLOCK_BITMAP_SIZE) < 512 * 16 then 0 else page_phy m a)\<rparr>;
                       m = upd_block p (\<lambda>b. b\<lparr>b_pages_bitmap := meta\<rparr>) m;
                       m = upd_pool io (\<lambda>q. q\<lparr>pp_block_list := p # pp_block_list q, pp_page_blocks := pp_page_blocks q + 1\<rparr>) m
                   in alloc_pages_from_block p count align m)))"

text \<open>
  \<^verbatim>\<open>__alloc_pages_from_section\<close>: the condition \<^verbatim>\<open>(count = 1) || (align == 1)\<close> assigns 1 to \<^verbatim>\<open>count\<close>, which is
  1 from there on.
\<close>

definition alloc_pages_from_section0 :: "nat \<Rightarrow> int \<Rightarrow> int \<Rightarrow> mm \<Rightarrow> (u64 option \<times> mm) option" where
  "alloc_pages_from_section0 i count align m =
    (let s = mem_sections m ! i; nr = unat (s_nr_blocks s) in
     case find_run (s_bitmap s) nr (unat (s_bm_current s)) count align of
       None \<Rightarrow> None
     | Some pos \<Rightarrow>
         if pos \<ge> nr then Some (None, m)
         else
           let cur = word_of_nat (pos + 1);
               m = upd_section i (\<lambda>s. s\<lparr>s_bitmap := bitmap_set (s_bitmap s) pos count,
                     s_bm_current := (if cur \<ge> s_nr_blocks s then 0 else cur),
                     s_free_blocks := s_free_blocks s - 1\<rparr>) m;
               page = s_pages s + 16 * word_of_nat pos;
               addr = s_phy_base s + push_bit 12 (word_of_nat pos)
           in Some (Some page, set_page_metas page addr 1 m))"

fun alloc_pages_from_sections :: "nat list \<Rightarrow> int \<Rightarrow> int \<Rightarrow> mm \<Rightarrow> (u64 option \<times> mm) option" where
  "alloc_pages_from_sections [] pages align m = Some (None, m)"
| "alloc_pages_from_sections (i # is) pages align m =
    (if \<not> is_page_section (mem_sections m ! i) then alloc_pages_from_sections is pages align m
     else if s_free_blocks (mem_sections m ! i) < word_of_int pages then alloc_pages_from_sections is pages align m
     else case alloc_pages_from_section0 i pages align m of
         None \<Rightarrow> None
       | Some (Some page, m) \<Rightarrow> Some (Some page, m)
       | Some (None, m) \<Rightarrow> alloc_pages_from_sections is pages align m)"

definition alloc_pages_from_section :: "int \<Rightarrow> int \<Rightarrow> mm \<Rightarrow> (u64 option \<times> mm) option" where
  "alloc_pages_from_section pages align m = alloc_pages_from_sections [0..<length (mem_sections m)] pages align m"

definition alloc_pages :: "int \<Rightarrow> int \<Rightarrow> mm \<Rightarrow> (u64 option \<times> mm) option" where
  "alloc_pages pages align m =
    (if pages \<le> 0 \<or> align = 0 then Some (None, m)
     else if align > 1 then alloc_pages_from_pool False pages align GFB_PAGE m
     else case alloc_pages_from_section pages align m of
         None \<Rightarrow> None
       | Some (Some page, m) \<Rightarrow> Some (Some page, m)
       | Some (None, m) \<Rightarrow> alloc_pages_from_pool False pages align GFB_PAGE m)"

definition page_to_addr :: "mm \<Rightarrow> u64 \<Rightarrow> u64" where
  "page_to_addr m page = page_phy m page AND NOT 0xfff"

definition get_free_pages :: "int \<Rightarrow> int \<Rightarrow> mm \<Rightarrow> (u64 option \<times> mm) option" where
  "get_free_pages pages align m =
    map_option (\<lambda>(page, m). (map_option (page_to_addr m) page, m)) (alloc_pages pages align m)"

definition get_io_pages :: "int \<Rightarrow> int \<Rightarrow> mm \<Rightarrow> (u64 option \<times> mm) option" where
  "get_io_pages pages align m =
    map_option (\<lambda>(page, m). (map_option (page_to_addr m) page, m))
      (alloc_pages_from_pool True pages align (GFB_PAGE OR GFB_IO) m)"

text \<open>
  \<^verbatim>\<open>free_pages_in_block\<close>: the count is read from the first entry of the block, and the entries from
  the first one on are reset. Clearing beyond the map is a wild write.
\<close>

definition free_pages_in_block :: "u64 \<Rightarrow> nat \<times> nat \<Rightarrow> mm \<Rightarrow> mm option" where
  "free_pages_in_block addr p m =
    (let b = the_block m p in
     if ucast (b_flags b) AND GFB_PAGE = 0 then Some m
     else
       let start = unat (offset_in_block_bitmap addr b);
           io = (ucast (b_flags b) AND GFB_IO \<noteq> 0);
           meta = block_meta_base b;
           count = unat (page_phy m meta AND 0xfff);
           m = (if b_free_pages b = 0
                then upd_pool io (\<lambda>q. q\<lparr>pp_block_list := pp_block_list q @ [p]\<rparr>) m else m);
           m = upd_block p (\<lambda>b. b\<lparr>b_free_pages := b_free_pages b + word_of_nat count\<rparr>) m
       in if start + count > 64 * length (bitmaps m (b_pages_bitmap b)) then None
          else
            let m = upd_bitmap (b_pages_bitmap b) (\<lambda>bm. bitmap_clear bm start (int count)) m
            in Some (m\<lparr>page_phy := fold (\<lambda>i pp. pp(meta + 16 * word_of_nat i := 0)) [0..<count] (page_phy m)\<rparr>))"

text \<open>\<^verbatim>\<open>free_pages_in_section\<close>: \<^verbatim>\<open>page->phy_base && 0xffff\<close> is a truth value.\<close>

definition free_pages_in_section :: "u64 \<Rightarrow> nat \<Rightarrow> mm \<Rightarrow> mm" where
  "free_pages_in_section addr i m =
    (let s = mem_sections m ! i;
         start = drop_bit 12 (addr - s_phy_base s);
         count = (if page_phy m (s_pages s + 16 * start) \<noteq> 0 then 1 else 0)
     in upd_section i (\<lambda>s. s\<lparr>s_bitmap := bitmap_clear (s_bitmap s) (unat start) (int count),
          s_free_blocks := s_free_blocks s + word_of_nat count\<rparr>) m)"

definition free_pages :: "u64 \<Rightarrow> mm \<Rightarrow> mm option" where
  "free_pages addr m =
    (case addr_to_mem_section addr m of
       Some i \<Rightarrow>
         if is_page_section (mem_sections m ! i) then Some (free_pages_in_section addr i m)
         else (case addr_to_mem_block addr m of
             Some p \<Rightarrow> if ucast (b_flags (the_block m p)) AND GFB_PAGE \<noteq> 0 then free_pages_in_block addr p m else Some m
           | None \<Rightarrow> Some m)
     | None \<Rightarrow> Some m)"

definition release_pages :: "u64 \<Rightarrow> mm \<Rightarrow> mm option" where
  "release_pages page m = free_pages (page_to_addr m page) m"

section \<open>Addresses of pages\<close>

lemma page_mask: "(0xfff :: u64) = mask 12"
  by (simp add: mask_eq_exp_minus_1)

lemma page_aligned_add:
  fixes a x :: u64
  assumes "a AND 0xfff = 0" shows "(a + push_bit 12 x) AND NOT 0xfff = a + push_bit 12 x"
proof -
  have "a AND NOT (mask 12) = a"
  proof (rule bit_eqI)
    fix n
    have "\<not> bit (a AND mask 12) n" using assms by (simp add: page_mask)
    then show "bit (a AND NOT (mask 12)) n = bit a n" by (auto simp: bit_simps dest: bit_u64_lt)
  qed
  then have a: "a = push_bit 12 (drop_bit 12 a)" by (simp add: and_not_mask_push)
  have "push_bit 12 (drop_bit 12 a) + push_bit 12 x = push_bit 12 (drop_bit 12 a + x)"
    by (simp add: push_bit_add)
  then have "a + push_bit 12 x = push_bit 12 (drop_bit 12 a + x)" using a by metis
  then show ?thesis by (auto simp: page_mask bit_eq_iff bit_simps)
qed

lemma page_entry_addr:
  fixes a x c :: u64
  assumes "a AND 0xfff = 0"
  shows "((a + push_bit 12 x) OR (c AND 0xfff)) AND NOT 0xfff = a + push_bit 12 x"
proof -
  have "(y OR (c AND 0xfff)) AND NOT 0xfff = y AND NOT 0xfff" for y :: u64
    by (rule bit_eqI) (auto simp: bit_simps page_mask)
  then show ?thesis using page_aligned_add [OF assms] by simp
qed

lemma fold_entries_other:
  fixes meta :: u64 and g :: "nat \<Rightarrow> u64"
  assumes "set is \<subseteq> {1..<512}"
  shows "fold (\<lambda>i pp. pp(meta + 16 * word_of_nat i := g i)) is pp meta = pp meta"
  using assms
proof (induction "is" arbitrary: pp)
  case (Cons i "is")
  have "unat (16 * word_of_nat i :: u64) = 16 * i"
    using Cons.prems by (simp add: unat_word_ariths unat_of_nat)
  then have "16 * word_of_nat i \<noteq> (0 :: u64)" using Cons.prems by (metis unat_0 mult_eq_0_iff atLeastLessThan_iff insert_subset less_numeral_extra(3) list.set(2) not_one_le_zero zero_neq_numeral)
  then show ?case using Cons by simp
qed simp

lemma set_page_metas_simps [simp]:
  "mem_sections (set_page_metas x a c m) = mem_sections m" "bitmaps (set_page_metas x a c m) = bitmaps m"
  by (simp_all add: set_page_metas_def)

lemma page_phy_set_metas:
  "count \<le> 512 \<Longrightarrow> page_phy (set_page_metas meta addr count m) meta = addr OR (word_of_int count AND 0xfff)"
proof -
  assume "count \<le> 512"
  then have "set [1..<nat count] \<subseteq> {1..<512}" by auto
  from fold_entries_other [OF this] show ?thesis unfolding set_page_metas_def by simp
qed

lemma upd_bitmap_simps [simp]:
  "mem_sections (upd_bitmap a f m) = mem_sections m" "bitmaps (upd_bitmap a f m) = (bitmaps m)(a := f (bitmaps m a))"
  "page_phy (upd_bitmap a f m) = page_phy m"
  by (simp_all add: upd_bitmap_def)

lemma the_block_other [simp]:
  "the_block (set_page_metas x a c m) = the_block m" "the_block (upd_bitmap a f m) = the_block m"
  by (rule section_views(5), simp)+

lemma upd_block_simps [simp]:
  "bitmaps (upd_block p f m) = bitmaps m" "page_phy (upd_block p f m) = page_phy m"
  "length (mem_sections (upd_block p f m)) = length (mem_sections m)"
  by (simp_all add: upd_block_def)

lemma the_block_upd:
  assumes "mm_ok m" "block_valid m p"
  shows "the_block (upd_block p f m) q = (if q = p then f (the_block m p) else the_block m q)"
  using assms by (auto simp: the_block_def upd_block_def block_valid_def mm_ok_def sec_ok_def nth_list_update prod_eq_iff)

section \<open>Runs of pages\<close>

text \<open>A block that serves pages: its map has 512 bits, and its memory is page aligned.\<close>

definition page_block :: "mm \<Rightarrow> nat \<times> nat \<Rightarrow> bool" where
  "page_block m p \<longleftrightarrow> block_valid m p \<and> length (bitmaps m (b_pages_bitmap (the_block m p))) = 8 \<and>
     b_phy_base (the_block m p) AND 0xfff = 0"

abbreviation page_used :: "mm \<Rightarrow> nat \<times> nat \<Rightarrow> nat \<Rightarrow> bool" where
  "page_used m p i \<equiv> bm_bit (bitmaps m (b_pages_bitmap (the_block m p))) i"

text \<open>The position \<^verbatim>\<open>alloc_pages_from_block\<close> looks for.\<close>

definition page_run :: "mm \<Rightarrow> nat \<times> nat \<Rightarrow> int \<Rightarrow> int \<Rightarrow> nat \<Rightarrow> bool" where
  "page_run m p count align x \<longleftrightarrow> x + nat count \<le> 512 \<and> (\<forall>i. x \<le> i \<and> i < x + nat count \<longrightarrow> \<not> page_used m p i) \<and>
     (if count = 1 then unat (b_bm_current (the_block m p)) \<le> x
      else (word_of_nat x :: u64) AND (word_of_int align - 1) = 0)"

lemma find_run_result:
  assumes "0 < count"
  shows "\<exists>r. find_run bmp sz cur count align = Some r \<and>
    (let run = (\<lambda>x. x + nat count \<le> sz \<and> (\<forall>i. x \<le> i \<and> i < x + nat count \<longrightarrow> \<not> bm_bit bmp i) \<and>
        (if count = 1 then cur \<le> x else (word_of_nat x :: u64) AND (word_of_int align - 1) = 0))
     in if r < sz then run r else \<not> Ex run)"
proof (cases "count = 1")
  case True
  let ?P = "\<lambda>i. \<not> bm_bit bmp i"
  have one: "(\<forall>i. x \<le> i \<and> i < x + nat 1 \<longrightarrow> \<not> bm_bit bmp i) \<longleftrightarrow> \<not> bm_bit bmp x" for x
    by simp (metis le_antisym less_Suc_eq_le order_refl)
  show ?thesis
    using search_from_correct [of ?P sz cur] search_from_before [of cur _ ?P sz] True
    by (auto simp: find_run_def find_next_zero_bit_eq Let_def one [simplified])
next
  case False
  then obtain r where r: "bitmap_find_next_zero_area_align bmp sz 0 (nat count) (word_of_int align) = Some r"
    "if \<exists>x\<ge>0. x + nat count \<le> sz \<and> free_area bmp (nat count) (word_of_int align) x
     then 0 \<le> r \<and> r + nat count \<le> sz \<and> free_area bmp (nat count) (word_of_int align) r
       \<and> (\<forall>x. 0 \<le> x \<and> x < r \<longrightarrow> \<not> free_area bmp (nat count) (word_of_int align) x)
     else sz < r"
    using zero_area_align_correct [of "nat count" bmp sz 0 "word_of_int align"] assms by auto
  then show ?thesis
    using False assms by (auto simp: find_run_def Let_def free_area_def split: if_splits)
qed

lemma alloc_pages_from_block_result:
  assumes ok: "mm_ok m" "page_block m p" and count: "0 < count" "count \<le> uint (b_free_pages (the_block m p))"
  shows "\<exists>r m'. alloc_pages_from_block p count align m = Some (r, m') \<and>
    (case r of
       None \<Rightarrow> m' = m \<and> \<not> Ex (page_run m p count align)
     | Some page \<Rightarrow> \<exists>x. page_run m p count align x \<and>
         page = block_meta_base (the_block m p) + 16 * word_of_nat x \<and>
         page_to_addr m' page = b_phy_base (the_block m p) + push_bit 12 (word_of_nat x) \<and>
         b_pages_bitmap (the_block m' p) = b_pages_bitmap (the_block m p) \<and>
         (\<forall>i. page_used m' p i \<longleftrightarrow> page_used m p i \<or> x \<le> i \<and> i < x + nat count) \<and>
         b_free_pages (the_block m' p) = b_free_pages (the_block m p) - word_of_int count)"
proof -
  define b where "b = the_block m p"
  define bmp where "bmp = bitmaps m (b_pages_bitmap b)"
  obtain r where r: "find_run bmp 512 (unat (b_bm_current b)) count align = Some r"
      "if r < 512 then page_run m p count align r else \<not> Ex (page_run m p count align)"
    using find_run_result [OF count(1), of bmp 512 "unat (b_bm_current b)" align]
    unfolding Let_def page_run_def [abs_def] b_def bmp_def by blast
  show ?thesis
  proof (cases "r < 512")
    case False
    then show ?thesis
      using r count by (auto simp: alloc_pages_from_block_def Let_def b_def [symmetric] bmp_def [symmetric] PAGES_IN_BLOCK_def)
  next
    case True
    let ?meta = "block_meta_base b + 16 * word_of_nat r" and ?addr = "b_phy_base b + push_bit 12 (word_of_nat r)"
    obtain cur :: "mem_block \<Rightarrow> u16" where a: "alloc_pages_from_block p count align m = Some (Some ?meta, set_page_metas ?meta ?addr count
        (upd_bitmap (b_pages_bitmap b) (\<lambda>bm. bitmap_set bm r count) (upd_block p (\<lambda>b. b\<lparr>b_free_pages := b_free_pages b - word_of_int count,
            b_bm_current := cur b\<rparr>) m)))" (is "_ = Some (_, ?m')")
      using r True count by (auto simp: alloc_pages_from_block_def Let_def b_def [symmetric] bmp_def [symmetric] PAGES_IN_BLOCK_def)
    have run: "page_run m p count align r" using r(2) True by simp
    have c: "count \<le> 512" "r + nat count \<le> 512" using run count(1) by (auto simp: page_run_def)
    have blk: "the_block ?m' p = b\<lparr>b_free_pages := b_free_pages b - word_of_int count, b_bm_current := cur b\<rparr>"
      using the_block_upd [OF ok(1), of p] ok(2) by (simp add: b_def page_block_def)
    have "page_to_addr ?m' ?meta = ?addr"
      using ok(2) c(1) by (simp add: page_to_addr_def page_phy_set_metas page_entry_addr [simplified] page_block_def b_def)
    moreover have "page_used ?m' p i \<longleftrightarrow> page_used m p i \<or> r \<le> i \<and> i < r + nat count" for i
      unfolding blk using ok(2) c(2) count(1) by (auto simp: b_def bm_simps page_block_def)
    ultimately show ?thesis
      unfolding a using run blk by (auto simp: b_def simp del: the_block_other intro!: exI [of _ r])
  qed
qed

lemma upd_pool_sections [simp]:
  "mem_sections (upd_pool io f m) = mem_sections m" "bitmaps (upd_pool io f m) = bitmaps m" "page_phy (upd_pool io f m) = page_phy m"
  "the_block (upd_pool io f m) = the_block m"
proof -
  show s: "mem_sections (upd_pool io f m) = mem_sections m" by (simp add: upd_pool_def)
  show "the_block (upd_pool io f m) = the_block m" using s by (rule section_views(5))
qed (simp_all add: upd_pool_def)

lemma free_pages_in_block_result:
  assumes ok: "mm_ok m" "page_block m p" and fl: "ucast (b_flags (the_block m p)) AND GFB_PAGE \<noteq> 0"
    and fits: "unat (offset_in_block_bitmap addr (the_block m p)) + unat (page_phy m (block_meta_base (the_block m p)) AND 0xfff) \<le> 512"
  shows "\<exists>m'. free_pages_in_block addr p m = Some m' \<and>
    (let start = unat (offset_in_block_bitmap addr (the_block m p)); count = unat (page_phy m (block_meta_base (the_block m p)) AND 0xfff)
     in (\<forall>i. page_used m' p i \<longleftrightarrow> page_used m p i \<and> \<not> (start \<le> i \<and> i < start + count)) \<and>
        b_free_pages (the_block m' p) = b_free_pages (the_block m p) + word_of_nat count)"
proof -
  define b where "b = the_block m p"
  define c where "c = unat (page_phy m (block_meta_base b) AND 0xfff)"
  define x where "x = unat (offset_in_block_bitmap addr b)"
  obtain m1 where m1: "mem_sections m1 = mem_sections m" "bitmaps m1 = bitmaps m"
    and f: "free_pages_in_block addr p m = (let m = upd_bitmap (b_pages_bitmap b) (\<lambda>bm. bitmap_clear bm x (int c))
          (upd_block p (\<lambda>b. b\<lparr>b_free_pages := b_free_pages b + word_of_nat c\<rparr>) m1)
        in Some (m\<lparr>page_phy := fold (\<lambda>i pp. pp(block_meta_base b + 16 * word_of_nat i := 0)) [0..<c] (page_phy m)\<rparr>))"
  proof (rule that)
    let ?m1 = "if b_free_pages b = 0 then upd_pool (ucast (b_flags b) AND GFB_IO \<noteq> 0) (\<lambda>q. q\<lparr>pp_block_list := pp_block_list q @ [p]\<rparr>) m else m"
    show "mem_sections ?m1 = mem_sections m" "bitmaps ?m1 = bitmaps m" by simp_all
    show "free_pages_in_block addr p m = (let m = upd_bitmap (b_pages_bitmap b) (\<lambda>bm. bitmap_clear bm x (int c))
          (upd_block p (\<lambda>b. b\<lparr>b_free_pages := b_free_pages b + word_of_nat c\<rparr>) ?m1)
        in Some (m\<lparr>page_phy := fold (\<lambda>i pp. pp(block_meta_base b + 16 * word_of_nat i := 0)) [0..<c] (page_phy m)\<rparr>))"
      using ok(2) fl fits
      by (simp add: free_pages_in_block_def Let_def b_def [symmetric] c_def [symmetric] x_def [symmetric] page_block_def)
  qed
  let ?m2 = "upd_block p (\<lambda>b. b\<lparr>b_free_pages := b_free_pages b + word_of_nat c\<rparr>) m1"
  have ok1: "mm_ok m1" "block_valid m1 p" "the_block m1 = the_block m"
    using section_views [OF m1(1)] ok by (simp_all add: page_block_def)
  have blk: "the_block ?m2 p = b\<lparr>b_free_pages := b_free_pages b + word_of_nat c\<rparr>"
    using the_block_upd [OF ok1(1,2)] ok1(3) by (simp add: b_def)
  obtain m' where m': "free_pages_in_block addr p m = Some m'" "mem_sections m' = mem_sections ?m2"
    "bitmaps m' = (bitmaps m)(b_pages_bitmap b := bitmap_clear (bitmaps m (b_pages_bitmap b)) x (int c))"
    by (simp add: f Let_def m1)
  have blk': "the_block m' p = b\<lparr>b_free_pages := b_free_pages b + word_of_nat c\<rparr>"
    using blk section_views(5) [OF m'(2)] by simp
  have "page_used m' p i \<longleftrightarrow> page_used m p i \<and> \<not> (x \<le> i \<and> i < x + c)" for i
    unfolding blk' m'(3) using ok(2) fits
    by (auto simp: b_def [symmetric] c_def [symmetric] x_def [symmetric] bm_simps page_block_def)
  then show ?thesis using m'(1) blk' by (simp add: Let_def b_def [symmetric] c_def [symmetric] x_def [symmetric])
qed

lemma section_page_entry:
  assumes sec: "i < length (mem_sections m)" "unat (s_nr_blocks (mem_sections m ! i)) \<le> 64 * length (s_bitmap (mem_sections m ! i))"
    and al: "s_phy_base (mem_sections m ! i) AND 0xfff = 0" and nz: "unat (s_phy_base (mem_sections m ! i)) + x * 2 ^ 12 < 2 ^ 64"
    and x: "x < unat (s_nr_blocks (mem_sections m ! i))"
    and m': "mem_sections m' = mem_sections (upd_section i (\<lambda>s. s\<lparr>s_bitmap := bm, s_bm_current := cur, s_free_blocks := n\<rparr>) m)"
    and pp: "page_phy m' (s_pages (mem_sections m ! i) + 16 * word_of_nat x) = (s_phy_base (mem_sections m ! i) + push_bit 12 (word_of_nat x)) OR (1 AND 0xfff)"
  defines "a \<equiv> page_to_addr m' (s_pages (mem_sections m ! i) + 16 * word_of_nat x)"
  shows "mem_sections (free_pages_in_section a i m') ! i = (mem_sections m ! i)\<lparr>s_bitmap := bitmap_clear bm x 1, s_bm_current := cur, s_free_blocks := n + 1\<rparr>"
proof -
  let ?s = "mem_sections m ! i"
  have a: "a = s_phy_base ?s + push_bit 12 (word_of_nat x)"
    unfolding a_def page_to_addr_def pp by (rule page_entry_addr [OF al])
  have lt: "x * 2 ^ 12 < 2 ^ 64" using nz by simp
  have "drop_bit 12 (push_bit 12 (word_of_nat x :: u64)) = word_of_nat x"
    unfolding word_unat_eq_iff unsigned_drop_bit_eq unsigned_push_bit_eq
    using lt by (simp add: unat_of_nat take_bit_nat_eq_self push_bit_eq_mult drop_bit_eq_div)
  then have st: "drop_bit 12 (a - s_phy_base ?s) = word_of_nat x" using a by simp
  have ux: "unat (word_of_nat x :: u64) = x" using lt by (simp add: unat_of_nat)
  have "page_phy m' (s_pages ?s + 16 * word_of_nat x) \<noteq> 0"
  proof
    assume "page_phy m' (s_pages ?s + 16 * word_of_nat x) = 0"
    then have "bit (page_phy m' (s_pages ?s + 16 * word_of_nat x)) 0 = bit (0::u64) 0" by simp
    then show False by (simp add: pp bit_simps)
  qed
  then show ?thesis using sec(1) st ux m' by (simp add: free_pages_in_section_def Let_def)
qed

section \<open>Properties\<close>


text \<open>A block of pages with the first two pages taken as one run, and the next two singly.\<close>

abbreviation four_pages :: mm where
  "four_pages \<equiv> two_blocks\<lparr>mem_sections := [\<lparr>s_phy_base = 0x40000000, s_id = 0, s_type = 0x200, s_size = 0x400000,
       s_nr_blocks = 2, s_free_blocks = 1, s_bitmap = [1], s_bm_end = 2, s_bm_current = 1,
       s_blocks = [\<lparr>b_phy_base = 0x40000000, b_flags = 2, b_free_pages = 508, b_nr_pages = 0, b_bm_current = 4,
           b_pages_bitmap = 0x40200000\<rparr>, \<lparr>b_phy_base = 0x40200000, b_flags = 4, b_free_pages = 253, b_nr_pages = 0,
           b_bm_current = 1, b_pages_bitmap = 0x403fffe0\<rparr>], s_pages = 0\<rparr>],
     bitmaps := (\<lambda>a. if a = 0x40200000 then [15, 0, 0, 0, 0, 0, 0, 0] else [1, 0, 0, 0]),
     page_phy := (\<lambda>a. if a = 0x40200040 then 0x40000002 else if a = 0x40200050 then 0x40001fff
       else if a = 0x40200060 then 0x40002001 else if a = 0x40200070 then 0x40003001 else 0)\<rparr>"

lemma four_pages_ok: "mm_ok four_pages" "page_block four_pages (0, 0)"
  by (simp_all add: mm_ok_def sec_ok_def page_block_def block_valid_def the_block_def MEM_SECTION_F_BLOCK_def)


text \<open>
  \<^verbatim>\<open>free_pages_in_block\<close> frees as many pages from the given address on as the run at the first page
  of the block has: it reads the count from the first \<^verbatim>\<open>struct page\<close> of the block, not from that
  of the freed page. Pages that are still in use become free, or freed pages stay marked,
  whenever the two runs have different lengths.
\<close>

theorem free_pages_in_block_count:
  assumes "mm_ok m" "page_block m p" "ucast (b_flags (the_block m p)) AND GFB_PAGE \<noteq> 0"
    and "unat (offset_in_block_bitmap addr (the_block m p)) + unat (page_phy m (block_meta_base (the_block m p)) AND 0xfff) \<le> 512"
  shows "\<exists>m'. free_pages_in_block addr p m = Some m' \<and>
    (let start = unat (offset_in_block_bitmap addr (the_block m p)); count = unat (page_phy m (block_meta_base (the_block m p)) AND 0xfff)
     in (\<forall>i. page_used m' p i \<longleftrightarrow> page_used m p i \<and> \<not> (start \<le> i \<and> i < start + count)) \<and>
        b_free_pages (the_block m' p) = b_free_pages (the_block m p) + word_of_nat count)"
  using assms by (rule free_pages_in_block_result)

theorem free_pages_in_block_count_witness:
  "\<exists>m'. free_pages_in_block 0x40002000 (0, 0) four_pages = Some m' \<and>
     page_used four_pages (0, 0) 3 \<and> \<not> page_used m' (0, 0) 3"
proof -
  have c: "unat (offset_in_block_bitmap 0x40002000 (the_block four_pages (0, 0))) = 2"
    "unat (page_phy four_pages (block_meta_base (the_block four_pages (0, 0))) AND 0xfff) = 2"
    "ucast (b_flags (the_block four_pages (0, 0))) AND GFB_PAGE \<noteq> 0"
    by (simp_all add: the_block_def offset_in_block_bitmap_def block_meta_base_def BLOCK_BITMAP_SIZE_def GFB_PAGE_def)
  have "page_used four_pages (0, 0) 3" by (simp add: the_block_def bm_bit_def)
  moreover obtain m' where "free_pages_in_block 0x40002000 (0, 0) four_pages = Some m'"
    "\<And>i. page_used m' (0, 0) i \<longleftrightarrow> page_used four_pages (0, 0) i \<and> \<not> (2 \<le> i \<and> i < 2 + (2::nat))"
    using free_pages_in_block_count [OF four_pages_ok c(3), of "0x40002000"] unfolding c Let_def by auto
  ultimately show ?thesis by (intro exI [of _ m']) simp
qed


abbreviation page_section :: mm where
  "page_section \<equiv> two_blocks\<lparr>mem_sections := [\<lparr>s_phy_base = 0x50000000, s_id = 0, s_type = 0x101, s_size = 0x8000, s_nr_blocks = 8,
     s_free_blocks = 7, s_bitmap = [1], s_bm_end = 8, s_bm_current = 1, s_blocks = [], s_pages = 0x1000\<rparr>]\<rparr>"


end
