(* ===== verification/Slab.thy ===== *)
theory Slab
  imports Mm_Page
begin

text \<open>
  The slab allocator of \<^verbatim>\<open>os/core/mm_default.c\<close>, \<^verbatim>\<open>malloc\<close> and \<^verbatim>\<open>free\<close>: 32 pools of small slabs, a pool of
  freed big slabs, a pool of big slabs to split, and the rest of the current slab block. A slab is
  named by the address of its header; the pools are linked through the headers. NULL is \<open>None\<close> (or
  address 0 in a link); \<open>None\<close> of the outer option is a fault or a loop without end.
\<close>

section \<open>Operations\<close>

definition SLAB_HEADER_SIZE :: u64 where "SLAB_HEADER_SIZE = 16"
definition SLAB_MIN_DATA_SIZE :: u64 where "SLAB_MIN_DATA_SIZE = 16"
definition SLAB_MIN_DATA_SIZE_SHIFT :: nat where "SLAB_MIN_DATA_SIZE_SHIFT = 4"
definition SLAB_MIN_SIZE :: u64 where "SLAB_MIN_SIZE = 32"
definition SLAB_MAGIC :: u64 where "SLAB_MAGIC = 0xdeadbeef"
definition FREE_POOL_OFFSET :: nat where "FREE_POOL_OFFSET = 2"
definition CACHE_POOL_OFFSET :: nat where "CACHE_POOL_OFFSET = 1"

definition SLAB_SIZE :: "u64 \<Rightarrow> u64" where "SLAB_SIZE sz = sz + SLAB_HEADER_SIZE"
definition SLAB_HEADER_TO_ADDR :: "u64 \<Rightarrow> u64" where "SLAB_HEADER_TO_ADDR h = h + SLAB_HEADER_SIZE"
definition ADDR_TO_SLAB_HEADER :: "u64 \<Rightarrow> u64" where "ADDR_TO_SLAB_HEADER a = a - SLAB_HEADER_SIZE"

abbreviation pool_nr :: "mm \<Rightarrow> nat" where "pool_nr m \<equiv> sl_pool_nr (pslab m)"
abbreviation spool :: "mm \<Rightarrow> nat \<Rightarrow> slab_pool" where "spool m i \<equiv> sl_pool (pslab m) ! i"

definition upd_slab :: "(slab \<Rightarrow> slab) \<Rightarrow> mm \<Rightarrow> mm" where
  "upd_slab f m = m\<lparr>pslab := f (pslab m)\<rparr>"

definition upd_spool :: "nat \<Rightarrow> (slab_pool \<Rightarrow> slab_pool) \<Rightarrow> mm \<Rightarrow> mm" where
  "upd_spool i f = upd_slab (\<lambda>s. s\<lparr>sl_pool := (sl_pool s)[i := f (sl_pool s ! i)]\<rparr>)"

definition upd_header :: "u64 \<Rightarrow> (slab_header \<Rightarrow> slab_header) \<Rightarrow> mm \<Rightarrow> mm" where
  "upd_header h f m = m\<lparr>headers := (headers m)(h := f (headers m h))\<rparr>"

definition get_slab_alloc_size :: "u64 \<Rightarrow> u64" where
  "get_slab_alloc_size sz = BALIGN sz SLAB_MIN_DATA_SIZE"

text \<open>The index is computed in a C \<^verbatim>\<open>int\<close>.\<close>

definition slab_pool_id :: "u64 \<Rightarrow> mm \<Rightarrow> int" where
  "slab_pool_id sz m =
    (let id = sint (ucast (drop_bit SLAB_MIN_DATA_SIZE_SHIFT sz - 1) :: 32 word)
     in if id \<ge> int (pool_nr m) - int FREE_POOL_OFFSET then int (pool_nr m) - int FREE_POOL_OFFSET else id)"

definition add_slab_to_slab_pool :: "u64 \<Rightarrow> nat \<Rightarrow> mm \<Rightarrow> mm" where
  "add_slab_to_slab_pool h i m =
    upd_spool i (\<lambda>p. p\<lparr>sp_head := h, sp_nr := sp_nr p + 1\<rparr>)
      (upd_header h (\<lambda>x. x\<lparr>h_next := sp_head (spool m i)\<rparr>) m)"

definition add_slab_mem :: "u64 \<Rightarrow> u64 \<Rightarrow> mm \<Rightarrow> mm" where
  "add_slab_mem base sz m =
    (if sz < SLAB_MIN_SIZE then m
     else if sz \<le> SLAB_SIZE (sp_size (spool m (pool_nr m - FREE_POOL_OFFSET - 1))) then
       (let i = (sz - SLAB_HEADER_SIZE) AND NOT (SLAB_MIN_DATA_SIZE - 1) in
        if i < SLAB_MIN_DATA_SIZE then m
        else add_slab_to_slab_pool base (nat (slab_pool_id i m)) (upd_header base (\<lambda>_. \<lparr>h_size = i, h_next = 0\<rparr>) m))
     else
       add_slab_to_slab_pool base (pool_nr m - CACHE_POOL_OFFSET)
         (upd_header base (\<lambda>_. \<lparr>h_size = sz - SLAB_HEADER_SIZE, h_next = 0\<rparr>) m))"

definition alloc_new_slab_block :: "mm \<Rightarrow> int \<times> mm" where
  "alloc_new_slab_block m =
    (case alloc_mem_block GFB_SLAB m of
       (None, m) \<Rightarrow> (- ENOMEM, m)
     | (Some p, m) \<Rightarrow>
         (0, upd_slab (\<lambda>s. s\<lparr>sl_block_list := sl_block_list s @ [p], sl_free_size := uint MEM_BLOCK_SIZE,
                            sl_slab_free := b_phy_base (the_block m p), sl_alloc_blocks := sl_alloc_blocks s + 1\<rparr>)
               (upd_block p (\<lambda>b. b\<lparr>b_free_pages := 1\<rparr>) m)))"

definition get_slab_from_slab_pool :: "nat \<Rightarrow> mm \<Rightarrow> u64 \<times> mm" where
  "get_slab_from_slab_pool i m =
    (let h = sp_head (spool m i)
     in (h, upd_header h (\<lambda>x. x\<lparr>h_next := SLAB_MAGIC\<rparr>)
          (upd_spool i (\<lambda>p. p\<lparr>sp_head := h_next (headers m h), sp_nr := sp_nr p - 1\<rparr>) m)))"

definition get_slab_from_pool :: "u64 \<Rightarrow> mm \<Rightarrow> (u64 option \<times> mm) option" where
  "get_slab_from_pool sz m =
    (let id = slab_pool_id sz m in
     if id \<ge> int (pool_nr m) - int FREE_POOL_OFFSET then Some (None, m)
     else if id < 0 then None
     else if sp_head (spool m (nat id)) = 0 then Some (None, m)
     else let (h, m) = get_slab_from_slab_pool (nat id) m in Some (Some (SLAB_HEADER_TO_ADDR h), m))"

text \<open>The loop of \<^verbatim>\<open>get_slab_from_big_pool\<close>: the freed big slab of exactly the requested size.\<close>

partial_function (option) big_pool_loop :: "u64 \<Rightarrow> u64 \<Rightarrow> u64 \<Rightarrow> mm \<Rightarrow> (u64 option \<times> mm) option" where
  "big_pool_loop sz prev h m =
    (if h = 0 then Some (None, m)
     else
       let nxt = h_next (headers m h) in
       if h_size (headers m h) = sz then
         let m = (if h = prev then upd_spool (pool_nr m - FREE_POOL_OFFSET) (\<lambda>p. p\<lparr>sp_head := nxt\<rparr>) m
                  else upd_header prev (\<lambda>x. x\<lparr>h_next := nxt\<rparr>) m)
         in Some (Some (SLAB_HEADER_TO_ADDR h), upd_header h (\<lambda>x. x\<lparr>h_next := SLAB_MAGIC\<rparr>) m)
       else big_pool_loop sz h nxt m)"

definition get_slab_from_big_pool :: "u64 \<Rightarrow> mm \<Rightarrow> (u64 option \<times> mm) option" where
  "get_slab_from_big_pool sz m =
    (if slab_pool_id sz m < int (pool_nr m) - int FREE_POOL_OFFSET then Some (None, m)
     else let h = sp_head (spool m (pool_nr m - FREE_POOL_OFFSET)) in big_pool_loop sz h h m)"

text \<open>The loop of \<^verbatim>\<open>get_slab_from_cache\<close>: the first slab that is big enough is split; \<^verbatim>\<open>left_size\<close> is 32 bits.\<close>

partial_function (option) cache_loop :: "u64 \<Rightarrow> u64 \<Rightarrow> u64 \<Rightarrow> mm \<Rightarrow> (u64 option \<times> mm) option" where
  "cache_loop sz prev h m =
    (if h = 0 then Some (None, m)
     else
       let hd = headers m h; i = pool_nr m - CACHE_POOL_OFFSET in
       if h_size hd < sz then cache_loop sz h (h_next hd) m
       else
         let base = h + SLAB_SIZE sz;
             left_size = ucast (ucast (h_size hd - sz) :: 32 word);
             link = (\<lambda>x m. if prev = h then upd_spool i (\<lambda>p. p\<lparr>sp_head := x\<rparr>) m else upd_header prev (\<lambda>y. y\<lparr>h_next := x\<rparr>) m);
             m = (if left_size \<le> SLAB_SIZE 80 then add_slab_mem base left_size (link (h_next hd) m)
                  else link base (upd_header base (\<lambda>_. \<lparr>h_size = left_size - SLAB_HEADER_SIZE, h_next = h_next hd\<rparr>) m))
         in Some (Some (SLAB_HEADER_TO_ADDR h), upd_header h (\<lambda>_. \<lparr>h_size = sz, h_next = SLAB_MAGIC\<rparr>) m))"

definition get_slab_from_cache :: "u64 \<Rightarrow> mm \<Rightarrow> (u64 option \<times> mm) option" where
  "get_slab_from_cache sz m =
    (let h = sp_head (spool m (pool_nr m - CACHE_POOL_OFFSET)) in cache_loop sz h h m)"

definition get_slab_from_slab_free :: "u64 \<Rightarrow> mm \<Rightarrow> (u64 option \<times> mm) option" where
  "get_slab_from_slab_free sz m =
    (let request_size = SLAB_SIZE sz; fs = (word_of_int (sl_free_size (pslab m)) :: u64); h = sl_slab_free (pslab m) in
     if fs < request_size then Some (None, m)
     else case addr_to_mem_block h m of
         None \<Rightarrow> None
       | Some p \<Rightarrow>
           let left = fs - request_size;
               (data, start, left) = (if left < SLAB_SIZE SLAB_MIN_DATA_SIZE then (sz + left, 0, 0) else (sz, h + request_size, left));
               m = upd_header h (\<lambda>_. \<lparr>h_size = data, h_next = SLAB_MAGIC\<rparr>) m;
               m = upd_slab (\<lambda>s. s\<lparr>sl_slab_free := start, sl_free_size := sint (ucast left :: 32 word)\<rparr>) m;
               m = upd_block p (\<lambda>b. b\<lparr>b_free_pages := b_free_pages b + 1\<rparr>) m
           in Some (Some (SLAB_HEADER_TO_ADDR h), m))"

text \<open>
  The rest of the slab block goes to a pool before a new block is taken. The limit
  \<^verbatim>\<open>CONFIG_MAX_SLAB_BLOCKS\<close> is a parameter.
\<close>

definition push_slab_free :: "mm \<Rightarrow> mm option" where
  "push_slab_free m =
    (let fs = (word_of_int (sl_free_size (pslab m)) :: u64); h = sl_slab_free (pslab m) in
     if fs \<ge> SLAB_SIZE SLAB_MIN_DATA_SIZE then
       let id = slab_pool_id (fs - SLAB_HEADER_SIZE) m;
           id = (if id \<ge> int (pool_nr m) - int FREE_POOL_OFFSET then int (pool_nr m) - int CACHE_POOL_OFFSET else id)
       in case addr_to_mem_block h m of
            None \<Rightarrow> None
          | Some p \<Rightarrow>
              let m = upd_header h (\<lambda>_. \<lparr>h_size = fs - SLAB_HEADER_SIZE, h_next = SLAB_MAGIC\<rparr>) m;
                  m = add_slab_to_slab_pool h (nat id) m;
                  m = upd_slab (\<lambda>s. s\<lparr>sl_free_size := 0, sl_slab_free := 0\<rparr>) m
              in Some (upd_block p (\<lambda>b. b\<lparr>b_free_pages := b_free_pages b + 1\<rparr>) m)
     else Some m)"

definition get_new_slab :: "u64 \<Rightarrow> u64 \<Rightarrow> mm \<Rightarrow> (u64 option \<times> mm) option" where
  "get_new_slab max_blocks sz m =
    (if sl_alloc_blocks (pslab m) > max_blocks then Some (None, m)
     else case push_slab_free m of
         None \<Rightarrow> None
       | Some m \<Rightarrow>
           (case alloc_new_slab_block m of
              (ret, m) \<Rightarrow> if ret \<noteq> 0 then Some (None, m) else get_slab_from_slab_free sz m))"

text \<open>The loop of \<^verbatim>\<open>get_big_slab\<close> over the pools from \<open>id\<close> on, up to the cache pool.\<close>

definition get_big_slab :: "u64 \<Rightarrow> mm \<Rightarrow> (u64 option \<times> mm) option" where
  "get_big_slab sz m =
    (let id = slab_pool_id sz m in
     if id < 0 then None
     else case find (\<lambda>i. sp_head (spool m i) \<noteq> 0) [nat id..<pool_nr m - CACHE_POOL_OFFSET] of
         None \<Rightarrow> Some (None, m)
       | Some i \<Rightarrow> let (h, m) = get_slab_from_slab_pool i m in Some (Some (SLAB_HEADER_TO_ADDR h), m))"

text \<open>\<^verbatim>\<open>alloc_func\<close>, and the loop of \<^verbatim>\<open>malloc\<close> over it.\<close>

definition alloc_func :: "u64 \<Rightarrow> (u64 \<Rightarrow> mm \<Rightarrow> (u64 option \<times> mm) option) list" where
  "alloc_func max_blocks = [get_slab_from_pool, get_slab_from_big_pool, get_slab_from_cache, get_slab_from_slab_free,
     get_new_slab max_blocks, get_big_slab]"

fun try_funcs :: "(u64 \<Rightarrow> mm \<Rightarrow> (u64 option \<times> mm) option) list \<Rightarrow> u64 \<Rightarrow> mm \<Rightarrow> (u64 option \<times> mm) option" where
  "try_funcs [] sz m = Some (None, m)"
| "try_funcs (f # fs) sz m =
    (case f sz m of
       None \<Rightarrow> None
     | Some (Some a, m) \<Rightarrow> Some (Some a, m)
     | Some (None, m) \<Rightarrow> try_funcs fs sz m)"

definition malloc :: "u64 \<Rightarrow> u64 \<Rightarrow> mm \<Rightarrow> (u64 option \<times> mm) option" where
  "malloc max_blocks sz m =
    (if sz = 0 then Some (None, m) else try_funcs (alloc_func max_blocks) (get_slab_alloc_size sz) m)"

definition free :: "u64 \<Rightarrow> mm \<Rightarrow> mm option" where
  "free addr m =
    (let free_slab =
       (let h = ADDR_TO_SLAB_HEADER addr in
        if h_next (headers m h) \<noteq> SLAB_MAGIC then Some m
        else let id = slab_pool_id (h_size (headers m h)) m in
          if id < 0 then None else Some (add_slab_to_slab_pool h (nat id) m))
     in if addr = 0 then Some m
        else case addr_to_mem_section addr m of
            None \<Rightarrow> free_slab
          | Some i \<Rightarrow>
              if is_page_section (mem_sections m ! i) then Some (free_pages_in_section addr i m)
              else (case addr_to_mem_block addr m of
                  None \<Rightarrow> free_slab
                | Some p \<Rightarrow>
                    if ucast (b_flags (the_block m p)) AND GFB_PAGE \<noteq> 0 then free_pages_in_block addr p m else free_slab))"

definition slab_pool :: "slab_pool list" where
  "slab_pool = map (\<lambda>i. \<lparr>sp_size = (if i < 32 then 16 * word_of_nat (i + 1) else 0), sp_head = 0, sp_nr = 0\<rparr>) [0..<34]"

definition slab_init :: "mm \<Rightarrow> mm" where
  "slab_init m = m\<lparr>pslab := \<lparr>sl_pool_nr = length slab_pool, sl_free_size = 0, sl_slab_free = 0, sl_block_list = [],
     sl_pool = slab_pool, sl_alloc_blocks = 0\<rparr>\<rparr>"

end
