(* ===== verification/Slab_Inv.thy ===== *)
theory Slab_Inv
  imports Slab
begin

text \<open>
  The invariant of the slab allocator: the pools are disjoint lists through the headers, all slabs and
  the rest of the slab block are disjoint ranges of memory, apart from every block that is still to
  be handed out; and how a slab leaves a pool, enters one, is created and is shortened.
\<close>

section \<open>Lists through the headers\<close>

fun slseg :: "(u64 \<Rightarrow> slab_header) \<Rightarrow> u64 \<Rightarrow> u64 list \<Rightarrow> u64 \<Rightarrow> bool" where
  "slseg H a [] b \<longleftrightarrow> a = b"
| "slseg H a (x # xs) b \<longleftrightarrow> a = x \<and> x \<noteq> 0 \<and> slseg H (h_next (H x)) xs b"

abbreviation slist :: "(u64 \<Rightarrow> slab_header) \<Rightarrow> u64 \<Rightarrow> u64 list \<Rightarrow> bool" where
  "slist H a xs \<equiv> slseg H a xs 0"

lemma slseg_append [simp]: "slseg H a (xs @ ys) b \<longleftrightarrow> (\<exists>c. slseg H a xs c \<and> slseg H c ys b)"
  by (induction xs arbitrary: a) auto

lemma slseg_cong: "(\<And>x. x \<in> set xs \<Longrightarrow> h_next (H' x) = h_next (H x)) \<Longrightarrow> slseg H' a xs b = slseg H a xs b"
  by (induction xs arbitrary: a) auto

lemma slist_unique: "slist H a xs \<Longrightarrow> slist H a ys \<Longrightarrow> xs = ys"
proof (induction xs arbitrary: a ys)
  case Nil then show ?case by (cases ys) auto
next
  case (Cons x xs) then show ?case by (cases ys) auto
qed

lemma slist_distinct: "slist H a xs \<Longrightarrow> distinct xs"
proof (induction xs arbitrary: a)
  case (Cons x xs)
  have "x \<notin> set xs"
  proof
    assume "x \<in> set xs"
    then obtain ys zs where xs: "xs = ys @ x # zs" by (meson split_list)
    then have "slist H x (x # zs)" "slist H x (x # xs)" using Cons.prems by auto
    then have "x # zs = x # xs" by (rule slist_unique)
    then show False using xs by simp
  qed
  then show ?case using Cons by auto
qed simp

lemma slseg_relink:
  assumes "slseg H a ys b" "ys \<noteq> []" "distinct ys"
  shows "slseg (H(last ys := (H (last ys))\<lparr>h_next := c\<rparr>)) a ys c"
  using assms
proof (induction ys arbitrary: a)
  case (Cons y ys)
  show ?case
  proof (cases "ys = []")
    case False
    then have "y \<noteq> last ys" using Cons.prems by auto
    then show ?thesis using Cons False by auto
  qed (use Cons in auto)
qed simp

text \<open>The node after \<open>ys\<close> is replaced by what the new link of the last node of \<open>ys\<close>, or of the head, says.\<close>

lemma slist_relink:
  assumes l: "slist H a (ys @ h # zs)" and n: "slist H c xs" and fresh: "set xs \<inter> set ys = {}"
  shows "if ys = [] then slist H c xs else slist (H(last ys := (H (last ys))\<lparr>h_next := c\<rparr>)) a (ys @ xs)"
proof (cases "ys = []")
  case False
  let ?H = "H(last ys := (H (last ys))\<lparr>h_next := c\<rparr>)"
  have "distinct ys" using slist_distinct [OF l] by simp
  then have "slseg ?H a ys c" using slseg_relink l False by (metis slseg_append)
  moreover have "slist ?H c xs" using n fresh False by (subst slseg_cong [where H = H]) auto
  ultimately show ?thesis using False by auto
qed (use n in simp)

section \<open>Ranges that do not overlap\<close>

definition pack :: "'t set \<Rightarrow> ('t \<Rightarrow> nat \<times> nat) \<Rightarrow> (nat \<times> nat) set \<Rightarrow> bool" where
  "pack T f U \<longleftrightarrow> (\<forall>t\<in>T. \<forall>u\<in>T. t \<noteq> u \<longrightarrow> apart (f t) (f u)) \<and> (\<forall>t\<in>T. \<forall>u\<in>U. apart (f t) u)"

definition sub :: "nat \<times> nat \<Rightarrow> nat \<times> nat \<Rightarrow> bool" where
  "sub x y \<longleftrightarrow> inside (fst y) (fst y + snd y) x"

lemma sub_refl [simp]: "sub x x"
  by (simp add: sub_def inside_def)

lemma apart_sub: "apart x y \<Longrightarrow> sub x' x \<Longrightarrow> sub y' y \<Longrightarrow> apart x' y'"
  by (auto simp: apart_def sub_def inside_def)

lemma pack_refine:
  assumes "pack T f U" "U' \<subseteq> U"
    and g: "\<And>t. t \<in> T' \<Longrightarrow> g t \<in> T \<and> sub (f' t) (f (g t))"
    and same: "\<And>t u. t \<in> T' \<Longrightarrow> u \<in> T' \<Longrightarrow> t \<noteq> u \<Longrightarrow> g t = g u \<Longrightarrow> apart (f' t) (f' u)"
  shows "pack T' f' U'"
  unfolding pack_def
proof (intro conjI ballI impI)
  fix t u assume t: "t \<in> T'" "u \<in> T'" "t \<noteq> u"
  show "apart (f' t) (f' u)"
  proof (cases "g t = g u")
    case False
    then have "apart (f (g t)) (f (g u))" using assms(1) g t by (simp add: pack_def)
    then show ?thesis using apart_sub g t by blast
  qed (use same t in blast)
next
  fix t u assume t: "t \<in> T'" "u \<in> U'"
  then have "apart (f (g t)) u" using assms(1,2) g by (auto simp: pack_def)
  then show "apart (f' t) u" using apart_sub g t sub_refl by blast
qed

lemma pack_insert:
  assumes "pack T f U" "f' t \<in> U" "t \<notin> T" "\<And>u. u \<in> T \<Longrightarrow> f' u = f u" "U' \<subseteq> U" "\<And>u. u \<in> U' \<Longrightarrow> apart (f' t) u"
  shows "pack (insert t T) f' U'"
  using assms apart_commute unfolding pack_def by (metis (no_types, lifting) insert_iff subset_iff)

section \<open>The invariant of the slab allocator\<close>

text \<open>
  \<open>P i\<close> is the list of slabs of pool \<open>i\<close>, \<open>A\<close> the slabs handed out; every slab, and the rest of the slab
  block (the item \<open>None\<close>), is a range of memory.
\<close>

definition slabs :: "(nat \<Rightarrow> u64 list) \<Rightarrow> u64 set \<Rightarrow> u64 set" where
  "slabs P A = (\<Union>i<34. set (P i)) \<union> A"

abbreviation data_size :: "mm \<Rightarrow> u64 \<Rightarrow> nat" where
  "data_size m x \<equiv> unat (h_size (headers m x))"

definition item_rng :: "mm \<Rightarrow> u64 option \<Rightarrow> nat \<times> nat" where
  "item_rng m t = (case t of Some x \<Rightarrow> (unat x, data_size m x + 16)
     | None \<Rightarrow> (unat (sl_slab_free (pslab m)), nat (sl_free_size (pslab m))))"

definition items :: "mm \<Rightarrow> u64 set \<Rightarrow> u64 option set" where
  "items m S = Some ` S \<union> (if sl_free_size (pslab m) = 0 then {} else {None})"

definition untaken :: "mm \<Rightarrow> (nat \<times> nat) set" where
  "untaken m = {block_rng m q | q. block_valid m q \<and> \<not> block_taken m q}"

definition slab_geo :: "mm \<Rightarrow> u64 set \<Rightarrow> bool" where
  "slab_geo m S \<longleftrightarrow> mm_ok m \<and> (\<forall>x\<in>S. x \<noteq> 0 \<and> unat x + data_size m x + 16 < 2 ^ 64 \<and> data_size m x < 2 ^ 32) \<and>
     pack (items m S) (item_rng m) (untaken m) \<and> (\<forall>p. block_valid m p \<longrightarrow> fst (block_rng m p) \<noteq> 0) \<and>
     (sl_free_size (pslab m) = 0 \<or> sl_slab_free (pslab m) \<noteq> 0 \<and> 32 \<le> sl_free_size (pslab m) \<and>
        (\<exists>p. block_valid m p \<and> sub (item_rng m None) (block_rng m p)))"

definition slab_lists :: "mm \<Rightarrow> (nat \<Rightarrow> u64 list) \<Rightarrow> u64 set \<Rightarrow> bool" where
  "slab_lists m P A \<longleftrightarrow> pool_nr m = 34 \<and> length (sl_pool (pslab m)) = 34 \<and> sp_size (spool m 31) = 512 \<and>
     (\<forall>i<34. slist (headers m) (sp_head (spool m i)) (P i)) \<and>
     (\<forall>i<34. \<forall>j<34. i \<noteq> j \<longrightarrow> set (P i) \<inter> set (P j) = {}) \<and> (\<forall>i<34. set (P i) \<inter> A = {}) \<and>
     (\<forall>i<33. \<forall>x\<in>set (P i). 16 * (i + 1) \<le> data_size m x) \<and> (\<forall>x\<in>A. h_next (headers m x) = SLAB_MAGIC)"

definition slab_inv :: "mm \<Rightarrow> (nat \<Rightarrow> u64 list) \<Rightarrow> u64 set \<Rightarrow> bool" where
  "slab_inv m P A \<longleftrightarrow> slab_geo m (slabs P A) \<and> slab_lists m P A"

text \<open>What an allocation function of \<^verbatim>\<open>alloc_func\<close> promises.\<close>

definition slab_given :: "mm \<Rightarrow> u64 set \<Rightarrow> u64 \<Rightarrow> u64 option \<Rightarrow> mm \<Rightarrow> bool" where
  "slab_given m A sz r m' \<longleftrightarrow> (\<forall>x\<in>A. h_size (headers m' x) = h_size (headers m x)) \<and>
     (case r of
        None \<Rightarrow> \<exists>P'. slab_inv m' P' A
      | Some a \<Rightarrow> \<exists>P' h. a = h + 16 \<and> h \<notin> A \<and> slab_inv m' P' (insert h A) \<and> unat sz \<le> data_size m' h)"

definition same_blocks :: "mm \<Rightarrow> mm \<Rightarrow> bool" where
  "same_blocks m m' \<longleftrightarrow> (mm_ok m \<longrightarrow> mm_ok m') \<and> block_valid m' = block_valid m \<and> block_taken m' = block_taken m \<and>
     block_rng m' = block_rng m"

lemma same_blocks_refl [simp]: "same_blocks m m"
  by (simp add: same_blocks_def)

lemma same_blocks_sections: "mem_sections m' = mem_sections m \<Longrightarrow> same_blocks m m'"
proof -
  assume s: "mem_sections m' = mem_sections m"
  show ?thesis using section_views(1-4) [OF s] unfolding same_blocks_def by blast
qed

lemma same_blocks_upd_block:
  assumes "block_valid m p" shows "same_blocks m (upd_block p f m)"
proof -
  have i: "fst p < length (mem_sections m)" using assms by (simp add: block_valid_def)
  let ?f = "\<lambda>s. s\<lparr>s_blocks := (s_blocks s)[snd p := f (s_blocks s ! snd p)]\<rparr>"
  have "mm_ok (upd_section (fst p) ?f m)" if "mm_ok m"
    using that i by (intro mm_ok_upd_section) (auto simp: mm_ok_def sec_ok_def sec_rng_def dest!: nth_mem)
  moreover have "block_valid (upd_block p f m) = block_valid m" "block_rng (upd_block p f m) = block_rng m"
    "block_taken (upd_block p f m) = block_taken m"
    using i by (auto simp: fun_eq_iff block_valid_def block_taken_def block_rng_def upd_block_def)
  ultimately show ?thesis by (simp add: same_blocks_def upd_block_def)
qed

lemma same_blocks_trans: "same_blocks m m' \<Longrightarrow> same_blocks m' m'' \<Longrightarrow> same_blocks m m''"
  by (simp add: same_blocks_def)

lemma item_rng_simps [simp]:
  "item_rng m (Some x) = (unat x, data_size m x + 16)"
  "item_rng m None = (unat (sl_slab_free (pslab m)), nat (sl_free_size (pslab m)))"
  by (simp_all add: item_rng_def)

lemma slab_geo_cong:
  assumes "slab_geo m S" "same_blocks m m'" "\<And>x. x \<in> S \<Longrightarrow> h_size (headers m' x) = h_size (headers m x)"
    and "sl_slab_free (pslab m') = sl_slab_free (pslab m)" "sl_free_size (pslab m') = sl_free_size (pslab m)"
  shows "slab_geo m' S"
proof -
  have i: "items m' S = items m S" "untaken m' = untaken m" using assms by (auto simp: items_def untaken_def same_blocks_def)
  have old: "pack (items m S) (item_rng m) (untaken m)" using assms(1) by (simp add: slab_geo_def)
  have "pack (items m S) (item_rng m') (untaken m)"
    by (rule pack_refine [OF old, where g = "\<lambda>t. t"]) (use assms in \<open>auto simp: items_def split: if_splits\<close>)
  then show ?thesis using assms i by (auto simp: slab_geo_def same_blocks_def)
qed

lemma slabs_simps:
  "x \<in> slabs P A \<longleftrightarrow> (\<exists>i<34. x \<in> set (P i)) \<or> x \<in> A"
  "slabs P (insert h A) = insert h (slabs P A)"
  by (auto simp: slabs_def)

lemma slabs_split: "i < 34 \<Longrightarrow> slabs P A = set (P i) \<union> (\<Union>j\<in>{..<34} - {i}. set (P j)) \<union> A"
  by (auto simp: slabs_def)

lemma slabs_upd: "i < 34 \<Longrightarrow> slabs (P(i := xs)) A = set xs \<union> (\<Union>j\<in>{..<34} - {i}. set (P j)) \<union> A"
  by (subst slabs_split [of i]) auto

lemma slabs_move:
  assumes "i < 34" "P i = ys @ h # zs" shows "slabs (P(i := ys @ zs)) (insert h A) = slabs P A"
  using assms slabs_split [of i P A] slabs_upd [of i P] by auto

lemma slabs_push:
  assumes "i < 34" shows "slabs (P(i := h # P i)) A = slabs P (insert h A)"
  using assms slabs_split [of i P "insert h A"] slabs_upd [of i P] by auto

lemma slab_listsD:
  assumes "slab_lists m P A"
  shows "i < 34 \<Longrightarrow> slist (headers m) (sp_head (spool m i)) (P i)"
    "i < 34 \<Longrightarrow> j < 34 \<Longrightarrow> i \<noteq> j \<Longrightarrow> x \<in> set (P i) \<Longrightarrow> x \<notin> set (P j)"
    "i < 34 \<Longrightarrow> x \<in> set (P i) \<Longrightarrow> x \<notin> A"
    "i < 33 \<Longrightarrow> x \<in> set (P i) \<Longrightarrow> 16 * (i + 1) \<le> data_size m x"
    "x \<in> A \<Longrightarrow> h_next (headers m x) = SLAB_MAGIC"
    "pool_nr m = 34" "length (sl_pool (pslab m)) = 34" "sp_size (spool m 31) = 512"
  using assms unfolding slab_lists_def by blast+

lemma slab_listsI:
  assumes "pool_nr m = 34" "length (sl_pool (pslab m)) = 34" "sp_size (spool m 31) = 512"
    and "\<And>i. i < 34 \<Longrightarrow> slist (headers m) (sp_head (spool m i)) (P i)"
    and "\<And>i j x. i < 34 \<Longrightarrow> j < 34 \<Longrightarrow> i \<noteq> j \<Longrightarrow> x \<in> set (P i) \<Longrightarrow> x \<notin> set (P j)"
    and "\<And>i x. i < 34 \<Longrightarrow> x \<in> set (P i) \<Longrightarrow> x \<notin> A"
    and "\<And>i x. i < 33 \<Longrightarrow> x \<in> set (P i) \<Longrightarrow> 16 * (i + 1) \<le> data_size m x"
    and "\<And>x. x \<in> A \<Longrightarrow> h_next (headers m x) = SLAB_MAGIC"
  shows "slab_lists m P A"
  using assms unfolding slab_lists_def by blast

text \<open>A slab leaves its pool for the caller.\<close>

lemma slab_take:
  assumes inv: "slab_inv m P A" and i: "i < 34" "P i = ys @ h # zs"
    and blocks: "same_blocks m m'"
    and sl: "pslab m' = (pslab m)\<lparr>sl_pool := (sl_pool (pslab m))[i := p]\<rparr>" "sp_size p = sp_size (spool m i)"
    and hd: "\<And>x. h_size (headers m' x) = h_size (headers m x)" "\<And>x. x \<notin> set (P i) \<Longrightarrow> headers m' x = headers m x"
    and new: "slist (headers m') (sp_head p) (ys @ zs)" "h_next (headers m' h) = SLAB_MAGIC"
  shows "slab_inv m' (P(i := ys @ zs)) (insert h A) \<and> h \<notin> A"
proof -
  have l: "slab_lists m P A" and geo: "slab_geo m (slabs P A)" using inv by (simp_all add: slab_inv_def)
  note D = slab_listsD [OF l]
  have d: "distinct (ys @ h # zs)" using D(1) [OF i(1)] i(2) slist_distinct by metis
  have hP: "h \<in> set (P i)" "set (ys @ zs) \<subseteq> set (P i)" using i(2) by auto
  have hA: "h \<notin> A" using D(3) [OF i(1)] hP by blast
  have same: "headers m' x = headers m x" if "j < 34" "j \<noteq> i" "x \<in> set (P j)" for j x
    using D(2) [OF that(1) i(1) that(2,3)] hd(2) by blast
  have "slab_geo m' (slabs P A)" using geo blocks by (rule slab_geo_cong) (use hd(1) sl in auto)
  then have "slab_geo m' (slabs (P(i := ys @ zs)) (insert h A))" using slabs_move [of i P ys h zs A] i by simp
  moreover have "slab_lists m' (P(i := ys @ zs)) (insert h A)"
  proof (rule slab_listsI)
    show "pool_nr m' = 34" "length (sl_pool (pslab m')) = 34" using D(6,7) sl by simp_all
    show "sp_size (spool m' 31) = 512" using D(7,8) sl i by (cases "i = 31") auto
    show "slist (headers m') (sp_head (spool m' j)) ((P(i := ys @ zs)) j)" if j: "j < 34" for j
    proof (cases "j = i")
      case False
      have "slist (headers m') (sp_head (spool m j)) (P j)"
        using D(1) [OF j] same [OF j False] by (subst slseg_cong [where H = "headers m"]) auto
      then show ?thesis using False sl by simp
    qed (use new sl i D(7) in simp)
    show "x \<notin> set ((P(i := ys @ zs)) k)" if "j < 34" "k < 34" "j \<noteq> k" "x \<in> set ((P(i := ys @ zs)) j)" for j k x
      using D(2) [OF that(1-3), of x] that hP by (auto split: if_splits)
    show "x \<notin> insert h A" if "j < 34" "x \<in> set ((P(i := ys @ zs)) j)" for j x
      using D(3) [OF that(1), of x] D(2) [OF that(1) i(1), of x] that d hP by (auto split: if_splits)
    show "16 * (j + 1) \<le> data_size m' x" if "j < 33" "x \<in> set ((P(i := ys @ zs)) j)" for j x
      using D(4) [OF that(1), of x] that hP hd(1) by (auto split: if_splits)
    show "h_next (headers m' x) = SLAB_MAGIC" if "x \<in> insert h A" for x
      using D(3) [OF i(1), of x] D(5) [of x] new(2) that hd(2) [of x] by (cases "x \<in> set (P i)") auto
  qed
  ultimately show ?thesis using hA by (simp add: slab_inv_def)
qed

text \<open>A slab in use goes to a pool.\<close>

lemma slab_push:
  assumes inv: "slab_inv m P (insert h A)" and h: "h \<notin> A" and i: "i < 34" "i < 33 \<longrightarrow> 16 * (i + 1) \<le> data_size m h"
  shows "slab_inv (add_slab_to_slab_pool h i m) (P(i := h # P i)) A"
proof -
  let ?m = "add_slab_to_slab_pool h i m"
  have l: "slab_lists m P (insert h A)" and geo: "slab_geo m (slabs P (insert h A))" using inv by (simp_all add: slab_inv_def)
  have hd: "headers ?m = (headers m)(h := (headers m h)\<lparr>h_next := sp_head (spool m i)\<rparr>)"
    and sl: "pslab ?m = (pslab m)\<lparr>sl_pool := (sl_pool (pslab m))[i := (spool m i)\<lparr>sp_head := h, sp_nr := sp_nr (spool m i) + 1\<rparr>]\<rparr>"
    and secs: "mem_sections ?m = mem_sections m"
    by (simp_all add: add_slab_to_slab_pool_def upd_spool_def upd_slab_def upd_header_def)
  have hP: "h \<notin> set (P j)" if "j < 34" for j using l that by (auto simp: slab_lists_def)
  have h0: "h \<noteq> 0" using geo by (simp add: slab_geo_def slabs_simps)
  have other: "slist (headers ?m) a (P j) = slist (headers m) a (P j)" if "j < 34" for j a
    using hP [OF that] by (subst slseg_cong [where H = "headers m"]) (auto simp: hd)
  have "slab_geo ?m (slabs P (insert h A))"
    using geo by (rule slab_geo_cong) (use secs in \<open>auto simp: hd sl intro: same_blocks_sections\<close>)
  then have "slab_geo ?m (slabs (P(i := h # P i)) A)" using slabs_push [OF i(1)] by simp
  moreover have "slab_lists ?m (P(i := h # P i)) A"
    unfolding slab_lists_def
  proof (intro conjI allI impI ballI)
    show "pool_nr ?m = 34" "length (sl_pool (pslab ?m)) = 34" using l by (simp_all add: slab_lists_def sl)
    show "sp_size (spool ?m 31) = 512" using l i by (auto simp: slab_lists_def nth_list_update sl)
    show "slist (headers ?m) (sp_head (spool ?m j)) ((P(i := h # P i)) j)" if "j < 34" for j
      using other l that i h0 by (auto simp: slab_lists_def sl hd)
    show "set ((P(i := h # P i)) j) \<inter> set ((P(i := h # P i)) k) = {}" if "j < 34" "k < 34" "j \<noteq> k" for j k
      using l i that hP by (auto simp: slab_lists_def)
    show "set ((P(i := h # P i)) j) \<inter> A = {}" if "j < 34" for j
      using l i that h by (auto simp: slab_lists_def)
    show "16 * (j + 1) \<le> data_size ?m x" if "j < 33" "x \<in> set ((P(i := h # P i)) j)" for j x
      using l i that by (auto simp: slab_lists_def hd split: if_splits)
    show "h_next (headers ?m x) = SLAB_MAGIC" if "x \<in> A" for x
      using l that h by (auto simp: slab_lists_def hd)
  qed
  ultimately show ?thesis by (simp add: slab_inv_def)
qed

end
