(* ===== verification/Slab_Sources.thy ===== *)
theory Slab_Sources
  imports Slab_Inv
begin

text \<open>
  The six sources of memory that \<^verbatim>\<open>malloc\<close> tries, each with what it gives and keeps.
\<close>

section \<open>The allocation functions\<close>

lemma slab_pool_id_eq:
  assumes "pool_nr m = 34" "16 \<le> unat sz" "unat sz < 2 ^ 32"
  shows "slab_pool_id sz m = min 32 (int (unat sz div 16) - 1)"
proof -
  have d: "unat (drop_bit 4 sz) = unat sz div 16" using unat_drop_bit [of 4 sz] by simp
  have "1 \<le> unat sz div 16" using assms(2) by (simp add: div_greater_zero_iff Suc_le_eq)
  then have u: "unat (drop_bit 4 sz - 1) = unat sz div 16 - 1" by (subst unat_sub_u64) (simp_all add: d)
  have lt: "unat sz div 16 - 1 < 2 ^ 28" using assms(3) by (simp add: less_mult_imp_div_less less_imp_diff_less)
  have "uint (ucast (drop_bit 4 sz - 1) :: 32 word) = int (unat sz div 16 - 1)"
    using u lt unfolding unsigned_ucast_eq by (simp add: uint_nat take_bit_int_eq_self)
  then have "sint (ucast (drop_bit 4 sz - 1) :: 32 word) = int (unat sz div 16 - 1)"
    using lt by (simp add: sint_uint signed_take_bit_int_eq_self)
  then show ?thesis
    using assms(1) \<open>1 \<le> _\<close> by (simp add: slab_pool_id_def SLAB_MIN_DATA_SIZE_SHIFT_def FREE_POOL_OFFSET_def of_nat_diff)
qed

lemma slab_given_none: "slab_inv m P A \<Longrightarrow> slab_given m A sz None m"
  by (auto simp: slab_given_def)

lemma slab_given_some:
  assumes "slab_inv m' P' (insert h A)" "h \<notin> A" "\<And>x. h_size (headers m' x) = h_size (headers m x)" "unat sz \<le> data_size m h"
  shows "slab_given m A sz (Some (SLAB_HEADER_TO_ADDR h)) m'"
  using assms by (auto simp: slab_given_def SLAB_HEADER_TO_ADDR_def SLAB_HEADER_SIZE_def)

lemma slab_pop:
  assumes inv: "slab_inv m P A" and i: "i < 34" "sp_head (spool m i) \<noteq> 0"
  shows "\<exists>m'. get_slab_from_slab_pool i m = (sp_head (spool m i), m') \<and> sp_head (spool m i) \<in> set (P i) \<and>
    (\<exists>P'. slab_inv m' P' (insert (sp_head (spool m i)) A)) \<and> sp_head (spool m i) \<notin> A \<and>
    (\<forall>x. h_size (headers m' x) = h_size (headers m x))"
proof -
  define h where "h = sp_head (spool m i)"
  have l: "slab_lists m P A" using inv by (simp add: slab_inv_def)
  note D = slab_listsD [OF l]
  obtain zs where P: "P i = [] @ h # zs" using D(1) [OF i(1)] i(2) by (cases "P i") (auto simp: h_def)
  let ?m = "snd (get_slab_from_slab_pool i m)"
  have zs: "slist (headers m) (h_next (headers m h)) zs" "h \<notin> set zs"
    using D(1) [OF i(1)] slist_distinct [OF D(1) [OF i(1)]] P by (auto simp: h_def)
  have m: "headers ?m = (headers m)(h := (headers m h)\<lparr>h_next := SLAB_MAGIC\<rparr>)" "mem_sections ?m = mem_sections m"
    "pslab ?m = (pslab m)\<lparr>sl_pool := (sl_pool (pslab m))[i := (spool m i)\<lparr>sp_head := h_next (headers m h), sp_nr := sp_nr (spool m i) - 1\<rparr>]\<rparr>"
    by (simp_all add: get_slab_from_slab_pool_def Let_def upd_spool_def upd_slab_def upd_header_def h_def)
  have "slist (headers ?m) (h_next (headers m h)) ([] @ zs)"
    using zs by (simp add: m(1)) (subst slseg_cong [where H = "headers m"], auto)
  then have "slab_inv ?m (P(i := [] @ zs)) (insert h A) \<and> h \<notin> A"
    using P by (intro slab_take [OF inv i(1) P same_blocks_sections [OF m(2)] m(3)]) (auto simp: m(1))
  then show ?thesis using P m(1) by (auto simp: get_slab_from_slab_pool_def Let_def h_def prod_eq_iff)
qed

lemma get_slab_from_pool_given:
  assumes inv: "slab_inv m P A" and sz: "16 \<le> unat sz" "unat sz < 2 ^ 32" "unat sz mod 16 = 0"
  shows "\<exists>r m'. get_slab_from_pool sz m = Some (r, m') \<and> slab_given m A sz r m'"
proof -
  have l: "slab_lists m P A" using inv by (simp add: slab_inv_def)
  note D = slab_listsD [OF l]
  note id = slab_pool_id_eq [OF D(6) sz(1,2)]
  let ?i = "unat sz div 16 - 1"
  have one: "1 \<le> unat sz div 16" using sz(1) by (simp add: div_greater_zero_iff Suc_le_eq)
  show ?thesis
  proof (cases "?i < 32 \<and> sp_head (spool m ?i) \<noteq> 0")
    case True
    then have nid: "slab_pool_id sz m = int ?i" "nat (slab_pool_id sz m) = ?i" using id one by auto
    obtain m' where m': "get_slab_from_slab_pool ?i m = (sp_head (spool m ?i), m')" "sp_head (spool m ?i) \<in> set (P ?i)"
      "\<exists>P'. slab_inv m' P' (insert (sp_head (spool m ?i)) A)" "sp_head (spool m ?i) \<notin> A" "\<forall>x. h_size (headers m' x) = h_size (headers m x)"
      using slab_pop [OF inv, of ?i] True by auto
    have "16 * (?i + 1) \<le> data_size m (sp_head (spool m ?i))" using D(4) [of ?i] True m'(2) by simp
    moreover have "16 * (?i + 1) = unat sz" using sz one by auto
    ultimately have "slab_given m A sz (Some (SLAB_HEADER_TO_ADDR (sp_head (spool m ?i)))) m'"
      using m'(3-5) slab_given_some by metis
    then show ?thesis using True m'(1) nid D(6) by (simp add: get_slab_from_pool_def Let_def FREE_POOL_OFFSET_def)
  next
    case False
    then have "get_slab_from_pool sz m = Some (None, m)"
      using id one D(6) by (auto simp: get_slab_from_pool_def Let_def FREE_POOL_OFFSET_def min_def nat_diff_distrib of_nat_diff split: if_splits)
    then show ?thesis using slab_given_none [OF inv] by auto
  qed
qed

lemma get_big_slab_given:
  assumes inv: "slab_inv m P A" and sz: "16 \<le> unat sz" "unat sz < 2 ^ 32" "unat sz mod 16 = 0"
  shows "\<exists>r m'. get_big_slab sz m = Some (r, m') \<and> slab_given m A (if unat sz \<le> 512 then sz else 16) r m'"
proof -
  have l: "slab_lists m P A" using inv by (simp add: slab_inv_def)
  note D = slab_listsD [OF l]
  note id = slab_pool_id_eq [OF D(6) sz(1,2)]
  have one: "1 \<le> unat sz div 16" using sz(1) by (simp add: div_greater_zero_iff Suc_le_eq)
  let ?k = "nat (slab_pool_id sz m)"
  have k: "0 \<le> slab_pool_id sz m" "?k = min 32 (unat sz div 16 - 1)" using id one by (auto simp: min_def)
  show ?thesis
  proof (cases "find (\<lambda>i. sp_head (spool m i) \<noteq> 0) [?k..<33]")
    case None
    then show ?thesis
      using k D(6) slab_given_none [OF inv] by (auto simp: get_big_slab_def Let_def CACHE_POOL_OFFSET_def)
  next
    case (Some i)
    then have i: "?k \<le> i" "i < 33" "sp_head (spool m i) \<noteq> 0"
      by (auto simp: find_Some_iff)
    obtain m' where m': "get_slab_from_slab_pool i m = (sp_head (spool m i), m')" "sp_head (spool m i) \<in> set (P i)"
      "\<exists>P'. slab_inv m' P' (insert (sp_head (spool m i)) A)" "sp_head (spool m i) \<notin> A" "\<forall>x. h_size (headers m' x) = h_size (headers m x)"
      using slab_pop [OF inv, of i] i by auto
    have "16 * (i + 1) \<le> data_size m (sp_head (spool m i))" using D(4) [of i] i m'(2) by simp
    moreover have "unat (if unat sz \<le> 512 then sz else 16) \<le> 16 * (i + 1)" using k i sz one by (auto simp: min_def split: if_splits)
    ultimately have "unat (if unat sz \<le> 512 then sz else 16) \<le> data_size m (sp_head (spool m i))" by linarith
    then have "slab_given m A (if unat sz \<le> 512 then sz else 16) (Some (SLAB_HEADER_TO_ADDR (sp_head (spool m i)))) m'"
      using m'(3-5) slab_given_some by blast
    then show ?thesis using Some m'(1) k D(6) by (simp add: get_big_slab_def Let_def CACHE_POOL_OFFSET_def)
  qed
qed

text \<open>Unlinking a slab of pool \<open>i\<close> behind \<open>ys\<close>, as both list searches do it.\<close>

definition link_slab :: "nat \<Rightarrow> u64 \<Rightarrow> u64 \<Rightarrow> u64 \<Rightarrow> mm \<Rightarrow> mm" where
  "link_slab i prev h x m =
    (if prev = h then upd_spool i (\<lambda>p. p\<lparr>sp_head := x\<rparr>) m else upd_header prev (\<lambda>y. y\<lparr>h_next := x\<rparr>) m)"

lemma link_slab_effect:
  assumes d: "distinct (ys @ h # zs)"
  defines "prev \<equiv> (if ys = [] then h else last ys)"
  shows "headers (link_slab i prev h x m) =
      (if ys = [] then headers m else (headers m)(last ys := (headers m (last ys))\<lparr>h_next := x\<rparr>))"
    "mem_sections (link_slab i prev h x m) = mem_sections m"
    "pslab (link_slab i prev h x m) = (pslab m)\<lparr>sl_pool := (sl_pool (pslab m))
       [i := (spool m i)\<lparr>sp_head := if ys = [] then x else sp_head (spool m i)\<rparr>]\<rparr>"
proof -
  have "ys \<noteq> [] \<Longrightarrow> last ys \<noteq> h" using d by auto
  moreover have "\<lparr>sp_size = sp_size (spool m i), sp_head = sp_head (spool m i), sp_nr = sp_nr (spool m i)\<rparr> = spool m i" by simp
  ultimately show "headers (link_slab i prev h x m) =
      (if ys = [] then headers m else (headers m)(last ys := (headers m (last ys))\<lparr>h_next := x\<rparr>))"
    "mem_sections (link_slab i prev h x m) = mem_sections m"
    "pslab (link_slab i prev h x m) = (pslab m)\<lparr>sl_pool := (sl_pool (pslab m))
       [i := (spool m i)\<lparr>sp_head := if ys = [] then x else sp_head (spool m i)\<rparr>]\<rparr>"
    by (auto simp: link_slab_def prev_def upd_spool_def upd_slab_def upd_header_def)
qed

lemma slab_unlink:
  assumes inv: "slab_inv m P A" and i: "i < 34" "P i = ys @ h # zs"
  defines "prev \<equiv> (if ys = [] then h else last ys)"
  shows "slab_inv (upd_header h (\<lambda>x. x\<lparr>h_next := SLAB_MAGIC\<rparr>) (link_slab i prev h (h_next (headers m h)) m))
     (P(i := ys @ zs)) (insert h A) \<and> h \<notin> A"
proof -
  have l: "slab_lists m P A" using inv by (simp add: slab_inv_def)
  note D = slab_listsD [OF l]
  have li: "slist (headers m) (sp_head (spool m i)) (ys @ h # zs)" using D(1) [OF i(1)] i(2) by simp
  have d: "distinct (ys @ h # zs)" using slist_distinct [OF li] .
  note e = link_slab_effect [OF d, of i "h_next (headers m h)" m, folded prev_def]
  let ?m1 = "link_slab i prev h (h_next (headers m h)) m"
  let ?m = "upd_header h (\<lambda>x. x\<lparr>h_next := SLAB_MAGIC\<rparr>) ?m1"
  have hm: "headers ?m = (headers ?m1)(h := (headers ?m1 h)\<lparr>h_next := SLAB_MAGIC\<rparr>)" "mem_sections ?m = mem_sections m" "pslab ?m = pslab ?m1"
    using e(2) by (simp_all add: upd_header_def)
  have tail: "slist (headers m) (h_next (headers m h)) zs" using li by auto
  have lnk: "slist (headers ?m1) (if ys = [] then h_next (headers m h) else sp_head (spool m i)) (ys @ zs)"
  proof -
    have "set zs \<inter> set ys = {}" using d by auto
    from slist_relink [OF li tail this] show ?thesis unfolding e(1) by (cases "ys = []") auto
  qed
  have "slist (headers ?m) (if ys = [] then h_next (headers m h) else sp_head (spool m i)) (ys @ zs)"
    using lnk d by (subst slseg_cong [where H = "headers ?m1"]) (auto simp: hm(1))
  then show ?thesis
    using i by (intro slab_take [OF inv i same_blocks_sections [OF hm(2)] trans [OF hm(3) e(3)]])
      (auto simp: hm(1) e(1))
qed

lemma big_pool_loop_given:
  assumes inv: "slab_inv m P A" and P: "P 32 = ys @ zs"
    and h: "h = (case zs of [] \<Rightarrow> 0 | z # _ \<Rightarrow> z)" "prev = (if ys = [] then h else last ys)"
  shows "\<exists>r m'. big_pool_loop sz prev h m = Some (r, m') \<and> slab_given m A sz r m'"
  using P h
proof (induction zs arbitrary: ys prev h)
  case Nil
  then show ?case using slab_given_none [OF inv] by (subst big_pool_loop.simps) auto
next
  case (Cons z zs)
  have l: "slab_lists m P A" using inv by (simp add: slab_inv_def)
  note D = slab_listsD [OF l]
  have li: "slist (headers m) (sp_head (spool m 32)) (ys @ z # zs)" using D(1) [of 32] Cons.prems(1) by simp
  have z: "z \<noteq> 0" "h = z" and nxt: "h_next (headers m z) = (case zs of [] \<Rightarrow> 0 | y # _ \<Rightarrow> y)"
    using li Cons.prems by (auto split: list.splits)
  show ?case
  proof (cases "h_size (headers m z) = sz")
    case True
    let ?m = "upd_header z (\<lambda>x. x\<lparr>h_next := SLAB_MAGIC\<rparr>) (link_slab 32 prev z (h_next (headers m z)) m)"
    have "big_pool_loop sz prev h m = Some (Some (SLAB_HEADER_TO_ADDR z), ?m)"
      using z True D(6) by (subst big_pool_loop.simps) (auto simp: Let_def link_slab_def FREE_POOL_OFFSET_def)
    moreover have "slab_inv ?m (P(32 := ys @ zs)) (insert z A) \<and> z \<notin> A"
      using slab_unlink [OF inv _ Cons.prems(1)] unfolding Cons.prems(3) z(2) by simp
    moreover have "h_size (headers ?m x) = h_size (headers m x)" for x
      by (simp add: upd_header_def link_slab_def upd_spool_def upd_slab_def)
    ultimately show ?thesis using slab_given_some [of ?m _ z A m sz] True by auto
  next
    case False
    have "big_pool_loop sz prev h m = big_pool_loop sz z (h_next (headers m z)) m"
      using z False by (subst big_pool_loop.simps) (simp add: Let_def)
    then show ?thesis using Cons.IH [of "ys @ [z]" "h_next (headers m z)" z] Cons.prems(1) nxt by simp
  qed
qed

lemma get_slab_from_big_pool_given:
  assumes inv: "slab_inv m P A"
  shows "\<exists>r m'. get_slab_from_big_pool sz m = Some (r, m') \<and> slab_given m A sz r m'"
proof -
  have l: "slab_lists m P A" using inv by (simp add: slab_inv_def)
  note D = slab_listsD [OF l]
  have "sp_head (spool m 32) = (case P 32 of [] \<Rightarrow> 0 | z # _ \<Rightarrow> z)" using D(1) [of 32] by (auto split: list.splits)
  then show ?thesis
    using big_pool_loop_given [OF inv, of "[]" "P 32"] slab_given_none [OF inv] D(6)
    by (auto simp: get_slab_from_big_pool_def FREE_POOL_OFFSET_def Let_def)
qed

text \<open>A range of memory that belongs to no slab, not to the slab block and to no block to hand out.\<close>

definition spare :: "mm \<Rightarrow> u64 set \<Rightarrow> nat \<times> nat \<Rightarrow> bool" where
  "spare m S r \<longleftrightarrow> (\<forall>t\<in>items m S. apart r (item_rng m t)) \<and> (\<forall>u\<in>untaken m. apart r u)"

lemma spare_sub: "spare m S r \<Longrightarrow> sub r' r \<Longrightarrow> spare m S r'"
  using apart_sub sub_refl unfolding spare_def by blast

text \<open>A used slab goes somewhere into the list of a pool.\<close>

lemma slab_put:
  assumes inv: "slab_inv m P (insert h A)" and h: "h \<notin> A" and i: "i < 34" "P i = ys @ zs"
    and blocks: "same_blocks m m'"
    and sl: "pslab m' = (pslab m)\<lparr>sl_pool := (sl_pool (pslab m))[i := p]\<rparr>" "sp_size p = sp_size (spool m i)"
    and hd: "\<And>x. h_size (headers m' x) = h_size (headers m x)" "\<And>x. x \<notin> insert h (set (P i)) \<Longrightarrow> headers m' x = headers m x"
    and new: "slist (headers m') (sp_head p) (ys @ h # zs)" and cls: "i < 33 \<longrightarrow> 16 * (i + 1) \<le> data_size m h"
  shows "slab_inv m' (P(i := ys @ h # zs)) A"
proof -
  have l: "slab_lists m P (insert h A)" and geo: "slab_geo m (slabs P (insert h A))" using inv by (simp_all add: slab_inv_def)
  note D = slab_listsD [OF l]
  have hP: "h \<notin> set (P j)" if "j < 34" for j using D(3) [OF that] by blast
  have same: "headers m' x = headers m x" if "j < 34" "j \<noteq> i" "x \<in> set (P j)" for j x
    using D(2) [OF that(1) i(1) that(2,3)] hP [OF that(1)] that(3) hd(2) [of x] by blast
  have "slabs (P(i := ys @ h # zs)) A = slabs P (insert h A)"
    using slabs_upd [OF i(1), of P] slabs_split [OF i(1), of P] i(2) by auto
  moreover have "slab_geo m' (slabs P (insert h A))" using geo blocks by (rule slab_geo_cong) (use hd(1) sl in auto)
  moreover have "slab_lists m' (P(i := ys @ h # zs)) A"
  proof (rule slab_listsI)
    show "pool_nr m' = 34" "length (sl_pool (pslab m')) = 34" using D(6,7) sl by simp_all
    show "sp_size (spool m' 31) = 512" using D(7,8) sl i by (cases "i = 31") auto
    show "slist (headers m') (sp_head (spool m' j)) ((P(i := ys @ h # zs)) j)" if j: "j < 34" for j
    proof (cases "j = i")
      case False
      have "slist (headers m') (sp_head (spool m j)) (P j)"
        using D(1) [OF j] same [OF j False] by (subst slseg_cong [where H = "headers m"]) auto
      then show ?thesis using False sl by simp
    qed (use new sl i D(7) in simp)
    show "x \<notin> set ((P(i := ys @ h # zs)) k)" if "j < 34" "k < 34" "j \<noteq> k" "x \<in> set ((P(i := ys @ h # zs)) j)" for j k x
      using D(2) [OF that(1-3), of x] that hP [OF that(1)] hP [OF that(2)] i(2) by (auto split: if_splits)
    show "x \<notin> A" if "j < 34" "x \<in> set ((P(i := ys @ h # zs)) j)" for j x
      using D(3) [OF that(1), of x] that h i(2) by (auto split: if_splits)
    show "16 * (j + 1) \<le> data_size m' x" if "j < 33" "x \<in> set ((P(i := ys @ h # zs)) j)" for j x
      using D(4) [OF that(1), of x] that hd(1) cls i(2) by (auto split: if_splits)
    show "h_next (headers m' x) = SLAB_MAGIC" if "x \<in> A" for x
      using D(3) [OF i(1), of x] D(5) [of x] that hd(2) [of x] h by (cases "x \<in> set (P i)"; cases "x = h") auto
  qed
  ultimately show ?thesis by (simp add: slab_inv_def)
qed

text \<open>A new slab in a spare range; the header is the first thing written.\<close>

lemma slab_new_used:
  assumes inv: "slab_inv m P A" and h: "h \<noteq> 0" "unat h + unat n + 16 < 2 ^ 64" "unat n < 2 ^ 32"
    and sp: "spare m (slabs P A) (unat h, unat n + 16)"
  defines "m' \<equiv> upd_header h (\<lambda>_. \<lparr>h_size = n, h_next = SLAB_MAGIC\<rparr>) m"
  shows "slab_inv m' P (insert h A) \<and> h \<notin> slabs P A"
proof -
  have l: "slab_lists m P A" and geo: "slab_geo m (slabs P A)" using inv by (simp_all add: slab_inv_def)
  note D = slab_listsD [OF l]
  have hS: "h \<notin> slabs P A" using sp by (force simp: spare_def items_def apart_def)
  then have hP: "h \<notin> set (P j)" if "j < 34" for j using that by (auto simp: slabs_simps)
  have hd: "headers m' = (headers m)(h := \<lparr>h_size = n, h_next = SLAB_MAGIC\<rparr>)" "mem_sections m' = mem_sections m" "pslab m' = pslab m"
    by (simp_all add: m'_def upd_header_def)
  note v = section_views [OF hd(2)]
  have u: "untaken m' = untaken m" by (simp add: untaken_def v)
  have same: "item_rng m' t = item_rng m t" if "t \<in> items m (slabs P A)" for t
    using that hS by (auto simp: items_def hd split: if_splits)
  have old: "pack (items m (slabs P A)) (item_rng m) (untaken m)" using geo by (simp add: slab_geo_def)
  have "pack (items m' (insert h (slabs P A))) (item_rng m') (untaken m')"
  proof -
    have it: "items m' (insert h (slabs P A)) = insert (Some h) (items m (slabs P A))" by (auto simp: items_def hd)
    show ?thesis
      unfolding it u using old sp same apart_commute by (auto simp: pack_def spare_def hd)
  qed
  then have "slab_geo m' (slabs P (insert h A))"
    using geo h hS v by (auto simp: slab_geo_def slabs_simps(2) hd)
  moreover have "slab_lists m' P (insert h A)"
  proof (rule slab_listsI)
    show "slist (headers m') (sp_head (spool m' j)) (P j)" if "j < 34" for j
      using D(1) [OF that] hP [OF that] by (subst slseg_cong [where H = "headers m"]) (auto simp: hd)
    show "x \<notin> set (P j)" if "i < 34" "j < 34" "i \<noteq> j" "x \<in> set (P i)" for i j x using D(2) that by blast
    show "x \<notin> insert h A" if "j < 34" "x \<in> set (P j)" for j x using D(3) [OF that] hP that by auto
    show "16 * (j + 1) \<le> data_size m' x" if "j < 33" "x \<in> set (P j)" for j x
      using D(4) [OF that] hP [of j] that by (auto simp: hd)
    show "h_next (headers m' x) = SLAB_MAGIC" if "x \<in> insert h A" for x using D(5) that by (auto simp: hd)
  qed (use D(6-8) in \<open>simp_all add: hd\<close>)
  ultimately show ?thesis using hS by (simp add: slab_inv_def)
qed

lemma slab_add:
  assumes inv: "slab_inv m P A" and h: "h \<noteq> 0" "unat h + unat n + 16 < 2 ^ 64" "unat n < 2 ^ 32"
    and sp: "spare m (slabs P A) (unat h, unat n + 16)" and i: "i < 34" "i < 33 \<longrightarrow> 16 * (i + 1) \<le> unat n"
  shows "slab_inv (add_slab_to_slab_pool h i (upd_header h (\<lambda>_. \<lparr>h_size = n, h_next = x\<rparr>) m)) (P(i := h # P i)) A"
proof -
  let ?m = "upd_header h (\<lambda>_. \<lparr>h_size = n, h_next = SLAB_MAGIC\<rparr>) m"
  have "add_slab_to_slab_pool h i (upd_header h (\<lambda>_. \<lparr>h_size = n, h_next = x\<rparr>) m) = add_slab_to_slab_pool h i ?m"
    by (simp add: add_slab_to_slab_pool_def upd_header_def upd_spool_def upd_slab_def)
  moreover have u: "slab_inv ?m P (insert h A)" "h \<notin> A"
    using slab_new_used [OF inv h sp] by (auto simp: slabs_simps)
  have "slab_inv (add_slab_to_slab_pool h i ?m) (P(i := h # P i)) A"
    by (rule slab_push [OF u i(1)]) (use i in \<open>simp add: upd_header_def\<close>)
  ultimately show ?thesis by simp
qed

lemma add_slab_mem_inv:
  assumes inv: "slab_inv m P A" and h: "base \<noteq> 0" "unat base + unat sz < 2 ^ 64" "unat sz < 2 ^ 32"
    and sp: "spare m (slabs P A) (unat base, unat sz)"
  shows "(\<exists>P'. slab_inv (add_slab_mem base sz m) P' A) \<and> (\<forall>x\<in>slabs P A. h_size (headers (add_slab_mem base sz m) x) = h_size (headers m x))"
proof -
  have l: "slab_lists m P A" using inv by (simp add: slab_inv_def)
  note D = slab_listsD [OF l]
  have sizes: "h_size (headers (add_slab_to_slab_pool base j (upd_header base (\<lambda>_. y) m)) x) = h_size (headers m x)"
    if "x \<noteq> base" for x y j
    using that by (simp add: add_slab_to_slab_pool_def upd_spool_def upd_slab_def upd_header_def)
  consider (drop) "unat sz < 32" | (small) "32 \<le> unat sz" "unat sz \<le> 528" | (big) "528 < unat sz" by linarith
  then show ?thesis
  proof cases
    case drop
    then have "add_slab_mem base sz m = m" by (simp add: add_slab_mem_def SLAB_MIN_SIZE_def word_less_nat_alt)
    then show ?thesis using inv by auto
  next
    case small
    let ?n = "(sz - 16) AND NOT 15 :: u64"
    have "unat (sz - 16) = unat sz - 16" using small by (subst unat_sub_u64) simp_all
    then have n: "unat ?n = (unat sz - 16) div 16 * 16"
      using unat_and_not_mask [of "sz - 16" 4] by (simp add: mask_eq_exp_minus_1)
    have n16: "16 \<le> unat ?n" "unat ?n + 16 \<le> unat sz" "unat ?n \<le> 512" using n small by presburger+
    let ?i = "nat (slab_pool_id ?n m)"
    have i: "?i = unat ?n div 16 - 1" "?i < 32"
      using slab_pool_id_eq [OF D(6), of ?n] n16 by auto
    have ns: "\<not> sz < 32" "sz \<le> 528" "\<not> ?n < 16"
      using small n16 by (simp_all add: word_less_nat_alt word_le_nat_alt)
    have run: "add_slab_mem base sz m = add_slab_to_slab_pool base ?i (upd_header base (\<lambda>_. \<lparr>h_size = ?n, h_next = 0\<rparr>) m)"
      using ns D(6,8) by (simp add: add_slab_mem_def SLAB_MIN_SIZE_def SLAB_SIZE_def SLAB_HEADER_SIZE_def
          FREE_POOL_OFFSET_def SLAB_MIN_DATA_SIZE_def Let_def del: word_not_simps)
    have sp': "spare m (slabs P A) (unat base, unat ?n + 16)"
      using sp by (rule spare_sub) (use n16 in \<open>simp add: sub_def inside_def\<close>)
    then have "base \<notin> slabs P A" by (force simp: spare_def items_def apart_def)
    moreover have "slab_inv (add_slab_mem base sz m) (P(?i := base # P ?i)) A"
      unfolding run using i n16 h by (intro slab_add [OF inv h(1) _ _ sp']) auto
    ultimately show ?thesis using sizes unfolding run by (metis)
  next
    case big
    have n: "unat (sz - 16) = unat sz - 16" using big by (subst unat_sub_u64) simp_all
    have run: "add_slab_mem base sz m = add_slab_to_slab_pool base 33 (upd_header base (\<lambda>_. \<lparr>h_size = sz - 16, h_next = 0\<rparr>) m)"
      using big D(6,8) by (simp add: add_slab_mem_def SLAB_MIN_SIZE_def SLAB_SIZE_def SLAB_HEADER_SIZE_def
          FREE_POOL_OFFSET_def CACHE_POOL_OFFSET_def word_less_nat_alt word_le_nat_alt)
    have sp': "spare m (slabs P A) (unat base, unat (sz - 16) + 16)" using sp n big by simp
    then have "base \<notin> slabs P A" by (force simp: spare_def items_def apart_def)
    moreover have "slab_inv (add_slab_mem base sz m) (P(33 := base # P 33)) A"
      unfolding run using n h big by (intro slab_add [OF inv h(1) _ _ sp']) auto
    ultimately show ?thesis using sizes unfolding run by (metis)
  qed
qed

lemma slseg_upd_notin: "z \<notin> set xs \<Longrightarrow> slseg (H(z := v)) a xs b = slseg H a xs b"
  by (rule slseg_cong) auto

lemma packD:
  "pack T f U \<Longrightarrow> t \<in> T \<Longrightarrow> u \<in> T \<Longrightarrow> t \<noteq> u \<Longrightarrow> apart (f t) (f u)"
  "pack T f U \<Longrightarrow> t \<in> T \<Longrightarrow> r \<in> U \<Longrightarrow> apart (f t) r"
  by (auto simp: pack_def)

text \<open>A used slab is shortened; the rest of it is spare.\<close>

lemma slab_shrink:
  assumes inv: "slab_inv m P A" and h: "h \<in> A" and n: "unat n \<le> data_size m h"
  defines "m' \<equiv> upd_header h (\<lambda>x. x\<lparr>h_size := n\<rparr>) m"
  shows "slab_inv m' P A \<and> spare m' (slabs P A) (unat h + 16 + unat n, data_size m h - unat n)"
proof -
  have l: "slab_lists m P A" and geo: "slab_geo m (slabs P A)" using inv by (simp_all add: slab_inv_def)
  note D = slab_listsD [OF l]
  have hS: "h \<in> slabs P A" using h by (simp add: slabs_simps)
  have hP: "h \<notin> set (P j)" if "j < 34" for j using D(3) [OF that] h by blast
  have hd: "headers m' = (headers m)(h := (headers m h)\<lparr>h_size := n\<rparr>)" "mem_sections m' = mem_sections m" "pslab m' = pslab m"
    by (simp_all add: m'_def upd_header_def)
  note v = section_views [OF hd(2)]
  have u: "untaken m' = untaken m" "items m' (slabs P A) = items m (slabs P A)" by (simp_all add: untaken_def items_def v hd)
  have old: "pack (items m (slabs P A)) (item_rng m) (untaken m)" using geo by (simp add: slab_geo_def)
  have subs: "sub (item_rng m' t) (item_rng m t)" for t using n by (cases t) (auto simp: hd sub_def inside_def)
  have "pack (items m (slabs P A)) (item_rng m') (untaken m)"
    by (rule pack_refine [OF old, where g = "\<lambda>t. t"]) (use subs in auto)
  then have "slab_geo m' (slabs P A)"
    using geo n v by (force simp: slab_geo_def u hd)
  moreover have "slab_lists m' P A"
  proof (rule slab_listsI)
    show "slist (headers m') (sp_head (spool m' j)) (P j)" if "j < 34" for j
      using D(1) [OF that] by (subst slseg_cong [where H = "headers m"]) (auto simp: hd)
    show "x \<notin> set (P j)" if "i < 34" "j < 34" "i \<noteq> j" "x \<in> set (P i)" for i j x using D(2) that by blast
    show "x \<notin> A" if "j < 34" "x \<in> set (P j)" for j x using D(3) [OF that] .
    show "16 * (j + 1) \<le> data_size m' x" if "j < 33" "x \<in> set (P j)" for j x
      using D(4) [OF that] hP [of j] that by (auto simp: hd)
    show "h_next (headers m' x) = SLAB_MAGIC" if "x \<in> A" for x using D(5) that by (auto simp: hd)
  qed (use D(6-8) in \<open>simp_all add: hd\<close>)
  moreover have "spare m' (slabs P A) (unat h + 16 + unat n, data_size m h - unat n)"
    unfolding spare_def u
  proof (intro conjI ballI)
    let ?r = "(unat h + 16 + unat n, data_size m h - unat n)"
    have r: "sub ?r (item_rng m (Some h))" using n by (simp add: sub_def inside_def)
    have hi: "Some h \<in> items m (slabs P A)" using hS by (simp add: items_def)
    show "apart ?r (item_rng m' t)" if t: "t \<in> items m (slabs P A)" for t
    proof (cases "t = Some h")
      case False
      then have "apart (item_rng m (Some h)) (item_rng m t)" by (metis packD(1) old hi t)
      then show ?thesis using apart_sub r subs by blast
    qed (simp add: apart_def hd)
    show "apart ?r t" if "t \<in> untaken m" for t
      using packD(2) [OF old hi that] r by (rule apart_sub) simp
  qed
  ultimately show ?thesis by (simp add: slab_inv_def)
qed

lemma add_slab_mem_commute:
  assumes "h \<noteq> base"
  shows "upd_header h (\<lambda>_. y) (add_slab_mem base s m) = add_slab_mem base s (upd_header h (\<lambda>_. y) m)"
proof -
  have "(f(base := a))(h := b) = (f(h := b))(base := a)" for f :: "u64 \<Rightarrow> slab_header" and a b
    using assms by (simp add: fun_upd_twist)
  then show ?thesis
    using assms by (simp add: add_slab_mem_def add_slab_to_slab_pool_def slab_pool_id_def upd_spool_def upd_slab_def upd_header_def Let_def)
qed

lemma upd_header_both:
  "upd_header z (\<lambda>x. x\<lparr>h_size := n\<rparr>) (upd_header z (\<lambda>x. x\<lparr>h_next := c\<rparr>) m) = upd_header z (\<lambda>_. \<lparr>h_size = n, h_next = c\<rparr>) m"
  by (cases "headers m z") (simp add: upd_header_def)

lemma cache_loop_given:
  assumes inv: "slab_inv m P A" and P: "P 33 = ys @ zs" and sz: "16 \<le> unat sz" "unat sz < 2 ^ 32"
    and h: "h = (case zs of [] \<Rightarrow> 0 | z # _ \<Rightarrow> z)" "prev = (if ys = [] then h else last ys)"
  shows "\<exists>r m'. cache_loop sz prev h m = Some (r, m') \<and> slab_given m A sz r m'"
  using P h
proof (induction zs arbitrary: ys prev h)
  case Nil
  then show ?case using slab_given_none [OF inv] by (subst cache_loop.simps) auto
next
  case (Cons z zs)
  have l: "slab_lists m P A" and geo: "slab_geo m (slabs P A)" using inv by (simp_all add: slab_inv_def)
  note D = slab_listsD [OF l]
  have li: "slist (headers m) (sp_head (spool m 33)) (ys @ z # zs)" using D(1) [of 33] Cons.prems(1) by simp
  have z: "z \<noteq> 0" "h = z" and nxt: "h_next (headers m z) = (case zs of [] \<Rightarrow> 0 | y # _ \<Rightarrow> y)"
    using li Cons.prems by (auto split: list.splits)
  show ?case
  proof (cases "h_size (headers m z) < sz")
    case True
    have "cache_loop sz prev h m = cache_loop sz z (h_next (headers m z)) m"
      using z True by (subst cache_loop.simps) (simp add: Let_def)
    then show ?thesis using Cons.IH [of "ys @ [z]" "h_next (headers m z)" z] Cons.prems(1) nxt by simp
  next
    case False
    then have le: "unat sz \<le> data_size m z" by (simp add: not_less word_le_nat_alt)
    define left_size where "left_size = h_size (headers m z) - sz"
    define base where "base = z + SLAB_SIZE sz"
    define nx where "nx = h_next (headers m z)"
    have zS: "z \<in> slabs P A" using Cons.prems(1) by (auto simp: slabs_simps intro!: exI [of _ 33])
    then have zr: "unat z + data_size m z + 16 < 2 ^ 64" "data_size m z < 2 ^ 32" using geo by (auto simp: slab_geo_def)
    have ul: "unat left_size = data_size m z - unat sz" using le by (simp add: left_size_def unat_sub_u64)
    then have cl: "ucast (ucast left_size :: 32 word) = left_size" using zr(2) by (intro u32_left) simp
    have ub: "unat base = unat z + 16 + unat sz"
      using zr le by (simp add: base_def SLAB_SIZE_def SLAB_HEADER_SIZE_def unat_word_ariths)
    have d: "distinct (ys @ z # zs)" using slist_distinct [OF li] .
    let ?m1 = "upd_header z (\<lambda>x. x\<lparr>h_next := SLAB_MAGIC\<rparr>) (link_slab 33 prev z nx m)"
    let ?m2 = "upd_header z (\<lambda>x. x\<lparr>h_size := sz\<rparr>) ?m1"
    let ?P = "P(33 := ys @ zs)"
    have inv1: "slab_inv ?m1 ?P (insert z A) \<and> z \<notin> A"
      using slab_unlink [OF inv _ Cons.prems(1)] unfolding Cons.prems(3) z(2) nx_def by simp
    have sz1: "h_size (headers ?m1 x) = h_size (headers m x)" for x
      by (simp add: upd_header_def link_slab_def upd_spool_def upd_slab_def)
    have inv2: "slab_inv ?m2 ?P (insert z A)" "spare ?m2 (slabs ?P (insert z A)) (unat base, unat left_size)"
      using slab_shrink [of ?m1 ?P "insert z A" z sz] inv1 le sz1 ub ul by auto
    have base0: "base \<noteq> 0" using ub by auto
    have bz: "base \<noteq> z" using ub by auto
    define y where "y = \<lparr>h_size = sz, h_next = SLAB_MAGIC\<rparr>"
    have m2: "?m2 = upd_header z (\<lambda>_. y) (link_slab 33 prev z nx m)" by (simp only: upd_header_both y_def)
    have step: "cache_loop sz prev h m = Some (Some (SLAB_HEADER_TO_ADDR z), upd_header z (\<lambda>_. y)
        (if left_size \<le> SLAB_SIZE 80 then add_slab_mem base left_size (link_slab 33 prev z nx m)
         else link_slab 33 prev z base (upd_header base (\<lambda>_. \<lparr>h_size = left_size - SLAB_HEADER_SIZE, h_next = nx\<rparr>) m)))"
      using z False D(6) by (subst cache_loop.simps)
        (simp add: Let_def link_slab_def CACHE_POOL_OFFSET_def left_size_def [symmetric] cl base_def [symmetric] nx_def [symmetric] y_def)
    have keep: "h_size (headers ?m2 x) = (if x = z then sz else h_size (headers m x))" for x
      by (simp add: upd_header_def link_slab_def upd_spool_def upd_slab_def)
    show ?thesis
    proof (cases "left_size \<le> SLAB_SIZE 80")
      case True
      let ?m' = "add_slab_mem base left_size ?m2"
      have a: "(\<exists>P'. slab_inv ?m' P' (insert z A))" "\<forall>x\<in>slabs ?P (insert z A). h_size (headers ?m' x) = h_size (headers ?m2 x)"
        using add_slab_mem_inv [OF inv2(1) base0 _ _ inv2(2)] ub ul zr le by auto
      have "slab_given m A sz (Some (SLAB_HEADER_TO_ADDR z)) ?m'"
        using a inv1 keep by (auto simp: slab_given_def SLAB_HEADER_TO_ADDR_def SLAB_HEADER_SIZE_def slabs_simps intro!: exI [of _ z])
      then show ?thesis using True step add_slab_mem_commute [of z base] bz m2 by auto
    next
      case False
      then have lb: "96 < unat left_size" by (simp add: SLAB_SIZE_def SLAB_HEADER_SIZE_def word_le_nat_alt)
      let ?n = "left_size - SLAB_HEADER_SIZE"
      have un: "unat ?n = unat left_size - 16" using lb by (subst unat_sub_u64) (simp_all add: SLAB_HEADER_SIZE_def)
      let ?m3 = "upd_header base (\<lambda>_. \<lparr>h_size = ?n, h_next = SLAB_MAGIC\<rparr>) ?m2"
      let ?m' = "upd_header z (\<lambda>_. y) (link_slab 33 prev z base (upd_header base (\<lambda>_. \<lparr>h_size = ?n, h_next = nx\<rparr>) m))"
      have inv3: "slab_inv ?m3 ?P (insert base (insert z A))" "base \<notin> slabs ?P (insert z A)"
        using slab_new_used [OF inv2(1) base0, of ?n] inv2(2) un lb ub ul zr le by auto
      have inv3: "slab_inv ?m3 ?P (insert base (insert z A))" "base \<notin> slabs ?P (insert z A)"
        using slab_new_used [OF inv2(1) base0, of ?n] inv2(2) un lb ub ul zr le by auto
      then have bl: "base \<notin> set (ys @ z # zs)" using slabs_upd [of 33 P] by auto
      define H where "H = (headers m)(base := \<lparr>h_size = ?n, h_next = nx\<rparr>)"
      have hH: "headers (upd_header base (\<lambda>_. \<lparr>h_size = ?n, h_next = nx\<rparr>) m) = H"
        "mem_sections (upd_header base (\<lambda>_. \<lparr>h_size = ?n, h_next = nx\<rparr>) m) = mem_sections m"
        "pslab (upd_header base (\<lambda>_. \<lparr>h_size = ?n, h_next = nx\<rparr>) m) = pslab m"
        by (simp_all add: upd_header_def H_def)
      have pv: "prev = (if ys = [] then z else last ys)" using Cons.prems(3) z(2) by simp
      note e = link_slab_effect [OF d, of 33 base "upd_header base (\<lambda>_. \<lparr>h_size = ?n, h_next = nx\<rparr>) m", folded pv, unfolded hH]
      note e2 = link_slab_effect [OF d, of 33 nx m, folded pv]
      have hm': "headers ?m' = (headers (link_slab 33 prev z base (upd_header base (\<lambda>_. \<lparr>h_size = ?n, h_next = nx\<rparr>) m)))(z := y)"
        "mem_sections ?m' = mem_sections m" "pslab ?m' = pslab (link_slab 33 prev z base (upd_header base (\<lambda>_. \<lparr>h_size = ?n, h_next = nx\<rparr>) m))"
        using e(2) by (simp_all add: upd_header_def)
      have hm3: "headers ?m3 = ((headers (link_slab 33 prev z nx m))(z := y))(base := \<lparr>h_size = ?n, h_next = SLAB_MAGIC\<rparr>)"
        "mem_sections ?m3 = mem_sections m" "pslab ?m3 = pslab (link_slab 33 prev z nx m)"
        unfolding m2 using e2(2) by (simp_all add: upd_header_def)
      have l1: "slist H (sp_head (spool m 33)) (ys @ z # zs)" "slist H base (base # zs)"
      proof -
        show "slist H (sp_head (spool m 33)) (ys @ z # zs)"
          using li bl by (subst slseg_cong [where H = "headers m"]) (auto simp: H_def)
        have "slist (headers m) nx zs" using li by (auto simp: nx_def)
        then have "slist H nx zs" using bl by (subst slseg_cong [where H = "headers m"]) (auto simp: H_def)
        then show "slist H base (base # zs)" using base0 by (simp add: H_def)
      qed
      have fr: "set (base # zs) \<inter> set ys = {}" using bl d by auto
      let ?p = "(spool m 33)\<lparr>sp_head := if ys = [] then base else sp_head (spool m 33)\<rparr>"
      have nl: "slist (headers ?m') (sp_head ?p) (ys @ base # zs)"
      proof -
        have "slist (if ys = [] then H else H(last ys := (H (last ys))\<lparr>h_next := base\<rparr>)) (sp_head ?p) (ys @ base # zs)"
          using slist_relink [OF l1 fr] l1(2) by (cases "ys = []") auto
        moreover have "z \<notin> set (ys @ base # zs)" using d bz by auto
        ultimately show ?thesis unfolding hm'(1) e(1) by (metis slseg_upd_notin)
      qed
      have "slab_inv ?m' (?P(33 := ys @ base # zs)) (insert z A)"
      proof (rule slab_put [OF inv3(1)])
        show "base \<notin> insert z A" using inv3(2) by (auto simp: slabs_simps)
        show "?P 33 = ys @ zs" "(33::nat) < 34" by simp_all
        show "same_blocks ?m3 ?m'" by (rule same_blocks_sections) (simp add: hm'(2) hm3(2))
        show "pslab ?m' = (pslab ?m3)\<lparr>sl_pool := (sl_pool (pslab ?m3))[33 := ?p]\<rparr>"
          unfolding hm'(3) hm3(3) e(3) e2(3) by simp
        show "sp_size ?p = sp_size (spool ?m3 33)" unfolding hm3(3) e2(3) using D(7) by simp
        show "h_size (headers ?m' x) = h_size (headers ?m3 x)" for x
          unfolding hm'(1) hm3(1) e(1) e2(1) using bz bl by (auto simp: H_def)
        show "headers ?m' x = headers ?m3 x" if "x \<notin> insert base (set (?P 33))" for x
          unfolding hm'(1) hm3(1) e(1) e2(1) using that by (auto simp: H_def)
        show "slist (headers ?m') (sp_head ?p) (ys @ base # zs)" by (rule nl)
      qed simp
      moreover have "h_size (headers ?m' x) = h_size (headers m x)" if "x \<in> A" for x
        unfolding hm'(1) e(1) using inv3(2) inv1 that by (auto simp: H_def slabs_simps)
      moreover have "h_size (headers ?m' z) = sz" unfolding hm'(1) by (simp add: y_def)
      ultimately have "slab_given m A sz (Some (SLAB_HEADER_TO_ADDR z)) ?m'"
        using inv1 by (auto simp: slab_given_def SLAB_HEADER_TO_ADDR_def SLAB_HEADER_SIZE_def intro!: exI [of _ z])
      then show ?thesis using False step by auto
    qed
  qed
qed

lemma get_slab_from_cache_given:
  assumes inv: "slab_inv m P A" and sz: "16 \<le> unat sz" "unat sz < 2 ^ 32"
  shows "\<exists>r m'. get_slab_from_cache sz m = Some (r, m') \<and> slab_given m A sz r m'"
proof -
  have l: "slab_lists m P A" using inv by (simp add: slab_inv_def)
  note D = slab_listsD [OF l]
  have "sp_head (spool m 33) = (case P 33 of [] \<Rightarrow> 0 | z # _ \<Rightarrow> z)" using D(1) [of 33] by (auto split: list.splits)
  then show ?thesis
    using cache_loop_given [OF inv _ sz, of "[]" "P 33"] D(6)
    by (auto simp: get_slab_from_cache_def CACHE_POOL_OFFSET_def Let_def)
qed

text \<open>
  The slab at the start of the rest of the slab block: its header is written, the rest moves on or
  ends, and its block counts one more slab.
\<close>

lemma in_section_iff:
  assumes "sec_ok s"
  shows "IN_RANGE_UNSIGNED a (s_phy_base s) (s_size s) \<longleftrightarrow>
    unat (s_phy_base s) \<le> unat a \<and> unat a < unat (s_phy_base s) + unat (s_size s)"
  using assms by (auto simp: IN_RANGE_UNSIGNED_def word_le_nat_alt word_less_nat_alt sec_ok_def unat_add_u64)

lemma addr_to_mem_section_in:
  assumes ok: "mm_ok m" "i < length (mem_sections m)"
    and a: "unat (s_phy_base (mem_sections m ! i)) \<le> unat a" "unat a < unat (s_phy_base (mem_sections m ! i)) + unat (s_size (mem_sections m ! i))"
  shows "addr_to_mem_section a m = Some i"
proof -
  let ?in = "\<lambda>j. IN_RANGE_UNSIGNED a (s_phy_base (mem_sections m ! j)) (s_size (mem_sections m ! j))"
  have sec: "sec_ok (mem_sections m ! j)" if "j < length (mem_sections m)" for j using ok(1) that by (auto simp: mm_ok_def)
  have "\<not> ?in j" if "j < i" for j
    using apart_sections [OF ok(1), of j i] that ok(2) a in_section_iff [OF sec, of j a]
    by (auto simp: apart_def sec_rng_def)
  moreover have "?in i" using in_section_iff [OF sec [OF ok(2)]] a by simp
  ultimately show ?thesis using ok(2) by (auto simp: addr_to_mem_section_def find_Some_iff intro!: exI [of _ i])
qed

lemma addr_to_mem_block_in:
  assumes ok: "mm_ok m" "block_valid m p" and a: "fst (block_rng m p) \<le> unat a" "unat a < fst (block_rng m p) + 2 ^ 21"
  shows "addr_to_mem_block a m = Some p"
proof -
  let ?s = "mem_sections m ! fst p"
  have r: "fst (block_rng m p) = unat (s_phy_base ?s) + snd p * 2 ^ 21" by (simp add: block_rng_def)
  have "unat a < unat (s_phy_base ?s) + unat (s_size ?s)" "unat (s_phy_base ?s) \<le> unat a"
    using block_in_section [OF ok] a r by (auto simp: inside_def sec_rng_def block_rng_def)
  then have sec: "addr_to_mem_section a m = Some (fst p)" "unat (a - s_phy_base ?s) = unat a - unat (s_phy_base ?s)"
    using addr_to_mem_section_in [OF ok(1)] ok(2) by (auto simp: block_valid_def unat_sub_u64)
  have "(unat a - unat (s_phy_base ?s)) div 2 ^ 21 = snd p"
    using a r by (intro div_nat_eqI) auto
  then show ?thesis
    using sec ok(2) by (simp add: addr_to_mem_block_def offset_in_section_bitmap_def MEM_BLOCK_SHIFT_def unat_drop_bit block_valid_def prod_eq_iff)
qed

lemma slab_carve:
  assumes inv: "slab_inv m P A" and fs: "sl_free_size (pslab m) \<noteq> 0"
    and n: "n + 16 + left = nat (sl_free_size (pslab m))" "n < 2 ^ 32" "left = 0 \<or> 32 \<le> left"
  defines "h \<equiv> sl_slab_free (pslab m)"
  defines "m' \<equiv> upd_slab (\<lambda>s. s\<lparr>sl_slab_free := if left = 0 then 0 else h + word_of_nat (n + 16), sl_free_size := int left\<rparr>)
     (upd_header h (\<lambda>_. \<lparr>h_size = word_of_nat n, h_next = SLAB_MAGIC\<rparr>) m)"
  shows "slab_inv m' P (insert h A) \<and> h \<notin> slabs P A"
proof -
  have l: "slab_lists m P A" and geo: "slab_geo m (slabs P A)" using inv by (simp_all add: slab_inv_def)
  note D = slab_listsD [OF l]
  have hd: "headers m' = (headers m)(h := \<lparr>h_size = word_of_nat n, h_next = SLAB_MAGIC\<rparr>)" "mem_sections m' = mem_sections m"
    "pslab m' = (pslab m)\<lparr>sl_slab_free := if left = 0 then 0 else h + word_of_nat (n + 16), sl_free_size := int left\<rparr>"
    by (simp_all add: m'_def upd_header_def upd_slab_def)
  note v = section_views [OF hd(2)]
  have u: "untaken m' = untaken m" by (simp add: untaken_def v)
  obtain p where p: "block_valid m p" "sub (item_rng m None) (block_rng m p)" "h \<noteq> 0" "32 \<le> sl_free_size (pslab m)" "mm_ok m"
    using geo fs by (auto simp: slab_geo_def h_def)
  have un: "unat (word_of_nat n :: u64) = n" using n(2) by (simp add: unat_of_nat)
  have blk: "fst (block_rng m p) + 2 ^ 21 < 2 ^ 64"
    using block_in_section [OF p(5,1)] p(1,5) by (auto simp: inside_def block_rng_def sec_rng_def mm_ok_def sec_ok_def block_valid_def dest!: nth_mem)
  have end_: "unat h + nat (sl_free_size (pslab m)) < 2 ^ 64" "unat h + n + 16 + left < 2 ^ 64"
    using p(2) blk n(1) by (auto simp: sub_def inside_def h_def block_rng_def)
  have uh: "unat (h + word_of_nat (n + 16)) = unat h + n + 16"
  proof -
    have "unat (word_of_nat (n + 16) :: u64) = n + 16" using n(2) by (simp only: unat_of_nat) simp
    then show ?thesis using end_ by (subst unat_add_u64) auto
  qed
  have old: "pack (items m (slabs P A)) (item_rng m) (untaken m)" using geo by (simp add: slab_geo_def)
  have None_in: "None \<in> items m (slabs P A)" using fs by (simp add: items_def)
  have hS: "h \<notin> slabs P A"
  proof
    assume "h \<in> slabs P A"
    then have "apart (item_rng m (Some h)) (item_rng m None)"
      using packD(1) [OF old _ None_in, of "Some h"] by (auto simp: items_def)
    then show False using p(4) by (auto simp: apart_def h_def)
  qed
  then have hP: "h \<notin> set (P j)" if "j < 34" for j using that by (auto simp: slabs_simps)
  have "pack (items m' (insert h (slabs P A))) (item_rng m') (untaken m')"
    unfolding u
  proof (rule pack_refine [OF old order_refl, where g = "\<lambda>t. if t = Some h then None else t"])
    fix t assume t: "t \<in> items m' (insert h (slabs P A))"
    show "(if t = Some h then None else t) \<in> items m (slabs P A) \<and> sub (item_rng m' t) (item_rng m (if t = Some h then None else t))"
      using t None_in fs n uh un p(3)
      by (cases t) (auto simp: items_def hd sub_def inside_def h_def split: if_splits)
  next
    fix t w assume "t \<in> items m' (insert h (slabs P A))" "w \<in> items m' (insert h (slabs P A))" "t \<noteq> w"
      "(if t = Some h then None else t) = (if w = Some h then None else w)"
    then show "apart (item_rng m' t) (item_rng m' w)"
      using uh un by (auto simp: items_def hd apart_def split: if_splits)
  qed
  moreover have "\<forall>x\<in>insert h (slabs P A). x \<noteq> 0 \<and> unat x + data_size m' x + 16 < 2 ^ 64 \<and> data_size m' x < 2 ^ 32"
    using geo p(3) end_ un n(2) hS by (auto simp: hd slab_geo_def)
  moreover have "sl_free_size (pslab m') = 0 \<or> sl_slab_free (pslab m') \<noteq> 0 \<and> 32 \<le> sl_free_size (pslab m') \<and>
      (\<exists>p. block_valid m' p \<and> sub (item_rng m' None) (block_rng m' p))"
  proof (cases "left = 0")
    case False
    then have "sub (item_rng m' None) (block_rng m' p)"
      using p(2) n(1) uh v by (auto simp: sub_def inside_def hd h_def)
    then have "\<exists>p. block_valid m' p \<and> sub (item_rng m' None) (block_rng m' p)" using v(2) p(1) by metis
    moreover have "sl_slab_free (pslab m') \<noteq> 0" using False uh p(3) by (simp add: hd) (metis add_is_0 unat_0 unat_eq_0)
    moreover have "32 \<le> sl_free_size (pslab m')" using False n(3) by (simp add: hd)
    ultimately show ?thesis by blast
  qed (simp add: hd)
  moreover have "mm_ok m'" using v(1) p(5) by blast
  moreover have "\<forall>q. block_valid m' q \<longrightarrow> fst (block_rng m' q) \<noteq> 0" using geo v(2,4) unfolding slab_geo_def by metis
  ultimately have "slab_geo m' (slabs P (insert h A))" unfolding slab_geo_def slabs_simps(2) by blast
  moreover have "slab_lists m' P (insert h A)"
  proof (rule slab_listsI)
    show "slist (headers m') (sp_head (spool m' j)) (P j)" if "j < 34" for j
      using D(1) [OF that] hP [OF that] by (subst slseg_cong [where H = "headers m"]) (auto simp: hd)
    show "x \<notin> set (P j)" if "i < 34" "j < 34" "i \<noteq> j" "x \<in> set (P i)" for i j x using D(2) that by blast
    show "x \<notin> insert h A" if "j < 34" "x \<in> set (P j)" for j x using D(3) [OF that] hP that by auto
    show "16 * (j + 1) \<le> data_size m' x" if "j < 33" "x \<in> set (P j)" for j x
      using D(4) [OF that] hP [of j] that by (auto simp: hd)
    show "h_next (headers m' x) = SLAB_MAGIC" if "x \<in> insert h A" for x using D(5) that by (auto simp: hd)
  qed (use D(6-8) in \<open>simp_all add: hd\<close>)
  ultimately show ?thesis using hS by (simp add: slab_inv_def)
qed

text \<open>Counting the slabs of a block changes nothing the invariant looks at.\<close>

lemma slab_inv_upd_block:
  assumes "slab_inv m P A" "block_valid m p" shows "slab_inv (upd_block p f m) P A"
proof -
  have "slab_geo (upd_block p f m) (slabs P A)"
    using assms by (intro slab_geo_cong [OF _ same_blocks_upd_block]) (auto simp: slab_inv_def upd_block_def)
  moreover have "slab_lists (upd_block p f m) P A"
    using assms(1) by (simp add: slab_inv_def slab_lists_def upd_block_def)
  ultimately show ?thesis by (simp add: slab_inv_def)
qed

lemma slab_free_block:
  assumes inv: "slab_inv m P A" and fs: "sl_free_size (pslab m) \<noteq> 0"
  shows "\<exists>p. addr_to_mem_block (sl_slab_free (pslab m)) m = Some p \<and> block_valid m p \<and> sl_free_size (pslab m) \<le> 2 ^ 21"
proof -
  have geo: "slab_geo m (slabs P A)" using inv by (simp add: slab_inv_def)
  obtain p where p: "block_valid m p" "sub (item_rng m None) (block_rng m p)" "32 \<le> sl_free_size (pslab m)" "mm_ok m"
    using geo fs by (auto simp: slab_geo_def)
  have r: "snd (block_rng m p) = 2 ^ 21" by (simp add: block_rng_def)
  have "addr_to_mem_block (sl_slab_free (pslab m)) m = Some p"
    using p r by (intro addr_to_mem_block_in) (auto simp: sub_def inside_def)
  moreover have "sl_free_size (pslab m) \<le> 2 ^ 21" using p(2,3) r by (auto simp: sub_def inside_def)
  ultimately show ?thesis using p(1) by blast
qed

lemma free_size_cases:
  assumes "slab_inv m P A" shows "sl_free_size (pslab m) = 0 \<or> 32 \<le> sl_free_size (pslab m) \<and> sl_free_size (pslab m) \<le> 2 ^ 21"
  using assms slab_free_block [OF assms] by (auto simp: slab_inv_def slab_geo_def)

lemma unat_free_size:
  assumes "slab_inv m P A" shows "unat (word_of_int (sl_free_size (pslab m)) :: u64) = nat (sl_free_size (pslab m))"
  using free_size_cases [OF assms] by (auto simp: unat_eq_nat_uint uint_word_of_int)

lemma get_slab_from_slab_free_given:
  assumes inv: "slab_inv m P A" and sz: "16 \<le> unat sz" "unat sz < 2 ^ 32"
  shows "\<exists>r m'. get_slab_from_slab_free sz m = Some (r, m') \<and> slab_given m A sz r m'"
proof -
  let ?fs = "word_of_int (sl_free_size (pslab m)) :: u64"
  have ufs: "unat ?fs = nat (sl_free_size (pslab m))" using unat_free_size [OF inv] .
  have usz: "unat (SLAB_SIZE sz) = unat sz + 16"
    using sz by (simp add: SLAB_SIZE_def SLAB_HEADER_SIZE_def unat_word_ariths)
  show ?thesis
  proof (cases "?fs < SLAB_SIZE sz")
    case True
    then show ?thesis using slab_given_none [OF inv] by (auto simp: get_slab_from_slab_free_def Let_def)
  next
    case False
    then have le: "unat sz + 16 \<le> nat (sl_free_size (pslab m))" using ufs usz by (simp add: not_less word_le_nat_alt)
    have fs: "sl_free_size (pslab m) \<noteq> 0" using le by auto
    obtain p where p: "addr_to_mem_block (sl_slab_free (pslab m)) m = Some p" "block_valid m p" "sl_free_size (pslab m) \<le> 2 ^ 21"
      using slab_free_block [OF inv fs] by blast
    define h where "h = sl_slab_free (pslab m)"
    define w where "w = ?fs - SLAB_SIZE sz"
    have uw: "unat w = nat (sl_free_size (pslab m)) - (unat sz + 16)" using le ufs usz by (simp add: w_def unat_sub_u64)
    define n where "n = (if unat w < 32 then unat sz + unat w else unat sz)"
    define left where "left = (if unat w < 32 then 0 else unat w)"
    have nl: "n + 16 + left = nat (sl_free_size (pslab m))" "n < 2 ^ 32" "left = 0 \<or> 32 \<le> left"
      using uw le p(3) by (auto simp: n_def left_def)
    define m1 where "m1 = upd_slab (\<lambda>s. s\<lparr>sl_slab_free := if left = 0 then 0 else h + word_of_nat (n + 16), sl_free_size := int left\<rparr>)
       (upd_header h (\<lambda>_. \<lparr>h_size = word_of_nat n, h_next = SLAB_MAGIC\<rparr>) m)"
    have inv1: "slab_inv m1 P (insert h A)" "h \<notin> slabs P A"
      unfolding m1_def h_def by (rule conjunct1 [OF slab_carve [OF inv fs nl]], rule conjunct2 [OF slab_carve [OF inv fs nl]])
    have run: "get_slab_from_slab_free sz m = Some (Some (SLAB_HEADER_TO_ADDR h), upd_block p (\<lambda>b. b\<lparr>b_free_pages := b_free_pages b + 1\<rparr>) m1)"
    proof -
      have lt: "w < SLAB_SIZE SLAB_MIN_DATA_SIZE \<longleftrightarrow> unat w < 32"
        by (simp add: SLAB_SIZE_def SLAB_MIN_DATA_SIZE_def SLAB_HEADER_SIZE_def word_less_nat_alt)
      have si: "sint (ucast w :: 32 word) = int (unat w)" using uw p(3) by (intro sint_ucast_small) simp
      show ?thesis
      proof (cases "unat w < 32")
        case True
        then have "n = unat sz + unat w" "left = 0" by (simp_all add: n_def left_def)
        then show ?thesis
          using True False p(1) unfolding get_slab_from_slab_free_def Let_def w_def [symmetric] h_def [symmetric] lt m1_def
          by simp
      next
        case ge: False
        then have nn: "n = unat sz" "left = unat w" "left \<noteq> 0" by (simp_all add: n_def left_def)
        have "(word_of_nat (unat sz + 16) :: u64) = SLAB_SIZE sz" by (simp add: SLAB_SIZE_def SLAB_HEADER_SIZE_def)
        then show ?thesis
          using ge False p(1) nn si unfolding get_slab_from_slab_free_def Let_def w_def [symmetric] h_def [symmetric] lt m1_def
          by simp
      qed
    qed
    have bv: "block_valid m1 p" using p(2) by (simp add: m1_def block_valid_def upd_slab_def upd_header_def)
    let ?m' = "upd_block p (\<lambda>b. b\<lparr>b_free_pages := b_free_pages b + 1\<rparr>) m1"
    have "h_size (headers ?m' x) = h_size (headers m x)" if "x \<in> A" for x
      using that inv1(2) by (auto simp: upd_block_def m1_def upd_slab_def upd_header_def slabs_simps)
    moreover have "data_size ?m' h = n" using nl(2) by (simp add: upd_block_def m1_def upd_slab_def upd_header_def unat_of_nat)
    ultimately have "slab_given m A sz (Some (SLAB_HEADER_TO_ADDR h)) ?m'"
      using slab_inv_upd_block [OF inv1(1) bv] inv1(2)
      by (auto simp: slab_given_def SLAB_HEADER_TO_ADDR_def SLAB_HEADER_SIZE_def slabs_simps n_def intro!: exI [of _ h])
    then show ?thesis using run by blast
  qed
qed

lemma push_slab_free_inv:
  assumes inv: "slab_inv m P A"
  shows "\<exists>m' P'. push_slab_free m = Some m' \<and> slab_inv m' P' A \<and> sl_free_size (pslab m') = 0 \<and>
    (\<forall>x\<in>A. h_size (headers m' x) = h_size (headers m x))"
proof -
  let ?fs = "word_of_int (sl_free_size (pslab m)) :: u64"
  have ufs: "unat ?fs = nat (sl_free_size (pslab m))" using unat_free_size [OF inv] .
  have ge: "SLAB_SIZE SLAB_MIN_DATA_SIZE \<le> ?fs \<longleftrightarrow> 32 \<le> nat (sl_free_size (pslab m))"
    by (simp add: SLAB_SIZE_def SLAB_MIN_DATA_SIZE_def SLAB_HEADER_SIZE_def word_le_nat_alt ufs)
  show ?thesis
  proof (cases "sl_free_size (pslab m) = 0")
    case True
    then show ?thesis using inv ge by (auto simp: push_slab_free_def Let_def)
  next
    case False
    have l: "slab_lists m P A" using inv by (simp add: slab_inv_def)
    note D = slab_listsD [OF l]
    have fs: "32 \<le> nat (sl_free_size (pslab m))" "sl_free_size (pslab m) \<le> 2 ^ 21" using free_size_cases [OF inv] False by auto
    obtain p where p: "addr_to_mem_block (sl_slab_free (pslab m)) m = Some p" "block_valid m p"
      using slab_free_block [OF inv False] by blast
    define h where "h = sl_slab_free (pslab m)"
    define n where "n = nat (sl_free_size (pslab m)) - 16"
    have un: "?fs - SLAB_HEADER_SIZE = word_of_nat n" "unat (word_of_nat n :: u64) = n"
    proof -
      show "unat (word_of_nat n :: u64) = n" using fs(2) by (simp add: unat_of_nat n_def)
      then show "?fs - SLAB_HEADER_SIZE = word_of_nat n"
        using fs ufs by (simp add: word_unat_eq_iff n_def SLAB_HEADER_SIZE_def unat_sub_u64)
    qed
    have nl: "n + 16 + 0 = nat (sl_free_size (pslab m))" "n < 2 ^ 32" "(0::nat) = 0 \<or> 32 \<le> (0::nat)" "16 \<le> n"
      using fs by (auto simp: n_def)
    define id where "id = (if 32 \<le> slab_pool_id (word_of_nat n) m then 33 else nat (slab_pool_id (word_of_nat n) m))"
    have idn: "id < 34" "id < 33 \<longrightarrow> 16 * (id + 1) \<le> n" "0 \<le> slab_pool_id (word_of_nat n) m"
    proof -
      have pid: "slab_pool_id (word_of_nat n) m = min 32 (int (n div 16) - 1)"
        using slab_pool_id_eq [OF D(6), of "word_of_nat n"] un(2) nl by simp
      have "1 \<le> n div 16" using nl(4) by (simp add: div_greater_zero_iff Suc_le_eq)
      then show "id < 34" "id < 33 \<longrightarrow> 16 * (id + 1) \<le> n" "0 \<le> slab_pool_id (word_of_nat n) m"
        unfolding id_def pid by (auto simp: min_def split: if_splits)
    qed
    define m0 where "m0 = upd_slab (\<lambda>s. s\<lparr>sl_slab_free := if (0::nat) = 0 then 0 else h + word_of_nat (n + 16), sl_free_size := int 0\<rparr>)
       (upd_header h (\<lambda>_. \<lparr>h_size = word_of_nat n, h_next = SLAB_MAGIC\<rparr>) m)"
    have inv1: "slab_inv m0 P (insert h A)" "h \<notin> slabs P A"
      unfolding m0_def h_def by (rule conjunct1 [OF slab_carve [OF inv False nl(1-3)]], rule conjunct2 [OF slab_carve [OF inv False nl(1-3)]])
    let ?m1 = "add_slab_to_slab_pool h id m0"
    let ?m' = "upd_block p (\<lambda>b. b\<lparr>b_free_pages := b_free_pages b + 1\<rparr>) ?m1"
    have run: "push_slab_free m = Some ?m'"
    proof -
      have "upd_slab (\<lambda>s. s\<lparr>sl_free_size := 0, sl_slab_free := 0\<rparr>) (add_slab_to_slab_pool h id
          (upd_header h (\<lambda>_. \<lparr>h_size = word_of_nat n, h_next = SLAB_MAGIC\<rparr>) m)) = ?m1"
        by (simp add: m0_def add_slab_to_slab_pool_def upd_spool_def upd_slab_def upd_header_def)
      moreover have "nat (if 32 \<le> slab_pool_id (word_of_nat n) m then 33 else slab_pool_id (word_of_nat n) m) = id"
        using idn(3) by (simp add: id_def)
      ultimately show ?thesis
        using ge fs p(1) D(6) by (cases "32 \<le> slab_pool_id (word_of_nat n) m") (simp_all add: push_slab_free_def Let_def un(1) h_def [symmetric] FREE_POOL_OFFSET_def CACHE_POOL_OFFSET_def)
    qed
    have bv: "block_valid ?m1 p"
      using p(2) by (simp add: m0_def block_valid_def upd_slab_def upd_header_def add_slab_to_slab_pool_def upd_spool_def)
    have "slab_inv ?m1 (P(id := h # P id)) A"
      using inv1 idn un(2) by (intro slab_push) (auto simp: slabs_simps m0_def upd_slab_def upd_header_def)
    then have "slab_inv ?m' (P(id := h # P id)) A" using bv by (rule slab_inv_upd_block)
    moreover have "sl_free_size (pslab ?m') = 0" "\<forall>x\<in>A. h_size (headers ?m' x) = h_size (headers m x)"
      using inv1(2) by (auto simp: upd_block_def m0_def upd_slab_def upd_header_def add_slab_to_slab_pool_def upd_spool_def slabs_simps)
    ultimately show ?thesis using run by blast
  qed
qed

definition same_rest :: "mm \<Rightarrow> mm \<Rightarrow> bool" where
  "same_rest m m' \<longleftrightarrow> pslab m' = pslab m \<and> headers m' = headers m \<and> page_pool m' = page_pool m \<and> io_pool m' = io_pool m \<and>
    bitmaps m' = bitmaps m \<and> page_phy m' = page_phy m"

lemma alloc_mem_block_from_frame: "alloc_mem_block_from is f m = (q, m') \<Longrightarrow> same_rest m m'"
proof (induction "is" f m rule: alloc_mem_block_from.induct)
  case (2 i "is" f m)
  obtain q1 m1 where a: "alloc_mem_block0 i f m = (q1, m1)" by fastforce
  then have "same_rest m m1"
    by (auto simp: alloc_mem_block0_def Let_def upd_block_def same_rest_def split: if_splits)
  then show ?case using 2 a by (auto simp: same_rest_def split: if_splits option.splits)
qed (simp add: same_rest_def)

lemma alloc_mem_block_frame:
  assumes "alloc_mem_block f m = (r, m')" shows "same_rest m m'"
proof -
  obtain r1 m1 where a: "alloc_mem_block_from [0..<length (mem_sections m)] f m = (r1, m1)" by fastforce
  then have "m' = m1 \<or> (\<exists>x. m' = m1\<lparr>host_mappings := x\<rparr>)"
    using assms by (auto simp: alloc_mem_block_def Let_def split: option.splits if_splits)
  then show ?thesis using alloc_mem_block_from_frame [OF a] by (auto simp: same_rest_def)
qed

lemma alloc_new_slab_block_inv:
  assumes inv: "slab_inv m P A" and fs: "sl_free_size (pslab m) = 0" and a: "alloc_new_slab_block m = (ret, m')"
  shows "slab_inv m' P A \<and> headers m' = headers m"
proof -
  have l: "slab_lists m P A" and geo: "slab_geo m (slabs P A)" using inv by (simp_all add: slab_inv_def)
  note D = slab_listsD [OF l]
  have ok: "mm_ok m" using geo by (simp add: slab_geo_def)
  obtain r m1 where al: "alloc_mem_block GFB_SLAB m = (r, m1)" by fastforce
  have sl1: "pslab m1 = pslab m" "headers m1 = headers m" using alloc_mem_block_frame [OF al] by (simp_all add: same_rest_def)
  show ?thesis
  proof (cases r)
    case None
    then have "m' = m" using a al alloc_mem_block_result [OF ok al] by (simp add: alloc_new_slab_block_def)
    then show ?thesis using inv by simp
  next
    case (Some p)
    then have g: "block_given m p GFB_SLAB m1" using alloc_mem_block_result [OF ok al] by simp
    let ?b = "the_block m1 p"
    have m': "m' = upd_slab (\<lambda>s. s\<lparr>sl_block_list := sl_block_list s @ [p], sl_free_size := uint MEM_BLOCK_SIZE,
        sl_slab_free := b_phy_base ?b, sl_alloc_blocks := sl_alloc_blocks s + 1\<rparr>) (upd_block p (\<lambda>b. b\<lparr>b_free_pages := 1\<rparr>) m1)"
      using a al Some by (simp add: alloc_new_slab_block_def)
    have v1: "block_valid m1 p" "mm_ok m1" using g by (simp_all add: block_given_def)
    have sb: "same_blocks m1 m'"
      using same_blocks_trans [OF same_blocks_upd_block [OF v1(1)] same_blocks_sections] by (auto simp: m' upd_slab_def)
    have f: "headers m' = headers m" "sl_free_size (pslab m') = 2 ^ 21" "sl_slab_free (pslab m') = b_phy_base ?b"
      "pool_nr m' = pool_nr m" "sl_pool (pslab m') = sl_pool (pslab m)"
      using sl1 by (simp_all add: m' upd_slab_def upd_block_def MEM_BLOCK_SIZE_def)
    have rp: "item_rng m' None = block_rng m p" using g f by (simp add: block_given_def block_rng_def)
    have bt: "block_valid m' = block_valid m" "block_rng m' = block_rng m" "\<forall>q. block_taken m' q \<longleftrightarrow> q = p \<or> block_taken m q"
      using g sb by (simp_all add: same_blocks_def block_given_def)
    have ut: "untaken m' = {block_rng m q | q. block_valid m q \<and> \<not> block_taken m q \<and> q \<noteq> p}"
      using bt by (auto simp: untaken_def)
    have old: "pack (items m (slabs P A)) (item_rng m) (untaken m)" using geo by (simp add: slab_geo_def)
    have it: "items m' (slabs P A) = insert None (items m (slabs P A))" "None \<notin> items m (slabs P A)"
      using fs f by (auto simp: items_def)
    have gp: "block_valid m p" "\<not> block_taken m p" using g by (simp_all add: block_given_def)
    then have pu: "block_rng m p \<in> untaken m" unfolding untaken_def by blast
    have "pack (items m' (slabs P A)) (item_rng m') (untaken m')"
      unfolding it(1)
    proof (rule pack_insert [OF old])
      show "item_rng m' None \<in> untaken m" using rp pu by simp
      show "item_rng m' t = item_rng m t" if "t \<in> items m (slabs P A)" for t using that fs f by (auto simp: items_def)
      show "untaken m' \<subseteq> untaken m" unfolding ut by (auto simp: untaken_def)
      show "apart (item_rng m' None) u" if "u \<in> untaken m'" for u
        using that blocks_apart [OF ok, of p] g unfolding rp ut by (auto simp: block_given_def)
    qed (rule it(2))
    moreover have nz: "\<forall>q. block_valid m q \<longrightarrow> fst (block_rng m q) \<noteq> 0" using geo unfolding slab_geo_def by blast
    then have "sl_slab_free (pslab m') \<noteq> 0"
      using f(3) g gp by (metis block_given_def unat_0)
    moreover have "\<forall>q. block_valid m' q \<longrightarrow> fst (block_rng m' q) \<noteq> 0" using nz bt by simp
    moreover have "\<exists>p. block_valid m' p \<and> sub (item_rng m' None) (block_rng m' p)"
      using rp bt gp by (intro exI [of _ p]) (simp del: item_rng_simps)
    moreover have "mm_ok m'" using sb v1 by (simp add: same_blocks_def)
    moreover have "\<forall>x\<in>slabs P A. x \<noteq> 0 \<and> unat x + data_size m' x + 16 < 2 ^ 64 \<and> data_size m' x < 2 ^ 32"
      using geo f(1) by (simp add: slab_geo_def)
    moreover have "32 \<le> sl_free_size (pslab m')" using f(2) by simp
    ultimately have "slab_geo m' (slabs P A)" unfolding slab_geo_def by blast
    moreover have "slab_lists m' P A" using l f by (simp add: slab_lists_def)
    ultimately show ?thesis using f(1) by (simp add: slab_inv_def)
  qed
qed

end
