(* ===== verification/Malloc.thy ===== *)
theory Malloc
  imports Slab_Sources
begin

text \<open>
  \<^verbatim>\<open>malloc\<close> and \<^verbatim>\<open>free\<close>: the sources share one contract, stated as a locale, which makes \<^verbatim>\<open>malloc\<close> correct.
\<close>

section \<open>The contract of the allocation functions\<close>

text \<open>
  A request that \<^verbatim>\<open>malloc\<close> passes on is a multiple of 16, below 4 GB. Every function of \<^verbatim>\<open>alloc_func\<close> returns,
  keeps the invariant, and hands out a slab that was not handed out and is big enough, as long as
  the request is for at most 512 bytes.
\<close>

definition request :: "u64 \<Rightarrow> bool" where
  "request sz \<longleftrightarrow> 16 \<le> unat sz \<and> unat sz < 2 ^ 32 \<and> unat sz mod 16 = 0"

definition need :: "u64 \<Rightarrow> u64" where
  "need sz = (if unat sz \<le> 512 then sz else 16)"

lemma slab_given_need: "slab_given m A sz r m' \<Longrightarrow> request sz \<Longrightarrow> slab_given m A (need sz) r m'"
  by (auto simp: slab_given_def need_def request_def split: option.splits)

locale slab_source =
  fixes source :: "u64 \<Rightarrow> mm \<Rightarrow> (u64 option \<times> mm) option"
  assumes gives: "slab_inv m P A \<Longrightarrow> request sz \<Longrightarrow> \<exists>r m'. source sz m = Some (r, m') \<and> slab_given m A (need sz) r m'"
begin

lemma none_keeps:
  assumes "slab_inv m P A" "request sz" "source sz m = Some (None, m')"
  shows "(\<exists>P'. slab_inv m' P' A) \<and> (\<forall>x\<in>A. h_size (headers m' x) = h_size (headers m x))"
  using gives [OF assms(1,2)] assms(3) by (auto simp: slab_given_def)

lemma then_other:
  assumes other: "slab_source g"
  shows "slab_source (\<lambda>sz m. case source sz m of None \<Rightarrow> None | Some (Some a, m) \<Rightarrow> Some (Some a, m) | Some (None, m) \<Rightarrow> g sz m)"
proof
  fix m P A sz assume i: "slab_inv m P A" "request sz"
  from gives [OF i] obtain r m1 where r: "source sz m = Some (r, m1)" "slab_given m A (need sz) r m1" by blast
  show "\<exists>r m'. (case source sz m of None \<Rightarrow> None | Some (Some a, m) \<Rightarrow> Some (Some a, m) | Some (None, m) \<Rightarrow> g sz m) = Some (r, m') \<and>
      slab_given m A (need sz) r m'"
  proof (cases r)
    case None
    then obtain P' where P': "slab_inv m1 P' A" "\<forall>x\<in>A. h_size (headers m1 x) = h_size (headers m x)"
      using none_keeps [OF i] r(1) by blast
    from slab_source.gives [OF other P'(1) i(2)] obtain q m2
      where q: "g sz m1 = Some (q, m2)" "slab_given m1 A (need sz) q m2" by blast
    then have "slab_given m A (need sz) q m2" using P'(2) by (auto simp: slab_given_def)
    then show ?thesis using r(1) None q(1) by auto
  qed (use r in auto)
qed

end

interpretation from_pool: slab_source get_slab_from_pool
  by unfold_locales (metis get_slab_from_pool_given slab_given_need request_def)

interpretation from_big_pool: slab_source get_slab_from_big_pool
  by unfold_locales (metis get_slab_from_big_pool_given slab_given_need)

interpretation from_cache: slab_source get_slab_from_cache
  by unfold_locales (metis get_slab_from_cache_given slab_given_need request_def)

interpretation from_free: slab_source get_slab_from_slab_free
  by unfold_locales (metis get_slab_from_slab_free_given slab_given_need request_def)

interpretation from_big: slab_source get_big_slab
  by unfold_locales (use get_big_slab_given in \<open>auto simp: request_def need_def\<close>)

interpretation from_new: slab_source "get_new_slab max_blocks" for max_blocks
proof
  fix m P A sz assume i: "slab_inv m P A" "request sz"
  show "\<exists>r m'. get_new_slab max_blocks sz m = Some (r, m') \<and> slab_given m A (need sz) r m'"
  proof (cases "sl_alloc_blocks (pslab m) > max_blocks")
    case True
    then show ?thesis using slab_given_none [OF i(1)] by (auto simp: get_new_slab_def)
  next
    case False
    obtain m1 P1 where m1: "push_slab_free m = Some m1" "slab_inv m1 P1 A" "sl_free_size (pslab m1) = 0"
        "\<forall>x\<in>A. h_size (headers m1 x) = h_size (headers m x)"
      using push_slab_free_inv [OF i(1)] by blast
    obtain ret m2 where m2: "alloc_new_slab_block m1 = (ret, m2)" by fastforce
    then have inv2: "slab_inv m2 P1 A" "headers m2 = headers m1" using alloc_new_slab_block_inv [OF m1(2,3)] by simp_all
    obtain r m3 where m3: "get_slab_from_slab_free sz m2 = Some (r, m3)" "slab_given m2 A (need sz) r m3"
      using from_free.gives [OF inv2(1) i(2)] by blast
    show ?thesis
    proof (cases "ret = 0")
      case True
      then show ?thesis using False m1 m2 m3 inv2(2) by (auto simp: get_new_slab_def slab_given_def)
    next
      case ret: False
      have "slab_given m A (need sz) None m2" using inv2 m1(4) by (auto simp: slab_given_def)
      then show ?thesis using False ret m1 m2 by (auto simp: get_new_slab_def)
    qed
  qed
qed

lemma try_funcs_source: "\<forall>f\<in>set fs. slab_source f \<Longrightarrow> slab_source (try_funcs fs)"
proof (induction fs)
  case Nil
  have "slab_source (\<lambda>sz m. Some (None, m))" by unfold_locales (auto simp: slab_given_def)
  moreover have "try_funcs [] = (\<lambda>sz m. Some (None, m))" by (auto simp: fun_eq_iff)
  ultimately show ?case by simp
next
  case (Cons f fs)
  have "try_funcs (f # fs) = (\<lambda>sz m. case f sz m of None \<Rightarrow> None | Some (Some a, m) \<Rightarrow> Some (Some a, m)
      | Some (None, m) \<Rightarrow> try_funcs fs sz m)"
    by (simp add: fun_eq_iff)
  then show ?case using slab_source.then_other [of f "try_funcs fs"] Cons by simp
qed

interpretation sources: slab_source "try_funcs (alloc_func max_blocks)" for max_blocks
  by (rule try_funcs_source) (auto simp: alloc_func_def from_pool.slab_source_axioms from_big_pool.slab_source_axioms
      from_cache.slab_source_axioms from_free.slab_source_axioms from_new.slab_source_axioms from_big.slab_source_axioms)

lemma request_alloc_size:
  assumes "sz \<noteq> 0" "unat sz \<le> 2 ^ 31"
  shows "request (get_slab_alloc_size sz) \<and> unat sz \<le> unat (get_slab_alloc_size sz) \<and>
    (unat sz \<le> 512 \<longrightarrow> unat (get_slab_alloc_size sz) \<le> 512)"
proof -
  have "unat (get_slab_alloc_size sz) = (unat sz + 15) div 16 * 16"
    using unat_BALIGN [of 4 sz] assms(2) by (simp add: get_slab_alloc_size_def SLAB_MIN_DATA_SIZE_def)
  moreover have "16 \<le> (n + 15) div 16 * 16" if "0 < n" for n :: nat using that by presburger
  moreover have "(n + 15) div 16 * 16 \<le> n + 15" "n \<le> (n + 15) div 16 * 16" "n \<le> 512 \<longrightarrow> (n + 15) div 16 * 16 \<le> 512" for n :: nat
    by presburger+
  moreover have "0 < unat sz" using assms(1) by (simp add: unat_gt_0)
  ultimately show ?thesis using assms(2) by (simp add: request_def le_less_trans)
qed

abbreviation data_rng :: "mm \<Rightarrow> u64 \<Rightarrow> nat \<times> nat" where
  "data_rng m h \<equiv> (unat h + 16, data_size m h)"

lemma used_apart:
  assumes "slab_inv m P A" "x \<in> A" "y \<in> A" "x \<noteq> y" shows "apart (data_rng m x) (data_rng m y)"
proof -
  have "pack (items m (slabs P A)) (item_rng m) (untaken m)" using assms(1) by (simp add: slab_inv_def slab_geo_def)
  then have "apart (item_rng m (Some x)) (item_rng m (Some y))"
    by (rule packD(1)) (use assms in \<open>auto simp: items_def slabs_simps\<close>)
  then show ?thesis by (auto simp: apart_def)
qed

text \<open>The address of a slab, and not of a page.\<close>

definition slab_addr :: "mm \<Rightarrow> u64 \<Rightarrow> bool" where
  "slab_addr m a \<longleftrightarrow> (case addr_to_mem_section a m of
      None \<Rightarrow> True
    | Some i \<Rightarrow> \<not> is_page_section (mem_sections m ! i) \<and>
        (case addr_to_mem_block a m of None \<Rightarrow> True | Some p \<Rightarrow> ucast (b_flags (the_block m p)) AND GFB_PAGE = 0))"

lemma free_slab_addr:
  assumes "slab_addr m a" "a \<noteq> 0"
  shows "free a m = (if h_next (headers m (a - 16)) \<noteq> SLAB_MAGIC then Some m
     else if slab_pool_id (h_size (headers m (a - 16))) m < 0 then None
     else Some (add_slab_to_slab_pool (a - 16) (nat (slab_pool_id (h_size (headers m (a - 16))) m)) m))"
  using assms by (auto simp: free_def slab_addr_def Let_def ADDR_TO_SLAB_HEADER_def SLAB_HEADER_SIZE_def split: option.splits)

section \<open>Properties\<close>



text \<open>
  A request of more than 512 bytes can be answered with a slab of any size: when the cache, the
  slab block and the blocks are used up, \<^verbatim>\<open>get_big_slab\<close> takes the first slab of the pool of freed big
  slabs and does not look at its size.
\<close>

theorem malloc_ignores_size:
  assumes nr: "pool_nr m = 34" and sz: "512 < unat sz" "unat sz \<le> 2 ^ 31"
    and used_up: "sl_alloc_blocks (pslab m) > max_blocks" "sl_free_size (pslab m) = 0" "sp_head (spool m 33) = 0"
    and big: "sp_head (spool m 32) = h" "h \<noteq> 0" "h_next (headers m h) = 0" "h_size (headers m h) \<noteq> get_slab_alloc_size sz"
  shows "\<exists>m'. malloc max_blocks sz m = Some (Some (h + 16), m') \<and> h_size (headers m' h) = h_size (headers m h)"
proof -
  define s where "s = get_slab_alloc_size sz"
  have sz0: "sz \<noteq> 0" using sz(1) by auto
  have s: "16 \<le> unat s" "unat s < 2 ^ 32" "512 < unat s" "unat s mod 16 = 0"
    using request_alloc_size [OF sz0 sz(2)] sz by (auto simp: s_def request_def)
  then have "33 \<le> unat s div 16" by presburger
  then have id: "slab_pool_id s m = 32" using slab_pool_id_eq [OF nr s(1,2)] by simp
  have fs: "0 < SLAB_SIZE s" using s by (simp add: SLAB_SIZE_def SLAB_HEADER_SIZE_def word_less_nat_alt unat_word_ariths)
  have "get_slab_from_pool s m = Some (None, m)" using id nr by (simp add: get_slab_from_pool_def Let_def FREE_POOL_OFFSET_def)
  moreover have "get_slab_from_big_pool s m = Some (None, m)"
    using id nr big by (simp add: get_slab_from_big_pool_def Let_def FREE_POOL_OFFSET_def s_def [symmetric])
      (subst big_pool_loop.simps, simp add: Let_def, subst big_pool_loop.simps, simp)
  moreover have "get_slab_from_cache s m = Some (None, m)"
    using used_up(3) nr by (simp add: get_slab_from_cache_def Let_def CACHE_POOL_OFFSET_def) (subst cache_loop.simps, simp)
  moreover have "get_slab_from_slab_free s m = Some (None, m)"
    using used_up(2) fs by (simp add: get_slab_from_slab_free_def Let_def)
  moreover have "get_new_slab max_blocks s m = Some (None, m)" using used_up(1) by (simp add: get_new_slab_def)
  moreover have "\<exists>m'. get_big_slab s m = Some (Some (h + 16), m') \<and> h_size (headers m' h) = h_size (headers m h)"
    using id nr big by (simp add: get_big_slab_def Let_def CACHE_POOL_OFFSET_def get_slab_from_slab_pool_def
        upt_rec SLAB_HEADER_TO_ADDR_def SLAB_HEADER_SIZE_def upd_header_def upd_spool_def upd_slab_def)
  ultimately show ?thesis using sz0 by (auto simp: malloc_def alloc_func_def s_def [symmetric])
qed

text \<open>An allocator whose only memory is a slab of 64 bytes in its pool, and one with a freed big slab only.\<close>

definition slab_machine :: "nat \<Rightarrow> u64 \<Rightarrow> mm" where
  "slab_machine i n = two_blocks\<lparr>mem_sections := [],
     pslab := \<lparr>sl_pool_nr = 34, sl_free_size = 0, sl_slab_free = 0, sl_block_list = [],
       sl_pool = slab_pool[i := (slab_pool ! i)\<lparr>sp_head := 0x1000, sp_nr := 1\<rparr>], sl_alloc_blocks = 11\<rparr>,
     headers := (\<lambda>a. if a = 0x1000 then \<lparr>h_size = n, h_next = 0\<rparr> else \<lparr>h_size = 0, h_next = 0\<rparr>)\<rparr>"

lemma slab_pool_simps: "length slab_pool = 34" "i < 34 \<Longrightarrow> sp_head (slab_pool ! i) = 0" "sp_size (slab_pool ! 31) = 512"
  by (simp_all add: slab_pool_def nth_append)

lemma slab_machine_inv:
  assumes "i < 34" "i < 33 \<longrightarrow> 16 * (i + 1) \<le> unat n" "unat n < 2 ^ 32"
  shows "slab_inv (slab_machine i n) (\<lambda>j. if j = i then [0x1000] else []) {}"
proof -
  have "slabs (\<lambda>j. if j = i then [0x1000] else []) {} = {0x1000}" using assms(1) by (auto simp: slabs_def)
  then have "slab_geo (slab_machine i n) (slabs (\<lambda>j. if j = i then [0x1000] else []) {})"
    using assms by (auto simp: slab_geo_def slab_machine_def mm_ok_def pack_def items_def untaken_def block_valid_def)
  moreover have "slab_lists (slab_machine i n) (\<lambda>j. if j = i then [0x1000] else []) {}"
    using assms by (intro slab_listsI) (auto simp: slab_machine_def slab_pool_simps nth_list_update)
  ultimately show ?thesis by (simp add: slab_inv_def)
qed

lemma slab_machine_malloc: "\<exists>m'. malloc 10 50 (slab_machine 3 64) = Some (Some 0x1010, m')"
proof -
  have s: "get_slab_alloc_size 50 = 64" by (simp add: get_slab_alloc_size_def BALIGN_def SLAB_MIN_DATA_SIZE_def)
  have "pool_nr (slab_machine 3 64) = 34" "sp_head (spool (slab_machine 3 64) 3) = 0x1000"
    by (simp_all add: slab_machine_def slab_pool_simps)
  moreover from this(1) have "slab_pool_id 64 (slab_machine 3 64) = 3" by (subst slab_pool_id_eq) simp_all
  ultimately show ?thesis
    by (simp add: malloc_def alloc_func_def s get_slab_from_pool_def Let_def FREE_POOL_OFFSET_def get_slab_from_slab_pool_def
        SLAB_HEADER_TO_ADDR_def SLAB_HEADER_SIZE_def)
qed


text \<open>The same machine with the slab handed out.\<close>

definition used_slab :: mm where
  "used_slab = (slab_machine 3 64)\<lparr>pslab := \<lparr>sl_pool_nr = 34, sl_free_size = 0, sl_slab_free = 0, sl_block_list = [],
       sl_pool = slab_pool, sl_alloc_blocks = 11\<rparr>,
     headers := (\<lambda>a. \<lparr>h_size = 64, h_next = SLAB_MAGIC\<rparr>)\<rparr>"

lemma used_slab_inv: "slab_inv used_slab (\<lambda>_. []) {0x1000}"
proof -
  have "slab_geo used_slab (slabs (\<lambda>_. []) {0x1000})"
    by (auto simp: slabs_def slab_geo_def used_slab_def slab_machine_def mm_ok_def pack_def items_def untaken_def block_valid_def)
  moreover have "slab_lists used_slab (\<lambda>_. []) {0x1000}"
    by (intro slab_listsI) (auto simp: used_slab_def slab_pool_simps)
  ultimately show ?thesis by (simp add: slab_inv_def)
qed


theorem malloc_ignores_size_witness:
  "\<exists>m'. malloc 10 0x10000 (slab_machine 32 528) = Some (Some 0x1010, m') \<and> h_size (headers m' 0x1000) = 528"
proof -
  have f: "pool_nr (slab_machine 32 528) = 34" "sp_head (spool (slab_machine 32 528) 32) = 0x1000" "sp_head (spool (slab_machine 32 528) 33) = 0"
    "sl_alloc_blocks (pslab (slab_machine 32 528)) = 11" "sl_free_size (pslab (slab_machine 32 528)) = 0"
    "headers (slab_machine 32 528) 0x1000 = \<lparr>h_size = 528, h_next = 0\<rparr>"
    by (simp_all add: slab_machine_def slab_pool_simps)
  have s: "get_slab_alloc_size 0x10000 = 0x10000" by (simp add: get_slab_alloc_size_def BALIGN_def SLAB_MIN_DATA_SIZE_def)
  show ?thesis
    using malloc_ignores_size [OF f(1), of "0x10000" 10 "0x1000"] f s by simp
qed

end
