(* ===== verification/Mm_Init.thy ===== *)
theory Mm_Init
  imports Malloc
begin

text \<open>
  The initialisation of the memory allocator, the rest of \<^verbatim>\<open>os/core/mm_default.c\<close>: the regions of the
  memory map become sections, the tables of the sections are laid out behind the boot memory, the
  blocks of the hypervisor are reserved, and what is left over goes to the slab allocator. The
  contents of memory that the code does not initialise are parameters; a panic is \<open>None\<close>.
\<close>

section \<open>Operations\<close>

type_synonym mm_boot = "bootmem \<times> mm"

definition BITS_TO_LONGS :: "u64 \<Rightarrow> u64" where
  "BITS_TO_LONGS nr = (nr + 64 - 1) div 64"

text \<open>\<^verbatim>\<open>memset(p, 0, n)\<close> on the words at \<open>p\<close>, with \<open>n\<close> bytes.\<close>

definition zero_bytes :: "nat \<Rightarrow> bitmap \<Rightarrow> bitmap" where
  "zero_bytes n ws = map (\<lambda>i. if 8 * i + 8 \<le> n then 0 else if n \<le> 8 * i then ws ! i
     else (ws ! i) AND NOT (mask (8 * (n - 8 * i)))) [0..<length ws]"

text \<open>
  \<^verbatim>\<open>add_page_section\<close>. The map has \<^verbatim>\<open>BITS_TO_LONGS\<close> bytes of boot memory, of which as many bytes are
  cleared; \<open>junk a i\<close> is the word \<open>i\<close> at the address \<open>a\<close> before.
\<close>

definition add_page_section :: "(u64 \<Rightarrow> nat \<Rightarrow> u64) \<Rightarrow> u64 \<Rightarrow> u64 \<Rightarrow> mm_boot \<Rightarrow> (int \<times> mm_boot) option" where
  "add_page_section junk base sz st =
    (let (bm, m) = st in
     if sz = 0 \<or> length (mem_sections m) \<ge> MAX_MEM_SECTIONS then Some (- EINVAL, st)
     else
       let mem_end = ALIGN (base + sz) 0x1000; mem_base = BALIGN base 0x1000; real_size = mem_end - mem_base in
       if real_size = 0 then Some (0, bm, add_slab_mem base sz m)
       else
         let nr = drop_bit 12 real_size; longs = BITS_TO_LONGS nr in
         case alloc_boot_mem longs bm of
           None \<Rightarrow> None
         | Some (bmp, bm) \<Rightarrow>
             (case alloc_boot_mem (nr * 16) bm of
                None \<Rightarrow> None
              | Some (pages, bm) \<Rightarrow>
                  let s = \<lparr>s_phy_base = mem_base, s_id = length (mem_sections m), s_type = MEM_SECTION_F_NORMAL OR MEM_SECTION_F_PAGE,
                        s_size = real_size, s_nr_blocks = nr, s_free_blocks = nr,
                        s_bitmap = zero_bytes (unat longs) (map (junk bmp) [0..<unat longs]),
                        s_bm_end = nr, s_bm_current = 0, s_blocks = [], s_pages = pages\<rparr>;
                      m = m\<lparr>mem_sections := mem_sections m @ [s]\<rparr>;
                      m = add_slab_mem base (mem_base - base) m;
                      m = add_slab_mem base (base + sz - mem_end) m
                  in Some (0, bm, m)))"

definition add_block_section :: "(u64 \<Rightarrow> nat \<Rightarrow> u64) \<Rightarrow> u64 \<Rightarrow> u64 \<Rightarrow> u32 \<Rightarrow> mm_boot \<Rightarrow> (int \<times> mm_boot) option" where
  "add_block_section junk base sz type st =
    (let (bm, m) = st in
     if sz = 0 \<or> length (mem_sections m) \<ge> MAX_MEM_SECTIONS then Some (- EINVAL, st)
     else
       let mem_end = ALIGN (base + sz) MEM_BLOCK_SIZE; mem_base = BALIGN base MEM_BLOCK_SIZE; real_size = mem_end - mem_base in
       if real_size = 0 then map_option (\<lambda>(_, st). (0, st)) (add_page_section junk base sz st)
       else
         let nr = drop_bit MEM_BLOCK_SHIFT real_size;
             s = \<lparr>s_phy_base = mem_base, s_id = length (mem_sections m), s_type = (type AND 0xff) OR MEM_SECTION_F_BLOCK,
                   s_size = real_size, s_nr_blocks = nr, s_free_blocks = nr, s_bitmap = [], s_bm_end = 0, s_bm_current = 0,
                   s_blocks = [], s_pages = 0\<rparr>;
             m = m\<lparr>mem_sections := mem_sections m @ [s], free_blocks := free_blocks m + nr\<rparr>;
             left = mem_base - base;
             right = base + sz - mem_end
         in case (if left > 0 then map_option snd (add_page_section junk base left (bm, m)) else Some (bm, m)) of
              None \<Rightarrow> None
            | Some st \<Rightarrow>
                (case (if right > 0 then map_option snd (add_page_section junk (mem_base + real_size) right st) else Some st) of
                   None \<Rightarrow> None
                 | Some st \<Rightarrow> Some (0, st)))"

fun parse_system_regions :: "(u64 \<Rightarrow> nat \<Rightarrow> u64) \<Rightarrow> memory_region list \<Rightarrow> mm_boot \<Rightarrow> mm_boot option" where
  "parse_system_regions junk [] st = Some st"
| "parse_system_regions junk (r # rs) st =
    (let type = memory_region_type r in
     if type = MEMORY_REGION_TYPE_RSV \<or> type = MEMORY_REGION_TYPE_VM \<or> type = MEMORY_REGION_TYPE_DTB
     then parse_system_regions junk rs st
     else case add_block_section junk (r_vir_base r) (r_size r) (word_of_nat type) st of
         None \<Rightarrow> None
       | Some (_, st) \<Rightarrow> parse_system_regions junk rs st)"

text \<open>
  The tables of blocks (40 bytes each), not initialised, and the maps of the block sections, cleared;
  both functions return the address behind what they lay out.
\<close>

definition blocks_table_init :: "(nat \<Rightarrow> nat \<Rightarrow> mem_block) \<Rightarrow> u64 \<Rightarrow> mm \<Rightarrow> u64 \<times> mm" where
  "blocks_table_init junk base m =
    (fold (\<lambda>s tmp. if is_block_section s then BALIGN (tmp + s_nr_blocks s * 40) 8 else tmp) (mem_sections m) base,
     m\<lparr>mem_sections := map (\<lambda>(i, s). if is_block_section s
         then s\<lparr>s_blocks := map (junk i) [0..<unat (s_nr_blocks s)]\<rparr> else s) (enumerate 0 (mem_sections m))\<rparr>)"

definition blocks_bitmap_init :: "u64 \<Rightarrow> mm \<Rightarrow> u64 \<times> mm" where
  "blocks_bitmap_init base m =
    (fold (\<lambda>s bmp. if is_block_section s then bmp + BITS_TO_LONGS (s_nr_blocks s) * 8 else bmp) (mem_sections m) base,
     m\<lparr>mem_sections := map (\<lambda>s. if is_block_section s
         then s\<lparr>s_bitmap := replicate (unat (BITS_TO_LONGS (s_nr_blocks s))) 0, s_bm_current := 0, s_bm_end := s_nr_blocks s\<rparr>
         else s) (mem_sections m)\<rparr>)"

text \<open>The boot section is moved to the front: entries \<open>0\<close> and \<open>i\<close> are exchanged.\<close>

definition swap_sections :: "nat \<Rightarrow> mm \<Rightarrow> mm" where
  "swap_sections i m =
    m\<lparr>mem_sections := (mem_sections m)[0 := (mem_sections m ! i)\<lparr>s_id := 0\<rparr>, i := (mem_sections m ! 0)\<lparr>s_id := i\<rparr>]\<rparr>"

text \<open>
  The first \<open>n\<close> blocks of section 0 are reserved. Beyond the table of the section, and when the boot
  section is no block section, the loop writes over other memory: \<open>None\<close>.
\<close>

definition reserve_boot_blocks :: "u64 \<Rightarrow> nat \<Rightarrow> mm \<Rightarrow> mm option" where
  "reserve_boot_blocks code_base n m =
    (let s = mem_sections m ! 0 in
     if \<not> is_block_section s \<or> unat (s_nr_blocks s) < n then None
     else Some (upd_section 0 (\<lambda>s. s\<lparr>s_free_blocks := s_free_blocks s - word_of_nat n,
            s_bitmap := fold bm_set_bit [0..<n] (s_bitmap s), s_bm_current := word_of_nat n,
            s_blocks := map (\<lambda>i. if i < n then (s_blocks s ! i)\<lparr>b_free_pages := 0, b_bm_current := 0,
                b_phy_base := code_base + word_of_nat i * MEM_BLOCK_SIZE, b_flags := 0\<rparr> else s_blocks s ! i) [0..<length (s_blocks s)]\<rparr>)
          (m\<lparr>free_blocks := free_blocks m - word_of_nat n\<rparr>)))"

definition mem_sections_init :: "(nat \<Rightarrow> nat \<Rightarrow> mem_block) \<Rightarrow> u64 \<Rightarrow> mm_boot \<Rightarrow> mm_boot option" where
  "mem_sections_init junk code_base st =
    (let (bm, m) = st;
         (mem_start, m) = blocks_table_init junk (BALIGN (bootmem_end bm) 8) m;
         (mem_start, m) = blocks_bitmap_init (BALIGN mem_start 8) m
     in case find (\<lambda>i. code_base \<ge> s_phy_base (mem_sections m ! i) \<and>
                     code_base < s_phy_base (mem_sections m ! i) + s_size (mem_sections m ! i)) [0..<length (mem_sections m)] of
          None \<Rightarrow> None
        | Some i \<Rightarrow>
            let m = (if s_id (mem_sections m ! i) \<noteq> 0 then swap_sections (s_id (mem_sections m ! i)) m else m);
                mem_end = BALIGN mem_start MEM_BLOCK_SIZE
            in (case reserve_boot_blocks code_base (unat (drop_bit MEM_BLOCK_SHIFT (mem_end - code_base))) m of
                  None \<Rightarrow> None
                | Some m \<Rightarrow>
                    let m = (if mem_end - mem_start > SLAB_MIN_SIZE then add_slab_mem mem_start (mem_end - mem_start) m else m);
                        rest = bootmem_page_base bm - bootmem_start bm;
                        m = (if rest > SLAB_MIN_SIZE then add_slab_mem (bootmem_start bm) rest m else m)
                    in Some (bm\<lparr>bootmem_size := 0, bootmem_start := 0\<rparr>, m)))"

definition page_pool_init :: "mm \<Rightarrow> mm" where
  "page_pool_init m =
    (let empty = \<lparr>pp_meta_blocks = 0, pp_page_blocks = 0, pp_meta_list = [], pp_block_list = []\<rparr>
     in m\<lparr>page_pool := empty, io_pool := empty\<rparr>)"

definition mm_do_init :: "(u64 \<Rightarrow> nat \<Rightarrow> u64) \<Rightarrow> (nat \<Rightarrow> nat \<Rightarrow> mem_block) \<Rightarrow> u64 \<Rightarrow> memory_region list \<Rightarrow> mm_boot \<Rightarrow> (int \<times> mm_boot) option" where
  "mm_do_init junk_words junk_blocks code_base regions st =
    (case parse_system_regions junk_words regions (fst st, page_pool_init (slab_init (snd st))) of
       None \<Rightarrow> None
     | Some st \<Rightarrow> map_option (\<lambda>st. (0, st)) (mem_sections_init junk_blocks code_base st))"


section \<open>Sections lie in their regions\<close>

text \<open>A section as the functions above create it, before the tables exist.\<close>

definition new_section :: "nat \<times> nat \<Rightarrow> mem_section \<Rightarrow> bool" where
  "new_section r s \<longleftrightarrow> sub (sec_rng s) r \<and> (is_block_section s \<longrightarrow> unat (s_size s) = unat (s_nr_blocks s) * 2 ^ 21)"

lemma add_slab_mem_sections [simp]: "mem_sections (add_slab_mem b n m) = mem_sections m"
  by (simp add: add_slab_mem_def add_slab_to_slab_pool_def upd_spool_def upd_slab_def upd_header_def Let_def)

lemma sub_trans: "sub x y \<Longrightarrow> sub y z \<Longrightarrow> sub x z"
  by (auto simp: sub_def inside_def)

lemma new_section_sub: "new_section x s \<Longrightarrow> sub x y \<Longrightarrow> new_section y s"
  using sub_trans unfolding new_section_def by blast

lemma new_section_apart: "new_section x s \<Longrightarrow> new_section y t \<Longrightarrow> apart x y \<Longrightarrow> apart (sec_rng s) (sec_rng t)"
  using apart_sub unfolding new_section_def by blast

lemma align_up_down:
  fixes b n k :: nat
  assumes "0 < k"
  shows "b \<le> (b + (k - 1)) div k * k" "n div k * k \<le> n" "b \<le> c * k \<Longrightarrow> (b + (k - 1)) div k * k \<le> c * k" "c * k \<le> n \<Longrightarrow> c * k \<le> n div k * k"
proof -
  have "(b + (k - 1)) div k * k + (b + (k - 1)) mod k = b + (k - 1)" by simp
  moreover have "(b + (k - 1)) mod k \<le> k - 1" using assms by (metis Suc_pred' less_Suc_eq_le mod_less_divisor)
  ultimately show "b \<le> (b + (k - 1)) div k * k" using assms by linarith
  show "n div k * k \<le> n" by simp
  show "(b + (k - 1)) div k * k \<le> c * k" if "b \<le> c * k"
  proof -
    have "(b + (k - 1)) div k \<le> (c * k + (k - 1)) div k" using that by (intro div_le_mono) simp
    also have "\<dots> = c" using assms by (intro div_nat_eqI) (auto simp: algebra_simps)
    finally show ?thesis by (rule mult_le_mono1)
  qed
  show "c * k \<le> n div k * k" if "c * k \<le> n"
  proof -
    have "c * k div k \<le> n div k" using that by (rule div_le_mono)
    then show ?thesis using assms by simp
  qed
qed

lemma section_bounds:
  fixes base sz :: u64
  assumes k: "k < 64" and fit: "unat base + unat sz + 2 ^ k < 2 ^ 64" and c: "unat base \<le> c * 2 ^ k" "c * 2 ^ k \<le> unat base + unat sz"
  defines "e \<equiv> ALIGN (base + sz) (2 ^ k)" and "b \<equiv> BALIGN base (2 ^ k)"
  shows "unat b = (unat base + (2 ^ k - 1)) div 2 ^ k * 2 ^ k" "unat e = (unat base + unat sz) div 2 ^ k * 2 ^ k"
    "unat base \<le> unat b" "unat b \<le> unat e" "unat e \<le> unat base + unat sz" "unat (e - b) = unat e - unat b"
    "unat (b - base) = unat b - unat base" "unat (base + sz - e) = unat base + unat sz - unat e"
    "unat (e - b) = unat (drop_bit k (e - b)) * 2 ^ k"
proof -
  have s: "unat (base + sz) = unat base + unat sz" using fit by (intro unat_add_u64) simp
  show ub: "unat b = (unat base + (2 ^ k - 1)) div 2 ^ k * 2 ^ k"
    unfolding b_def using fit by (intro unat_BALIGN [OF k]) simp
  show ue: "unat e = (unat base + unat sz) div 2 ^ k * 2 ^ k" unfolding e_def using unat_ALIGN [OF k, of "base + sz"] s by simp
  note a = align_up_down [of "2 ^ k :: nat", simplified]
  show be: "unat base \<le> unat b" "unat e \<le> unat base + unat sz" unfolding ub ue using a(1,2) by simp_all
  have "unat b \<le> c * 2 ^ k" "c * 2 ^ k \<le> unat e" unfolding ub ue using a(3) [OF c(1)] a(4) [OF c(2)] by simp_all
  then show le: "unat b \<le> unat e" by simp
  show d: "unat (e - b) = unat e - unat b" "unat (b - base) = unat b - unat base" "unat (base + sz - e) = unat base + unat sz - unat e"
    using le be s by (simp_all add: unat_sub_u64)
  show "unat (e - b) = unat (drop_bit k (e - b)) * 2 ^ k"
    unfolding unat_drop_bit d ue ub by (metis diff_mult_distrib nonzero_mult_div_cancel_right power_not_zero zero_neq_numeral)
qed

lemma add_page_section_secs:
  assumes fit: "unat base + unat sz + 2 ^ 12 < 2 ^ 64" and c: "unat base \<le> c * 2 ^ 12" "c * 2 ^ 12 \<le> unat base + unat sz"
    and a: "add_page_section junk base sz (bm, m) = Some (ret, bm', m')"
  shows "\<exists>ss. mem_sections m' = mem_sections m @ ss \<and> length ss \<le> 1 \<and> (\<forall>s\<in>set ss. new_section (unat base, unat sz) s)"
proof -
  note B = section_bounds [of 12, OF _ fit c, simplified]
  define e where "e = ALIGN (base + sz) 4096"
  define b where "b = BALIGN base 4096"
  have sub: "sub (unat b, unat (e - b)) (unat base, unat sz)"
    using B(3-6) by (simp add: sub_def inside_def e_def b_def)
  have "mem_sections m' = mem_sections m \<or> (\<exists>s. mem_sections m' = mem_sections m @ [s] \<and> s_phy_base s = b \<and> s_size s = e - b \<and>
      s_type s = MEM_SECTION_F_NORMAL OR MEM_SECTION_F_PAGE)"
    using a by (auto simp: add_page_section_def Let_def e_def b_def split: if_splits option.splits)
  then show ?thesis
  proof (elim disjE exE conjE)
    fix s assume s: "mem_sections m' = mem_sections m @ [s]" "s_phy_base s = b" "s_size s = e - b" "s_type s = MEM_SECTION_F_NORMAL OR MEM_SECTION_F_PAGE"
    have "\<not> is_block_section s" by (simp add: s(4) MEM_SECTION_F_NORMAL_def MEM_SECTION_F_PAGE_def MEM_SECTION_F_BLOCK_def)
    then have "new_section (unat base, unat sz) s" using sub s(2,3) by (simp add: new_section_def sec_rng_def)
    then show ?thesis using s(1) by (intro exI [of _ "[s]"]) simp
  qed simp
qed


text \<open>Beyond its early returns, \<^verbatim>\<open>add_block_section\<close> appends a section of blocks and gives both ends to \<^verbatim>\<open>add_page_section\<close>.\<close>

abbreviation opt_page_section :: "(u64 \<Rightarrow> nat \<Rightarrow> u64) \<Rightarrow> u64 \<Rightarrow> u64 \<Rightarrow> mm_boot \<Rightarrow> mm_boot option" where
  "opt_page_section junk base sz st \<equiv> if sz > 0 then map_option snd (add_page_section junk base sz st) else Some st"

lemma add_block_section_split:
  fixes base sz :: u64
  defines "e \<equiv> ALIGN (base + sz) 0x200000" and "b \<equiv> BALIGN base 0x200000"
  assumes a: "add_block_section junk base sz type (bm, m) = Some (ret, st')"
    and go: "\<not> (sz = 0 \<or> length (mem_sections m) \<ge> MAX_MEM_SECTIONS)" "e - b \<noteq> 0"
  obtains s st2 where "s = \<lparr>s_phy_base = b, s_id = length (mem_sections m), s_type = (type AND 0xff) OR MEM_SECTION_F_BLOCK,
         s_size = e - b, s_nr_blocks = drop_bit 21 (e - b), s_free_blocks = drop_bit 21 (e - b), s_bitmap = [], s_bm_end = 0,
         s_bm_current = 0, s_blocks = [], s_pages = 0\<rparr>"
    "opt_page_section junk base (b - base) (bm, m\<lparr>mem_sections := mem_sections m @ [s], free_blocks := free_blocks m + drop_bit 21 (e - b)\<rparr>) = Some st2"
    "opt_page_section junk (b + (e - b)) (base + sz - e) st2 = Some st'"
proof -
  define s where "s = \<lparr>s_phy_base = b, s_id = length (mem_sections m), s_type = (type AND 0xff) OR MEM_SECTION_F_BLOCK,
         s_size = e - b, s_nr_blocks = drop_bit 21 (e - b), s_free_blocks = drop_bit 21 (e - b), s_bitmap = [], s_bm_end = 0,
         s_bm_current = 0, s_blocks = [], s_pages = 0\<rparr>"
  let ?l = "opt_page_section junk base (b - base) (bm, m\<lparr>mem_sections := mem_sections m @ [s], free_blocks := free_blocks m + drop_bit 21 (e - b)\<rparr>)"
  have "add_block_section junk base sz type (bm, m) = (case ?l of None \<Rightarrow> None | Some st \<Rightarrow>
      (case opt_page_section junk (b + (e - b)) (base + sz - e) st of None \<Rightarrow> None | Some st \<Rightarrow> Some (0, st)))"
    unfolding add_block_section_def Let_def prod.case MEM_BLOCK_SIZE_def MEM_BLOCK_SHIFT_def e_def [symmetric] b_def [symmetric] s_def
    using go by (simp only: if_False)
  then show thesis using a that [OF s_def] by (auto split: option.splits)
qed

lemma add_block_section_secs:
  assumes fit: "unat base + unat sz + 2 ^ 21 < 2 ^ 64" and c: "unat base \<le> c * 2 ^ 21" "c * 2 ^ 21 \<le> unat base + unat sz"
    and a: "add_block_section junk base sz type (bm, m) = Some (ret, bm', m')"
  shows "\<exists>ss. mem_sections m' = mem_sections m @ ss \<and> sorted_wrt apart (map sec_rng ss) \<and> (\<forall>s\<in>set ss. new_section (unat base, unat sz) s)"
proof -
  note B = section_bounds [of 21, OF _ fit c, simplified]
  define e where "e = ALIGN (base + sz) 0x200000"
  define b where "b = BALIGN base 0x200000"
  note B = B [folded e_def b_def]
  have fit12: "unat base + unat sz + 2 ^ 12 < 2 ^ 64" using fit by simp
  have c12: "unat base \<le> (c * 2 ^ 9) * 2 ^ 12" "(c * 2 ^ 9) * 2 ^ 12 \<le> unat base + unat sz" using c by simp_all
  have cb: "unat b = ((unat base + 2097151) div 2097152 * 512) * 2 ^ 12" unfolding B(1) by simp
  have ce: "unat e = ((unat base + unat sz) div 2097152 * 512) * 2 ^ 12" unfolding B(2) by simp
  have l: "unat base + unat (b - base) + 2 ^ 12 < 2 ^ 64" "unat base \<le> ((unat base + 2097151) div 2097152 * 512) * 2 ^ 12"
    "((unat base + 2097151) div 2097152 * 512) * 2 ^ 12 \<le> unat base + unat (b - base)"
    unfolding cb [symmetric] B(7) using B(3-5) fit12 by linarith+
  have r: "unat e + unat (base + sz - e) + 2 ^ 12 < 2 ^ 64" "unat e \<le> ((unat base + unat sz) div 2097152 * 512) * 2 ^ 12"
    "((unat base + unat sz) div 2097152 * 512) * 2 ^ 12 \<le> unat e + unat (base + sz - e)"
    unfolding ce [symmetric] B(8) using B(3-5) fit12 by linarith+
  show ?thesis
  proof (cases "sz = 0 \<or> length (mem_sections m) \<ge> MAX_MEM_SECTIONS")
    case True
    then show ?thesis using a by (intro exI [of _ "[]"]) (auto simp: add_block_section_def)
  next
    case go: False
    show ?thesis
    proof (cases "e - b = 0")
      case True
      then obtain r where "add_page_section junk base sz (bm, m) = Some (r, bm', m')"
        using a go by (auto simp: add_block_section_def Let_def e_def b_def MEM_BLOCK_SIZE_def)
      from add_page_section_secs [OF fit12 c12 this] obtain ss where
        "mem_sections m' = mem_sections m @ ss" "length ss \<le> 1" "\<forall>s\<in>set ss. new_section (unat base, unat sz) s" by blast
      moreover from this(2) have "sorted_wrt apart (map sec_rng ss)" by (cases ss rule: remdups_adj.cases) auto
      ultimately show ?thesis by blast
    next
      case False
      obtain s bm2 m2 where s_def: "s = \<lparr>s_phy_base = b, s_id = length (mem_sections m), s_type = (type AND 0xff) OR MEM_SECTION_F_BLOCK,
         s_size = e - b, s_nr_blocks = drop_bit 21 (e - b), s_free_blocks = drop_bit 21 (e - b), s_bitmap = [], s_bm_end = 0,
         s_bm_current = 0, s_blocks = [], s_pages = 0\<rparr>"
        and r1: "opt_page_section junk base (b - base) (bm, m\<lparr>mem_sections := mem_sections m @ [s], free_blocks := free_blocks m + drop_bit 21 (e - b)\<rparr>) = Some (bm2, m2)"
        and r2: "opt_page_section junk (b + (e - b)) (base + sz - e) (bm2, m2) = Some (bm', m')"
        using add_block_section_split [OF a go] False unfolding e_def b_def by (metis prod.exhaust)
      define m1 where "m1 = m\<lparr>mem_sections := mem_sections m @ [s], free_blocks := free_blocks m + drop_bit 21 (e - b)\<rparr>"
      note r1 = r1 [folded m1_def]
      have "\<exists>ss. mem_sections m2 = mem_sections m1 @ ss \<and> length ss \<le> 1 \<and> (\<forall>s\<in>set ss. new_section (unat base, unat (b - base)) s)"
      proof (cases "b - base > 0")
        case True
        then obtain r where "add_page_section junk base (b - base) (bm, m1) = Some (r, bm2, m2)" using r1 by auto
        then show ?thesis
          by (intro add_page_section_secs [OF l(1) l(2) l(3)])
      qed (use r1 in auto)
      then obtain s1 where s1: "mem_sections m2 = mem_sections m1 @ s1" "length s1 \<le> 1" "\<forall>s\<in>set s1. new_section (unat base, unat (b - base)) s" by blast
      have "\<exists>ss. mem_sections m' = mem_sections m2 @ ss \<and> length ss \<le> 1 \<and> (\<forall>s\<in>set ss. new_section (unat e, unat (base + sz - e)) s)"
      proof (cases "base + sz - e > 0")
        case True
        then obtain r where "add_page_section junk e (base + sz - e) (bm2, m2) = Some (r, bm', m')" using r2 by auto
        then show ?thesis
          by (intro add_page_section_secs [OF r(1) r(2) r(3)])
      qed (use r2 in auto)
      then obtain s2 where s2: "mem_sections m' = mem_sections m2 @ s2" "length s2 \<le> 1" "\<forall>s\<in>set s2. new_section (unat e, unat (base + sz - e)) s" by blast
      have ns: "new_section (unat b, unat (e - b)) s"
        using B(9) by (simp add: new_section_def sec_rng_def s_def)
      have up: "sub (unat b, unat (e - b)) (unat base, unat sz)" "sub (unat base, unat (b - base)) (unat base, unat sz)"
        "sub (unat e, unat (base + sz - e)) (unat base, unat sz)" using B(3-8) by (auto simp: sub_def inside_def)
      have ap: "apart (unat b, unat (e - b)) (unat base, unat (b - base))" "apart (unat b, unat (e - b)) (unat e, unat (base + sz - e))"
        "apart (unat base, unat (b - base)) (unat e, unat (base + sz - e))" using B(3-8) by (auto simp: apart_def)
      have "\<forall>x\<in>set (s # s1 @ s2). new_section (unat base, unat sz) x"
        using new_section_sub [OF ns up(1)] s1(3) s2(3) new_section_sub [OF _ up(2)] new_section_sub [OF _ up(3)]
        unfolding set_simps set_append by blast
      moreover have one: "sorted_wrt apart (map sec_rng xs)" if "length xs \<le> 1" for xs using that by (cases xs rule: remdups_adj.cases) auto
      have "sorted_wrt apart (map sec_rng (s # s1 @ s2))"
        using ns s1(3) s2(3) ap new_section_apart one [OF s1(2)] one [OF s2(2)] by (simp add: sorted_wrt_append) blast
      moreover have "mem_sections m' = mem_sections m @ s # s1 @ s2" using s1(1) s2(1) by (simp add: m1_def)
      ultimately show ?thesis by blast
    qed
  qed
qed

text \<open>The regions that become sections: each has a boundary of blocks in it, and does not reach the end of the address space.\<close>

definition used_region :: "memory_region \<Rightarrow> bool" where
  "used_region r \<longleftrightarrow> memory_region_type r \<notin> {MEMORY_REGION_TYPE_RSV, MEMORY_REGION_TYPE_VM, MEMORY_REGION_TYPE_DTB}"

definition region_fits :: "memory_region \<Rightarrow> bool" where
  "region_fits r \<longleftrightarrow> fst (rng r) + snd (rng r) + 2 ^ 21 < 2 ^ 64 \<and>
     (\<exists>c. fst (rng r) \<le> c * 2 ^ 21 \<and> c * 2 ^ 21 \<le> fst (rng r) + snd (rng r))"

definition secs_in :: "memory_region set \<Rightarrow> mem_section list \<Rightarrow> bool" where
  "secs_in R ss \<longleftrightarrow> sorted_wrt apart (map sec_rng ss) \<and> (\<forall>s\<in>set ss. \<exists>r\<in>R. used_region r \<and> new_section (rng r) s)"

lemma parse_system_regions_secs:
  assumes "map_ok (rs1 @ rs)" "\<forall>r\<in>set rs. used_region r \<longrightarrow> region_fits r" "secs_in (set rs1) (mem_sections (snd st))"
    and "parse_system_regions junk rs st = Some st'"
  shows "secs_in (set (rs1 @ rs)) (mem_sections (snd st'))"
  using assms
proof (induction rs arbitrary: rs1 st)
  case (Cons r rs)
  have ok: "map_ok ((rs1 @ [r]) @ rs)" using Cons.prems(1) by simp
  have rest: "\<forall>r\<in>set rs. used_region r \<longrightarrow> region_fits r" using Cons.prems(2) by simp
  have more: "secs_in (set (rs1 @ [r])) ss" if "secs_in (set rs1) ss" for ss using that by (auto simp: secs_in_def)
  show ?case
  proof (cases "used_region r")
    case False
    then have "parse_system_regions junk rs st = Some st'" using Cons.prems(4) by (auto simp: used_region_def Let_def)
    then show ?thesis using Cons.IH [OF ok rest more [OF Cons.prems(3)]] by simp
  next
    case True
    obtain bm m where st: "st = (bm, m)" by fastforce
    obtain ret bm1 m1 where a: "add_block_section junk (r_vir_base r) (r_size r) (word_of_nat (memory_region_type r)) (bm, m) = Some (ret, bm1, m1)"
      and p: "parse_system_regions junk rs (bm1, m1) = Some st'"
      using Cons.prems(4) True by (auto simp: used_region_def Let_def st split: option.splits)
    have fits: "region_fits r" using Cons.prems(2) True by simp
    then obtain c where c: "fst (rng r) \<le> c * 2 ^ 21" "c * 2 ^ 21 \<le> fst (rng r) + snd (rng r)" "fst (rng r) + snd (rng r) + 2 ^ 21 < 2 ^ 64"
      by (auto simp: region_fits_def)
    obtain ss where ss: "mem_sections m1 = mem_sections m @ ss" "sorted_wrt apart (map sec_rng ss)"
        "\<forall>s\<in>set ss. new_section (rng r) s"
      using add_block_section_secs [OF _ _ _ a, of c] c by (auto simp: rng_def)
    have "apart (sec_rng s) (sec_rng t)" if s: "s \<in> set (mem_sections m)" and t: "t \<in> set ss" for s t
    proof -
      obtain q where q: "q \<in> set rs1" "new_section (rng q) s" using Cons.prems(3) s by (auto simp: secs_in_def st)
      have "apart (rng q) (rng r)" using Cons.prems(1) q(1) by (auto simp: map_ok_def sorted_wrt_append)
      then show ?thesis using q(2) ss(3) t new_section_apart by blast
    qed
    then have "secs_in (set (rs1 @ [r])) (mem_sections m1)"
      using more [OF Cons.prems(3)] ss True by (auto simp: secs_in_def st sorted_wrt_append)
    then show ?thesis using Cons.IH [OF ok rest, of "(bm1, m1)"] p by simp
  qed
qed simp

lemma unat_63: "unat (63 :: u64) = 63"
  by simp

lemma BITS_TO_LONGS_enough:
  assumes "unat n + 63 < 2 ^ 64" shows "unat n \<le> 64 * unat (BITS_TO_LONGS n)"
proof -
  have "n + 64 - 1 = n + 63" by simp
  moreover have "unat (n + 63) = unat n + unat (63 :: u64)" using assms by (intro unat_add_u64) simp
  ultimately have "unat (n + 64 - 1) = unat n + 63" by (metis unat_63)
  then have e: "unat (BITS_TO_LONGS n) = (unat n + 63) div 64" unfolding BITS_TO_LONGS_def unat_div by simp
  show ?thesis unfolding e by linarith
qed

text \<open>With their tables, the sections satisfy the invariant of the block allocator, and no block is handed out.\<close>

lemma tables_mm_ok:
  fixes junk :: "nat \<Rightarrow> nat \<Rightarrow> mem_block" and a b :: u64 and m :: mm
  assumes "secs_in R (mem_sections m)" "\<forall>r\<in>R. region_ok r"
  defines "m' \<equiv> snd (blocks_bitmap_init b (snd (blocks_table_init junk a m)))"
  shows "mm_ok m' \<and> (\<forall>p. \<not> block_taken m' p) \<and> map sec_rng (mem_sections m') = map sec_rng (mem_sections m) \<and>
    map s_id (mem_sections m') = map s_id (mem_sections m)"
proof -
  have secs: "mem_sections m' = map (\<lambda>(i, s). if is_block_section s then s\<lparr>s_blocks := map (junk i) [0..<unat (s_nr_blocks s)],
      s_bitmap := replicate (unat (BITS_TO_LONGS (s_nr_blocks s))) 0, s_bm_current := 0, s_bm_end := s_nr_blocks s\<rparr> else s) (enumerate 0 (mem_sections m))"
    by (auto simp: m'_def blocks_bitmap_init_def blocks_table_init_def case_prod_unfold)
  have rngs: "map sec_rng (mem_sections m') = map sec_rng (mem_sections m)"
    by (rule nth_equalityI) (auto simp: secs nth_enumerate_eq sec_rng_def)
  have ids: "map s_id (mem_sections m') = map s_id (mem_sections m)"
    by (rule nth_equalityI) (auto simp: secs nth_enumerate_eq)
  have "sec_ok (mem_sections m' ! i)" if i: "i < length (mem_sections m)" for i
  proof -
    let ?s = "mem_sections m ! i"
    have "?s \<in> set (mem_sections m)" using i by simp
    then obtain r where r: "r \<in> R" "new_section (rng r) ?s" using assms(1) unfolding secs_in_def by blast
    have "fst (rng r) + snd (rng r) < 2 ^ 64" using assms(2) r(1) by (auto simp: region_ok_def rng_def)
    then have w: "unat (s_phy_base ?s) + unat (s_size ?s) < 2 ^ 64" using r(2) by (auto simp: new_section_def sub_def inside_def sec_rng_def)
    have "unat (s_nr_blocks ?s) + 63 < 2 ^ 64" if "is_block_section ?s"
      using that r(2) w by (auto simp: new_section_def)
    then show ?thesis using w r(2) i BITS_TO_LONGS_enough by (auto simp: sec_ok_def secs nth_enumerate_eq new_section_def)
  qed
  moreover have "length (mem_sections m') = length (mem_sections m)" by (simp add: secs)
  ultimately have "mm_ok m'" using assms(1) unfolding mm_ok_def rngs secs_in_def by (metis in_set_conv_nth)
  moreover have "\<not> block_taken m' p" for p
  proof
    assume "block_taken m' p"
    then have p: "block_valid m' p" "bm_bit (s_bitmap (mem_sections m' ! fst p)) (snd p)" by (simp_all add: block_taken_def)
    then have "unat (s_nr_blocks (mem_sections m' ! fst p)) \<le> 64 * length (s_bitmap (mem_sections m' ! fst p))"
      using \<open>mm_ok m'\<close> by (auto simp: mm_ok_def sec_ok_def block_valid_def)
    then have "snd p div 64 < length (s_bitmap (mem_sections m' ! fst p))" using p(1) by (auto simp: block_valid_def)
    then show False using p by (auto simp: block_valid_def secs nth_enumerate_eq bm_bit_def split: if_splits)
  qed
  ultimately show ?thesis using rngs ids by blast
qed

section \<open>The order of the sections and the blocks of the hypervisor\<close>

text \<open>The identifier of a section is its index.\<close>

definition ids_ok :: "mm \<Rightarrow> bool" where
  "ids_ok m \<longleftrightarrow> map s_id (mem_sections m) = [0..<length (mem_sections m)]"

lemma ids_ok_nth: "ids_ok m \<Longrightarrow> i < length (mem_sections m) \<Longrightarrow> s_id (mem_sections m ! i) = i"
  unfolding ids_ok_def by (metis add_0 nth_map nth_upt)

lemma add_page_section_ids:
  assumes "add_page_section junk base sz st = Some (ret, st')" "ids_ok (snd st)" shows "ids_ok (snd st')"
  using assms by (cases st) (auto simp: add_page_section_def ids_ok_def Let_def split: if_splits option.splits)

lemma add_block_section_ids:
  assumes "add_block_section junk base sz type st = Some (ret, st')" "ids_ok (snd st)" shows "ids_ok (snd st')"
proof -
  have page: "ids_ok (snd st2)" if "opt_page_section junk b n st1 = Some st2" "ids_ok (snd st1)" for b n st1 st2
    using that add_page_section_ids by (cases "n > 0") fastforce+
  obtain bm m where st: "st = (bm, m)" by fastforce
  show ?thesis
  proof (cases "sz = 0 \<or> length (mem_sections m) \<ge> MAX_MEM_SECTIONS \<or> ALIGN (base + sz) 0x200000 - BALIGN base 0x200000 = 0")
    case True
    then show ?thesis
      using assms add_page_section_ids [of junk base sz st] by (auto simp: add_block_section_def Let_def st MEM_BLOCK_SIZE_def split: if_splits)
  next
    case False
    then have go: "\<not> (sz = 0 \<or> length (mem_sections m) \<ge> MAX_MEM_SECTIONS)" "ALIGN (base + sz) 0x200000 - BALIGN base 0x200000 \<noteq> 0" by blast+
    from add_block_section_split [OF assms(1) [unfolded st] go] obtain s st2 where s: "s_id s = length (mem_sections m)"
      and l: "opt_page_section junk base (BALIGN base 0x200000 - base) (bm, m\<lparr>mem_sections := mem_sections m @ [s],
          free_blocks := free_blocks m + drop_bit 21 (ALIGN (base + sz) 0x200000 - BALIGN base 0x200000)\<rparr>) = Some st2"
      and r: "opt_page_section junk (BALIGN base 0x200000 + (ALIGN (base + sz) 0x200000 - BALIGN base 0x200000))
          (base + sz - ALIGN (base + sz) 0x200000) st2 = Some st'"
      by (metis mem_section.select_convs(2))
    show ?thesis using page [OF r page [OF l]] assms(2) s by (simp add: st ids_ok_def)
  qed
qed

lemma parse_system_regions_ids:
  "parse_system_regions junk rs st = Some st' \<Longrightarrow> ids_ok (snd st) \<Longrightarrow> ids_ok (snd st')"
proof (induction rs arbitrary: st)
  case (Cons r rs)
  then show ?case
    by (auto simp: Let_def split: if_splits option.splits dest: add_block_section_ids)
qed simp

lemma swap_sections_ok:
  assumes "mm_ok m" "i < length (mem_sections m)"
  shows "mm_ok (swap_sections i m)"
proof -
  let ?ss = "mem_sections m"
  let ?q = "\<lambda>j. if j = 0 then i else if j = i then 0 else j"
  have nth: "\<exists>k. mem_sections (swap_sections i m) ! j = (?ss ! ?q j)\<lparr>s_id := k\<rparr>" if "j < length ?ss" for j
    using that assms(2) by (cases "?ss ! j") (auto simp: swap_sections_def nth_list_update)
  have len: "length (mem_sections (swap_sections i m)) = length ?ss" by (simp add: swap_sections_def)
  have q: "?q j < length ?ss" if "j < length ?ss" for j using that assms(2) by auto
  have "sec_ok (mem_sections (swap_sections i m) ! j)" if j: "j < length ?ss" for j
  proof -
    obtain k where k: "mem_sections (swap_sections i m) ! j = (?ss ! ?q j)\<lparr>s_id := k\<rparr>" using nth [OF j] by blast
    have "sec_ok (?ss ! ?q j)" using assms(1) q [OF j] unfolding mm_ok_def by (meson nth_mem)
    then show ?thesis unfolding k by (simp add: sec_ok_def)
  qed
  moreover have "apart (sec_rng (mem_sections (swap_sections i m) ! a)) (sec_rng (mem_sections (swap_sections i m) ! b))"
    if ab: "a < b" "b < length ?ss" for a b
  proof -
    have a: "a < length ?ss" using ab by simp
    obtain k where k: "mem_sections (swap_sections i m) ! a = (?ss ! ?q a)\<lparr>s_id := k\<rparr>" using nth [OF a] by blast
    obtain l where l: "mem_sections (swap_sections i m) ! b = (?ss ! ?q b)\<lparr>s_id := l\<rparr>" using nth [OF ab(2)] by blast
    have "?q a \<noteq> ?q b" using ab(1) by auto
    then show ?thesis using apart_sections [OF assms(1) q [OF a] q [OF ab(2)]] unfolding k l by (simp add: sec_rng_def)
  qed
  ultimately show ?thesis unfolding mm_ok_def by (auto simp: in_set_conv_nth len sorted_wrt_iff_nth_less)
qed

lemma fold_bm_set_bit:
  "n \<le> 64 * length p \<Longrightarrow> bm_bit (fold bm_set_bit [0..<n] p) i \<longleftrightarrow> i < n \<or> bm_bit p i"
  "length (fold bm_set_bit [0..<n] p) = length p"
proof -
  show len: "length (fold bm_set_bit [0..<n] p) = length p" for n by (induction n) auto
  show "n \<le> 64 * length p \<Longrightarrow> bm_bit (fold bm_set_bit [0..<n] p) i \<longleftrightarrow> i < n \<or> bm_bit p i"
    by (induction n) (auto simp: bm_bit_set_bit len less_Suc_eq)
qed

lemma reserve_boot_blocks_ok:
  assumes ok: "mm_ok m" and "mem_sections m \<noteq> []" and r: "reserve_boot_blocks code_base n m = Some m'" and free: "\<forall>p. \<not> block_taken m p"
  shows "mm_ok m'" "\<forall>p. block_taken m' p \<longleftrightarrow> fst p = 0 \<and> snd p < n"
    "n \<le> unat (s_nr_blocks (mem_sections m' ! 0))"
    "map sec_rng (mem_sections m') = map sec_rng (mem_sections m)"
proof -
  let ?s = "mem_sections m ! 0"
  obtain f where m': "m' = upd_section 0 f (m\<lparr>free_blocks := free_blocks m - word_of_nat n\<rparr>)"
    and f: "s_bitmap (f ?s) = fold bm_set_bit [0..<n] (s_bitmap ?s)" "s_type (f ?s) = s_type ?s" "s_nr_blocks (f ?s) = s_nr_blocks ?s"
      "s_phy_base (f ?s) = s_phy_base ?s" "s_size (f ?s) = s_size ?s" "length (s_blocks (f ?s)) = length (s_blocks ?s)"
    and n: "is_block_section ?s" "n \<le> unat (s_nr_blocks ?s)"
    using r that by (force simp: reserve_boot_blocks_def Let_def split: if_splits)
  have z: "0 < length (mem_sections m)" using assms(2) by simp
  have s: "sec_ok ?s" using ok z unfolding mm_ok_def by (meson nth_mem)
  have bits: "n \<le> 64 * length (s_bitmap ?s)" using s n by (simp add: sec_ok_def)
  have rng: "sec_rng (f ?s) = sec_rng ?s" by (simp add: sec_rng_def f)
  show "map sec_rng (mem_sections m') = map sec_rng (mem_sections m)"
    using z rng by (intro nth_equalityI) (auto simp: m')
  show "mm_ok m'" unfolding m'
    using ok z rng s by (intro mm_ok_upd_section) (auto simp: mm_ok_def sec_ok_def f fold_bm_set_bit)
  show "n \<le> unat (s_nr_blocks (mem_sections m' ! 0))" using n z by (simp add: m' f)
  show "\<forall>p. block_taken m' p \<longleftrightarrow> fst p = 0 \<and> snd p < n"
  proof
    fix p
    have "block_valid m' p \<longleftrightarrow> block_valid m p" using z f(2,3) by (auto simp: block_valid_def m')
    then show "block_taken m' p \<longleftrightarrow> fst p = 0 \<and> snd p < n"
      using free z n fold_bm_set_bit(1) [OF bits] by (auto simp: block_taken_def block_valid_def m' f)
  qed
qed

lemma block_state_cong:
  "mem_sections m = mem_sections m' \<Longrightarrow> mm_ok m = mm_ok m'" "mem_sections m = mem_sections m' \<Longrightarrow> block_taken m p = block_taken m' p"
  by (simp_all add: mm_ok_def block_taken_def block_valid_def)

lemma swap_sections_rngs:
  assumes "i < length (mem_sections m)"
  shows "set (map sec_rng (mem_sections (swap_sections i m))) = set (map sec_rng (mem_sections m))"
    "sec_rng (mem_sections (swap_sections i m) ! 0) = sec_rng (mem_sections m ! i)"
proof -
  let ?rs = "map sec_rng (mem_sections m)"
  have z: "0 < length (mem_sections m)" using assms by (rule le_less_trans [OF le0])
  have "map sec_rng (mem_sections (swap_sections i m)) = ?rs[0 := ?rs ! i, i := ?rs ! 0]"
    using assms z by (intro nth_equalityI) (auto simp: swap_sections_def sec_rng_def nth_list_update)
  then show "set (map sec_rng (mem_sections (swap_sections i m))) = set ?rs"
    using assms z set_swap [of 0 ?rs i] by simp
  show "sec_rng (mem_sections (swap_sections i m) ! 0) = sec_rng (mem_sections m ! i)"
    using assms z by (auto simp: swap_sections_def sec_rng_def nth_list_update)
qed

lemma swap_sections_taken:
  assumes "i < length (mem_sections m)" "\<forall>p. \<not> block_taken m p"
  shows "\<not> block_taken (swap_sections i m) p"
proof
  assume t: "block_taken (swap_sections i m) p"
  define j where "j = (if fst p = 0 then i else if fst p = i then 0 else fst p)"
  have "block_taken m (j, snd p)"
    using t assms(1) by (auto simp: block_taken_def block_valid_def swap_sections_def nth_list_update j_def split: if_splits)
  then show False using assms(2) by blast
qed

lemma mem_sections_init_ok:
  assumes ok: "secs_in R (mem_sections m)" "\<forall>r\<in>R. region_ok r" "ids_ok m"
    and r: "mem_sections_init junk code_base (bm, m) = Some (bm', m')"
  shows "mm_ok m' \<and> set (map sec_rng (mem_sections m')) = set (map sec_rng (mem_sections m)) \<and>
    (\<exists>n\<le>unat (s_nr_blocks (mem_sections m' ! 0)). \<forall>p. block_taken m' p \<longleftrightarrow> fst p = 0 \<and> snd p < n) \<and>
    sub (unat code_base, 1) (sec_rng (mem_sections m' ! 0))"
proof -
  define m1 where "m1 = snd (blocks_bitmap_init (BALIGN (fst (blocks_table_init junk (BALIGN (bootmem_end bm) 8) m)) 8)
    (snd (blocks_table_init junk (BALIGN (bootmem_end bm) 8) m)))"
  have t: "mm_ok m1" "\<forall>p. \<not> block_taken m1 p" "map sec_rng (mem_sections m1) = map sec_rng (mem_sections m)"
    "map s_id (mem_sections m1) = map s_id (mem_sections m)"
    using tables_mm_ok [OF ok(1,2)] unfolding m1_def by blast+
  have ids: "ids_ok m1" using ok(3) t(4) unfolding ids_ok_def by (metis length_map)
  let ?in = "\<lambda>s. code_base \<ge> s_phy_base s \<and> code_base < s_phy_base s + s_size s"
  obtain i n m3 where i: "i < length (mem_sections m1)" "?in (mem_sections m1 ! i)"
    and r3: "reserve_boot_blocks code_base n (if i \<noteq> 0 then swap_sections i m1 else m1) = Some m3"
    and m': "mem_sections m' = mem_sections m3"
    using r ids_ok_nth [OF ids]
    by (force simp: mem_sections_init_def Let_def case_prod_unfold m1_def [symmetric] find_Some_iff split: option.splits if_splits)
  define m2 where "m2 = (if i \<noteq> 0 then swap_sections i m1 else m1)"
  have m2: "mm_ok m2" "\<forall>p. \<not> block_taken m2 p" "set (map sec_rng (mem_sections m2)) = set (map sec_rng (mem_sections m1))"
    "sec_rng (mem_sections m2 ! 0) = sec_rng (mem_sections m1 ! i)" "mem_sections m2 \<noteq> []"
    using swap_sections_ok [OF t(1) i(1)] swap_sections_taken [OF i(1) t(2)] swap_sections_rngs [OF i(1)] t(1,2) i(1)
    by (auto simp: m2_def swap_sections_def)
  note r = reserve_boot_blocks_ok [OF m2(1,5) r3 [folded m2_def] m2(2)]
  have "sec_ok (mem_sections m1 ! i)" using t(1) i(1) unfolding mm_ok_def by (meson nth_mem)
  then have "sub (unat code_base, 1) (sec_rng (mem_sections m1 ! i))"
    using i(2) by (auto simp: sub_def inside_def sec_rng_def sec_ok_def word_le_nat_alt word_less_nat_alt unat_add_u64)
  moreover have "sec_rng (mem_sections m3 ! 0) = sec_rng (mem_sections m2 ! 0)"
    using r(4) m2(5) by (metis length_greater_0_conv length_map nth_map)
  ultimately show ?thesis
    using r(1-3) block_state_cong [OF m'] m2(3,4) t(3) r(4) unfolding m' by auto
qed


text \<open>A machine with 8 MB of RAM at 1 GB and memory of a guest behind it, and the hypervisor at its start.\<close>

definition ram_regions :: "memory_region list" where
  "ram_regions = [\<lparr>r_flags = 1, r_phy_base = 0x40000000, r_vir_base = 0x40000000, r_size = 0x800000\<rparr>,
     \<lparr>r_flags = 8, r_phy_base = 0x40800000, r_vir_base = 0x40800000, r_size = 0x1000\<rparr>]"

definition ram_boot :: bootmem where
  "ram_boot = \<lparr>bootmem_start = 0x40080000, bootmem_end = 0x40090000, bootmem_size = 0x10000, bootmem_page_base = 0x40090000\<rparr>"

text \<open>
  A region of RAM that lies between two boundaries of 2 MB, at 0x100000 with 0x80000 bytes: the size of its block
  section is computed below zero and wraps, the code tests it for 0 only. The section claims
  \<open>2 ^ 43 - 1\<close> free blocks from 0x200000 on, and the two ends become page sections that cover
  memory outside the region, from address 0.
\<close>

theorem block_section_wraps:
  "map_option (\<lambda>(bm, m). (map (\<lambda>s. (s_phy_base s, s_size s)) (mem_sections m), free_blocks m))
     (parse_system_regions (\<lambda>_ _. 0) [\<lparr>r_flags = 1, r_phy_base = 0x100000, r_vir_base = 0x100000, r_size = 0x80000\<rparr>]
       (ram_boot, two_blocks\<lparr>mem_sections := [], free_blocks := 0\<rparr>)) =
   Some ([(0x200000, - 0x200000), (0x100000, 0x100000), (0, 0x180000)], 0x7ffffffffff)"
  by code_simp

lemma ram_init_returns:
  "map_option fst (mm_do_init (\<lambda>_ _. 0) (\<lambda>_ _. \<lparr>b_phy_base = 0, b_flags = 0, b_free_pages = 0, b_nr_pages = 0, b_bm_current = 0, b_pages_bitmap = 0\<rparr>)
     0x40000000 ram_regions (ram_boot, two_blocks\<lparr>mem_sections := []\<rparr>)) = Some 0"
  by code_simp


end
