(* ===== verification/Mmu.thy ===== *)
theory Mmu
  imports Mm_Init
begin

text \<open>
  Page tables: \<^verbatim>\<open>os/core/mmu.c\<close>, with the descriptors of the AArch64 port in
  \<^verbatim>\<open>asm/pagetable.h\<close> and \<^verbatim>\<open>asm/asm_mmu.h\<close>. Memory is a function from the address of an
  aligned 64-bit entry to its value, beside the state of the page allocator. TLB maintenance is not modelled.
\<close>

section \<open>Descriptors\<close>

definition VM_TYPE_MASK :: u64 where "VM_TYPE_MASK = 0xff"
definition VM_DES_FAULT :: u64 where "VM_DES_FAULT = 0"
definition VM_DES_BLOCK :: u64 where "VM_DES_BLOCK = 0x100"
definition VM_DES_PAGE :: u64 where "VM_DES_PAGE = 0x200"
definition VM_DES_TABLE :: u64 where "VM_DES_TABLE = 0x400"
definition VM_DES_MASK :: u64 where "VM_DES_MASK = 0xf00"
definition VM_HOST :: u64 where "VM_HOST = 0x1000"
definition VM_RO :: u64 where "VM_RO = 0x100000"
definition VM_WO :: u64 where "VM_WO = 0x200000"
definition VM_RW_MASK :: u64 where "VM_RW_MASK = 0x300000"

definition PGD :: nat where "PGD = 0"
definition PUD :: nat where "PUD = 1"
definition PMD :: nat where "PMD = 2"
definition PTE :: nat where "PTE = 3"

lemmas VM_defs = VM_TYPE_MASK_def VM_DES_FAULT_def VM_DES_BLOCK_def VM_DES_PAGE_def VM_DES_TABLE_def VM_DES_MASK_def
  VM_HOST_def VM_RO_def VM_WO_def VM_RW_MASK_def
lemmas lvl_defs = PGD_def PUD_def PMD_def PTE_def

definition TT_S2_ATTR_BLOCK :: u64 where "TT_S2_ATTR_BLOCK = 1"
definition TT_S2_ATTR_TABLE :: u64 where "TT_S2_ATTR_TABLE = 3"
definition TT_S2_ATTR_PAGE :: u64 where "TT_S2_ATTR_PAGE = 3"
definition TT_S2_ATTR_AP_RO :: u64 where "TT_S2_ATTR_AP_RO = push_bit 6 1"
definition TT_S2_ATTR_AP_WO :: u64 where "TT_S2_ATTR_AP_WO = push_bit 6 2"
definition TT_S2_ATTR_AP_RW :: u64 where "TT_S2_ATTR_AP_RW = push_bit 6 3"
definition TT_S2_ATTR_SH_INNER :: u64 where "TT_S2_ATTR_SH_INNER = push_bit 8 3"
definition TT_S2_ATTR_MEMATTR_DEVICE :: u64 where "TT_S2_ATTR_MEMATTR_DEVICE = 0"
definition TT_S2_ATTR_MEMATTR_OUTER_WB :: u64 where "TT_S2_ATTR_MEMATTR_OUTER_WB = push_bit 4 3"
definition TT_S2_ATTR_MEMATTR_DEV_nGnRnE :: u64 where "TT_S2_ATTR_MEMATTR_DEV_nGnRnE = 0"
definition TT_S2_ATTR_MEMATTR_NORMAL_INNER_WB :: u64 where "TT_S2_ATTR_MEMATTR_NORMAL_INNER_WB = push_bit 2 3"
definition TT_S2_ATTR_AF :: u64 where "TT_S2_ATTR_AF = push_bit 10 1"
definition TT_S2_ATTR_XN :: u64 where "TT_S2_ATTR_XN = push_bit 54 1"

definition TT_S1_ATTR_FAULT :: u64 where "TT_S1_ATTR_FAULT = 0"
definition TT_S1_ATTR_BLOCK :: u64 where "TT_S1_ATTR_BLOCK = 1"
definition TT_S1_ATTR_TABLE :: u64 where "TT_S1_ATTR_TABLE = 3"
definition TT_S1_ATTR_PAGE :: u64 where "TT_S1_ATTR_PAGE = 3"
definition TT_S1_ATTR_MATTR_LSB :: nat where "TT_S1_ATTR_MATTR_LSB = 2"
definition TT_S1_ATTR_NS :: u64 where "TT_S1_ATTR_NS = push_bit 5 1"
definition TT_S1_ATTR_AP_RW_PL1 :: u64 where "TT_S1_ATTR_AP_RW_PL1 = 0"
definition TT_S1_ATTR_AP_RO_PL1 :: u64 where "TT_S1_ATTR_AP_RO_PL1 = push_bit 6 2"
definition TT_S1_ATTR_SH_INNER :: u64 where "TT_S1_ATTR_SH_INNER = push_bit 8 3"
definition TT_S1_ATTR_AF :: u64 where "TT_S1_ATTR_AF = push_bit 10 1"
definition TT_S1_ATTR_PXN :: u64 where "TT_S1_ATTR_PXN = push_bit 53 1"
definition TT_S1_ATTR_UXN :: u64 where "TT_S1_ATTR_UXN = push_bit 54 1"

lemmas TT_defs = TT_S2_ATTR_BLOCK_def TT_S2_ATTR_TABLE_def TT_S2_ATTR_PAGE_def TT_S2_ATTR_AP_RO_def TT_S2_ATTR_AP_WO_def
  TT_S2_ATTR_AP_RW_def TT_S2_ATTR_SH_INNER_def TT_S2_ATTR_MEMATTR_DEVICE_def TT_S2_ATTR_MEMATTR_OUTER_WB_def
  TT_S2_ATTR_MEMATTR_DEV_nGnRnE_def TT_S2_ATTR_MEMATTR_NORMAL_INNER_WB_def TT_S2_ATTR_AF_def TT_S2_ATTR_XN_def
  TT_S1_ATTR_FAULT_def TT_S1_ATTR_BLOCK_def TT_S1_ATTR_TABLE_def TT_S1_ATTR_PAGE_def TT_S1_ATTR_MATTR_LSB_def
  TT_S1_ATTR_NS_def TT_S1_ATTR_AP_RW_PL1_def TT_S1_ATTR_AP_RO_PL1_def TT_S1_ATTR_SH_INNER_def TT_S1_ATTR_AF_def
  TT_S1_ATTR_PXN_def TT_S1_ATTR_UXN_def

definition VM_DESC_HOST_TABLE :: u64 where "VM_DESC_HOST_TABLE = TT_S1_ATTR_TABLE"
definition VM_DESC_HOST_BLOCK :: u64 where
  "VM_DESC_HOST_BLOCK = TT_S1_ATTR_BLOCK OR push_bit TT_S1_ATTR_MATTR_LSB 4 OR TT_S1_ATTR_NS OR TT_S1_ATTR_SH_INNER OR TT_S1_ATTR_AF"

definition arch_guest_tt_description :: "u64 \<Rightarrow> u64" where
  "arch_guest_tt_description flags =
    (let d_type = flags AND VM_DES_MASK;
         m_type = flags AND VM_TYPE_MASK;
         rw = flags AND VM_RW_MASK;
         m_type = (if m_type = 0 then VM_NORMAL else m_type)
     in if d_type = VM_DES_TABLE then TT_S2_ATTR_TABLE
     else
       let attr = (if d_type = VM_DES_BLOCK then
                     if m_type = VM_NORMAL
                     then TT_S2_ATTR_BLOCK OR TT_S2_ATTR_SH_INNER OR TT_S2_ATTR_AF OR TT_S2_ATTR_MEMATTR_OUTER_WB OR
                       TT_S2_ATTR_MEMATTR_NORMAL_INNER_WB
                     else TT_S2_ATTR_BLOCK OR TT_S2_ATTR_SH_INNER OR TT_S2_ATTR_AF OR TT_S2_ATTR_XN OR TT_S2_ATTR_MEMATTR_DEVICE OR
                       TT_S2_ATTR_MEMATTR_DEV_nGnRnE
                   else 0);
           attr = (if d_type = VM_DES_PAGE then
                     if m_type = VM_NORMAL
                     then TT_S2_ATTR_PAGE OR TT_S2_ATTR_SH_INNER OR TT_S2_ATTR_AF OR TT_S2_ATTR_MEMATTR_OUTER_WB OR
                       TT_S2_ATTR_MEMATTR_NORMAL_INNER_WB
                     else TT_S2_ATTR_PAGE OR TT_S2_ATTR_SH_INNER OR TT_S2_ATTR_AF OR TT_S2_ATTR_XN OR TT_S2_ATTR_MEMATTR_DEVICE OR
                       TT_S2_ATTR_MEMATTR_DEV_nGnRnE
                   else attr)
       in if rw = VM_RO then attr OR TT_S2_ATTR_AP_RO
          else if rw = VM_WO then attr OR TT_S2_ATTR_AP_WO
          else attr OR TT_S2_ATTR_AP_RW)"

definition arch_host_tt_description :: "u64 \<Rightarrow> u64" where
  "arch_host_tt_description flags =
    (let d_type = flags AND VM_DES_MASK;
         m_type = flags AND VM_TYPE_MASK;
         rw = flags AND VM_RW_MASK;
         m_type = (if m_type = 0 then VM_NORMAL else m_type)
     in if d_type = VM_DES_TABLE then TT_S1_ATTR_TABLE
     else
       let attr = (if d_type = VM_DES_BLOCK then
                     if m_type = VM_NORMAL
                     then TT_S1_ATTR_BLOCK OR push_bit TT_S1_ATTR_MATTR_LSB 4 OR TT_S1_ATTR_NS OR TT_S1_ATTR_SH_INNER OR TT_S1_ATTR_AF
                     else TT_S1_ATTR_BLOCK OR push_bit TT_S1_ATTR_MATTR_LSB 0 OR TT_S1_ATTR_NS OR TT_S1_ATTR_AF OR TT_S1_ATTR_PXN OR
                       TT_S1_ATTR_UXN
                   else 0);
           attr = (if d_type = VM_DES_PAGE then
                     if m_type = VM_NORMAL
                     then TT_S1_ATTR_PAGE OR push_bit TT_S1_ATTR_MATTR_LSB 4 OR TT_S1_ATTR_NS OR TT_S1_ATTR_SH_INNER OR TT_S1_ATTR_AF
                     else TT_S1_ATTR_PAGE OR push_bit TT_S1_ATTR_MATTR_LSB 0 OR TT_S1_ATTR_NS OR TT_S1_ATTR_AF OR TT_S1_ATTR_PXN OR
                       TT_S1_ATTR_UXN
                   else attr)
       in if rw = VM_RO then attr OR TT_S1_ATTR_AP_RO_PL1 else attr OR TT_S1_ATTR_AP_RW_PL1)"

definition arch_page_table_description :: "u64 \<Rightarrow> u64" where
  "arch_page_table_description flags =
    (if flags AND VM_HOST \<noteq> 0 then arch_host_tt_description flags else arch_guest_tt_description flags)"

definition page_table_description :: "u64 \<Rightarrow> u64" where
  "page_table_description flags = arch_page_table_description flags"

definition get_mapping_type :: "nat \<Rightarrow> u64 \<Rightarrow> u64" where
  "get_mapping_type lvl addr =
    (let type = addr AND 3 in
     if type = TT_S1_ATTR_FAULT then VM_DES_FAULT
     else if lvl = PTE then (if type \<noteq> TT_S1_ATTR_PAGE then VM_DES_FAULT else VM_DES_PAGE)
     else if lvl = PMD then
       (if type = TT_S1_ATTR_TABLE then VM_DES_TABLE else if type = TT_S1_ATTR_BLOCK then VM_DES_BLOCK else VM_DES_TABLE)
     else if lvl = PUD then
       (if type = TT_S1_ATTR_TABLE then VM_DES_TABLE else if type = TT_S1_ATTR_BLOCK then VM_DES_BLOCK else VM_DES_TABLE)
     else if lvl = PGD then (if type \<noteq> TT_S1_ATTR_TABLE then VM_DES_FAULT else VM_DES_TABLE)
     else VM_DES_FAULT)"

section \<open>State\<close>

record pagetable_attr =
  range_offset :: nat
  des_offset :: nat
  offset_mask :: u64
  map_size :: u64

definition pgd_attr :: pagetable_attr where
  "pgd_attr = \<lparr>range_offset = 39, des_offset = 12, offset_mask = push_bit 39 0x1ff, map_size = push_bit 39 1\<rparr>"

definition pud_attr :: pagetable_attr where
  "pud_attr = \<lparr>range_offset = 30, des_offset = 12, offset_mask = push_bit 30 0x1ff, map_size = push_bit 30 1\<rparr>"

definition pmd_attr :: pagetable_attr where
  "pmd_attr = \<lparr>range_offset = 21, des_offset = 12, offset_mask = push_bit 21 0x1ff, map_size = push_bit 21 1\<rparr>"

definition pte_attr :: pagetable_attr where
  "pte_attr = \<lparr>range_offset = 12, des_offset = 12, offset_mask = push_bit 12 0x1ff, map_size = push_bit 12 1\<rparr>"

text \<open>
  The attributes are linked by \<^verbatim>\<open>next\<close> in the order of the array, so a pointer to one is its index,
  \<^verbatim>\<open>lvl\<close> is that index and \<^verbatim>\<open>NULL\<close> is an index above \<open>PTE\<close>.
\<close>

definition attrs :: "pagetable_attr list" where
  "attrs = [pgd_attr, pud_attr, pmd_attr, pte_attr]"

record mapping_struct =
  table_base :: u64
  vir_base :: u64
  phy_base :: u64
  m_size :: u64
  lvl :: nat
  m_flags :: u64
  config :: nat

text \<open>
  Of \<^verbatim>\<open>struct mm_struct\<close>, the root table, the pages the mappings own (a chain through
  \<^verbatim>\<open>page->next\<close>, here the list of the descriptors of the pages), and what the management of guest memory
  keeps there.
\<close>

record mm_struct =
  pgd_base :: u64
  hvm_mmap_base :: u64
  gvm_iomem_base :: u64
  gvm_iomem_size :: u64
  head :: "u64 list"
  block_list :: "(nat \<times> nat) list"
  memory_regions :: "memory_region list"
  region_free :: u64

record mmu =
  mmu_mm :: mm
  pt_mem :: "u64 \<Rightarrow> u64"

definition zero_page :: "u64 \<Rightarrow> (u64 \<Rightarrow> u64) \<Rightarrow> u64 \<Rightarrow> u64" where
  "zero_page p mem = (\<lambda>a. if a - p < 0x1000 then 0 else mem a)"

abbreviation shift :: "nat \<Rightarrow> nat" where
  "shift l \<equiv> 39 - 9 * l"

lemma level_cases:
  assumes "l \<le> (3 :: nat)" obtains "l = 0" | "l = 1" | "l = 2" | "l = 3"
  using assms by linarith

lemma attrs_nth:
  assumes "l \<le> 3"
  shows "range_offset (attrs ! l) = shift l" "des_offset (attrs ! l) = 12"
    "offset_mask (attrs ! l) = push_bit (shift l) (mask 9)" "map_size (attrs ! l) = 2 ^ shift l"
  using assms
  by (cases rule: level_cases; simp add: attrs_def pgd_attr_def pud_attr_def pmd_attr_def pte_attr_def mask_eq_exp_minus_1)+

definition DESC_MASK :: "nat \<Rightarrow> u64" where
  "DESC_MASK n = NOT (push_bit n 1 - 1)"

section \<open>Creating mappings\<close>

definition get_map_type :: "mapping_struct \<Rightarrow> u64" where
  "get_map_type info =
    (if m_flags info AND VM_HOST \<noteq> 0 then (if lvl info = PMD then VM_DES_BLOCK else VM_DES_TABLE)
     else if lvl info = PTE then VM_DES_PAGE
     else let a = m_size info AND (map_size (attrs ! config info) - 1);
              b = vir_base info AND (map_size (attrs ! config info) - 1)
          in if a \<noteq> 0 \<or> b \<noteq> 0 then VM_DES_TABLE else VM_DES_BLOCK)"

definition alloc_mapping_page :: "mm_struct \<Rightarrow> mmu \<Rightarrow> (u64 \<times> mm_struct \<times> mmu) option" where
  "alloc_mapping_page ms st =
    (case alloc_pages 1 1 (mmu_mm st) of
       None \<Rightarrow> None
     | Some (None, m) \<Rightarrow> Some (0, ms, st\<lparr>mmu_mm := m\<rparr>)
     | Some (Some page, m) \<Rightarrow>
         let p = page_to_addr m page
         in Some (p, ms\<lparr>head := page # head ms\<rparr>, st\<lparr>mmu_mm := m, pt_mem := zero_page p (pt_mem st)\<rparr>))"

definition create_page_entry :: "mapping_struct \<Rightarrow> mmu \<Rightarrow> mmu" where
  "create_page_entry info st =
    (let map_type = (if lvl info \<noteq> 3 then VM_DES_BLOCK else VM_DES_PAGE);
         cfg = attrs ! config info;
         attr = page_table_description (m_flags info OR map_type);
         index = (ucast (drop_bit (range_offset cfg) (vir_base info AND offset_mask cfg)) :: u32)
     in st\<lparr>pt_mem := fold (\<lambda>i mem. mem(table_base info + 8 * ucast (index + word_of_nat i) :=
            attr OR ((phy_base info + word_of_nat i * map_size cfg) AND DESC_MASK (des_offset cfg))))
          [0..<unat (drop_bit (range_offset cfg) (m_size info))] (pt_mem st)\<rparr>)"

text \<open>
  The parts of one iteration of \<^verbatim>\<open>create_table_entry\<close>: how much of the range the current entry covers, and
  the table the entry points to. A new table is allocated for an empty entry (with the flag \<^verbatim>\<open>new_page\<close>);
  address 0 means that there was no page.
\<close>

definition entry_part :: "u64 \<Rightarrow> u64 \<Rightarrow> u64 \<Rightarrow> u64" where
  "entry_part vir entry_size sz =
    (let n = BALIGN vir entry_size - vir;
         n = (if n \<noteq> 0 then n else entry_size)
     in if n > sz then sz else n)"

definition entry_slot :: "mapping_struct \<Rightarrow> u64" where
  "entry_slot info =
    (let cfg = attrs ! config info
     in table_base info + 8 * drop_bit (range_offset cfg) (vir_base info AND offset_mask cfg))"

definition entry_table :: "mapping_struct \<Rightarrow> mm_struct \<Rightarrow> mmu \<Rightarrow> (u64 \<times> bool \<times> mm_struct \<times> mmu) option" where
  "entry_table info ms st =
    (let cfg = attrs ! config info;
         attr = page_table_description (m_flags info OR VM_DES_TABLE);
         slot = entry_slot info;
         value = pt_mem st slot
     in if value = 0 then
          (case alloc_mapping_page ms st of
             None \<Rightarrow> None
           | Some (p, ms, st) \<Rightarrow>
               Some (p, True, ms, if p = 0 then st
                 else st\<lparr>pt_mem := (zero_page p (pt_mem st))(slot := attr OR (p AND DESC_MASK (des_offset cfg)))\<rparr>))
        else Some (push_bit (des_offset cfg) (drop_bit (des_offset cfg) (value AND 0x0000ffffffffffff)), False, ms, st))"

definition next_info :: "mapping_struct \<Rightarrow> u64 \<Rightarrow> u64 \<Rightarrow> mapping_struct" where
  "next_info info table n =
    \<lparr>table_base = table, vir_base = vir_base info, phy_base = phy_base info, m_size = n,
     lvl = lvl info + 1, m_flags = m_flags info, config = config info + 1\<rparr>"

lemma unat_sub_less:
  fixes n :: u64
  assumes "n \<noteq> 0" "n \<le> sz" shows "unat (sz - n) < unat sz"
proof -
  have "0 < unat n" using assms(1) by (simp add: unat_gt_0)
  then show ?thesis using assms(2) by (simp add: unat_sub word_le_nat_alt)
qed

lemma entry_part_bounds:
  assumes "entry_size \<noteq> 0" "sz \<noteq> 0"
  shows "entry_part vir entry_size sz \<noteq> 0" "entry_part vir entry_size sz \<le> sz" "unat (sz - entry_part vir entry_size sz) < unat sz"
proof -
  show b: "entry_part vir entry_size sz \<noteq> 0" "entry_part vir entry_size sz \<le> sz" using assms by (auto simp: entry_part_def Let_def)
  then show "unat (sz - entry_part vir entry_size sz) < unat sz"
    by (rule unat_sub_less)
qed

text \<open>
  \<^verbatim>\<open>create_table_entry\<close>: the loop over the range; \<open>sz\<close> is the local variable \<^verbatim>\<open>size\<close>. The recursive
  call is for the next level. Below the last level there are no attributes: \<open>None\<close>.
\<close>

function create_table_loop :: "mapping_struct \<Rightarrow> u64 \<Rightarrow> mm_struct \<Rightarrow> mmu \<Rightarrow> (int \<times> mm_struct \<times> mmu) option" where
  "create_table_loop info sz ms st =
    (if sz = 0 then Some (0, ms, st)
     else if PTE \<le> config info then None
     else
       let n = entry_part (vir_base info) (map_size (attrs ! config info)) sz
       in case entry_table info ms st of
            None \<Rightarrow> None
          | Some (table, new_page, ms, st) \<Rightarrow>
              if new_page \<and> table = 0 then Some (- ENOMEM, ms, st)
              else
                case (if get_map_type (next_info info table n) = VM_DES_TABLE
                      then create_table_loop (next_info info table n) n ms st
                      else Some (0, ms, create_page_entry (next_info info table n) st)) of
                  None \<Rightarrow> None
                | Some (ret, ms, st) \<Rightarrow>
                    if ret \<noteq> 0 then
                      (if new_page then map_option (\<lambda>m. (ret, ms, st\<lparr>mmu_mm := m\<rparr>)) (free table (mmu_mm st))
                       else Some (ret, ms, st))
                    else create_table_loop (info\<lparr>vir_base := vir_base info + n, phy_base := phy_base info + n\<rparr>) (sz - n) ms st)"
  by pat_completeness auto

termination
proof (relation "measures [\<lambda>(info, sz, ms, st). PTE - config info, \<lambda>(info, sz, ms, st). unat sz]", goal_cases)
  case (3 info sz ms st)
  have "map_size (attrs ! config info) \<noteq> 0" using 3(2) by (simp add: attrs_nth PTE_def)
  then show ?case using entry_part_bounds(3) 3(1,3) by simp
qed (auto simp: PTE_def next_info_def)

declare create_table_loop.simps [simp del]

definition create_table_entry :: "mapping_struct \<Rightarrow> mm_struct \<Rightarrow> mmu \<Rightarrow> (int \<times> mm_struct \<times> mmu) option" where
  "create_table_entry info ms st = create_table_loop info (m_size info) ms st"

definition create_mem_mapping :: "mm_struct \<Rightarrow> u64 \<Rightarrow> u64 \<Rightarrow> u64 \<Rightarrow> u64 \<Rightarrow> mmu \<Rightarrow> (int \<times> mm_struct \<times> mmu) option" where
  "create_mem_mapping ms addr phy sz flags st =
    (let l = (if flags AND VM_HOST \<noteq> 0 then PGD else PUD)
     in create_table_entry \<lparr>table_base = pgd_base ms, vir_base = addr, phy_base = phy, m_size = sz, lvl = l, m_flags = flags,
          config = l\<rparr> ms st)"

definition create_host_mapping :: "mm_struct \<Rightarrow> u64 \<Rightarrow> u64 \<Rightarrow> u64 \<Rightarrow> u64 \<Rightarrow> mmu \<Rightarrow> (int \<times> mm_struct \<times> mmu) option" where
  "create_host_mapping host_mm vir phy sz flags st =
    (let tmp = BALIGN (vir + sz) MEM_BLOCK_SIZE;
         vir_base = ALIGN vir MEM_BLOCK_SIZE;
         phy_base = ALIGN phy MEM_BLOCK_SIZE
     in create_mem_mapping host_mm vir_base phy_base (tmp - vir_base) (flags OR VM_HOST) st)"

section \<open>Destroying and looking up mappings\<close>

text \<open>
  The inner loop of \<^verbatim>\<open>__destroy_mem_mapping\<close>: from the table and the attributes of index \<open>a\<close> down to an entry
  that is not a table. \<open>Inl\<close> is the error it returns, \<open>Inr\<close> the level, the size of the entry and its address.
\<close>

function destroy_walk :: "u64 \<Rightarrow> nat \<Rightarrow> nat \<Rightarrow> u64 \<Rightarrow> u64 \<Rightarrow> (u64 \<Rightarrow> u64) \<Rightarrow> int + (nat \<times> u64 \<times> u64)" where
  "destroy_walk table a l vir sz mem =
    (let cfg = attrs ! a;
         slot = table + 8 * drop_bit (range_offset cfg) (vir AND offset_mask cfg);
         des = mem slot;
         type = get_mapping_type l des
     in if des = 0 then Inl (- EINVAL)
        else if type = VM_DES_FAULT then Inl (- EINVAL)
        else if type = VM_DES_TABLE then
          (if l + 1 > PTE \<or> a + 1 > PTE then Inl (- EINVAL)
           else destroy_walk (des AND NOT 0xfff) (a + 1) (l + 1) vir sz mem)
        else if sz < map_size cfg then Inl (- EINVAL)
        else Inr (l, map_size cfg, slot))"
  by pat_completeness auto
termination by (relation "measure (\<lambda>(table, a, l, vir, sz, mem). PTE - a)") (auto simp: PTE_def)

declare destroy_walk.simps [simp del]

text \<open>
  The outer loop; \<^verbatim>\<open>size\<close> is a \<^verbatim>\<open>long\<close>. The level that the inner loop reached stays for the next round,
  which starts at the root table again.
\<close>

lemma destroy_walk_part:
  "a \<le> PTE \<Longrightarrow> destroy_walk table a l vir sz mem = Inr (l', n, slot) \<Longrightarrow> n \<noteq> 0 \<and> n \<le> sz"
proof (induction table a l vir sz mem rule: destroy_walk.induct)
  case (1 table a l vir sz mem)
  then show ?case
    by (subst (asm) (2) destroy_walk.simps) (auto simp: Let_def attrs_nth PTE_def not_less split: if_splits)
qed

function destroy_loop :: "u64 \<Rightarrow> nat \<Rightarrow> u64 \<Rightarrow> u64 \<Rightarrow> (u64 \<Rightarrow> u64) \<Rightarrow> int \<times> (u64 \<Rightarrow> u64)" where
  "destroy_loop root l vir sz mem =
    (if sint sz \<le> 0x1000 then (0, mem)
     else case destroy_walk root PGD l vir sz mem of
         Inl err \<Rightarrow> (err, mem)
       | Inr (l, n, slot) \<Rightarrow> destroy_loop root l (vir + n) (sz - n) (mem(slot := 0)))"
  by pat_completeness auto
termination
proof (relation "measure (\<lambda>(root, l, vir, sz, mem). unat sz)", goal_cases)
  case 2
  have less: "unat (sz - n) < unat sz" if "destroy_walk root PGD l vir sz mem = Inr (l', n, slot)" for root l vir sz mem l' n slot
    using destroy_walk_part [OF _ that] by (auto simp: lvl_defs intro: unat_sub_less)
  from 2 show ?case by (auto intro!: less)
qed simp

declare destroy_loop.simps [simp del]

definition destroy_mem_mapping :: "mm_struct \<Rightarrow> u64 \<Rightarrow> u64 \<Rightarrow> mmu \<Rightarrow> int \<times> mmu" where
  "destroy_mem_mapping ms vir sz st = (0, st\<lparr>pt_mem := snd (destroy_loop (pgd_base ms) PGD vir sz (pt_mem st))\<rparr>)"

definition destroy_host_mapping :: "mm_struct \<Rightarrow> u64 \<Rightarrow> u64 \<Rightarrow> mmu \<Rightarrow> int \<times> mmu" where
  "destroy_host_mapping host_mm vir sz st =
    (let e = BALIGN (vir + sz) MEM_BLOCK_SIZE;
         vir = ALIGN vir MEM_BLOCK_SIZE
     in destroy_mem_mapping host_mm vir (e - vir) st)"

text \<open>\<^verbatim>\<open>get_mapping_entry\<close>; behind the last level the attributes are \<^verbatim>\<open>NULL\<close> and the loop condition faults.\<close>

function get_mapping_entry :: "u64 \<Rightarrow> u64 \<Rightarrow> nat \<Rightarrow> nat \<Rightarrow> (u64 \<Rightarrow> u64) \<Rightarrow> u64 option" where
  "get_mapping_entry tt vir a e mem =
    (if a \<ge> PTE then None
     else
       let cfg = attrs ! a;
           value = mem (tt + 8 * drop_bit (range_offset cfg) (vir AND offset_mask cfg))
       in if value = 0 \<and> a < e then Some 0
          else if a + 1 < e then get_mapping_entry (value AND 0xfffffffffffff000) vir (a + 1) e mem
          else Some (value AND 0xfffffffffffff000))"
  by pat_completeness auto
termination by (relation "measure (\<lambda>(tt, vir, a, e, mem). PTE - a)") (auto simp: PTE_def)

declare get_mapping_entry.simps [simp del]

definition get_mapping_pmd :: "u64 \<Rightarrow> u64 \<Rightarrow> u64 \<Rightarrow> (u64 \<Rightarrow> u64) \<Rightarrow> u64 option" where
  "get_mapping_pmd pgd vir flags mem =
    (if flags AND VM_HOST \<noteq> 0 then get_mapping_entry pgd vir PGD PMD mem else get_mapping_entry pgd vir PUD PMD mem)"

definition get_mapping_pte :: "u64 \<Rightarrow> u64 \<Rightarrow> u64 \<Rightarrow> (u64 \<Rightarrow> u64) \<Rightarrow> u64 option" where
  "get_mapping_pte pgd vir flags mem =
    (if flags AND VM_HOST \<noteq> 0 then get_mapping_entry pgd vir PGD PTE mem else get_mapping_entry pgd vir PUD PTE mem)"

definition get_mapping_pud :: "u64 \<Rightarrow> u64 \<Rightarrow> u64 \<Rightarrow> (u64 \<Rightarrow> u64) \<Rightarrow> u64 option" where
  "get_mapping_pud pgd vir flags mem = (if flags AND VM_HOST \<noteq> 0 then get_mapping_entry pgd vir PGD PUD mem else Some 0)"

section \<open>Single entries\<close>

definition create_level_mapping :: "nat \<Rightarrow> u64 \<Rightarrow> u64 \<Rightarrow> u64 \<Rightarrow> u64 \<Rightarrow> mmu \<Rightarrow> mmu" where
  "create_level_mapping l tt vir addr flags st =
    st\<lparr>pt_mem := (pt_mem st)(tt + 8 * drop_bit (range_offset (attrs ! l)) vir :=
      (addr AND 0xfffffffffffff000) OR page_table_description flags)\<rparr>"

definition create_pgd_mapping :: "u64 \<Rightarrow> u64 \<Rightarrow> u64 \<Rightarrow> u64 \<Rightarrow> mmu \<Rightarrow> mmu" where
  "create_pgd_mapping = create_level_mapping PGD"

definition create_pud_mapping :: "u64 \<Rightarrow> u64 \<Rightarrow> u64 \<Rightarrow> u64 \<Rightarrow> mmu \<Rightarrow> mmu" where
  "create_pud_mapping = create_level_mapping PUD"

definition create_pmd_mapping :: "u64 \<Rightarrow> u64 \<Rightarrow> u64 \<Rightarrow> u64 \<Rightarrow> mmu \<Rightarrow> mmu" where
  "create_pmd_mapping = create_level_mapping PMD"

definition create_pte_mapping :: "u64 \<Rightarrow> u64 \<Rightarrow> u64 \<Rightarrow> u64 \<Rightarrow> mmu \<Rightarrow> mmu" where
  "create_pte_mapping = create_level_mapping PTE"

definition alloc_guest_pmd :: "mm_struct \<Rightarrow> u64 \<Rightarrow> mmu \<Rightarrow> (u64 \<times> mm_struct \<times> mmu) option" where
  "alloc_guest_pmd ms phy st =
    (if pgd_base ms = 0 then Some (0, ms, st)
     else case get_mapping_entry (pgd_base ms) phy PUD PMD (pt_mem st) of
         None \<Rightarrow> None
       | Some pmd \<Rightarrow>
           if pmd \<noteq> 0 then Some (pmd, ms, st)
           else case alloc_mapping_page ms st of
               None \<Rightarrow> None
             | Some (pmd, ms, st) \<Rightarrow>
                 Some (pmd, ms, if pmd \<noteq> 0 then create_pud_mapping (pgd_base ms) phy pmd VM_DES_TABLE st else st))"

text \<open>The early mappings of the hypervisor, with tables from the boot memory.\<close>

definition PMD_MASK :: u64 where "PMD_MASK = NOT (push_bit 21 1 - 1)"

definition pgd_idx :: "u64 \<Rightarrow> u64" where "pgd_idx vir = drop_bit 39 vir AND (512 - 1)"
definition pud_idx :: "u64 \<Rightarrow> u64" where "pud_idx vir = drop_bit 30 vir AND (512 - 1)"
definition pmd_idx :: "u64 \<Rightarrow> u64" where "pmd_idx vir = drop_bit 21 vir AND (512 - 1)"

definition early_table :: "u64 \<Rightarrow> bootmem \<times> (u64 \<Rightarrow> u64) \<Rightarrow> (u64 \<times> bootmem \<times> (u64 \<Rightarrow> u64)) option" where
  "early_table slot s =
    (let (bm, mem) = s; t = mem slot AND NOT 0xfff in
     if t \<noteq> 0 then Some (t, bm, mem)
     else case alloc_boot_pages 1 bm of
         None \<Rightarrow> None
       | Some (p, bm) \<Rightarrow>
           Some (p, bm, if p = 0 then mem else (zero_page p mem)(slot := p OR VM_DESC_HOST_TABLE)))"

definition create_early_pmd_mapping :: "u64 \<Rightarrow> u64 \<Rightarrow> u64 \<Rightarrow> bootmem \<times> (u64 \<Rightarrow> u64) \<Rightarrow> (int \<times> bootmem \<times> (u64 \<Rightarrow> u64)) option" where
  "create_early_pmd_mapping pgdp vir phy s =
    (let vir = vir AND PMD_MASK; phy = phy AND PMD_MASK in
     case early_table (pgdp + 8 * pgd_idx vir) s of
       None \<Rightarrow> None
     | Some (pudp, s) \<Rightarrow>
         if pudp = 0 then Some (- ENOMEM, s)
         else case early_table (pudp + 8 * pud_idx vir) s of
             None \<Rightarrow> None
           | Some (pmdp, bm, mem) \<Rightarrow>
               if pmdp = 0 then Some (- ENOMEM, bm, mem)
               else Some (0, bm, mem(pmdp + 8 * pmd_idx phy := (phy AND PMD_MASK) OR VM_DESC_HOST_BLOCK)))"

end
