(* ===== verification/Mmu_Walk.thy ===== *)
theory Mmu_Walk
  imports Mmu
begin

text \<open>
  What the page tables mean: the walk of the translation hardware over them, the ownership of the
  table pages that excludes sharing, and that creating a mapping adds exactly that mapping.
\<close>

section \<open>The walk\<close>

abbreviation slot :: "u64 \<Rightarrow> nat \<Rightarrow> u64" where
  "slot a i \<equiv> a + 8 * word_of_nat i"

definition idx :: "nat \<Rightarrow> nat \<Rightarrow> nat" where "idx l va = va div 2 ^ shift l mod 512"

text \<open>The number of the table of level \<open>l\<close> that an address belongs to.\<close>

definition tid :: "nat \<Rightarrow> nat \<Rightarrow> nat" where "tid l va = va div 2 ^ (shift l + 9)"

definition is_table :: "nat \<Rightarrow> u64 \<Rightarrow> bool" where "is_table l e \<longleftrightarrow> l < 3 \<and> e AND 3 = 3"

definition is_leaf :: "nat \<Rightarrow> u64 \<Rightarrow> bool" where
  "is_leaf l e \<longleftrightarrow> (if l = 3 then e AND 3 = 3 else l \<in> {1, 2} \<and> e AND 3 = 1)"

definition taddr :: "u64 \<Rightarrow> u64" where "taddr e = e AND 0x0000fffffffff000"

text \<open>
  The walk from the table \<open>base\<close> of level \<open>l\<close>: the descriptor and the level at which it ends, or \<open>None\<close> for a
  translation fault.
\<close>

function walk :: "(u64 \<Rightarrow> u64) \<Rightarrow> nat \<Rightarrow> u64 \<Rightarrow> nat \<Rightarrow> (u64 \<times> nat) option" where
  "walk mem l base va =
    (let e = mem (slot base (idx l va)) in
     if is_table l e then walk mem (l + 1) (taddr e) va
     else if is_leaf l e then Some (e, l) else None)"
  by pat_completeness auto
termination by (relation "measure (\<lambda>(mem, l, base, va). 3 - l)") (auto simp: is_table_def)

declare walk.simps [simp del]

text \<open>The physical address and the attributes.\<close>

definition translate :: "(u64 \<Rightarrow> u64) \<Rightarrow> nat \<Rightarrow> u64 \<Rightarrow> nat \<Rightarrow> (nat \<times> u64) option" where
  "translate mem l base va =
    map_option (\<lambda>(e, k). (unat (e AND mask 48 AND NOT (mask (shift k))) + va mod 2 ^ shift k, e AND NOT 0x0000fffffffff000))
      (walk mem l base va)"

section \<open>Addresses of entries\<close>

lemma tid_Suc: "l < 3 \<Longrightarrow> tid (Suc l) va = tid l va * 512 + idx l va"
proof -
  assume "l < 3"
  then have s: "shift (Suc l) + 9 = shift l" by simp
  have d: "va div 2 ^ (shift l + 9) = va div 2 ^ shift l div 512" by (simp add: power_add div_mult2_eq)
  show ?thesis unfolding tid_def idx_def s d by (metis div_mult_mod_eq)
qed

lemma idx_less [simp]: "idx l va < 512"
  by (simp add: idx_def)

definition page_ok :: "u64 \<Rightarrow> bool" where
  "page_ok a \<longleftrightarrow> a \<noteq> 0 \<and> unat a mod 4096 = 0 \<and> unat a < 2 ^ 48"

lemma unat_slot: "page_ok a \<Longrightarrow> i < 512 \<Longrightarrow> unat (slot a i) = unat a + 8 * i"
  unfolding page_ok_def
  by (subst unat_add_u64) (auto simp: unat_word_ariths unat_of_nat)

lemma slot_eq_iff: "page_ok a \<Longrightarrow> page_ok b \<Longrightarrow> i < 512 \<Longrightarrow> j < 512 \<Longrightarrow> slot a i = slot b j \<longleftrightarrow> a = b \<and> i = j"
proof -
  assume a: "page_ok a" "page_ok b" "i < 512" "j < 512"
  have "a = b \<and> i = j" if "unat a + 8 * i = unat b + 8 * j"
  proof -
    have "(unat a + 8 * i) div 4096 = unat a div 4096" "(unat b + 8 * j) div 4096 = unat b div 4096"
      using a by (auto simp: page_ok_def)
    moreover have "unat a = unat a div 4096 * 4096" "unat b = unat b div 4096 * 4096" using a(1,2) by (auto simp: page_ok_def)
    ultimately have "unat a = unat b" using that by metis
    then show ?thesis using that by (simp add: word_unat_eq_iff)
  qed
  then show ?thesis using a unat_slot by (metis (no_types, lifting))
qed

lemma zero_page_slot:
  assumes "page_ok p" "page_ok b" "j < 512"
  shows "zero_page p mem (slot b j) = (if b = p then 0 else mem (slot b j))"
proof -
  have u: "unat (slot b j) = unat b + 8 * j" using unat_slot assms by simp
  obtain B where B: "unat b = 4096 * B" using assms(2) by (auto simp: page_ok_def)
  obtain P where P: "unat p = 4096 * P" using assms(1) by (auto simp: page_ok_def)
  have "slot b j - p < 0x1000 \<longleftrightarrow> b = p"
  proof
    assume l: "slot b j - p < 0x1000"
    then have "unat (slot b j - p) < 4096" by (simp add: word_less_nat_alt)
    then have "(if 4096 * P \<le> 4096 * B + 8 * j then 4096 * B + 8 * j - 4096 * P else 4096 * B + 8 * j + 2 ^ 64 - 4096 * P) < 4096"
      unfolding unat_sub_if' u B P by (simp split: if_splits)
    moreover have "4096 * P < 2 ^ 48" using assms(1) P by (simp add: page_ok_def)
    ultimately have "B = P" using assms(3) by (auto split: if_splits)
    then show "b = p" using B P by (simp add: word_unat_eq_iff)
  next
    assume "b = p"
    then show "slot b j - p < 0x1000" using assms(3) by (simp add: word_less_nat_alt unat_word_ariths unat_of_nat)
  qed
  then show ?thesis by (simp add: zero_page_def)
qed

lemma entry_index:
  assumes "l \<le> 3"
  shows "drop_bit (range_offset (attrs ! l)) (vir AND offset_mask (attrs ! l)) = word_of_nat (idx l (unat vir))"
proof -
  have s: "shift l + 9 \<le> 64" by simp
  have "drop_bit (shift l) (vir AND push_bit (shift l) (mask 9)) = take_bit 9 (drop_bit (shift l) vir)"
    using s by (intro bit_word_eqI) (auto simp: bit_simps)
  also have "\<dots> = word_of_nat (idx l (unat vir))"
    by (rule word_unat_eq_iff [THEN iffD2]) (simp add: unsigned_take_bit_eq unat_mod unat_drop_bit idx_def unat_of_nat take_bit_eq_mod)
  finally show ?thesis using assms by (simp add: attrs_nth)
qed

section \<open>Descriptors\<close>

lemma description_bits: "page_table_description f AND 0x0000fffffffff000 = 0"
  by (simp add: page_table_description_def arch_page_table_description_def arch_host_tt_description_def
    arch_guest_tt_description_def Let_def TT_defs)

lemma description_type:
  "f AND VM_DES_MASK = VM_DES_TABLE \<Longrightarrow> page_table_description f AND 3 = 3"
  "f AND VM_DES_MASK = VM_DES_BLOCK \<Longrightarrow> page_table_description f AND 3 = 1"
  "f AND VM_DES_MASK = VM_DES_PAGE \<Longrightarrow> page_table_description f AND 3 = 3"
  by (simp_all add: page_table_description_def arch_page_table_description_def arch_host_tt_description_def
    arch_guest_tt_description_def Let_def TT_defs VM_DES_TABLE_def VM_DES_BLOCK_def VM_DES_PAGE_def)

lemma flags_type:
  assumes "f AND VM_DES_MASK = 0" "d \<in> {VM_DES_TABLE, VM_DES_BLOCK, VM_DES_PAGE}"
  shows "(f OR d) AND VM_DES_MASK = d"
  using assms by (auto simp: bit.conj_disj_distrib2 VM_defs)

lemma addr_mask: "(0x0000fffffffff000 :: u64) = mask 48 AND NOT (mask 12)"
  by (simp add: mask_eq_exp_minus_1)

lemma disjoint_bits: "w AND m = 0 \<Longrightarrow> bit m n \<Longrightarrow> \<not> bit (w :: u64) n"
proof -
  assume z: "w AND m = 0" and m: "bit m n"
  show ?thesis using arg_cong [OF z, of "\<lambda>w. bit w n"] m unfolding bit_and_iff by simp
qed

lemma and_not_disjoint: "w AND m = 0 \<Longrightarrow> w AND NOT m = (w :: u64)"
  by (rule bit_word_eqI) (auto simp: bit_simps dest: disjoint_bits)

lemma aligned_and_mask:
  fixes w :: u64
  assumes "unat w mod 2 ^ k = 0" "unat w < 2 ^ 48" "12 \<le> k" "k \<le> 39"
  shows "w AND mask 48 AND NOT (mask k) = w" "w AND 3 = 0" "w AND NOT 0x0000fffffffff000 = 0" "w AND 0x0000fffffffff000 = w"
    "w AND NOT (mask 12) = w"
proof -
  have low: "take_bit k w = 0" using assms(1) by (metis take_bit_eq_mod unsigned_take_bit_eq unsigned_0 word_unat_eq_iff)
  have high: "take_bit 48 w = w" using assms(2) by (simp add: word_unat_eq_iff unsigned_take_bit_eq take_bit_eq_mod unat_mod)
  have b: "k \<le> n" if "bit w n" for n
    using arg_cong [OF low, of "\<lambda>w. bit w n"] that by (simp add: bit_take_bit_iff)
  have h: "n < 48" if "bit w n" for n
    using arg_cong [OF high, of "\<lambda>w. bit w n"] that by (simp add: bit_take_bit_iff)
  have m3: "(3 :: u64) = mask 2" by (simp add: mask_eq_exp_minus_1)
  note mh = addr_mask
  show "w AND mask 48 AND NOT (mask k) = w" by (intro bit_word_eqI) (auto simp: bit_simps dest: b h)
  show "w AND 3 = 0" unfolding m3 using assms(3) by (intro bit_word_eqI) (auto simp: bit_simps dest: b)
  show "w AND NOT 0x0000fffffffff000 = 0" unfolding mh using assms(3) by (intro bit_word_eqI) (auto simp: bit_simps dest: b h)
  show "w AND 0x0000fffffffff000 = w" unfolding mh using assms(3) by (intro bit_word_eqI) (auto simp: bit_simps dest: b h)
  show "w AND NOT (mask 12) = w" using assms(3) by (intro bit_word_eqI) (auto simp: bit_simps dest: b h)
qed

lemma DESC_MASK_12: "DESC_MASK 12 = NOT (mask 12)"
  by (simp add: DESC_MASK_def mask_eq_exp_minus_1)

section \<open>Ownership of the table pages\<close>

text \<open>
  \<open>own\<close> gives each table page its level and its number among the tables of that level; an entry that points to a
  table points to the one it should and has no attributes. So no two entries share a table, and no page is used at two levels.
\<close>

definition tables_ok :: "(u64 \<rightharpoonup> nat \<times> nat) \<Rightarrow> (u64 \<Rightarrow> u64) \<Rightarrow> bool" where
  "tables_ok own mem \<longleftrightarrow> (\<forall>a l t. own a = Some (l, t) \<longrightarrow> l \<le> 3 \<and> page_ok a \<and>
     (\<forall>i<512. let e = mem (slot a i) in
        (is_table l e \<and> e = taddr e OR 3 \<and> own (taddr e) = Some (l + 1, t * 512 + i)) \<or> is_leaf l e \<or> e = 0))"

lemma tables_okD:
  assumes "tables_ok own mem" "own a = Some (l, t)"
  shows "l \<le> 3" "page_ok a"
    "i < 512 \<Longrightarrow> (is_table l (mem (slot a i)) \<and> mem (slot a i) = taddr (mem (slot a i)) OR 3 \<and> own (taddr (mem (slot a i))) = Some (l + 1, t * 512 + i)) \<or>
       is_leaf l (mem (slot a i)) \<or> mem (slot a i) = 0"
  using assms unfolding tables_ok_def Let_def by blast+

lemma leaf_not_table: "is_leaf l e \<Longrightarrow> \<not> is_table l e"
  by (auto simp: is_leaf_def is_table_def split: if_splits)

lemma zero_entry [simp]: "\<not> is_table l 0" "\<not> is_leaf l 0"
  by (auto simp: is_leaf_def is_table_def)

lemma table_entry:
  assumes "tables_ok own mem" "own base = Some (l, tid l va)" "is_table l (mem (slot base (idx l va)))"
  shows "own (taddr (mem (slot base (idx l va)))) = Some (l + 1, tid (l + 1) va)"
proof -
  have "l < 3" using assms(3) by (simp add: is_table_def)
  moreover have "own (taddr (mem (slot base (idx l va)))) = Some (l + 1, tid l va * 512 + idx l va)"
    using tables_okD(3) [OF assms(1,2) idx_less [of l va]] assms(3) leaf_not_table zero_entry(1) by metis
  ultimately show ?thesis by (simp add: tid_Suc)
qed

lemma walk_cong:
  assumes "tables_ok own mem" "own base = Some (l, tid l va)"
    and "\<And>b k. own b = Some (k, tid k va) \<Longrightarrow> mem' (slot b (idx k va)) = mem (slot b (idx k va))"
  shows "walk mem' l base va = walk mem l base va"
  using assms
proof (induction mem l base va rule: walk.induct)
  case (1 mem l base va)
  have e: "mem' (slot base (idx l va)) = mem (slot base (idx l va))" using 1(4) [OF 1(3)] .
  show ?case
  proof (cases "is_table l (mem (slot base (idx l va)))")
    case True
    then have "own (taddr (mem (slot base (idx l va)))) = Some (l + 1, tid (l + 1) va)" by (rule table_entry [OF 1(2,3)])
    then have "walk mem' (l + 1) (taddr (mem (slot base (idx l va)))) va = walk mem (l + 1) (taddr (mem (slot base (idx l va)))) va"
      using 1(1) [OF refl True 1(2)] 1(4) by blast
    then show ?thesis using True e by (subst (1 2) walk.simps) (simp add: Let_def)
  next
    case False
    then show ?thesis using e by (subst (1 2) walk.simps) (simp add: Let_def)
  qed
qed

section \<open>Leaf entries\<close>

abbreviation leaf_type :: "nat \<Rightarrow> u64" where
  "leaf_type k \<equiv> (if k = 3 then VM_DES_PAGE else VM_DES_BLOCK)"

text \<open>The descriptor that maps the address \<open>va\<close> to \<open>pa\<close> at level \<open>k\<close>.\<close>

definition maps_to :: "u64 \<Rightarrow> nat \<Rightarrow> nat \<Rightarrow> u64 \<times> nat \<Rightarrow> bool" where
  "maps_to flags va pa ek \<longleftrightarrow> (case ek of (e, k) \<Rightarrow> k \<in> {2, 3} \<and> pa mod 2 ^ shift k = va mod 2 ^ shift k \<and> pa < 2 ^ 48 \<and>
     e = page_table_description (flags OR leaf_type k) OR word_of_nat (pa - pa mod 2 ^ shift k))"

lemma leaf_desc:
  assumes "flags AND VM_DES_MASK = 0" "k \<in> {2, 3}" "a mod 2 ^ shift k = 0" "a < 2 ^ 48"
  defines "e \<equiv> page_table_description (flags OR leaf_type k) OR word_of_nat a"
  shows "is_leaf k e" "unat (e AND mask 48 AND NOT (mask (shift k))) = a"
    "e AND NOT 0x0000fffffffff000 = page_table_description (flags OR leaf_type k)"
proof -
  let ?d = "page_table_description (flags OR leaf_type k)"
  have u: "unat (word_of_nat a :: u64) = a" using assms(4) by (simp add: unat_of_nat)
  have k: "12 \<le> shift k" "shift k \<le> 39" using assms(2) by auto
  note m = aligned_and_mask [of "word_of_nat a" "shift k", unfolded u, OF assms(3,4) k]
  have t: "?d AND 3 = (if k = 3 then 3 else 1)"
    using description_type flags_type [OF assms(1)] assms(2) by auto
  show "is_leaf k e" using t m(2) assms(2) by (auto simp: e_def is_leaf_def bit.conj_disj_distrib2)
  have z: "?d AND mask 48 AND NOT (mask (shift k)) = 0"
  proof -
    have "n < 12" if "n < 48" "bit ?d n" for n
      using disjoint_bits [OF description_bits, of n] that unfolding addr_mask by (fastforce simp: bit_simps)
    then show ?thesis using k by (intro bit_word_eqI) (fastforce simp: bit_simps)
  qed
  show "unat (e AND mask 48 AND NOT (mask (shift k))) = a"
    unfolding e_def bit.conj_disj_distrib2 z m(1) by (simp add: u)
  show "e AND NOT 0x0000fffffffff000 = ?d"
  proof -
    have "?d = ?d AND NOT 0x0000fffffffff000"
      by (rule and_not_disjoint [OF description_bits, symmetric])
    then show ?thesis using m(3) by (simp add: e_def bit.conj_disj_distrib2)
  qed
qed

lemma unat_of_nat_48: "n < 2 ^ 48 \<Longrightarrow> unat (word_of_nat n :: u64) = n"
  by (simp add: unat_of_nat)

lemma unat_of_nat_index: "n < 1024 \<Longrightarrow> unat (word_of_nat n :: u32) = n"
  by (simp add: unat_of_nat)

lemma ucast_index: "n < 1024 \<Longrightarrow> ucast (word_of_nat n :: u64) = (word_of_nat n :: u32)"
  unfolding word_unat_eq_iff unsigned_ucast_eq using unat_of_nat_48 [of n] unat_of_nat_index [of n] by (simp add: take_bit_eq_mod)

lemma fold_slots:
  assumes "page_ok T" "page_ok b" "i < 512" "i0 + n \<le> 512"
  shows "fold (\<lambda>j mem. mem(slot T (i0 + j) := f j)) [0..<n] mem (slot b i) =
    (if b = T \<and> i0 \<le> i \<and> i < i0 + n then f (i - i0) else mem (slot b i))"
  using assms(4)
proof (induction n)
  case (Suc n)
  then show ?case using slot_eq_iff [OF assms(2,1,3), of "i0 + n"] by auto
qed auto

lemma create_page_entry_slots:
  assumes k: "lvl info = k" "config info = k" "k \<in> {2, 3}" and T: "page_ok (table_base info)"
    and al: "unat (m_size info) mod 2 ^ shift k = 0" "unat (phy_base info) mod 2 ^ shift k = 0"
    and fit: "idx k (unat (vir_base info)) + unat (m_size info) div 2 ^ shift k \<le> 512"
      "unat (phy_base info) + unat (m_size info) \<le> 2 ^ 48"
    and b: "page_ok b" "i < 512"
  shows "pt_mem (create_page_entry info st) (slot b i) =
    (let i0 = idx k (unat (vir_base info)) in
     if b = table_base info \<and> i0 \<le> i \<and> i < i0 + unat (m_size info) div 2 ^ shift k
     then page_table_description (m_flags info OR leaf_type k) OR word_of_nat (unat (phy_base info) + (i - i0) * 2 ^ shift k)
     else pt_mem st (slot b i))"
proof -
  let ?i0 = "idx k (unat (vir_base info))" and ?s = "2 ^ shift k :: nat" and ?P = "unat (phy_base info)"
  define n where "n = unat (m_size info) div ?s"
  define f where "f j = page_table_description (m_flags info OR leaf_type k) OR word_of_nat (?P + j * ?s)" for j
  have k3: "k \<le> 3" and k12: "12 \<le> shift k" using k(3) by auto
  have n: "unat (drop_bit (range_offset (attrs ! config info)) (m_size info)) = n"
    using k3 by (simp add: k(2) attrs_nth unat_drop_bit n_def)
  have val: "(phy_base info + word_of_nat j * map_size (attrs ! k)) AND DESC_MASK (des_offset (attrs ! k)) = word_of_nat (?P + j * ?s)"
    if j: "j < n" for j
  proof -
    have "j * ?s + ?s \<le> n * ?s" using j by (metis Suc_leI add.commute mult_Suc mult_le_mono1)
    moreover have "n * ?s = unat (m_size info)" unfolding n_def using al(1) by (metis add.right_neutral div_mult_mod_eq)
    moreover have "0 < ?s" by simp
    ultimately have lt: "?P + j * ?s < 2 ^ 48" using fit(2) by linarith
    have w: "phy_base info + word_of_nat j * map_size (attrs ! k) = word_of_nat (?P + j * ?s)"
      using k3 by (simp add: attrs_nth)
    have u: "unat (word_of_nat (?P + j * ?s) :: u64) = ?P + j * ?s" using lt by (rule unat_of_nat_48)
    have "(?P + j * ?s) mod 2 ^ shift k = 0" using al(2) by simp
    then have "word_of_nat (?P + j * ?s) AND NOT (mask 12) = (word_of_nat (?P + j * ?s) :: u64)"
      using aligned_and_mask(5) [of "word_of_nat (?P + j * ?s)" "shift k", unfolded u] lt k12 by simp
    then show ?thesis unfolding w attrs_nth(2) [OF k3] DESC_MASK_12 .
  qed
  have adr: "table_base info + 8 * ucast ((ucast (drop_bit (range_offset (attrs ! k)) (vir_base info AND offset_mask (attrs ! k))) :: u32)
     + word_of_nat j) = slot (table_base info) (?i0 + j)" if "j < n" for j
  proof -
    have u: "unat ((word_of_nat ?i0 :: u32) + word_of_nat j) = ?i0 + j"
      using fit(1) that unat_of_nat_index [of "?i0 + j"] by (simp add: n_def)
    have lt: "?i0 + j < 2 ^ 48" using fit(1) that by (simp add: n_def)
    have "unat (ucast ((word_of_nat ?i0 :: u32) + word_of_nat j) :: u64) = unat (word_of_nat (?i0 + j) :: u64)"
      unfolding unsigned_ucast_eq u unat_of_nat_48 [OF lt] using lt by (simp add: take_bit_eq_mod)
    then have "ucast ((word_of_nat ?i0 :: u32) + word_of_nat j) = (word_of_nat (?i0 + j) :: u64)"
      unfolding word_unat_eq_iff .
    moreover have "ucast (word_of_nat ?i0 :: u64) = (word_of_nat ?i0 :: u32)" by (rule ucast_index [OF less_trans [OF idx_less]]) simp
    ultimately show ?thesis unfolding entry_index [OF k3] by simp
  qed
  have "pt_mem (create_page_entry info st) = fold (\<lambda>j mem. mem(slot (table_base info) (?i0 + j) := f j)) [0..<n] (pt_mem st)"
  proof -
    have "(if lvl info \<noteq> 3 then VM_DES_BLOCK else VM_DES_PAGE) = leaf_type k" by (simp add: k)
    then show ?thesis
      unfolding create_page_entry_def Let_def n
      using adr val by (auto simp: f_def k(2) intro!: fold_cong)
  qed
  then show ?thesis by (simp only: fold_slots [OF T b fit(1) [folded n_def]] f_def n_def [symmetric] Let_def)
qed

section \<open>Added mappings\<close>

text \<open>
  From \<open>mem\<close> to \<open>mem'\<close>, the addresses from \<open>V\<close> on are mapped to those from \<open>P\<close> on, by the table \<open>base\<close> of level
  \<open>l\<close>, and every other walk ends as before; the tables above \<open>l\<close> are not written.
\<close>

definition added :: "u64 \<Rightarrow> nat \<Rightarrow> nat \<Rightarrow> nat \<Rightarrow> nat \<Rightarrow> u64 \<Rightarrow> (u64 \<rightharpoonup> nat \<times> nat) \<Rightarrow> (u64 \<Rightarrow> u64) \<Rightarrow> (u64 \<rightharpoonup> nat \<times> nat) \<Rightarrow> (u64 \<Rightarrow> u64) \<Rightarrow> bool" where
  "added flags V P S l base own mem own' mem' \<longleftrightarrow> own \<subseteq>\<^sub>m own' \<and> tables_ok own' mem' \<and>
     (\<forall>va. V \<le> va \<and> va < V + S \<longrightarrow> (\<exists>ek. walk mem' l base va = Some ek \<and> maps_to flags va (P + (va - V)) ek)) \<and>
     (\<forall>b k va. own b = Some (k, tid k va) \<longrightarrow> \<not> (V \<le> va \<and> va < V + S) \<longrightarrow> walk mem' k b va = walk mem k b va) \<and>
     (\<forall>b k t i. own b = Some (k, t) \<longrightarrow> k < l \<longrightarrow> i < 512 \<longrightarrow> mem' (slot b i) = mem (slot b i))"

lemma addedI:
  assumes "own \<subseteq>\<^sub>m own'" "tables_ok own' mem'"
    and "\<And>va. V \<le> va \<Longrightarrow> va < V + S \<Longrightarrow> \<exists>ek. walk mem' l base va = Some ek \<and> maps_to flags va (P + (va - V)) ek"
    and "\<And>b k va. own b = Some (k, tid k va) \<Longrightarrow> \<not> (V \<le> va \<and> va < V + S) \<Longrightarrow> walk mem' k b va = walk mem k b va"
    and "\<And>b k t i. own b = Some (k, t) \<Longrightarrow> k < l \<Longrightarrow> i < 512 \<Longrightarrow> mem' (slot b i) = mem (slot b i)"
  shows "added flags V P S l base own mem own' mem'"
  using assms unfolding added_def by blast

lemma addedD:
  assumes "added flags V P S l base own mem own' mem'"
  shows "own \<subseteq>\<^sub>m own'" "tables_ok own' mem'"
    "V \<le> va \<Longrightarrow> va < V + S \<Longrightarrow> \<exists>ek. walk mem' l base va = Some ek \<and> maps_to flags va (P + (va - V)) ek"
    "own b = Some (k, tid k va) \<Longrightarrow> \<not> (V \<le> va \<and> va < V + S) \<Longrightarrow> walk mem' k b va = walk mem k b va"
    "own b = Some (k, t) \<Longrightarrow> k < l \<Longrightarrow> i < 512 \<Longrightarrow> mem' (slot b i) = mem (slot b i)"
    "own b = Some x \<Longrightarrow> own' b = Some x"
proof -
  note d = assms [unfolded added_def]
  show "own \<subseteq>\<^sub>m own'" "tables_ok own' mem'" using d by simp_all
  then show "own b = Some x \<Longrightarrow> own' b = Some x" by (metis domI map_le_def)
  show "V \<le> va \<Longrightarrow> va < V + S \<Longrightarrow> \<exists>ek. walk mem' l base va = Some ek \<and> maps_to flags va (P + (va - V)) ek"
    "own b = Some (k, tid k va) \<Longrightarrow> \<not> (V \<le> va \<and> va < V + S) \<Longrightarrow> walk mem' k b va = walk mem k b va"
    "own b = Some (k, t) \<Longrightarrow> k < l \<Longrightarrow> i < 512 \<Longrightarrow> mem' (slot b i) = mem (slot b i)" using d by blast+
qed

lemma tid_eq: "t * 2 ^ (shift l + 9) \<le> va \<Longrightarrow> va < (t + 1) * 2 ^ (shift l + 9) \<Longrightarrow> tid l va = t"
  unfolding tid_def by (intro div_nat_eqI) (simp_all add: mult.commute)

lemma sn_eq: "va div 2 ^ shift l = tid l va * 512 + idx l va"
proof -
  have "va div 2 ^ (shift l + 9) = va div 2 ^ shift l div 512" by (simp add: power_add div_mult2_eq)
  then show ?thesis unfolding tid_def idx_def by simp
qed

lemma added_trans:
  assumes a: "added flags V P N l base own mem own1 mem1" and b: "added flags (V + N) (P + N) (S - N) l base own1 mem1 own2 mem2"
    and N: "N \<le> S" and base: "own base = Some (l, t)" "t * 2 ^ (shift l + 9) \<le> V" "V + S \<le> (t + 1) * 2 ^ (shift l + 9)"
  shows "added flags V P S l base own mem own2 mem2"
proof (rule addedI)
  show "own \<subseteq>\<^sub>m own2" using addedD(1) [OF a] addedD(1) [OF b] by (rule map_le_trans)
  show "tables_ok own2 mem2" by (rule addedD(2) [OF b])
  show "\<exists>ek. walk mem2 l base va = Some ek \<and> maps_to flags va (P + (va - V)) ek" if va: "V \<le> va" "va < V + S" for va
  proof (cases "va < V + N")
    case True
    have "tid l va = t" using base(2,3) va by (intro tid_eq) linarith+
    then have "own1 base = Some (l, tid l va)" using addedD(6) [OF a base(1)] by simp
    then have "walk mem2 l base va = walk mem1 l base va" using True by (intro addedD(4) [OF b]) auto
    then show ?thesis using addedD(3) [OF a va(1) True] by simp
  next
    case False
    then have "\<exists>ek. walk mem2 l base va = Some ek \<and> maps_to flags va (P + N + (va - (V + N))) ek"
      using va N by (intro addedD(3) [OF b]) linarith+
    moreover have "P + N + (va - (V + N)) = P + (va - V)" using False by linarith
    ultimately show ?thesis by simp
  qed
  show "walk mem2 k c va = walk mem k c va" if "own c = Some (k, tid k va)" "\<not> (V \<le> va \<and> va < V + S)" for c k va
  proof -
    have "walk mem2 k c va = walk mem1 k c va" using that N by (intro addedD(4) [OF b] addedD(6) [OF a]) linarith+
    also have "\<dots> = walk mem k c va" using that N by (intro addedD(4) [OF a]) linarith+
    finally show ?thesis .
  qed
  show "mem2 (slot c i) = mem (slot c i)" if "own c = Some (k, t)" "k < l" "i < 512" for c k t i
    using addedD(5) [OF a that] addedD(5) [OF b addedD(6) [OF a that(1)] that(2,3)] by simp
qed

lemma walk_down:
  assumes "is_table l (mem (slot base (idx l va)))"
  shows "walk mem l base va = walk mem (l + 1) (taddr (mem (slot base (idx l va)))) va"
  using assms by (subst walk.simps) (simp add: Let_def)

lemma walk_leaf:
  assumes "is_leaf l (mem (slot base (idx l va)))"
  shows "walk mem l base va = Some (mem (slot base (idx l va)), l)"
  using assms leaf_not_table [OF assms] by (subst walk.simps) (simp add: Let_def)

lemma added_up:
  assumes a: "added flags V P N (l + 1) T own1 mem1 own2 mem2" and base: "own1 base = Some (l, t)"
    and e: "is_table l (mem1 (slot base i))" "taddr (mem1 (slot base i)) = T" "i < 512"
    and part: "\<And>va. V \<le> va \<Longrightarrow> va < V + N \<Longrightarrow> idx l va = i"
  shows "added flags V P N l base own1 mem1 own2 mem2"
proof (rule addedI)
  have m: "mem2 (slot base i) = mem1 (slot base i)" using e(3) by (intro addedD(5) [OF a base]) simp_all
  show "\<exists>ek. walk mem2 l base va = Some ek \<and> maps_to flags va (P + (va - V)) ek" if va: "V \<le> va" "va < V + N" for va
    using walk_down [of l mem2 base va] part [OF va] m e(1,2) addedD(3) [OF a va] by simp
  show "mem2 (slot c j) = mem1 (slot c j)" if "own1 c = Some (k, t')" "k < l" "j < 512" for c k t' j
    by (rule addedD(5) [OF a that(1) less_trans [OF that(2)] that(3)]) simp
qed (rule addedD(1) [OF a] addedD(2) [OF a] addedD(4) [OF a]; assumption)+

text \<open>A prefix that changes no walk, as the allocation of a table does, can be put before.\<close>

lemma added_after:
  assumes a: "added flags V P N l base own1 mem1 own2 mem2" and le: "own \<subseteq>\<^sub>m own1"
    and w: "\<And>b k va. own b = Some (k, tid k va) \<Longrightarrow> walk mem1 k b va = walk mem k b va"
    and m: "\<And>b k t i. own b = Some (k, t) \<Longrightarrow> k < l \<Longrightarrow> i < 512 \<Longrightarrow> mem1 (slot b i) = mem (slot b i)"
  shows "added flags V P N l base own mem own2 mem2"
proof -
  have up: "own1 b = Some x" if "own b = Some x" for b x using le that by (metis domI map_le_def)
  show ?thesis
  proof (rule addedI)
    show "own \<subseteq>\<^sub>m own2" using le addedD(1) [OF a] by (rule map_le_trans)
    show "walk mem2 k b va = walk mem k b va" if "own b = Some (k, tid k va)" "\<not> (V \<le> va \<and> va < V + N)" for b k va
      using addedD(4) [OF a up [OF that(1)] that(2)] w [OF that(1)] by simp
    show "mem2 (slot b i) = mem (slot b i)" if "own b = Some (k, t)" "k < l" "i < 512" for b k t i
      using addedD(5) [OF a up [OF that(1)] that(2,3)] m [OF that] by simp
  qed (rule addedD(2) [OF a] addedD(3) [OF a]; assumption)+
qed

lemma new_table:
  assumes ok: "tables_ok own mem" and base: "own base = Some (l, t)" "i < 512" "mem (slot base i) = 0" "l < 3"
    and p: "page_ok p" "own p = None" and d: "is_table l d" "taddr d = p" "d = p OR 3"
  defines "own1 \<equiv> own(p \<mapsto> (l + 1, t * 512 + i))" and "mem1 \<equiv> (zero_page p mem)(slot base i := d)"
  shows "tables_ok own1 mem1" "\<And>va. walk mem1 (l + 1) p va = None"
    "\<And>b k va. own b = Some (k, tid k va) \<Longrightarrow> walk mem1 k b va = walk mem k b va"
    "\<And>b k t j. own b = Some (k, t) \<Longrightarrow> k < l \<Longrightarrow> j < 512 \<Longrightarrow> mem1 (slot b j) = mem (slot b j)"
proof -
  have pb: "page_ok base" using tables_okD(2) [OF ok base(1)] .
  have m: "mem1 (slot b j) = (if b = base \<and> j = i then d else if b = p then 0 else mem (slot b j))" if "page_ok b" "j < 512" for b j
    using that pb p(1) base(2) by (simp add: mem1_def slot_eq_iff zero_page_slot)
  have np: "base \<noteq> p" using base(1) p(2) by auto
  have keep: "own1 b = Some x" if "own b = Some x" for b x using that p(2) by (auto simp: own1_def)
  show "tables_ok own1 mem1"
    unfolding tables_ok_def
  proof (intro allI impI)
    fix b k t'
    assume o: "own1 b = Some (k, t')"
    show "k \<le> 3 \<and> page_ok b \<and> (\<forall>j<512. let e = mem1 (slot b j) in
        (is_table k e \<and> e = taddr e OR 3 \<and> own1 (taddr e) = Some (k + 1, t' * 512 + j)) \<or> is_leaf k e \<or> e = 0)"
    proof (cases "b = p")
      case True
      then show ?thesis using o base(4) p(1) np by (auto simp: own1_def m)
    next
      case False
      then have ob: "own b = Some (k, t')" using o by (simp add: own1_def)
      note b = tables_okD [OF ok ob]
      have "(is_table k (mem1 (slot b j)) \<and> mem1 (slot b j) = taddr (mem1 (slot b j)) OR 3 \<and> own1 (taddr (mem1 (slot b j))) = Some (k + 1, t' * 512 + j)) \<or>
          is_leaf k (mem1 (slot b j)) \<or> mem1 (slot b j) = 0" if j: "j < 512" for j
      proof (cases "b = base \<and> j = i")
        case True
        then have "mem1 (slot b j) = d" "k = l" "t' = t" using m [OF b(2) j] base(1) ob by auto
        then show ?thesis using d True by (simp only: own1_def fun_upd_same simp_thms)
      next
        case other: False
        then have "mem1 (slot b j) = mem (slot b j)" using m [OF b(2) j] False by auto
        then show ?thesis using b(3) [OF j] keep by (simp only:) blast
      qed
      then show ?thesis using b(1,2) by (simp add: Let_def)
    qed
  qed
  show z: "walk mem1 (l + 1) p va = None" for va
    using m [OF p(1) idx_less] np by (subst walk.simps) (simp add: Let_def)
  show "mem1 (slot b j) = mem (slot b j)" if "own b = Some (k, t)" "k < l" "j < 512" for b k t j
    using m [OF tables_okD(2) [OF ok that(1)] that(3)] that base(1) p(2) by auto
  show "walk mem1 k b va = walk mem k b va" if "own b = Some (k, tid k va)" for b k va
    using ok that m base(1,3) d(1,2) z p(2)
  proof (induction mem k b va rule: walk.induct)
    case (1 mem k b va)
    let ?e = "mem (slot b (idx k va))"
    have pb: "page_ok b" by (rule tables_okD(2) [OF 1(2,3)])
    show ?case
    proof (cases "b = base \<and> idx k va = i")
      case True
      then have k: "k = l" using 1(3,5) by simp
      have "walk mem1 k b va = walk mem1 (l + 1) p va"
        using walk_down [of l mem1 b va] 1(4) [OF pb idx_less, of k va] True 1(7,8) k by simp
      moreover have "walk mem k b va = None" using True 1(6) k by (subst walk.simps) (simp add: Let_def)
      ultimately show ?thesis using 1(9) by simp
    next
      case False
      have "b \<noteq> p" using 1(3,10) by auto
      then have e: "mem1 (slot b (idx k va)) = ?e" using 1(4) [OF pb idx_less, of k va] False by auto
      show ?thesis
      proof (cases "is_table k ?e")
        case True
        have "walk mem1 (k + 1) (taddr ?e) va = walk mem (k + 1) (taddr ?e) va"
          by (rule 1(1) [OF refl True 1(2) table_entry [OF 1(2,3) True] 1(4-10)])
        then show ?thesis using True e by (subst (1 2) walk.simps) (simp add: Let_def)
      next
        case False
        then show ?thesis using e by (subst (1 2) walk.simps) (simp add: Let_def)
      qed
    qed
  qed
qed

end
