(* ===== verification/Mmu_Map.thy ===== *)
theory Mmu_Map
  imports Mmu_Walk
begin

text \<open>
  \<^verbatim>\<open>create_mem_mapping\<close> adds exactly the mapping it is asked for, as long as the page allocator has pages
  for the tables.
\<close>

section \<open>Entries that map\<close>

lemma leaf_added:
  assumes ok: "tables_ok own (pt_mem st)" and T: "own (table_base info) = Some (k, t)" and k: "lvl info = k" "config info = k" "k \<in> {2, 3}"
    and fl: "m_flags info AND VM_DES_MASK = 0"
    and V: "unat (vir_base info) = V" "V mod 2 ^ shift k = 0" "t * 2 ^ (shift k + 9) \<le> V"
    and S: "unat (m_size info) = S" "S mod 2 ^ shift k = 0" "V + S \<le> (t + 1) * 2 ^ (shift k + 9)" "0 < S"
    and P: "unat (phy_base info) = P" "P mod 2 ^ shift k = 0" "P + S \<le> 2 ^ 48"
  shows "added (m_flags info) V P S k (table_base info) own (pt_mem st) own (pt_mem (create_page_entry info st))"
proof -
  define s :: nat where "s = 2 ^ shift k"
  have s0: "0 < s" by (simp add: s_def)
  define v n where "v = V div s" and "n = S div s"
  have Vs: "V = v * s" and Ss: "S = n * s" using V(2) S(2) unfolding v_def n_def s_def by (metis add.right_neutral div_mult_mod_eq)+
  have big: "2 ^ (shift k + 9) = 512 * s" by (simp add: s_def power_add)
  have tV: "tid k V = t" using V(3) S(3,4) by (intro tid_eq) linarith+
  let ?i0 = "idx k V"
  have v: "v = t * 512 + ?i0" using sn_eq [of V k] tV unfolding v_def s_def by simp
  have "(v + n) * s \<le> ((t + 1) * 512) * s" using S(3) unfolding Vs Ss big by (simp add: algebra_simps)
  then have vn: "v + n \<le> (t + 1) * 512" using s0 mult_le_cancel2 by blast
  then have fit: "?i0 + S div s \<le> 512" unfolding n_def [symmetric] v by simp
  let ?m = "pt_mem (create_page_entry info st)"
  let ?d = "\<lambda>i. page_table_description (m_flags info OR leaf_type k) OR word_of_nat (P + (i - ?i0) * s)"
  have m: "?m (slot b i) = (if b = table_base info \<and> ?i0 \<le> i \<and> i < ?i0 + n then ?d i else pt_mem st (slot b i))"
    if "page_ok b" "i < 512" for b i
    using create_page_entry_slots [OF k tables_okD(2) [OF ok T] _ _ _ _ that] S(1,2) P V(1) fit
    by (simp add: Let_def s_def n_def)
  have leaf: "is_leaf k (?d i)" if "i < ?i0 + n" "?i0 \<le> i" for i
  proof -
    have "(i - ?i0) * s + s \<le> n * s" using that by (metis Suc_leI add.commute diff_less_mono2 less_diff_conv2 mult_Suc mult_le_mono1)
    then have "P + (i - ?i0) * s < 2 ^ 48" using P(3) s0 unfolding Ss by linarith
    then show ?thesis using P(2) by (intro leaf_desc(1) [OF fl k(3)]) (simp_all add: s_def)
  qed
  have range: "V \<le> va \<and> va < V + S" if "tid k va = t" "?i0 \<le> idx k va" "idx k va < ?i0 + n" for va
  proof -
    have "v \<le> va div s" "va div s < v + n" using sn_eq [of va k] that unfolding v s_def by simp_all
    then show ?thesis unfolding Vs Ss using s0 by (metis add_mult_distrib div_le_mono div_mult_self_is_m less_mult_imp_div_less linorder_not_less mult.commute times_div_less_eq_dividend order.trans mult_le_mono2 dividend_less_div_times)
  qed
  show ?thesis
  proof (rule addedI)
    show "own \<subseteq>\<^sub>m own" by simp
    show "tables_ok own ?m"
      unfolding tables_ok_def
    proof (intro allI impI)
      fix b l t'
      assume o: "own b = Some (l, t')"
      have "(is_table l (?m (slot b j)) \<and> ?m (slot b j) = taddr (?m (slot b j)) OR 3 \<and> own (taddr (?m (slot b j))) = Some (l + 1, t' * 512 + j)) \<or>
          is_leaf l (?m (slot b j)) \<or> ?m (slot b j) = 0" if j: "j < 512" for j
        using m [OF tables_okD(2) [OF ok o] j] tables_okD(3) [OF ok o j] leaf [of j] o T by (auto split: if_splits)
      then show "l \<le> 3 \<and> page_ok b \<and> (\<forall>j<512. let e = ?m (slot b j) in
          (is_table l e \<and> e = taddr e OR 3 \<and> own (taddr e) = Some (l + 1, t' * 512 + j)) \<or> is_leaf l e \<or> e = 0)"
        using tables_okD(1,2) [OF ok o] by (simp add: Let_def)
    qed
    show "walk ?m l b va = walk (pt_mem st) l b va" if o: "own b = Some (l, tid l va)" "\<not> (V \<le> va \<and> va < V + S)" for b l va
    proof (rule walk_cong [OF ok o(1)])
      fix c l'
      assume c: "own c = Some (l', tid l' va)"
      show "?m (slot c (idx l' va)) = pt_mem st (slot c (idx l' va))"
        using m [OF tables_okD(2) [OF ok c] idx_less] c T range o(2) by (auto split: if_splits)
    qed
    show "?m (slot b i) = pt_mem st (slot b i)" if "own b = Some (l, t')" "l < k" "i < 512" for b l t' i
      using m [OF tables_okD(2) [OF ok that(1)] that(3)] that T by auto
    show "\<exists>ek. walk ?m k (table_base info) va = Some ek \<and> maps_to (m_flags info) va (P + (va - V)) ek" if va: "V \<le> va" "va < V + S" for va
    proof -
      have t: "tid k va = t" using V(3) S(3) va by (intro tid_eq) linarith+
      define q where "q = va div s - v"
      have "v \<le> va div s" using va(1) s0 unfolding v_def by (intro div_le_mono)
      moreover have "va div s < v + n" using va(2) s0 unfolding Vs Ss by (metis add_mult_distrib less_mult_imp_div_less)
      ultimately have i: "idx k va = ?i0 + q" "q < n" using sn_eq [of va k] t unfolding q_def v s_def by auto
      have e: "?m (slot (table_base info) (idx k va)) = ?d (idx k va)"
        unfolding m [OF tables_okD(2) [OF ok T] idx_less] using i by (simp only: if_True le_add1 nat_add_left_cancel_less simp_thms)
      have l: "is_leaf k (?d (idx k va))" by (rule leaf) (simp_all add: i)
      have w: "walk ?m k (table_base info) va = Some (?d (idx k va), k)"
        using walk_leaf [of k ?m "table_base info" va] l unfolding e .
      obtain p where p: "P = p * s" using P(2) unfolding s_def by (metis add.right_neutral div_mult_mod_eq)
      have "va = (v + q) * s + va mod s" using \<open>v \<le> va div s\<close> unfolding q_def by simp
      then have pa: "P + (va - V) = (p + q) * s + va mod s" unfolding p Vs by (simp add: algebra_simps)
      then have r: "(P + (va - V)) mod s = va mod s" by simp
      from r pa have b: "P + (va - V) - (P + (va - V)) mod s = P + (idx k va - ?i0) * s" unfolding p i by (simp add: algebra_simps)
      have "P + (va - V) < 2 ^ 48" using P(3) va by linarith
      then have "maps_to (m_flags info) va (P + (va - V)) (?d (idx k va), k)"
        unfolding maps_to_def prod.case s_def [symmetric] b using r k(3) by blast
      then show ?thesis using w by blast
    qed
  qed
qed

section \<open>Pages for the tables\<close>

text \<open>The next \<open>n\<close> pages that the allocator hands out are good pages, different from each other and outside \<open>U\<close>.\<close>

fun page_supply :: "nat \<Rightarrow> u64 set \<Rightarrow> mm \<Rightarrow> bool" where
  "page_supply 0 U m = True"
| "page_supply (Suc n) U m =
    (case alloc_pages 1 1 m of
       Some (Some page, m') \<Rightarrow>
         let p = page_to_addr m' page in page_ok p \<and> p \<notin> U \<and> page_supply n (insert p U) m'
     | _ \<Rightarrow> False)"

lemma page_supplyD:
  assumes "page_supply (Suc n) U m"
  obtains page m' where "alloc_pages 1 1 m = Some (Some page, m')" "page_ok (page_to_addr m' page)" "page_to_addr m' page \<notin> U"
    "page_supply n (insert (page_to_addr m' page) U) m'"
  using assms that unfolding page_supply.simps Let_def by (cases "alloc_pages 1 1 m") (auto split: prod.splits option.splits)

lemma page_supply_mono: "page_supply n U m \<Longrightarrow> k \<le> n \<Longrightarrow> page_supply k U m"
proof (induction n arbitrary: U m k)
  case (Suc n)
  from page_supplyD [OF Suc.prems(1)] obtain page m' where a: "alloc_pages 1 1 m = Some (Some page, m')" "page_ok (page_to_addr m' page)"
    "page_to_addr m' page \<notin> U" "page_supply n (insert (page_to_addr m' page) U) m'" by blast
  show ?case
  proof (cases k)
    case (Suc j)
    then have "page_supply j (insert (page_to_addr m' page) U) m'" using Suc.IH [OF a(4)] Suc.prems(2) by simp
    then show ?thesis using a Suc by simp
  qed simp
qed simp

text \<open>How the state of the allocator changes while pages are taken.\<close>

abbreviation page_step :: "mm \<Rightarrow> mm \<Rightarrow> bool" where
  "page_step m m' \<equiv> \<exists>page. alloc_pages 1 1 m = Some (Some page, m')"

abbreviation page_steps :: "mm \<Rightarrow> mm \<Rightarrow> bool" where
  "page_steps \<equiv> page_step\<^sup>*\<^sup>*"

text \<open>The number of entries of level \<open>k\<close> that a range touches, and a bound for the tables below level \<open>l\<close>.\<close>

definition touched :: "nat \<Rightarrow> nat \<Rightarrow> nat \<Rightarrow> nat" where
  "touched k V S = (V + S - 1) div 2 ^ shift k + 1 - V div 2 ^ shift k"

definition need_tables :: "nat \<Rightarrow> nat \<Rightarrow> nat \<Rightarrow> nat" where
  "need_tables l V S = (if S = 0 then 0 else sum_list (map (\<lambda>k. touched k V S) [l..<3]))"

lemma div_pred:
  assumes "0 < c" "0 < s" shows "(c * s - 1) div s = c - (1 :: nat)"
proof -
  obtain d where d: "c = Suc d" using assms(1) by (cases c) auto
  have e: "c * s - 1 = (s - 1) + s * d" unfolding d using assms(2) by (simp add: mult.commute)
  have "(c * s - 1) div s = d" unfolding e using assms(2) by (intro div_nat_eqI) simp_all
  then show ?thesis by (simp add: d)
qed

lemma touched_split:
  assumes "V < B" "0 < R" "2 ^ shift k dvd B"
  shows "touched k V (B - V + R) = touched k V (B - V) + touched k B R"
proof -
  obtain c where c: "B = c * 2 ^ shift k" using assms(3) by (metis dvd_def mult.commute)
  have "0 < c" using assms(1) c by (cases c) auto
  then have "(B - 1) div 2 ^ shift k = c - 1" unfolding c by (intro div_pred) simp_all
  moreover have "V div 2 ^ shift k < c" using assms(1) unfolding c by (rule less_mult_imp_div_less)
  moreover have "c \<le> (B + R - 1) div 2 ^ shift k" using assms(2) unfolding c by (metis add_diff_assoc div_le_mono div_mult_self_is_m le_add1 less_one linorder_not_less zero_less_numeral zero_less_power Suc_leI One_nat_def)
  ultimately show ?thesis using assms(1) \<open>0 < c\<close> c by (simp add: touched_def)
qed

lemma touched_one: "0 < N \<Longrightarrow> V + N \<le> (V div 2 ^ shift l + 1) * 2 ^ shift l \<Longrightarrow> touched l V N = 1"
proof -
  assume N: "0 < N" "V + N \<le> (V div 2 ^ shift l + 1) * 2 ^ shift l"
  have "(V + N - 1) div 2 ^ shift l = V div 2 ^ shift l"
    using N by (intro div_nat_eqI) (auto simp: algebra_simps intro: order.trans [OF times_div_less_eq_dividend])
  then show ?thesis by (simp add: touched_def)
qed

lemma need_step:
  fixes V S :: nat
  assumes "l \<le> 2" "0 < S"
  defines "B \<equiv> (V div 2 ^ shift l + 1) * 2 ^ shift l"
  defines "N \<equiv> min S (B - V)"
  shows "0 < N" "1 + need_tables (l + 1) V N + need_tables l (V + N) (S - N) = need_tables l V S"
proof -
  have VB: "V < B" unfolding B_def by (metis Suc_eq_plus1 add.commute dividend_less_div_times mult_Suc zero_less_numeral zero_less_power)
  then show N0: "0 < N" using assms(2) by (simp add: N_def)
  have u: "[l..<3] = l # [l + 1..<3]" using assms(1) by (simp add: upt_conv_Cons)
  have "V + N \<le> B" using VB by (simp add: N_def)
  then have one: "touched l V N = 1" using N0 unfolding B_def by (intro touched_one)
  have n: "need_tables l V N = 1 + need_tables (l + 1) V N" using N0 one unfolding need_tables_def u by simp
  show "1 + need_tables (l + 1) V N + need_tables l (V + N) (S - N) = need_tables l V S"
  proof (cases "N = S")
    case True
    then show ?thesis using n by (simp add: need_tables_def)
  next
    case False
    then have N: "N = B - V" "S = B - V + (S - N)" "0 < S - N" by (auto simp: N_def)
    have "touched k V S = touched k V N + touched k B (S - N)" if "l \<le> k" for k
    proof -
      have "2 ^ shift k dvd (2 ^ shift l :: nat)" using that by (intro le_imp_power_dvd) simp
      then have "2 ^ shift k dvd B" unfolding B_def by (rule dvd_mult)
      then show ?thesis using touched_split [OF VB N(3)] N by metis
    qed
    then have "sum_list (map (\<lambda>k. touched k V S) [l..<3]) = sum_list (map (\<lambda>k. touched k V N) [l..<3]) + sum_list (map (\<lambda>k. touched k B (S - N)) [l..<3])"
      by (subst sum_list_addf [symmetric]) (auto intro!: arg_cong [of _ _ sum_list])
    moreover have "V + N = B" using N VB by simp
    ultimately have "need_tables l V S = need_tables l V N + need_tables l (V + N) (S - N)"
      using N0 N(3) assms(2) by (simp add: need_tables_def)
    then show ?thesis using n by simp
  qed
qed

section \<open>One iteration\<close>

lemma round_up:
  fixes c s r :: nat
  shows "0 < s \<Longrightarrow> (c * s + (s - 1)) div s = c" "r < s \<Longrightarrow> 0 < r \<Longrightarrow> (c * s + r + (s - 1)) div s = c + 1"
  by (intro div_nat_eqI; simp add: mult.commute)+

lemma entry_part_unat:
  assumes "unat vir < 2 ^ 48" "l \<le> 2"
  shows "unat (entry_part vir (map_size (attrs ! l)) sz) = min (unat sz) ((unat vir div 2 ^ shift l + 1) * 2 ^ shift l - unat vir)"
proof -
  let ?s = "2 ^ shift l :: nat" and ?V = "unat vir"
  have s: "shift l < 64" "?s \<le> 2 ^ 39" by (simp, intro power_increasing) simp_all
  have ms: "map_size (attrs ! l) = 2 ^ shift l" using assms(2) by (simp add: attrs_nth)
  have "(2 :: nat) ^ 48 + 2 ^ 39 \<le> 2 ^ 64" by simp
  then have fit: "?V + ?s \<le> 2 ^ 64" using assms(1) s(2) by linarith
  have ub: "unat (BALIGN vir (2 ^ shift l)) = (?V + (?s - 1)) div ?s * ?s" using fit s by (intro unat_BALIGN) simp_all
  have us: "unat (2 ^ shift l :: u64) = ?s" using unat_of_nat_48 [of ?s] s(2) by simp
  define n where "n = (let n = BALIGN vir (2 ^ shift l) - vir in if n \<noteq> 0 then n else 2 ^ shift l)"
  have "unat n = (?V div ?s + 1) * ?s - ?V"
  proof (cases "?V mod ?s = 0")
    case True
    then obtain c where c: "?V = c * ?s" by (metis add.right_neutral div_mult_mod_eq)
    have "(?V + (?s - 1)) div ?s = c" unfolding c by (rule round_up) simp
    then have "BALIGN vir (2 ^ shift l) = vir" using ub c by (simp add: word_unat_eq_iff)
    then show ?thesis using us c by (simp add: n_def)
  next
    case False
    define c r where "c = ?V div ?s" and "r = ?V mod ?s"
    have c: "?V = c * ?s + r" unfolding c_def r_def by (rule div_mult_mod_eq [symmetric])
    have r: "r < ?s" "0 < r" using False by (simp_all add: r_def)
    have d: "(?V + (?s - 1)) div ?s = c + 1" unfolding c by (rule round_up(2) [OF r])
    have u: "unat (BALIGN vir (2 ^ shift l) - vir) = (c + 1) * ?s - ?V" using ub d c r by (simp add: unat_sub word_le_nat_alt)
    have "0 < (c + 1) * ?s - ?V" using c r by simp
    then have "0 < unat (BALIGN vir (2 ^ shift l) - vir)" unfolding u .
    then have "BALIGN vir (2 ^ shift l) - vir \<noteq> 0" by (simp only: unat_gt_0 not_False_eq_True)
    then show ?thesis unfolding n_def Let_def c_def [symmetric] using u by (simp only: if_True not_False_eq_True)
  qed
  moreover have "entry_part vir (map_size (attrs ! l)) sz = (if n > sz then sz else n)"
    by (simp add: entry_part_def ms n_def Let_def)
  ultimately show ?thesis by (auto simp: word_less_nat_alt min_def)
qed

lemma table_desc:
  assumes "page_ok p" "flags AND VM_DES_MASK = 0" "l < 3"
  defines "d \<equiv> page_table_description (flags OR VM_DES_TABLE) OR (p AND DESC_MASK 12)"
  shows "is_table l d" "taddr d = p" "d = p OR 3"
proof -
  have p: "unat p mod 2 ^ 12 = 0" "unat p < 2 ^ 48" using assms(1) by (simp_all add: page_ok_def)
  note m = aligned_and_mask [of p 12, OF p, simplified]
  have d: "d = page_table_description (flags OR VM_DES_TABLE) OR p" using m(5) by (simp add: d_def DESC_MASK_12)
  have "page_table_description (flags OR VM_DES_TABLE) AND 3 = 3"
    using description_type(1) flags_type [OF assms(2)] by simp
  then show "is_table l d" using m(2) assms(3) by (simp add: d is_table_def bit.conj_disj_distrib2)
  have "page_table_description (flags OR VM_DES_TABLE) = 3"
    using flags_type [OF assms(2), of VM_DES_TABLE]
    by (simp add: page_table_description_def arch_page_table_description_def arch_host_tt_description_def arch_guest_tt_description_def Let_def TT_defs)
  then show "d = p OR 3" by (simp add: d or.commute)
  show "taddr d = p" using m(4) description_bits by (simp add: d taddr_def bit.conj_disj_distrib2)
qed

lemma taddr_shift: "push_bit 12 (drop_bit 12 (v AND 0x0000ffffffffffff)) = taddr (v :: u64)"
proof -
  have m: "(0x0000ffffffffffff :: u64) = mask 48" by (simp add: mask_eq_exp_minus_1)
  show ?thesis unfolding taddr_def addr_mask m by (intro bit_word_eqI) (auto simp: bit_simps)
qed

lemma entry_table_ok:
  assumes ok: "tables_ok own (pt_mem st)" and base: "own (table_base info) = Some (config info, tid (config info) V)" "config info < 3"
    and V: "unat (vir_base info) = V" and w: "walk (pt_mem st) (config info) (table_base info) V = None"
    and sup: "page_supply (Suc n) (dom own) (mmu_mm st)" and fl: "m_flags info AND VM_DES_MASK = 0"
  shows "\<exists>T new ms1 st1 own1. entry_table info ms st = Some (T, new, ms1, st1) \<and> T \<noteq> 0 \<and> tables_ok own1 (pt_mem st1) \<and> own \<subseteq>\<^sub>m own1 \<and>
    own1 T = Some (config info + 1, tid (config info + 1) V) \<and>
    is_table (config info) (pt_mem st1 (slot (table_base info) (idx (config info) V))) \<and>
    taddr (pt_mem st1 (slot (table_base info) (idx (config info) V))) = T \<and>
    (\<forall>b k va. own b = Some (k, tid k va) \<longrightarrow> walk (pt_mem st1) k b va = walk (pt_mem st) k b va) \<and>
    (\<forall>b k t i. own b = Some (k, t) \<longrightarrow> k < config info \<longrightarrow> i < 512 \<longrightarrow> pt_mem st1 (slot b i) = pt_mem st (slot b i)) \<and>
    page_supply n (dom own1) (mmu_mm st1) \<and> page_steps (mmu_mm st) (mmu_mm st1) \<and> (\<exists>h. ms1 = ms\<lparr>head := h\<rparr>)"
proof -
  let ?l = "config info" and ?b = "table_base info"
  have l: "?l \<le> 3" using base(2) by simp
  have sl: "entry_slot info = slot ?b (idx ?l V)" using entry_index [OF l, of "vir_base info"] V by (simp add: entry_slot_def Let_def)
  have des: "des_offset (attrs ! ?l) = 12" using l by (simp add: attrs_nth)
  let ?v = "pt_mem st (slot ?b (idx ?l V))"
  show ?thesis
  proof (cases "?v = 0")
    case True
    from page_supplyD [OF sup] obtain page m' where a: "alloc_pages 1 1 (mmu_mm st) = Some (Some page, m')" "page_ok (page_to_addr m' page)"
      "page_to_addr m' page \<notin> dom own" "page_supply n (insert (page_to_addr m' page) (dom own)) m'" by blast
    define p where "p = page_to_addr m' page"
    define d where "d = page_table_description (m_flags info OR VM_DES_TABLE) OR (p AND DESC_MASK 12)"
    define st1 where "st1 = st\<lparr>mmu_mm := m', pt_mem := (zero_page p (zero_page p (pt_mem st)))(slot ?b (idx ?l V) := d)\<rparr>"
    have p0: "p \<noteq> 0" using a(2) by (simp add: p_def page_ok_def)
    have e: "entry_table info ms st = Some (p, True, ms\<lparr>head := page # head ms\<rparr>, st1)"
      using True a(1) p0 by (simp add: entry_table_def alloc_mapping_page_def Let_def sl des p_def [symmetric] d_def st1_def)
    have z: "zero_page p (zero_page p (pt_mem st)) = zero_page p (pt_mem st)" by (auto simp: zero_page_def)
    have D: "is_table ?l d" "taddr d = p" "d = p OR 3" unfolding d_def by (rule table_desc [OF a(2) [folded p_def] fl base(2)])+
    have none: "own p = None" using a(3) by (auto simp: p_def)
    define own1 where "own1 = own(p \<mapsto> (?l + 1, tid ?l V * 512 + idx ?l V))"
    have mem1: "pt_mem st1 = (zero_page p (pt_mem st))(slot ?b (idx ?l V) := d)" by (simp add: st1_def z)
    note n = new_table [OF ok base(1) idx_less True base(2) a(2) [folded p_def] none D, folded own1_def mem1]
    have "own \<subseteq>\<^sub>m own1" using none by (auto simp: own1_def map_le_def)
    moreover have "own1 p = Some (?l + 1, tid (?l + 1) V)" using base(2) by (simp add: own1_def tid_Suc)
    moreover have "pt_mem st1 (slot ?b (idx ?l V)) = d" by (simp add: mem1)
    moreover have "page_supply n (dom own1) (mmu_mm st1)" using a(4) by (simp add: own1_def st1_def p_def)
    moreover have "page_steps (mmu_mm st) (mmu_mm st1)" using a(1) by (auto simp: st1_def)
    ultimately show ?thesis using e p0 n D by blast
  next
    case False
    then have t: "is_table ?l ?v"
      using tables_okD(3) [OF ok base(1) idx_less [of ?l V]] w walk_leaf [of ?l "pt_mem st" ?b V] by auto
    have o: "own (taddr ?v) = Some (?l + 1, tid (?l + 1) V)" by (rule table_entry [OF ok base(1) t])
    then have "taddr ?v \<noteq> 0" using tables_okD(2) [OF ok o] by (simp add: page_ok_def)
    moreover have "entry_table info ms st = Some (taddr ?v, False, ms, st)"
      using False taddr_shift by (simp add: entry_table_def Let_def sl des)
    moreover have "page_supply n (dom own) (mmu_mm st)" using sup by (rule page_supply_mono) simp
    moreover have "ms = ms\<lparr>head := head ms\<rparr>" by simp
    ultimately show ?thesis using ok o t map_le_refl [of own] by blast
  qed
qed

section \<open>The loop\<close>

text \<open>
  What a call at the table \<open>base\<close> with number \<open>t\<close> of level \<open>config info\<close> needs: the range is inside the table, page aligned, the
  physical range agrees with it modulo 2 MB, and nothing of it is mapped. The host maps in blocks only.
\<close>

definition map_pre :: "(u64 \<rightharpoonup> nat \<times> nat) \<Rightarrow> nat \<Rightarrow> mapping_struct \<Rightarrow> u64 \<Rightarrow> mmu \<Rightarrow> bool" where
  "map_pre own t info sz st \<longleftrightarrow>
     (let l = config info; V = unat (vir_base info); P = unat (phy_base info); S = unat sz in
      tables_ok own (pt_mem st) \<and> own (table_base info) = Some (l, t) \<and> lvl info = l \<and> l < 3 \<and> m_flags info AND VM_DES_MASK = 0 \<and>
      (if m_flags info AND VM_HOST \<noteq> 0 then l \<le> 1 \<and> V mod 2 ^ 21 = 0 \<and> S mod 2 ^ 21 = 0 else 1 \<le> l) \<and>
      t * 2 ^ (shift l + 9) \<le> V \<and> V + S \<le> (t + 1) * 2 ^ (shift l + 9) \<and> V + S \<le> 2 ^ 48 \<and> P + S \<le> 2 ^ 48 \<and>
      V mod 2 ^ 12 = 0 \<and> S mod 2 ^ 12 = 0 \<and> P mod 2 ^ 21 = V mod 2 ^ 21 \<and>
      (\<forall>va. V \<le> va \<and> va < V + S \<longrightarrow> walk (pt_mem st) l (table_base info) va = None))"

definition map_post :: "(u64 \<rightharpoonup> nat \<times> nat) \<Rightarrow> nat \<Rightarrow> mapping_struct \<Rightarrow> u64 \<Rightarrow> mm_struct \<Rightarrow> mmu \<Rightarrow> (int \<times> mm_struct \<times> mmu) option \<Rightarrow> bool" where
  "map_post own k info sz ms st r \<longleftrightarrow>
     (\<exists>h st' own'. r = Some (0, ms\<lparr>head := h\<rparr>, st') \<and> page_supply k (dom own') (mmu_mm st') \<and> page_steps (mmu_mm st) (mmu_mm st') \<and>
        added (m_flags info) (unat (vir_base info)) (unat (phy_base info)) (unat sz) (config info) (table_base info)
          own (pt_mem st) own' (pt_mem st'))"

abbreviation need :: "mapping_struct \<Rightarrow> u64 \<Rightarrow> nat" where
  "need info sz \<equiv> need_tables (config info) (unat (vir_base info)) (unat sz)"

lemma block_aligned: "w AND (map_size (attrs ! 2) - 1) = 0 \<Longrightarrow> unat w mod 2 ^ 21 = 0"
proof -
  assume a: "w AND (map_size (attrs ! 2) - 1) = 0"
  have "map_size (attrs ! 2) - 1 = mask 21" by (simp add: attrs_nth mask_eq_exp_minus_1)
  then have "take_bit 21 w = 0" using a by (simp add: take_bit_eq_mask)
  then show ?thesis using unsigned_take_bit_eq [of 21 w, where 'a = nat] by (simp add: take_bit_eq_mod)
qed

lemma inner_adds:
  assumes IH: "\<And>info ms st own t k. config info = Suc l \<Longrightarrow> map_pre own t info (m_size info) st \<Longrightarrow>
      page_supply (need info (m_size info) + k) (dom own) (mmu_mm st) \<Longrightarrow> map_post own k info (m_size info) ms st (create_table_loop info (m_size info) ms st)"
    and l: "config info = Suc l" "lvl info = Suc l" "l < 3"
    and ok: "tables_ok own (pt_mem st)" "own (table_base info) = Some (Suc l, t)" and fl: "m_flags info AND VM_DES_MASK = 0"
    and V: "unat (vir_base info) = V" "V mod 2 ^ 12 = 0" "t * 2 ^ (shift (Suc l) + 9) \<le> V"
    and S: "unat (m_size info) = S" "S mod 2 ^ 12 = 0" "V + S \<le> (t + 1) * 2 ^ (shift (Suc l) + 9)" "0 < S" "V + S \<le> 2 ^ 48"
    and P: "unat (phy_base info) = P" "P mod 2 ^ 21 = V mod 2 ^ 21" "P + S \<le> 2 ^ 48"
    and host: "if m_flags info AND VM_HOST \<noteq> 0 then l \<le> 1 \<and> V mod 2 ^ 21 = 0 \<and> S mod 2 ^ 21 = 0 else 1 \<le> l"
    and none: "\<And>va. V \<le> va \<Longrightarrow> va < V + S \<Longrightarrow> walk (pt_mem st) (Suc l) (table_base info) va = None"
    and sup: "page_supply (need info (m_size info) + k) (dom own) (mmu_mm st)"
  shows "map_post own k info (m_size info) ms st
    (if get_map_type info = VM_DES_TABLE then create_table_loop info (m_size info) ms st else Some (0, ms, create_page_entry info st))"
proof (cases "get_map_type info = VM_DES_TABLE")
  case True
  have "if m_flags info AND VM_HOST \<noteq> 0 then Suc l \<le> 1 \<and> V mod 2 ^ 21 = 0 \<and> S mod 2 ^ 21 = 0 else 1 \<le> Suc l" "Suc l < 3"
    using True host l by (auto simp: get_map_type_def lvl_defs VM_defs Let_def split: if_splits)
  then have "map_pre own t info (m_size info) st"
    using ok fl l V S P none by (simp add: map_pre_def Let_def)
  then show ?thesis using IH [OF l(1) _ sup] True by simp
next
  case False
  have p12: "P mod 2 ^ 12 = 0"
  proof -
    have "P mod 2 ^ 21 mod 2 ^ 12 = V mod 2 ^ 21 mod 2 ^ 12" using P(2) by simp
    then show ?thesis using V(2) by (simp add: mod_mod_cancel)
  qed
  have "Suc l = 2 \<and> V mod 2 ^ 21 = 0 \<and> S mod 2 ^ 21 = 0 \<or> Suc l = 3"
  proof (cases "Suc l = 2")
    case True
    show ?thesis
    proof (cases "m_flags info AND VM_HOST = 0")
      case guest: True
      then have "m_size info AND (map_size (attrs ! 2) - 1) = 0" "vir_base info AND (map_size (attrs ! 2) - 1) = 0"
        using False l(1,2) unfolding True by (auto simp: get_map_type_def lvl_defs Let_def split: if_splits)
      then have "S mod 2 ^ 21 = 0" "V mod 2 ^ 21 = 0" using block_aligned V(1) S(1) by metis+
      then show ?thesis using True by simp
    qed (use True host in auto)
  next
    case other: False
    have "l = 2"
    proof (cases "m_flags info AND VM_HOST = 0")
      case True
      then show ?thesis using other host l(3) by simp
    next
      case h: False
      then show ?thesis using other False l(1,2) by (simp add: get_map_type_def lvl_defs)
    qed
    then show ?thesis by simp
  qed
  then have k: "Suc l \<in> {2, 3}" "V mod 2 ^ shift (Suc l) = 0" "S mod 2 ^ shift (Suc l) = 0" "P mod 2 ^ shift (Suc l) = 0"
    using V(2) S(2) P(2) p12 by auto
  have "added (m_flags info) V P S (Suc l) (table_base info) own (pt_mem st) own (pt_mem (create_page_entry info st))"
    by (rule leaf_added [OF ok l(2,1) k(1) fl V(1) k(2) V(3) S(1) k(3) S(3,4) P(1) k(4) P(3)])
  moreover have "page_supply k (dom own) (mmu_mm (create_page_entry info st))"
    using page_supply_mono [OF sup] by (simp add: create_page_entry_def Let_def)
  moreover have "page_steps (mmu_mm st) (mmu_mm (create_page_entry info st))" by (simp add: create_page_entry_def Let_def)
  ultimately show ?thesis
    unfolding map_post_def V(1) S(1) P(1) l(1) if_not_P [OF False]
    by (intro exI [of _ "head ms"] exI [of _ "create_page_entry info st"] exI [of _ own]) simp
qed

lemma map_preD:
  assumes "map_pre own t info sz st"
  shows "tables_ok own (pt_mem st)" "own (table_base info) = Some (config info, t)" "lvl info = config info" "config info < 3"
    "m_flags info AND VM_DES_MASK = 0"
    "if m_flags info AND VM_HOST \<noteq> 0 then config info \<le> 1 \<and> unat (vir_base info) mod 2 ^ 21 = 0 \<and> unat sz mod 2 ^ 21 = 0 else 1 \<le> config info"
    "t * 2 ^ (shift (config info) + 9) \<le> unat (vir_base info)"
    "unat (vir_base info) + unat sz \<le> (t + 1) * 2 ^ (shift (config info) + 9)"
    "unat (vir_base info) + unat sz \<le> 2 ^ 48" "unat (phy_base info) + unat sz \<le> 2 ^ 48"
    "unat (vir_base info) mod 2 ^ 12 = 0" "unat sz mod 2 ^ 12 = 0" "unat (phy_base info) mod 2 ^ 21 = unat (vir_base info) mod 2 ^ 21"
    "\<And>va. unat (vir_base info) \<le> va \<Longrightarrow> va < unat (vir_base info) + unat sz \<Longrightarrow> walk (pt_mem st) (config info) (table_base info) va = None"
  using assms unfolding map_pre_def Let_def by blast+

lemma create_table_loop_level:
  assumes IH: "\<And>info ms st own t k. config info = Suc l \<Longrightarrow> map_pre own t info (m_size info) st \<Longrightarrow>
      page_supply (need info (m_size info) + k) (dom own) (mmu_mm st) \<Longrightarrow> map_post own k info (m_size info) ms st (create_table_loop info (m_size info) ms st)"
  shows "config info = l \<Longrightarrow> map_pre own t info sz st \<Longrightarrow> page_supply (need info sz + k) (dom own) (mmu_mm st) \<Longrightarrow>
    map_post own k info sz ms st (create_table_loop info sz ms st)"
proof (induction "unat sz" arbitrary: info sz ms st own k rule: less_induct)
  case (less sz info ms st own k)
  note pre = map_preD [OF less.prems(2)]
  define V P S where "V = unat (vir_base info)" and "P = unat (phy_base info)" and "S = unat sz"
  note pre = pre [unfolded less.prems(1), folded V_def P_def S_def]
  let ?base = "table_base info"
  show ?case
  proof (cases "sz = 0")
    case True
    have "added (m_flags info) V P S l ?base own (pt_mem st) own (pt_mem st)"
      using pre(1) True by (intro addedI) (auto simp: S_def)
    moreover have "page_supply k (dom own) (mmu_mm st)" by (rule page_supply_mono [OF less.prems(3)]) simp
    moreover have "create_table_loop info sz ms st = Some (0, ms, st)" using True by (subst create_table_loop.simps) simp
    ultimately show ?thesis
      unfolding map_post_def less.prems(1) V_def P_def S_def by (intro exI [of _ "head ms"] exI [of _ st] exI [of _ own]) simp
  next
    case False
    have S0: "0 < S" using False by (simp add: S_def unat_gt_0)
    define n where "n = entry_part (vir_base info) (map_size (attrs ! l)) sz"
    define B N where "B = (V div 2 ^ shift l + 1) * 2 ^ shift l" and "N = unat n"
    have l2: "l \<le> 2" using pre(4) by simp
    have V48: "V < 2 ^ 48" using pre(9) S0 by linarith
    have N: "N = min S (B - V)" using entry_part_unat [OF V48 [unfolded V_def] l2] by (simp add: N_def n_def B_def V_def S_def)
    note ns = need_step [OF l2 S0, of V, folded B_def, folded N]
    have VB: "V < B" "V + N \<le> B" "N \<le> S" using ns(1) unfolding N by auto
    have tV: "tid l V = t" using pre(7,8) S0 by (intro tid_eq) linarith+
    have part: "va div 2 ^ shift l = V div 2 ^ shift l" if "V \<le> va" "va < V + N" for va
    proof -
      have "va < B" using that VB(2) by linarith
      moreover have "V div 2 ^ shift l * 2 ^ shift l \<le> va" using that(1) by (rule order.trans [OF div_times_less_eq_dividend])
      ultimately show ?thesis unfolding B_def by (intro div_nat_eqI) (simp_all add: mult.commute)
    qed
    have same: "idx l va = idx l V" "tid l va = t" if "V \<le> va" "va < V + N" for va
      using part [OF that] tV by (simp_all add: idx_def tid_def power_add div_mult2_eq)
    have sup: "page_supply (Suc (need_tables (Suc l) V N + (need_tables l (V + N) (S - N) + k))) (dom own) (mmu_mm st)"
    proof -
      have "Suc (need_tables (Suc l) V N + (need_tables l (V + N) (S - N) + k)) = need_tables l V S + k" using ns(2) by simp
      then show ?thesis using less.prems(3) unfolding less.prems(1) V_def [symmetric] S_def [symmetric] by (simp only:)
    qed
    have "walk (pt_mem st) l ?base V = None" using pre(14) S0 by simp
    from entry_table_ok [OF pre(1), where info = info and V = V and ms = ms, unfolded less.prems(1), OF _ pre(4) _ this sup pre(5)]
    obtain T new ms1 st1 own1 where e: "entry_table info ms st = Some (T, new, ms1, st1)" "T \<noteq> 0" "tables_ok own1 (pt_mem st1)"
      "own \<subseteq>\<^sub>m own1" "own1 T = Some (l + 1, tid (l + 1) V)" "is_table l (pt_mem st1 (slot ?base (idx l V)))"
      "taddr (pt_mem st1 (slot ?base (idx l V))) = T"
      "\<And>b k va. own b = Some (k, tid k va) \<Longrightarrow> walk (pt_mem st1) k b va = walk (pt_mem st) k b va"
      "\<And>b k t i. own b = Some (k, t) \<Longrightarrow> k < l \<Longrightarrow> i < 512 \<Longrightarrow> pt_mem st1 (slot b i) = pt_mem st (slot b i)"
      "page_supply (need_tables (Suc l) V N + (need_tables l (V + N) (S - N) + k)) (dom own1) (mmu_mm st1)"
      "page_steps (mmu_mm st) (mmu_mm st1)" "\<exists>h. ms1 = ms\<lparr>head := h\<rparr>"
      using pre(2) tV V_def by blast
    define i where "i = next_info info T n"
    have i: "config i = Suc l" "lvl i = Suc l" "table_base i = T" "vir_base i = vir_base info" "phy_base i = phy_base info" "m_size i = n"
      "m_flags i = m_flags info" using pre(3) less.prems(1) by (simp_all add: i_def next_info_def)
    have sT: "shift (Suc l) + 9 = shift l" using pre(4) by simp
    have tT: "tid (l + 1) V = V div 2 ^ shift l" unfolding tid_def using sT by simp
    have fine: "2 ^ j dvd B" if "j \<le> 21" for j
    proof -
      have "2 ^ j dvd (2 ^ shift l :: nat)" using that l2 by (intro le_imp_power_dvd) simp
      then show ?thesis unfolding B_def by (rule dvd_mult)
    qed
    have N_al: "N mod 2 ^ j = 0" if "j \<le> 21" "V mod 2 ^ j = 0" "S mod 2 ^ j = 0" for j
      using fine [OF that(1)] that(2,3) VB(1) unfolding N min_def by (auto simp: mod_eq_0_iff_dvd)
    have host: "if m_flags info AND VM_HOST \<noteq> 0 then l \<le> 1 \<and> V mod 2 ^ 21 = 0 \<and> N mod 2 ^ 21 = 0 else 1 \<le> l"
      using pre(6) N_al [of 21] by (auto split: if_splits)
    have none: "walk (pt_mem st1) (Suc l) T va = None" if "V \<le> va" "va < V + N" for va
    proof -
      have "walk (pt_mem st1) l ?base va = walk (pt_mem st1) (Suc l) T va"
        using walk_down [of l "pt_mem st1" ?base va] e(6,7) same(1) [OF that] by simp
      moreover have "walk (pt_mem st1) l ?base va = walk (pt_mem st) l ?base va" using pre(2) same(2) [OF that] by (intro e(8)) simp
      moreover have "walk (pt_mem st) l ?base va = None" using that VB(3) by (intro pre(14)) linarith+
      ultimately show ?thesis by simp
    qed
    have "map_post own1 (need_tables l (V + N) (S - N) + k) i (m_size i) ms1 st1
      (if get_map_type i = VM_DES_TABLE then create_table_loop i (m_size i) ms1 st1 else Some (0, ms1, create_page_entry i st1))"
    proof (rule inner_adds [OF IH])
      show "own1 (table_base i) = Some (Suc l, V div 2 ^ shift l)" using e(5) tT by (simp add: i)
      show "V div 2 ^ shift l * 2 ^ (shift (Suc l) + 9) \<le> V" unfolding sT by (rule div_times_less_eq_dividend)
      show "V + N \<le> (V div 2 ^ shift l + 1) * 2 ^ (shift (Suc l) + 9)" unfolding sT using VB(2) unfolding B_def .
      show "P + N \<le> 2 ^ 48" "V + N \<le> 2 ^ 48" using pre(9,10) VB(3) by linarith+
      show "page_supply (need i (m_size i) + (need_tables l (V + N) (S - N) + k)) (dom own1) (mmu_mm st1)"
        using e(10) by (simp add: i V_def N_def)
      show "N mod 2 ^ 12 = 0" using N_al [of 12] pre(11,12) by simp
      show "if m_flags i AND VM_HOST \<noteq> 0 then l \<le> 1 \<and> V mod 2 ^ 21 = 0 \<and> N mod 2 ^ 21 = 0 else 1 \<le> l" using host by (simp add: i)
    qed (use e(3) pre(4,5,11,13) none ns(1) in \<open>simp_all add: i V_def P_def N_def\<close>)
    then obtain h2 ms2 st2 own2 where ms2: "ms2 = ms1\<lparr>head := h2\<rparr>" and steps2: "page_steps (mmu_mm st1) (mmu_mm st2)" and
      r: "(if get_map_type i = VM_DES_TABLE then create_table_loop i n ms1 st1 else Some (0, ms1, create_page_entry i st1)) = Some (0, ms2, st2)"
      and sup2: "page_supply (need_tables l (V + N) (S - N) + k) (dom own2) (mmu_mm st2)"
      and add2: "added (m_flags info) V P N (l + 1) T own1 (pt_mem st1) own2 (pt_mem st2)"
      unfolding map_post_def i V_def [symmetric] P_def [symmetric] N_def [symmetric] by auto
    have b1: "own1 ?base = Some (l, t)" using e(4) pre(2) by (metis domI map_le_def)
    have "added (m_flags info) V P N l ?base own1 (pt_mem st1) own2 (pt_mem st2)"
      by (rule added_up [OF add2 b1 e(6,7) idx_less same(1)])
    then have add1: "added (m_flags info) V P N l ?base own (pt_mem st) own2 (pt_mem st2)"
      by (rule added_after [OF _ e(4) e(8) e(9)])
    define info2 where "info2 = info\<lparr>vir_base := vir_base info + n, phy_base := phy_base info + n\<rparr>"
    have u2: "unat (vir_base info2) = V + N" "unat (phy_base info2) = P + N" "unat (sz - n) = S - N"
      using pre(9,10) VB(3) unfolding V_def P_def S_def N_def
      by (simp_all add: info2_def unat_add_u64 unat_sub_u64)
    have i2: "config info2 = l" "lvl info2 = l" "table_base info2 = ?base" "m_flags info2 = m_flags info"
      using pre(3) less.prems(1) by (simp_all add: info2_def)
    have al2: "(V + N) mod 2 ^ j = 0" "(S - N) mod 2 ^ j = 0" if "j \<le> 21" "V mod 2 ^ j = 0" "S mod 2 ^ j = 0" for j
      using N_al [OF that] that(2,3) by (auto simp: mod_eq_0_iff_dvd)
    have "map_pre own2 t info2 (sz - n) st2"
      unfolding map_pre_def Let_def u2 i2
    proof (intro conjI allI impI)
      show "tables_ok own2 (pt_mem st2)" by (rule addedD(2) [OF add1])
      show "own2 ?base = Some (l, t)" by (rule addedD(6) [OF add1 pre(2)])
      show "if m_flags info AND VM_HOST \<noteq> 0 then l \<le> 1 \<and> (V + N) mod 2 ^ 21 = 0 \<and> (S - N) mod 2 ^ 21 = 0 else 1 \<le> l"
        using pre(6) al2 [of 21] by (auto split: if_splits)
      show "(V + N) mod 2 ^ 12 = 0" "(S - N) mod 2 ^ 12 = 0" using al2 [of 12] pre(11,12) by simp_all
      show "(P + N) mod 2 ^ 21 = (V + N) mod 2 ^ 21" using pre(13) by (metis mod_add_left_eq)
      fix va assume va: "V + N \<le> va \<and> va < V + N + (S - N)"
      have "tid l va = t" using pre(7,8) va VB(3) by (intro tid_eq) linarith+
      then have "walk (pt_mem st2) l ?base va = walk (pt_mem st) l ?base va"
        using va pre(2) by (intro addedD(4) [OF add1]) auto
      also have "\<dots> = None" using va VB(3) by (intro pre(14)) linarith+
      finally show "walk (pt_mem st2) l ?base va = None" .
    qed (use pre VB in auto)
    moreover have "unat (sz - n) < unat sz" using u2(3) ns(1) VB(3) S0 by (simp add: S_def)
    ultimately have "map_post own2 k info2 (sz - n) ms2 st2 (create_table_loop info2 (sz - n) ms2 st2)"
      using less.hyps i2(1) sup2 u2 by simp
    then obtain h3 ms3 st3 own3 where ms3: "ms3 = ms2\<lparr>head := h3\<rparr>" and steps3: "page_steps (mmu_mm st2) (mmu_mm st3)"
      and r3: "create_table_loop info2 (sz - n) ms2 st2 = Some (0, ms3, st3)"
      and sup3: "page_supply k (dom own3) (mmu_mm st3)"
      and add3: "added (m_flags info) (V + N) (P + N) (S - N) l ?base own2 (pt_mem st2) own3 (pt_mem st3)"
      unfolding map_post_def u2 i2 by auto
    have "added (m_flags info) V P S l ?base own (pt_mem st) own3 (pt_mem st3)"
      by (rule added_trans [OF add1 add3 VB(3) pre(2,7,8)])
    moreover have "create_table_loop info sz ms st = Some (0, ms3, st3)"
      using False pre(4) e(1,2) r r3 [unfolded info2_def] less.prems(1)
      by (subst create_table_loop.simps) (simp add: PTE_def n_def [symmetric] i_def [symmetric] split: if_splits)
    moreover have "page_steps (mmu_mm st) (mmu_mm st3)" using e(11) steps2 steps3 by (meson rtranclp_trans)
    moreover have "ms3 = ms\<lparr>head := h3\<rparr>" using e(12) ms2 ms3 by auto
    ultimately show ?thesis using sup3 less.prems(1) unfolding map_post_def V_def P_def S_def by blast
  qed
qed

lemma create_table_loop_adds:
  assumes "config info \<in> {0, 1}" "map_pre own t info sz st" "page_supply (need info sz + k) (dom own) (mmu_mm st)"
  shows "map_post own k info sz ms st (create_table_loop info sz ms st)"
proof -
  have no: "map_post own k info (m_size info) ms st (create_table_loop info (m_size info) ms st)"
    if "config info = Suc 2" "map_pre own t info (m_size info) st" for info ms st own t k
    using map_preD(4) [OF that(2)] that(1) by simp
  note l2 = create_table_loop_level [of 2, OF no]
  note l1 = create_table_loop_level [of 1, unfolded Suc_1, OF l2]
  note l0 = create_table_loop_level [of 0, unfolded One_nat_def [symmetric], OF l1]
  show ?thesis using assms l0 l1 by auto
qed

section \<open>Whole mappings\<close>

definition root_level :: "u64 \<Rightarrow> nat" where
  "root_level flags = (if flags AND VM_HOST \<noteq> 0 then 0 else 1)"

lemma translate_maps_to:
  assumes "flags AND VM_DES_MASK = 0" "walk mem l base va = Some ek" "maps_to flags va pa ek"
  shows "\<exists>d\<in>{VM_DES_BLOCK, VM_DES_PAGE}. translate mem l base va = Some (pa, page_table_description (flags OR d))"
proof -
  obtain e k where "ek = (e, k)" by (cases ek)
  with assms(3) have ek: "ek = (e, k)" "k \<in> {2, 3}" "pa mod 2 ^ shift k = va mod 2 ^ shift k" "pa < 2 ^ 48"
    "e = page_table_description (flags OR leaf_type k) OR word_of_nat (pa - pa mod 2 ^ shift k)"
    unfolding maps_to_def by (simp_all only: prod.case)
  have a: "(pa - pa mod 2 ^ shift k) mod 2 ^ shift k = 0" by (simp add: minus_mod_eq_div_mult)
  have b: "pa - pa mod 2 ^ shift k < 2 ^ 48" using ek(4) by (rule le_less_trans [OF diff_le_self])
  note d = leaf_desc(2,3) [OF assms(1) ek(2) a b, folded ek(5)]
  have "pa - pa mod 2 ^ shift k + va mod 2 ^ shift k = pa" using ek(3) by (metis le_add_diff_inverse2 mod_less_eq_dividend)
  then have "translate mem l base va = Some (pa, page_table_description (flags OR leaf_type k))"
    using d assms(2) by (simp add: translate_def ek(1))
  then show ?thesis using ek(2) by auto
qed

lemma create_mem_mapping_adds:
  assumes "tables_ok own (pt_mem st)" "own (pgd_base ms) = Some (root_level flags, 0)" "flags AND VM_DES_MASK = 0"
    and "unat vir + unat sz \<le> 2 ^ (48 - 9 * root_level flags)" "unat phy + unat sz \<le> 2 ^ 48"
    and "unat vir mod 4096 = 0" "unat sz mod 4096 = 0" "unat phy mod 2 ^ 21 = unat vir mod 2 ^ 21"
    and "flags AND VM_HOST \<noteq> 0 \<Longrightarrow> unat vir mod 2 ^ 21 = 0 \<and> unat sz mod 2 ^ 21 = 0"
    and "\<forall>va. unat vir \<le> va \<and> va < unat vir + unat sz \<longrightarrow> walk (pt_mem st) (root_level flags) (pgd_base ms) va = None"
    and "page_supply (need_tables (root_level flags) (unat vir) (unat sz) + k) (dom own) (mmu_mm st)"
  obtains h st' own' where "create_mem_mapping ms vir phy sz flags st = Some (0, ms\<lparr>head := h\<rparr>, st')" "page_supply k (dom own') (mmu_mm st')"
    "page_steps (mmu_mm st) (mmu_mm st')"
    "added flags (unat vir) (unat phy) (unat sz) (root_level flags) (pgd_base ms) own (pt_mem st) own' (pt_mem st')"
proof -
  let ?l = "root_level flags"
  define info where "info = \<lparr>table_base = pgd_base ms, vir_base = vir, phy_base = phy, m_size = sz, lvl = ?l, m_flags = flags, config = ?l\<rparr>"
  have l: "?l \<in> {0, 1}" by (simp add: root_level_def)
  have s: "shift ?l + 9 = 48 - 9 * ?l" using l by auto
  have le48: "unat vir + unat sz \<le> 2 ^ 48" using assms(4) l by auto
  have "map_pre own 0 info sz st"
    unfolding map_pre_def Let_def using assms l s le48 by (auto simp: info_def root_level_def)
  then have "map_post own k info sz ms st (create_table_loop info sz ms st)"
    using assms(11) l by (intro create_table_loop_adds) (simp_all add: info_def)
  then obtain h st' own' where r: "create_table_loop info sz ms st = Some (0, ms\<lparr>head := h\<rparr>, st')" "page_supply k (dom own') (mmu_mm st')"
    "page_steps (mmu_mm st) (mmu_mm st')"
    and a: "added flags (unat vir) (unat phy) (unat sz) ?l (pgd_base ms) own (pt_mem st) own' (pt_mem st')"
    by (auto simp: map_post_def info_def)
  have c: "create_mem_mapping ms vir phy sz flags st = Some (0, ms\<lparr>head := h\<rparr>, st')"
    using r(1) by (simp add: create_mem_mapping_def create_table_entry_def info_def root_level_def lvl_defs Let_def split: if_splits)
  show thesis by (rule that [OF c r(2,3) a])
qed

lemma tid_root: "va < 2 ^ (48 - 9 * root_level flags) \<Longrightarrow> tid (root_level flags) va = 0"
proof -
  assume "va < 2 ^ (48 - 9 * root_level flags)"
  moreover have "shift (root_level flags) + 9 = 48 - 9 * root_level flags" by (auto simp: root_level_def)
  ultimately show ?thesis unfolding tid_def by simp
qed


text \<open>A machine with 64 pages in one section, no entry in any table, and the root table of a guest at 0x60000000.\<close>

definition pages_64 :: mm where
  "pages_64 = two_blocks\<lparr>mem_sections := [\<lparr>s_phy_base = 0x50000000, s_id = 0, s_type = MEM_SECTION_F_NORMAL OR MEM_SECTION_F_PAGE,
     s_size = 0x40000, s_nr_blocks = 64, s_free_blocks = 64, s_bitmap = [0], s_bm_end = 64, s_bm_current = 0, s_blocks = [],
     s_pages = 0x1000\<rparr>]\<rparr>"

definition empty_guest :: mm_struct where
  "empty_guest = \<lparr>pgd_base = 0x60000000, hvm_mmap_base = 0, gvm_iomem_base = 0, gvm_iomem_size = 0, head = [], block_list = [],
     memory_regions = [], region_free = 0\<rparr>"

text \<open>The addresses of the next pages, to compute them for a concrete machine.\<close>

fun next_pages :: "nat \<Rightarrow> mm \<Rightarrow> u64 list option" where
  "next_pages 0 m = Some []"
| "next_pages (Suc n) m =
    (case alloc_pages 1 1 m of
       Some (Some page, m') \<Rightarrow> map_option ((#) (page_to_addr m' page)) (next_pages n m')
     | _ \<Rightarrow> None)"

lemma page_supplyI:
  "next_pages n m = Some ps \<Longrightarrow> distinct ps \<Longrightarrow> set ps \<inter> U = {} \<Longrightarrow> \<forall>p\<in>set ps. page_ok p \<Longrightarrow> page_supply n U m"
proof (induction n arbitrary: m ps U)
  case (Suc n)
  from Suc.prems(1) obtain page m' qs where a: "alloc_pages 1 1 m = Some (Some page, m')" "next_pages n m' = Some qs"
    "ps = page_to_addr m' page # qs" by (auto split: option.splits prod.splits)
  then have "page_supply n (insert (page_to_addr m' page) U) m'" using Suc.prems(2-4) by (intro Suc.IH) auto
  then show ?case using a Suc.prems(3,4) by (simp add: Let_def)
qed simp

lemma pages_64_supply: "page_supply 2 {0x60000000} pages_64"
proof (rule page_supplyI)
  show "next_pages 2 pages_64 = Some [0x50000000, 0x50001000]" unfolding numeral_2_eq_2 by code_simp
qed (auto simp: page_ok_def)

lemma walk_empty: "walk (\<lambda>_. 0) l base va = None"
  by (subst walk.simps) simp

lemma tables_ok_empty: "page_ok p \<Longrightarrow> l \<le> 3 \<Longrightarrow> tables_ok [p \<mapsto> (l, t)] (\<lambda>_. 0)"
  by (auto simp: tables_ok_def)


end
