(* ===== verification/Mmu_Unmap.thy ===== *)
theory Mmu_Unmap
  imports Mmu_Map
begin

text \<open>
  \<^verbatim>\<open>destroy_mem_mapping\<close>: its walk finds the entry of the first address; the level it reached is not reset, so
  that the next round stops with an error that the caller does not see.
\<close>

section \<open>The walk of the removal\<close>

lemma table_entryD:
  assumes "tables_ok own mem" "own base = Some (l, tid l va)"
  defines "e \<equiv> mem (slot base (idx l va))"
  shows "is_table l e \<Longrightarrow> e AND 3 = 3 \<and> e \<noteq> 0 \<and> e AND NOT 0xfff = taddr e \<and> own (taddr e) = Some (l + 1, tid (l + 1) va)"
    "is_table l e \<or> is_leaf l e \<or> e = 0"
proof -
  note t = tables_okD(3) [OF assms(1,2) idx_less [of l va], folded e_def]
  then show "is_table l e \<or> is_leaf l e \<or> e = 0" by blast
  assume tb: "is_table l e"
  then have "e = taddr e OR 3" using t leaf_not_table zero_entry(1) by blast
  then have "e AND NOT 0xfff = (taddr e OR 3) AND NOT 0xfff" by simp
  also have "\<dots> = taddr e AND NOT (mask 12)" by (simp add: bit.conj_disj_distrib2 mask_eq_exp_minus_1)
  also have "\<dots> = taddr e" unfolding taddr_def addr_mask by (intro bit_word_eqI) (auto simp: bit_simps)
  finally have "e AND NOT 0xfff = taddr e" .
  then show "e AND 3 = 3 \<and> e \<noteq> 0 \<and> e AND NOT 0xfff = taddr e \<and> own (taddr e) = Some (l + 1, tid (l + 1) va)"
    using tb table_entry [OF assms(1,2)] zero_entry(1) by (auto simp: is_table_def e_def)
qed

lemma destroy_walk_unfold:
  assumes "a \<le> 3" "mem (slot table (idx a (unat vir))) = des"
  shows "destroy_walk table a l vir sz mem =
    (if des = 0 then Inl (- EINVAL)
     else if get_mapping_type l des = VM_DES_FAULT then Inl (- EINVAL)
     else if get_mapping_type l des = VM_DES_TABLE then
       (if l + 1 > PTE \<or> a + 1 > PTE then Inl (- EINVAL)
        else destroy_walk (des AND NOT 0xfff) (a + 1) (l + 1) vir sz mem)
     else if sz < 2 ^ shift a then Inl (- EINVAL)
     else Inr (l, 2 ^ shift a, slot table (idx a (unat vir))))"
  unfolding destroy_walk.simps [of table a l] Let_def entry_index [OF assms(1)] assms(2) attrs_nth(4) [OF assms(1)] ..

lemma mapping_type:
  "des AND 3 = 3 \<Longrightarrow> l < 3 \<Longrightarrow> get_mapping_type l des = VM_DES_TABLE"
  "des AND 3 = 3 \<Longrightarrow> get_mapping_type 3 des = VM_DES_PAGE"
  "des AND 3 = 1 \<Longrightarrow> get_mapping_type 2 des = VM_DES_BLOCK"
  "des AND 3 = 1 \<Longrightarrow> get_mapping_type 3 des = VM_DES_FAULT"
  by (auto simp: get_mapping_type_def Let_def TT_defs VM_defs lvl_defs)

lemma destroy_walk_down:
  assumes "tables_ok own mem" "own base = Some (a, tid a (unat vir))" "a < 3" "l < 3" "is_table a (mem (slot base (idx a (unat vir))))"
  shows "destroy_walk base a l vir sz mem = destroy_walk (taddr (mem (slot base (idx a (unat vir))))) (a + 1) (l + 1) vir sz mem"
proof -
  note e = table_entryD(1) [OF assms(1,2,5)]
  show ?thesis
    unfolding destroy_walk_unfold [OF less_imp_le [OF assms(3)] refl]
    using e mapping_type(1) [of "mem (slot base (idx a (unat vir)))" l] assms(3,4) by (simp add: VM_defs lvl_defs)
qed

lemma walk_tables:
  assumes "walk mem l base va = Some (e, k)" "l < k" shows "is_table l (mem (slot base (idx l va)))"
    "walk mem (l + 1) (taddr (mem (slot base (idx l va)))) va = Some (e, k)"
  using assms by (subst (asm) walk.simps, auto simp: Let_def split: if_splits)+

lemma walk_level: "walk mem l base va = Some (e, k) \<Longrightarrow> l \<le> k"
proof (induction mem l base va rule: walk.induct)
  case (1 mem l base va)
  show ?case
  proof (cases "is_table l (mem (slot base (idx l va)))")
    case True
    then show ?thesis using 1 by (subst (asm) (2) walk.simps) (fastforce simp: Let_def)
  next
    case False
    then show ?thesis using 1(2) by (subst (asm) walk.simps) (simp add: Let_def split: if_splits)
  qed
qed

text \<open>From the root of the host to a block.\<close>

lemma block_path:
  assumes ok: "tables_ok own mem" "own root = Some (0, tid 0 va)" and w: "walk mem 0 root va = Some (e, 2)"
  obtains T1 T2 where "own T1 = Some (1, tid 1 va)" "own T2 = Some (2, tid 2 va)"
    "is_table 0 (mem (slot root (idx 0 va)))" "taddr (mem (slot root (idx 0 va))) = T1"
    "is_table 1 (mem (slot T1 (idx 1 va)))" "taddr (mem (slot T1 (idx 1 va))) = T2"
    "mem (slot T2 (idx 2 va)) = e" "is_leaf 2 e"
proof -
  have t0: "is_table 0 (mem (slot root (idx 0 va)))" "walk mem 1 (taddr (mem (slot root (idx 0 va)))) va = Some (e, 2)"
    using walk_tables [OF w] by simp_all
  define T1 where "T1 = taddr (mem (slot root (idx 0 va)))"
  have o1: "own T1 = Some (1, tid 1 va)" using table_entry [OF ok t0(1)] by (simp add: T1_def)
  have t1: "is_table 1 (mem (slot T1 (idx 1 va)))" "walk mem 2 (taddr (mem (slot T1 (idx 1 va)))) va = Some (e, 2)"
    using walk_tables [OF t0(2) [folded T1_def]] by (simp_all add: numeral_2_eq_2)
  define T2 where "T2 = taddr (mem (slot T1 (idx 1 va)))"
  have o2: "own T2 = Some (2, tid 2 va)" using table_entry [OF ok(1) o1 t1(1)] by (simp add: T2_def numeral_2_eq_2)
  have "mem (slot T2 (idx 2 va)) = e \<and> is_leaf 2 e"
    using t1(2) [folded T2_def] by (subst (asm) walk.simps) (auto simp: Let_def split: if_splits dest: walk_level)
  then show thesis using that [OF o1 o2 t0(1) _ t1(1)] by (simp add: T1_def T2_def)
qed

lemma walk_cleared:
  assumes ok: "tables_ok own mem" "own root = Some (0, tid 0 va)" "tid 0 V = tid 0 va"
    and T: "own T1 = Some (1, tid 1 V)" "own T2 = Some (2, tid 2 V)"
    and p: "is_table 0 (mem (slot root (idx 0 V)))" "taddr (mem (slot root (idx 0 V))) = T1"
      "is_table 1 (mem (slot T1 (idx 1 V)))" "taddr (mem (slot T1 (idx 1 V))) = T2"
  defines "mem' \<equiv> mem(slot T2 (idx 2 V) := 0)"
  shows "walk mem' 0 root va = (if va div 2 ^ 21 = V div 2 ^ 21 then None else walk mem 0 root va)"
proof -
  have m: "mem' (slot b i) = (if b = T2 \<and> i = idx 2 V then 0 else mem (slot b i))" if "own b = Some (k, t)" "i < 512" for b k t i
    unfolding mem'_def fun_upd_apply slot_eq_iff [OF tables_okD(2) [OF ok(1) that(1)] tables_okD(2) [OF ok(1) T(2)] that(2) idx_less] ..
  show ?thesis
  proof (cases "va div 2 ^ 21 = V div 2 ^ 21")
    case False
    have "mem' (slot b (idx k va)) = mem (slot b (idx k va))" if b: "own b = Some (k, tid k va)" for b k
    proof -
      have "\<not> (b = T2 \<and> idx k va = idx 2 V)"
      proof
        assume "b = T2 \<and> idx k va = idx 2 V"
        then have "k = 2" "tid 2 va = tid 2 V" "idx 2 va = idx 2 V" using b T(2) by auto
        then show False using False sn_eq [of va 2] sn_eq [of V 2] by simp
      qed
      then show ?thesis unfolding m [OF b idx_less] by (simp only: if_False)
    qed
    then have "walk mem' 0 root va = walk mem 0 root va" by (rule walk_cong [OF ok(1,2)])
    then show ?thesis unfolding if_not_P [OF False] .
  next
    case True
    have "va div 2 ^ 21 div 2 ^ 9 = V div 2 ^ 21 div 2 ^ 9" "va div 2 ^ 21 div 2 ^ 18 = V div 2 ^ 21 div 2 ^ 18" using True by simp_all
    then have up: "va div 2 ^ 30 = V div 2 ^ 30" "va div 2 ^ 39 = V div 2 ^ 39" unfolding div_mult2_eq [symmetric] by simp_all
    have i: "idx 0 va = idx 0 V" "idx 1 va = idx 1 V" "idx 2 va = idx 2 V" using True up by (simp_all add: idx_def)
    have "root \<noteq> T2" "T1 \<noteq> T2" using ok(2) T by auto
    then have e: "mem' (slot root (idx 0 V)) = mem (slot root (idx 0 V))" "mem' (slot T1 (idx 1 V)) = mem (slot T1 (idx 1 V))"
      "mem' (slot T2 (idx 2 V)) = 0" using m [OF ok(2) idx_less] m [OF T(1) idx_less] m [OF T(2) idx_less] by auto
    have "walk mem' 0 root va = walk mem' 1 T1 va" using walk_down [of 0 mem' root va] p(1,2) e(1) i(1) by simp
    also have "\<dots> = walk mem' 2 T2 va" using walk_down [of 1 mem' T1 va] p(3,4) e(2) i(2) by (simp add: numeral_2_eq_2)
    also have "\<dots> = None" using e(3) i(3) by (subst walk.simps) simp
    finally show ?thesis using True by simp
  qed
qed

lemma second_round_fails:
  assumes ok: "tables_ok own mem" "own root = Some (0, tid 0 (unat vir))" and sz: "sz < 2 ^ 30"
    and clear: "\<And>b. own b = Some (1, tid 1 (unat vir)) \<Longrightarrow> mem' (slot b (idx 1 (unat vir))) = mem (slot b (idx 1 (unat vir)))"
      "mem' (slot root (idx 0 (unat vir))) = mem (slot root (idx 0 (unat vir)))"
  shows "destroy_walk root PGD 2 vir sz mem' = Inl (- EINVAL)"
proof -
  let ?e = "mem (slot root (idx 0 (unat vir)))"
  have u: "destroy_walk root 0 2 vir sz mem' = (if ?e = 0 then Inl (- EINVAL) else destroy_walk (taddr ?e) 1 3 vir sz mem')"
  proof (cases "is_table 0 ?e")
    case True
    note e = table_entryD(1) [OF ok True]
    show ?thesis unfolding destroy_walk_unfold [OF le0, of mem' root vir ?e, OF clear(2)]
      using e mapping_type(1) [of ?e 2] by (simp add: VM_defs lvl_defs)
  next
    case False
    then have "?e = 0" using table_entryD(2) [OF ok] by (auto simp: is_leaf_def)
    then show ?thesis unfolding destroy_walk_unfold [OF le0, of mem' root vir ?e, OF clear(2)] by simp
  qed
  show ?thesis
  proof (cases "is_table 0 ?e")
    case True
    then have o: "own (taddr ?e) = Some (1, tid 1 (unat vir))" using table_entryD(1) [OF ok] by simp
    let ?d = "mem (slot (taddr ?e) (idx 1 (unat vir)))"
    have "?d = 0 \<or> ?d AND 3 = 3 \<or> ?d AND 3 = 1" using table_entryD(2) [OF ok(1) o] by (auto simp: is_table_def is_leaf_def)
    moreover have one: "(1 :: nat) \<le> 3" by simp
    ultimately have "destroy_walk (taddr ?e) 1 3 vir sz mem' = Inl (- EINVAL)"
      unfolding destroy_walk_unfold [where mem = mem' and table = "taddr ?e" and des = ?d, OF one clear(1) [OF o]]
      using mapping_type(2,4) [of ?d] sz by (auto simp: VM_defs)
    then show ?thesis using u by (simp add: PGD_def)
  next
    case False
    then have "?e = 0" using table_entryD(2) [OF ok] by (auto simp: is_leaf_def)
    then show ?thesis using u by (simp add: PGD_def)
  qed
qed

lemma sint_u64_small:
  fixes w :: u64
  assumes "unat w < 2 ^ 63" shows "sint w = int (unat w)"
proof -
  have "uint w < 2 ^ 63" using assms by (metis of_nat_less_iff of_nat_numeral of_nat_power uint_nat)
  then have "signed_take_bit 63 (uint w) = uint w" by (intro signed_take_bit_int_eq_self) (auto intro: order.trans [OF _ uint_ge_0])
  then show ?thesis by (simp add: sint_uint)
qed

lemma sint_le_iff: "unat (w :: u64) < 2 ^ 63 \<Longrightarrow> sint w \<le> int n \<longleftrightarrow> unat w \<le> n"
  unfolding sint_u64_small by (rule of_nat_le_iff)


text \<open>
  A host whose root table at 0x60000000 leads through the tables at 0x60001000 and 0x60002000 to two blocks
  of 2 MB at 0x40000000.
\<close>

definition two_block_tables :: "u64 \<Rightarrow> u64" where
  "two_block_tables = (\<lambda>_. 0)(slot 0x60000000 0 := 0x60001003, slot 0x60001000 1 := 0x60002003,
     slot 0x60002000 0 := 0x40000001, slot 0x60002000 1 := 0x40200001)"

abbreviation two_block_own :: "u64 \<rightharpoonup> nat \<times> nat" where
  "two_block_own \<equiv> [0x60000000 \<mapsto> (0, 0), 0x60001000 \<mapsto> (1, 0), 0x60002000 \<mapsto> (2, 1)]"

lemma two_block_pages: "page_ok 0x60000000" "page_ok 0x60001000" "page_ok 0x60002000"
  by (simp_all add: page_ok_def)

lemma four_entries:
  fixes x y z w :: u64
  assumes "page_ok a" "page_ok b" "page_ok c" "a \<noteq> b" "a \<noteq> c" "b \<noteq> c" "i0 < 512" "i1 < 512" "i2 < 512" "i3 < 512" "i < 512"
  defines "f \<equiv> (\<lambda>_. 0)(slot a i0 := x, slot b i1 := y, slot c i2 := z, slot c i3 := w)"
  shows "f (slot a i) = (if i = i0 then x else 0)" "f (slot b i) = (if i = i1 then y else 0)"
    "f (slot c i) = (if i = i3 then w else if i = i2 then z else 0)"
  unfolding f_def fun_upd_apply using assms(4-6)
  by (simp_all only: slot_eq_iff [OF assms(1,1,11,7)] slot_eq_iff [OF assms(1,2,11,8)] slot_eq_iff [OF assms(1,3,11,9)]
    slot_eq_iff [OF assms(1,3,11,10)] slot_eq_iff [OF assms(2,1,11,7)] slot_eq_iff [OF assms(2,2,11,8)] slot_eq_iff [OF assms(2,3,11,9)]
    slot_eq_iff [OF assms(2,3,11,10)] slot_eq_iff [OF assms(3,1,11,7)] slot_eq_iff [OF assms(3,2,11,8)] slot_eq_iff [OF assms(3,3,11,9)]
    slot_eq_iff [OF assms(3,3,11,10)]) auto

lemma two_block_entries:
  assumes "i < 512"
  shows "two_block_tables (slot 0x60000000 i) = (if i = 0 then 0x60001003 else 0)"
    "two_block_tables (slot 0x60001000 i) = (if i = 1 then 0x60002003 else 0)"
    "two_block_tables (slot 0x60002000 i) = (if i = 1 then 0x40200001 else if i = 0 then 0x40000001 else 0)"
  unfolding two_block_tables_def by (rule four_entries [OF two_block_pages _ _ _ _ _ _ _ assms]; simp)+

lemma two_block_tables_ok: "tables_ok two_block_own two_block_tables"
  unfolding tables_ok_def
proof (intro allI impI)
  fix a :: u64 and l t
  assume "two_block_own a = Some (l, t)"
  then consider "a = 0x60000000" "l = 0" "t = 0" | "a = 0x60001000" "l = 1" "t = 0" | "a = 0x60002000" "l = 2" "t = 1"
    by (auto split: if_splits)
  then show "l \<le> 3 \<and> page_ok a \<and> (\<forall>i<512. let e = two_block_tables (slot a i) in
      (is_table l e \<and> e = taddr e OR 3 \<and> two_block_own (taddr e) = Some (l + 1, t * 512 + i)) \<or> is_leaf l e \<or> e = 0)"
  proof cases
    case 1
    have "let e = two_block_tables (slot a i) in (is_table l e \<and> e = taddr e OR 3 \<and> two_block_own (taddr e) = Some (l + 1, t * 512 + i)) \<or> is_leaf l e \<or> e = 0"
      if "i < 512" for i unfolding 1 two_block_entries(1) [OF that] by (simp add: is_table_def taddr_def)
    then show ?thesis using 1 two_block_pages by simp
  next
    case 2
    have "let e = two_block_tables (slot a i) in (is_table l e \<and> e = taddr e OR 3 \<and> two_block_own (taddr e) = Some (l + 1, t * 512 + i)) \<or> is_leaf l e \<or> e = 0"
      if "i < 512" for i unfolding 2 two_block_entries(2) [OF that] by (simp add: is_table_def taddr_def)
    then show ?thesis using 2 two_block_pages by simp
  next
    case 3
    have "let e = two_block_tables (slot a i) in (is_table l e \<and> e = taddr e OR 3 \<and> two_block_own (taddr e) = Some (l + 1, t * 512 + i)) \<or> is_leaf l e \<or> e = 0"
      if "i < 512" for i unfolding 3 two_block_entries(3) [OF that] by (simp add: is_leaf_def)
    then show ?thesis using 3 two_block_pages by simp
  qed
qed

lemma walk_entry:
  "mem (slot base (idx l va)) = e \<Longrightarrow>
   walk mem l base va = (if is_table l e then walk mem (l + 1) (taddr e) va else if is_leaf l e then Some (e, l) else None)"
  by (subst walk.simps) (simp add: Let_def)

lemma two_block_walk:
  assumes "idx 0 va = 0" "idx 1 va = 1" "two_block_tables (slot 0x60002000 (idx 2 va)) = e" "is_leaf 2 e"
  shows "walk two_block_tables 0 0x60000000 va = Some (e, 2)"
proof -
  have d: "is_table 0 0x60001003" "taddr 0x60001003 = 0x60001000" "is_table 1 0x60002003" "taddr 0x60002003 = 0x60002000"
    by (simp_all add: is_table_def taddr_def)
  have e: "two_block_tables (slot 0x60000000 (idx 0 va)) = 0x60001003" "two_block_tables (slot 0x60001000 (idx 1 va)) = 0x60002003"
    using two_block_entries [OF idx_less [of 0 va]] two_block_entries [OF idx_less [of 1 va]] assms(1,2) by metis+
  have "walk two_block_tables 0 0x60000000 va = walk two_block_tables (0 + 1) 0x60001000 va"
    unfolding walk_entry [where mem = two_block_tables, OF e(1)] if_P [OF d(1)] d(2) ..
  also have "\<dots> = walk two_block_tables (1 + 1) 0x60002000 va"
    unfolding add_0 walk_entry [where mem = two_block_tables, OF e(2)] if_P [OF d(3)] d(4) ..
  also have "\<dots> = Some (e, 2)"
    unfolding one_add_one walk_entry [where mem = two_block_tables, OF assms(3)] if_not_P [OF leaf_not_table [OF assms(4)]] if_P [OF assms(4)] ..
  finally show ?thesis .
qed


end
