(* ===== verification/Vmm.thy ===== *)
theory Vmm
  imports Mmu_Unmap
begin

text \<open>
  The memory of guests: \<^verbatim>\<open>os/virt/vmm.c\<close>. The functions get the \<^verbatim>\<open>mm_struct\<close> of the machine and, where the code
  looks up VM 0, that of VM 0. Of \<^verbatim>\<open>memory_regions[0]\<close> the field \<^verbatim>\<open>free_size\<close> is \<^verbatim>\<open>region_free\<close>. A panic and an access through
  a NULL pointer are \<open>None\<close>.
\<close>

section \<open>Constants and state\<close>

definition GVM_IO_MEM_START :: u64 where "GVM_IO_MEM_START = 0"
definition GVM_IO_MEM_SIZE :: u64 where "GVM_IO_MEM_SIZE = 0x80000000"
definition GVM_NORMAL_MEM_START :: u64 where "GVM_NORMAL_MEM_START = GVM_IO_MEM_START + GVM_IO_MEM_SIZE"
definition GVM_NORMAL_MEM_SIZE :: u64 where "GVM_NORMAL_MEM_SIZE = 126 * 1024 * 1024 * 1024"
definition GVM_NORMAL_MEM_END :: u64 where "GVM_NORMAL_MEM_END = GVM_NORMAL_MEM_START + GVM_NORMAL_MEM_SIZE"
definition HVM_IO_MMAP_START :: u64 where "HVM_IO_MMAP_START = GVM_NORMAL_MEM_END"
definition HVM_IO_MMAP_SIZE :: u64 where "HVM_IO_MMAP_SIZE = 2 * 1024 * 1024 * 1024"
definition HVM_NORMAL_MMAP_START :: u64 where "HVM_NORMAL_MMAP_START = HVM_IO_MMAP_START + HVM_IO_MMAP_SIZE"

definition SIZE_1G :: u64 where "SIZE_1G = 0x40000000"
definition PAGETABLE_ATTR_MASK :: u64 where "PAGETABLE_ATTR_MASK = 0x0000ffffffe00000"
definition PMD_MAP_SIZE :: u64 where "PMD_MAP_SIZE = push_bit 21 1"

definition PAGE_BALIGN :: "u32 \<Rightarrow> u32" where
  "PAGE_BALIGN x = (x + 0x1000 - 1) AND NOT (0x1000 - 1)"

text \<open>The windows of VM 0 into the memory of the guests.\<close>

record mmap_windows =
  hvm_normal_mmap_base :: u64
  hvm_normal_mmap_size :: u64
  hvm_iomem_mmap_base :: u64
  hvm_iomem_mmap_size :: u64

text \<open>The array \<^verbatim>\<open>memory_regions\<close> has its first entry also when no region is recorded yet.\<close>

definition region0 :: "mm_struct \<Rightarrow> memory_region" where
  "region0 ms = (case memory_regions ms of [] \<Rightarrow> \<lparr>r_flags = 0, r_phy_base = 0, r_vir_base = 0, r_size = 0\<rparr> | r # _ \<Rightarrow> r)"

section \<open>Operations\<close>

definition alloc_pgd :: "mmu \<Rightarrow> (u64 \<times> mmu) option" where
  "alloc_pgd st =
    (case get_free_pages 2 2 (mmu_mm st) of
       Some (Some p, m) \<Rightarrow> Some (p, st\<lparr>mmu_mm := m, pt_mem := (\<lambda>a. if a - p < 0x1000 * 2 then 0 else pt_mem st a)\<rparr>)
     | _ \<Rightarrow> None)"

text \<open>\<^verbatim>\<open>vm_alloc_pages\<close> tests the number of pages instead of the pointer: without memory it writes through NULL.\<close>

definition vm_alloc_pages :: "mm_struct \<Rightarrow> int \<Rightarrow> mmu \<Rightarrow> (u64 option \<times> mm_struct \<times> mmu) option" where
  "vm_alloc_pages ms pages st =
    (case alloc_pages pages 1 (mmu_mm st) of
       None \<Rightarrow> None
     | Some (page, m) \<Rightarrow>
         if pages = 0 then Some (None, ms, st\<lparr>mmu_mm := m\<rparr>)
         else (case page of
             None \<Rightarrow> None
           | Some page \<Rightarrow> Some (Some (page_to_addr m page), ms\<lparr>head := page # head ms\<rparr>, st\<lparr>mmu_mm := m\<rparr>)))"

definition create_guest_mapping :: "mm_struct \<Rightarrow> u64 \<Rightarrow> u64 \<Rightarrow> u64 \<Rightarrow> u64 \<Rightarrow> mmu \<Rightarrow> (int \<times> mm_struct \<times> mmu) option" where
  "create_guest_mapping ms vir phy sz flags st =
    (let tmp = BALIGN (vir + sz) 0x1000;
         vir = ALIGN vir 0x1000;
         phy = ALIGN phy 0x1000
     in create_mem_mapping ms vir phy (tmp - vir) flags st)"

definition destroy_guest_mapping :: "mm_struct \<Rightarrow> u64 \<Rightarrow> u64 \<Rightarrow> mmu \<Rightarrow> int \<times> mmu" where
  "destroy_guest_mapping ms vir sz st =
    (let e = BALIGN (vir + sz) 0x1000;
         vir = ALIGN vir 0x1000
     in destroy_mem_mapping ms vir (e - vir) st)"

fun release_blocks :: "(nat \<times> nat) list \<Rightarrow> mm \<Rightarrow> mm option" where
  "release_blocks [] m = Some m"
| "release_blocks (p # ps) m = (case release_mem_block (Some p) m of None \<Rightarrow> None | Some m \<Rightarrow> release_blocks ps m)"

fun release_page_list :: "u64 list \<Rightarrow> mm \<Rightarrow> mm option" where
  "release_page_list [] m = Some m"
| "release_page_list (p # ps) m = (case release_pages p m of None \<Rightarrow> None | Some m \<Rightarrow> release_page_list ps m)"

definition zero_mm_struct :: mm_struct where
  "zero_mm_struct = \<lparr>pgd_base = 0, hvm_mmap_base = 0, gvm_iomem_base = 0, gvm_iomem_size = 0, head = [], block_list = [],
     memory_regions = [], region_free = 0\<rparr>"

definition release_vm_memory :: "mm_struct \<Rightarrow> mmu \<Rightarrow> (mm_struct \<times> mmu) option" where
  "release_vm_memory ms st =
    (case release_blocks (block_list ms) (mmu_mm st) of
       None \<Rightarrow> None
     | Some m \<Rightarrow>
         (case release_page_list (head ms) m of
            None \<Rightarrow> None
          | Some m \<Rightarrow> map_option (\<lambda>m. (zero_mm_struct, st\<lparr>mmu_mm := m\<rparr>)) (free_pages (pgd_base ms) m)))"

definition create_hvm_iomem_map :: "mm_struct \<Rightarrow> u64 \<Rightarrow> u32 \<Rightarrow> mmap_windows \<Rightarrow> mmu \<Rightarrow> (u64 \<times> mm_struct \<times> mmap_windows \<times> mmu) option" where
  "create_hvm_iomem_map mm0 phy sz w st =
    (let sz = ucast (PAGE_BALIGN sz) in
     if hvm_iomem_mmap_size w < sz then Some (0, mm0, w, st)
     else
       let base = hvm_iomem_mmap_base w;
           w = w\<lparr>hvm_iomem_mmap_size := hvm_iomem_mmap_size w - sz, hvm_iomem_mmap_base := hvm_iomem_mmap_base w + sz\<rparr>
       in map_option (\<lambda>(ret, mm0, st). (if ret \<noteq> 0 then 0 else base, mm0, w, st))
            (create_guest_mapping mm0 base phy sz VM_RW st))"

definition destroy_hvm_iomem_map :: "mm_struct \<Rightarrow> u64 \<Rightarrow> u32 \<Rightarrow> mmu \<Rightarrow> mmu" where
  "destroy_hvm_iomem_map mm0 vir sz st = snd (destroy_guest_mapping mm0 vir (ucast (PAGE_BALIGN sz)) st)"

definition vm_mmap_init :: "mm_struct \<Rightarrow> u64 \<Rightarrow> mmap_windows \<Rightarrow> int \<times> mm_struct \<times> mmap_windows" where
  "vm_mmap_init ms memsize w =
    (if hvm_normal_mmap_size w < memsize then (- ENOMEM, ms, w)
     else (0, ms\<lparr>hvm_mmap_base := hvm_normal_mmap_base w\<rparr>,
        w\<lparr>hvm_normal_mmap_size := hvm_normal_mmap_size w - memsize, hvm_normal_mmap_base := hvm_normal_mmap_base w + memsize\<rparr>))"

text \<open>The address \<open>pa\<close> of the guest address comes from the translation hardware.\<close>

definition map_vm_mem :: "mm_struct \<Rightarrow> u64 \<Rightarrow> u64 \<Rightarrow> mmu \<Rightarrow> (u64 option \<times> mm_struct \<times> mmu) option" where
  "map_vm_mem host_mm pa sz st =
    map_option (\<lambda>(ret, host_mm, st). (if ret \<noteq> 0 then None else Some pa, host_mm, st)) (create_host_mapping host_mm pa pa sz 0 st)"

definition unmap_vm_mem :: "mm_struct \<Rightarrow> u64 \<Rightarrow> u64 \<Rightarrow> mmu \<Rightarrow> mmu" where
  "unmap_vm_mem host_mm pa sz st = snd (destroy_host_mapping host_mm pa sz st)"

text \<open>
  The loops of \<^verbatim>\<open>vm_mmap\<close>: \<open>vm_mmap_copy\<close> is the inner one, over \<open>n\<close> entries of one table of the guest. The
  test \<^verbatim>\<open>mapping_error\<close> is for values from 1 to 6; a table that does not exist is 0, and its entry is then read.
\<close>

definition mapping_error :: "u64 \<Rightarrow> bool" where "mapping_error r \<longleftrightarrow> r > 0 \<and> r \<le> 6"

fun vm_mmap_copy :: "nat \<Rightarrow> u64 \<Rightarrow> u64 \<Rightarrow> nat \<times> u64 \<times> nat \<times> u64 \<Rightarrow> mm_struct \<Rightarrow> mmu
    \<Rightarrow> (int \<times> (nat \<times> u64 \<times> nat \<times> u64) \<times> mm_struct \<times> mmu) option" where
  "vm_mmap_copy 0 vm_pmd attr s mm0 st = Some (0, s, mm0, st)"
| "vm_mmap_copy (Suc n) vm_pmd attr (vir_off, phy, phy_off, vm0_pmd) mm0 st =
    (let value = (pt_mem st (vm_pmd + 8 * word_of_nat vir_off) AND PAGETABLE_ATTR_MASK) OR attr;
         st = st\<lparr>pt_mem := (pt_mem st)(vm0_pmd + 8 * word_of_nat phy_off := value)\<rparr>;
         phy = phy + PMD_MAP_SIZE
     in if (phy_off + 1) mod 512 = 0 then
          (case alloc_guest_pmd mm0 phy st of
             None \<Rightarrow> None
           | Some (vm0_pmd, mm0, st) \<Rightarrow>
               if vm0_pmd = 0 then Some (- ENOMEM, (vir_off + 1, phy, 0, 0), mm0, st)
               else vm_mmap_copy n vm_pmd attr (vir_off + 1, phy, 0, vm0_pmd) mm0 st)
        else vm_mmap_copy n vm_pmd attr (vir_off + 1, phy, phy_off + 1, vm0_pmd) mm0 st)"

lemma pmd_idx_less: "unat (pmd_idx v) < 512"
proof -
  have "pmd_idx v = take_bit 9 (drop_bit 21 v)" by (simp add: pmd_idx_def take_bit_eq_mask mask_eq_exp_minus_1)
  then show ?thesis by (simp add: unsigned_take_bit_eq take_bit_eq_mod unat_mod)
qed

function vm_mmap_loop :: "nat \<Rightarrow> u64 \<Rightarrow> u64 \<Rightarrow> u64 \<Rightarrow> u64 \<times> nat \<times> u64 \<Rightarrow> mm_struct \<Rightarrow> mmu \<Rightarrow> (int \<times> mm_struct \<times> mmu) option" where
  "vm_mmap_loop left pgd vir attr s mm0 st =
    (if left = 0 then Some (0, mm0, st)
     else let (phy, phy_off, vm0_pmd) = s in
       case get_mapping_pmd pgd vir 0 (pt_mem st) of
         None \<Rightarrow> None
       | Some vm_pmd \<Rightarrow>
           if mapping_error vm_pmd then Some (- EIO, mm0, st)
           else if vm_pmd = 0 then None
           else
             let vir_off = unat (pmd_idx vir);
                 count = min left (512 - vir_off)
             in case vm_mmap_copy count vm_pmd attr (vir_off, phy, phy_off, vm0_pmd) mm0 st of
                  None \<Rightarrow> None
                | Some (ret, (vir_off, phy, phy_off, vm0_pmd), mm0, st) \<Rightarrow>
                    if ret \<noteq> 0 then Some (ret, mm0, st)
                    else vm_mmap_loop (left - count) pgd (vir + word_of_nat count * PMD_MAP_SIZE) attr (phy, phy_off, vm0_pmd) mm0 st)"
  by pat_completeness auto

termination by (relation "measure (\<lambda>(left, _). left)") (use pmd_idx_less in auto)

definition vm_mmap :: "mm_struct \<Rightarrow> mm_struct \<Rightarrow> u64 \<Rightarrow> u64 \<Rightarrow> mmu \<Rightarrow> (int \<times> mm_struct \<times> mmu) option" where
  "vm_mmap ms mm0 offset sz st =
    (let region = region0 ms in
     if sz > r_size region then Some (- EINVAL, mm0, st)
     else
       let offset = ALIGN offset PMD_MAP_SIZE;
           sz = BALIGN sz PMD_MAP_SIZE;
           vir = r_vir_base region + offset;
           phy = hvm_mmap_base ms + offset;
           sz = (if offset + sz > region_free ms then r_size region - offset else sz);
           left = sint (ucast (drop_bit 21 sz) :: 32 word)
       in case alloc_guest_pmd mm0 phy st of
            None \<Rightarrow> None
          | Some (vm0_pmd, mm0, st) \<Rightarrow>
              if vm0_pmd = 0 then Some (- ENOMEM, mm0, st)
              else vm_mmap_loop (nat left) (pgd_base ms) vir (page_table_description (VM_DES_BLOCK OR VM_NORMAL))
                (phy, unat (pmd_idx phy), vm0_pmd) mm0 st)"

function vm_unmmap_loop :: "nat \<Rightarrow> u64 \<Rightarrow> u64 \<Rightarrow> (u64 \<Rightarrow> u64) \<Rightarrow> (u64 \<Rightarrow> u64) option" where
  "vm_unmmap_loop left pgd phy mem =
    (if left = 0 then Some mem
     else case get_mapping_pmd pgd phy 0 mem of
         None \<Rightarrow> None
       | Some vm0_pmd \<Rightarrow>
           if mapping_error vm0_pmd then Some mem
           else if vm0_pmd = 0 then None
           else
             let offset = unat (pmd_idx phy);
                 count = min left (512 - offset)
             in vm_unmmap_loop (left - count) pgd (phy + word_of_nat count * PMD_MAP_SIZE)
                  (\<lambda>a. if a - (vm0_pmd + 8 * word_of_nat offset) < word_of_nat (8 * count) then 0 else mem a))"
  by pat_completeness auto
termination by (relation "measure (\<lambda>(left, _). left)") (use pmd_idx_less in auto)

definition vm_unmmap :: "mm_struct \<Rightarrow> mm_struct \<Rightarrow> mmu \<Rightarrow> mmu option" where
  "vm_unmmap ms mm0 st =
    map_option (\<lambda>mem. st\<lparr>pt_mem := mem\<rparr>)
      (vm_unmmap_loop (nat (sint (ucast (drop_bit 21 (r_size (region0 ms))) :: 32 word))) (pgd_base mm0) (hvm_mmap_base ms) (pt_mem st))"

declare vm_mmap_loop.simps [simp del] vm_unmmap_loop.simps [simp del]

text \<open>\<^verbatim>\<open>alloc_vm_memory\<close>: its two loops, and the way out when memory runs out.\<close>

fun alloc_vm_blocks :: "nat \<Rightarrow> mm_struct \<Rightarrow> mm \<Rightarrow> bool \<times> mm_struct \<times> mm" where
  "alloc_vm_blocks 0 ms m = (True, ms, m)"
| "alloc_vm_blocks (Suc n) ms m =
    (case alloc_mem_block GFB_VM m of
       (None, m) \<Rightarrow> (False, ms, m)
     | (Some p, m) \<Rightarrow>
         alloc_vm_blocks n (ms\<lparr>block_list := block_list ms @ [p], region_free := region_free ms - MEM_BLOCK_SIZE\<rparr>) m)"

fun map_vm_blocks :: "(nat \<times> nat) list \<Rightarrow> u64 \<Rightarrow> mm_struct \<Rightarrow> mmu \<Rightarrow> (int \<times> mm_struct \<times> mmu) option" where
  "map_vm_blocks [] base ms st = Some (0, ms, st)"
| "map_vm_blocks (p # ps) base ms st =
    (case create_guest_mapping ms base (b_phy_base (the_block (mmu_mm st) p)) MEM_BLOCK_SIZE VM_NORMAL st of
       None \<Rightarrow> None
     | Some (ret, ms, st) \<Rightarrow> if ret \<noteq> 0 then Some (ret, ms, st) else map_vm_blocks ps (base + MEM_BLOCK_SIZE) ms st)"

definition alloc_vm_memory :: "mm_struct \<Rightarrow> mmu \<Rightarrow> (int \<times> mm_struct \<times> mmu) option" where
  "alloc_vm_memory ms st =
    (let region = region0 ms;
         base = ALIGN (r_vir_base region) MEM_BLOCK_SIZE;
         count = sint (ucast (drop_bit MEM_BLOCK_SHIFT (r_size region)) :: 32 word);
         fail = (\<lambda>ms st. map_option (\<lambda>(ms, st). (- ENOMEM, ms, st)) (release_vm_memory ms st))
     in case alloc_vm_blocks (nat count) ms (mmu_mm st) of
          (False, ms, m) \<Rightarrow> fail ms (st\<lparr>mmu_mm := m\<rparr>)
        | (True, ms, m) \<Rightarrow>
            (case map_vm_blocks (block_list ms) base ms (st\<lparr>mmu_mm := m\<rparr>) of
               None \<Rightarrow> None
             | Some (ret, ms, st) \<Rightarrow> if ret \<noteq> 0 then fail ms st else Some (0, ms, st)))"

fun memblock_search :: "(nat \<times> nat) list \<Rightarrow> u64 \<Rightarrow> u64 \<Rightarrow> mm \<Rightarrow> u64" where
  "memblock_search [] offset base m = 0"
| "memblock_search (p # ps) offset base m =
    (if offset = base then b_phy_base (the_block m p) else memblock_search ps offset (base + MEM_BLOCK_SIZE) m)"

definition get_vm_memblock_address :: "mm_struct \<Rightarrow> u64 \<Rightarrow> mm \<Rightarrow> u64" where
  "get_vm_memblock_address ms a m =
    (let region = region0 ms in
     if a < r_vir_base region \<or> a \<ge> r_vir_base region + r_size region then 0
     else memblock_search (block_list ms) (a - r_vir_base region) 0 m)"

definition vm_mm_struct_init :: "bool \<Rightarrow> mm_struct \<Rightarrow> mmu \<Rightarrow> (mm_struct \<times> mmu) option" where
  "vm_mm_struct_init native ms st =
    (case alloc_pgd st of
       None \<Rightarrow> None
     | Some (pgd, st) \<Rightarrow>
         let ms = ms\<lparr>block_list := [], head := [], memory_regions := [], pgd_base := pgd\<rparr>
         in Some (if pgd = 0 then ms
              else if native then ms
              else ms\<lparr>gvm_iomem_base := GVM_IO_MEM_START + SIZE_1G, gvm_iomem_size := GVM_IO_MEM_SIZE - SIZE_1G\<rparr>, st))"

text \<open>\<^verbatim>\<open>shmem_base\<close> and \<^verbatim>\<open>shmem_size\<close> share their memory with \<^verbatim>\<open>gvm_iomem_base\<close> and \<^verbatim>\<open>gvm_iomem_size\<close>.\<close>

definition vm_init_shmem :: "bool \<Rightarrow> mm_struct \<Rightarrow> u64 \<Rightarrow> u64 \<Rightarrow> mm_struct" where
  "vm_init_shmem native ms base sz = (if \<not> native then ms else ms\<lparr>gvm_iomem_base := base, gvm_iomem_size := sz\<rparr>)"

definition vm_map_shmem :: "mm_struct \<Rightarrow> u64 \<Rightarrow> u32 \<Rightarrow> u64 \<Rightarrow> mmu \<Rightarrow> (u64 option \<times> mm_struct \<times> mmu) option" where
  "vm_map_shmem ms phy sz flags st =
    (if gvm_iomem_size ms < ucast sz then Some (None, ms, st)
     else map_option (\<lambda>(ret, ms, st). if ret \<noteq> 0 then (None, ms, st)
       else (Some (gvm_iomem_base ms), ms\<lparr>gvm_iomem_base := gvm_iomem_base ms + ucast sz, gvm_iomem_size := gvm_iomem_size ms - ucast sz\<rparr>, st))
       (create_guest_mapping ms (gvm_iomem_base ms) phy (ucast sz) flags st))"

fun map_regions :: "memory_region list \<Rightarrow> mm_struct \<Rightarrow> mmu \<Rightarrow> (mm_struct \<times> mmu) option" where
  "map_regions [] ms st = Some (ms, st)"
| "map_regions (r # rs) ms st =
    (case create_guest_mapping ms (r_vir_base r) (r_phy_base r) (r_size r) 0 st of
       None \<Rightarrow> None
     | Some (ret, ms, st) \<Rightarrow> map_regions rs ms st)"

definition vm_mm_init :: "mm_struct \<Rightarrow> mmu \<Rightarrow> (int \<times> mm_struct \<times> mmu) option" where
  "vm_mm_init ms st = map_option (\<lambda>(ms, st). (0, ms, st)) (map_regions (memory_regions ms) ms st)"

end
