(* ===== verification/Vmm_Alloc.thy ===== *)
theory Vmm_Alloc
  imports Vmm
begin

text \<open>
  The memory of a guest is its own: \<^verbatim>\<open>alloc_vm_memory\<close> backs every address of the region with a block that was free before,
  each address with a different one, and maps nothing else.
\<close>

section \<open>Taking pages leaves the blocks of others alone\<close>

text \<open>
  How one section may change: its place and kind stay, and a block that is handed out stays so, at its address.
\<close>

definition sec_keeps :: "mem_section \<Rightarrow> mem_section \<Rightarrow> bool" where
  "sec_keeps s s' \<longleftrightarrow> s_phy_base s' = s_phy_base s \<and> s_size s' = s_size s \<and> s_type s' = s_type s \<and> s_nr_blocks s' = s_nr_blocks s \<and>
     length (s_bitmap s') = length (s_bitmap s) \<and> length (s_blocks s') = length (s_blocks s) \<and>
     (is_block_section s \<longrightarrow>
       (\<forall>i. bm_bit (s_bitmap s) i \<longrightarrow> bm_bit (s_bitmap s') i \<and> b_phy_base (s_blocks s' ! i) = b_phy_base (s_blocks s ! i)))"

definition keeps_blocks :: "mm \<Rightarrow> mm \<Rightarrow> bool" where
  "keeps_blocks m m' \<longleftrightarrow> list_all2 sec_keeps (mem_sections m) (mem_sections m')"

text \<open>Block sections are aligned and in the 48-bit address space, and no section is one of blocks and of pages.\<close>

definition secs_aligned :: "mm \<Rightarrow> bool" where
  "secs_aligned m \<longleftrightarrow> (\<forall>s\<in>set (mem_sections m). (is_page_section s \<longrightarrow> \<not> is_block_section s) \<and>
     (is_block_section s \<longrightarrow> unat (s_phy_base s) mod 2 ^ 21 = 0 \<and> unat (s_phy_base s) + unat (s_size s) \<le> 2 ^ 48))"

lemma sec_keeps_refl: "sec_keeps s s"
  by (simp add: sec_keeps_def)

lemma sec_keeps_trans: "sec_keeps s1 s2 \<Longrightarrow> sec_keeps s2 s3 \<Longrightarrow> sec_keeps s1 s3"
  by (simp add: sec_keeps_def)

lemma keeps_blocks_trans: "keeps_blocks m1 m2 \<Longrightarrow> keeps_blocks m2 m3 \<Longrightarrow> keeps_blocks m1 m3"
  unfolding keeps_blocks_def by (rule list_all2_trans [OF sec_keeps_trans])

lemma keeps_sections: "mem_sections m' = mem_sections m \<Longrightarrow> keeps_blocks m m'"
  by (simp add: keeps_blocks_def list_all2_refl sec_keeps_refl)

lemma keeps_upd_section:
  assumes "i < length (mem_sections m) \<Longrightarrow> sec_keeps (mem_sections m ! i) (f (mem_sections m ! i))"
  shows "keeps_blocks m (upd_section i f m)"
proof (cases "i < length (mem_sections m)")
  case True
  then show ?thesis using assms by (simp add: keeps_blocks_def upd_section_def list_all2_conv_all_nth nth_list_update sec_keeps_refl)
next
  case False
  then show ?thesis by (intro keeps_sections) (simp add: upd_section_def list_update_beyond)
qed

lemma nth_upd: "xs[i := x] ! j = (if i = j \<and> i < length xs then x else xs ! j)"
  by (cases "i < length xs") (auto simp: list_update_beyond)

lemma keeps_upd_block: "(\<And>b. b_phy_base (f b) = b_phy_base b) \<Longrightarrow> keeps_blocks m (upd_block p f m)"
  unfolding upd_block_def by (rule keeps_upd_section) (auto simp: sec_keeps_def nth_upd)

lemma keepsD:
  assumes "keeps_blocks m m'"
  shows "block_valid m' = block_valid m" "secs_aligned m \<Longrightarrow> secs_aligned m'" "length (mem_sections m') = length (mem_sections m)"
    "block_valid m p \<Longrightarrow> block_rng m' p = block_rng m p" "mm_ok m \<Longrightarrow> mm_ok m'"
    "block_taken m p \<Longrightarrow> block_taken m' p \<and> b_phy_base (the_block m' p) = b_phy_base (the_block m p)"
proof -
  show len: "length (mem_sections m') = length (mem_sections m)" using assms by (simp add: keeps_blocks_def list_all2_lengthD)
  have g: "sec_keeps (mem_sections m ! i) (mem_sections m' ! i)" if "i < length (mem_sections m)" for i
    using assms that by (simp add: keeps_blocks_def list_all2_nthD)
  show v: "block_valid m' = block_valid m" using g len by (auto simp: fun_eq_iff block_valid_def sec_keeps_def)
  show "secs_aligned m'" if "secs_aligned m"
    using that g unfolding secs_aligned_def all_set_conv_all_nth len by (simp add: sec_keeps_def)
  show "block_rng m' p = block_rng m p" if "block_valid m p" using that g by (simp add: block_valid_def block_rng_def sec_keeps_def)
  show "block_taken m' p \<and> b_phy_base (the_block m' p) = b_phy_base (the_block m p)" if "block_taken m p"
    using that g [of "fst p"] by (simp add: block_taken_def the_block_def v) (simp add: block_valid_def sec_keeps_def)
  have r: "map sec_rng (mem_sections m') = map sec_rng (mem_sections m)"
    using g len by (intro nth_equalityI) (simp_all add: sec_rng_def sec_keeps_def)
  have "sec_ok (mem_sections m' ! i) = sec_ok (mem_sections m ! i)" if "i < length (mem_sections m)" for i
    using g [OF that] by (simp add: sec_ok_def sec_keeps_def)
  then show "mm_ok m'" if "mm_ok m" using that r len unfolding mm_ok_def all_set_conv_all_nth by simp
qed

subsection \<open>The allocator\<close>

lemma bm_set_bit_mono: "bm_bit bm c \<Longrightarrow> bm_bit (bm_set_bit b bm) c"
  by (cases "b div 64 < length bm") (auto simp: bm_set_bit_def bm_bit_def nth_list_update list_update_beyond bit_simps)

lemma keeps_alloc_mem_block0: "alloc_mem_block0 i f m = (r, m') \<Longrightarrow> keeps_blocks m m'"
proof -
  assume a: "alloc_mem_block0 i f m = (r, m')"
  define s where "s = mem_sections m ! i"
  define bit where "bit = find_next_zero_bit_loop (s_bitmap s) (unat (s_nr_blocks s)) (unat (s_bm_current s))"
  show ?thesis
  proof (cases r)
    case None
    then show ?thesis using a alloc_mem_block0_none keeps_sections by blast
  next
    case (Some p)
    have bit: "bit < unat (s_nr_blocks s)" "p = (i, bit)"
      using a Some by (auto simp: alloc_mem_block0_def Let_def s_def [symmetric] bit_def [symmetric] split: if_splits)
    have free: "\<not> bm_bit (s_bitmap s) bit" using find_next_zero_bit_loop_found bit(1) unfolding bit_def by blast
    obtain cur b where m': "m' = upd_block (i, bit) (\<lambda>_. b) ((upd_section i (\<lambda>s. s\<lparr>s_free_blocks := s_free_blocks s - 1,
        s_bm_current := cur, s_bitmap := bm_set_bit bit (s_bitmap s)\<rparr>) m)\<lparr>free_blocks := free_blocks m - 1\<rparr>)"
      using a Some by (auto simp: alloc_mem_block0_def Let_def s_def [symmetric] bit_def [symmetric] split: if_splits)
    let ?f = "\<lambda>s. s\<lparr>s_free_blocks := s_free_blocks s - 1, s_bm_current := cur,
        s_bitmap := bm_set_bit bit (s_bitmap s), s_blocks := (s_blocks s)[bit := b]\<rparr>"
    have "mem_sections m' = mem_sections (upd_section i ?f m)"
      unfolding m' by (cases "i < length (mem_sections m)") (simp_all add: upd_block_def upd_section_def list_update_beyond)
    moreover have "sec_keeps s (?f s)" using free by (auto simp: sec_keeps_def bm_set_bit_mono nth_upd)
    then have "keeps_blocks m (upd_section i ?f m)" unfolding s_def by (rule keeps_upd_section)
    ultimately show ?thesis using keeps_blocks_trans keeps_sections by blast
  qed
qed

lemma keeps_alloc_mem_block: "alloc_mem_block f m = (r, m') \<Longrightarrow> keeps_blocks m m'"
proof -
  have from_: "keeps_blocks m (snd (alloc_mem_block_from is f m))" for "is" f m
  proof (induction "is" f m rule: alloc_mem_block_from.induct)
    case (2 i "is" f m)
    obtain r m1 where a: "alloc_mem_block0 i f m = (r, m1)" by fastforce
    show ?case using 2 keeps_alloc_mem_block0 [OF a] keeps_blocks_trans a by (cases r) auto
  qed (simp add: keeps_sections)
  assume "alloc_mem_block f m = (r, m')"
  then have "mem_sections m' = mem_sections (snd (alloc_mem_block_from [0..<length (mem_sections m)] f m))"
    by (auto simp: alloc_mem_block_def Let_def split: option.splits if_splits prod.splits)
  then show ?thesis using from_ keeps_sections keeps_blocks_trans by metis
qed


text \<open>The steps of the page allocator, as rules that extend a state that keeps the blocks.\<close>

lemma keeps_step:
  assumes "keeps_blocks m m1"
  shows "keeps_blocks m (upd_pool io g m1)" "keeps_blocks m (upd_bitmap a h m1)" "keeps_blocks m (set_page_metas x ad c m1)"
    "keeps_blocks m (m1\<lparr>page_phy := pp\<rparr>)" "(\<And>b. b_phy_base (f b) = b_phy_base b) \<Longrightarrow> keeps_blocks m (upd_block p f m1)"
proof -
  have k: "keeps_blocks m m2" if "mem_sections m2 = mem_sections m1" for m2 using keeps_blocks_trans [OF assms keeps_sections [OF that]] .
  show "keeps_blocks m (upd_pool io g m1)" "keeps_blocks m (upd_bitmap a h m1)" "keeps_blocks m (set_page_metas x ad c m1)"
    "keeps_blocks m (m1\<lparr>page_phy := pp\<rparr>)" by (rule k, simp add: upd_pool_def)+
  show "keeps_blocks m (upd_block p f m1)" if "\<And>b. b_phy_base (f b) = b_phy_base b"
    by (rule keeps_blocks_trans [OF assms keeps_upd_block [OF that]])
qed

lemma keeps_self [simp]: "keeps_blocks m m"
  by (simp add: keeps_sections)

lemma keeps_get_page_meta_from: "keeps_blocks m m1 \<Longrightarrow> get_page_meta_from ps io m1 = (r, m') \<Longrightarrow> keeps_blocks m m'"
proof (induction ps io m1 rule: get_page_meta_from.induct)
  case (2 p ps io m1)
  show ?case
  proof (cases "find_next_zero_bit_loop (bitmaps m1 (b_pages_bitmap (the_block m1 p))) PAGE_METAS_IN_BLOCK
      (unat (b_bm_current (the_block m1 p))) \<ge> PAGE_METAS_IN_BLOCK")
    case True
    then show ?thesis using 2(1) [OF refl refl refl True keeps_step(1) [OF 2(2)]] 2(3) by (simp add: Let_def)
  next
    case False
    have "r = r \<Longrightarrow> keeps_blocks m m'"
      using 2(2,3) False by (auto simp: Let_def intro!: keeps_step)
    then show ?thesis by simp
  qed
qed simp

lemma keeps_get_page_meta:
  assumes "keeps_blocks m m1" "get_page_meta io m1 = (r, m')" shows "keeps_blocks m m'"
proof -
  obtain r1 m2 where a: "get_page_meta_from (pp_meta_list (get_pool io m1)) io m1 = (r1, m2)" by fastforce
  have k: "keeps_blocks m m2" by (rule keeps_get_page_meta_from [OF assms(1) a])
  obtain r2 m3 where b: "alloc_mem_block GPF_PAGE_META m2 = (r2, m3)" by fastforce
  have k3: "keeps_blocks m m3" using k keeps_alloc_mem_block [OF b] keeps_blocks_trans by blast
  show ?thesis using assms(2) a b k k3
    by (auto simp: get_page_meta_def Let_def split: option.splits intro!: keeps_step)
qed

lemma keeps_alloc_pages_from_block:
  "keeps_blocks m m1 \<Longrightarrow> alloc_pages_from_block p count align m1 = Some (r, m') \<Longrightarrow> keeps_blocks m m'"
  by (auto simp: alloc_pages_from_block_def Let_def split: option.splits if_splits intro!: keeps_step)

lemma keeps_alloc_pages_from_list:
  "keeps_blocks m m1 \<Longrightarrow> alloc_pages_from_list ps io count align m1 = Some (r, m') \<Longrightarrow> keeps_blocks m m'"
proof (induction ps io count align m1 rule: alloc_pages_from_list.induct)
  case (2 p ps io count align m1)
  then obtain r2 m2 where a: "alloc_pages_from_block p count align m1 = Some (r2, m2)" by (auto split: option.splits)
  have k: "keeps_blocks m m2" by (rule keeps_alloc_pages_from_block [OF 2(2) a])
  show ?case using 2 a k by (cases r2) (auto split: if_splits intro!: keeps_step)
qed simp

lemma keeps_alloc_pages_from_pool:
  assumes "keeps_blocks m m1" "alloc_pages_from_pool io count align flags m1 = Some (r, m')" shows "keeps_blocks m m'"
proof -
  obtain r2 m2 where a: "alloc_pages_from_list (pp_block_list (get_pool io m1)) io count align m1 = Some (r2, m2)"
    using assms(2) by (auto simp: alloc_pages_from_pool_def split: option.splits)
  have k: "keeps_blocks m m2" by (rule keeps_alloc_pages_from_list [OF assms(1) a])
  obtain r3 m3 where b: "alloc_mem_block flags m2 = (r3, m3)" by fastforce
  have k3: "keeps_blocks m m3" using k keeps_alloc_mem_block [OF b] keeps_blocks_trans by blast
  obtain r4 m4 where c: "get_page_meta io m3 = (r4, m4)" by fastforce
  have k4: "keeps_blocks m m4" by (rule keeps_get_page_meta [OF k3 c])
  show ?thesis using assms(2) a b c k k3 k4
    by (auto simp: alloc_pages_from_pool_def Let_def split: option.splits
        intro!: keeps_step elim!: keeps_alloc_pages_from_block [rotated])
qed

lemma keeps_alloc_pages_from_section0:
  assumes "secs_aligned m" "i < length (mem_sections m)" "is_page_section (mem_sections m ! i)"
    and "alloc_pages_from_section0 i count align m = Some (r, m')"
  shows "keeps_blocks m m'"
proof -
  have "\<not> is_block_section (mem_sections m ! i)" using assms(1-3) by (auto simp: secs_aligned_def)
  then have "keeps_blocks m (upd_section i (\<lambda>s. s\<lparr>s_bitmap := bitmap_set (s_bitmap s) pos count, s_bm_current := c s, s_free_blocks := n s\<rparr>) m)" for pos c n
    by (intro keeps_upd_section) (auto simp: sec_keeps_def)
  then show ?thesis using assms(4)
    by (auto simp: alloc_pages_from_section0_def Let_def split: option.splits if_splits intro!: keeps_step)
qed

lemma alloc_pages_from_section0_none: "alloc_pages_from_section0 i count align m = Some (None, m') \<Longrightarrow> m' = m"
  by (auto simp: alloc_pages_from_section0_def Let_def split: option.splits if_splits)

lemma keeps_alloc_pages_from_sections:
  assumes "secs_aligned m" "set is \<subseteq> {..<length (mem_sections m)}" "alloc_pages_from_sections is pages align m = Some (r, m')"
  shows "keeps_blocks m m'"
  using assms
proof (induction "is" pages align m rule: alloc_pages_from_sections.induct)
  case (2 i "is" pages align m)
  show ?case
  proof (cases "is_page_section (mem_sections m ! i) \<and> \<not> s_free_blocks (mem_sections m ! i) < word_of_int pages")
    case True
    then obtain r2 m2 where a: "alloc_pages_from_section0 i pages align m = Some (r2, m2)" using 2(6) by (auto split: option.splits)
    have k: "keeps_blocks m m2" using 2(4,5) True by (intro keeps_alloc_pages_from_section0 [OF _ _ _ a]) auto
    show ?thesis
    proof (cases r2)
      case None
      then show ?thesis using 2 True a alloc_pages_from_section0_none [of i pages align m m2] by auto
    next
      case (Some page)
      then show ?thesis using 2(6) True a k by auto
    qed
  next
    case False
    then have "alloc_pages_from_sections is pages align m = Some (r, m')" using 2(6) by (simp split: if_splits)
    then show ?thesis using 2(1,2) 2(4,5) False by (cases "is_page_section (mem_sections m ! i)") auto
  qed
qed simp

lemma keeps_alloc_pages:
  assumes "secs_aligned m" "alloc_pages pages align m = Some (r, m')" shows "keeps_blocks m m'"
proof (cases "pages \<le> 0 \<or> align = 0 \<or> 1 < align")
  case True
  then show ?thesis using assms keeps_alloc_pages_from_pool [OF keeps_self] by (auto simp: alloc_pages_def split: if_splits)
next
  case False
  then obtain r2 m2 where a: "alloc_pages_from_section pages align m = Some (r2, m2)" using assms(2) by (auto simp: alloc_pages_def split: option.splits)
  then have k: "keeps_blocks m m2" unfolding alloc_pages_from_section_def by (intro keeps_alloc_pages_from_sections [OF assms(1)]) auto
  show ?thesis using assms(2) False a k keeps_alloc_pages_from_pool [OF k] by (cases r2) (auto simp: alloc_pages_def)
qed

lemma keeps_page_steps: "page_steps m m' \<Longrightarrow> secs_aligned m \<Longrightarrow> keeps_blocks m m'"
proof (induction rule: rtranclp_induct)
  case (step m1 m2)
  then show ?case using keeps_alloc_pages keepsD(2) keeps_blocks_trans by blast
qed simp

section \<open>The blocks of a guest\<close>

lemma alloc_vm_blocks_taken:
  assumes "mm_ok m" "alloc_vm_blocks n ms m = (True, ms', m')"
  obtains ps fr where "length ps = n" "ms' = ms\<lparr>block_list := block_list ms @ ps, region_free := fr\<rparr>" "distinct ps"
    "keeps_blocks m m'" "\<forall>p\<in>set ps. block_valid m p \<and> \<not> block_taken m p \<and> unat (b_phy_base (the_block m' p)) = fst (block_rng m p)"
    "\<forall>q. block_taken m' q \<longleftrightarrow> q \<in> set ps \<or> block_taken m q"
proof -
  have "\<exists>ps fr. length ps = n \<and> ms' = ms\<lparr>block_list := block_list ms @ ps, region_free := fr\<rparr> \<and> distinct ps \<and> keeps_blocks m m' \<and>
    (\<forall>p\<in>set ps. block_valid m p \<and> \<not> block_taken m p \<and> unat (b_phy_base (the_block m' p)) = fst (block_rng m p)) \<and>
    (\<forall>q. block_taken m' q \<longleftrightarrow> q \<in> set ps \<or> block_taken m q)"
    using assms
  proof (induction n arbitrary: ms m)
    case 0
    have "ms' = ms\<lparr>block_list := block_list ms @ [], region_free := region_free ms\<rparr> \<and> m' = m" using 0(2) by simp
    then show ?case by (intro exI [of _ "[]"] exI [of _ "region_free ms"]) auto
  next
    case (Suc n)
    obtain r m1 where a: "alloc_mem_block GFB_VM m = (r, m1)" by fastforce
    obtain p where r: "r = Some p" using Suc.prems(2) a by (cases r) auto
    have g: "block_given m p GFB_VM m1" using alloc_mem_block_result [OF Suc.prems(1) a] r by simp
    let ?ms = "ms\<lparr>block_list := block_list ms @ [p], region_free := region_free ms - MEM_BLOCK_SIZE\<rparr>"
    have rest: "alloc_vm_blocks n ?ms m1 = (True, ms', m')" using Suc.prems(2) a r by simp
    have "mm_ok m1" using g by (simp add: block_given_def)
    from Suc.IH [OF this rest] obtain ps fr where ps: "length ps = n" "ms' = ?ms\<lparr>block_list := block_list ?ms @ ps, region_free := fr\<rparr>"
      "distinct ps" "keeps_blocks m1 m'"
      "\<forall>q\<in>set ps. block_valid m1 q \<and> \<not> block_taken m1 q \<and> unat (b_phy_base (the_block m' q)) = fst (block_rng m1 q)"
      "\<forall>q. block_taken m' q \<longleftrightarrow> q \<in> set ps \<or> block_taken m1 q" by auto
    have t: "block_taken m1 q \<longleftrightarrow> q = p \<or> block_taken m q" for q using g unfolding block_given_def by blast
    have "p \<notin> set ps" using ps(5) t by auto
    moreover have "ms' = ms\<lparr>block_list := block_list ms @ (p # ps), region_free := fr\<rparr>" using ps(2) by simp
    moreover have "keeps_blocks m m'" using keeps_alloc_mem_block [OF a] ps(4) keeps_blocks_trans by blast
    moreover have "unat (b_phy_base (the_block m' p)) = fst (block_rng m p)"
      using keepsD(6) [OF ps(4), of p] t g by (simp add: block_given_def)
    moreover have "block_valid m p \<and> \<not> block_taken m p" "block_valid m1 = block_valid m" "block_rng m1 = block_rng m"
      using g by (simp_all add: block_given_def)
    ultimately show ?case using ps(1,3,5,6) t by (intro exI [of _ "p # ps"] exI [of _ fr]) auto
  qed
  then show thesis using that by blast
qed

lemma block_phy:
  assumes "mm_ok m" "secs_aligned m" "block_valid m p"
  shows "fst (block_rng m p) mod 2 ^ 21 = 0" "fst (block_rng m p) + 2 ^ 21 \<le> 2 ^ 48"
proof -
  let ?s = "mem_sections m ! fst p"
  have s: "?s \<in> set (mem_sections m)" "is_block_section ?s" using assms(3) by (simp_all add: block_valid_def)
  then have a: "unat (s_phy_base ?s) mod 2 ^ 21 = 0" "unat (s_phy_base ?s) + unat (s_size ?s) \<le> 2 ^ 48"
    using assms(2) by (auto simp: secs_aligned_def)
  show "fst (block_rng m p) mod 2 ^ 21 = 0" using a(1) by (simp add: block_rng_def mod_add_eq [symmetric])
  show "fst (block_rng m p) + 2 ^ 21 \<le> 2 ^ 48"
    using block_in_section [OF assms(1,3)] a(2) by (simp add: inside_def sec_rng_def block_rng_def)
qed

lemma need_tables_block: "V mod 2 ^ 21 = 0 \<Longrightarrow> need_tables 1 V (2 ^ 21) = 2"
proof -
  assume "V mod 2 ^ 21 = 0"
  then obtain c where c: "V = c * 2 ^ 21" by (metis add.right_neutral div_mult_mod_eq)
  have e: "(V + 2 ^ 21 - 1) div 2 ^ 21 = c" unfolding c by (intro div_nat_eqI) auto
  have "(V + 2 ^ 21 - 1) div 2 ^ 30 = V div 2 ^ 30"
  proof -
    have d: "x div 2 ^ 30 = x div 2 ^ 21 div 2 ^ 9" for x :: nat by (simp add: div_mult2_eq flip: power_add)
    show ?thesis unfolding d e by (simp add: c)
  qed
  moreover have "(V + 2 ^ 21 - 1) div 2 ^ 21 = V div 2 ^ 21" unfolding e by (simp add: c)
  ultimately show ?thesis by (simp add: need_tables_def touched_def upt_rec)
qed

text \<open>One step of the second loop: a block of 2 MB is mapped as it is asked for, since everything is aligned.\<close>

lemma create_guest_mapping_block:
  assumes "unat base mod 2 ^ 21 = 0" "unat phy mod 2 ^ 21 = 0" "unat base + 2 ^ 21 \<le> 2 ^ 39"
  shows "create_guest_mapping ms base phy MEM_BLOCK_SIZE flags st = create_mem_mapping ms base phy 0x200000 flags st"
proof -
  have al: "ALIGN x 0x1000 = x" if "unat x mod 2 ^ 21 = 0" for x
  proof -
    have "unat x mod 2 ^ 12 = 0" using that mod_mod_cancel [of "2 ^ 12" "2 ^ 21" "unat x"] by (simp add: le_imp_power_dvd)
    then have "unat (ALIGN x (2 ^ 12)) = unat x" by (subst unat_ALIGN) (auto simp: div_mult_mod_eq [of "unat x", symmetric])
    then show ?thesis by (simp add: word_unat_eq_iff)
  qed
  have u: "unat (base + 0x200000) = unat base + 2 ^ 21" using assms(3) by (subst unat_add_u64) simp_all
  have "unat (BALIGN (base + 0x200000) (2 ^ 12)) = unat (base + 0x200000)"
  proof (subst unat_BALIGN)
    obtain c where "unat base = 2 ^ 21 * c" using assms(1) by (metis mod_0_imp_dvd dvdE)
    then obtain k where k: "unat (base + 0x200000) = 2 ^ 12 * k" using u by (intro that [of "512 * c + 512"]) simp
    show "(unat (base + 0x200000) + (2 ^ 12 - 1)) div 2 ^ 12 * 2 ^ 12 = unat (base + 0x200000)" unfolding k by simp
  qed (use assms(3) u in simp_all)
  then have "BALIGN (base + 0x200000) 0x1000 = base + 0x200000" by (simp add: word_unat_eq_iff)
  then show ?thesis using al [OF assms(1)] al [OF assms(2)] by (simp add: create_guest_mapping_def MEM_BLOCK_SIZE_def Let_def)
qed

text \<open>The list of blocks backs the range that begins at \<open>base\<close>: the translation of its addresses, and of the others.\<close>

definition backed :: "mm \<Rightarrow> (nat \<times> nat) list \<Rightarrow> nat \<Rightarrow> u64 \<Rightarrow> (u64 \<Rightarrow> u64) \<Rightarrow> (u64 \<Rightarrow> u64) \<Rightarrow> bool" where
  "backed m ps base pgd mem mem' \<longleftrightarrow> (\<forall>va < 2 ^ 39.
     if base \<le> va \<and> va < base + length ps * 2 ^ 21
     then \<exists>ek. walk mem' 1 pgd va = Some ek \<and> maps_to VM_NORMAL va (fst (block_rng m (ps ! ((va - base) div 2 ^ 21))) + (va - base) mod 2 ^ 21) ek
     else walk mem' 1 pgd va = walk mem 1 pgd va)"

lemma backed_cong:
  assumes "\<forall>p\<in>set ps. block_rng m' p = block_rng m p" shows "backed m' ps base pgd mem mem' = backed m ps base pgd mem mem'"
proof -
  have "block_rng m' (ps ! ((va - base) div 2 ^ 21)) = block_rng m (ps ! ((va - base) div 2 ^ 21))" if "base \<le> va \<and> va < base + length ps * 2 ^ 21" for va
  proof -
    have "(va - base) div 2 ^ 21 < length ps" using that by (intro less_mult_imp_div_less) linarith
    then show ?thesis using assms by simp
  qed
  then show ?thesis unfolding backed_def by (simp only: cong: if_cong)
qed

lemma backed_Cons:
  assumes a: "added VM_NORMAL base (fst (block_rng m p)) (2 ^ 21) 1 pgd own mem own' mem1" and root: "own pgd = Some (1, 0)"
    and b: "backed m ps (base + 2 ^ 21) pgd mem1 mem'"
  shows "backed m (p # ps) base pgd mem mem'"
  unfolding backed_def
proof (intro allI impI)
  fix va :: nat assume va: "va < 2 ^ 39"
  note later = b [unfolded backed_def, rule_format, OF va]
  have t0: "tid 1 va = 0" using tid_root [of va VM_NORMAL] va by (simp add: root_level_def VM_NORMAL_def VM_defs)
  consider (first) "base \<le> va" "va < base + 2 ^ 21" | (rest) "base + 2 ^ 21 \<le> va" "va < base + length (p # ps) * 2 ^ 21"
    | (out) "\<not> (base \<le> va \<and> va < base + length (p # ps) * 2 ^ 21)" by force
  then show "if base \<le> va \<and> va < base + length (p # ps) * 2 ^ 21
     then \<exists>ek. walk mem' 1 pgd va = Some ek \<and>
       maps_to VM_NORMAL va (fst (block_rng m ((p # ps) ! ((va - base) div 2 ^ 21))) + (va - base) mod 2 ^ 21) ek
     else walk mem' 1 pgd va = walk mem 1 pgd va"
  proof cases
    case first
    then have "walk mem' 1 pgd va = walk mem1 1 pgd va" using later by simp
    then show ?thesis using addedD(3) [OF a first] first by simp
  next
    case rest
    then have e: "va - base = (va - (base + 2 ^ 21)) + 2 ^ 21" by simp
    have "(va - base) div 2 ^ 21 = Suc ((va - (base + 2 ^ 21)) div 2 ^ 21)" "(va - base) mod 2 ^ 21 = (va - (base + 2 ^ 21)) mod 2 ^ 21"
      unfolding e by simp_all
    then show ?thesis using later rest by simp
  next
    case out
    then have "walk mem' 1 pgd va = walk mem1 1 pgd va" using later by auto
    moreover have "walk mem1 1 pgd va = walk mem 1 pgd va" using out root t0 by (intro addedD(4) [OF a]) auto
    ultimately show ?thesis unfolding if_not_P [OF out] by simp
  qed
qed

lemma map_vm_blocks_backed:
  assumes "tables_ok own (pt_mem st)" "own (pgd_base ms) = Some (1, 0)" "mm_ok (mmu_mm st)" "secs_aligned (mmu_mm st)"
    and "\<forall>p\<in>set ps. block_taken (mmu_mm st) p \<and> unat (b_phy_base (the_block (mmu_mm st) p)) = fst (block_rng (mmu_mm st) p)"
    and "unat base mod 2 ^ 21 = 0" "unat base + length ps * 2 ^ 21 \<le> 2 ^ 39"
    and "\<forall>va. unat base \<le> va \<and> va < unat base + length ps * 2 ^ 21 \<longrightarrow> walk (pt_mem st) 1 (pgd_base ms) va = None"
    and "page_supply (2 * length ps) (dom own) (mmu_mm st)"
  shows "\<exists>h st' own'. map_vm_blocks ps base ms st = Some (0, ms\<lparr>head := h\<rparr>, st') \<and> own \<subseteq>\<^sub>m own' \<and> tables_ok own' (pt_mem st') \<and>
    keeps_blocks (mmu_mm st) (mmu_mm st') \<and> backed (mmu_mm st) ps (unat base) (pgd_base ms) (pt_mem st) (pt_mem st')"
  using assms
proof (induction ps arbitrary: base ms st own)
  case Nil
  have "ms = ms\<lparr>head := head ms\<rparr>" by simp
  then show ?case using Nil by (intro exI [of _ "head ms"] exI [of _ st] exI [of _ own]) (auto simp: backed_def)
next
  case (Cons p ps)
  let ?m = "mmu_mm st" and ?pgd = "pgd_base ms"
  define phy where "phy = b_phy_base (the_block ?m p)"
  have fl: "root_level VM_NORMAL = 1" "VM_NORMAL AND VM_DES_MASK = 0" "VM_NORMAL AND VM_HOST = 0"
    by (simp_all add: root_level_def VM_NORMAL_def VM_defs)
  have p: "block_valid ?m p" "unat phy = fst (block_rng ?m p)" using Cons.prems(5) by (auto simp: phy_def block_taken_def)
  note phy = block_phy [OF Cons.prems(3,4) p(1), folded p(2)]
  have sz: "unat (0x200000 :: u64) = 2 ^ 21" by simp
  have le: "unat base + 2 ^ 21 \<le> 2 ^ 39" using Cons.prems(7) by simp
  have u: "unat (base + 0x200000) = unat base + 2 ^ 21" using le by (subst unat_add_u64) simp_all
  have n: "need_tables 1 (unat base) (2 ^ 21) = 2" by (rule need_tables_block [OF Cons.prems(6)])
  have m12: "unat base mod 4096 = 0" using Cons.prems(6) mod_mod_cancel [of "2 ^ 12" "2 ^ 21" "unat base"] by (simp add: le_imp_power_dvd)
  have sup: "page_supply (need_tables 1 (unat base) (2 ^ 21) + 2 * length ps) (dom own) ?m" using Cons.prems(9) n by simp
  have un: "\<forall>va. unat base \<le> va \<and> va < unat base + 2 ^ 21 \<longrightarrow> walk (pt_mem st) 1 ?pgd va = None" using Cons.prems(8) by simp
  obtain h st1 own1 where c: "create_mem_mapping ms base phy 0x200000 VM_NORMAL st = Some (0, ms\<lparr>head := h\<rparr>, st1)"
      "page_supply (2 * length ps) (dom own1) (mmu_mm st1)" "page_steps ?m (mmu_mm st1)"
    and a: "added VM_NORMAL (unat base) (unat phy) (2 ^ 21) 1 ?pgd own (pt_mem st) own1 (pt_mem st1)"
    by (rule create_mem_mapping_adds [of own st ms VM_NORMAL base "0x200000" phy "2 * length ps", unfolded fl sz,
          OF Cons.prems(1,2) refl _ phy(2) m12 _ _ _ un sup])
      (use le phy(1) Cons.prems(6) in simp_all)
  have k: "keeps_blocks ?m (mmu_mm st1)" by (rule keeps_page_steps [OF c(3) Cons.prems(4)])
  have blk: "\<forall>q\<in>set ps. block_taken (mmu_mm st1) q \<and> unat (b_phy_base (the_block (mmu_mm st1) q)) = fst (block_rng (mmu_mm st1) q)"
    using Cons.prems(5) keepsD(4,6) [OF k] by (simp add: block_taken_def)
  have un': "walk (pt_mem st1) 1 ?pgd va = None" if "unat base + 2 ^ 21 \<le> va" "va < unat base + 2 ^ 21 + length ps * 2 ^ 21" for va
  proof -
    have "va < 2 ^ 39" using that(2) Cons.prems(7) by simp
    then have "tid 1 va = 0" using tid_root [of va VM_NORMAL] fl by simp
    then have "walk (pt_mem st1) 1 ?pgd va = walk (pt_mem st) 1 ?pgd va" using Cons.prems(2) that(1) by (intro addedD(4) [OF a]) auto
    then show ?thesis using Cons.prems(8) that by simp
  qed
  have ih: "\<exists>h' st' own'. map_vm_blocks ps (base + 0x200000) (ms\<lparr>head := h\<rparr>) st1 = Some (0, ms\<lparr>head := h\<rparr>\<lparr>head := h'\<rparr>, st') \<and>
      own1 \<subseteq>\<^sub>m own' \<and> tables_ok own' (pt_mem st') \<and> keeps_blocks (mmu_mm st1) (mmu_mm st') \<and>
      backed (mmu_mm st1) ps (unat (base + 0x200000)) (pgd_base (ms\<lparr>head := h\<rparr>)) (pt_mem st1) (pt_mem st')"
    by (rule Cons.IH)
      (use addedD(2) [OF a] addedD(6) [OF a Cons.prems(2)] keepsD(2,5) [OF k] Cons.prems(3,4,6,7) blk un' u c(2) in simp_all)
  then obtain h' st' own' where r: "map_vm_blocks ps (base + 0x200000) (ms\<lparr>head := h\<rparr>) st1 = Some (0, ms\<lparr>head := h'\<rparr>, st')"
      "own1 \<subseteq>\<^sub>m own'" "tables_ok own' (pt_mem st')" "keeps_blocks (mmu_mm st1) (mmu_mm st')"
      "backed (mmu_mm st1) ps (unat base + 2 ^ 21) ?pgd (pt_mem st1) (pt_mem st')" by (auto simp: u)
  have "\<forall>q\<in>set ps. block_rng (mmu_mm st1) q = block_rng ?m q" using Cons.prems(5) keepsD(4) [OF k] by (simp add: block_taken_def)
  from r(5) [unfolded backed_cong [OF this]]
  have "backed ?m (p # ps) (unat base) ?pgd (pt_mem st) (pt_mem st')"
    by (rule backed_Cons [OF a [unfolded p(2)] Cons.prems(2)])
  moreover have "map_vm_blocks (p # ps) base ms st = Some (0, ms\<lparr>head := h'\<rparr>, st')"
    using c(1) r(1) create_guest_mapping_block [OF Cons.prems(6) phy(1) le, of ms VM_NORMAL st]
    by (simp add: phy_def MEM_BLOCK_SIZE_def)
  moreover have "own \<subseteq>\<^sub>m own'" using addedD(1) [OF a] r(2) by (rule map_le_trans)
  ultimately show ?case using r(3) keeps_blocks_trans [OF k r(4)] by blast
qed

section \<open>The memory of a guest is its own\<close>

text \<open>
  C9. \<^verbatim>\<open>alloc_vm_memory\<close> on a machine whose region of \<open>n\<close> blocks of 2 MB is aligned and not mapped yet, when the first loop gets its
  blocks and two pages for tables are left for each of them: it returns 0; the machine has \<open>n\<close> blocks, which were free before,
  are taken afterwards and do not overlap each other or any block that was handed out before, so that no memory of
  another machine is among them; every address of the region translates into the block of its 2 MB, as normal memory; every other
  address of the machine translates as before.
\<close>

theorem alloc_vm_memory_isolated:
  assumes "tables_ok own (pt_mem st)" "own (pgd_base ms) = Some (1, 0)" "mm_ok (mmu_mm st)" "secs_aligned (mmu_mm st)" "block_list ms = []"
    and "unat (r_size (region0 ms)) = n * 2 ^ 21" "unat (r_vir_base (region0 ms)) = V" "V mod 2 ^ 21 = 0" "V + n * 2 ^ 21 \<le> 2 ^ 39"
    and "\<forall>va. V \<le> va \<and> va < V + n * 2 ^ 21 \<longrightarrow> walk (pt_mem st) 1 (pgd_base ms) va = None"
    and "alloc_vm_blocks n ms (mmu_mm st) = (True, ms1, m1)" "page_supply (2 * n) (dom own) m1"
  shows "\<exists>ms' st'. alloc_vm_memory ms st = Some (0, ms', st') \<and> length (block_list ms') = n \<and>
    (\<forall>p\<in>set (block_list ms'). \<not> block_taken (mmu_mm st) p \<and> block_taken (mmu_mm st') p) \<and>
    (\<forall>i < n. \<forall>q. block_taken (mmu_mm st) q \<or> (\<exists>j < n. j \<noteq> i \<and> q = block_list ms' ! j) \<longrightarrow>
       apart (block_rng (mmu_mm st) (block_list ms' ! i)) (block_rng (mmu_mm st) q)) \<and>
    (\<forall>va < 2 ^ 39.
       if V \<le> va \<and> va < V + n * 2 ^ 21
       then \<exists>d\<in>{VM_DES_BLOCK, VM_DES_PAGE}. translate (pt_mem st') 1 (pgd_base ms) va =
         Some (fst (block_rng (mmu_mm st) (block_list ms' ! ((va - V) div 2 ^ 21))) + (va - V) mod 2 ^ 21, page_table_description (VM_NORMAL OR d))
       else translate (pt_mem st') 1 (pgd_base ms) va = translate (pt_mem st) 1 (pgd_base ms) va)"
proof -
  let ?m = "mmu_mm st" and ?base = "r_vir_base (region0 ms)"
  obtain ps fr where ps: "length ps = n" "ms1 = ms\<lparr>block_list := ps, region_free := fr\<rparr>" "distinct ps" "keeps_blocks ?m m1"
    "\<forall>p\<in>set ps. block_valid ?m p \<and> \<not> block_taken ?m p \<and> unat (b_phy_base (the_block m1 p)) = fst (block_rng ?m p)"
    "\<forall>q. block_taken m1 q \<longleftrightarrow> q \<in> set ps \<or> block_taken ?m q"
    using alloc_vm_blocks_taken [OF assms(3,11)] assms(5) by (metis append_Nil)
  have rng: "block_rng m1 p = block_rng ?m p" if "p \<in> set ps" for p using that ps(5) keepsD(4) [OF ps(4)] by blast
  let ?st1 = "st\<lparr>mmu_mm := m1\<rparr>"
  have blk: "\<forall>p\<in>set ps. block_taken m1 p \<and> unat (b_phy_base (the_block m1 p)) = fst (block_rng m1 p)" using ps(5,6) rng by metis
  have "\<exists>h st' own'. map_vm_blocks ps ?base ms1 ?st1 = Some (0, ms1\<lparr>head := h\<rparr>, st') \<and> own \<subseteq>\<^sub>m own' \<and> tables_ok own' (pt_mem st') \<and>
      keeps_blocks (mmu_mm ?st1) (mmu_mm st') \<and> backed (mmu_mm ?st1) ps (unat ?base) (pgd_base ms1) (pt_mem ?st1) (pt_mem st')"
    by (rule map_vm_blocks_backed) (use assms(1,2,3,4,7-10,12) ps(1,2) blk keepsD(2,5) [OF ps(4)] in simp_all)
  then obtain h st' where r: "map_vm_blocks ps ?base ms1 ?st1 = Some (0, ms1\<lparr>head := h\<rparr>, st')" "keeps_blocks m1 (mmu_mm st')"
      "backed m1 ps V (pgd_base ms) (pt_mem st) (pt_mem st')" using ps(2) assms(7) by auto
  have al: "ALIGN ?base MEM_BLOCK_SIZE = ?base"
  proof -
    have "unat (ALIGN ?base (2 ^ 21)) = unat ?base" using assms(7,8) by (subst unat_ALIGN) auto
    then show ?thesis by (simp add: MEM_BLOCK_SIZE_def word_unat_eq_iff)
  qed
  have "n \<le> 2 ^ 18" using assms(9) by simp
  then have cnt: "nat (sint (ucast (drop_bit MEM_BLOCK_SHIFT (r_size (region0 ms))) :: 32 word)) = n"
    by (subst sint_ucast_small) (simp_all add: MEM_BLOCK_SHIFT_def unat_drop_bit assms(6))
  have run: "alloc_vm_memory ms st = Some (0, ms1\<lparr>head := h\<rparr>, st')"
    unfolding alloc_vm_memory_def Let_def cnt al assms(11) using r(1) ps(2) by simp
  have bl: "block_list (ms1\<lparr>head := h\<rparr>) = ps" by (simp add: ps(2))
  have taken: "\<forall>p\<in>set ps. \<not> block_taken ?m p \<and> block_taken (mmu_mm st') p" using ps(5,6) keepsD(6) [OF r(2)] by blast
  have ap: "apart (block_rng ?m (ps ! i)) (block_rng ?m q)"
    if "i < n" "block_taken ?m q \<or> (\<exists>j < n. j \<noteq> i \<and> q = ps ! j)" for i q
  proof -
    have "ps ! i \<in> set ps" using that(1) ps(1) by simp
    moreover have "block_valid ?m q \<and> q \<noteq> ps ! i"
      using that ps(1,3,5) calculation by (auto simp: block_taken_def nth_eq_iff_index_eq)
    ultimately show ?thesis using ps(5) by (intro blocks_apart [OF assms(3)]) auto
  qed
  have "\<forall>p\<in>set ps. block_rng m1 p = block_rng ?m p" using rng by blast
  note w = r(3) [unfolded backed_cong [OF this], unfolded backed_def ps(1), rule_format]
  have tr: "if V \<le> va \<and> va < V + n * 2 ^ 21
       then \<exists>d\<in>{VM_DES_BLOCK, VM_DES_PAGE}. translate (pt_mem st') 1 (pgd_base ms) va =
         Some (fst (block_rng ?m (ps ! ((va - V) div 2 ^ 21))) + (va - V) mod 2 ^ 21, page_table_description (VM_NORMAL OR d))
       else translate (pt_mem st') 1 (pgd_base ms) va = translate (pt_mem st) 1 (pgd_base ms) va" if va: "va < 2 ^ 39" for va
  proof (cases "V \<le> va \<and> va < V + n * 2 ^ 21")
    case True
    then obtain ek where "walk (pt_mem st') 1 (pgd_base ms) va = Some ek"
        "maps_to VM_NORMAL va (fst (block_rng ?m (ps ! ((va - V) div 2 ^ 21))) + (va - V) mod 2 ^ 21) ek"
      using w [OF va] unfolding if_P [OF True] by blast
    from translate_maps_to [OF _ this] show ?thesis using True by (simp add: VM_NORMAL_def VM_defs)
  next
    case False
    then have "walk (pt_mem st') 1 (pgd_base ms) va = walk (pt_mem st) 1 (pgd_base ms) va" using w [OF va] unfolding if_not_P [OF False] by blast
    then show ?thesis unfolding if_not_P [OF False] translate_def by (simp only:)
  qed
  show ?thesis using run taken ap tr ps(1) unfolding bl [symmetric] by blast
qed

text \<open>A machine with two free blocks and 64 pages, and a guest whose region of 4 MB is at 1 GB.\<close>

definition vm_ram :: mm where
  "vm_ram = two_blocks\<lparr>mem_sections := [\<lparr>s_phy_base = 0x80000000, s_id = 0, s_type = MEM_SECTION_F_NORMAL OR MEM_SECTION_F_BLOCK,
     s_size = 0x400000, s_nr_blocks = 2, s_free_blocks = 2, s_bitmap = [0], s_bm_end = 2, s_bm_current = 0,
     s_blocks = replicate 2 \<lparr>b_phy_base = 0, b_flags = 0, b_free_pages = 0, b_nr_pages = 0, b_bm_current = 0, b_pages_bitmap = 0\<rparr>,
     s_pages = 0\<rparr>, hd (mem_sections pages_64)]\<rparr>"

definition small_guest :: mm_struct where
  "small_guest = empty_guest\<lparr>memory_regions := [\<lparr>r_flags = 0, r_phy_base = 0, r_vir_base = 0x40000000, r_size = 0x400000\<rparr>],
     region_free := 0x400000\<rparr>"

theorem alloc_vm_memory_isolated_witness:
  "\<exists>ms' st' p q a b. alloc_vm_memory small_guest \<lparr>mmu_mm = vm_ram, pt_mem = (\<lambda>_. 0)\<rparr> = Some (0, ms', st') \<and> block_list ms' = [p, q] \<and> p \<noteq> q \<and>
     translate (pt_mem st') 1 0x60000000 0x40001234 = Some (fst (block_rng vm_ram p) + 0x1234, a) \<and>
     translate (pt_mem st') 1 0x60000000 0x40201234 = Some (fst (block_rng vm_ram q) + 0x1234, b)"
proof -
  let ?own = "[0x60000000 \<mapsto> (1, 0)] :: u64 \<rightharpoonup> nat \<times> nat" and ?st = "\<lparr>mmu_mm = vm_ram, pt_mem = (\<lambda>_. 0)\<rparr>"
  have t: "tables_ok ?own (pt_mem ?st)" using tables_ok_empty [of "0x60000000" 1] by (simp add: page_ok_def)
  have ok: "mm_ok vm_ram" "secs_aligned vm_ram"
    by (simp_all add: mm_ok_def secs_aligned_def vm_ram_def pages_64_def sec_ok_def sec_rng_def apart_def MEM_SECTION_F_BLOCK_def
        MEM_SECTION_F_PAGE_def MEM_SECTION_F_NORMAL_def)
  obtain ms1 m1 where a: "alloc_vm_blocks 2 small_guest vm_ram = (True, ms1, m1)"
  proof -
    have "fst (alloc_vm_blocks 2 small_guest vm_ram)" unfolding numeral_2_eq_2 by code_simp
    then show thesis using that by (metis (full_types) prod.collapse)
  qed
  have sup: "page_supply (2 * 2) (dom ?own) m1"
  proof (rule page_supplyI)
    have "next_pages 4 (snd (snd (alloc_vm_blocks 2 small_guest vm_ram))) = Some [0x50000000, 0x50001000, 0x50002000, 0x50003000]" by code_simp
    then show "next_pages (2 * 2) m1 = Some [0x50000000, 0x50001000, 0x50002000, 0x50003000]" by (simp add: a)
  qed (auto simp: page_ok_def)
  have g: "pgd_base small_guest = 0x60000000" "block_list small_guest = []" "region0 small_guest = \<lparr>r_flags = 0, r_phy_base = 0, r_vir_base = 0x40000000, r_size = 0x400000\<rparr>"
    by (simp_all add: small_guest_def empty_guest_def region0_def)
  have "\<exists>ms' st'. alloc_vm_memory small_guest ?st = Some (0, ms', st') \<and> length (block_list ms') = 2 \<and>
    (\<forall>p\<in>set (block_list ms'). \<not> block_taken (mmu_mm ?st) p \<and> block_taken (mmu_mm st') p) \<and>
    (\<forall>i < 2. \<forall>q. block_taken (mmu_mm ?st) q \<or> (\<exists>j < 2. j \<noteq> i \<and> q = block_list ms' ! j) \<longrightarrow>
       apart (block_rng (mmu_mm ?st) (block_list ms' ! i)) (block_rng (mmu_mm ?st) q)) \<and>
    (\<forall>va < 2 ^ 39.
       if 0x40000000 \<le> va \<and> va < 0x40000000 + 2 * 2 ^ 21
       then \<exists>d\<in>{VM_DES_BLOCK, VM_DES_PAGE}. translate (pt_mem st') 1 (pgd_base small_guest) va =
         Some (fst (block_rng (mmu_mm ?st) (block_list ms' ! ((va - 0x40000000) div 2 ^ 21))) + (va - 0x40000000) mod 2 ^ 21, page_table_description (VM_NORMAL OR d))
       else translate (pt_mem st') 1 (pgd_base small_guest) va = translate (pt_mem ?st) 1 (pgd_base small_guest) va)"
    using a ok t sup by (intro alloc_vm_memory_isolated [where own = ?own]) (simp_all add: g walk_empty)
  then obtain ms' st' where r: "alloc_vm_memory small_guest ?st = Some (0, ms', st')" "length (block_list ms') = 2"
    and ap: "\<forall>i < 2. \<forall>q. block_taken (mmu_mm ?st) q \<or> (\<exists>j < 2. j \<noteq> i \<and> q = block_list ms' ! j) \<longrightarrow>
       apart (block_rng (mmu_mm ?st) (block_list ms' ! i)) (block_rng (mmu_mm ?st) q)"
    and tr: "\<forall>va < 2 ^ 39.
       if 0x40000000 \<le> va \<and> va < 0x40000000 + 2 * 2 ^ 21
       then \<exists>d\<in>{VM_DES_BLOCK, VM_DES_PAGE}. translate (pt_mem st') 1 (pgd_base small_guest) va =
         Some (fst (block_rng (mmu_mm ?st) (block_list ms' ! ((va - 0x40000000) div 2 ^ 21))) + (va - 0x40000000) mod 2 ^ 21, page_table_description (VM_NORMAL OR d))
       else translate (pt_mem st') 1 (pgd_base small_guest) va = translate (pt_mem ?st) 1 (pgd_base small_guest) va"
    by blast
  obtain p q where pq: "block_list ms' = [p, q]" using r(2) by (auto simp: length_Suc_conv numeral_2_eq_2)
  have "apart (block_rng vm_ram p) (block_rng vm_ram q)" using ap [rule_format, of 0 q] by (force simp: pq)
  then have "p \<noteq> q" by (auto simp: apart_def block_rng_def)
  moreover obtain a b where "translate (pt_mem st') 1 0x60000000 0x40001234 = Some (fst (block_rng vm_ram p) + 0x1234, a)"
    "translate (pt_mem st') 1 0x60000000 0x40201234 = Some (fst (block_rng vm_ram q) + 0x1234, b)"
    using spec [OF tr, of "0x40001234"] spec [OF tr, of "0x40201234"] by (auto simp: g pq simp del: One_nat_def)
  ultimately show ?thesis using r(1) pq by blast
qed

end
