(* ===== verification/Timer.thy ===== *)
theory Timer
  imports Minos_Prelude Klist
begin

text \<open>
  The timers: \<^verbatim>\<open>os/core/timer.c\<close>. A timer is its address, which is also the node by which it hangs in the active list of a CPU; the lists
  are those of Klist, with 0 for NULL. The calls of \<^verbatim>\<open>enable_timer\<close>, which program the comparator of a CPU, are recorded. The callback of
  a timer runs code of its owner, which may use the timers: it is a parameter, a function of its address, its data, the state and the
  owner's own state \<open>'x\<close>, and fails with \<open>None\<close> when it faults.
\<close>

section \<open>State\<close>

definition DEFAULT_TIMER_MARGIN :: u64 where "DEFAULT_TIMER_MARGIN = 10"

record timer_list =
  timer_cpu :: nat
  del_request :: bool
  expires :: u64
  timer_function :: nat
  timer_data :: u64
  timer_timers :: nat

record timers =
  running_expires :: u64
  running_timer :: nat

text \<open>\<open>active c\<close> is the address of the head of the active list of CPU \<open>c\<close>.\<close>

record timer_state =
  timer_of :: "nat \<Rightarrow> timer_list"
  tlinks :: list_store
  timers_of :: "nat \<Rightarrow> timers"
  programmed :: "(nat \<times> u64) list"

definition active :: "nat \<Rightarrow> nat" where "active c = 2 * c + 65"

definition upd_timer :: "nat \<Rightarrow> (timer_list \<Rightarrow> timer_list) \<Rightarrow> timer_state \<Rightarrow> timer_state" where
  "upd_timer p f st = st\<lparr>timer_of := (timer_of st)(p := f (timer_of st p))\<rparr>"

definition upd_timers :: "nat \<Rightarrow> (timers \<Rightarrow> timers) \<Rightarrow> timer_state \<Rightarrow> timer_state" where
  "upd_timers c f st = st\<lparr>timers_of := (timers_of st)(c := f (timers_of st c))\<rparr>"

definition upd_tlinks :: "(list_store \<Rightarrow> list_store) \<Rightarrow> timer_state \<Rightarrow> timer_state" where
  "upd_tlinks f st = st\<lparr>tlinks := f (tlinks st)\<rparr>"

definition enable_timer :: "nat \<Rightarrow> u64 \<Rightarrow> timer_state \<Rightarrow> timer_state" where
  "enable_timer cpu e st = st\<lparr>programmed := programmed st @ [(cpu, e)]\<rparr>"

lemmas tupd_defs = upd_timer_def upd_timers_def upd_tlinks_def enable_timer_def

section \<open>Operations\<close>

definition timer_pending :: "nat \<Rightarrow> timer_state \<Rightarrow> bool" where
  "timer_pending p st \<longleftrightarrow> nxt (tlinks st) p \<noteq> 0"

text \<open>Taking a timer off its list, which leaves NULL as its next pointer.\<close>

definition timer_unlink :: "nat \<Rightarrow> timer_state \<Rightarrow> timer_state" where
  "timer_unlink p = upd_tlinks (\<lambda>h. set_nxt p 0 (list_del p h))"

definition detach_timer :: "nat \<Rightarrow> timer_state \<Rightarrow> timer_state" where
  "detach_timer p st = (if timer_pending p st then upd_timer p (\<lambda>t. t\<lparr>del_request := False\<rparr>) (timer_unlink p st) else st)"

definition slack_expires :: "u64 \<Rightarrow> u64" where
  "slack_expires e = e"

text \<open>\<^verbatim>\<open>__mod_timer\<close>: \<^verbatim>\<open>enable_timer\<close> programs the CPU the code runs on, which is the one of the timer.\<close>

definition mod_timer0 :: "nat \<Rightarrow> nat \<Rightarrow> timer_state \<Rightarrow> timer_state" where
  "mod_timer0 cpu p st =
    (let c = timer_timers (timer_of st p);
         st = detach_timer p st;
         st = upd_tlinks (list_add_tail (active c) p) st;
         st = upd_timer p (\<lambda>t. t\<lparr>del_request := False\<rparr>) st;
         e = expires (timer_of st p)
     in if running_expires (timers_of st c) > e \<or> running_expires (timers_of st c) = 0
        then enable_timer cpu e (upd_timers c (\<lambda>t. t\<lparr>running_expires := e\<rparr>) st)
        else st)"

definition mod_timer :: "nat \<Rightarrow> nat \<Rightarrow> u64 \<Rightarrow> timer_state \<Rightarrow> timer_state" where
  "mod_timer cpu p e st =
    (let st = upd_timer p (\<lambda>t. t\<lparr>expires := slack_expires e\<rparr>) st;
         st = (if timer_cpu (timer_of st p) \<noteq> cpu
               then upd_timer p (\<lambda>t. t\<lparr>timer_cpu := cpu, timer_timers := cpu\<rparr>) (detach_timer p st) else st)
     in mod_timer0 cpu p st)"

definition init_timer_on_cpu :: "nat \<Rightarrow> nat \<Rightarrow> timer_state \<Rightarrow> timer_state" where
  "init_timer_on_cpu p cpu st =
    upd_timer p (\<lambda>t. t\<lparr>expires := 0, timer_function := 0, timer_data := 0, timer_timers := cpu, timer_cpu := cpu\<rparr>)
      (upd_tlinks (\<lambda>h. set_nxt p 0 (init_list p h)) st)"

definition init_timer :: "nat \<Rightarrow> nat \<Rightarrow> timer_state \<Rightarrow> timer_state option" where
  "init_timer cpu p st = (if p = 0 then None else Some (init_timer_on_cpu p cpu st))"

definition del_timer :: "nat \<Rightarrow> nat \<Rightarrow> timer_state \<Rightarrow> timer_state" where
  "del_timer cpu p st =
    (if \<not> timer_pending p st then st
     else if timer_cpu (timer_of st p) = cpu then detach_timer p st
     else upd_timer p (\<lambda>t. t\<lparr>del_request := True\<rparr>) st)"

definition add_timer :: "nat \<Rightarrow> nat \<Rightarrow> timer_state \<Rightarrow> timer_state option" where
  "add_timer cpu p st = (if timer_pending p st then None else Some (mod_timer cpu p (expires (timer_of st p)) st))"

definition init_timers :: "nat \<Rightarrow> timer_state \<Rightarrow> timer_state" where
  "init_timers cpus st =
    fold (\<lambda>c st. upd_timers c (\<lambda>t. t\<lparr>running_expires := 0\<rparr>) (upd_tlinks (init_list (active c)) st)) [0..<cpus] st"

text \<open>
  The body of the loop of \<^verbatim>\<open>run_timer_softirq\<close> for the timer \<open>p\<close>: a timer that is due leaves the list and its callback runs.
  The loop reads the next pointer before the body; it ends at the head of the list or at NULL.
\<close>

definition timer_fire :: "(nat \<Rightarrow> u64 \<Rightarrow> timer_state \<times> 'x \<Rightarrow> (timer_state \<times> 'x) option) \<Rightarrow> nat \<Rightarrow> nat \<Rightarrow> timer_state \<times> 'x \<Rightarrow> (timer_state \<times> 'x) option" where
  "timer_fire run cpu p s =
    (let (st, x) = s; fn = timer_function (timer_of st p);
         st = upd_timers cpu (\<lambda>t. t\<lparr>running_timer := p\<rparr>) (timer_unlink p st)
     in if fn = 0 then None else run fn (timer_data (timer_of st p)) (st, x))"

definition timer_turn :: "(nat \<Rightarrow> u64 \<Rightarrow> timer_state \<times> 'x \<Rightarrow> (timer_state \<times> 'x) option) \<Rightarrow> nat \<Rightarrow> u64 \<Rightarrow> nat \<Rightarrow> u64 \<Rightarrow> timer_state \<times> 'x
    \<Rightarrow> (u64 \<times> timer_state \<times> 'x) option" where
  "timer_turn run cpu now p e s =
    (if del_request (timer_of (fst s) p) then Some (e, upd_timer p (\<lambda>t. t\<lparr>expires := - 1\<rparr>) (timer_unlink p (fst s)), snd s)
     else
       case (if expires (timer_of (fst s) p) \<le> now + DEFAULT_TIMER_MARGIN then timer_fire run cpu p s else Some s) of
         None \<Rightarrow> None
       | Some (st, x) \<Rightarrow> Some (if timer_pending p st \<and> e > expires (timer_of st p) then expires (timer_of st p) else e, st, x))"

partial_function (option) timer_loop ::
    "(nat \<Rightarrow> u64 \<Rightarrow> timer_state \<times> 'x \<Rightarrow> (timer_state \<times> 'x) option) \<Rightarrow> nat \<Rightarrow> u64 \<Rightarrow> nat \<Rightarrow> u64 \<Rightarrow> timer_state \<times> 'x \<Rightarrow> (u64 \<times> timer_state \<times> 'x) option" where
  "timer_loop run cpu now p e s =
    (if p = active cpu \<or> p = 0 then Some (e, s)
     else let n = nxt (tlinks (fst s)) p in Option.bind (timer_turn run cpu now p e s) (\<lambda>(e, s). timer_loop run cpu now n e s))"

definition run_timer_softirq :: "(nat \<Rightarrow> u64 \<Rightarrow> timer_state \<times> 'x \<Rightarrow> (timer_state \<times> 'x) option) \<Rightarrow> nat \<Rightarrow> u64 \<Rightarrow> timer_state \<times> 'x \<Rightarrow> (timer_state \<times> 'x) option" where
  "run_timer_softirq run cpu now s =
    (case timer_loop run cpu now (nxt (tlinks (fst s)) (active cpu)) (- 1) s of
       None \<Rightarrow> None
     | Some (e, st, x) \<Rightarrow>
         Some (if e \<noteq> - 1 then enable_timer cpu e (upd_timers cpu (\<lambda>t. t\<lparr>running_expires := e\<rparr>) st)
               else upd_timers cpu (\<lambda>t. t\<lparr>running_expires := 0\<rparr>) st, x))"

section \<open>The active list of a CPU\<close>

text \<open>\<open>P\<close> are the timers of the CPU; \<^verbatim>\<open>entry.next\<close> is NULL exactly for those that are not active.\<close>

definition tl_ok :: "nat \<Rightarrow> nat set \<Rightarrow> nat list \<Rightarrow> timer_state \<Rightarrow> bool" where
  "tl_ok cpu P xs st \<longleftrightarrow> dll (tlinks st) (active cpu) xs \<and> set xs \<subseteq> P \<and> active cpu \<notin> P \<and> 0 \<notin> P \<and> (\<forall>p\<in>P. timer_pending p st \<longleftrightarrow> p \<in> set xs)"

lemma active_neq_0 [simp]: "active c \<noteq> 0" by (simp add: active_def)

lemma tl_okI:
  assumes "dll (tlinks st) (active cpu) xs" "set xs \<subseteq> P" "active cpu \<notin> P" "0 \<notin> P" "\<And>p. p \<in> P \<Longrightarrow> p \<notin> set xs \<Longrightarrow> nxt (tlinks st) p = 0"
  shows "tl_ok cpu P xs st"
proof -
  have "nxt (tlinks st) p \<noteq> 0" if "p \<in> set xs" for p
  proof -
    have "nxt (tlinks st) p \<in> insert (active cpu) (set xs)" using dll_next_mem [OF assms(1), of p] that by auto
    moreover have "0 \<notin> insert (active cpu) (set xs)" using assms(2,4) active_neq_0 [of cpu, symmetric] by blast
    ultimately show ?thesis by metis
  qed
  then have "timer_pending p st \<longleftrightarrow> p \<in> set xs" if "p \<in> P" for p using assms(5) [OF that] by (cases "p \<in> set xs") (simp_all add: timer_pending_def)
  then show ?thesis using assms(1-4) by (simp add: tl_ok_def)
qed

lemma tl_okD:
  assumes "tl_ok cpu P xs st"
  shows "dll (tlinks st) (active cpu) xs" "set xs \<subseteq> P" "active cpu \<notin> P" "0 \<notin> P" "distinct xs" "p \<in> P \<Longrightarrow> timer_pending p st \<longleftrightarrow> p \<in> set xs"
    "p \<in> P \<Longrightarrow> p \<notin> set xs \<Longrightarrow> nxt (tlinks st) p = 0"
  using assms dll_imp_distinct by (auto simp: tl_ok_def timer_pending_def)

lemma tl_ok_cong: "tlinks st' = tlinks st \<Longrightarrow> tl_ok cpu P xs st' = tl_ok cpu P xs st"
  by (simp add: tl_ok_def timer_pending_def)

lemma tl_ok_unlink:
  assumes ok: "tl_ok cpu P xs st" and p: "p \<in> set xs"
  shows "tl_ok cpu P (remove1 p xs) (timer_unlink p st)"
proof (rule tl_okI)
  note d = tl_okD [OF ok]
  let ?h = "set_nxt p 0 (list_del p (tlinks st))"
  have l: "tlinks (timer_unlink p st) = ?h" by (simp add: timer_unlink_def tupd_defs)
  have n: "p \<notin> insert (active cpu) (set (remove1 p xs))" using d(2,3,5) p by auto
  have "dll ?h (active cpu) (remove1 p xs)"
    using list_del_dll [OF d(1) p] n dll_frame [of "active cpu" "remove1 p xs" ?h "list_del p (tlinks st)"] by auto
  then show "dll (tlinks (timer_unlink p st)) (active cpu) (remove1 p xs)" unfolding l .
  show "nxt (tlinks (timer_unlink p st)) q = 0" if "q \<in> P" "q \<notin> set (remove1 p xs)" for q
  proof (cases "q = p")
    case False
    then have q: "q \<notin> set xs" using that(2) by (simp add: in_set_remove1)
    then have "nxt (list_del p (tlinks st)) q = nxt (tlinks st) q" using d(3) that(1) by (intro nxt_del_other [OF d(1) p]) auto
    then show ?thesis unfolding l using d(7) [OF that(1) q] False by simp
  qed (simp add: l)
qed (use tl_okD [OF ok] set_remove1_subset [of p xs] in auto)

lemma tl_ok_add:
  assumes ok: "tl_ok cpu P xs st" and p: "p \<in> P" "p \<notin> set xs"
  shows "tl_ok cpu P (xs @ [p]) (upd_tlinks (list_add_tail (active cpu) p) st)"
proof (rule tl_okI)
  note d = tl_okD [OF ok]
  have l: "tlinks (upd_tlinks (list_add_tail (active cpu) p) st) = list_add_tail (active cpu) p (tlinks st)" by (simp add: tupd_defs)
  show "dll (tlinks (upd_tlinks (list_add_tail (active cpu) p) st)) (active cpu) (xs @ [p])"
    unfolding l using p d(3) by (intro list_add_tail_dll [OF d(1)]) auto
  show "nxt (tlinks (upd_tlinks (list_add_tail (active cpu) p) st)) q = 0" if "q \<in> P" "q \<notin> set (xs @ [p])" for q
    unfolding l using nxt_add_tail_other [OF d(1), of q p] d(3) d(7) [of q] that by auto
qed (use tl_okD [OF ok] p in auto)

text \<open>Arming a timer of the CPU that is not active puts it at the end of the list.\<close>

lemma mod_timer_ok:
  assumes ok: "tl_ok cpu P xs st" and p: "p \<in> P" "p \<notin> set xs" and c: "timer_cpu (timer_of st p) = cpu" "timer_timers (timer_of st p) = cpu"
  shows "tl_ok cpu P (xs @ [p]) (mod_timer cpu p e st)" "timer_of (mod_timer cpu p e st) = (timer_of st)(p := (timer_of st p)\<lparr>expires := e, del_request := False\<rparr>)"
proof -
  have np: "\<not> timer_pending p st" using tl_okD(6) [OF ok p(1)] p(2) by simp
  have l: "tlinks (mod_timer cpu p e st) = list_add_tail (active cpu) p (tlinks st)"
    using np c by (simp add: mod_timer_def mod_timer0_def detach_timer_def timer_pending_def tupd_defs Let_def slack_expires_def)
  show "tl_ok cpu P (xs @ [p]) (mod_timer cpu p e st)"
    using tl_ok_add [OF ok p] by (subst tl_ok_cong [where st = "upd_tlinks (list_add_tail (active cpu) p) st"]) (simp_all add: l tupd_defs)
  show "timer_of (mod_timer cpu p e st) = (timer_of st)(p := (timer_of st p)\<lparr>expires := e, del_request := False\<rparr>)"
    using np c by (simp add: mod_timer_def mod_timer0_def detach_timer_def timer_pending_def tupd_defs Let_def slack_expires_def)
qed

section \<open>The run of the timers that are due\<close>

text \<open>
  A callback that works on the state of its owner, by \<open>f\<close>, and may arm its own timer again, for the time \<open>re\<close> gives.
\<close>

definition owner_callback :: "(nat \<Rightarrow> u64 \<Rightarrow> u64 option) \<Rightarrow> (nat \<Rightarrow> u64 \<Rightarrow> 'x \<Rightarrow> 'x) \<Rightarrow> nat \<Rightarrow> nat \<Rightarrow> u64 \<Rightarrow> timer_state \<times> 'x \<Rightarrow> (timer_state \<times> 'x) option" where
  "owner_callback re f cpu fn d s =
    (let p = running_timer (timers_of (fst s) cpu)
     in Some (case re fn d of None \<Rightarrow> fst s | Some e \<Rightarrow> mod_timer cpu p e (fst s), f fn d (snd s)))"

definition due :: "u64 \<Rightarrow> timer_list \<Rightarrow> bool" where
  "due now t \<longleftrightarrow> \<not> del_request t \<and> expires t \<le> now + DEFAULT_TIMER_MARGIN"

definition later :: "u64 \<Rightarrow> timer_list \<Rightarrow> bool" where
  "later now t \<longleftrightarrow> \<not> del_request t \<and> now + DEFAULT_TIMER_MARGIN < expires t"

definition rearms :: "(nat \<Rightarrow> u64 \<Rightarrow> u64 option) \<Rightarrow> timer_list \<Rightarrow> u64 option" where
  "rearms re t = re (timer_function t) (timer_data t)"

definition home :: "nat \<Rightarrow> timer_list \<Rightarrow> bool" where
  "home cpu t \<longleftrightarrow> timer_cpu t = cpu \<and> timer_timers t = cpu \<and> timer_function t \<noteq> 0"

text \<open>Timers that are not due are only looked at.\<close>

lemma loop_later:
  assumes "tl_ok cpu P (ks @ ys) st" "\<forall>p\<in>set ys. later now (timer_of st p)"
  shows "timer_loop run cpu now (hd (ys @ [active cpu])) e (st, x) = Some (Min (insert e ((\<lambda>p. expires (timer_of st p)) ` set ys)), st, x)"
  using assms
proof (induction ys arbitrary: ks e)
  case Nil
  show ?case by (subst timer_loop.simps) simp
next
  case (Cons p ys)
  note d = tl_okD [OF Cons.prems(1)]
  have "p \<in> P" using d(2) by simp
  then have p: "p \<noteq> active cpu" "p \<noteq> 0" "timer_pending p st" using d(3,4) d(6) [of p] by (metis, metis, simp)
  have n: "nxt (tlinks st) p = hd (ys @ [active cpu])" using next_mid [OF d(1)] .
  let ?e = "if expires (timer_of st p) < e then expires (timer_of st p) else e"
  have l: "timer_turn run cpu now p e (st, x) = Some (?e, st, x)" using Cons.prems(2) p(3) by (auto simp: timer_turn_def later_def)
  have "timer_loop run cpu now p e (st, x) = timer_loop run cpu now (hd (ys @ [active cpu])) ?e (st, x)"
    using p(1,2) n l by (subst timer_loop.simps) (simp add: Let_def)
  also have "\<dots> = Some (Min (insert ?e ((\<lambda>p. expires (timer_of st p)) ` set ys)), st, x)" using Cons.IH [of "ks @ [p]" ?e] Cons.prems by simp
  also have "Min (insert ?e ((\<lambda>p. expires (timer_of st p)) ` set ys)) = Min (insert e ((\<lambda>p. expires (timer_of st p)) ` set (p # ys)))"
  proof (cases "ys = []")
    case False
    then show ?thesis by (auto simp: min_def)
  qed (auto simp: min_def)
  finally show ?case by simp
qed

text \<open>A timer that is due: it leaves the list, its callback runs, and it is armed again or not.\<close>

lemma turn_due:
  fixes re :: "nat \<Rightarrow> u64 \<Rightarrow> u64 option" and f :: "nat \<Rightarrow> u64 \<Rightarrow> 'x \<Rightarrow> 'x"
  assumes ok: "tl_ok cpu P (ks @ p # ys) st" and dp: "due now (timer_of st p)" and h: "home cpu (timer_of st p)"
  defines "run \<equiv> owner_callback re f cpu" and "t \<equiv> timer_of st p"
  shows "\<exists>st'. timer_turn run cpu now p e (st, x) =
      Some (case rearms re t of None \<Rightarrow> e | Some e' \<Rightarrow> min e e', st', f (timer_function t) (timer_data t) x) \<and>
    tl_ok cpu P (ks @ ys @ (if rearms re t = None then [] else [p])) st' \<and>
    timer_of st' = (case rearms re t of None \<Rightarrow> timer_of st | Some e' \<Rightarrow> (timer_of st)(p := t\<lparr>expires := e', del_request := False\<rparr>))"
proof -
  note d = tl_okD [OF ok]
  have P: "p \<in> P" "p \<notin> set (ks @ ys)" using d(2,5) by auto
  let ?s = "upd_timers cpu (\<lambda>t. t\<lparr>running_timer := p\<rparr>) (timer_unlink p st)"
  have rm: "remove1 p (ks @ p # ys) = ks @ ys" using P(2) by (simp add: remove1_append)
  have ok1: "tl_ok cpu P (ks @ ys) ?s" using tl_ok_unlink [OF ok, of p] unfolding rm
    by (subst tl_ok_cong [where st = "timer_unlink p st"]) (simp_all add: upd_timers_def)
  have T: "timer_of ?s = timer_of st" "running_timer (timers_of ?s cpu) = p" by (simp_all add: timer_unlink_def tupd_defs)
  have fire: "timer_fire run cpu p (st, x) = Some (case rearms re t of None \<Rightarrow> ?s | Some e' \<Rightarrow> mod_timer cpu p e' ?s, f (timer_function t) (timer_data t) x)"
    using h T by (simp add: timer_fire_def Let_def run_def owner_callback_def t_def home_def rearms_def split: option.split)
  show ?thesis
  proof (cases "rearms re t")
    case None
    have "\<not> timer_pending p ?s" using tl_okD(6) [OF ok1 P(1)] P(2) by simp
    then show ?thesis using dp fire None ok1 T(1) by (simp add: timer_turn_def due_def t_def)
  next
    case (Some e')
    have "timer_cpu (timer_of ?s p) = cpu" "timer_timers (timer_of ?s p) = cpu" using h by (simp_all add: T home_def)
    note m = mod_timer_ok [OF ok1 P this, of e']
    have "timer_pending p (mod_timer cpu p e' ?s)" using tl_okD(6) [OF m(1) P(1)] by simp
    then show ?thesis using dp fire Some m by (auto simp: timer_turn_def due_def t_def T(1) min_def)
  qed
qed

lemma turn_deleted:
  assumes ok: "tl_ok cpu P (ks @ p # ys) st" and dp: "del_request (timer_of st p)"
  shows "\<exists>st'. timer_turn run cpu now p e (st, x) = Some (e, st', x) \<and> tl_ok cpu P (ks @ ys) st' \<and> (\<forall>q. q \<noteq> p \<longrightarrow> timer_of st' q = timer_of st q)"
proof -
  let ?s = "upd_timer p (\<lambda>t. t\<lparr>expires := - 1\<rparr>) (timer_unlink p st)"
  have "p \<notin> set ks" using tl_okD(5) [OF ok] by auto
  then have "tl_ok cpu P (ks @ ys) ?s" using tl_ok_unlink [OF ok, of p]
    by (subst tl_ok_cong [where st = "timer_unlink p st"]) (simp_all add: upd_timer_def remove1_append)
  then show ?thesis using dp by (intro exI [of _ ?s]) (simp add: timer_turn_def timer_unlink_def tupd_defs)
qed

lemma Min_insert_min: "finite A \<Longrightarrow> b \<in> A \<Longrightarrow> Min (insert (min a b) A) = Min (insert a A)" for a b :: "'a :: linorder"
proof -
  assume A: "finite A" "b \<in> A"
  then have "A \<noteq> {}" by blast
  then show ?thesis using A by (simp add: min.assoc min.absorb2 Min_le)
qed

text \<open>
  The loop, with the timers \<open>ks\<close> behind it, \<open>xs\<close> to look at and \<open>as\<close> armed again at the end of the list.
\<close>

lemma loop_ok:
  fixes re :: "nat \<Rightarrow> u64 \<Rightarrow> u64 option" and f :: "nat \<Rightarrow> u64 \<Rightarrow> 'x \<Rightarrow> 'x"
  assumes "tl_ok cpu P (ks @ xs @ as) st" "\<forall>p\<in>set xs. home cpu (timer_of st p)" "\<forall>p\<in>set as. later now (timer_of st p)"
    and "\<forall>fn d e. re fn d = Some e \<longrightarrow> now + DEFAULT_TIMER_MARGIN < e"
  shows "\<exists>st'. let zs = filter (\<lambda>p. later now (timer_of st p)) xs; fs = filter (\<lambda>p. due now (timer_of st p)) xs;
        rs = filter (\<lambda>p. rearms re (timer_of st p) \<noteq> None) fs
      in timer_loop (owner_callback re f cpu) cpu now (hd (xs @ as @ [active cpu])) e (st, x) =
          Some (Min (insert e ((\<lambda>p. expires (timer_of st' p)) ` set (zs @ as @ rs))), st', fold (\<lambda>p. f (timer_function (timer_of st p)) (timer_data (timer_of st p))) fs x) \<and>
        tl_ok cpu P (ks @ zs @ as @ rs) st' \<and> (\<forall>p. p \<notin> set xs \<or> later now (timer_of st p) \<longrightarrow> timer_of st' p = timer_of st p) \<and>
        (\<forall>p\<in>set rs. Some (expires (timer_of st' p)) = rearms re (timer_of st p))"
  using assms(1-3)
proof (induction xs arbitrary: ks as st e x)
  case Nil
  show ?case using loop_later [of cpu P ks as st now "owner_callback re f cpu" e x] Nil.prems by (intro exI [of _ st]) simp
next
  case (Cons p xs)
  note d = tl_okD [OF Cons.prems(1)]
  let ?run = "owner_callback re f cpu"
  have "p \<in> P" using d(2) by simp
  then have p: "p \<noteq> active cpu" "p \<noteq> 0" "p \<notin> set xs" "p \<notin> set as" using d(3,4,5) by (metis, metis, auto)
  have n: "nxt (tlinks st) p = hd (xs @ as @ [active cpu])" using next_mid [of "tlinks st" "active cpu" ks p "xs @ as"] d(1) by simp
  have step: "timer_loop ?run cpu now p e (st, x) = timer_loop ?run cpu now (hd (xs @ as @ [active cpu])) e' (st1, x1)"
    if "timer_turn ?run cpu now p e (st, x) = Some (e', st1, x1)" for e' st1 x1
    using p(1,2) n that by (subst timer_loop.simps) (simp add: Let_def)
  have cong: "filter (\<lambda>q. Q (timer_of st1 q)) xs = filter (\<lambda>q. Q (timer_of st q)) xs" if "\<forall>q. q \<noteq> p \<longrightarrow> timer_of st1 q = timer_of st q" for Q st1
    using that p(3) by (intro filter_cong) auto
  let ?zs = "filter (\<lambda>p. later now (timer_of st p)) xs" and ?fs = "filter (\<lambda>p. due now (timer_of st p)) xs"
  let ?rs = "filter (\<lambda>p. rearms re (timer_of st p) \<noteq> None) ?fs" and ?g = "\<lambda>p. f (timer_function (timer_of st p)) (timer_data (timer_of st p))"
  have fl: "filter (\<lambda>p. rearms re (timer_of st1 p) \<noteq> None) ?fs = ?rs" if "\<forall>q. q \<noteq> p \<longrightarrow> timer_of st1 q = timer_of st q" for st1
    using that p(3) by (intro filter_cong) auto
  have fo: "fold (\<lambda>p. f (timer_function (timer_of st1 p)) (timer_data (timer_of st1 p))) ?fs y = fold ?g ?fs y"
    if "\<forall>q. q \<noteq> p \<longrightarrow> timer_of st1 q = timer_of st q" for st1 y using that p(3) by (intro fold_cong) auto
  have rs: "rearms re (timer_of st1 q) = rearms re (timer_of st q)" if "\<forall>q. q \<noteq> p \<longrightarrow> timer_of st1 q = timer_of st q" "q \<in> set ?rs" for st1 q
    using that p(3) by auto
  have nr: "q \<notin> set ?rs" if "q = p" for q using that p(3) by simp
  consider "del_request (timer_of st p)" | "later now (timer_of st p)" | "due now (timer_of st p)" using le_less_linear by (auto simp: later_def due_def)
  then show ?case
  proof cases
    case 1
    obtain st1 where t: "timer_turn ?run cpu now p e (st, x) = Some (e, st1, x)" "tl_ok cpu P (ks @ xs @ as) st1" and D: "\<forall>q. q \<noteq> p \<longrightarrow> timer_of st1 q = timer_of st q"
      using turn_deleted [of cpu P ks p "xs @ as" st ?run now e x] Cons.prems(1) 1 by auto
    have "\<forall>q\<in>set xs. home cpu (timer_of st1 q)" "\<forall>q\<in>set as. later now (timer_of st1 q)" using Cons.prems(2,3) D p(3,4) by auto
    from Cons.IH [OF t(2) this, of e x] obtain st' where st': "timer_loop ?run cpu now (hd (xs @ as @ [active cpu])) e (st1, x) =
          Some (Min (insert e ((\<lambda>p. expires (timer_of st' p)) ` set (?zs @ as @ ?rs))), st', fold ?g ?fs x)"
        "tl_ok cpu P (ks @ ?zs @ as @ ?rs) st'" "\<forall>q. q \<notin> set xs \<or> later now (timer_of st1 q) \<longrightarrow> timer_of st' q = timer_of st1 q"
        "\<forall>q\<in>set ?rs. Some (expires (timer_of st' q)) = rearms re (timer_of st1 q)" unfolding Let_def cong [OF D] fl [OF D] fo [OF D] by blast
    have nl: "\<not> later now (timer_of st p)" "\<not> due now (timer_of st p)" using 1 by (auto simp: later_def due_def)
    have "timer_of st' q = timer_of st q" if "q \<notin> set (p # xs) \<or> later now (timer_of st q)" for q
      using that nl(1) st'(3) D by (cases "q = p") auto
    then show ?thesis using st'(1,2,4) nl rs [OF D] by (intro exI [of _ st']) (simp add: Let_def step [OF t(1)])
  next
    case 2
    let ?e = "min e (expires (timer_of st p))"
    have pend: "timer_pending p st" using d(6) [of p] \<open>p \<in> P\<close> by simp
    then have t: "timer_turn ?run cpu now p e (st, x) = Some (?e, st, x)" using 2 by (auto simp: timer_turn_def later_def min_def)
    have nd: "\<not> due now (timer_of st p)" using 2 by (auto simp: later_def due_def)
    have ok: "tl_ok cpu P ((ks @ [p]) @ xs @ as) st" "\<forall>q\<in>set xs. home cpu (timer_of st q)" using Cons.prems(1,2) by simp_all
    obtain st' where st': "let zs = filter (\<lambda>p. later now (timer_of st p)) xs; fs = filter (\<lambda>p. due now (timer_of st p)) xs;
          rs = filter (\<lambda>p. rearms re (timer_of st p) \<noteq> None) fs
        in timer_loop ?run cpu now (hd (xs @ as @ [active cpu])) ?e (st, x) =
            Some (Min (insert ?e ((\<lambda>p. expires (timer_of st' p)) ` set (zs @ as @ rs))), st', fold (\<lambda>p. f (timer_function (timer_of st p)) (timer_data (timer_of st p))) fs x) \<and>
          tl_ok cpu P ((ks @ [p]) @ zs @ as @ rs) st' \<and> (\<forall>q. q \<notin> set xs \<or> later now (timer_of st q) \<longrightarrow> timer_of st' q = timer_of st q) \<and>
          (\<forall>q\<in>set rs. Some (expires (timer_of st' q)) = rearms re (timer_of st q))"
      using Cons.IH [OF ok Cons.prems(3), of ?e x] by blast
    have e: "Min (insert ?e A) = Min (insert e (insert (expires (timer_of st p)) A))" if "finite A" for A
      using that by (cases "A = {}") (simp_all add: min.assoc)
    have "timer_of st' p = timer_of st p" using st' p(3) by (simp add: Let_def)
    then show ?thesis using st' 2 nd by (intro exI [of _ st']) (simp add: Let_def step [OF t] e)
  next
    case 3
    let ?t = "timer_of st p"
    let ?e = "case rearms re ?t of None \<Rightarrow> e | Some e' \<Rightarrow> min e e'" and ?r = "if rearms re ?t = None then [] else [p]"
      and ?x = "f (timer_function ?t) (timer_data ?t) x"
    have nl: "\<not> later now ?t" using 3 by (auto simp: later_def due_def)
    obtain st1 where t: "timer_turn ?run cpu now p e (st, x) = Some (?e, st1, ?x)" and ok1: "tl_ok cpu P (ks @ xs @ (as @ ?r)) st1"
      and T: "timer_of st1 = (case rearms re ?t of None \<Rightarrow> timer_of st | Some e' \<Rightarrow> (timer_of st)(p := ?t\<lparr>expires := e', del_request := False\<rparr>))"
      using turn_due [of cpu P ks p "xs @ as" st now re f e x] Cons.prems 3 by auto
    have D: "\<forall>q. q \<noteq> p \<longrightarrow> timer_of st1 q = timer_of st q" using T by (auto split: option.splits)
    have r: "expires (timer_of st1 p) = e'" "later now (timer_of st1 p)" if "rearms re ?t = Some e'" for e'
      using T that assms(4) by (auto simp: later_def rearms_def)
    have Dx: "timer_of st1 q = timer_of st q" if "q \<in> set xs \<union> set as" for q using D p(3,4) that by (cases "q = p") auto
    have h: "\<forall>q\<in>set xs. home cpu (timer_of st1 q)" "\<forall>q\<in>set (as @ ?r). later now (timer_of st1 q)" using Cons.prems(2,3) Dx r(2) by auto
    obtain st' where st': "timer_loop ?run cpu now (hd (xs @ as @ [active cpu])) ?e (st1, ?x) =
          Some (Min (insert ?e ((\<lambda>p. expires (timer_of st' p)) ` set (?zs @ (as @ ?r) @ ?rs))), st', fold (\<lambda>p. f (timer_function (timer_of st p)) (timer_data (timer_of st p))) ?fs ?x)"
        "tl_ok cpu P (ks @ ?zs @ (as @ ?r) @ ?rs) st'" "\<forall>q. q \<notin> set xs \<or> later now (timer_of st1 q) \<longrightarrow> timer_of st' q = timer_of st1 q"
        "\<forall>q\<in>set ?rs. Some (expires (timer_of st' q)) = rearms re (timer_of st q)"
    proof (cases "xs @ as = []")
      case True
      have "timer_loop ?run cpu now (active cpu) ?e (st1, ?x) = Some (?e, st1, ?x)" by (subst timer_loop.simps) simp
      then show ?thesis using True ok1 r by (intro that [of st1]) (auto split: option.splits)
    next
      case False
      then have hd: "hd (xs @ (as @ ?r) @ [active cpu]) = hd (xs @ as @ [active cpu])" by (cases xs; cases as) auto
      from Cons.IH [OF ok1 h, of ?e ?x] that rs [OF D] show ?thesis unfolding Let_def cong [OF D] hd fl [OF D] fo [OF D] by auto
    qed
    have tp: "timer_of st' p = timer_of st1 p" using st'(3) p(3) by blast
    have m: "Min (insert ?e ((\<lambda>p. expires (timer_of st' p)) ` set (?zs @ (as @ ?r) @ ?rs))) = Min (insert e ((\<lambda>p. expires (timer_of st' p)) ` set (?zs @ (as @ ?r) @ ?rs)))"
    proof (cases "rearms re ?t")
      case (Some e')
      then have "e' \<in> (\<lambda>p. expires (timer_of st' p)) ` set (?zs @ (as @ ?r) @ ?rs)" using r(1) [OF Some] tp by force
      then have "Min (insert (min e e') ((\<lambda>p. expires (timer_of st' p)) ` set (?zs @ (as @ ?r) @ ?rs))) = Min (insert e ((\<lambda>p. expires (timer_of st' p)) ` set (?zs @ (as @ ?r) @ ?rs)))"
        by (intro Min_insert_min finite_imageI finite_set)
      then show ?thesis unfolding Some option.case .
    qed simp
    have l: "filter (\<lambda>p. rearms re (timer_of st p) \<noteq> None) (filter (\<lambda>p. due now (timer_of st p)) (p # xs)) = ?r @ ?rs" using 3 by simp
    have z: "filter (\<lambda>p. later now (timer_of st p)) (p # xs) = ?zs" using nl by simp
    have same: "timer_of st' q = timer_of st q" if "q \<notin> set (p # xs) \<or> later now (timer_of st q)" for q
    proof -
      have "q \<noteq> p" using that nl by auto
      then show ?thesis using that st'(3) D by auto
    qed
    have rr: "\<forall>q\<in>set (?r @ ?rs). Some (expires (timer_of st' q)) = rearms re (timer_of st q)" using st'(4) tp r(1) by auto
    show ?thesis
    proof (intro exI [of _ st'], unfold Let_def l z, intro conjI)
      show "timer_loop ?run cpu now (hd ((p # xs) @ as @ [active cpu])) e (st, x) =
          Some (Min (insert e ((\<lambda>p. expires (timer_of st' p)) ` set (?zs @ as @ ?r @ ?rs))), st',
            fold (\<lambda>p. f (timer_function (timer_of st p)) (timer_data (timer_of st p))) (filter (\<lambda>p. due now (timer_of st p)) (p # xs)) x)"
        using step [OF t] st'(1) 3 unfolding m by simp
    qed (use st'(2) same rr in \<open>simp_all split: if_splits\<close>)
  qed
qed

text \<open>
  C15. The timer softirq terminates and does its work, for callbacks that may do anything to the state of their owners and may arm their own timer
  again for a time that is not due yet: the callbacks of exactly the timers that are due run, once each, in the order of the
  list and with their data; the timers whose deletion another CPU requested leave the list without running; the list that
  remains holds the timers that are not due, in their order, and behind them those armed again; and the comparator is programmed for
  the earliest time among them, or the CPU has no running timer when there is none.
\<close>

theorem run_timers_due:
  fixes re :: "nat \<Rightarrow> u64 \<Rightarrow> u64 option" and f :: "nat \<Rightarrow> u64 \<Rightarrow> 'x \<Rightarrow> 'x"
  assumes "tl_ok cpu P xs st" "\<forall>p\<in>set xs. home cpu (timer_of st p)" "\<forall>fn d e. re fn d = Some e \<longrightarrow> now + DEFAULT_TIMER_MARGIN < e"
  shows "\<exists>st'. let zs = filter (\<lambda>p. later now (timer_of st p)) xs; fs = filter (\<lambda>p. due now (timer_of st p)) xs;
        rs = filter (\<lambda>p. rearms re (timer_of st p) \<noteq> None) fs; e = Min (insert (- 1) ((\<lambda>p. expires (timer_of st' p)) ` set (zs @ rs)))
      in run_timer_softirq (owner_callback re f cpu) cpu now (st, x) =
          Some (st', fold (\<lambda>p. f (timer_function (timer_of st p)) (timer_data (timer_of st p))) fs x) \<and>
        tl_ok cpu P (zs @ rs) st' \<and> (\<forall>p\<in>set zs. timer_of st' p = timer_of st p) \<and> (\<forall>p\<in>set rs. Some (expires (timer_of st' p)) = rearms re (timer_of st p)) \<and>
        running_expires (timers_of st' cpu) = (if e = - 1 then 0 else e) \<and> (e \<noteq> - 1 \<longrightarrow> last (programmed st') = (cpu, e))"
proof -
  let ?zs = "filter (\<lambda>p. later now (timer_of st p)) xs" and ?fs = "filter (\<lambda>p. due now (timer_of st p)) xs"
  let ?rs = "filter (\<lambda>p. rearms re (timer_of st p) \<noteq> None) ?fs" and ?x = "fold (\<lambda>p. f (timer_function (timer_of st p)) (timer_data (timer_of st p))) ?fs x"
  have ok: "tl_ok cpu P ([] @ xs @ []) st" and em: "\<forall>p\<in>set []. later now (timer_of st p)" using assms(1) by simp_all
  obtain s1 where s1: "timer_loop (owner_callback re f cpu) cpu now (hd (xs @ [active cpu])) (- 1) (st, x) =
        Some (Min (insert (- 1) ((\<lambda>p. expires (timer_of s1 p)) ` set (?zs @ ?rs))), s1, ?x)"
      "tl_ok cpu P (?zs @ ?rs) s1" "\<forall>p. p \<notin> set xs \<or> later now (timer_of st p) \<longrightarrow> timer_of s1 p = timer_of st p"
      "\<forall>p\<in>set ?rs. Some (expires (timer_of s1 p)) = rearms re (timer_of st p)"
    using loop_ok [where e = "- 1" and x = x and f = f and re = re, OF ok assms(2) em assms(3)] unfolding Let_def append_Nil append_Nil2 by blast
  let ?e = "Min (insert (- 1) ((\<lambda>p. expires (timer_of s1 p)) ` set (?zs @ ?rs)))"
  define st' where "st' = (if ?e \<noteq> - 1 then enable_timer cpu ?e (upd_timers cpu (\<lambda>t. t\<lparr>running_expires := ?e\<rparr>) s1)
      else upd_timers cpu (\<lambda>t. t\<lparr>running_expires := 0\<rparr>) s1)"
  have l: "tlinks st' = tlinks s1" "timer_of st' = timer_of s1" by (simp_all add: st'_def tupd_defs)
  have "run_timer_softirq (owner_callback re f cpu) cpu now (st, x) = Some (st', ?x)"
    using s1(1) next_first [OF tl_okD(1) [OF assms(1)]] by (simp add: run_timer_softirq_def st'_def del: Min_insert)
  moreover have "running_expires (timers_of st' cpu) = (if ?e = - 1 then 0 else ?e)" "?e \<noteq> - 1 \<longrightarrow> last (programmed st') = (cpu, ?e)"
    by (simp_all add: st'_def tupd_defs)
  moreover have "tl_ok cpu P (?zs @ ?rs) st'" using s1(2) tl_ok_cong [OF l(1)] by simp
  moreover have "\<forall>p\<in>set ?zs. timer_of s1 p = timer_of st p" using s1(3) by simp
  ultimately show ?thesis using s1(4) unfolding Let_def l(2) [symmetric] by blast
qed

text \<open>Three timers of CPU 0 at time 1000: one due, one due that is armed again for 2000, one not due.\<close>

definition three_timers :: timer_state where
  "three_timers =
    (let t = \<lparr>timer_cpu = 0, del_request = False, expires = 900, timer_function = 5, timer_data = 7, timer_timers = 0\<rparr>
     in \<lparr>timer_of = (\<lambda>_. t)(2 := t\<lparr>expires := 1005, timer_data := 8\<rparr>, 4 := t\<lparr>expires := 1500\<rparr>),
         tlinks = list_add_tail (active 0) 6 (list_add_tail (active 0) 4 (list_add_tail (active 0) 2 (init_list (active 0) \<lparr>nxt = (\<lambda>_. 0), pre = (\<lambda>_. 0)\<rparr>))),
         timers_of = (\<lambda>_. \<lparr>running_expires = 900, running_timer = 0\<rparr>), programmed = []\<rparr>)"

theorem run_timers_due_witness:
  "\<exists>st'. let zs = filter (\<lambda>p. later 1000 (timer_of three_timers p)) [2, 4, 6]; fs = filter (\<lambda>p. due 1000 (timer_of three_timers p)) [2, 4, 6];
        rs = filter (\<lambda>p. rearms (\<lambda>fn d. if d = 8 then Some 2000 else None) (timer_of three_timers p) \<noteq> None) fs;
        e = Min (insert (- 1) ((\<lambda>p. expires (timer_of st' p)) ` set (zs @ rs)))
      in run_timer_softirq (owner_callback (\<lambda>fn d. if d = 8 then Some 2000 else None) (\<lambda>fn d ys. ys @ [(fn, d)]) 0) 0 1000 (three_timers, []) =
          Some (st', fold (\<lambda>p ys. ys @ [(timer_function (timer_of three_timers p), timer_data (timer_of three_timers p))]) fs []) \<and>
        tl_ok 0 {2, 4, 6} (zs @ rs) st' \<and> (\<forall>p\<in>set zs. timer_of st' p = timer_of three_timers p) \<and>
        (\<forall>p\<in>set rs. Some (expires (timer_of st' p)) = rearms (\<lambda>fn d. if d = 8 then Some 2000 else None) (timer_of three_timers p)) \<and>
        running_expires (timers_of st' 0) = (if e = - 1 then 0 else e) \<and> (e \<noteq> - 1 \<longrightarrow> last (programmed st') = (0, e))"
proof -
  have l: "dll (tlinks three_timers) (active 0) [2, 4, 6]"
    by (simp add: three_timers_def dll_def list_add_tail_def init_list_def Let_def active_def)
  have ok: "tl_ok 0 {2, 4, 6} [2, 4, 6] three_timers" by (rule tl_okI [OF l]) (auto simp: active_def)
  have h: "\<forall>p\<in>set [2, 4, 6]. home 0 (timer_of three_timers p)" by (simp add: three_timers_def home_def Let_def)
  show ?thesis by (rule run_timers_due [OF ok h]) (simp add: DEFAULT_TIMER_MARGIN_def split: if_splits)
qed

end
