(* ===== verification/Softirq.thy ===== *)
theory Softirq
  imports Minos_Prelude
begin

text \<open>
  The softirqs and the hooks: \<^verbatim>\<open>os/core/softirq.c\<close> and \<^verbatim>\<open>os/core/hook.c\<close>. Actions and hooks are addresses of functions, with 0 for NULL;
  what they do is a parameter, a function of the address and of the state, which is the state of this theory and a
  state \<open>'x\<close> of the rest of the kernel. A fault, and a loop that does not end, is \<open>None\<close>.
\<close>

section \<open>Softirqs\<close>

definition TIMER_SOFTIRQ :: nat where "TIMER_SOFTIRQ = 0"
definition VCPULET_SOFTIRQ :: nat where "VCPULET_SOFTIRQ = 1"
definition SCHED_SOFTIRQ :: nat where "SCHED_SOFTIRQ = 2"
definition NR_SOFTIRQS :: nat where "NR_SOFTIRQS = 3"

record softirqs =
  softirq_pending :: "nat \<Rightarrow> u32"
  softirq_vec :: "nat list"

definition local_softirq_pending :: "nat \<Rightarrow> softirqs \<Rightarrow> u32" where
  "local_softirq_pending cpu s = softirq_pending s cpu"

definition set_softirq_pending :: "nat \<Rightarrow> u32 \<Rightarrow> softirqs \<Rightarrow> softirqs" where
  "set_softirq_pending cpu v s = s\<lparr>softirq_pending := (softirq_pending s)(cpu := v)\<rparr>"

text \<open>The bit is set in an \<^verbatim>\<open>unsigned long\<close>, which is cut to 32 bits when it is stored.\<close>

definition raise_softirq_irqoff :: "nat \<Rightarrow> nat \<Rightarrow> softirqs \<Rightarrow> softirqs" where
  "raise_softirq_irqoff cpu nr s =
    set_softirq_pending cpu (ucast ((ucast (softirq_pending s cpu) :: u64) OR push_bit nr 1)) s"

definition raise_softirq :: "nat \<Rightarrow> nat \<Rightarrow> softirqs \<Rightarrow> softirqs" where
  "raise_softirq cpu nr s = raise_softirq_irqoff cpu nr s"

definition open_softirq :: "nat \<Rightarrow> nat \<Rightarrow> softirqs \<Rightarrow> softirqs option" where
  "open_softirq nr action s = (if nr \<ge> length (softirq_vec s) then None else Some (s\<lparr>softirq_vec := (softirq_vec s)[nr := action]\<rparr>))"

definition call_action :: "(nat \<Rightarrow> softirqs \<times> 'x \<Rightarrow> (softirqs \<times> 'x) option) \<Rightarrow> nat list \<Rightarrow> nat \<Rightarrow> softirqs \<times> 'x \<Rightarrow> (softirqs \<times> 'x) option" where
  "call_action act vec h s = (if h \<ge> length vec \<or> vec ! h = 0 then None else act (vec ! h) s)"

text \<open>
  The loop of \<^verbatim>\<open>__do_softirq\<close>: \<open>h\<close> and \<open>pending\<close> move on only inside of the test of the lowest bit.
\<close>

partial_function (option) softirq_loop ::
    "(nat \<Rightarrow> softirqs \<times> 'x \<Rightarrow> (softirqs \<times> 'x) option) \<Rightarrow> nat list \<Rightarrow> nat \<Rightarrow> u32 \<Rightarrow> softirqs \<times> 'x \<Rightarrow> (softirqs \<times> 'x) option" where
  "softirq_loop act vec h pending s =
    (if bit pending 0
     then Option.bind (call_action act vec h s)
            (\<lambda>s. if drop_bit 1 pending \<noteq> 0 then softirq_loop act vec (h + 1) (drop_bit 1 pending) s else Some s)
     else if pending \<noteq> 0 then softirq_loop act vec h pending s else Some s)"

definition do_softirq0 :: "(nat \<Rightarrow> softirqs \<times> 'x \<Rightarrow> (softirqs \<times> 'x) option) \<Rightarrow> nat \<Rightarrow> softirqs \<times> 'x \<Rightarrow> (softirqs \<times> 'x) option" where
  "do_softirq0 act cpu s =
    (let pending = local_softirq_pending cpu (fst s)
     in softirq_loop act (softirq_vec (fst s)) 0 pending (set_softirq_pending cpu 0 (fst s), snd s))"

definition do_softirq :: "(nat \<Rightarrow> softirqs \<times> 'x \<Rightarrow> (softirqs \<times> 'x) option) \<Rightarrow> nat \<Rightarrow> softirqs \<times> 'x \<Rightarrow> (softirqs \<times> 'x) option" where
  "do_softirq act cpu s = (if local_softirq_pending cpu (fst s) \<noteq> 0 then do_softirq0 act cpu s else Some s)"

definition irq_softirq_exit :: "(nat \<Rightarrow> softirqs \<times> 'x \<Rightarrow> (softirqs \<times> 'x) option) \<Rightarrow> nat \<Rightarrow> softirqs \<times> 'x \<Rightarrow> (softirqs \<times> 'x) option" where
  "irq_softirq_exit act cpu s = (if local_softirq_pending cpu (fst s) \<noteq> 0 then do_softirq act cpu s else Some s)"

section \<open>Hooks\<close>

datatype hook_type = OS_HOOK_EXIT_FROM_GUEST | OS_HOOK_ENTER_TO_GUEST | OS_HOOK_CREATE_VM | OS_HOOK_CREATE_VM_VDEV | OS_HOOK_DESTROY_VM
  | OS_HOOK_SUSPEND_VM | OS_HOOK_RESUME_VM | OS_HOOK_ENTER_IRQ | OS_HOOK_TASK_SWITCH_OUT | OS_HOOK_TASK_SWITCH_TO | OS_HOOK_CREATE_TASK
  | OS_HOOK_TYPE_UNKNOWN

text \<open>The lists of hooks, as the sequences of their functions.\<close>

type_synonym hook_lists = "hook_type \<Rightarrow> nat list"

definition hooks_init :: "hook_lists \<Rightarrow> hook_lists" where
  "hooks_init hs = (\<lambda>_. [])"

definition register_hook :: "nat \<Rightarrow> hook_type \<Rightarrow> bool \<Rightarrow> hook_lists \<Rightarrow> int \<times> hook_lists" where
  "register_hook fn type heap hs =
    (if fn = 0 \<or> type = OS_HOOK_TYPE_UNKNOWN then (- EINVAL, hs)
     else if \<not> heap then (- ENOMEM, hs)
     else (0, hs(type := hs type @ [fn])))"

fun hooks_loop :: "(nat \<Rightarrow> 'i \<Rightarrow> 'c \<Rightarrow> 's \<Rightarrow> (int \<times> 's) option) \<Rightarrow> 'i \<Rightarrow> 'c \<Rightarrow> nat list \<Rightarrow> int \<Rightarrow> 's \<Rightarrow> (int \<times> 's) option" where
  "hooks_loop call item context [] err s = Some (err, s)"
| "hooks_loop call item context (fn # fns) err s =
    (case call fn item context s of None \<Rightarrow> None | Some (r, s) \<Rightarrow> hooks_loop call item context fns (err + r) s)"

definition do_hooks :: "(nat \<Rightarrow> 'i \<Rightarrow> 'c \<Rightarrow> 's \<Rightarrow> (int \<times> 's) option) \<Rightarrow> 'i \<Rightarrow> 'c \<Rightarrow> hook_type \<Rightarrow> hook_lists \<Rightarrow> 's \<Rightarrow> (int \<times> 's) option" where
  "do_hooks call item context type hs s = hooks_loop call item context (hs type) 0 s"

section \<open>Which softirqs run\<close>

text \<open>Calling the first \<open>k\<close> actions in order.\<close>

fun run_actions :: "(nat \<Rightarrow> softirqs \<times> 'x \<Rightarrow> (softirqs \<times> 'x) option) \<Rightarrow> nat list \<Rightarrow> nat \<Rightarrow> nat \<Rightarrow> softirqs \<times> 'x \<Rightarrow> (softirqs \<times> 'x) option" where
  "run_actions act vec h 0 s = Some s"
| "run_actions act vec h (Suc k) s = Option.bind (call_action act vec h s) (run_actions act vec (h + 1) k)"

lemma mask_shift: "drop_bit 1 (mask (Suc k) :: u32) = (if Suc k \<le> 32 then mask k else mask 31)"
  by (auto simp: bit_eq_iff bit_simps)

lemma shift_mask: "bit p 0 \<Longrightarrow> drop_bit 1 p = mask k \<Longrightarrow> p = mask (Suc k)" for p :: u32
proof (rule bit_word_eqI)
  fix n assume p: "bit p 0" "drop_bit 1 p = mask k" and n: "n < LENGTH(32)"
  show "bit p n \<longleftrightarrow> bit (mask (Suc k) :: u32) n"
  proof (cases n)
    case (Suc m)
    have "bit p n = bit (drop_bit 1 p) m" using Suc by (simp add: bit_drop_bit_eq)
    also have "\<dots> = (m < k)" using n Suc unfolding p(2) by (simp add: bit_simps)
    finally show ?thesis using Suc n by (simp add: bit_simps)
  qed (use p(1) in \<open>simp add: bit_simps\<close>)
qed

lemma loop_returns: assumes "softirq_loop act vec h pending s = Some r" shows "\<exists>k. pending = mask k"
proof (rule softirq_loop.raw_induct [OF _ assms], goal_cases)
  case 2: (1 loop act vec h pending s r)
  show ?case
  proof (cases "bit pending 0")
    case True
    show ?thesis
    proof (cases "drop_bit 1 pending = 0")
      case z: True
      then have "drop_bit 1 pending = mask 0" by simp
      then show ?thesis using shift_mask True by blast
    next
      case False
      then obtain s1 where "loop act vec (h + 1) (drop_bit 1 pending) s1 = Some r" using 2(2) True by (auto simp: bind_eq_Some_conv)
      then obtain k where "drop_bit 1 pending = mask k" using 2(1) by blast
      then show ?thesis using shift_mask True by blast
    qed
  next
    case False
    show ?thesis
    proof (cases "pending = 0")
      case True
      then show ?thesis by (intro exI [of _ 0]) simp
    next
      case nz: False
      then have "loop act vec h pending s = Some r" using 2(2) False by simp
      then show ?thesis using 2(1) by blast
    qed
  qed
qed

lemma loop_mask: "k < 32 \<Longrightarrow> softirq_loop act vec h (mask k) s = run_actions act vec h k s"
proof (induction k arbitrary: h s)
  case 0
  show ?case by (subst softirq_loop.simps) simp
next
  case (Suc k)
  have b: "bit (mask (Suc k) :: u32) 0" by (simp add: bit_simps)
  have d: "drop_bit 1 (mask (Suc k) :: u32) = mask k" using mask_shift [of k] Suc.prems by simp
  have e: "(if (mask k :: u32) \<noteq> 0 then softirq_loop act vec (h + 1) (mask k) s' else Some s') = run_actions act vec (h + 1) k s'" for s'
    using Suc.IH [of "h + 1" s'] Suc.prems by (cases k) simp_all
  show ?case by (subst softirq_loop.simps) (simp only: b d e if_True run_actions.simps)
qed

lemma raised_alone: "softirq_pending s cpu = 0 \<Longrightarrow> nr < 32 \<Longrightarrow> softirq_pending (raise_softirq cpu nr s) cpu = push_bit nr 1"
  by (rule bit_word_eqI) (auto simp: raise_softirq_def raise_softirq_irqoff_def set_softirq_pending_def bit_simps)

lemma push_not_mask: "0 < nr \<Longrightarrow> nr < 32 \<Longrightarrow> (push_bit nr 1 :: u32) \<noteq> mask k"
proof
  assume n: "0 < nr" "nr < 32" and e: "(push_bit nr 1 :: u32) = mask k"
  have "bit (push_bit nr 1 :: u32) nr" "\<not> bit (push_bit nr 1 :: u32) 0" using n by (simp_all add: bit_simps)
  then show False using n unfolding e by (simp add: bit_simps)
qed

text \<open>
  C16. \<^verbatim>\<open>do_softirq\<close> returns only when the pending softirqs are the first ones. With those below some \<open>k\<close> pending it calls their actions, in order,
  with the pending bits cleared; with any other set it loops forever, because \<^verbatim>\<open>__do_softirq\<close> shifts the pending bits only when the
  lowest one is set. In particular a softirq other than the first that is raised alone hangs the CPU.
\<close>

theorem do_softirq_exact:
  "(k < 32 \<and> softirq_pending s cpu = mask k \<longrightarrow> do_softirq act cpu (s, x) = run_actions act (softirq_vec s) 0 k (set_softirq_pending cpu 0 s, x)) \<and>
   ((\<forall>j. softirq_pending s cpu \<noteq> mask j) \<longrightarrow> do_softirq act cpu (s, x) = None) \<and>
   (0 < nr \<and> nr < 32 \<and> softirq_pending s cpu = 0 \<longrightarrow> do_softirq act cpu (raise_softirq cpu nr s, x) = None)"
proof (intro conjI impI; (elim conjE)?)
  have hang: "do_softirq act cpu (t, x) = None" if "\<forall>j. softirq_pending t cpu \<noteq> mask j" for t
  proof -
    have "softirq_pending t cpu \<noteq> 0" using that [rule_format, of 0] by simp
    moreover have "softirq_loop act (softirq_vec t) 0 (softirq_pending t cpu) (set_softirq_pending cpu 0 t, x) = None"
    proof (rule ccontr)
      assume "softirq_loop act (softirq_vec t) 0 (softirq_pending t cpu) (set_softirq_pending cpu 0 t, x) \<noteq> None"
      then obtain r where "softirq_loop act (softirq_vec t) 0 (softirq_pending t cpu) (set_softirq_pending cpu 0 t, x) = Some r" by blast
      then show False using loop_returns that by metis
    qed
    ultimately show ?thesis by (simp add: do_softirq_def do_softirq0_def local_softirq_pending_def)
  qed
  show "do_softirq act cpu (s, x) = None" if "\<forall>j. softirq_pending s cpu \<noteq> mask j" by (rule hang [OF that])
  show "do_softirq act cpu (raise_softirq cpu nr s, x) = None" if "0 < nr" "nr < 32" "softirq_pending s cpu = 0"
    using raised_alone [OF that(3,2)] push_not_mask [OF that(1,2)] by (intro hang) simp
  show "do_softirq act cpu (s, x) = run_actions act (softirq_vec s) 0 k (set_softirq_pending cpu 0 s, x)" if "k < 32" "softirq_pending s cpu = mask k"
  proof (cases k)
    case 0
    then have "(softirq_pending s)(cpu := 0) = softirq_pending s" using that(2) by auto
    then show ?thesis using 0 that(2) by (simp add: do_softirq_def local_softirq_pending_def set_softirq_pending_def)
  next
    case (Suc j)
    have "(mask k :: u32) \<noteq> 0" using Suc by simp
    then show ?thesis using loop_mask [OF that(1)] that(2) by (simp add: do_softirq_def do_softirq0_def local_softirq_pending_def)
  qed
qed

definition idle_softirqs :: softirqs where
  "idle_softirqs = \<lparr>softirq_pending = (\<lambda>_. 0), softirq_vec = [7, 8, 9]\<rparr>"

theorem do_softirq_exact_witness:
  "do_softirq (\<lambda>f (s, ys). Some (s, ys @ [f])) 0 (raise_softirq 0 SCHED_SOFTIRQ idle_softirqs, []) = None \<and>
   do_softirq (\<lambda>f (s, ys). Some (s, ys @ [f])) 0 (idle_softirqs\<lparr>softirq_pending := (\<lambda>_. 3)\<rparr>, []) =
     Some (set_softirq_pending 0 0 (idle_softirqs\<lparr>softirq_pending := (\<lambda>_. 3)\<rparr>), [7, 8])"
proof
  show "do_softirq (\<lambda>f (s, ys). Some (s, ys @ [f])) 0 (raise_softirq 0 SCHED_SOFTIRQ idle_softirqs, []) = None"
    using do_softirq_exact [of 0 idle_softirqs 0 "\<lambda>f (s, ys). Some (s, ys @ [f])" "[]" SCHED_SOFTIRQ] by (simp add: SCHED_SOFTIRQ_def idle_softirqs_def)
  have "(3 :: u32) = mask 2" by (simp add: mask_eq_exp_minus_1)
  then show "do_softirq (\<lambda>f (s, ys). Some (s, ys @ [f])) 0 (idle_softirqs\<lparr>softirq_pending := (\<lambda>_. 3)\<rparr>, []) =
      Some (set_softirq_pending 0 0 (idle_softirqs\<lparr>softirq_pending := (\<lambda>_. 3)\<rparr>), [7, 8])"
    using do_softirq_exact [of 2 "idle_softirqs\<lparr>softirq_pending := (\<lambda>_. 3)\<rparr>" 0 "\<lambda>f (s, ys). Some (s, ys @ [f])" "[]" 0]
    by (simp add: numeral_2_eq_2 call_action_def idle_softirqs_def)
qed

text \<open>Hooks run in the order of their registration, and their results add up.\<close>

lemma registered_hook_runs:
  assumes "register_hook fn type heap hs = (0, hs')" "do_hooks call item context type hs s = Some (r, s')"
  shows "do_hooks call item context type hs' s = (case call fn item context s' of None \<Rightarrow> None | Some (r', s'') \<Rightarrow> Some (r + r', s''))"
proof -
  have app: "hooks_loop call item context (xs @ [fn]) e t = (case call fn item context t' of None \<Rightarrow> None | Some (r', t'') \<Rightarrow> Some (q + r', t''))"
    if "hooks_loop call item context xs e t = Some (q, t')" for xs e t q t'
    using that by (induction xs arbitrary: e t) (auto split: option.splits)
  show ?thesis using assms app [of "hs type" 0 s r s'] by (auto simp: register_hook_def do_hooks_def EINVAL_def ENOMEM_def split: if_splits)
qed

end
