(* ===== verification/Irq.thy ===== *)
theory Irq
  imports Minos_Prelude
begin

text \<open>
  The interrupts of the host: \<^verbatim>\<open>os/core/irq.c\<close>. Descriptors live in a store of pointers; the tables of a domain are lists of
  pointers. The next calls of \<^verbatim>\<open>zalloc\<close> return the addresses in \<open>irq_heap\<close>, and NULL when there is none left. The interrupt
  controller is hardware: what the code asks of it is recorded in \<open>chip_log\<close>, which of its optional functions it has is given by
  \<open>chip_has\<close>, and the numbers that \<^verbatim>\<open>get_pending_irq\<close> returns are an argument. A handler is a pointer; what it does is an
  argument, too. A NULL or wild access is \<open>None\<close>.
\<close>

section \<open>Constants and state\<close>

definition BAD_IRQ :: u32 where "BAD_IRQ = 1023"
definition IRQ_FLAGS_NONE :: u64 where "IRQ_FLAGS_NONE = 0"
definition IRQ_FLAGS_EDGE_RISING :: u64 where "IRQ_FLAGS_EDGE_RISING = 1"
definition IRQ_FLAGS_EDGE_FALLING :: u64 where "IRQ_FLAGS_EDGE_FALLING = 2"
definition IRQ_FLAGS_LEVEL_HIGH :: u64 where "IRQ_FLAGS_LEVEL_HIGH = 4"
definition IRQ_FLAGS_LEVEL_LOW :: u64 where "IRQ_FLAGS_LEVEL_LOW = 8"
definition IRQ_FLAGS_TYPE_MASK :: u64 where "IRQ_FLAGS_TYPE_MASK = 0xff"
definition IRQ_FLAGS_MASKED :: u64 where "IRQ_FLAGS_MASKED = 0x100"
definition IRQ_FLAGS_VCPU_BIT :: nat where "IRQ_FLAGS_VCPU_BIT = 9"
definition IRQ_FLAGS_VCPU :: u64 where "IRQ_FLAGS_VCPU = 0x200"
definition NR_LOCAL_IRQS :: u32 where "NR_LOCAL_IRQS = 32"
definition SGI_IRQ_BASE :: u32 where "SGI_IRQ_BASE = 0"
definition PPI_IRQ_BASE :: u32 where "PPI_IRQ_BASE = 16"

definition IRQ_DOMAIN_SGI :: nat where "IRQ_DOMAIN_SGI = 0"
definition IRQ_DOMAIN_PPI :: nat where "IRQ_DOMAIN_PPI = 1"
definition IRQ_DOMAIN_SPI :: nat where "IRQ_DOMAIN_SPI = 2"
definition IRQ_DOMAIN_LPI :: nat where "IRQ_DOMAIN_LPI = 3"
definition IRQ_DOMAIN_SPECIAL :: nat where "IRQ_DOMAIN_SPECIAL = 4"
definition IRQ_DOMAIN_MAX :: nat where "IRQ_DOMAIN_MAX = 5"

lemmas irq_defs = BAD_IRQ_def IRQ_FLAGS_TYPE_MASK_def IRQ_FLAGS_MASKED_def IRQ_FLAGS_VCPU_BIT_def IRQ_FLAGS_VCPU_def
  NR_LOCAL_IRQS_def SGI_IRQ_BASE_def PPI_IRQ_BASE_def IRQ_DOMAIN_SGI_def IRQ_DOMAIN_PPI_def IRQ_DOMAIN_SPI_def
  IRQ_DOMAIN_LPI_def IRQ_DOMAIN_SPECIAL_def IRQ_DOMAIN_MAX_def

record irq_desc =
  hno :: u16
  i_affinity :: u16
  i_flags :: u64
  i_handler :: "nat option"
  i_pdata :: nat
  i_name :: string

text \<open>\<^verbatim>\<open>spi_domain_ops\<close> and \<^verbatim>\<open>local_domain_ops\<close>.\<close>

datatype irq_domain_ops = spi_domain_ops | local_domain_ops

record irq_domain =
  d_start :: u32
  d_count :: u32
  d_type :: nat
  d_irqs :: "nat option list option"
  d_ops :: irq_domain_ops

datatype chip_op =
    Chip_send_sgi u32 nat
  | Chip_eoi u32
  | Chip_dir u32
  | Chip_mask u32
  | Chip_unmask u32
  | Chip_unmask_cpu u32 nat
  | Chip_clear_pending u32
  | Chip_set_affinity u32 int
  | Chip_set_type u32 u64

record chip_caps =
  has_clear_pending :: bool
  has_set_affinity :: bool
  has_set_type :: bool

record irqs =
  irq_domains :: "irq_domain option list"
  irq_descs :: "nat \<Rightarrow> irq_desc"
  sgi_irqs :: "nat option list list"
  ppi_irqs :: "nat option list list"
  irq_heap :: "nat list"
  chip_has :: chip_caps
  chip_log :: "chip_op list"

definition chip :: "chip_op \<Rightarrow> irqs \<Rightarrow> irqs" where
  "chip x s = s\<lparr>chip_log := chip_log s @ [x]\<rparr>"

definition upd_desc :: "nat \<Rightarrow> (irq_desc \<Rightarrow> irq_desc) \<Rightarrow> irqs \<Rightarrow> irqs" where
  "upd_desc p f s = s\<lparr>irq_descs := (irq_descs s)(p := f (irq_descs s p))\<rparr>"

definition zero_irq_desc :: irq_desc where
  "zero_irq_desc = \<lparr>hno = 0, i_affinity = 0, i_flags = 0, i_handler = None, i_pdata = 0, i_name = ''''\<rparr>"

section \<open>Domains and descriptors\<close>

definition alloc_irq_desc :: "irqs \<Rightarrow> nat option \<times> irqs" where
  "alloc_irq_desc s =
    (case irq_heap s of
       [] \<Rightarrow> (None, s)
     | p # ps \<Rightarrow> (Some p, upd_desc p (\<lambda>_. zero_irq_desc) (s\<lparr>irq_heap := ps\<rparr>)))"

text \<open>\<open>cpus\<close> is \<^verbatim>\<open>CONFIG_NR_CPUS\<close>.\<close>

definition send_sgi :: "nat \<Rightarrow> u32 \<Rightarrow> int \<Rightarrow> irqs \<Rightarrow> irqs" where
  "send_sgi cpus sgi cpu s =
    (if cpu < 0 \<or> cpu \<ge> int cpus then s else if sgi \<ge> 16 then s else chip (Chip_send_sgi sgi (nat cpu)) s)"

definition register_irq_domain :: "nat \<Rightarrow> irq_domain_ops \<Rightarrow> irqs \<Rightarrow> int \<times> irqs" where
  "register_irq_domain type ops s =
    (if type \<ge> IRQ_DOMAIN_MAX then (- EINVAL, s)
     else case irq_heap s of
         [] \<Rightarrow> (- ENOMEM, s)
       | _ # ps \<Rightarrow> (0, s\<lparr>irq_heap := ps, irq_domains := (irq_domains s)[type :=
           Some \<lparr>d_start = 0, d_count = 0, d_type = type, d_irqs = None, d_ops = ops\<rparr>]\<rparr>))"

text \<open>The loop of both functions \<^verbatim>\<open>alloc_irqs\<close> over the table: when memory runs out the rest of the table stays NULL.\<close>

fun fill_irqs :: "nat \<Rightarrow> nat \<Rightarrow> u32 \<Rightarrow> u16 \<Rightarrow> irqs \<Rightarrow> bool \<times> nat option list \<times> irqs" where
  "fill_irqs 0 i start aff s = (True, [], s)"
| "fill_irqs (Suc n) i start aff s =
    (case alloc_irq_desc s of
       (None, s) \<Rightarrow> (False, replicate (Suc n) None, s)
     | (Some p, s) \<Rightarrow>
         let s = upd_desc p (\<lambda>d. d\<lparr>hno := ucast (start + word_of_nat i), i_affinity := aff\<rparr>) s;
             (ok, ps, s) = fill_irqs n (i + 1) start aff s
         in (ok, Some p # ps, s))"

definition spi_alloc_irqs :: "u32 \<Rightarrow> u32 \<Rightarrow> irqs \<Rightarrow> nat option list option \<times> irqs" where
  "spi_alloc_irqs start count s =
    (case irq_heap s of
       [] \<Rightarrow> (None, s)
     | _ # hp \<Rightarrow>
         let (ok, ps, s) = fill_irqs (unat count) 0 start 0 (s\<lparr>irq_heap := hp\<rparr>) in (Some ps, s))"

text \<open>The loop of \<^verbatim>\<open>local_alloc_irqs\<close> over the CPUs: when memory runs out, the tables of the later CPUs are empty.\<close>

fun fill_local :: "nat \<Rightarrow> nat \<Rightarrow> u32 \<Rightarrow> u32 \<Rightarrow> irqs \<Rightarrow> nat option list list \<times> irqs" where
  "fill_local 0 cpu start count s = ([], s)"
| "fill_local (Suc n) cpu start count s =
    (case fill_irqs (unat count) 0 start (word_of_nat cpu) s of
       (False, ps, s) \<Rightarrow> (ps # replicate n (replicate (unat count) None), s)
     | (True, ps, s) \<Rightarrow> let (pss, s) = fill_local n (cpu + 1) start count s in (ps # pss, s))"

definition local_alloc_irqs :: "nat \<Rightarrow> u32 \<Rightarrow> u32 \<Rightarrow> nat \<Rightarrow> irqs \<Rightarrow> nat option list option \<times> irqs" where
  "local_alloc_irqs cpus start count type s =
    (case irq_heap s of
       [] \<Rightarrow> (None, s)
     | _ # hp \<Rightarrow>
         let (pss, s) = fill_local cpus 0 start count (s\<lparr>irq_heap := hp\<rparr>);
             s = (if type = IRQ_DOMAIN_SGI then s\<lparr>sgi_irqs := pss\<rparr> else if type = IRQ_DOMAIN_PPI then s\<lparr>ppi_irqs := pss\<rparr> else s)
         in (Some (concat pss), s))"

definition irq_in_domain :: "irq_domain \<Rightarrow> u32 \<Rightarrow> bool" where
  "irq_in_domain d irq \<longleftrightarrow> irq \<ge> d_start d \<and> irq < d_start d + d_count d"

definition spi_get_irq_desc :: "irq_domain \<Rightarrow> u32 \<Rightarrow> nat option option" where
  "spi_get_irq_desc d irq =
    (if \<not> irq_in_domain d irq then Some None
     else case d_irqs d of
         Some ps \<Rightarrow> if unat (irq - d_start d) < length ps then Some (ps ! unat (irq - d_start d)) else None
       | None \<Rightarrow> None)"

definition local_get_irq_desc :: "nat \<Rightarrow> irq_domain \<Rightarrow> u32 \<Rightarrow> irqs \<Rightarrow> nat option option" where
  "local_get_irq_desc cpu d irq s =
    (if \<not> irq_in_domain d irq then Some None
     else
       let tables = (if d_type d = IRQ_DOMAIN_SGI then sgi_irqs s else if d_type d = IRQ_DOMAIN_PPI then ppi_irqs s else [])
       in if cpu < length tables \<and> unat (irq - d_start d) < length (tables ! cpu)
          then Some (tables ! cpu ! unat (irq - d_start d)) else None)"

definition domain_get_irq_desc :: "nat \<Rightarrow> irq_domain \<Rightarrow> u32 \<Rightarrow> irqs \<Rightarrow> nat option option" where
  "domain_get_irq_desc cpu d irq s =
    (case d_ops d of spi_domain_ops \<Rightarrow> spi_get_irq_desc d irq | local_domain_ops \<Rightarrow> local_get_irq_desc cpu d irq s)"

definition irq_domain_create_irqs :: "nat \<Rightarrow> nat \<Rightarrow> irq_domain \<Rightarrow> u32 \<Rightarrow> u32 \<Rightarrow> irqs \<Rightarrow> int \<times> irqs" where
  "irq_domain_create_irqs cpus type d start cnt s =
    (if cnt = 0 \<or> cnt \<ge> 1024 then (- EINVAL, s)
     else if d_irqs d \<noteq> None then (- EINVAL, s)
     else case (case d_ops d of spi_domain_ops \<Rightarrow> spi_alloc_irqs start cnt s
                 | local_domain_ops \<Rightarrow> local_alloc_irqs cpus start cnt (d_type d) s) of
         (None, s) \<Rightarrow> (- ENOMEM, s)
       | (Some ps, s) \<Rightarrow>
           (0, s\<lparr>irq_domains := (irq_domains s)[type := Some (d\<lparr>d_start := start, d_count := cnt, d_irqs := Some ps\<rparr>)]\<rparr>))"

definition alloc_irqs :: "nat \<Rightarrow> u32 \<Rightarrow> u32 \<Rightarrow> nat \<Rightarrow> irqs \<Rightarrow> int \<times> irqs" where
  "alloc_irqs cpus start cnt type s =
    (if type \<ge> IRQ_DOMAIN_MAX then (- EINVAL, s)
     else case irq_domains s ! type of
         None \<Rightarrow> (- ENOENT, s)
       | Some d \<Rightarrow> irq_domain_create_irqs cpus type d start cnt s)"

definition irq_alloc_spi where "irq_alloc_spi cpus start cnt = alloc_irqs cpus start cnt IRQ_DOMAIN_SPI"
definition irq_alloc_sgi where "irq_alloc_sgi cpus start cnt = alloc_irqs cpus start cnt IRQ_DOMAIN_SGI"
definition irq_alloc_ppi where "irq_alloc_ppi cpus start cnt = alloc_irqs cpus start cnt IRQ_DOMAIN_PPI"
definition irq_alloc_lpi where "irq_alloc_lpi cpus start cnt = alloc_irqs cpus start cnt IRQ_DOMAIN_LPI"
definition irq_alloc_special where "irq_alloc_special cpus start cnt = alloc_irqs cpus start cnt IRQ_DOMAIN_SPECIAL"

definition get_irq_domain :: "u32 \<Rightarrow> irqs \<Rightarrow> irq_domain option" where
  "get_irq_domain irq s = find (\<lambda>d. irq_in_domain d irq) (List.map_filter id (irq_domains s))"

definition get_irq_desc :: "nat \<Rightarrow> u32 \<Rightarrow> irqs \<Rightarrow> nat option option" where
  "get_irq_desc cpu irq s = (case get_irq_domain irq s of None \<Rightarrow> Some None | Some d \<Rightarrow> domain_get_irq_desc cpu d irq s)"

definition get_irq_desc_cpu :: "u32 \<Rightarrow> nat \<Rightarrow> irqs \<Rightarrow> nat option option" where
  "get_irq_desc_cpu irq cpu s =
    (let look = (\<lambda>tables i. if cpu < length tables \<and> i < length (tables ! cpu) then Some (tables ! cpu ! i) else None)
     in if irq \<ge> NR_LOCAL_IRQS then Some None
        else if irq \<ge> PPI_IRQ_BASE then look (ppi_irqs s) (unat (irq - PPI_IRQ_BASE))
        else look (sgi_irqs s) (unat (irq - SGI_IRQ_BASE)))"

section \<open>Operations on one interrupt\<close>

text \<open>\<^verbatim>\<open>__irq_enable\<close>, with \<^verbatim>\<open>irq_unmask\<close> and \<^verbatim>\<open>irq_mask\<close>.\<close>

definition irq_enable0 :: "nat \<Rightarrow> u32 \<Rightarrow> bool \<Rightarrow> irqs \<Rightarrow> irqs option" where
  "irq_enable0 cpu irq enable s =
    (case get_irq_desc cpu irq s of
       None \<Rightarrow> None
     | Some None \<Rightarrow> Some s
     | Some (Some p) \<Rightarrow>
         Some (if enable then upd_desc p (\<lambda>d. d\<lparr>i_flags := i_flags d AND NOT IRQ_FLAGS_MASKED\<rparr>) (chip (Chip_unmask irq) s)
               else upd_desc p (\<lambda>d. d\<lparr>i_flags := i_flags d OR IRQ_FLAGS_MASKED\<rparr>) (chip (Chip_mask irq) s)))"

definition irq_unmask where "irq_unmask cpu irq = irq_enable0 cpu irq True"
definition irq_mask where "irq_mask cpu irq = irq_enable0 cpu irq False"

definition irq_clear_pending :: "u32 \<Rightarrow> irqs \<Rightarrow> irqs" where
  "irq_clear_pending irq s = (if has_clear_pending (chip_has s) then chip (Chip_clear_pending irq) s else s)"

definition irq_set_affinity :: "nat \<Rightarrow> nat \<Rightarrow> u32 \<Rightarrow> int \<Rightarrow> irqs \<Rightarrow> irqs option" where
  "irq_set_affinity cpus cpu irq target s =
    (if target \<ge> int cpus then Some s
     else case get_irq_desc cpu irq s of
         None \<Rightarrow> None
       | Some None \<Rightarrow> Some s
       | Some (Some p) \<Rightarrow>
           let s = upd_desc p (\<lambda>d. d\<lparr>i_affinity := word_of_int target\<rparr>) s
           in Some (if has_set_affinity (chip_has s) then chip (Chip_set_affinity irq target) s else s))"

definition irq_set_type :: "nat \<Rightarrow> u32 \<Rightarrow> u64 \<Rightarrow> irqs \<Rightarrow> irqs option" where
  "irq_set_type cpu irq type s =
    (case get_irq_desc cpu irq s of
       None \<Rightarrow> None
     | Some None \<Rightarrow> Some s
     | Some (Some p) \<Rightarrow>
         if type = i_flags (irq_descs s p) AND IRQ_FLAGS_TYPE_MASK then Some s
         else
           let s = (if has_set_type (chip_has s) then chip (Chip_set_type irq type) s else s)
           in Some (upd_desc p (\<lambda>d. d\<lparr>i_flags := (i_flags d AND NOT IRQ_FLAGS_TYPE_MASK) OR type\<rparr>) s))"

text \<open>\<^verbatim>\<open>request_irq\<close>; NULL as handler is \<open>None\<close>.\<close>

definition request_irq :: "nat \<Rightarrow> u32 \<Rightarrow> nat option \<Rightarrow> u64 \<Rightarrow> string \<Rightarrow> nat \<Rightarrow> irqs \<Rightarrow> (int \<times> irqs) option" where
  "request_irq cpu irq handler flags name data s =
    (if handler = None then Some (- EINVAL, s)
     else case get_irq_desc cpu irq s of
         None \<Rightarrow> None
       | Some None \<Rightarrow> Some (- ENOENT, s)
       | Some (Some p) \<Rightarrow>
           let type = flags AND IRQ_FLAGS_TYPE_MASK;
               flags = flags AND NOT IRQ_FLAGS_TYPE_MASK;
               s = upd_desc p (\<lambda>d. d\<lparr>i_handler := handler, i_pdata := data, i_name := name, i_flags := i_flags d OR flags\<rparr>) s;
               s = upd_desc p (\<lambda>d. d\<lparr>i_flags := i_flags d AND NOT IRQ_FLAGS_MASKED\<rparr>) (chip (Chip_unmask irq) s)
           in if type \<noteq> 0 then map_option (Pair 0) (irq_set_type cpu irq type s) else Some (0, s))"

fun request_irq_cpus :: "nat list \<Rightarrow> u32 \<Rightarrow> nat option \<Rightarrow> u64 \<Rightarrow> string \<Rightarrow> nat \<Rightarrow> irqs \<Rightarrow> irqs option" where
  "request_irq_cpus [] irq handler flags name data s = Some s"
| "request_irq_cpus (i # is) irq handler flags name data s =
    (case get_irq_desc_cpu irq i s of
       None \<Rightarrow> None
     | Some None \<Rightarrow> request_irq_cpus is irq handler flags name data s
     | Some (Some p) \<Rightarrow>
         let s = upd_desc p (\<lambda>d. d\<lparr>i_handler := handler, i_pdata := data, i_name := name, i_flags := i_flags d OR flags\<rparr>) s;
             s = upd_desc p (\<lambda>d. d\<lparr>i_flags := i_flags d AND NOT IRQ_FLAGS_MASKED\<rparr>) (chip (Chip_unmask_cpu irq i) s)
         in request_irq_cpus is irq handler flags name data s)"

definition request_irq_percpu :: "nat \<Rightarrow> u32 \<Rightarrow> nat option \<Rightarrow> u64 \<Rightarrow> string \<Rightarrow> nat \<Rightarrow> irqs \<Rightarrow> (int \<times> irqs) option" where
  "request_irq_percpu cpus irq handler flags name data s =
    (if irq \<ge> NR_LOCAL_IRQS then Some (- EINVAL, s)
     else map_option (Pair 0) (request_irq_cpus [0..<cpus] irq handler flags name data s))"

section \<open>Handling interrupts\<close>

text \<open>
  \<open>run h irq data s\<close> is the call of the handler \<open>h\<close>: its result and what it does to the state, which is that of the
  interrupts and of all that the handlers work on, of type \<open>'s\<close>.
\<close>

type_synonym 's irq_run = "nat \<Rightarrow> u32 \<Rightarrow> nat \<Rightarrow> irqs \<times> 's \<Rightarrow> (int \<times> irqs \<times> 's) option"

definition do_handle_host_irq :: "'s irq_run \<Rightarrow> nat \<Rightarrow> nat \<Rightarrow> irqs \<times> 's \<Rightarrow> (int \<times> irqs \<times> 's) option" where
  "do_handle_host_irq run cpu p st =
    (let d = irq_descs (fst st) p;
         called = (if word_of_nat cpu \<noteq> (ucast (i_affinity d) :: u32) then Some (- EINVAL, st)
                   else case i_handler d of None \<Rightarrow> Some (- EINVAL, st) | Some h \<Rightarrow> run h (ucast (hno d)) (i_pdata d) st)
     in map_option (\<lambda>(ret, s, x).
          let d = irq_descs s p in
          (ret, if ret \<noteq> 0 \<or> \<not> bit (i_flags d) IRQ_FLAGS_VCPU_BIT then chip (Chip_dir (ucast (hno d))) s else s, x)) called)"

definition do_bad_int :: "u32 \<Rightarrow> irqs \<Rightarrow> irqs" where
  "do_bad_int irq s = chip (Chip_dir irq) s"

text \<open>\<^verbatim>\<open>do_irq_handler\<close>: the list holds what \<^verbatim>\<open>get_pending_irq\<close> returns; its end stands for \<^verbatim>\<open>BAD_IRQ\<close>.\<close>

fun do_irq_handler :: "'s irq_run \<Rightarrow> nat \<Rightarrow> u32 list \<Rightarrow> irqs \<times> 's \<Rightarrow> (int \<times> irqs \<times> 's) option" where
  "do_irq_handler run cpu [] st = Some (0, st)"
| "do_irq_handler run cpu (irq # is) (s, x) =
    (if irq = BAD_IRQ then Some (0, s, x)
     else case get_irq_domain irq s of
         None \<Rightarrow> Some (- ENOENT, do_bad_int irq s, x)
       | Some d \<Rightarrow>
           let s = chip (Chip_eoi irq) s in
           (case domain_get_irq_desc cpu d irq s of
              None \<Rightarrow> None
            | Some None \<Rightarrow> Some (- EINVAL, do_bad_int irq s, x)
            | Some (Some p) \<Rightarrow>
                (case do_handle_host_irq run cpu p (s, x) of
                   None \<Rightarrow> None
                 | Some (_, st) \<Rightarrow> do_irq_handler run cpu is st)))"

text \<open>\<^verbatim>\<open>irq_init\<close>; the device tree, which finds the controller, is not part of the model.\<close>

definition irq_init :: "irqs \<Rightarrow> irqs" where
  "irq_init s =
    (let s = snd (register_irq_domain IRQ_DOMAIN_SPI spi_domain_ops s);
         s = snd (register_irq_domain IRQ_DOMAIN_SGI local_domain_ops s);
         s = snd (register_irq_domain IRQ_DOMAIN_PPI local_domain_ops s)
     in snd (register_irq_domain IRQ_DOMAIN_SPECIAL spi_domain_ops s))"

section \<open>The tables after the boot\<close>

lemma desc_simps [simp]:
  "irq_descs (upd_desc p f s) = (irq_descs s)(p := f (irq_descs s p))" "irq_heap (upd_desc p f s) = irq_heap s"
  "irq_domains (upd_desc p f s) = irq_domains s" "sgi_irqs (upd_desc p f s) = sgi_irqs s" "ppi_irqs (upd_desc p f s) = ppi_irqs s"
  "chip_has (upd_desc p f s) = chip_has s" "chip_log (upd_desc p f s) = chip_log s"
  "irq_descs (chip x s) = irq_descs s" "irq_heap (chip x s) = irq_heap s" "irq_domains (chip x s) = irq_domains s"
  "sgi_irqs (chip x s) = sgi_irqs s" "ppi_irqs (chip x s) = ppi_irqs s" "chip_has (chip x s) = chip_has s"
  by (simp_all add: upd_desc_def chip_def)

text \<open>What allocating descriptors leaves alone.\<close>

definition same_tables :: "irqs \<Rightarrow> irqs \<Rightarrow> bool" where
  "same_tables s s' \<longleftrightarrow> irq_domains s' = irq_domains s \<and> sgi_irqs s' = sgi_irqs s \<and> ppi_irqs s' = ppi_irqs s \<and> chip_has s' = chip_has s \<and>
     chip_log s' = chip_log s"

definition new_desc :: "nat \<Rightarrow> u16 \<Rightarrow> irq_desc" where
  "new_desc irq aff = zero_irq_desc\<lparr>hno := word_of_nat irq, i_affinity := aff\<rparr>"

lemma ucast_eq_of_nat: "(ucast (x :: u32) :: u16) = word_of_nat (unat x)"
  by simp

lemma fill_irqs_enough:
  assumes "n \<le> length (irq_heap s)" "distinct (irq_heap s)" "unat start + i + n < 2 ^ 32"
  shows "\<exists>s'. fill_irqs n i start aff s = (True, map Some (take n (irq_heap s)), s') \<and> irq_heap s' = drop n (irq_heap s) \<and> same_tables s s' \<and>
    (\<forall>j<n. irq_descs s' (irq_heap s ! j) = new_desc (unat start + i + j) aff) \<and>
    (\<forall>p. p \<notin> set (take n (irq_heap s)) \<longrightarrow> irq_descs s' p = irq_descs s p)"
  using assms
proof (induction n arbitrary: i s)
  case 0
  then show ?case by (simp add: same_tables_def)
next
  case (Suc n)
  then obtain p ps where hp: "irq_heap s = p # ps" by (cases "irq_heap s") auto
  have u: "(ucast (start + word_of_nat i) :: u16) = word_of_nat (unat start + i)"
  proof -
    have "unat (start + word_of_nat i) = unat start + i" using Suc.prems(3) by (simp add: unat_word_ariths unat_of_nat)
    then show ?thesis by (metis ucast_eq_of_nat)
  qed
  define s1 where "s1 = upd_desc p (\<lambda>d. d\<lparr>hno := ucast (start + word_of_nat i), i_affinity := aff\<rparr>) (upd_desc p (\<lambda>_. zero_irq_desc) (s\<lparr>irq_heap := ps\<rparr>))"
  have s1: "irq_heap s1 = ps" "same_tables s s1" "irq_descs s1 = (irq_descs s)(p := new_desc (unat start + i) aff)"
    by (simp_all add: s1_def same_tables_def new_desc_def u)
  have "n \<le> length (irq_heap s1)" "distinct (irq_heap s1)" "unat start + (i + 1) + n < 2 ^ 32" using Suc.prems hp s1(1) by simp_all
  from Suc.IH [OF this] obtain s' where s': "fill_irqs n (i + 1) start aff s1 = (True, map Some (take n ps), s')" "irq_heap s' = drop n ps"
    "same_tables s1 s'" "\<forall>j<n. irq_descs s' (ps ! j) = new_desc (unat start + (i + 1) + j) aff"
    "\<forall>q. q \<notin> set (take n ps) \<longrightarrow> irq_descs s' q = irq_descs s1 q" using s1(1) by auto
  have "fill_irqs (Suc n) i start aff s = (True, map Some (take (Suc n) (irq_heap s)), s')"
    using s'(1) by (simp add: hp alloc_irq_desc_def s1_def Let_def)
  moreover have "p \<notin> set (take n ps)" using Suc.prems(2) hp by (auto dest: in_set_takeD)
  then have "irq_descs s' p = new_desc (unat start + i) aff" using s'(5) s1(3) by simp
  then have "\<forall>j<Suc n. irq_descs s' (irq_heap s ! j) = new_desc (unat start + i + j) aff"
    using s'(4) by (auto simp: hp nth_Cons split: nat.splits)
  moreover have "same_tables s s'" using s1(2) s'(3) by (simp add: same_tables_def)
  moreover have "\<forall>q. q \<notin> set (take (Suc n) (irq_heap s)) \<longrightarrow> irq_descs s' q = irq_descs s q" using s'(5) s1(3) hp by simp
  ultimately show ?case using s'(2) hp by auto
qed

lemma take_drop_chunk: "i < n \<Longrightarrow> n \<le> length xs - k \<Longrightarrow> take n (drop k xs) ! i = xs ! (k + i)"
  by simp

lemma fill_local_enough:
  assumes "n * unat count \<le> length (irq_heap s)" "distinct (irq_heap s)" "unat start + unat count < 2 ^ 32"
  shows "\<exists>s'. fill_local n c start count s = (map (\<lambda>k. map Some (take (unat count) (drop (k * unat count) (irq_heap s)))) [0..<n], s') \<and>
    irq_heap s' = drop (n * unat count) (irq_heap s) \<and> same_tables s s' \<and>
    (\<forall>k<n. \<forall>j<unat count. irq_descs s' (irq_heap s ! (k * unat count + j)) = new_desc (unat start + j) (word_of_nat (c + k))) \<and>
    (\<forall>p. p \<notin> set (take (n * unat count) (irq_heap s)) \<longrightarrow> irq_descs s' p = irq_descs s p)"
  using assms
proof (induction n arbitrary: c s)
  case 0
  then show ?case by (simp add: same_tables_def)
next
  case (Suc n)
  let ?m = "unat count" and ?hp = "irq_heap s"
  from fill_irqs_enough [of ?m s start 0 "word_of_nat c"] Suc.prems obtain s1 where
    s1: "fill_irqs ?m 0 start (word_of_nat c) s = (True, map Some (take ?m ?hp), s1)" "irq_heap s1 = drop ?m ?hp" "same_tables s s1"
    "\<forall>j<?m. irq_descs s1 (?hp ! j) = new_desc (unat start + j) (word_of_nat c)" "\<forall>p. p \<notin> set (take ?m ?hp) \<longrightarrow> irq_descs s1 p = irq_descs s p"
    by auto
  have "n * ?m \<le> length (irq_heap s1)" "distinct (irq_heap s1)" using Suc.prems(1,2) s1(2) by simp_all
  from Suc.IH [OF this Suc.prems(3), of "c + 1"] obtain s' where
    s': "fill_local n (c + 1) start count s1 = (map (\<lambda>k. map Some (take ?m (drop (k * ?m) (drop ?m ?hp)))) [0..<n], s')"
    "irq_heap s' = drop (n * ?m) (drop ?m ?hp)" "same_tables s1 s'"
    "\<forall>k<n. \<forall>j<?m. irq_descs s' (drop ?m ?hp ! (k * ?m + j)) = new_desc (unat start + j) (word_of_nat (c + 1 + k))"
    "\<forall>p. p \<notin> set (take (n * ?m) (drop ?m ?hp)) \<longrightarrow> irq_descs s' p = irq_descs s1 p" unfolding s1(2) by auto
  have "fill_local (Suc n) c start count s = (map (\<lambda>k. map Some (take ?m (drop (k * ?m) ?hp))) [0..<Suc n], s')"
    using s1(1) s'(1) by (simp add: upt_conv_Cons map_Suc_upt [symmetric] del: upt_Suc) (simp add: add.commute)
  moreover have "irq_descs s' (?hp ! (k * ?m + j)) = new_desc (unat start + j) (word_of_nat (c + k))" if "k < Suc n" "j < ?m" for k j
  proof (cases k)
    case 0
    have j: "j < length ?hp" using that(2) Suc.prems(1) by simp
    have "?hp ! j \<notin> set (take (n * ?m) (drop ?m ?hp))"
    proof
      assume "?hp ! j \<in> set (take (n * ?m) (drop ?m ?hp))"
      then obtain i where "i < n * ?m" "?m + i < length ?hp" "?hp ! j = ?hp ! (?m + i)" by (auto simp: in_set_conv_nth)
      then show False using nth_eq_iff_index_eq [OF Suc.prems(2) j] that(2) by auto
    qed
    then show ?thesis using s'(5) s1(4) that 0 by simp
  next
    case (Suc k')
    have "k' * ?m + j < n * ?m"
    proof -
      have "k' * ?m + j < Suc k' * ?m" using that(2) by simp
      also have "\<dots> \<le> n * ?m" using that(1) Suc by (intro mult_le_mono1) simp
      finally show ?thesis .
    qed
    then have "drop ?m ?hp ! (k' * ?m + j) = ?hp ! (k * ?m + j)" using Suc.prems(1) Suc by (simp add: add.assoc)
    moreover have "irq_descs s' (drop ?m ?hp ! (k' * ?m + j)) = new_desc (unat start + j) (word_of_nat (c + 1 + k'))"
      using s'(4) that Suc by blast
    ultimately show ?thesis using Suc by simp
  qed
  moreover have "take (Suc n * ?m) ?hp = take ?m ?hp @ take (n * ?m) (drop ?m ?hp)" by (simp add: take_add)
  ultimately show ?case using s1(3,5) s'(2,3,5) by (auto simp: same_tables_def add.commute)
qed

lemma alloc_irqs_spi:
  assumes "irq_domains s ! k = Some d" "d_ops d = spi_domain_ops" "d_irqs d = None" "k < 5" "irq_heap s = x # hp" "distinct hp"
    and "cnt \<noteq> 0" "unat cnt < 1024" "unat cnt \<le> length hp" "unat start + unat cnt < 2 ^ 32"
  obtains s' where "alloc_irqs cpus start cnt k s = (0, s')" "irq_heap s' = drop (unat cnt) hp"
    "irq_domains s' = (irq_domains s)[k := Some (d\<lparr>d_start := start, d_count := cnt, d_irqs := Some (map Some (take (unat cnt) hp))\<rparr>)]"
    "sgi_irqs s' = sgi_irqs s" "ppi_irqs s' = ppi_irqs s"
    "\<forall>j<unat cnt. irq_descs s' (hp ! j) = new_desc (unat start + j) 0" "\<forall>p. p \<notin> set (take (unat cnt) hp) \<longrightarrow> irq_descs s' p = irq_descs s p"
proof -
  have c: "\<not> cnt \<ge> 1024" using assms(8) by (simp add: word_le_nat_alt)
  from fill_irqs_enough [of "unat cnt" "s\<lparr>irq_heap := hp\<rparr>" start 0 0] assms obtain s1 where
    f: "fill_irqs (unat cnt) 0 start 0 (s\<lparr>irq_heap := hp\<rparr>) = (True, map Some (take (unat cnt) hp), s1)" "irq_heap s1 = drop (unat cnt) hp"
    "same_tables (s\<lparr>irq_heap := hp\<rparr>) s1" "\<forall>j<unat cnt. irq_descs s1 (hp ! j) = new_desc (unat start + j) 0"
    "\<forall>p. p \<notin> set (take (unat cnt) hp) \<longrightarrow> irq_descs s1 p = irq_descs s p" by auto
  show thesis
    by (rule that [of "s1\<lparr>irq_domains := (irq_domains s1)[k := Some (d\<lparr>d_start := start, d_count := cnt, d_irqs := Some (map Some (take (unat cnt) hp))\<rparr>)]\<rparr>"])
      (use assms c f in \<open>simp_all add: alloc_irqs_def IRQ_DOMAIN_MAX_def irq_domain_create_irqs_def spi_alloc_irqs_def same_tables_def\<close>)
qed

lemma alloc_irqs_local:
  assumes "irq_domains s ! k = Some d" "d_ops d = local_domain_ops" "d_irqs d = None" "k < 2" "d_type d = k" "irq_heap s = x # hp" "distinct hp"
    and "cnt \<noteq> 0" "unat cnt < 1024" "cpus * unat cnt \<le> length hp" "unat start + unat cnt < 2 ^ 32"
  defines "pss \<equiv> map (\<lambda>c. map Some (take (unat cnt) (drop (c * unat cnt) hp))) [0..<cpus]"
  obtains s' where "alloc_irqs cpus start cnt k s = (0, s')" "irq_heap s' = drop (cpus * unat cnt) hp"
    "irq_domains s' = (irq_domains s)[k := Some (d\<lparr>d_start := start, d_count := cnt, d_irqs := Some (concat pss)\<rparr>)]"
    "sgi_irqs s' = (if k = 0 then pss else sgi_irqs s)" "ppi_irqs s' = (if k = 1 then pss else ppi_irqs s)"
    "\<forall>c<cpus. \<forall>j<unat cnt. irq_descs s' (hp ! (c * unat cnt + j)) = new_desc (unat start + j) (word_of_nat c)"
    "\<forall>p. p \<notin> set (take (cpus * unat cnt) hp) \<longrightarrow> irq_descs s' p = irq_descs s p"
proof -
  have c: "\<not> cnt \<ge> 1024" using assms(9) by (simp add: word_le_nat_alt)
  from fill_local_enough [of cpus cnt "s\<lparr>irq_heap := hp\<rparr>" start 0] assms obtain s1 where
    f: "fill_local cpus 0 start cnt (s\<lparr>irq_heap := hp\<rparr>) = (pss, s1)" "irq_heap s1 = drop (cpus * unat cnt) hp"
    "same_tables (s\<lparr>irq_heap := hp\<rparr>) s1"
    "\<forall>c<cpus. \<forall>j<unat cnt. irq_descs s1 (hp ! (c * unat cnt + j)) = new_desc (unat start + j) (word_of_nat c)"
    "\<forall>p. p \<notin> set (take (cpus * unat cnt) hp) \<longrightarrow> irq_descs s1 p = irq_descs s p" by (auto simp: pss_def)
  let ?s = "if k = 0 then s1\<lparr>sgi_irqs := pss\<rparr> else s1\<lparr>ppi_irqs := pss\<rparr>"
  have k: "k = 0 \<or> k = 1" using assms(4) by auto
  show thesis
    by (rule that [of "?s\<lparr>irq_domains := (irq_domains s1)[k := Some (d\<lparr>d_start := start, d_count := cnt, d_irqs := Some (concat pss)\<rparr>)]\<rparr>"])
      (use assms(1-6,8) c f k in \<open>auto simp: alloc_irqs_def irq_defs irq_domain_create_irqs_def local_alloc_irqs_def same_tables_def Let_def\<close>)
qed

text \<open>The calls by which the drivers of the controllers set up the tables for \<open>n\<close> shared interrupts.\<close>

definition irq_boot :: "nat \<Rightarrow> u32 \<Rightarrow> irqs \<Rightarrow> irqs" where
  "irq_boot cpus n s =
    (let s = snd (irq_alloc_sgi cpus 0 16 (irq_init s));
         s = snd (irq_alloc_ppi cpus 16 16 s)
     in snd (irq_alloc_spi cpus 32 n s))"

text \<open>
  The tables are set up: every CPU has its own descriptor for each local interrupt, all CPUs share one for each shared
  interrupt, no two of these are the same, and each has the number it is found under.
\<close>

definition irq_tables :: "nat \<Rightarrow> nat \<Rightarrow> (nat \<Rightarrow> nat \<Rightarrow> nat) \<Rightarrow> irqs \<Rightarrow> bool" where
  "irq_tables cpus n ptr s \<longleftrightarrow>
    (\<forall>cpu<cpus. \<forall>irq<32 + n. get_irq_desc cpu (word_of_nat irq) s = Some (Some (ptr cpu irq)) \<and>
       hno (irq_descs s (ptr cpu irq)) = word_of_nat irq \<and> i_affinity (irq_descs s (ptr cpu irq)) = (if irq < 32 then word_of_nat cpu else 0)) \<and>
    (\<forall>irq. 32 + n \<le> unat irq \<longrightarrow> get_irq_domain irq s = None) \<and>
    (\<forall>cpu<cpus. \<forall>cpu'<cpus. \<forall>irq<32 + n. \<forall>irq'<32 + n. ptr cpu irq = ptr cpu' irq' \<longleftrightarrow> irq = irq' \<and> (cpu = cpu' \<or> 32 \<le> irq))"

text \<open>The position of a descriptor among the allocations after the domains.\<close>

definition irq_pos :: "nat \<Rightarrow> nat \<Rightarrow> nat \<Rightarrow> nat" where
  "irq_pos cpus cpu irq = (if irq < 16 then 1 + 16 * cpu + irq else if irq < 32 then 2 + 16 * cpus + 16 * cpu + (irq - 16)
     else 3 + 32 * cpus + (irq - 32))"

lemma irq_pos_bounds:
  assumes "cpu < cpus"
  shows "irq < 16 \<Longrightarrow> irq_pos cpus cpu irq < 1 + 16 * cpus"
    "16 \<le> irq \<Longrightarrow> irq < 32 \<Longrightarrow> 2 + 16 * cpus \<le> irq_pos cpus cpu irq \<and> irq_pos cpus cpu irq < 2 + 32 * cpus"
    "irq < 32 + n \<Longrightarrow> irq_pos cpus cpu irq < 3 + 32 * cpus + n"
proof -
  have "16 * cpu + 16 \<le> 16 * cpus" using assms by simp
  then show "irq < 16 \<Longrightarrow> irq_pos cpus cpu irq < 1 + 16 * cpus"
    "16 \<le> irq \<Longrightarrow> irq < 32 \<Longrightarrow> 2 + 16 * cpus \<le> irq_pos cpus cpu irq \<and> irq_pos cpus cpu irq < 2 + 32 * cpus"
    "irq < 32 + n \<Longrightarrow> irq_pos cpus cpu irq < 3 + 32 * cpus + n"
    by (auto simp: irq_pos_def)
qed

lemma mult16_eq_iff: "i < 16 \<Longrightarrow> j < 16 \<Longrightarrow> 16 * a + i = 16 * b + j \<longleftrightarrow> a = b \<and> i = (j :: nat)"
  by presburger

lemma irq_pos_inj:
  assumes "cpu < cpus" "cpu' < cpus"
  shows "irq_pos cpus cpu irq = irq_pos cpus cpu' irq' \<longleftrightarrow> irq = irq' \<and> (cpu = cpu' \<or> 32 \<le> irq)"
proof -
  have b: "16 * cpu + 16 \<le> 16 * cpus" "16 * cpu' + 16 \<le> 16 * cpus" using assms by simp_all
  consider "irq < 16" | "16 \<le> irq" "irq < 32" | "32 \<le> irq" by linarith
  then show ?thesis
  proof cases
    case 1
    then show ?thesis using b mult16_eq_iff [of irq irq' cpu cpu'] by (auto simp: irq_pos_def)
  next
    case 2
    then obtain i where i: "irq = 16 + i" "i < 16" by (metis add_less_imp_less_left le_Suc_ex numeral_Bit0)
    show ?thesis
    proof (cases "16 \<le> irq' \<and> irq' < 32")
      case True
      then obtain j where "irq' = 16 + j" "j < 16" by (metis add_less_imp_less_left le_Suc_ex numeral_Bit0)
      then show ?thesis using i mult16_eq_iff [of i j cpu cpu'] by (auto simp: irq_pos_def)
    next
      case False
      then show ?thesis using b i by (auto simp: irq_pos_def)
    qed
  next
    case 3
    then show ?thesis using b by (auto simp: irq_pos_def)
  qed
qed

lemma irq_init_domains:
  assumes "irq_domains s = replicate 5 None" "irq_heap s = a # b # c # d # hp"
  defines "dm \<equiv> \<lambda>k ops. Some \<lparr>d_start = 0, d_count = 0, d_type = k, d_irqs = None, d_ops = ops\<rparr>"
  shows "irq_domains (irq_init s) = [dm 0 local_domain_ops, dm 1 local_domain_ops, dm 2 spi_domain_ops, None, dm 4 spi_domain_ops]"
    "irq_heap (irq_init s) = hp" "irq_descs (irq_init s) = irq_descs s"
  using assms(1,2) by (simp_all add: irq_init_def register_irq_domain_def irq_defs dm_def Let_def eval_nat_numeral)

lemma chunk_nth:
  assumes "cpu < cpus" "irq < 16" "cpus * 16 \<le> length hp"
  shows "map (\<lambda>c. map Some (take 16 (drop (c * 16) hp))) [0..<cpus] ! cpu ! irq = Some (hp ! (16 * cpu + irq))"
    "irq < length (map (\<lambda>c. map Some (take 16 (drop (c * 16) hp))) [0..<cpus] ! cpu)"
proof -
  have "16 * cpu + 16 \<le> cpus * 16" using assms(1) by simp
  then show "map (\<lambda>c. map Some (take 16 (drop (c * 16) hp))) [0..<cpus] ! cpu ! irq = Some (hp ! (16 * cpu + irq))"
    "irq < length (map (\<lambda>c. map Some (take 16 (drop (c * 16) hp))) [0..<cpus] ! cpu)"
    using assms by (simp_all add: mult.commute)
qed

lemma irq_boot_state:
  assumes "irq_domains s = replicate 5 None" "irq_heap s = a # b # c # d # hp" "distinct hp" "n \<noteq> 0" "unat n < 1000"
    and "3 + 32 * cpus + unat n \<le> length hp"
  defines "tab \<equiv> \<lambda>k. map (\<lambda>c. map Some (take 16 (drop (c * 16) (drop k hp)))) [0..<cpus]"
  obtains d2 d4 where "irq_domains (irq_boot cpus n s) = [Some \<lparr>d_start = 0, d_count = 16, d_type = 0, d_irqs = Some (concat (tab 1)), d_ops = local_domain_ops\<rparr>,
      Some \<lparr>d_start = 16, d_count = 16, d_type = 1, d_irqs = Some (concat (tab (2 + 16 * cpus))), d_ops = local_domain_ops\<rparr>, Some d2, None, Some d4]"
    "d2 = \<lparr>d_start = 32, d_count = n, d_type = 2, d_irqs = Some (map Some (take (unat n) (drop (3 + 32 * cpus) hp))), d_ops = spi_domain_ops\<rparr>"
    "d_start d4 = 0" "d_count d4 = 0" "sgi_irqs (irq_boot cpus n s) = tab 1" "ppi_irqs (irq_boot cpus n s) = tab (2 + 16 * cpus)"
    "\<forall>cpu<cpus. \<forall>irq<32 + unat n. irq_descs (irq_boot cpus n s) (hp ! irq_pos cpus cpu irq) = new_desc irq (if irq < 32 then word_of_nat cpu else 0)"
proof -
  note i = irq_init_domains [OF assms(1,2)]
  obtain x1 h1 where h1: "hp = x1 # h1" "cpus * 16 \<le> length h1" using assms(6) by (cases hp) auto
  obtain x2 h2 where h2: "drop (cpus * 16) h1 = x2 # h2" using assms(6) h1 by (cases "drop (cpus * 16) h1") auto
  have h2d: "h2 = drop (2 + 16 * cpus) hp" using h2 by (simp add: h1(1) mult.commute) (metis drop_Suc drop_drop list.sel(3) tl_drop add.commute add_Suc)
  obtain x3 h3 where h3: "drop (cpus * 16) h2 = x3 # h3" using assms(6) h2d by (cases "drop (cpus * 16) h2") (auto simp: h2d)
  have h3d: "h3 = drop (3 + 32 * cpus) hp"
  proof -
    have "x3 # h3 = drop (2 + 32 * cpus) hp" using h3 by (simp add: h2d algebra_simps)
    then have "h3 = tl (drop (2 + 32 * cpus) hp)" by (metis list.sel(3))
    then show ?thesis by (simp add: tl_drop drop_Suc flip: drop_Suc) (simp add: eval_nat_numeral)
  qed
  have ds: "distinct h1" "distinct h2" "distinct h3" using assms(3) h1(1) h2d h3d by (simp_all add: distinct_drop)
  have len: "cpus * 16 \<le> length h2" "unat n \<le> length h3" using assms(6) by (simp_all add: h2d h3d)
  obtain s1 where s1: "alloc_irqs cpus 0 16 0 (irq_init s) = (0, s1)" "irq_heap s1 = drop (cpus * 16) h1"
    "irq_domains s1 = (irq_domains (irq_init s))[0 := Some \<lparr>d_start = 0, d_count = 16, d_type = 0, d_irqs = Some (concat (tab 1)), d_ops = local_domain_ops\<rparr>]"
    "sgi_irqs s1 = tab 1"
    "\<forall>c<cpus. \<forall>j<16. irq_descs s1 (h1 ! (c * 16 + j)) = new_desc j (word_of_nat c)"
    by (rule alloc_irqs_local [of "irq_init s" 0 "\<lparr>d_start = 0, d_count = 0, d_type = 0, d_irqs = None, d_ops = local_domain_ops\<rparr>" x1 h1 16 cpus 0])
      (use i h1 ds in \<open>simp_all add: tab_def\<close>)
  obtain s2 where s2: "alloc_irqs cpus 16 16 1 s1 = (0, s2)" "irq_heap s2 = drop (cpus * 16) h2"
    "irq_domains s2 = (irq_domains s1)[1 := Some \<lparr>d_start = 16, d_count = 16, d_type = 1, d_irqs = Some (concat (tab (2 + 16 * cpus))), d_ops = local_domain_ops\<rparr>]"
    "sgi_irqs s2 = tab 1" "ppi_irqs s2 = tab (2 + 16 * cpus)"
    "\<forall>c<cpus. \<forall>j<16. irq_descs s2 (h2 ! (c * 16 + j)) = new_desc (16 + j) (word_of_nat c)"
    "\<forall>p. p \<notin> set (take (cpus * 16) h2) \<longrightarrow> irq_descs s2 p = irq_descs s1 p"
    by (rule alloc_irqs_local [of s1 1 "\<lparr>d_start = 0, d_count = 0, d_type = 1, d_irqs = None, d_ops = local_domain_ops\<rparr>" x2 h2 16 cpus 16])
      (use i s1 h2 ds len in \<open>simp_all add: tab_def h2d\<close>)
  obtain s3 where s3: "alloc_irqs cpus 32 n 2 s2 = (0, s3)"
    "irq_domains s3 = (irq_domains s2)[2 := Some \<lparr>d_start = 32, d_count = n, d_type = 2, d_irqs = Some (map Some (take (unat n) h3)), d_ops = spi_domain_ops\<rparr>]"
    "sgi_irqs s3 = tab 1" "ppi_irqs s3 = tab (2 + 16 * cpus)"
    "\<forall>j<unat n. irq_descs s3 (h3 ! j) = new_desc (32 + j) 0" "\<forall>p. p \<notin> set (take (unat n) h3) \<longrightarrow> irq_descs s3 p = irq_descs s2 p"
    by (rule alloc_irqs_spi [of s2 2 "\<lparr>d_start = 0, d_count = 0, d_type = 2, d_irqs = None, d_ops = spi_domain_ops\<rparr>" x3 h3 n 32 cpus])
      (use i s1 s2 h3 ds len assms(4,5) in simp_all)
  have boot: "irq_boot cpus n s = s3"
    using s1(1) s2(1) s3(1) by (simp add: irq_boot_def irq_alloc_sgi_def irq_alloc_ppi_def irq_alloc_spi_def irq_defs Let_def)
  have out: "hp ! k \<notin> set (take l (drop m hp))" if "k < length hp" "\<not> (m \<le> k \<and> k < m + l)" for k l m
  proof
    assume "hp ! k \<in> set (take l (drop m hp))"
    then obtain j where "j < l" "m + j < length hp" "hp ! (m + j) = hp ! k" by (auto simp: in_set_conv_nth)
    then show False using nth_eq_iff_index_eq [OF assms(3)] that by auto
  qed
  have "irq_descs s3 (hp ! irq_pos cpus cpu irq) = new_desc irq (if irq < 32 then word_of_nat cpu else 0)"
    if "cpu < cpus" "irq < 32 + unat n" for cpu irq
  proof -
    note pb = irq_pos_bounds [OF that(1)]
    have k: "irq_pos cpus cpu irq < length hp" using pb(3) [OF that(2)] assms(6) by linarith
    consider "irq < 16" | "16 \<le> irq" "irq < 32" | "32 \<le> irq" by linarith
    then show ?thesis
    proof cases
      case 1
      have "hp ! irq_pos cpus cpu irq = h1 ! (cpu * 16 + irq)" using 1 by (simp add: irq_pos_def h1(1) mult.commute)
      moreover have "hp ! irq_pos cpus cpu irq \<notin> set (take (cpus * 16) h2)" "hp ! irq_pos cpus cpu irq \<notin> set (take (unat n) h3)"
        unfolding h2d h3d using pb(1) [OF 1] by (intro out [OF k]; simp)+
      ultimately show ?thesis using s3(6) s2(7) s1(5) that 1 by simp
    next
      case 2
      have "hp ! irq_pos cpus cpu irq = h2 ! (cpu * 16 + (irq - 16))" using 2 k by (simp add: irq_pos_def h2d mult.commute add.assoc)
      moreover have "hp ! irq_pos cpus cpu irq \<notin> set (take (unat n) h3)" unfolding h3d using pb(2) [OF 2] by (intro out [OF k]) simp
      moreover have "irq_descs s2 (h2 ! (cpu * 16 + (irq - 16))) = new_desc (16 + (irq - 16)) (word_of_nat cpu)"
        by (intro s2(6) [rule_format]) (use that 2 in auto)
      ultimately show ?thesis using s3(6) 2 by simp
    next
      case 3
      have "hp ! irq_pos cpus cpu irq = h3 ! (irq - 32)" using 3 k by (simp add: irq_pos_def h3d)
      then show ?thesis using s3(5) that 3 by simp
    qed
  qed
  moreover have "irq_domains s3 = [Some \<lparr>d_start = 0, d_count = 16, d_type = 0, d_irqs = Some (concat (tab 1)), d_ops = local_domain_ops\<rparr>,
      Some \<lparr>d_start = 16, d_count = 16, d_type = 1, d_irqs = Some (concat (tab (2 + 16 * cpus))), d_ops = local_domain_ops\<rparr>,
      Some \<lparr>d_start = 32, d_count = n, d_type = 2, d_irqs = Some (map Some (take (unat n) (drop (3 + 32 * cpus) hp))), d_ops = spi_domain_ops\<rparr>, None,
      Some \<lparr>d_start = 0, d_count = 0, d_type = 4, d_irqs = None, d_ops = spi_domain_ops\<rparr>]"
    using s3(2) s2(3) s1(3) i(1) h3d by (simp add: numeral_2_eq_2)
  ultimately show thesis using that s3(3,4) unfolding boot by force
qed

lemma unat_irq: "irq < 2 ^ 16 \<Longrightarrow> unat (word_of_nat irq :: u32) = irq"
  by (simp add: unat_of_nat)

lemma irq_in_domain_iff:
  assumes "unat (d_start d) + unat (d_count d) < 2 ^ 32"
  shows "irq_in_domain d irq \<longleftrightarrow> unat (d_start d) \<le> unat irq \<and> unat irq < unat (d_start d) + unat (d_count d)"
  using assms by (simp add: irq_in_domain_def word_le_nat_alt word_less_nat_alt unat_word_ariths)

lemma unat_sub_u32: "(b :: u32) \<le> a \<Longrightarrow> unat (a - b) = unat a - unat b"
  by (simp add: unat_sub)

lemma irq_boot_tables:
  assumes "irq_domains s = replicate 5 None" "irq_heap s = a # b # c # d # hp" "distinct hp" "n \<noteq> 0" "unat n < 1000"
    and "3 + 32 * cpus + unat n \<le> length hp"
  shows "irq_tables cpus (unat n) (\<lambda>cpu irq. hp ! irq_pos cpus cpu irq) (irq_boot cpus n s)"
proof -
  let ?s = "irq_boot cpus n s" and ?tab = "\<lambda>k. map (\<lambda>c. map Some (take 16 (drop (c * 16) (drop k hp)))) [0..<cpus]"
  obtain d0 d1 d2 d4 where dm: "irq_domains ?s = [Some d0, Some d1, Some d2, None, Some d4]"
    and d0: "d_start d0 = 0" "d_count d0 = 16" "d_type d0 = 0" "d_ops d0 = local_domain_ops"
    and d1: "d_start d1 = 16" "d_count d1 = 16" "d_type d1 = 1" "d_ops d1 = local_domain_ops"
    and d2: "d2 = \<lparr>d_start = 32, d_count = n, d_type = 2, d_irqs = Some (map Some (take (unat n) (drop (3 + 32 * cpus) hp))), d_ops = spi_domain_ops\<rparr>"
    and d4: "d_start d4 = 0" "d_count d4 = 0"
    and tabs: "sgi_irqs ?s = ?tab 1" "ppi_irqs ?s = ?tab (2 + 16 * cpus)"
    and ds: "\<forall>cpu<cpus. \<forall>irq<32 + unat n. irq_descs ?s (hp ! irq_pos cpus cpu irq) = new_desc irq (if irq < 32 then word_of_nat cpu else 0)"
    by (rule irq_boot_state [OF assms]) auto
  have inn: "irq_in_domain d0 irq \<longleftrightarrow> unat irq < 16" "irq_in_domain d1 irq \<longleftrightarrow> 16 \<le> unat irq \<and> unat irq < 32"
    "irq_in_domain d2 irq \<longleftrightarrow> 32 \<le> unat irq \<and> unat irq < 32 + unat n" "\<not> irq_in_domain d4 irq" for irq
    using assms(5) d0 d1 d2 d4 by (auto simp: irq_in_domain_iff)
  have dom: "get_irq_domain irq ?s = (if unat irq < 16 then Some d0 else if unat irq < 32 then Some d1 else if unat irq < 32 + unat n then Some d2 else None)" for irq
    by (simp add: get_irq_domain_def dm List.map_filter_simps inn)
  have look: "get_irq_desc cpu (word_of_nat irq) ?s = Some (Some (hp ! irq_pos cpus cpu irq))" if "cpu < cpus" "irq < 32 + unat n" for cpu irq
  proof -
    have u: "unat (word_of_nat irq :: u32) = irq" using that(2) assms(5) by (simp add: unat_irq)
    have len: "cpus * 16 \<le> length (drop 1 hp)" "cpus * 16 \<le> length (drop (2 + 16 * cpus) hp)" using assms(6) by simp_all
    consider "irq < 16" | "16 \<le> irq" "irq < 32" | "32 \<le> irq" by linarith
    then show ?thesis
    proof cases
      case 1
      then show ?thesis using chunk_nth [OF that(1) 1 len(1)] that(1) d0 u
        by (simp add: get_irq_desc_def dom domain_get_irq_desc_def local_get_irq_desc_def inn tabs IRQ_DOMAIN_SGI_def irq_pos_def nth_drop)
    next
      case 2
      then have k: "unat (word_of_nat irq - 16 :: u32) = irq - 16" using u by (subst unat_sub_u32) (simp_all add: word_le_nat_alt)
      have i: "irq - 16 < 16" using 2 by simp
      have e: "drop (2 + 16 * cpus) hp ! (16 * cpu + (irq - 16)) = hp ! irq_pos cpus cpu irq"
        using 2 assms(6) by (subst nth_drop) (simp_all add: irq_pos_def add.assoc)
      show ?thesis using chunk_nth [OF that(1) i len(2)] that(1) d1 u 2 k e
        by (simp add: get_irq_desc_def dom domain_get_irq_desc_def local_get_irq_desc_def inn tabs irq_defs)
    next
      case 3
      then have k: "unat (word_of_nat irq - 32 :: u32) = irq - 32" using u by (subst unat_sub_u32) (simp_all add: word_le_nat_alt)
      have i: "irq - 32 < unat n" "irq - 32 < length (drop (3 + 32 * cpus) hp)" using 3 that(2) assms(6) by auto
      have "drop (3 + 32 * cpus) hp ! (irq - 32) = hp ! irq_pos cpus cpu irq" using 3 assms(6) by (subst nth_drop) (simp_all add: irq_pos_def)
      then show ?thesis using u 3 that(2) k i inn(3) [of "word_of_nat irq"]
        by (simp add: get_irq_desc_def dom domain_get_irq_desc_def spi_get_irq_desc_def d2)
    qed
  qed
  have inj: "hp ! irq_pos cpus cpu irq = hp ! irq_pos cpus cpu' irq' \<longleftrightarrow> irq = irq' \<and> (cpu = cpu' \<or> 32 \<le> irq)"
    if "cpu < cpus" "cpu' < cpus" "irq < 32 + unat n" "irq' < 32 + unat n" for cpu cpu' irq irq'
  proof -
    have "irq_pos cpus cpu irq < length hp" "irq_pos cpus cpu' irq' < length hp"
      using irq_pos_bounds(3) [OF that(1,3)] irq_pos_bounds(3) [OF that(2,4)] assms(6) by linarith+
    then show ?thesis using nth_eq_iff_index_eq [OF assms(3)] irq_pos_inj [OF that(1,2)] by blast
  qed
  show ?thesis unfolding irq_tables_def using look inj ds dom by (auto simp: new_desc_def)
qed

section \<open>An interrupt reaches its handler\<close>

lemma get_irq_desc_cong:
  assumes "irq_domains s' = irq_domains s" "sgi_irqs s' = sgi_irqs s" "ppi_irqs s' = ppi_irqs s"
  shows "get_irq_domain irq s' = get_irq_domain irq s" "domain_get_irq_desc cpu d irq s' = domain_get_irq_desc cpu d irq s"
    "get_irq_desc cpu irq s' = get_irq_desc cpu irq s"
  using assms by (simp_all add: get_irq_domain_def get_irq_desc_def domain_get_irq_desc_def local_get_irq_desc_def
      split: irq_domain_ops.splits option.splits)

text \<open>What \<^verbatim>\<open>request_irq\<close> leaves behind.\<close>

definition irq_requested :: "nat \<Rightarrow> nat \<Rightarrow> nat \<Rightarrow> irqs \<Rightarrow> irqs \<Rightarrow> bool" where
  "irq_requested p h data s s' \<longleftrightarrow> irq_domains s' = irq_domains s \<and> sgi_irqs s' = sgi_irqs s \<and> ppi_irqs s' = ppi_irqs s \<and>
     (\<forall>q. q \<noteq> p \<longrightarrow> irq_descs s' q = irq_descs s q) \<and> hno (irq_descs s' p) = hno (irq_descs s p) \<and>
     i_affinity (irq_descs s' p) = i_affinity (irq_descs s p) \<and> i_handler (irq_descs s' p) = Some h \<and> i_pdata (irq_descs s' p) = data"

lemma irq_set_type_requested:
  assumes "irq_requested p h data s s'" "get_irq_desc cpu irq s' = Some (Some p)"
  obtains s'' where "irq_set_type cpu irq t s' = Some s''" "irq_requested p h data s s''"
proof -
  have e: "irq_set_type cpu irq t s' = Some (if t = i_flags (irq_descs s' p) AND IRQ_FLAGS_TYPE_MASK then s'
      else upd_desc p (\<lambda>d. d\<lparr>i_flags := (i_flags d AND NOT IRQ_FLAGS_TYPE_MASK) OR t\<rparr>)
        (if has_set_type (chip_has s') then chip (Chip_set_type irq t) s' else s'))"
    using assms(2) by (simp add: irq_set_type_def Let_def)
  show thesis by (rule that [OF e]) (use assms(1) in \<open>auto simp: irq_requested_def\<close>)
qed

lemma request_irq_requested:
  assumes "get_irq_desc cpu irq s = Some (Some p)"
  obtains s' where "request_irq cpu irq (Some h) flags name data s = Some (0, s')" "irq_requested p h data s s'"
proof -
  define s1 where "s1 = upd_desc p (\<lambda>d. d\<lparr>i_flags := i_flags d AND NOT IRQ_FLAGS_MASKED\<rparr>) (chip (Chip_unmask irq)
    (upd_desc p (\<lambda>d. d\<lparr>i_handler := Some h, i_pdata := data, i_name := name, i_flags := i_flags d OR (flags AND NOT IRQ_FLAGS_TYPE_MASK)\<rparr>) s))"
  have r: "irq_requested p h data s s1" by (auto simp: s1_def irq_requested_def)
  have g: "get_irq_desc cpu irq s1 = Some (Some p)" using assms by (subst get_irq_desc_cong(3) [of _ s]) (simp_all add: s1_def)
  have e: "request_irq cpu irq (Some h) flags name data s =
      (if flags AND IRQ_FLAGS_TYPE_MASK \<noteq> 0 then map_option (Pair 0) (irq_set_type cpu irq (flags AND IRQ_FLAGS_TYPE_MASK) s1) else Some (0, s1))"
    using assms by (simp add: request_irq_def s1_def Let_def)
  show thesis using that e r irq_set_type_requested [OF r g] by (metis map_option_eq_Some)
qed

text \<open>
  C17. After the boot, with memory for the tables, \<^verbatim>\<open>request_irq\<close> succeeds for every interrupt of the controller and changes no other
  descriptor. From then on \<^verbatim>\<open>do_irq_handler\<close> on that interrupt (a local one on its own CPU, a shared one on the CPU of its affinity,
  which is CPU 0 at first) tells the controller the end of the interrupt, calls that handler with the number and
  the data given, deactivates the interrupt unless the handler succeeded and the interrupt belongs to a virtual CPU, and goes on with
  the next pending interrupt. A number outside of all tables is deactivated and ends the loop with \<open>- ENOENT\<close>.
\<close>

theorem irq_request_dispatch:
  assumes "irq_domains s = replicate 5 None" "irq_heap s = a # b # c # d # hp" "distinct hp" "n \<noteq> 0" "unat n \<le> 988"
    and "3 + 32 * cpus + unat n \<le> length hp" "cpus \<le> 2 ^ 16" "cpu < cpus" "unat irq < 32 + unat n" "unat irq < 32 \<or> cpu = 0"
  shows "\<exists>p s'. request_irq cpu irq (Some h) flags name data (irq_boot cpus n s) = Some (0, s') \<and>
    get_irq_desc cpu irq s' = Some (Some p) \<and> (\<forall>q. q \<noteq> p \<longrightarrow> irq_descs s' q = irq_descs (irq_boot cpus n s) q) \<and>
    (\<forall>run is (x :: 'x). do_irq_handler run cpu (irq # is) (s', x) =
       (case run h irq data (chip (Chip_eoi irq) s', x) of
          None \<Rightarrow> None
        | Some (ret, s'', y) \<Rightarrow>
            do_irq_handler run cpu is (if ret \<noteq> 0 \<or> \<not> bit (i_flags (irq_descs s'' p)) IRQ_FLAGS_VCPU_BIT
              then chip (Chip_dir (ucast (hno (irq_descs s'' p)))) s'' else s'', y))) \<and>
    (\<forall>run is (x :: 'x) bad. 32 + unat n \<le> unat bad \<and> bad \<noteq> BAD_IRQ \<longrightarrow>
       do_irq_handler run cpu (bad # is) (s', x) = Some (- ENOENT, chip (Chip_dir bad) s', x))"
proof -
  let ?s = "irq_boot cpus n s" and ?p = "hp ! irq_pos cpus cpu (unat irq)"
  have n: "unat n < 1000" using assms(5) by simp
  note t = irq_boot_tables [OF assms(1-4) n assms(6), unfolded irq_tables_def]
  have desc: "get_irq_desc cpu irq ?s = Some (Some ?p)" "hno (irq_descs ?s ?p) = word_of_nat (unat irq)"
    "i_affinity (irq_descs ?s ?p) = (if unat irq < 32 then word_of_nat cpu else 0)"
    using t [THEN conjunct1, rule_format, OF assms(8,9)] by simp_all
  obtain s' where r: "request_irq cpu irq (Some h) flags name data ?s = Some (0, s')" and q: "irq_requested ?p h data ?s s'"
    by (rule request_irq_requested [OF desc(1)])
  have same: "get_irq_domain i s' = get_irq_domain i ?s" "get_irq_desc cpu i s' = get_irq_desc cpu i ?s" for i
    using get_irq_desc_cong [of s' ?s] q by (simp_all add: irq_requested_def)
  have g: "get_irq_desc cpu irq s' = Some (Some ?p)" using desc(1) same by simp
  then obtain dm where dm: "get_irq_domain irq s' = Some dm" "domain_get_irq_desc cpu dm irq s' = Some (Some ?p)"
    by (auto simp: get_irq_desc_def split: option.splits)
  have bad: "irq \<noteq> BAD_IRQ" using assms(5,9) by (auto simp: BAD_IRQ_def)
  have num: "ucast (hno (irq_descs s' ?p)) = irq"
  proof (rule word_unat_eq_iff [THEN iffD2])
    have "unat irq < 2 ^ 16" using assms(5,9) by simp
    then show "unat (ucast (hno (irq_descs s' ?p)) :: u32) = unat irq"
      using q desc(2) by (simp add: irq_requested_def unat_of_nat unsigned_ucast_eq unsigned_take_bit_eq take_bit_nat_eq_self)
  qed
  have aff: "(ucast (i_affinity (irq_descs s' ?p)) :: u32) = word_of_nat cpu"
  proof -
    have "cpu < 2 ^ 16" using assms(7,8) by simp
    then have "unat (ucast (word_of_nat cpu :: u16) :: u32) = unat (word_of_nat cpu :: u32)"
      by (simp add: unsigned_ucast_eq unat_of_nat take_bit_nat_eq_self)
    then have "ucast (word_of_nat cpu :: u16) = (word_of_nat cpu :: u32)" by (simp only: word_unat_eq_iff)
    moreover have "i_affinity (irq_descs s' ?p) = word_of_nat cpu" using q desc(3) assms(10) by (auto simp: irq_requested_def)
    ultimately show ?thesis by simp
  qed
  have hand: "do_handle_host_irq run cpu ?p (chip (Chip_eoi irq) s', x) =
      map_option (\<lambda>(ret, s'', y). (ret, if ret \<noteq> 0 \<or> \<not> bit (i_flags (irq_descs s'' ?p)) IRQ_FLAGS_VCPU_BIT
        then chip (Chip_dir (ucast (hno (irq_descs s'' ?p)))) s'' else s'', y)) (run h irq data (chip (Chip_eoi irq) s', x))" for run and x :: 'x
    using q num aff by (simp add: do_handle_host_irq_def irq_requested_def Let_def)
  have "do_irq_handler run cpu (irq # is) (s', x) =
       (case run h irq data (chip (Chip_eoi irq) s', x) of
          None \<Rightarrow> None
        | Some (ret, s'', y) \<Rightarrow>
            do_irq_handler run cpu is (if ret \<noteq> 0 \<or> \<not> bit (i_flags (irq_descs s'' ?p)) IRQ_FLAGS_VCPU_BIT
              then chip (Chip_dir (ucast (hno (irq_descs s'' ?p)))) s'' else s'', y))" for run "is" and x :: 'x
    using bad dm hand [of run x] get_irq_desc_cong(2) [of "chip (Chip_eoi irq) s'" s']
    by (auto simp: Let_def split: option.splits)
  moreover have "do_irq_handler run cpu (i # is) (s', x) = Some (- ENOENT, chip (Chip_dir i) s', x)"
    if "32 + unat n \<le> unat i" "i \<noteq> BAD_IRQ" for run "is" i and x :: 'x
    using that t same(1) by (simp add: do_bad_int_def)
  moreover have "\<forall>q. q \<noteq> ?p \<longrightarrow> irq_descs s' q = irq_descs ?s q" using q by (simp add: irq_requested_def)
  ultimately show ?thesis using r g by blast
qed

definition small_irqs :: irqs where
  "small_irqs = \<lparr>irq_domains = replicate 5 None, irq_descs = (\<lambda>_. zero_irq_desc), sgi_irqs = [], ppi_irqs = [], irq_heap = [1..<80],
     chip_has = \<lparr>has_clear_pending = True, has_set_affinity = True, has_set_type = True\<rparr>, chip_log = []\<rparr>"

theorem irq_request_dispatch_witness:
  "\<exists>s' s''. request_irq 0 33 (Some 7) IRQ_FLAGS_VCPU ''uart'' 5 (irq_boot 1 4 small_irqs) = Some (0, s') \<and>
     do_irq_handler (\<lambda>h irq data (s, x). Some (0, s, x @ [(h, irq, data)])) 0 [33, 60, 34] (s', []) = Some (- ENOENT, s'', [(7, 33, 5)])"
proof -
  have hp: "irq_heap small_irqs = 1 # 2 # 3 # 4 # [5..<80]" by (simp add: small_irqs_def upt_conv_Cons)
  let ?run = "\<lambda>h irq data (s, x). Some (0, s, x @ [(h, irq, data)]) :: (int \<times> irqs \<times> (nat \<times> u32 \<times> nat) list) option"
  have "\<exists>p s'. request_irq 0 33 (Some 7) IRQ_FLAGS_VCPU ''uart'' 5 (irq_boot 1 4 small_irqs) = Some (0, s') \<and>
    get_irq_desc 0 33 s' = Some (Some p) \<and> (\<forall>q. q \<noteq> p \<longrightarrow> irq_descs s' q = irq_descs (irq_boot 1 4 small_irqs) q) \<and>
    (\<forall>run is (x :: (nat \<times> u32 \<times> nat) list). do_irq_handler run 0 (33 # is) (s', x) =
       (case run 7 33 5 (chip (Chip_eoi 33) s', x) of
          None \<Rightarrow> None
        | Some (ret, s'', y) \<Rightarrow>
            do_irq_handler run 0 is (if ret \<noteq> 0 \<or> \<not> bit (i_flags (irq_descs s'' p)) IRQ_FLAGS_VCPU_BIT
              then chip (Chip_dir (ucast (hno (irq_descs s'' p)))) s'' else s'', y))) \<and>
    (\<forall>run is (x :: (nat \<times> u32 \<times> nat) list) bad. 32 + unat (4 :: u32) \<le> unat bad \<and> bad \<noteq> BAD_IRQ \<longrightarrow>
       do_irq_handler run 0 (bad # is) (s', x) = Some (- ENOENT, chip (Chip_dir bad) s', x))"
    by (rule irq_request_dispatch [OF _ hp]) (simp_all add: small_irqs_def)
  then obtain p s' where r: "request_irq 0 33 (Some 7) IRQ_FLAGS_VCPU ''uart'' 5 (irq_boot 1 4 small_irqs) = Some (0, s')"
    and h: "\<And>run is (x :: (nat \<times> u32 \<times> nat) list). do_irq_handler run 0 (33 # is) (s', x) =
       (case run 7 33 5 (chip (Chip_eoi 33) s', x) of
          None \<Rightarrow> None
        | Some (ret, s'', y) \<Rightarrow>
            do_irq_handler run 0 is (if ret \<noteq> 0 \<or> \<not> bit (i_flags (irq_descs s'' p)) IRQ_FLAGS_VCPU_BIT
              then chip (Chip_dir (ucast (hno (irq_descs s'' p)))) s'' else s'', y))"
    and b: "\<And>run is (x :: (nat \<times> u32 \<times> nat) list) bad. 36 \<le> unat bad \<Longrightarrow> bad \<noteq> BAD_IRQ \<Longrightarrow>
       do_irq_handler run 0 (bad # is) (s', x) = Some (- ENOENT, chip (Chip_dir bad) s', x)" by auto
  define s2 where "s2 = (if \<not> bit (i_flags (irq_descs s' p)) IRQ_FLAGS_VCPU_BIT
    then chip (Chip_dir (ucast (hno (irq_descs s' p)))) (chip (Chip_eoi 33) s') else chip (Chip_eoi 33) s')"
  have "do_irq_handler ?run 0 [33, 60, 34] (s', []) = do_irq_handler ?run 0 [60, 34] (s2, [(7, 33, 5)])"
    by (simp add: h s2_def del: do_irq_handler.simps)
  also have "\<dots> = Some (- ENOENT, do_bad_int 60 s2, [(7, 33, 5)])"
  proof -
    have "get_irq_domain 60 s' = None" using b [of 60 ?run "[]" "[]"] by (auto simp: BAD_IRQ_def Let_def errno_defs split: option.splits prod.splits)
    then have "get_irq_domain 60 s2 = None" using get_irq_desc_cong(1) [of s2 s'] by (simp add: s2_def)
    then show ?thesis by (simp add: BAD_IRQ_def)
  qed
  finally show ?thesis using r by blast
qed

end
