(* ===== verification/Virq.thy ===== *)
theory Virq
  imports Irq Klist Bitmap
begin

text \<open>
  The virtual interrupts: \<^verbatim>\<open>os/virt/virq.c\<close>, the list registers of \<^verbatim>\<open>os/virt/virq_chips/vgicv2.c\<close> and the dispatch of
  \<^verbatim>\<open>os/virt/virq_chips/virq_chip.c\<close>. A pointer to a descriptor is also the node by which it hangs in the pending or active list of
  a virtual CPU; the lists are those of Klist, over one store, with 0 for NULL. The list registers belong to the physical CPU
  the code runs on. Virtual CPUs and machines are pointers into total stores. A call of \<^verbatim>\<open>kick_vcpu\<close>, which makes the
  task of the virtual CPU ready, is recorded. Faults are \<open>None\<close>.
\<close>

section \<open>Constants and state\<close>

definition VIRQ_STATE_INACTIVE :: u8 where "VIRQ_STATE_INACTIVE = 0"
definition VIRQ_STATE_PENDING :: u8 where "VIRQ_STATE_PENDING = 1"
definition VIRQ_STATE_ACTIVE :: u8 where "VIRQ_STATE_ACTIVE = 2"
definition VIRQ_INVALID_ID :: u8 where "VIRQ_INVALID_ID = 0xff"
definition VIRQ_AFFINITY_VM_ANY :: u16 where "VIRQ_AFFINITY_VM_ANY = 0xffff"
definition VIRQ_AFFINITY_VCPU_ANY :: u8 where "VIRQ_AFFINITY_VCPU_ANY = 0xff"
definition VM_SGI_VIRQ_NR :: u32 where "VM_SGI_VIRQ_NR = 16"
definition VM_PPI_VIRQ_NR :: u32 where "VM_PPI_VIRQ_NR = 16"
definition VM_LOCAL_VIRQ_NR :: u32 where "VM_LOCAL_VIRQ_NR = 32"
definition HVM_SPI_VIRQ_NR :: u32 where "HVM_SPI_VIRQ_NR = 384"
definition GVM_SPI_VIRQ_NR :: u32 where "GVM_SPI_VIRQ_NR = 64"
definition MAX_HVM_VIRQ :: u32 where "MAX_HVM_VIRQ = HVM_SPI_VIRQ_NR + VM_LOCAL_VIRQ_NR"
definition MAX_GVM_VIRQ :: u32 where "MAX_GVM_VIRQ = GVM_SPI_VIRQ_NR + VM_LOCAL_VIRQ_NR"
definition VIRQS_PENDING :: u32 where "VIRQS_PENDING = 1"
definition VIRQS_ENABLED :: u32 where "VIRQS_ENABLED = 2"
definition VIRQS_HW :: u32 where "VIRQS_HW = 8"
definition VIRQS_CAN_WAKEUP :: u32 where "VIRQS_CAN_WAKEUP = 16"
definition VIRQF_CAN_WAKEUP :: u64 where "VIRQF_CAN_WAKEUP = 16"
definition VIRQF_ENABLE :: u64 where "VIRQF_ENABLE = 32"
definition VM_STAT_OFFLINE :: nat where "VM_STAT_OFFLINE = 0"
definition VM_STAT_ONLINE :: nat where "VM_STAT_ONLINE = 1"
definition VM_STAT_SUSPEND :: nat where "VM_STAT_SUSPEND = 2"
definition VM_STAT_REBOOT :: nat where "VM_STAT_REBOOT = 3"
definition VIRQCHIP_F_HW_VIRT :: u64 where "VIRQCHIP_F_HW_VIRT = 1"

datatype virq_action = VIRQ_ACTION_REMOVE | VIRQ_ACTION_ADD | VIRQ_ACTION_CLEAR

lemmas virq_defs = VIRQ_STATE_INACTIVE_def VIRQ_STATE_PENDING_def VIRQ_STATE_ACTIVE_def VIRQ_INVALID_ID_def VM_SGI_VIRQ_NR_def
  VM_LOCAL_VIRQ_NR_def VIRQS_PENDING_def VIRQS_ENABLED_def VIRQS_HW_def VIRQS_CAN_WAKEUP_def VM_STAT_OFFLINE_def VM_STAT_ONLINE_def
  VM_STAT_SUSPEND_def VM_STAT_REBOOT_def

record virq_desc =
  vd_id :: u8
  vd_state :: u8
  vd_pr :: u8
  vd_src :: u8
  vd_type :: u8
  vd_vcpu_id :: u8
  vd_vmid :: u16
  vd_vno :: u16
  vd_hno :: u16
  vd_flags :: u32

record virq_struct =
  active_count :: u32
  pending_hirq :: u32
  pending_virq :: u32
  irq_bitmap :: bitmap

text \<open>\<^verbatim>\<open>struct gich_lr\<close>: the fields of a list register, at their widths.\<close>

record gich_lr =
  lr_vid :: "10 word"
  lr_pid :: "10 word"
  lr_pr :: "5 word"
  lr_state :: "2 word"
  lr_grp1 :: "1 word"
  lr_hw :: "1 word"

record virq_chip =
  nr_lrs :: nat
  vc_flags :: u64

record vcpu =
  vcpu_id :: u32
  vcpu_vm :: nat
  vcpu_affinity :: nat

record vm =
  vmid :: int
  vcpu_nr :: u32
  vm_state :: nat
  vm_flags :: u64
  vcpus :: "nat list"
  vspi_nr :: u32
  vspi_map :: bitmap
  virq_same_page :: bool
  virq_chip :: "virq_chip option"

record virt =
  vdescs :: "nat \<Rightarrow> virq_desc"
  vlists :: list_store
  vstructs :: "nat \<Rightarrow> virq_struct"
  vcpu_tab :: "nat \<Rightarrow> vcpu"
  vm_tab :: "nat \<Rightarrow> vm"
  vms :: "nat option list"
  current_vcpus :: "nat \<Rightarrow> nat option"
  gich :: "nat \<Rightarrow> nat \<Rightarrow> gich_lr"
  hirqs :: irqs
  kicks :: "nat list"

text \<open>
  The nodes: the heads of the two lists of a virtual CPU, its local descriptors and the shared descriptors of a machine.
  Their addresses differ, and none is NULL or one of the marks that \<^verbatim>\<open>list_del\<close> leaves.
\<close>

definition pending_list :: "nat \<Rightarrow> nat" where "pending_list v = 4 * v + 64"
definition active_list :: "nat \<Rightarrow> nat" where "active_list v = 4 * v + 65"
definition local_desc :: "nat \<Rightarrow> nat \<Rightarrow> nat" where "local_desc v i = 4 * (32 * v + i) + 66"
definition vspi_desc :: "nat \<Rightarrow> nat \<Rightarrow> nat" where "vspi_desc m i = 4 * (1024 * m + i) + 67"

definition upd_vdesc :: "nat \<Rightarrow> (virq_desc \<Rightarrow> virq_desc) \<Rightarrow> virt \<Rightarrow> virt" where
  "upd_vdesc p f st = st\<lparr>vdescs := (vdescs st)(p := f (vdescs st p))\<rparr>"

definition upd_vstruct :: "nat \<Rightarrow> (virq_struct \<Rightarrow> virq_struct) \<Rightarrow> virt \<Rightarrow> virt" where
  "upd_vstruct v f st = st\<lparr>vstructs := (vstructs st)(v := f (vstructs st v))\<rparr>"

definition upd_vlists :: "(list_store \<Rightarrow> list_store) \<Rightarrow> virt \<Rightarrow> virt" where
  "upd_vlists f st = st\<lparr>vlists := f (vlists st)\<rparr>"

definition upd_vm :: "nat \<Rightarrow> (vm \<Rightarrow> vm) \<Rightarrow> virt \<Rightarrow> virt" where
  "upd_vm m f st = st\<lparr>vm_tab := (vm_tab st)(m := f (vm_tab st m))\<rparr>"

section \<open>Flags of a descriptor\<close>

definition virq_set_enable :: "virq_desc \<Rightarrow> virq_desc" where "virq_set_enable d = d\<lparr>vd_flags := vd_flags d OR VIRQS_ENABLED\<rparr>"
definition virq_clear_enable :: "virq_desc \<Rightarrow> virq_desc" where "virq_clear_enable d = d\<lparr>vd_flags := vd_flags d AND NOT VIRQS_ENABLED\<rparr>"
definition virq_is_enabled :: "virq_desc \<Rightarrow> bool" where "virq_is_enabled d \<longleftrightarrow> vd_flags d AND VIRQS_ENABLED \<noteq> 0"
definition virq_set_wakeup :: "virq_desc \<Rightarrow> virq_desc" where "virq_set_wakeup d = d\<lparr>vd_flags := vd_flags d OR VIRQS_CAN_WAKEUP\<rparr>"
definition virq_can_wakeup :: "virq_desc \<Rightarrow> bool" where "virq_can_wakeup d \<longleftrightarrow> vd_flags d AND VIRQS_CAN_WAKEUP \<noteq> 0"
definition virq_set_hw :: "virq_desc \<Rightarrow> virq_desc" where "virq_set_hw d = d\<lparr>vd_flags := vd_flags d OR VIRQS_HW\<rparr>"
definition virq_clear_hw :: "virq_desc \<Rightarrow> virq_desc" where "virq_clear_hw d = d\<lparr>vd_flags := vd_flags d AND NOT VIRQS_HW\<rparr>"
definition virq_is_hw :: "virq_desc \<Rightarrow> bool" where "virq_is_hw d \<longleftrightarrow> vd_flags d AND VIRQS_HW \<noteq> 0"
definition virq_set_pending :: "virq_desc \<Rightarrow> virq_desc" where "virq_set_pending d = d\<lparr>vd_flags := vd_flags d OR VIRQS_PENDING\<rparr>"
definition virq_clear_pending :: "virq_desc \<Rightarrow> virq_desc" where "virq_clear_pending d = d\<lparr>vd_flags := vd_flags d AND NOT VIRQS_PENDING\<rparr>"
definition virq_is_pending :: "virq_desc \<Rightarrow> bool" where "virq_is_pending d \<longleftrightarrow> vd_flags d AND VIRQS_PENDING \<noteq> 0"

section \<open>Machines and virtual CPUs\<close>

definition the_vm :: "nat \<Rightarrow> virt \<Rightarrow> vm" where
  "the_vm v st = vm_tab st (vcpu_vm (vcpu_tab st v))"

definition get_vm_by_id :: "u32 \<Rightarrow> virt \<Rightarrow> nat option" where
  "get_vm_by_id i st = (if unat i \<ge> length (vms st) then None else vms st ! unat i)"

definition get_vcpu_in_vm :: "nat \<Rightarrow> u32 \<Rightarrow> virt \<Rightarrow> nat option" where
  "get_vcpu_in_vm m i st = (if i \<ge> vcpu_nr (vm_tab st m) then None else Some (vcpus (vm_tab st m) ! unat i))"

definition get_vcpu_by_id :: "u32 \<Rightarrow> u32 \<Rightarrow> virt \<Rightarrow> nat option" where
  "get_vcpu_by_id i vcpu st = (case get_vm_by_id i st of None \<Rightarrow> None | Some m \<Rightarrow> get_vcpu_in_vm m vcpu st)"

definition vm_is_hvm :: "vm \<Rightarrow> bool" where "vm_is_hvm vm \<longleftrightarrow> vmid vm = 0"

definition get_virq_desc :: "nat \<Rightarrow> u32 \<Rightarrow> virt \<Rightarrow> nat option" where
  "get_virq_desc v virq st =
    (if virq < VM_LOCAL_VIRQ_NR then Some (local_desc v (unat virq))
     else if virq \<ge> vspi_nr (the_vm v st) + VM_LOCAL_VIRQ_NR then None
     else Some (vspi_desc (vcpu_vm (vcpu_tab st v)) (unat (virq - VM_LOCAL_VIRQ_NR))))"

section \<open>The list registers\<close>

definition zero_lr :: gich_lr where
  "zero_lr = \<lparr>lr_vid = 0, lr_pid = 0, lr_pr = 0, lr_state = 0, lr_grp1 = 0, lr_hw = 0\<rparr>"

definition write_lr :: "nat \<Rightarrow> nat \<Rightarrow> gich_lr \<Rightarrow> virt \<Rightarrow> virt" where
  "write_lr cpu i lr st = st\<lparr>gich := (gich st)(cpu := (gich st cpu)(i := lr))\<rparr>"

definition gicv2_get_virq_state :: "nat \<Rightarrow> nat \<Rightarrow> nat \<Rightarrow> virt \<Rightarrow> u8" where
  "gicv2_get_virq_state nr cpu p st =
    (let i = unat (vd_id (vdescs st p)) in if i \<ge> nr then 0 else ucast (lr_state (gich st cpu i)))"

text \<open>The assignment to the 5 bits of \<^verbatim>\<open>pr\<close> keeps the low bits of the priority.\<close>

definition lr_of :: "virq_desc \<Rightarrow> gich_lr" where
  "lr_of d = \<lparr>lr_vid = ucast (vd_vno d),
     lr_pid = (if virq_is_hw d then ucast (vd_hno d) else if vd_vno d < 16 then ucast (vd_src d) else 0),
     lr_pr = ucast (vd_pr d), lr_state = 1, lr_grp1 = 0, lr_hw = (if virq_is_hw d then 1 else 0)\<rparr>"

definition gicv2_send_virq :: "nat \<Rightarrow> nat \<Rightarrow> nat \<Rightarrow> virt \<Rightarrow> int \<times> virt" where
  "gicv2_send_virq nr cpu p st =
    (let d = vdescs st p in if unat (vd_id d) \<ge> nr then (- EINVAL, st) else (0, write_lr cpu (unat (vd_id d)) (lr_of d) st))"

text \<open>\<^verbatim>\<open>gicv2_update_virq\<close>: the case \<^verbatim>\<open>VIRQ_ACTION_REMOVE\<close> falls through.\<close>

definition gicv2_update_virq :: "nat \<Rightarrow> nat \<Rightarrow> nat \<Rightarrow> virq_action \<Rightarrow> virt \<Rightarrow> int \<times> virt" where
  "gicv2_update_virq nr cpu p action st =
    (let d = vdescs st p in
     if unat (vd_id d) \<ge> nr then (- EINVAL, st)
     else (0, case action of
         VIRQ_ACTION_REMOVE \<Rightarrow>
           write_lr cpu (unat (vd_id d)) zero_lr
             (if virq_is_hw d then st\<lparr>hirqs := irq_clear_pending (ucast (vd_hno d)) (hirqs st)\<rparr> else st)
       | VIRQ_ACTION_CLEAR \<Rightarrow> write_lr cpu (unat (vd_id d)) zero_lr st
       | VIRQ_ACTION_ADD \<Rightarrow> st))"

text \<open>The functions of the chip are those of the GICv2 when it has hardware support, and absent otherwise.\<close>

definition hw_chip :: "nat \<Rightarrow> virt \<Rightarrow> virq_chip option" where
  "hw_chip v st = (case virq_chip (the_vm v st) of None \<Rightarrow> None | Some vc \<Rightarrow> if vc_flags vc AND VIRQCHIP_F_HW_VIRT \<noteq> 0 then Some vc else None)"

definition virqchip_update_virq :: "nat \<Rightarrow> nat \<Rightarrow> nat \<Rightarrow> virq_action \<Rightarrow> virt \<Rightarrow> virt" where
  "virqchip_update_virq cpu v p action st =
    (case hw_chip v st of None \<Rightarrow> st | Some vc \<Rightarrow> snd (gicv2_update_virq (nr_lrs vc) cpu p action st))"

definition virqchip_send_virq :: "nat \<Rightarrow> nat \<Rightarrow> nat \<Rightarrow> virt \<Rightarrow> virt" where
  "virqchip_send_virq cpu v p st = (case hw_chip v st of None \<Rightarrow> st | Some vc \<Rightarrow> snd (gicv2_send_virq (nr_lrs vc) cpu p st))"

definition virqchip_get_virq_state :: "nat \<Rightarrow> nat \<Rightarrow> nat \<Rightarrow> virt \<Rightarrow> u8" where
  "virqchip_get_virq_state cpu v p st = (case hw_chip v st of None \<Rightarrow> 0 | Some vc \<Rightarrow> gicv2_get_virq_state (nr_lrs vc) cpu p st)"

section \<open>Sending\<close>

text \<open>\<^verbatim>\<open>__send_virq\<close>; a software-generated interrupt records the current virtual CPU as its source.\<close>

definition send_virq0 :: "nat \<Rightarrow> nat \<Rightarrow> nat \<Rightarrow> virt \<Rightarrow> virt option" where
  "send_virq0 cpu v p st =
    (if virq_is_pending (vdescs st p) then Some st
     else
       let st = upd_vdesc p virq_set_pending st;
           st = (if nxt (vlists st) p = 0
                 then upd_vstruct v (\<lambda>s. s\<lparr>active_count := active_count s + 1\<rparr>) (upd_vlists (list_add_tail (pending_list v) p) st)
                 else st)
       in if ucast (vd_vno (vdescs st p)) < VM_SGI_VIRQ_NR
          then (case current_vcpus st cpu of
              None \<Rightarrow> None
            | Some c \<Rightarrow> Some (upd_vdesc p (\<lambda>d. d\<lparr>vd_src := ucast (vcpu_id (vcpu_tab st c))\<rparr>) st))
          else Some st)"

definition send_virq :: "nat \<Rightarrow> nat \<Rightarrow> nat \<Rightarrow> virt \<Rightarrow> (int \<times> virt) option" where
  "send_virq cpu v p st =
    (let vm = the_vm v st in
     if vm_state vm = VM_STAT_OFFLINE \<or> vm_state vm = VM_STAT_REBOOT then Some (- EINVAL, st)
     else if vm_state vm = VM_STAT_SUSPEND \<and> \<not> virq_can_wakeup (vdescs st p) then Some (- EAGAIN, st)
     else map_option (\<lambda>st. (0, st\<lparr>kicks := kicks st @ [v]\<rparr>)) (send_virq0 cpu v p st))"

text \<open>\<^verbatim>\<open>guest_irq_handler\<close>: the handler of a host interrupt that belongs to a guest; \<open>data\<close> is its descriptor.\<close>

definition guest_irq_handler :: "nat \<Rightarrow> nat option \<Rightarrow> virt \<Rightarrow> (int \<times> virt) option" where
  "guest_irq_handler cpu data st =
    (case data of
       None \<Rightarrow> None
     | Some p \<Rightarrow>
         let d = vdescs st p in
         if \<not> virq_is_hw d then Some (- EINVAL, st)
         else
           let v = (if vd_vmid d = VIRQ_AFFINITY_VM_ANY \<and> vd_vcpu_id d = VIRQ_AFFINITY_VCPU_ANY then current_vcpus st cpu
                    else get_vcpu_by_id (ucast (vd_vmid d)) (ucast (vd_vcpu_id d)) st)
           in case v of None \<Rightarrow> Some (- ENOENT, st) | Some v \<Rightarrow> send_virq cpu v p st)"

definition send_virq_to_vcpu :: "nat \<Rightarrow> nat \<Rightarrow> u32 \<Rightarrow> virt \<Rightarrow> (int \<times> virt) option" where
  "send_virq_to_vcpu cpu v virq st =
    (case get_virq_desc v virq st of
       Some p \<Rightarrow> send_virq cpu v p st
     | None \<Rightarrow>
         if vm_state (the_vm v st) = VM_STAT_OFFLINE \<or> vm_state (the_vm v st) = VM_STAT_REBOOT then Some (- EINVAL, st) else None)"

definition send_virq_to_vm :: "nat \<Rightarrow> nat option \<Rightarrow> u32 \<Rightarrow> virt \<Rightarrow> (int \<times> virt) option" where
  "send_virq_to_vm cpu m virq st =
    (case m of
       None \<Rightarrow> Some (- EINVAL, st)
     | Some m \<Rightarrow>
         if virq < VM_LOCAL_VIRQ_NR then Some (- EINVAL, st)
         else if vcpus (vm_tab st m) = [] then None
         else case get_virq_desc (hd (vcpus (vm_tab st m))) virq st of
             None \<Rightarrow> Some (- ENOENT, st)
           | Some p \<Rightarrow>
               if virq_is_hw (vdescs st p) then Some (- EPERM, st)
               else case get_vcpu_in_vm m (ucast (vd_vcpu_id (vdescs st p))) st of
                   None \<Rightarrow> Some (- ENOENT, st)
                 | Some v \<Rightarrow> send_virq cpu v p st)"

fun send_vsgi_loop :: "nat \<Rightarrow> nat \<Rightarrow> u32 \<Rightarrow> nat list \<Rightarrow> virt \<Rightarrow> virt option" where
  "send_vsgi_loop cpu m sgi [] st = Some st"
| "send_vsgi_loop cpu m sgi (c # cs) st =
    (case send_virq_to_vcpu cpu (vcpus (vm_tab st m) ! c) sgi st of None \<Rightarrow> None | Some (_, st) \<Rightarrow> send_vsgi_loop cpu m sgi cs st)"

definition send_vsgi :: "nat \<Rightarrow> nat \<Rightarrow> u32 \<Rightarrow> bitmap \<Rightarrow> virt \<Rightarrow> virt option" where
  "send_vsgi cpu sender sgi cpumask st =
    (let m = vcpu_vm (vcpu_tab st sender)
     in send_vsgi_loop cpu m sgi (for_each_set_bit cpumask (unat (vcpu_nr (vm_tab st m)))) st)"

section \<open>Without hardware support: acknowledge and end of interrupt\<close>

definition clear_pending_virq :: "nat \<Rightarrow> nat \<Rightarrow> u32 \<Rightarrow> virt \<Rightarrow> virt" where
  "clear_pending_virq cpu v irq st =
    (case get_virq_desc v irq st of
       None \<Rightarrow> st
     | Some p \<Rightarrow>
         if vd_state (vdescs st p) \<noteq> VIRQ_STATE_ACTIVE then st
         else
           let st = (if nxt (vlists st) p \<noteq> 0 then upd_vlists (\<lambda>h. set_nxt p 0 (list_del p h)) st else st);
               st = (if virq_is_pending (vdescs st p)
                     then upd_vdesc p (\<lambda>d. d\<lparr>vd_state := VIRQ_STATE_PENDING\<rparr>) (upd_vlists (list_add_tail (pending_list v) p) st)
                     else upd_vdesc p (\<lambda>d. d\<lparr>vd_state := VIRQ_STATE_INACTIVE\<rparr>) st)
           in virqchip_update_virq cpu v p VIRQ_ACTION_CLEAR st)"

definition get_pending_virq :: "nat \<Rightarrow> virt \<Rightarrow> u32 \<times> virt" where
  "get_pending_virq v st =
    (if is_list_empty (pending_list v) (vlists st) then (BAD_IRQ, st)
     else
       let p = nxt (vlists st) (pending_list v);
           st = upd_vlists (\<lambda>h. list_add_tail (active_list v) p (list_del p h)) st;
           st = upd_vdesc p (\<lambda>d. virq_clear_pending (d\<lparr>vd_state := VIRQ_STATE_ACTIVE\<rparr>)) st
       in (ucast (vd_vno (vdescs st p)), st))"

definition vcpu_has_irq :: "nat \<Rightarrow> virt \<Rightarrow> bool" where
  "vcpu_has_irq v st \<longleftrightarrow> \<not> (is_list_empty (pending_list v) (vlists st) \<and> is_list_empty (active_list v) (vlists st))"

section \<open>Requests and their state\<close>

definition virq_get_type :: "nat \<Rightarrow> u32 \<Rightarrow> virt \<Rightarrow> u32" where
  "virq_get_type v virq st = (case get_virq_desc v virq st of None \<Rightarrow> 0 | Some p \<Rightarrow> ucast (vd_type (vdescs st p)))"

definition virq_get_state :: "nat \<Rightarrow> u32 \<Rightarrow> virt \<Rightarrow> u32" where
  "virq_get_state v virq st = (case get_virq_desc v virq st of None \<Rightarrow> 0 | Some p \<Rightarrow> if virq_is_enabled (vdescs st p) then 1 else 0)"

definition virq_get_affinity :: "nat \<Rightarrow> u32 \<Rightarrow> virt \<Rightarrow> u32" where
  "virq_get_affinity v virq st = (case get_virq_desc v virq st of None \<Rightarrow> 0 | Some p \<Rightarrow> ucast (vd_vcpu_id (vdescs st p)))"

definition virq_get_pr :: "nat \<Rightarrow> u32 \<Rightarrow> virt \<Rightarrow> u32" where
  "virq_get_pr v virq st = (case get_virq_desc v virq st of None \<Rightarrow> 0 | Some p \<Rightarrow> ucast (vd_pr (vdescs st p)))"

text \<open>A call into the interrupts of the host.\<close>

definition on_hirqs :: "(irqs \<Rightarrow> irqs option) \<Rightarrow> virt \<Rightarrow> virt option" where
  "on_hirqs f st = map_option (\<lambda>s. st\<lparr>hirqs := s\<rparr>) (f (hirqs st))"

definition virq_set_type :: "nat \<Rightarrow> nat \<Rightarrow> u32 \<Rightarrow> int \<Rightarrow> virt \<Rightarrow> (int \<times> virt) option" where
  "virq_set_type cpu v virq val st =
    (case get_virq_desc v virq st of
       None \<Rightarrow> Some (- ENOENT, st)
     | Some p \<Rightarrow>
         if uint (vd_type (vdescs st p)) = val then Some (0, st)
         else
           let st = upd_vdesc p (\<lambda>d. d\<lparr>vd_type := word_of_int val\<rparr>) st; d = vdescs st p
           in map_option (Pair 0)
                (if virq_is_hw d
                 then on_hirqs (irq_set_type cpu (ucast (vd_hno d)) (if val \<noteq> 0 then IRQ_FLAGS_EDGE_RISING else IRQ_FLAGS_LEVEL_HIGH)) st
                 else Some st))"

definition virq_set_priority :: "nat \<Rightarrow> u32 \<Rightarrow> int \<Rightarrow> virt \<Rightarrow> int \<times> virt" where
  "virq_set_priority v virq pr st =
    (case get_virq_desc v virq st of None \<Rightarrow> (- ENOENT, st) | Some p \<Rightarrow> (0, upd_vdesc p (\<lambda>d. d\<lparr>vd_pr := word_of_int pr\<rparr>) st))"

definition virq_enable :: "nat \<Rightarrow> nat \<Rightarrow> u32 \<Rightarrow> virt \<Rightarrow> (int \<times> virt) option" where
  "virq_enable cpu v virq st =
    (case get_virq_desc v virq st of
       None \<Rightarrow> Some (- ENOENT, st)
     | Some p \<Rightarrow>
         let st = upd_vdesc p virq_set_enable st
         in map_option (Pair 0)
              (if virq > VM_LOCAL_VIRQ_NR \<and> virq_is_hw (vdescs st p) then on_hirqs (irq_unmask cpu (ucast (vd_hno (vdescs st p)))) st else Some st))"

definition virq_disable :: "nat \<Rightarrow> nat \<Rightarrow> u32 \<Rightarrow> virt \<Rightarrow> (int \<times> virt) option" where
  "virq_disable cpu v virq st =
    (case get_virq_desc v virq st of
       None \<Rightarrow> Some (- ENOENT, st)
     | Some p \<Rightarrow>
         let st = upd_vdesc p virq_clear_enable st
         in map_option (Pair 0)
              (if virq > VM_LOCAL_VIRQ_NR \<and> virq_is_hw (vdescs st p) then on_hirqs (irq_mask cpu (ucast (vd_hno (vdescs st p)))) st else Some st))"

definition reset_lists :: "nat \<Rightarrow> virt \<Rightarrow> virt" where
  "reset_lists v = upd_vlists (\<lambda>h. init_list (active_list v) (init_list (pending_list v) h))"

text \<open>The loops over the local descriptors of a virtual CPU.\<close>

definition for_local_descs :: "nat \<Rightarrow> (nat \<Rightarrow> list_store \<Rightarrow> list_store) \<Rightarrow> (nat \<Rightarrow> virq_desc \<Rightarrow> virq_desc) \<Rightarrow> virt \<Rightarrow> virt" where
  "for_local_descs v g f st =
    fold (\<lambda>i st. upd_vlists (g (local_desc v i)) (upd_vdesc (local_desc v i) (f i) st)) [0..<unat VM_LOCAL_VIRQ_NR] st"

definition vcpu_virq_struct_reset :: "nat \<Rightarrow> virt \<Rightarrow> virt" where
  "vcpu_virq_struct_reset v st =
    (let st = reset_lists v (upd_vstruct v (\<lambda>_. \<lparr>active_count = 0, pending_hirq = 0, pending_virq = 0, irq_bitmap = [0]\<rparr>) st)
     in for_local_descs v (\<lambda>p. set_nxt p 0) (\<lambda>_ d. virq_clear_pending (d\<lparr>vd_id := VIRQ_INVALID_ID, vd_state := VIRQ_STATE_INACTIVE\<rparr>)) st)"

definition zero_vdesc :: virq_desc where
  "zero_vdesc = \<lparr>vd_id = 0, vd_state = 0, vd_pr = 0, vd_src = 0, vd_type = 0, vd_vcpu_id = 0, vd_vmid = 0, vd_vno = 0, vd_hno = 0, vd_flags = 0\<rparr>"

definition vcpu_virq_struct_init :: "nat \<Rightarrow> virt \<Rightarrow> virt" where
  "vcpu_virq_struct_init v st =
    (let st = reset_lists v (upd_vstruct v (\<lambda>s. s\<lparr>active_count := 0, pending_hirq := 0, pending_virq := 0\<rparr>) st)
     in for_local_descs v (\<lambda>p h. set_pre p 0 (set_nxt p 0 h)) (\<lambda>i _. virq_set_enable (virq_clear_hw (zero_vdesc\<lparr>vd_vcpu_id := VIRQ_AFFINITY_VCPU_ANY, vd_vmid := VIRQ_AFFINITY_VM_ANY,
          vd_vno := word_of_nat i, vd_hno := 0, vd_id := VIRQ_INVALID_ID, vd_state := VIRQ_STATE_INACTIVE\<rparr>))) st)"

definition update_virq_cap :: "nat \<Rightarrow> nat \<Rightarrow> u64 \<Rightarrow> virt \<Rightarrow> virt option" where
  "update_virq_cap cpu p flags st =
    (let st = (if flags AND VIRQF_CAN_WAKEUP \<noteq> 0 then upd_vdesc p virq_set_wakeup st else st) in
     if flags AND VIRQF_ENABLE = 0 then Some st
     else
       let st = upd_vdesc p virq_set_enable st
       in if virq_is_hw (vdescs st p) then on_hirqs (irq_unmask cpu (ucast (vd_hno (vdescs st p)))) st else Some st)"

text \<open>
  \<^verbatim>\<open>__request_virq\<close> takes the descriptor out of every list by its pointer alone. The handler of the host interrupt is
  \<^verbatim>\<open>guest_irq_handler\<close>, here the number 1; \<open>cpus\<close> is \<^verbatim>\<open>NR_CPUS\<close>. The name of the task, a label for messages, is \<open>''vcpu''\<close>.
\<close>

definition request_virq0 :: "nat \<Rightarrow> nat \<Rightarrow> nat \<Rightarrow> nat \<Rightarrow> u32 \<Rightarrow> u32 \<Rightarrow> u64 \<Rightarrow> virt \<Rightarrow> (int \<times> virt) option" where
  "request_virq0 cpus cpu v p virq hwirq flags st =
    (let m = vcpu_vm (vcpu_tab st v);
         st = upd_vdesc p (\<lambda>d. virq_clear_enable (d\<lparr>vd_vno := ucast virq, vd_hno := ucast hwirq, vd_vcpu_id := ucast (vcpu_id (vcpu_tab st v)),
                vd_pr := 0xa0, vd_vmid := word_of_int (vmid (vm_tab st m)), vd_id := VIRQ_INVALID_ID, vd_state := VIRQ_STATE_INACTIVE\<rparr>)) st;
         st = upd_vlists (set_nxt p 0) st;
         st = (if virq \<ge> VM_LOCAL_VIRQ_NR
               then upd_vm m (\<lambda>vm. vm\<lparr>vspi_map := bm_set_bit (unat (virq - VM_LOCAL_VIRQ_NR)) (vspi_map vm)\<rparr>) st else st);
         hw = (if hwirq \<noteq> 0
               then case irq_set_affinity cpus cpu hwirq (int (vcpu_affinity (vcpu_tab st v))) (hirqs st) of
                   None \<Rightarrow> None
                 | Some s \<Rightarrow>
                     (case request_irq cpu hwirq (Some 1) IRQ_FLAGS_VCPU ''vcpu'' p s of
                        None \<Rightarrow> None
                      | Some (_, s) \<Rightarrow>
                          map_option (\<lambda>s. (upd_vdesc p virq_set_hw st)\<lparr>hirqs := s\<rparr>) (irq_mask cpu (ucast (vd_hno (vdescs st p))) s))
               else Some (upd_vdesc p virq_clear_hw st))
     in case hw of None \<Rightarrow> None | Some st \<Rightarrow> map_option (Pair 0) (update_virq_cap cpu p flags st))"

definition request_virq_affinity :: "nat \<Rightarrow> nat \<Rightarrow> nat option \<Rightarrow> u32 \<Rightarrow> u32 \<Rightarrow> u32 \<Rightarrow> u64 \<Rightarrow> virt \<Rightarrow> (int \<times> virt) option" where
  "request_virq_affinity cpus cpu m virq hwirq affinity flags st =
    (case m of
       None \<Rightarrow> Some (- EINVAL, st)
     | Some m \<Rightarrow>
         (case get_vcpu_in_vm m affinity st of
            None \<Rightarrow> Some (- EINVAL, st)
          | Some v \<Rightarrow>
              (case get_virq_desc v virq st of
                 None \<Rightarrow> Some (- ENOENT, st)
               | Some p \<Rightarrow> request_virq0 cpus cpu v p virq hwirq flags st)))"

definition request_hw_virq :: "nat \<Rightarrow> nat \<Rightarrow> nat \<Rightarrow> u32 \<Rightarrow> u32 \<Rightarrow> u64 \<Rightarrow> virt \<Rightarrow> (int \<times> virt) option" where
  "request_hw_virq cpus cpu m virq hwirq flags st =
    (let mx = (if vm_is_hvm (vm_tab st m) then MAX_HVM_VIRQ else MAX_GVM_VIRQ) in
     if virq \<ge> mx then Some (- EINVAL, st) else request_virq_affinity cpus cpu (Some m) virq hwirq 0 flags st)"

definition request_virq :: "nat \<Rightarrow> nat \<Rightarrow> nat \<Rightarrow> u32 \<Rightarrow> u64 \<Rightarrow> virt \<Rightarrow> (int \<times> virt) option" where
  "request_virq cpus cpu m virq flags st = request_hw_virq cpus cpu m virq 0 flags st"

fun request_virq_vcpus :: "nat \<Rightarrow> nat \<Rightarrow> nat list \<Rightarrow> u32 \<Rightarrow> u64 \<Rightarrow> virt \<Rightarrow> virt option" where
  "request_virq_vcpus cpus cpu [] virq flags st = Some st"
| "request_virq_vcpus cpus cpu (v # vs) virq flags st =
    (case get_virq_desc v virq st of
       None \<Rightarrow> request_virq_vcpus cpus cpu vs virq flags st
     | Some p \<Rightarrow>
         (case request_virq0 cpus cpu v p virq 0 flags st of
            None \<Rightarrow> None
          | Some (_, st) \<Rightarrow>
              request_virq_vcpus cpus cpu vs virq flags
                (upd_vdesc p (\<lambda>d. d\<lparr>vd_vcpu_id := VIRQ_AFFINITY_VCPU_ANY, vd_vmid := VIRQ_AFFINITY_VM_ANY\<rparr>) st)))"

definition request_virq_pervcpu :: "nat \<Rightarrow> nat \<Rightarrow> nat \<Rightarrow> u32 \<Rightarrow> u64 \<Rightarrow> virt \<Rightarrow> (int \<times> virt) option" where
  "request_virq_pervcpu cpus cpu m virq flags st =
    (if virq \<ge> VM_LOCAL_VIRQ_NR then Some (- EINVAL, st)
     else map_option (Pair 0) (request_virq_vcpus cpus cpu (vcpus (vm_tab st m)) virq flags st))"

definition alloc_vm_virq :: "nat \<Rightarrow> nat \<Rightarrow> nat \<Rightarrow> virt \<Rightarrow> (int \<times> virt) option" where
  "alloc_vm_virq cpus cpu m st =
    (let count = unat (vspi_nr (vm_tab st m));
         virq = find_next_zero_bit_loop (vspi_map (vm_tab st m)) count 0
     in if virq \<ge> count then Some (- 1, st)
        else map_option (\<lambda>(_, st). (int virq + 32, st)) (request_virq cpus cpu m (word_of_nat (virq + 32)) VIRQF_ENABLE st))"

text \<open>\<^verbatim>\<open>release_vm_virq\<close>: a number below 32 becomes a large unsigned one. The descriptor is cleared with its pointers.\<close>

definition release_vm_virq :: "nat \<Rightarrow> int \<Rightarrow> virt \<Rightarrow> virt" where
  "release_vm_virq m virq st =
    (let i = (word_of_int virq - VM_LOCAL_VIRQ_NR :: u32) in
     if i \<ge> vspi_nr (vm_tab st m) then st
     else
       let p = vspi_desc m (unat i);
           st = upd_vlists (\<lambda>h. set_pre p 0 (set_nxt p 0 h)) (upd_vdesc p (\<lambda>_. zero_vdesc) st)
       in upd_vm m (\<lambda>vm. vm\<lparr>vspi_map := bm_clear_bit (unat i) (vspi_map vm)\<rparr>) st)"

text \<open>
  \<^verbatim>\<open>virq_create_vm\<close>: \<open>pages\<close> and \<open>heap\<close> are whether the allocations succeed; a descriptor is 32 bytes, so that the map of the
  interrupts fits behind the descriptors in the last page unless they fill it.
\<close>

definition virq_create_vm :: "nat \<Rightarrow> bool \<Rightarrow> bool \<Rightarrow> virt \<Rightarrow> int \<times> virt" where
  "virq_create_vm m pages heap st =
    (let nr = (if vmid (vm_tab st m) = 0 then HVM_SPI_VIRQ_NR else GVM_SPI_VIRQ_NR);
         tmp = 32 * unat nr;
         sz = (tmp + 4095) div 4096 * 4096;
         map_size = (unat nr + 63) div 64 * 8;
         same = (sz - tmp \<ge> map_size)
     in if \<not> pages then (- ENOMEM, upd_vm m (\<lambda>vm. vm\<lparr>virq_same_page := False\<rparr>) st)
        else if \<not> same \<and> \<not> heap then (- ENOMEM, upd_vm m (\<lambda>vm. vm\<lparr>virq_same_page := False\<rparr>) st)
        else
          let st = fold (\<lambda>i st. upd_vlists (\<lambda>h. set_pre (vspi_desc m i) 0 (set_nxt (vspi_desc m i) 0 h)) (upd_vdesc (vspi_desc m i) (\<lambda>_. zero_vdesc) st))
                     [0..<unat nr] st
          in (0, upd_vm m (\<lambda>vm. vm\<lparr>virq_same_page := same, vspi_map := replicate ((unat nr + 63) div 64) 0, vspi_nr := nr\<rparr>) st))"

text \<open>The loops over the shared descriptors of a machine.\<close>

fun reset_spis :: "nat \<Rightarrow> nat \<Rightarrow> nat list \<Rightarrow> virt \<Rightarrow> virt option" where
  "reset_spis cpu m [] st = Some st"
| "reset_spis cpu m (i # is) st =
    (let p = vspi_desc m i;
         st = upd_vlists (set_nxt p 0) (upd_vdesc p (\<lambda>d. (virq_clear_pending (virq_clear_enable d))\<lparr>vd_pr := 0xa0, vd_type := 0,
                vd_id := VIRQ_INVALID_ID, vd_state := VIRQ_STATE_INACTIVE\<rparr>) st)
     in case (if virq_is_hw (vdescs st p) then on_hirqs (irq_mask cpu (ucast (vd_hno (vdescs st p)))) st else Some st) of
          None \<Rightarrow> None
        | Some st \<Rightarrow> reset_spis cpu m is st)"

definition vm_virq_reset :: "nat \<Rightarrow> nat \<Rightarrow> virt \<Rightarrow> virt option" where
  "vm_virq_reset cpu m st = reset_spis cpu m [0..<unat (vspi_nr (vm_tab st m))] st"

fun mask_spis :: "nat \<Rightarrow> nat \<Rightarrow> nat list \<Rightarrow> virt \<Rightarrow> virt option" where
  "mask_spis cpu m [] st = Some st"
| "mask_spis cpu m (i # is) st =
    (let d = vdescs st (vspi_desc m i)
     in case (if virq_is_enabled d \<and> virq_is_hw d \<and> ucast (vd_hno d) > VM_LOCAL_VIRQ_NR then on_hirqs (irq_mask cpu (ucast (vd_hno d))) st else Some st) of
          None \<Rightarrow> None
        | Some st \<Rightarrow> mask_spis cpu m is st)"

text \<open>\<^verbatim>\<open>virq_destroy_vm\<close>, without the release of the memory: \<^verbatim>\<open>VIRQ_SPI_NR\<close> takes 32 off the number of shared interrupts.\<close>

definition VIRQ_SPI_NR :: "u32 \<Rightarrow> u32" where
  "VIRQ_SPI_NR count = (if count > VM_LOCAL_VIRQ_NR then count - VM_LOCAL_VIRQ_NR else 0)"

definition virq_destroy_vm :: "nat \<Rightarrow> nat \<Rightarrow> virt \<Rightarrow> virt option" where
  "virq_destroy_vm cpu m st = mask_spis cpu m [0..<unat (VIRQ_SPI_NR (vspi_nr (vm_tab st m)))] st"

section \<open>Entering and leaving the guest\<close>

definition clear_lr_bit :: "nat \<Rightarrow> u8 \<Rightarrow> virt \<Rightarrow> virt option" where
  "clear_lr_bit v i st =
    (if unat i \<ge> 64 * length (irq_bitmap (vstructs st v)) then None
     else Some (upd_vstruct v (\<lambda>s. s\<lparr>irq_bitmap := bm_clear_bit (unat i) (irq_bitmap s)\<rparr>) st))"

text \<open>
  The body of the loop of \<^verbatim>\<open>vgic_irq_enter_to_guest\<close> for the descriptor \<open>p\<close>; the result says whether the loop goes on. An interrupt
  that is listed but no longer pending is dropped.
\<close>

definition enter_drop :: "nat \<Rightarrow> nat \<Rightarrow> nat \<Rightarrow> virt \<Rightarrow> virt option" where
  "enter_drop cpu v p st =
    (let st = upd_vdesc p (\<lambda>d. d\<lparr>vd_state := 0\<rparr>) st;
         unlink = upd_vlists (\<lambda>h. set_nxt p 0 (list_del p h));
         i = vd_id (vdescs st p)
     in if i \<noteq> VIRQ_INVALID_ID
        then map_option (\<lambda>st. unlink (upd_vdesc p (\<lambda>d. d\<lparr>vd_id := VIRQ_INVALID_ID\<rparr>) st))
               (clear_lr_bit v i (virqchip_update_virq cpu v p VIRQ_ACTION_CLEAR st))
        else Some (unlink st))"

definition enter_send :: "nat \<Rightarrow> nat \<Rightarrow> nat \<Rightarrow> virt \<Rightarrow> virt" where
  "enter_send cpu v p st =
    upd_vlists (\<lambda>h. list_add_tail (active_list v) p (list_del p h))
      (upd_vdesc p (\<lambda>d. virq_clear_pending (d\<lparr>vd_state := VIRQ_STATE_PENDING\<rparr>)) (virqchip_send_virq cpu v p st))"

definition enter_one :: "nat \<Rightarrow> nat \<Rightarrow> nat \<Rightarrow> nat \<Rightarrow> virt \<Rightarrow> (bool \<times> virt) option" where
  "enter_one nr cpu v p st =
    (if \<not> virq_is_pending (vdescs st p) then map_option (Pair True) (enter_drop cpu v p st)
     else if vd_id (vdescs st p) \<noteq> VIRQ_INVALID_ID then Some (True, enter_send cpu v p st)
     else
       let i = find_next_zero_bit (irq_bitmap (vstructs st v)) nr 0 in
       if i = nr then Some (False, st)
       else Some (True, enter_send cpu v p (upd_vstruct v (\<lambda>s. s\<lparr>irq_bitmap := bm_set_bit i (irq_bitmap s)\<rparr>)
              (upd_vdesc p (\<lambda>d. d\<lparr>vd_id := word_of_nat i\<rparr>) st))))"

partial_function (option) enter_loop :: "nat \<Rightarrow> nat \<Rightarrow> nat \<Rightarrow> nat \<Rightarrow> virt \<Rightarrow> virt option" where
  "enter_loop nr cpu v p st =
    (if p = pending_list v then Some st
     else
       let n = nxt (vlists st) p
       in Option.bind (enter_one nr cpu v p st) (\<lambda>(cont, st). if cont then enter_loop nr cpu v n st else Some st))"

definition vgic_irq_enter_to_guest :: "nat \<Rightarrow> nat \<Rightarrow> virt \<Rightarrow> virt option" where
  "vgic_irq_enter_to_guest cpu v st =
    (case virq_chip (the_vm v st) of
       None \<Rightarrow> None
     | Some vc \<Rightarrow> enter_loop (nr_lrs vc) cpu v (nxt (vlists st) (pending_list v)) st)"

definition exit_one :: "nat \<Rightarrow> nat \<Rightarrow> nat \<Rightarrow> virt \<Rightarrow> virt option" where
  "exit_one cpu v p st =
    (let status = virqchip_get_virq_state cpu v p st in
     if status = VIRQ_STATE_INACTIVE then
       if \<not> virq_is_pending (vdescs st p) then
         map_option (\<lambda>st. upd_vstruct v (\<lambda>s. s\<lparr>active_count := active_count s - 1\<rparr>)
             (upd_vlists (\<lambda>h. set_nxt p 0 (list_del p h))
               (upd_vdesc p (\<lambda>d. d\<lparr>vd_state := VIRQ_STATE_INACTIVE, vd_id := VIRQ_INVALID_ID\<rparr>) st)))
           (clear_lr_bit v (vd_id (vdescs st p)) (virqchip_update_virq cpu v p VIRQ_ACTION_CLEAR st))
       else Some (upd_vlists (\<lambda>h. list_add_tail (pending_list v) p (list_del p h)) (virqchip_update_virq cpu v p VIRQ_ACTION_CLEAR st))
     else Some (upd_vdesc p (\<lambda>d. d\<lparr>vd_state := status\<rparr>) st))"

partial_function (option) exit_loop :: "nat \<Rightarrow> nat \<Rightarrow> nat \<Rightarrow> virt \<Rightarrow> virt option" where
  "exit_loop cpu v p st =
    (if p = active_list v then Some st
     else let n = nxt (vlists st) p in Option.bind (exit_one cpu v p st) (\<lambda>st. exit_loop cpu v n st))"

definition vgic_irq_exit_from_guest :: "nat \<Rightarrow> nat \<Rightarrow> virt \<Rightarrow> virt option" where
  "vgic_irq_exit_from_guest cpu v st = exit_loop cpu v (nxt (vlists st) (active_list v)) st"

text \<open>
  The hooks of \<^verbatim>\<open>virq_chip.c\<close>. Without hardware support the first result says what the virtual interrupt line of the CPU becomes;
  with it the line is not touched.
\<close>

definition virqchip_enter_to_guest :: "nat \<Rightarrow> nat \<Rightarrow> virt \<Rightarrow> (bool option \<times> virt) option" where
  "virqchip_enter_to_guest cpu v st =
    (case virq_chip (the_vm v st) of
       None \<Rightarrow> None
     | Some vc \<Rightarrow>
         if vc_flags vc AND VIRQCHIP_F_HW_VIRT = 0 then Some (Some (vcpu_has_irq v st), st)
         else map_option (Pair None) (vgic_irq_enter_to_guest cpu v st))"

definition virqchip_exit_from_guest :: "nat \<Rightarrow> nat \<Rightarrow> virt \<Rightarrow> virt option" where
  "virqchip_exit_from_guest cpu v st =
    (case virq_chip (the_vm v st) of
       None \<Rightarrow> None
     | Some vc \<Rightarrow> if vc_flags vc AND VIRQCHIP_F_HW_VIRT = 0 then Some st else vgic_irq_exit_from_guest cpu v st)"

end
