(* ===== verification/Virq_Inv.thy ===== *)
theory Virq_Inv
  imports Virq
begin

text \<open>
  The invariant of the virtual interrupts of a virtual CPU on a GIC with hardware support, that sending, entering and leaving the
  guest keep it, and that an interrupt that was sent reaches a list register.
\<close>

section \<open>The two lists\<close>

text \<open>\<open>P\<close> are the descriptors that are ever sent to the virtual CPU; \<^verbatim>\<open>list.next\<close> is NULL exactly when a descriptor is on no list.\<close>

definition lists_ok :: "nat \<Rightarrow> nat set \<Rightarrow> nat list \<Rightarrow> nat list \<Rightarrow> list_store \<Rightarrow> bool" where
  "lists_ok v P xs ys h \<longleftrightarrow> dll h (pending_list v) xs \<and> dll h (active_list v) ys \<and>
     insert (pending_list v) (set xs) \<inter> insert (active_list v) (set ys) = {} \<and> set xs \<union> set ys \<subseteq> P \<and>
     pending_list v \<notin> P \<and> active_list v \<notin> P \<and> 0 \<notin> P \<and> (\<forall>p\<in>P. nxt h p \<noteq> 0 \<longleftrightarrow> p \<in> set xs \<union> set ys)"

lemma heads [simp]: "pending_list v \<noteq> 0" "active_list v \<noteq> 0" "pending_list v \<noteq> active_list w" "active_list v \<noteq> pending_list w"
  by (auto simp: pending_list_def active_list_def) presburger+

lemma lists_okI:
  assumes "dll h (pending_list v) xs" "dll h (active_list v) ys" "insert (pending_list v) (set xs) \<inter> insert (active_list v) (set ys) = {}"
    and "set xs \<union> set ys \<subseteq> P" "pending_list v \<notin> P" "active_list v \<notin> P" "0 \<notin> P"
    and "\<And>p. p \<in> P \<Longrightarrow> p \<notin> set xs \<union> set ys \<Longrightarrow> nxt h p = 0"
  shows "lists_ok v P xs ys h"
proof -
  have on: "nxt h p \<noteq> 0" if "p \<in> set xs \<union> set ys" for p
  proof -
    have "nxt h p \<in> {pending_list v, active_list v} \<union> set xs \<union> set ys"
      using that dll_next_mem [OF assms(1), of p] dll_next_mem [OF assms(2), of p] by auto
    moreover have "0 \<notin> {pending_list v, active_list v} \<union> set xs \<union> set ys" using assms(4,7) heads(1,2) [of v, symmetric] by blast
    ultimately show ?thesis by metis
  qed
  have "nxt h p \<noteq> 0 \<longleftrightarrow> p \<in> set xs \<union> set ys" if "p \<in> P" for p
    using on [of p] assms(8) [OF that] by (cases "p \<in> set xs \<union> set ys") simp_all
  then have "\<forall>p\<in>P. nxt h p \<noteq> 0 \<longleftrightarrow> p \<in> set xs \<union> set ys" by simp
  then show ?thesis unfolding lists_ok_def using assms(1-7) by (intro conjI)
qed

lemma lists_okD:
  assumes "lists_ok v P xs ys h"
  shows "dll h (pending_list v) xs" "dll h (active_list v) ys" "insert (pending_list v) (set xs) \<inter> insert (active_list v) (set ys) = {}"
    "set xs \<union> set ys \<subseteq> P" "pending_list v \<notin> P" "active_list v \<notin> P" "0 \<notin> P" "distinct xs" "distinct ys"
    "p \<in> P \<Longrightarrow> nxt h p = 0 \<longleftrightarrow> p \<notin> set xs \<union> set ys"
  using assms dll_imp_distinct [of h "pending_list v" xs] dll_imp_distinct [of h "active_list v" ys] by (auto simp: lists_ok_def)

lemma lists_ok_add:
  assumes "lists_ok v P xs ys h" "p \<in> P" "p \<notin> set xs \<union> set ys"
  shows "lists_ok v P (xs @ [p]) ys (list_add_tail (pending_list v) p h)"
proof (rule lists_okI)
  note d = lists_okD [OF assms(1)]
  have n: "p \<notin> insert (pending_list v) (set xs)" "p \<notin> insert (active_list v) (set ys)" using assms(2,3) d(5,6) by auto
  show "dll (list_add_tail (pending_list v) p h) (pending_list v) (xs @ [p])" by (rule list_add_tail_dll [OF d(1) n(1)])
  show "dll (list_add_tail (pending_list v) p h) (active_list v) ys" by (rule list_add_frame(2) [OF d(1,2,3) n(2)])
  show "nxt (list_add_tail (pending_list v) p h) q = 0" if "q \<in> P" "q \<notin> set (xs @ [p]) \<union> set ys" for q
  proof -
    have "nxt (list_add_tail (pending_list v) p h) q = nxt h q" using that d(5) by (intro nxt_add_tail_other [OF d(1)]) auto
    then show ?thesis using d(10) that by auto
  qed
qed (use lists_okD [OF assms(1)] assms(2,3) in auto)

text \<open>A descriptor moves from one list to the end of the other.\<close>

lemma lists_ok_activate:
  assumes "lists_ok v P xs ys h" "p \<in> set xs"
  shows "lists_ok v P (remove1 p xs) (ys @ [p]) (list_add_tail (active_list v) p (list_del p h))"
proof (rule lists_okI)
  note d = lists_okD [OF assms(1)]
  let ?h = "list_add_tail (active_list v) p (list_del p h)"
  show "dll ?h (pending_list v) (remove1 p xs)" "dll ?h (active_list v) (ys @ [p])" using kl.move_law(1) [OF d(1,2) assms(2) d(3)] by auto
  show "nxt ?h q = 0" if "q \<in> P" "q \<notin> set (remove1 p xs) \<union> set (ys @ [p])" for q
  proof -
    have q: "q \<notin> set xs" "q \<notin> set ys" "q \<noteq> p" using that(2) by (auto simp: in_set_remove1)
    have "nxt ?h q = nxt (list_del p h) q"
      using q d(6) that(1) list_del_frame [OF d(1) assms(2) d(2,3)] by (intro nxt_add_tail_other) auto
    also have "\<dots> = nxt h q" using q d(5) that(1) by (intro nxt_del_other [OF d(1) assms(2)]) auto
    finally show ?thesis using d(10) [OF that(1)] q by simp
  qed
qed (use lists_okD [OF assms(1)] assms(2) set_remove1_subset [of p xs] in auto)

lemma lists_ok_again:
  assumes "lists_ok v P xs ys h" "p \<in> set ys"
  shows "lists_ok v P (xs @ [p]) (remove1 p ys) (list_add_tail (pending_list v) p (list_del p h))"
proof (rule lists_okI)
  note d = lists_okD [OF assms(1)]
  have dj: "insert (active_list v) (set ys) \<inter> insert (pending_list v) (set xs) = {}" using d(3) by blast
  let ?h = "list_add_tail (pending_list v) p (list_del p h)"
  show "dll ?h (pending_list v) (xs @ [p])" "dll ?h (active_list v) (remove1 p ys)" using kl.move_law(1) [OF d(2,1) assms(2) dj] by auto
  show "nxt ?h q = 0" if "q \<in> P" "q \<notin> set (xs @ [p]) \<union> set (remove1 p ys)" for q
  proof -
    have q: "q \<notin> set xs" "q \<notin> set ys" "q \<noteq> p" using that(2) by (auto simp: in_set_remove1)
    have "nxt ?h q = nxt (list_del p h) q"
      using q d(5) that(1) list_del_frame [OF d(2) assms(2) d(1) dj] by (intro nxt_add_tail_other) auto
    also have "\<dots> = nxt h q" using q d(6) that(1) by (intro nxt_del_other [OF d(2) assms(2)]) auto
    finally show ?thesis using d(10) [OF that(1)] q by simp
  qed
qed (use lists_okD [OF assms(1)] assms(2) set_remove1_subset [of p ys] in auto)

lemma lists_ok_retire:
  assumes "lists_ok v P xs ys h" "p \<in> set ys"
  shows "lists_ok v P xs (remove1 p ys) (set_nxt p 0 (list_del p h))"
proof (rule lists_okI)
  note d = lists_okD [OF assms(1)]
  have dj: "insert (active_list v) (set ys) \<inter> insert (pending_list v) (set xs) = {}" using d(3) by blast
  let ?h = "set_nxt p 0 (list_del p h)"
  have p: "p \<notin> insert (pending_list v) (set xs)" "p \<notin> insert (active_list v) (set (remove1 p ys))"
    using assms(2) d(3,6,9) dll_imp_distinct [OF d(2)] by auto
  show "dll ?h (pending_list v) xs"
    using list_del_frame [OF d(2) assms(2) d(1) dj] p(1) dll_frame [of "pending_list v" xs ?h "list_del p h"] by auto
  show "dll ?h (active_list v) (remove1 p ys)"
    using list_del_dll [OF d(2) assms(2)] p(2) dll_frame [of "active_list v" "remove1 p ys" ?h "list_del p h"] by auto
  show "nxt ?h q = 0" if "q \<in> P" "q \<notin> set xs \<union> set (remove1 p ys)" for q
  proof (cases "q = p")
    case False
    then have q: "q \<notin> set xs" "q \<notin> set ys" using that(2) by (auto simp: in_set_remove1)
    then have "nxt (list_del p h) q = nxt h q" using d(6) that(1) by (intro nxt_del_other [OF d(2) assms(2)]) auto
    then show ?thesis using d(10) [OF that(1)] q False by simp
  qed simp
qed (use lists_okD [OF assms(1)] set_remove1_subset [of p ys] in auto)

section \<open>Identifiers and list registers\<close>

text \<open>The list register a descriptor owns.\<close>

definition slot :: "virq_desc \<Rightarrow> nat option" where
  "slot d = (if vd_id d = VIRQ_INVALID_ID then None else Some (unat (vd_id d)))"

lemma slot_upd [simp]:
  "slot (d\<lparr>vd_state := x\<rparr>) = slot d" "slot (d\<lparr>vd_src := y\<rparr>) = slot d" "slot (virq_set_pending d) = slot d"
  "slot (virq_clear_pending d) = slot d" "slot (d\<lparr>vd_id := VIRQ_INVALID_ID\<rparr>) = None"
  by (simp_all add: slot_def virq_set_pending_def virq_clear_pending_def)

lemma slot_id:
  assumes "i < 64" shows "slot (d\<lparr>vd_id := word_of_nat i\<rparr>) = Some i" "slot d = Some i \<Longrightarrow> unat (vd_id d) = i"
proof -
  have u: "unat (word_of_nat i :: u8) = i" using assms by (simp add: unat_of_nat)
  have "(word_of_nat i :: u8) \<noteq> 0xff"
  proof
    assume "(word_of_nat i :: u8) = 0xff"
    then have "unat (word_of_nat i :: u8) = 255" by simp
    then show False using u assms by linarith
  qed
  then show "slot (d\<lparr>vd_id := word_of_nat i\<rparr>) = Some i" using u by (simp add: slot_def VIRQ_INVALID_ID_def)
qed (simp add: slot_def split: if_splits)

lemma pending_upd [simp]:
  "virq_is_pending (d\<lparr>vd_state := x\<rparr>) = virq_is_pending d" "virq_is_pending (d\<lparr>vd_src := y\<rparr>) = virq_is_pending d"
  "virq_is_pending (d\<lparr>vd_id := z\<rparr>) = virq_is_pending d" "virq_is_pending (virq_set_pending d)" "\<not> virq_is_pending (virq_clear_pending d)"
proof -
  show "virq_is_pending (virq_set_pending d)"
    unfolding virq_is_pending_def virq_set_pending_def VIRQS_PENDING_def by (auto simp: bit_eq_iff bit_simps intro: exI [of _ 0])
  show "\<not> virq_is_pending (virq_clear_pending d)"
    unfolding virq_is_pending_def virq_clear_pending_def VIRQS_PENDING_def by (auto simp: bit_eq_iff bit_simps)
qed (simp_all add: virq_is_pending_def)

lemma vno_upd [simp]: "vd_vno (virq_set_pending d) = vd_vno d" "vd_vno (virq_clear_pending d) = vd_vno d"
  by (simp_all add: virq_set_pending_def virq_clear_pending_def)

text \<open>
  The identifiers: a descriptor on no list has none and is not pending; one in the pending list is pending and may have one, from an earlier
  delivery; one in the active list has one, and its list register holds its number. No two share one, the bitmap says
  which are taken, and a list register that no active descriptor owns is empty.
\<close>

definition slots_ok :: "nat \<Rightarrow> nat set \<Rightarrow> nat list \<Rightarrow> nat list \<Rightarrow> (nat \<Rightarrow> virq_desc) \<Rightarrow> bitmap \<Rightarrow> (nat \<Rightarrow> gich_lr) \<Rightarrow> bool" where
  "slots_ok nr P xs ys D B G \<longleftrightarrow> length B = 1 \<and> nr \<le> 64 \<and>
     (\<forall>p\<in>P. p \<notin> set xs \<union> set ys \<longrightarrow> slot (D p) = None \<and> \<not> virq_is_pending (D p)) \<and>
     (\<forall>p\<in>set xs. virq_is_pending (D p)) \<and>
     (\<forall>p\<in>set ys. \<exists>i. slot (D p) = Some i \<and> lr_vid (G i) = ucast (vd_vno (D p))) \<and>
     (\<forall>p\<in>P. \<forall>i. slot (D p) = Some i \<longrightarrow> i < nr) \<and>
     (\<forall>p\<in>P. \<forall>q\<in>P. \<forall>i. slot (D p) = Some i \<longrightarrow> slot (D q) = Some i \<longrightarrow> p = q) \<and>
     (\<forall>i<nr. bm_bit B i \<longleftrightarrow> (\<exists>p\<in>P. slot (D p) = Some i)) \<and>
     (\<forall>i<nr. G i = zero_lr \<or> (\<exists>p\<in>set ys. slot (D p) = Some i))"

lemma slots_okD:
  assumes "slots_ok nr P xs ys D B G"
  shows "length B = 1" "nr \<le> 64" "p \<in> P \<Longrightarrow> p \<notin> set xs \<union> set ys \<Longrightarrow> slot (D p) = None"
    "p \<in> P \<Longrightarrow> p \<notin> set xs \<union> set ys \<Longrightarrow> \<not> virq_is_pending (D p)" "p \<in> set xs \<Longrightarrow> virq_is_pending (D p)"
    "p \<in> set ys \<Longrightarrow> \<exists>i. slot (D p) = Some i \<and> lr_vid (G i) = ucast (vd_vno (D p))" "p \<in> P \<Longrightarrow> slot (D p) = Some i \<Longrightarrow> i < nr"
    "p \<in> P \<Longrightarrow> q \<in> P \<Longrightarrow> slot (D p) = Some i \<Longrightarrow> slot (D q) = Some i \<Longrightarrow> p = q"
    "i < nr \<Longrightarrow> bm_bit B i \<longleftrightarrow> (\<exists>p\<in>P. slot (D p) = Some i)" "i < nr \<Longrightarrow> G i = zero_lr \<or> (\<exists>p\<in>set ys. slot (D p) = Some i)"
  using assms unfolding slots_ok_def by blast+

lemma slots_okI:
  assumes "length B = 1" "nr \<le> 64" "\<And>p. p \<in> P \<Longrightarrow> p \<notin> set xs \<union> set ys \<Longrightarrow> slot (D p) = None"
    "\<And>p. p \<in> P \<Longrightarrow> p \<notin> set xs \<union> set ys \<Longrightarrow> \<not> virq_is_pending (D p)" "\<And>p. p \<in> set xs \<Longrightarrow> virq_is_pending (D p)"
    "\<And>p. p \<in> set ys \<Longrightarrow> \<exists>i. slot (D p) = Some i \<and> lr_vid (G i) = ucast (vd_vno (D p))" "\<And>p i. p \<in> P \<Longrightarrow> slot (D p) = Some i \<Longrightarrow> i < nr"
    "\<And>p q i. p \<in> P \<Longrightarrow> q \<in> P \<Longrightarrow> slot (D p) = Some i \<Longrightarrow> slot (D q) = Some i \<Longrightarrow> p = q"
    "\<And>i. i < nr \<Longrightarrow> bm_bit B i \<longleftrightarrow> (\<exists>p\<in>P. slot (D p) = Some i)" "\<And>i. i < nr \<Longrightarrow> G i = zero_lr \<or> (\<exists>p\<in>set ys. slot (D p) = Some i)"
  shows "slots_ok nr P xs ys D B G"
  unfolding slots_ok_def using assms by (intro conjI ballI allI impI) assumption+

lemma ex_slot:
  assumes "p \<in> P"
  shows "(\<exists>q\<in>P. slot ((D(p := d)) q) = Some j) \<longleftrightarrow> slot d = Some j \<or> (\<exists>q\<in>P - {p}. slot (D q) = Some j)"
    and "(\<exists>q\<in>P. slot (D q) = Some j) \<longleftrightarrow> slot (D p) = Some j \<or> (\<exists>q\<in>P - {p}. slot (D q) = Some j)"
  using assms by (auto split: if_splits)

text \<open>What each move of a descriptor does to the identifiers.\<close>

lemma slots_send:
  assumes ok: "slots_ok nr P xs ys D B G" and p: "p \<in> P" "set xs \<union> set ys \<subseteq> P"
    and d: "slot d = slot (D p)" "vd_vno d = vd_vno (D p)" "virq_is_pending d"
  shows "slots_ok nr P (if p \<in> set xs \<union> set ys then xs else xs @ [p]) ys (D(p := d)) B G"
proof -
  note k = slots_okD [OF ok]
  have s [simp]: "slot ((D(p := d)) q) = slot (D q)" "vd_vno ((D(p := d)) q) = vd_vno (D q)" for q using d by auto
  show ?thesis
  proof (rule slots_okI)
    show "slot ((D(p := d)) q) = None" if "q \<in> P" "q \<notin> set (if p \<in> set xs \<union> set ys then xs else xs @ [p]) \<union> set ys" for q
      using that k(3) unfolding s by (auto split: if_splits)
    show "\<not> virq_is_pending ((D(p := d)) q)" if "q \<in> P" "q \<notin> set (if p \<in> set xs \<union> set ys then xs else xs @ [p]) \<union> set ys" for q
      using that k(4) by (auto split: if_splits)
    show "virq_is_pending ((D(p := d)) q)" if "q \<in> set (if p \<in> set xs \<union> set ys then xs else xs @ [p])" for q
      using that k(5) d(3) by (auto split: if_splits)
  qed (unfold s, (rule k; assumption)+)
qed

lemma slots_alloc:
  assumes ok: "slots_ok nr P xs ys D B G" and p: "p \<in> set xs" "set xs \<union> set ys \<subseteq> P" "p \<notin> set ys"
    and i: "i < nr" "\<not> bm_bit B i" "slot (D p) = None"
  shows "slots_ok nr P xs ys (D(p := D p\<lparr>vd_id := word_of_nat i\<rparr>)) (bm_set_bit i B) G"
proof (rule slots_okI)
  note k = slots_okD [OF ok]
  have s: "slot (D p\<lparr>vd_id := word_of_nat i\<rparr>) = Some i" using slot_id(1) i(1) k(2) by simp
  have free: "slot (D q) \<noteq> Some i" if "q \<in> P" for q using k(9) [OF i(1)] i(2) that by auto
  let ?D = "D(p := D p\<lparr>vd_id := word_of_nat i\<rparr>)"
  show "\<exists>j. slot (?D q) = Some j \<and> lr_vid (G j) = ucast (vd_vno (?D q))" if "q \<in> set ys" for q using k(6) [OF that] p(3) that by auto
  show "j < nr" if "q \<in> P" "slot (?D q) = Some j" for q j using that k(7) i(1) s by (auto split: if_splits)
  show "q = r" if "q \<in> P" "r \<in> P" "slot (?D q) = Some j" "slot (?D r) = Some j" for q r j
    using that k(8) [of q r j] free [of q] free [of r] s by (auto split: if_splits)
  show "bm_bit (bm_set_bit i B) j \<longleftrightarrow> (\<exists>q\<in>P. slot (?D q) = Some j)" if "j < nr" for j
  proof -
    have P: "p \<in> P" using p(1,2) by auto
    have "(\<exists>q\<in>P. slot (?D q) = Some j) \<longleftrightarrow> j = i \<or> (\<exists>q\<in>P. slot (D q) = Some j)" unfolding ex_slot [OF P] using s i(3) by auto
    then show ?thesis using k(1,2) k(9) [OF that] i(1) by (auto simp: bm_bit_set_bit)
  qed
  show "G j = zero_lr \<or> (\<exists>q\<in>set ys. slot (?D q) = Some j)" if "j < nr" for j using k(10) [OF that] p(3) by auto
qed (use slots_okD [OF ok] p in auto)

lemma slots_activate:
  assumes ok: "slots_ok nr P xs ys D B G" and p: "p \<in> set xs" "set xs \<union> set ys \<subseteq> P" "p \<notin> set ys" "distinct xs" and i: "slot (D p) = Some i"
    and d: "slot d = Some i" "vd_vno d = vd_vno (D p)" "\<not> virq_is_pending d" and lr: "lr_vid lr = ucast (vd_vno (D p))"
  shows "slots_ok nr P (remove1 p xs) (ys @ [p]) (D(p := d)) B (G(i := lr))"
proof -
  note k = slots_okD [OF ok]
  have s: "slot ((D(p := d)) q) = slot (D q)" "vd_vno ((D(p := d)) q) = vd_vno (D q)" for q using d i by auto
  have P: "p \<in> P" using p by auto
  show ?thesis
  proof (rule slots_okI)
    show "\<exists>j. slot ((D(p := d)) q) = Some j \<and> lr_vid ((G(i := lr)) j) = ucast (vd_vno ((D(p := d)) q))" if "q \<in> set (ys @ [p])" for q
    proof (cases "q = p")
      case False
      then have "q \<in> set ys" using that by simp
      then obtain j where j: "slot (D q) = Some j" "lr_vid (G j) = ucast (vd_vno (D q))" using k(6) by blast
      then have "j \<noteq> i" using k(8) [of q p i] P p(2) i False that by auto
      then show ?thesis using j unfolding s by auto
    qed (use i lr in \<open>simp add: d\<close>)
    show "(G(i := lr)) j = zero_lr \<or> (\<exists>q\<in>set (ys @ [p]). slot ((D(p := d)) q) = Some j)" if "j < nr" for j
      using k(10) [OF that] i unfolding s by auto
    show "slot ((D(p := d)) q) = None" if "q \<in> P" "q \<notin> set (remove1 p xs) \<union> set (ys @ [p])" for q
      using that k(3) unfolding s by (auto simp: in_set_remove1)
    show "\<not> virq_is_pending ((D(p := d)) q)" if "q \<in> P" "q \<notin> set (remove1 p xs) \<union> set (ys @ [p])" for q
      using that k(4) d(3) by (auto simp: in_set_remove1)
    show "virq_is_pending ((D(p := d)) q)" if "q \<in> set (remove1 p xs)" for q using that k(5) p(4) by (auto dest: set_remove1_subset [THEN subsetD])
  qed (unfold s, (rule k; assumption)+)
qed

lemma slots_again:
  assumes ok: "slots_ok nr P xs ys D B G" and p: "p \<in> set ys" "set xs \<union> set ys \<subseteq> P" "distinct ys" "virq_is_pending (D p)" and i: "slot (D p) = Some i"
  shows "slots_ok nr P (xs @ [p]) (remove1 p ys) D B (G(i := zero_lr))"
proof (rule slots_okI)
  note k = slots_okD [OF ok]
  have other: "slot (D q) \<noteq> Some i" if "q \<in> set (remove1 p ys)" for q using that k(8) [of q p i] i p by auto
  show "\<exists>j. slot (D q) = Some j \<and> lr_vid ((G(i := zero_lr)) j) = ucast (vd_vno (D q))" if "q \<in> set (remove1 p ys)" for q
    using k(6) [of q] other [OF that] that p(3) by auto
  show "(G(i := zero_lr)) j = zero_lr \<or> (\<exists>q\<in>set (remove1 p ys). slot (D q) = Some j)" if "j < nr" for j
    using k(10) [OF that] i p(3) by auto
qed (use slots_okD [OF ok] p in \<open>auto simp: in_set_remove1\<close>)

lemma slots_retire:
  assumes ok: "slots_ok nr P xs ys D B G" and p: "p \<in> set ys" "set xs \<union> set ys \<subseteq> P" "distinct ys" "p \<notin> set xs" and i: "slot (D p) = Some i"
    and d: "slot d = None" "\<not> virq_is_pending d"
  shows "slots_ok nr P xs (remove1 p ys) (D(p := d)) (bm_clear_bit i B) (G(i := zero_lr))"
proof (rule slots_okI)
  note k = slots_okD [OF ok]
  have P: "p \<in> P" "i < nr" using p k(7) i by auto
  have other: "slot (D q) \<noteq> Some i" if "q \<in> P" "q \<noteq> p" for q using that k(8) [of q p i] i P by auto
  show "\<exists>j. slot ((D(p := d)) q) = Some j \<and> lr_vid ((G(i := zero_lr)) j) = ucast (vd_vno ((D(p := d)) q))" if "q \<in> set (remove1 p ys)" for q
  proof -
    have q: "q \<noteq> p" "q \<in> set ys" "q \<in> P" using that p by auto
    then obtain j where "slot (D q) = Some j" "lr_vid (G j) = ucast (vd_vno (D q))" using k(6) by blast
    then show ?thesis using other [of q] q by auto
  qed
  show "bm_bit (bm_clear_bit i B) j \<longleftrightarrow> (\<exists>q\<in>P. slot ((D(p := d)) q) = Some j)" if "j < nr" for j
  proof -
    have "(\<exists>q\<in>P. slot ((D(p := d)) q) = Some j) \<longleftrightarrow> j \<noteq> i \<and> (\<exists>q\<in>P. slot (D q) = Some j)"
      unfolding ex_slot [OF P(1)] using i d(1) other by auto
    then show ?thesis using k(1,2) k(9) [OF that] P(2) by (auto simp: bm_bit_clear_bit)
  qed
  show "(G(i := zero_lr)) j = zero_lr \<or> (\<exists>q\<in>set (remove1 p ys). slot ((D(p := d)) q) = Some j)" if "j < nr" for j
  proof (cases "j = i")
    case False
    then show ?thesis using k(10) [OF that] i p(3) by fastforce
  qed simp
  show "q = r" if "q \<in> P" "r \<in> P" "slot ((D(p := d)) q) = Some j" "slot ((D(p := d)) r) = Some j" for q r j
    using that k(8) [of q r j] d(1) by (auto split: if_splits)
qed (use slots_okD [OF ok] p d in \<open>auto simp: in_set_remove1 split: if_splits\<close>)

section \<open>The invariant\<close>

definition vq_ok :: "nat \<Rightarrow> nat \<Rightarrow> nat \<Rightarrow> nat set \<Rightarrow> nat list \<Rightarrow> nat list \<Rightarrow> virt \<Rightarrow> bool" where
  "vq_ok nr cpu v P xs ys st \<longleftrightarrow> lists_ok v P xs ys (vlists st) \<and>
     slots_ok nr P xs ys (vdescs st) (irq_bitmap (vstructs st v)) (gich st cpu) \<and>
     map_option nr_lrs (hw_chip v st) = Some nr \<and> active_count (vstructs st v) = word_of_nat (length xs + length ys)"

lemma vq_okD:
  assumes "vq_ok nr cpu v P xs ys st"
  shows "lists_ok v P xs ys (vlists st)" "slots_ok nr P xs ys (vdescs st) (irq_bitmap (vstructs st v)) (gich st cpu)"
    "set xs \<union> set ys \<subseteq> P" "set xs \<inter> set ys = {}" "distinct xs" "distinct ys" "p \<in> P \<Longrightarrow> nxt (vlists st) p = 0 \<longleftrightarrow> p \<notin> set xs \<union> set ys"
    "active_count (vstructs st v) = word_of_nat (length xs + length ys)" "map_option nr_lrs (hw_chip v st) = Some nr"
  using assms lists_okD [of v P xs ys "vlists st"] unfolding vq_ok_def by blast+

text \<open>The parts of the state that no operation below changes.\<close>

definition same_config :: "virt \<Rightarrow> virt \<Rightarrow> bool" where
  "same_config st st' \<longleftrightarrow> vm_tab st' = vm_tab st \<and> vcpu_tab st' = vcpu_tab st \<and> current_vcpus st' = current_vcpus st \<and> vms st' = vms st"

lemma same_config_refl [simp]: "same_config st st" by (simp add: same_config_def)

lemma same_config_trans: "same_config a b \<Longrightarrow> same_config b c \<Longrightarrow> same_config a c" by (simp add: same_config_def)

lemma same_hw_chip: "same_config st st' \<Longrightarrow> hw_chip v st' = hw_chip v st" by (simp add: same_config_def hw_chip_def the_vm_def)

lemmas upd_defs = upd_vdesc_def upd_vlists_def upd_vstruct_def write_lr_def

text \<open>Sending puts a descriptor that is on no list at the end of the pending list, and marks one that is active.\<close>

lemma send_virq0_ok:
  assumes ok: "vq_ok nr cpu v P xs ys st" and p: "p \<in> P" and s: "send_virq0 c v p st = Some st'"
  shows "vq_ok nr cpu v P (if p \<in> set xs \<union> set ys then xs else xs @ [p]) ys st' \<and> same_config st st' \<and> virq_is_pending (vdescs st' p) \<and> gich st' = gich st"
proof (cases "virq_is_pending (vdescs st p)")
  case True
  then have "p \<in> set xs \<union> set ys" using slots_okD(4) [OF vq_okD(2) [OF ok] p] by blast
  then show ?thesis using True s ok by (auto simp: send_virq0_def)
next
  case False
  note k = vq_okD [OF ok]
  let ?d = "virq_set_pending (vdescs st p)"
  have n: "nxt (vlists st) p = 0 \<longleftrightarrow> p \<notin> set xs \<union> set ys" by (rule k(7) [OF p])
  obtain d where d: "slot d = slot (vdescs st p)" "vd_vno d = vd_vno (vdescs st p)" "virq_is_pending d"
    and st': "vdescs st' = (vdescs st)(p := d)" "vlists st' = (if p \<in> set xs \<union> set ys then vlists st else list_add_tail (pending_list v) p (vlists st))"
      "vstructs st' v = (if p \<in> set xs \<union> set ys then vstructs st v else vstructs st v\<lparr>active_count := active_count (vstructs st v) + 1\<rparr>)"
      "gich st' = gich st" and hw: "same_config st st'"
  proof (cases "ucast (vd_vno (vdescs st p)) < VM_SGI_VIRQ_NR")
    case True
    then obtain w where w: "current_vcpus st c = Some w" using s False by (auto simp: send_virq0_def upd_defs Let_def split: option.splits if_splits)
    show ?thesis
      by (rule that [of "?d\<lparr>vd_src := ucast (vcpu_id (vcpu_tab st w))\<rparr>"])
        (use True w s False n in \<open>auto simp: send_virq0_def upd_defs Let_def same_config_def split: if_splits\<close>)
  next
    case F: False
    show ?thesis
      by (rule that [of ?d]) (use F s False n in \<open>auto simp: send_virq0_def upd_defs Let_def same_config_def split: if_splits\<close>)
  qed
  have sl: "slots_ok nr P (if p \<in> set xs \<union> set ys then xs else xs @ [p]) ys ((vdescs st)(p := d)) (irq_bitmap (vstructs st v)) (gich st cpu)"
    by (rule slots_send [OF k(2) p k(3) d])
  show ?thesis
  proof (cases "p \<in> set xs \<union> set ys")
    case True
    then show ?thesis using sl k(1,8,9) d(3) same_hw_chip [OF hw] hw st' by (auto simp: vq_ok_def)
  next
    case F: False
    then show ?thesis using sl lists_ok_add [OF k(1) p F] k(8,9) d(3) same_hw_chip [OF hw] hw st' by (auto simp: vq_ok_def)
  qed
qed

lemma chip_ops:
  assumes ok: "vq_ok nr cpu v P xs ys st" and p: "p \<in> P" "slot (vdescs st p) = Some i"
  shows "virqchip_send_virq cpu v p st = write_lr cpu i (lr_of (vdescs st p)) st"
    "virqchip_update_virq cpu v p VIRQ_ACTION_CLEAR st = write_lr cpu i zero_lr st"
    "virqchip_get_virq_state cpu v p st = ucast (lr_state (gich st cpu i))" "unat (vd_id (vdescs st p)) = i"
proof -
  have i: "i < nr" "nr \<le> 64" using slots_okD(2,7) [OF vq_okD(2) [OF ok]] p by blast+
  show id: "unat (vd_id (vdescs st p)) = i" using slot_id(2) [of i] i p(2) by simp
  obtain vc where "hw_chip v st = Some vc" "nr_lrs vc = nr" using vq_okD(9) [OF ok] by auto
  then show "virqchip_send_virq cpu v p st = write_lr cpu i (lr_of (vdescs st p)) st"
    "virqchip_update_virq cpu v p VIRQ_ACTION_CLEAR st = write_lr cpu i zero_lr st"
    "virqchip_get_virq_state cpu v p st = ucast (lr_state (gich st cpu i))" using i(1) id
    by (simp_all add: virqchip_send_virq_def gicv2_send_virq_def virqchip_update_virq_def gicv2_update_virq_def virqchip_get_virq_state_def
        gicv2_get_virq_state_def Let_def)
qed

lemma lr_of_upd [simp]: "lr_of (d\<lparr>vd_id := i\<rparr>) = lr_of d" "lr_vid (lr_of d) = ucast (vd_vno d)" "lr_state (lr_of d) = 1"
  by (simp_all add: lr_of_def virq_is_hw_def)

lemma enter_send_ok:
  assumes ok: "vq_ok nr cpu v P (p # xs) ys st" and i: "slot (vdescs st p) = Some i"
  shows "vq_ok nr cpu v P xs (ys @ [p]) (enter_send cpu v p st)" "same_config st (enter_send cpu v p st)"
    "gich (enter_send cpu v p st) cpu = (gich st cpu)(i := lr_of (vdescs st p))" "slot (vdescs (enter_send cpu v p st) p) = Some i"
    "q \<noteq> p \<Longrightarrow> vdescs (enter_send cpu v p st) q = vdescs st q"
proof -
  note k = vq_okD [OF ok]
  have p: "p \<in> P" "p \<notin> set ys" using k(3,4) by auto
  have l: "lists_ok v P xs (ys @ [p]) (list_add_tail (active_list v) p (list_del p (vlists st)))" using lists_ok_activate [OF k(1), of p] by simp
  have s: "slots_ok nr P xs (ys @ [p]) ((vdescs st)(p := virq_clear_pending ((vdescs st p)\<lparr>vd_state := VIRQ_STATE_PENDING\<rparr>)))
      (irq_bitmap (vstructs st v)) ((gich st cpu)(i := lr_of (vdescs st p)))"
    using slots_activate [OF k(2) _ k(3) p(2) k(5) i, of "virq_clear_pending ((vdescs st p)\<lparr>vd_state := VIRQ_STATE_PENDING\<rparr>)"] i by simp
  have e: "enter_send cpu v p st = upd_vlists (\<lambda>h. list_add_tail (active_list v) p (list_del p h))
      (upd_vdesc p (\<lambda>d. virq_clear_pending (d\<lparr>vd_state := VIRQ_STATE_PENDING\<rparr>)) (write_lr cpu i (lr_of (vdescs st p)) st))"
    unfolding enter_send_def chip_ops(1) [OF ok p(1) i] ..
  show c: "same_config st (enter_send cpu v p st)" unfolding e by (simp add: same_config_def upd_defs)
  show "vq_ok nr cpu v P xs (ys @ [p]) (enter_send cpu v p st)"
    using l s k(8,9) same_hw_chip [OF c] unfolding vq_ok_def by (simp add: e upd_defs)
qed (use i vq_okD(3) [OF ok] in \<open>simp_all add: enter_send_def chip_ops(1) [OF ok _ i] upd_defs\<close>)

text \<open>One turn of the loop: the first pending descriptor becomes active, or no identifier is free and it has none.\<close>

lemma enter_one_ok:
  assumes ok: "vq_ok nr cpu v P (p # xs) ys st"
  shows "(\<exists>st' i. enter_one nr cpu v p st = Some (True, st') \<and> vq_ok nr cpu v P xs (ys @ [p]) st' \<and> same_config st st' \<and>
            gich st' cpu = (gich st cpu)(i := lr_of (vdescs st p)) \<and> slot (vdescs st' p) = Some i \<and> (\<forall>q. q \<noteq> p \<longrightarrow> vdescs st' q = vdescs st q)) \<or>
         (enter_one nr cpu v p st = Some (False, st) \<and> slot (vdescs st p) = None \<and> (\<forall>i<nr. bm_bit (irq_bitmap (vstructs st v)) i))"
proof -
  note k = vq_okD [OF ok] note sk = slots_okD [OF k(2)]
  have p: "p \<in> P" "p \<notin> set ys" "virq_is_pending (vdescs st p)" using k(3,4) sk(5) [of p] by auto
  let ?B = "irq_bitmap (vstructs st v)"
  let ?i = "find_next_zero_bit ?B nr 0"
  show ?thesis
  proof (cases "slot (vdescs st p)")
    case (Some i)
    then have "enter_one nr cpu v p st = Some (True, enter_send cpu v p st)" using p(3) by (simp add: enter_one_def slot_def split: if_splits)
    then show ?thesis using enter_send_ok [OF ok Some] by blast
  next
    case None
    then have n: "vd_id (vdescs st p) = VIRQ_INVALID_ID" by (simp add: slot_def split: if_splits)
    show ?thesis
    proof (cases "?i = nr")
      case True
      have "bm_bit ?B j" if "j < nr" for j
        using search_from_before [of 0 j "\<lambda>i. \<not> bm_bit ?B i" nr] that True by (simp add: find_next_zero_bit_eq)
      then show ?thesis using True n None p(3) by (simp add: enter_one_def)
    next
      case False
      then have i: "?i < nr" "\<not> bm_bit ?B ?i"
        using search_from_le [of "\<lambda>i. \<not> bm_bit ?B i" nr 0] search_from_correct [of "\<lambda>i. \<not> bm_bit ?B i" nr 0]
        by (auto simp: find_next_zero_bit_eq)
      define s1 where "s1 = upd_vstruct v (\<lambda>s. s\<lparr>irq_bitmap := bm_set_bit ?i (irq_bitmap s)\<rparr>) (upd_vdesc p (\<lambda>d. d\<lparr>vd_id := word_of_nat ?i\<rparr>) st)"
      have c: "same_config st s1" by (simp add: s1_def same_config_def upd_defs)
      have D: "vdescs s1 = (vdescs st)(p := (vdescs st p)\<lparr>vd_id := word_of_nat ?i\<rparr>)" "vlists s1 = vlists st" "gich s1 = gich st"
        "vstructs s1 v = vstructs st v\<lparr>irq_bitmap := bm_set_bit ?i ?B\<rparr>" by (simp_all add: s1_def upd_defs)
      have "slots_ok nr P (p # xs) ys (vdescs s1) (irq_bitmap (vstructs s1 v)) (gich s1 cpu)"
        using slots_alloc [OF k(2) _ k(3) p(2) i None] by (simp add: D)
      then have ok1: "vq_ok nr cpu v P (p # xs) ys s1" using k(1,8,9) same_hw_chip [OF c] unfolding vq_ok_def by (simp add: D)
      have sl: "slot (vdescs s1 p) = Some ?i" using slot_id(1) [of ?i] i(1) sk(2) by (simp add: D)
      have e: "enter_one nr cpu v p st = Some (True, enter_send cpu v p s1)" using False n p(3) by (simp add: enter_one_def s1_def Let_def)
      have lr: "lr_of (vdescs s1 p) = lr_of (vdescs st p)" by (simp add: D)
      note es = enter_send_ok [OF ok1 sl, unfolded lr]
      show ?thesis using e es(1,3,4) same_config_trans [OF c es(2)] es(5) unfolding D(3) by (auto simp: D(1))
    qed
  qed
qed

section \<open>Entering the guest\<close>

text \<open>
  What an entry does: it delivers the first \<open>m\<close> pending descriptors, in order, each to a list register that gets its number in state pending,
  and leaves the list registers of the active ones alone; it stops early only when every identifier is taken and the next descriptor has none.
\<close>

definition delivered :: "nat \<Rightarrow> nat \<Rightarrow> nat \<Rightarrow> nat set \<Rightarrow> nat list \<Rightarrow> nat list \<Rightarrow> nat \<Rightarrow> virt \<Rightarrow> virt \<Rightarrow> bool" where
  "delivered nr cpu v P xs ys m st st' \<longleftrightarrow> m \<le> length xs \<and> vq_ok nr cpu v P (drop m xs) (ys @ take m xs) st' \<and> same_config st st' \<and>
     (\<forall>p\<in>set (take m xs). \<exists>i<nr. slot (vdescs st' p) = Some i \<and> gich st' cpu i = lr_of (vdescs st p)) \<and>
     (\<forall>p\<in>set ys. \<forall>i. slot (vdescs st p) = Some i \<longrightarrow> gich st' cpu i = gich st cpu i) \<and>
     (\<forall>p. p \<notin> set (take m xs) \<longrightarrow> vdescs st' p = vdescs st p) \<and>
     (m < length xs \<longrightarrow> slot (vdescs st (xs ! m)) = None \<and> (\<forall>i<nr. bm_bit (irq_bitmap (vstructs st' v)) i))"

lemma delivered_step:
  assumes ok: "vq_ok nr cpu v P (p # xs) ys st" and ok1: "vq_ok nr cpu v P xs (ys @ [p]) st1" and c: "same_config st st1"
    and g: "gich st1 cpu = (gich st cpu)(i := lr_of (vdescs st p))" and i: "slot (vdescs st1 p) = Some i" and D: "\<forall>q. q \<noteq> p \<longrightarrow> vdescs st1 q = vdescs st q"
    and d: "delivered nr cpu v P xs (ys @ [p]) m st1 st'"
  shows "delivered nr cpu v P (p # xs) ys (Suc m) st st'"
proof -
  note k = vq_okD [OF ok] note k1 = vq_okD [OF ok1] note s1 = slots_okD [OF k1(2)]
  have P: "p \<in> P" "p \<notin> set xs" "p \<notin> set ys" using k(3,4,5) by auto
  have tk: "q \<noteq> p" if "q \<in> set (take m xs)" for q using that P(2) set_take_subset [of m xs] by auto
  have pm: "p \<notin> set (take m xs)" using tk by blast
  have d': "m \<le> length xs" "vq_ok nr cpu v P (drop m xs) ((ys @ [p]) @ take m xs) st'" "same_config st1 st'"
    "\<And>q. q \<in> set (take m xs) \<Longrightarrow> \<exists>j<nr. slot (vdescs st' q) = Some j \<and> gich st' cpu j = lr_of (vdescs st1 q)"
    "\<And>q j. q \<in> set (ys @ [p]) \<Longrightarrow> slot (vdescs st1 q) = Some j \<Longrightarrow> gich st' cpu j = gich st1 cpu j"
    "\<And>q. q \<notin> set (take m xs) \<Longrightarrow> vdescs st' q = vdescs st1 q"
    "m < length xs \<Longrightarrow> slot (vdescs st1 (xs ! m)) = None \<and> (\<forall>i<nr. bm_bit (irq_bitmap (vstructs st' v)) i)"
    using d unfolding delivered_def by blast+
  show ?thesis unfolding delivered_def
  proof (intro conjI ballI allI impI)
    show "\<exists>j<nr. slot (vdescs st' q) = Some j \<and> gich st' cpu j = lr_of (vdescs st q)" if "q \<in> set (take (Suc m) (p # xs))" for q
    proof (cases "q = p")
      case True
      then show ?thesis using d'(5) [of p i] d'(6) [OF pm] i g s1(7) [OF P(1) i] by auto
    next
      case False
      then show ?thesis using that d'(4) [of q] D by auto
    qed
    show "gich st' cpu j = gich st cpu j" if "q \<in> set ys" "slot (vdescs st q) = Some j" for q j
    proof -
      have q: "q \<noteq> p" "q \<in> P" using that P k(3) by auto
      then have "slot (vdescs st1 q) = Some j" using D that by simp
      then show ?thesis using d'(5) [of q j] that(1) g s1(8) [of q p i] P(1) q i by auto
    qed
    show "slot (vdescs st ((p # xs) ! Suc m)) = None" if "Suc m < length (p # xs)"
    proof -
      have m: "m < length xs" using that by simp
      then have "xs ! m \<noteq> p" using P(2) nth_mem [of m xs] by auto
      then show ?thesis using d'(7) [OF m] D by simp
    qed
    show "bm_bit (irq_bitmap (vstructs st' v)) j" if "Suc m < length (p # xs)" "j < nr" for j using d'(7) that by simp
    show "vdescs st' q = vdescs st q" if "q \<notin> set (take (Suc m) (p # xs))" for q using that d'(6) [of q] D by simp
  qed (use d' same_config_trans [OF c] in simp_all)
qed

lemma enter_loop_ok:
  "vq_ok nr cpu v P xs ys st \<Longrightarrow> \<exists>m st'. enter_loop nr cpu v (hd (xs @ [pending_list v])) st = Some st' \<and> delivered nr cpu v P xs ys m st st'"
proof (induction xs arbitrary: ys st)
  case Nil
  then have "delivered nr cpu v P [] ys 0 st st" by (simp add: delivered_def)
  then show ?case by (subst enter_loop.simps) auto
next
  case (Cons p xs)
  note k = vq_okD [OF Cons.prems]
  have p: "p \<noteq> pending_list v" using lists_okD(1) [OF k(1)] dll_imp_distinct by fastforce
  have n: "nxt (vlists st) p = hd (xs @ [pending_list v])" using lists_okD(1) [OF k(1)] by (cases xs) (auto simp: dll_def)
  from enter_one_ok [OF Cons.prems] show ?case
  proof (elim disjE exE conjE)
    fix st1 i
    assume e: "enter_one nr cpu v p st = Some (True, st1)" and ok1: "vq_ok nr cpu v P xs (ys @ [p]) st1" and c: "same_config st st1"
      and g: "gich st1 cpu = (gich st cpu)(i := lr_of (vdescs st p))" "slot (vdescs st1 p) = Some i" "\<forall>q. q \<noteq> p \<longrightarrow> vdescs st1 q = vdescs st q"
    obtain m st' where m: "enter_loop nr cpu v (hd (xs @ [pending_list v])) st1 = Some st'" "delivered nr cpu v P xs (ys @ [p]) m st1 st'"
      using Cons.IH [OF ok1] by blast
    have "enter_loop nr cpu v p st = Some st'" using p n e m(1) by (subst enter_loop.simps) (simp add: Let_def)
    then show ?thesis using delivered_step [OF Cons.prems ok1 c g m(2)] by auto
  next
    assume e: "enter_one nr cpu v p st = Some (False, st)" and f: "slot (vdescs st p) = None" "\<forall>i<nr. bm_bit (irq_bitmap (vstructs st v)) i"
    have "enter_loop nr cpu v p st = Some st" using p n e by (subst enter_loop.simps) (simp add: Let_def)
    moreover have "delivered nr cpu v P (p # xs) ys 0 st st" using Cons.prems f by (simp add: delivered_def)
    ultimately show ?thesis by auto
  qed
qed

lemma enter_to_guest_ok:
  assumes "vq_ok nr cpu v P xs ys st"
  shows "\<exists>m st'. virqchip_enter_to_guest cpu v st = Some (None, st') \<and> delivered nr cpu v P xs ys m st st'"
proof -
  have k: "map_option nr_lrs (hw_chip v st) = Some nr" using vq_okD(9) [OF assms] .
  then obtain vc where "virq_chip (the_vm v st) = Some vc" "vc_flags vc AND VIRQCHIP_F_HW_VIRT \<noteq> 0" "nr_lrs vc = nr"
    by (auto simp: hw_chip_def split: option.splits if_splits)
  then show ?thesis using enter_loop_ok [OF assms] next_first [OF lists_okD(1) [OF vq_okD(1) [OF assms]]]
    by (auto simp: virqchip_enter_to_guest_def vgic_irq_enter_to_guest_def)
qed

section \<open>Leaving the guest\<close>

text \<open>Whether the guest is done with the interrupt of a descriptor: the state of its list register is inactive.\<close>

definition fin :: "nat \<Rightarrow> virt \<Rightarrow> nat \<Rightarrow> bool" where
  "fin cpu st p \<longleftrightarrow> lr_state (gich st cpu (the (slot (vdescs st p)))) = 0"

lemma slots_same:
  assumes "slots_ok nr P xs ys D B G" "slot d = slot (D p)" "vd_vno d = vd_vno (D p)" "virq_is_pending d = virq_is_pending (D p)"
  shows "slots_ok nr P xs ys (D(p := d)) B G"
proof -
  have "slot ((D(p := d)) q) = slot (D q)" "vd_vno ((D(p := d)) q) = vd_vno (D q)" "virq_is_pending ((D(p := d)) q) = virq_is_pending (D q)" for q
    using assms(2-4) by auto
  then show ?thesis using assms(1) unfolding slots_ok_def by presburger
qed

lemma ucast_state_0: "(ucast (x :: 2 word) :: u8) = 0 \<longleftrightarrow> x = 0"
proof -
  have "unat (ucast x :: u8) = unat x" using unsigned_less [of x, where 'a = nat] by (simp add: unsigned_ucast_eq take_bit_nat_eq_self)
  then show ?thesis by (simp add: unat_eq_0 [symmetric] del: unat_eq_0)
qed

text \<open>One turn of the loop: the descriptor stays, goes back to the end of the pending list, or leaves both lists.\<close>

lemma exit_one_ok:
  assumes ok: "vq_ok nr cpu v P xs (ds @ p # rs) st"
  shows "\<exists>st'. exit_one cpu v p st = Some st' \<and> same_config st st' \<and>
    vq_ok nr cpu v P (if fin cpu st p \<and> virq_is_pending (vdescs st p) then xs @ [p] else xs) (if fin cpu st p then ds @ rs else ds @ p # rs) st' \<and>
    (\<forall>q\<in>set rs. fin cpu st' q = fin cpu st q) \<and> (\<forall>q. q \<noteq> p \<or> fin cpu st p \<and> virq_is_pending (vdescs st p) \<longrightarrow> vdescs st' q = vdescs st q)"
proof -
  note k = vq_okD [OF ok] note sk = slots_okD [OF k(2)]
  have p: "p \<in> P" "p \<notin> set xs" "p \<notin> set ds" "p \<notin> set rs" "p \<in> set (ds @ p # rs)" using k(3,4,6) by auto
  obtain i where i: "slot (vdescs st p) = Some i" using sk(6) [of p] by auto
  have i': "i < nr" "i < 64" "length (irq_bitmap (vstructs st v)) = 1" using sk(7) [OF p(1) i] sk(1,2) by auto
  note chip = chip_ops [OF ok p(1) i]
  have st: "virqchip_get_virq_state cpu v p st = VIRQ_STATE_INACTIVE \<longleftrightarrow> fin cpu st p"
    unfolding chip(3) fin_def i VIRQ_STATE_INACTIVE_def by (simp add: ucast_state_0)
  have ne: "the (slot (vdescs st q)) \<noteq> i" if "q \<in> set rs" for q
    using sk(6) [of q] sk(8) [of q p i] that p(1,4) i k(3) by force
  have rm: "remove1 p (ds @ p # rs) = ds @ rs" using p(3) by (simp add: remove1_append)
  consider "\<not> fin cpu st p" | "fin cpu st p" "virq_is_pending (vdescs st p)" | "fin cpu st p" "\<not> virq_is_pending (vdescs st p)" by blast
  then show ?thesis
  proof cases
    case 1
    let ?st = "upd_vdesc p (\<lambda>d. d\<lparr>vd_state := virqchip_get_virq_state cpu v p st\<rparr>) st"
    have e: "exit_one cpu v p st = Some ?st" using 1 st by (simp add: exit_one_def Let_def)
    have c: "same_config st ?st" by (simp add: same_config_def upd_defs)
    have "vq_ok nr cpu v P xs (ds @ p # rs) ?st"
      using k(1,8,9) same_hw_chip [OF c] slots_same [OF k(2)] unfolding vq_ok_def by (simp add: upd_defs)
    then show ?thesis using e c 1 p(4) by (intro exI [of _ ?st]) (auto simp: fin_def upd_defs)
  next
    case 2
    let ?st = "upd_vlists (\<lambda>h. list_add_tail (pending_list v) p (list_del p h)) (write_lr cpu i zero_lr st)"
    have e: "exit_one cpu v p st = Some ?st" using 2 st chip(2) by (simp add: exit_one_def Let_def)
    have c: "same_config st ?st" by (simp add: same_config_def upd_defs)
    have "vq_ok nr cpu v P (xs @ [p]) (ds @ rs) ?st"
      using k(8,9) same_hw_chip [OF c] slots_again [OF k(2) p(5) k(3,6) 2(2) i] lists_ok_again [OF k(1) p(5)] unfolding vq_ok_def rm by (simp add: upd_defs)
    then show ?thesis using e c 2 ne by (intro exI [of _ ?st]) (auto simp: fin_def upd_defs)
  next
    case 3
    let ?d = "vdescs st p\<lparr>vd_state := VIRQ_STATE_INACTIVE, vd_id := VIRQ_INVALID_ID\<rparr>"
    let ?st = "upd_vstruct v (\<lambda>s. s\<lparr>active_count := active_count s - 1\<rparr>) (upd_vlists (\<lambda>h. set_nxt p 0 (list_del p h))
      (upd_vdesc p (\<lambda>d. d\<lparr>vd_state := VIRQ_STATE_INACTIVE, vd_id := VIRQ_INVALID_ID\<rparr>)
        (upd_vstruct v (\<lambda>s. s\<lparr>irq_bitmap := bm_clear_bit i (irq_bitmap s)\<rparr>) (write_lr cpu i zero_lr st))))"
    have e: "exit_one cpu v p st = Some ?st" using 3 st chip(2,4) i' by (simp add: exit_one_def clear_lr_bit_def Let_def) (simp add: upd_defs)
    have c: "same_config st ?st" by (simp add: same_config_def upd_defs)
    have "slots_ok nr P xs (ds @ rs) ((vdescs st)(p := ?d)) (bm_clear_bit i (irq_bitmap (vstructs st v))) ((gich st cpu)(i := zero_lr))"
      using slots_retire [OF k(2) p(5) k(3,6) p(2) i, of ?d] 3(2) unfolding rm by simp
    then have "vq_ok nr cpu v P xs (ds @ rs) ?st"
      using k(8,9) same_hw_chip [OF c] lists_ok_retire [OF k(1) p(5)] unfolding vq_ok_def rm by (simp add: upd_defs)
    then show ?thesis using e c 3 ne p(4) by (intro exI [of _ ?st]) (auto simp: fin_def upd_defs)
  qed
qed

lemma exit_loop_ok:
  "vq_ok nr cpu v P xs (ds @ rs) st \<Longrightarrow>
    \<exists>st'. exit_loop cpu v (hd (rs @ [active_list v])) st = Some st' \<and> same_config st st' \<and>
      vq_ok nr cpu v P (xs @ filter (\<lambda>p. fin cpu st p \<and> virq_is_pending (vdescs st p)) rs) (ds @ filter (\<lambda>p. \<not> fin cpu st p) rs) st' \<and>
      (\<forall>q. q \<notin> set rs \<or> fin cpu st q \<and> virq_is_pending (vdescs st q) \<longrightarrow> vdescs st' q = vdescs st q)"
proof (induction rs arbitrary: xs ds st)
  case Nil
  then show ?case by (subst exit_loop.simps) auto
next
  case (Cons p rs)
  note k = vq_okD [OF Cons.prems]
  have p: "p \<noteq> active_list v" using lists_okD(2) [OF k(1)] dll_imp_distinct by fastforce
  have n: "nxt (vlists st) p = hd (rs @ [active_list v])"
    by (rule next_mid [OF lists_okD(2) [OF k(1)]])
  obtain st1 where e: "exit_one cpu v p st = Some st1" and c: "same_config st st1"
    and ok: "vq_ok nr cpu v P (if fin cpu st p \<and> virq_is_pending (vdescs st p) then xs @ [p] else xs) (if fin cpu st p then ds @ rs else ds @ p # rs) st1"
    and f: "\<forall>q\<in>set rs. fin cpu st1 q = fin cpu st q"
    and D: "\<And>q. q \<noteq> p \<or> fin cpu st p \<and> virq_is_pending (vdescs st p) \<Longrightarrow> vdescs st1 q = vdescs st q" using exit_one_ok [OF Cons.prems] by blast
  have pr: "p \<notin> set rs" using k(6) by simp
  have Dr: "vdescs st1 q = vdescs st q" if "q \<in> set rs" for q using D [of q] that pr by auto
  have ok': "vq_ok nr cpu v P (if fin cpu st p \<and> virq_is_pending (vdescs st p) then xs @ [p] else xs) ((if fin cpu st p then ds else ds @ [p]) @ rs) st1"
    using ok by (simp split: if_splits)
  obtain st' where s: "exit_loop cpu v (hd (rs @ [active_list v])) st1 = Some st'" "same_config st1 st'"
    "vq_ok nr cpu v P ((if fin cpu st p \<and> virq_is_pending (vdescs st p) then xs @ [p] else xs) @ filter (\<lambda>p. fin cpu st1 p \<and> virq_is_pending (vdescs st1 p)) rs)
      ((if fin cpu st p then ds else ds @ [p]) @ filter (\<lambda>p. \<not> fin cpu st1 p) rs) st'"
    and D1: "\<And>q. q \<notin> set rs \<or> fin cpu st1 q \<and> virq_is_pending (vdescs st1 q) \<Longrightarrow> vdescs st' q = vdescs st1 q" using Cons.IH [OF ok'] by blast
  have D2: "vdescs st' q = vdescs st q" if "q \<notin> set (p # rs) \<or> fin cpu st q \<and> virq_is_pending (vdescs st q)" for q
  proof (cases "q = p")
    case True
    then show ?thesis using that D1 [of q] D [of q] pr by auto
  next
    case False
    then have "vdescs st1 q = vdescs st q" using D by blast
    then show ?thesis using that D1 [of q] f by (cases "q \<in> set rs") auto
  qed
  have fl: "filter (\<lambda>p. fin cpu st1 p \<and> virq_is_pending (vdescs st1 p)) rs = filter (\<lambda>p. fin cpu st p \<and> virq_is_pending (vdescs st p)) rs"
    "filter (\<lambda>p. \<not> fin cpu st1 p) rs = filter (\<lambda>p. \<not> fin cpu st p) rs" using f Dr by (auto intro!: filter_cong)
  have "exit_loop cpu v p st = Some st'" using p n e s(1) by (subst exit_loop.simps) (simp add: Let_def)
  then show ?case using s(3) same_config_trans [OF c s(2)] D2 unfolding fl by (intro exI [of _ st']) (simp split: if_splits)
qed

lemma exit_from_guest_ok:
  assumes "vq_ok nr cpu v P xs ys st"
  shows "\<exists>st'. virqchip_exit_from_guest cpu v st = Some st' \<and> same_config st st' \<and>
    vq_ok nr cpu v P (xs @ filter (\<lambda>p. fin cpu st p \<and> virq_is_pending (vdescs st p)) ys) (filter (\<lambda>p. \<not> fin cpu st p) ys) st' \<and>
    (\<forall>q. q \<notin> set ys \<or> fin cpu st q \<and> virq_is_pending (vdescs st q) \<longrightarrow> vdescs st' q = vdescs st q)"
proof -
  obtain vc where "virq_chip (the_vm v st) = Some vc" "vc_flags vc AND VIRQCHIP_F_HW_VIRT \<noteq> 0"
    using vq_okD(9) [OF assms] by (auto simp: hw_chip_def split: option.splits if_splits)
  then show ?thesis using exit_loop_ok [of nr cpu v P xs "[]" ys st] assms next_first [OF lists_okD(2) [OF vq_okD(1) [OF assms]]]
    by (auto simp: virqchip_exit_from_guest_def vgic_irq_exit_from_guest_def)
qed

section \<open>The life of the virtual interrupts of a virtual CPU\<close>

text \<open>
  What the guest does to the list registers while it runs: it acknowledges and ends interrupts, which changes the state of a
  list register that is not inactive, and nothing else.
\<close>

definition guest_run :: "nat \<Rightarrow> (nat \<Rightarrow> 2 word) \<Rightarrow> virt \<Rightarrow> virt" where
  "guest_run cpu s st = st\<lparr>gich := (gich st)(cpu := (\<lambda>i. let lr = gich st cpu i in if lr_state lr = 0 then lr else lr\<lparr>lr_state := s i\<rparr>))\<rparr>"

lemma guest_run_ok:
  assumes ok: "vq_ok nr cpu v P xs ys st" shows "vq_ok nr cpu v P xs ys (guest_run cpu s st)" "same_config st (guest_run cpu s st)"
proof -
  show c: "same_config st (guest_run cpu s st)" by (simp add: same_config_def guest_run_def)
  note k = vq_okD [OF ok] note sk = slots_okD [OF k(2)]
  have g: "lr_vid (gich (guest_run cpu s st) cpu i) = lr_vid (gich st cpu i)"
    "gich st cpu i = zero_lr \<Longrightarrow> gich (guest_run cpu s st) cpu i = zero_lr" for i by (simp_all add: guest_run_def Let_def zero_lr_def)
  have r: "vdescs (guest_run cpu s st) = vdescs st" "vlists (guest_run cpu s st) = vlists st" "vstructs (guest_run cpu s st) = vstructs st"
    by (simp_all add: guest_run_def)
  have "slots_ok nr P xs ys (vdescs st) (irq_bitmap (vstructs st v)) (gich (guest_run cpu s st) cpu)"
    by (rule slots_okI) (use sk g in \<open>blast | simp\<close>)+
  then show "vq_ok nr cpu v P xs ys (guest_run cpu s st)" using k(1,8,9) same_hw_chip [OF c] by (simp add: vq_ok_def r)
qed

text \<open>When every identifier is taken, at least \<open>nr\<close> listed descriptors own one.\<close>

lemma full_owners:
  assumes ok: "vq_ok nr cpu v P xs ys st" and full: "\<forall>i<nr. bm_bit (irq_bitmap (vstructs st v)) i"
  shows "nr \<le> card {p \<in> set (xs @ ys). slot (vdescs st p) \<noteq> None}"
proof -
  note sk = slots_okD [OF vq_okD(2) [OF ok]]
  let ?A = "{p \<in> set (xs @ ys). slot (vdescs st p) \<noteq> None}"
  have "{..<nr} \<subseteq> (\<lambda>p. the (slot (vdescs st p))) ` ?A"
  proof
    fix i assume "i \<in> {..<nr}"
    then have i: "i < nr" by simp
    then obtain p where p: "p \<in> P" "slot (vdescs st p) = Some i" using sk(9) [OF i] full by auto
    then have "p \<in> ?A" using sk(3) [of p] by force
    then show "i \<in> (\<lambda>p. the (slot (vdescs st p))) ` ?A" using p(2) by force
  qed
  then have "card {..<nr} \<le> card ?A" by (intro surj_card_le) auto
  then show ?thesis by simp
qed

text \<open>With fewer interrupts in flight than list registers, an entry delivers all of them.\<close>

lemma delivered_all:
  assumes d: "delivered nr cpu v P xs ys m st st'" and n: "length xs + length ys \<le> nr"
  shows "m = length xs"
proof (rule ccontr)
  assume "m \<noteq> length xs"
  then have m: "m < length xs" using d by (simp add: delivered_def)
  let ?l = "drop m xs @ (ys @ take m xs)"
  have ok: "vq_ok nr cpu v P (drop m xs) (ys @ take m xs) st'" and s: "slot (vdescs st (xs ! m)) = None" and b: "\<forall>i<nr. bm_bit (irq_bitmap (vstructs st' v)) i"
    and D: "\<forall>p. p \<notin> set (take m xs) \<longrightarrow> vdescs st' p = vdescs st p" using d m unfolding delivered_def by blast+
  have x: "xs ! m \<in> set (drop m xs)" using m by (metis Cons_nth_drop_Suc list.set_intros(1))
  then have "xs ! m \<notin> set (take m xs)" using vq_okD(4) [OF ok] by auto
  then have s': "slot (vdescs st' (xs ! m)) = None" using s D by simp
  have "nr \<le> card {p \<in> set ?l. slot (vdescs st' p) \<noteq> None}" by (rule full_owners [OF ok b])
  also have "\<dots> \<le> card (set ?l - {xs ! m})" using s' by (intro card_mono) auto
  also have "\<dots> < card (set ?l)" using x by (intro card_Diff1_less) auto
  also have "\<dots> \<le> length ?l" by (rule card_length)
  finally show False using n m by simp
qed

text \<open>
  The initial state: the reset of a virtual CPU, with empty list registers. The descriptors are the local ones and any shared ones \<open>S\<close>
  that are idle.
\<close>

definition local_descs :: "nat \<Rightarrow> nat set" where
  "local_descs v = local_desc v ` {..<32}"

definition idle_descs :: "nat set \<Rightarrow> virt \<Rightarrow> bool" where
  "idle_descs S st \<longleftrightarrow> (\<forall>p\<in>S. (\<exists>m i. p = vspi_desc m i) \<and> nxt (vlists st) p = 0 \<and> slot (vdescs st p) = None \<and> \<not> virq_is_pending (vdescs st p))"

lemma addr_mod: "pending_list w mod 4 = 0" "active_list w mod 4 = 1" "local_desc v i mod 4 = 2" "vspi_desc m j mod 4 = 3"
proof -
  have "(4 * x + 64) mod 4 = 0" "(4 * x + 65) mod 4 = 1" "(4 * x + 66) mod 4 = 2" "(4 * x + 67) mod 4 = 3" for x :: nat by presburger+
  then show "pending_list w mod 4 = 0" "active_list w mod 4 = 1" "local_desc v i mod 4 = 2" "vspi_desc m j mod 4 = 3"
    unfolding local_desc_def vspi_desc_def pending_list_def active_list_def by blast+
qed

lemma addr_neq [simp]:
  "local_desc v i \<noteq> pending_list w" "local_desc v i \<noteq> active_list w"
  "vspi_desc m j \<noteq> pending_list w" "vspi_desc m j \<noteq> active_list w" "vspi_desc m j \<noteq> local_desc v i"
  using addr_mod(1,2) [of w] addr_mod(3) [of v i] addr_mod(4) [of m j] by (auto dest: arg_cong [of _ _ "\<lambda>x. x mod 4"])

lemma addr_neq_0 [simp]: "local_desc v i \<noteq> 0" "vspi_desc m j \<noteq> 0" "local_desc v i = local_desc v i' \<longleftrightarrow> i = i'"
  by (simp_all add: local_desc_def vspi_desc_def)

lemma reset_fold:
  "let st' = fold (\<lambda>i st. upd_vlists (set_nxt (local_desc v i) 0) (upd_vdesc (local_desc v i) f st)) [0..<n] st
   in vdescs st' = (\<lambda>p. if p \<in> local_desc v ` {..<n} then f (vdescs st p) else vdescs st p) \<and>
      nxt (vlists st') = (\<lambda>p. if p \<in> local_desc v ` {..<n} then 0 else nxt (vlists st) p) \<and> pre (vlists st') = pre (vlists st) \<and>
      same_config st st' \<and> vstructs st' = vstructs st \<and> gich st' = gich st"
proof (induction n)
  case (Suc n)
  have "local_desc v n \<notin> local_desc v ` {..<n}" by auto
  then show ?case using Suc by (auto simp: Let_def upd_defs same_config_def lessThan_Suc fun_eq_iff)
qed simp

lemma reset_ok:
  assumes hw: "map_option nr_lrs (hw_chip v st) = Some nr" "nr \<le> 64" and g: "\<forall>i<nr. gich st cpu i = zero_lr" and S: "idle_descs S st"
  shows "vq_ok nr cpu v (local_descs v \<union> S) [] [] (vcpu_virq_struct_reset v st)" "same_config st (vcpu_virq_struct_reset v st)"
proof -
  let ?st = "vcpu_virq_struct_reset v st" and ?f = "\<lambda>d. virq_clear_pending (d\<lparr>vd_id := VIRQ_INVALID_ID, vd_state := VIRQ_STATE_INACTIVE\<rparr>)"
  let ?s1 = "reset_lists v (upd_vstruct v (\<lambda>_. \<lparr>active_count = 0, pending_hirq = 0, pending_virq = 0, irq_bitmap = [0]\<rparr>) st)"
  have e: "?st = fold (\<lambda>i st. upd_vlists (set_nxt (local_desc v i) 0) (upd_vdesc (local_desc v i) ?f st)) [0..<32] ?s1"
    by (simp add: vcpu_virq_struct_reset_def for_local_descs_def VM_LOCAL_VIRQ_NR_def Let_def)
  note r = reset_fold [of v ?f 32 ?s1, unfolded Let_def, folded e local_descs_def]
  have s1: "vdescs ?s1 = vdescs st" "gich ?s1 = gich st" "same_config st ?s1"
    "vstructs ?s1 v = \<lparr>active_count = 0, pending_hirq = 0, pending_virq = 0, irq_bitmap = [0]\<rparr>"
    by (simp_all add: reset_lists_def upd_defs same_config_def)
  have D: "vdescs ?st = (\<lambda>p. if p \<in> local_descs v then ?f (vdescs st p) else vdescs st p)" using r unfolding s1 by blast
  have V: "vstructs ?st v = \<lparr>active_count = 0, pending_hirq = 0, pending_virq = 0, irq_bitmap = [0]\<rparr>" "gich ?st = gich st"
    using r s1(2,4) by simp_all
  show c: "same_config st ?st" using r same_config_trans [OF s1(3)] by blast
  have heads: "pending_list v \<notin> local_descs v" "active_list v \<notin> local_descs v"
    using addr_neq(1,2) [symmetric] by (auto simp: local_descs_def)
  have N: "nxt (vlists ?st) = (\<lambda>p. if p \<in> local_descs v then 0 else nxt (vlists ?s1) p)" "pre (vlists ?st) = pre (vlists ?s1)" using r by simp_all
  have l: "dll (vlists ?st) (pending_list v) []" "dll (vlists ?st) (active_list v) []"
    unfolding dll_def using heads by (simp_all add: N reset_lists_def upd_defs init_list_def)
  have Sn: "p \<noteq> pending_list v \<and> p \<noteq> active_list v \<and> p \<notin> local_descs v \<and> p \<noteq> 0" if pS: "p \<in> S" for p
  proof -
    obtain m i where "p = vspi_desc m i" using S pS unfolding idle_descs_def by blast
    then show ?thesis by (auto simp: local_descs_def)
  qed
  have "lists_ok v (local_descs v \<union> S) [] [] (vlists ?st)"
  proof (rule lists_okI [OF l])
    show "nxt (vlists ?st) p = 0" if "p \<in> local_descs v \<union> S" for p
      using that S Sn [of p] by (auto simp: N reset_lists_def upd_defs init_list_def idle_descs_def)
    show "0 \<notin> local_descs v \<union> S" using Sn addr_neq_0(1) [symmetric] by (auto simp: local_descs_def)
  qed (use heads Sn in auto)
  moreover have "slots_ok nr (local_descs v \<union> S) [] [] (vdescs ?st) (irq_bitmap (vstructs ?st v)) (gich ?st cpu)"
    using hw(2) g S by (auto simp: slots_ok_def D V idle_descs_def bm_bit_def split: if_splits)
  ultimately show "vq_ok nr cpu v (local_descs v \<union> S) [] [] ?st" using hw(1) same_hw_chip [OF c] V by (simp add: vq_ok_def)
qed

text \<open>The steps: an interrupt is sent from some CPU \<open>c\<close>, the virtual CPU enters its guest, the guest runs, the virtual CPU leaves it.\<close>

inductive vq_step :: "nat \<Rightarrow> nat \<Rightarrow> nat set \<Rightarrow> virt \<Rightarrow> virt \<Rightarrow> bool" for cpu v P where
  step_send: "p \<in> P \<Longrightarrow> send_virq c v p st = Some (r, st') \<Longrightarrow> vq_step cpu v P st st'"
| step_enter: "virqchip_enter_to_guest cpu v st = Some (l, st') \<Longrightarrow> vq_step cpu v P st st'"
| step_guest: "vq_step cpu v P st (guest_run cpu s st)"
| step_exit: "virqchip_exit_from_guest cpu v st = Some st' \<Longrightarrow> vq_step cpu v P st st'"

lemma vq_ok_kicks [simp]: "vq_ok nr cpu v P xs ys (st\<lparr>kicks := x\<rparr>) = vq_ok nr cpu v P xs ys st"
  by (simp add: vq_ok_def hw_chip_def the_vm_def)

lemma same_config_kicks [simp]: "same_config st (st'\<lparr>kicks := x\<rparr>) = same_config st st'"
  by (simp add: same_config_def)

lemma send_virq_ok:
  assumes "vq_ok nr cpu v P xs ys st" "p \<in> P" "send_virq c v p st = Some (r, st')"
  shows "st' = st \<or> r = 0 \<and> v \<in> set (kicks st') \<and> virq_is_pending (vdescs st' p) \<and> same_config st st' \<and> gich st' = gich st \<and>
    vq_ok nr cpu v P (if p \<in> set xs \<union> set ys then xs else xs @ [p]) ys st'"
proof (cases "send_virq0 c v p st")
  case None
  then show ?thesis using assms(3) by (auto simp: send_virq_def Let_def split: if_splits)
next
  case (Some s)
  note ok = send_virq0_ok [OF assms(1,2) Some]
  show ?thesis using assms(3) ok Some by (auto simp: send_virq_def Let_def split: if_splits)
qed

lemma send_virq_some:
  assumes "vm_state (the_vm v st) = VM_STAT_ONLINE" "current_vcpus st c \<noteq> None"
  obtains s where "send_virq0 c v p st = Some s" "send_virq c v p st = Some (0, s\<lparr>kicks := kicks s @ [v]\<rparr>)"
proof -
  obtain s where "send_virq0 c v p st = Some s" using assms(2) by (cases "send_virq0 c v p st") (auto simp: send_virq0_def upd_defs Let_def split: if_splits option.splits)
  then show ?thesis using assms(1) by (intro that) (simp_all add: send_virq_def Let_def virq_defs)
qed

lemma send_virq0_frame:
  assumes "send_virq0 c v p st = Some st'"
  shows "q \<noteq> p \<Longrightarrow> vdescs st' q = vdescs st q" "slot (vdescs st' q) = slot (vdescs st q)"
  using assms by (auto simp: send_virq0_def upd_defs Let_def split: if_splits option.splits)

lemma vq_step_ok: "vq_step cpu v P st st' \<Longrightarrow> vq_ok nr cpu v P xs ys st \<Longrightarrow> \<exists>xs' ys'. vq_ok nr cpu v P xs' ys' st'"
proof (induction rule: vq_step.induct)
  case (step_send p c st r st')
  then show ?case using send_virq_ok by blast
next
  case (step_enter st l st')
  then show ?case using enter_to_guest_ok [OF step_enter(2)] by (auto simp: delivered_def)
next
  case (step_guest st s)
  then show ?case using guest_run_ok(1) by blast
next
  case (step_exit st st')
  then show ?case using exit_from_guest_ok [OF step_exit(2)] by auto
qed

lemma vq_steps_ok: "(vq_step cpu v P)\<^sup>*\<^sup>* st st' \<Longrightarrow> vq_ok nr cpu v P xs ys st \<Longrightarrow> \<exists>xs' ys'. vq_ok nr cpu v P xs' ys' st'"
  by (induction rule: rtranclp_induct) (blast dest: vq_step_ok)+

section \<open>Properties\<close>

text \<open>
  C10. The virtual interrupts of a virtual CPU stay well formed. From its reset, with empty list registers, and through any interleaving of
  sends from any CPU, entries, guest execution and exits, \<^verbatim>\<open>list.next\<close> is NULL exactly for the descriptors that are on no list,
  the two lists are well formed and disjoint, no two descriptors share an identifier, the bitmap is the set of the identifiers in
  use, \<^verbatim>\<open>active_count\<close> counts the listed descriptors, every list register is empty or belongs to an active descriptor
  whose number it holds, and entries and exits never fail.
\<close>

theorem virq_well_formed:
  assumes "map_option nr_lrs (hw_chip v st) = Some nr" "nr \<le> 64" "\<forall>i<nr. gich st cpu i = zero_lr" "idle_descs S st"
    and "(vq_step cpu v (local_descs v \<union> S))\<^sup>*\<^sup>* (vcpu_virq_struct_reset v st) st'"
  shows "\<exists>xs ys s1 s2. vq_ok nr cpu v (local_descs v \<union> S) xs ys st' \<and> virqchip_enter_to_guest cpu v st' = Some (None, s1) \<and>
    virqchip_exit_from_guest cpu v st' = Some s2"
proof -
  obtain xs ys where ok: "vq_ok nr cpu v (local_descs v \<union> S) xs ys st'" using vq_steps_ok [OF assms(5) reset_ok(1) [OF assms(1-4)]] by blast
  then show ?thesis using enter_to_guest_ok [OF ok] exit_from_guest_ok [OF ok] by blast
qed


text \<open>Sending each descriptor of a list.\<close>

lemma sends_ok:
  assumes "vq_ok nr cpu v P xs ys st" "set ps \<subseteq> P" "distinct ps" "vm_state (the_vm v st) = VM_STAT_ONLINE" "current_vcpus st c \<noteq> None"
  shows "\<exists>st'. (vq_step cpu v P)\<^sup>*\<^sup>* st st' \<and> vq_ok nr cpu v P (xs @ filter (\<lambda>p. p \<notin> set xs \<union> set ys) ps) ys st' \<and> same_config st st' \<and>
    gich st' = gich st \<and> (\<forall>p\<in>set ps. virq_is_pending (vdescs st' p)) \<and> (\<forall>q. slot (vdescs st' q) = slot (vdescs st q)) \<and>
    (\<forall>q. q \<notin> set ps \<longrightarrow> vdescs st' q = vdescs st q)"
  using assms
proof (induction ps arbitrary: xs st)
  case Nil
  then show ?case by (intro exI [of _ st]) simp
next
  case (Cons p ps)
  obtain s where s: "send_virq0 c v p st = Some s" and send: "send_virq c v p st = Some (0, s\<lparr>kicks := kicks s @ [v]\<rparr>)"
    by (rule send_virq_some [OF Cons.prems(4,5)])
  let ?s = "s\<lparr>kicks := kicks s @ [v]\<rparr>" and ?xs = "if p \<in> set xs \<union> set ys then xs else xs @ [p]"
  have p: "p \<in> P" using Cons.prems(2) by simp
  have ok: "vq_ok nr cpu v P ?xs ys ?s" "same_config st ?s" "virq_is_pending (vdescs ?s p)" "gich ?s = gich st" using send_virq0_ok [OF Cons.prems(1) p s] by simp_all
  have cfg: "vm_state (the_vm v ?s) = VM_STAT_ONLINE" "current_vcpus ?s c \<noteq> None" using ok(2) Cons.prems(4,5) by (simp_all add: same_config_def the_vm_def)
  obtain st' where st': "(vq_step cpu v P)\<^sup>*\<^sup>* ?s st'" "vq_ok nr cpu v P (?xs @ filter (\<lambda>q. q \<notin> set ?xs \<union> set ys) ps) ys st'" "same_config ?s st'"
    "gich st' = gich ?s" "\<forall>q\<in>set ps. virq_is_pending (vdescs st' q)" "\<forall>q. slot (vdescs st' q) = slot (vdescs ?s q)" "\<forall>q. q \<notin> set ps \<longrightarrow> vdescs st' q = vdescs ?s q"
    using Cons.IH [OF ok(1) _ _ cfg] Cons.prems(2,3) by (auto split del: if_split)
  have l: "?xs @ filter (\<lambda>q. q \<notin> set ?xs \<union> set ys) ps = xs @ filter (\<lambda>q. q \<notin> set xs \<union> set ys) (p # ps)"
    using Cons.prems(3) by (auto intro!: filter_cong)
  have "(vq_step cpu v P)\<^sup>*\<^sup>* st st'" using step_send [OF p send] st'(1) by (rule converse_rtranclp_into_rtranclp)
  then show ?case using st'(2-7) ok(2-4) Cons.prems(3) send_virq0_frame [OF s] same_config_trans [OF ok(2) st'(3)] unfolding l
    by (intro exI [of _ st']) auto
qed

text \<open>
  A jam: the pending list starts with a descriptor without identifier, every identifier is taken, and nothing is active. It is kept by every step.
\<close>

definition jammed :: "nat \<Rightarrow> nat \<Rightarrow> nat \<Rightarrow> nat set \<Rightarrow> nat \<Rightarrow> virt \<Rightarrow> bool" where
  "jammed nr cpu v P b st \<longleftrightarrow> (\<exists>xs. vq_ok nr cpu v P (b # xs) [] st) \<and> slot (vdescs st b) = None \<and> (\<forall>i<nr. bm_bit (irq_bitmap (vstructs st v)) i)"

lemma jammed_lrs: "jammed nr cpu v P b st \<Longrightarrow> i < nr \<Longrightarrow> gich st cpu i = zero_lr"
  using slots_okD(10) [OF vq_okD(2)] unfolding jammed_def by fastforce

lemma full_iff:
  assumes "vq_ok nr cpu v P xs ys st"
  shows "(\<forall>i<nr. bm_bit (irq_bitmap (vstructs st v)) i) \<longleftrightarrow> (\<forall>i<nr. \<exists>p\<in>P. slot (vdescs st p) = Some i)"
  using slots_okD(9) [OF vq_okD(2) [OF assms]] by blast

lemma jammed_enter:
  assumes "jammed nr cpu v P b st" shows "virqchip_enter_to_guest cpu v st = Some (None, st)"
proof -
  obtain xs where ok: "vq_ok nr cpu v P (b # xs) [] st" using assms by (auto simp: jammed_def)
  have s: "slot (vdescs st b) = None" "\<forall>i<nr. bm_bit (irq_bitmap (vstructs st v)) i" using assms by (auto simp: jammed_def)
  note k = vq_okD [OF ok]
  have "enter_one nr cpu v b st = Some (False, st)"
  proof -
    have "find_next_zero_bit (irq_bitmap (vstructs st v)) nr 0 = nr" unfolding find_next_zero_bit_eq using s(2) by (intro search_from_none) auto
    then show ?thesis using s(1) slots_okD(5) [OF k(2), of b] by (simp add: enter_one_def slot_def split: if_splits)
  qed
  moreover have "b \<noteq> pending_list v" using lists_okD(1) [OF k(1)] dll_imp_distinct by fastforce
  ultimately have "enter_loop nr cpu v b st = Some st" by (subst enter_loop.simps) simp
  moreover have "nxt (vlists st) (pending_list v) = b" using next_first [OF lists_okD(1) [OF k(1)]] by simp
  ultimately show ?thesis using k(9)
    by (auto simp: hw_chip_def virqchip_enter_to_guest_def vgic_irq_enter_to_guest_def split: option.splits if_splits)
qed

lemma jammed_exit: "jammed nr cpu v P b st \<Longrightarrow> virqchip_exit_from_guest cpu v st = Some st"
proof -
  assume j: "jammed nr cpu v P b st"
  then obtain xs where ok: "vq_ok nr cpu v P (b # xs) [] st" by (auto simp: jammed_def)
  have "nxt (vlists st) (active_list v) = active_list v" using next_first [OF lists_okD(2) [OF vq_okD(1) [OF ok]]] by simp
  moreover have "exit_loop cpu v (active_list v) st = Some st" by (subst exit_loop.simps) simp
  ultimately show ?thesis using vq_okD(9) [OF ok]
    by (auto simp: hw_chip_def virqchip_exit_from_guest_def vgic_irq_exit_from_guest_def split: option.splits if_splits)
qed

lemma jammed_step: "vq_step cpu v P st st' \<Longrightarrow> jammed nr cpu v P b st \<Longrightarrow> jammed nr cpu v P b st'"
proof (induction rule: vq_step.induct)
  case (step_send p c st r st')
  obtain xs where ok: "vq_ok nr cpu v P (b # xs) [] st" using step_send(3) by (auto simp: jammed_def)
  show ?case
  proof (cases "st' = st")
    case False
    then have "\<exists>s. send_virq0 c v p st = Some s \<and> vdescs st' = vdescs s" using step_send(2) by (auto simp: send_virq_def Let_def split: if_splits)
    then have s: "slot (vdescs st' q) = slot (vdescs st q)" for q using send_virq0_frame(2) [of c v p st _ q] by auto
    obtain xs' where "vq_ok nr cpu v P (b # xs') [] st'" using False send_virq_ok [OF ok step_send(1,2)] by (auto split: if_splits)
    then show ?thesis using step_send(3) full_iff [OF ok] full_iff [of nr cpu v P "b # xs'" "[]" st'] s by (auto simp: jammed_def)
  qed (use step_send(3) in simp)
next
  case (step_guest st s)
  have "vq_ok nr cpu v P xs ys (guest_run cpu s st) = vq_ok nr cpu v P xs ys st" if "vq_ok nr cpu v P xs ys st" for xs ys using guest_run_ok(1) that by blast
  then show ?case using step_guest by (auto simp: jammed_def guest_run_def)
qed (simp_all add: jammed_enter jammed_exit)

lemma jammed_steps: "(vq_step cpu v P)\<^sup>*\<^sup>* st st' \<Longrightarrow> jammed nr cpu v P b st \<Longrightarrow> jammed nr cpu v P b st'"
  by (induction rule: rtranclp_induct) (auto intro: jammed_step)

lemma full_by_count:
  assumes ok: "vq_ok nr cpu v P xs ys st" and ps: "set ps \<subseteq> P" "distinct ps" "length ps = nr" and o: "\<forall>p\<in>set ps. slot (vdescs st p) \<noteq> None"
  shows "\<forall>i<nr. bm_bit (irq_bitmap (vstructs st v)) i"
proof -
  note sk = slots_okD [OF vq_okD(2) [OF ok]]
  let ?f = "\<lambda>p. the (slot (vdescs st p))"
  have f: "slot (vdescs st p) = Some (?f p)" if "p \<in> set ps" for p using o that by auto
  have "inj_on ?f (set ps)"
  proof (rule inj_onI)
    fix p q assume pq: "p \<in> set ps" "q \<in> set ps" "?f p = ?f q"
    then show "p = q" using sk(8) [OF _ _ f [OF pq(1)]] f [OF pq(2)] ps(1) by auto
  qed
  then have c: "card (?f ` set ps) = nr" using ps(2,3) by (simp add: card_image distinct_card)
  have "?f ` set ps \<subseteq> {..<nr}"
  proof (rule image_subsetI)
    fix p assume "p \<in> set ps"
    then show "?f p \<in> {..<nr}" using sk(7) [OF _ f] ps(1) by auto
  qed
  then have "?f ` set ps = {..<nr}" using c by (intro card_subset_eq) auto
  then have "\<exists>p\<in>P. slot (vdescs st p) = Some i" if "i < nr" for i
    using f ps(1) that by (metis (no_types, lifting) imageE lessThan_iff subsetD)
  then show ?thesis using full_iff [OF ok] by blast
qed

lemma jam_exit:
  assumes ok: "vq_ok nr cpu v P [b] ps st" and ps: "length ps = nr" and pend: "\<forall>p\<in>set ps. virq_is_pending (vdescs st p)" and b: "slot (vdescs st b) = None"
  shows "\<exists>st'. (vq_step cpu v P)\<^sup>*\<^sup>* st st' \<and> jammed nr cpu v P b st'"
proof -
  let ?s = "guest_run cpu (\<lambda>_. 0) st"
  have ok1: "vq_ok nr cpu v P [b] ps ?s" by (rule guest_run_ok(1) [OF ok])
  have D: "vdescs ?s = vdescs st" by (simp add: guest_run_def)
  have f: "fin cpu ?s p" for p by (simp add: fin_def guest_run_def Let_def)
  obtain st' where e: "virqchip_exit_from_guest cpu v ?s = Some st'" and ok2: "vq_ok nr cpu v P ([b] @ filter (\<lambda>p. fin cpu ?s p \<and> virq_is_pending (vdescs ?s p)) ps) (filter (\<lambda>p. \<not> fin cpu ?s p) ps) st'"
    and D2: "\<forall>q. q \<notin> set ps \<or> fin cpu ?s q \<and> virq_is_pending (vdescs ?s q) \<longrightarrow> vdescs st' q = vdescs ?s q" using exit_from_guest_ok [OF ok1] by blast
  have l: "filter (\<lambda>p. fin cpu ?s p \<and> virq_is_pending (vdescs ?s p)) ps = ps" "filter (\<lambda>p. \<not> fin cpu ?s p) ps = []" using f D pend by (auto simp: filter_id_conv)
  have ok3: "vq_ok nr cpu v P (b # ps) [] st'" using ok2 unfolding l by simp
  have D3: "vdescs st' q = vdescs st q" if "q \<in> set (b # ps)" for q using D2 f D pend that vq_okD(4) [OF ok] by (cases "q \<in> set ps") auto
  have "slot (vdescs st p) \<noteq> None" if "p \<in> set ps" for p using slots_okD(6) [OF vq_okD(2) [OF ok] that] by auto
  then have "\<forall>i<nr. bm_bit (irq_bitmap (vstructs st' v)) i"
    using full_by_count [OF ok3, of ps] D3 ps vq_okD(3,5) [OF ok3] by auto
  then have "jammed nr cpu v P b st'" using ok3 D3 [of b] b by (auto simp: jammed_def)
  moreover have "(vq_step cpu v P)\<^sup>*\<^sup>* st st'" using step_guest [of cpu v P st] step_exit [OF e] by (meson converse_rtranclp_into_rtranclp rtranclp.rtrancl_refl)
  ultimately show ?thesis by blast
qed

text \<open>
  C12. Interrupts can jam for good. With \<open>nr\<close> list registers, let \<open>nr\<close> interrupts be active, another one wait behind them without identifier, and
  the active ones be sent again before the guest ends them all. On the exit they go back to the pending list, behind the waiting one, and
  keep their identifiers; from then on every entry stops at the waiting one, for which no identifier is free, although all
  list registers are empty, and none is freed again: whatever is sent, run, entered and left after that, no list register is ever filled.
\<close>

theorem virq_jam:
  assumes "map_option nr_lrs (hw_chip v st) = Some nr" "nr \<le> 64" "\<forall>i<nr. gich st cpu i = zero_lr" "idle_descs S st"
    and "vm_state (the_vm v st) = VM_STAT_ONLINE" "current_vcpus st c \<noteq> None"
    and "set (b # ps) \<subseteq> local_descs v \<union> S" "distinct (b # ps)" "length ps = nr"
  shows "\<exists>st'. (vq_step cpu v (local_descs v \<union> S))\<^sup>*\<^sup>* (vcpu_virq_struct_reset v st) st' \<and> virq_is_pending (vdescs st' b) \<and>
    (\<forall>st''. (vq_step cpu v (local_descs v \<union> S))\<^sup>*\<^sup>* st' st'' \<longrightarrow> virqchip_enter_to_guest cpu v st'' = Some (None, st'') \<and> (\<forall>i<nr. gich st'' cpu i = zero_lr))"
proof -
  let ?P = "local_descs v \<union> S"
  define s0 where "s0 = vcpu_virq_struct_reset v st"
  have ok0: "vq_ok nr cpu v ?P [] [] s0" and c0: "same_config st s0" using reset_ok [OF assms(1-4)] by (auto simp: s0_def)
  have cfg: "vm_state (the_vm v s) = VM_STAT_ONLINE \<and> current_vcpus s c \<noteq> None" if "same_config st s" for s
    using that assms(5,6) by (simp add: same_config_def the_vm_def)
  have ps: "set ps \<subseteq> ?P" "distinct ps" "b \<in> ?P" "b \<notin> set ps" using assms(7,8) by auto
  obtain s1 where s1: "(vq_step cpu v ?P)\<^sup>*\<^sup>* s0 s1" "vq_ok nr cpu v ?P ps [] s1" "same_config s0 s1"
    using sends_ok [OF ok0 ps(1,2), of c] cfg [OF c0] by auto
  obtain m s2 where e2: "virqchip_enter_to_guest cpu v s1 = Some (None, s2)" and d2: "delivered nr cpu v ?P ps [] m s1 s2" using enter_to_guest_ok [OF s1(2)] by blast
  have "m = length ps" using delivered_all [OF d2] assms(9) by simp
  then have ok2: "vq_ok nr cpu v ?P [] ps s2" and c2: "same_config st s2" using d2 same_config_trans [OF same_config_trans [OF c0 s1(3)]] by (auto simp: delivered_def)
  have b2: "slot (vdescs s2 b) = None" using slots_okD(3) [OF vq_okD(2) [OF ok2] ps(3)] ps(4) by simp
  obtain s3 where s3: "(vq_step cpu v ?P)\<^sup>*\<^sup>* s2 s3" "vq_ok nr cpu v ?P [b] ps s3" "same_config s2 s3" "slot (vdescs s3 b) = None"
    using sends_ok [OF ok2, of "[b]" c] cfg [OF c2] ps(3,4) b2 by auto
  have c3: "same_config st s3" by (rule same_config_trans [OF c2 s3(3)])
  have nf: "filter (\<lambda>p. p \<notin> set [b] \<union> set ps) ps = []" by (simp add: filter_empty_conv)
  obtain s4 where s4: "(vq_step cpu v ?P)\<^sup>*\<^sup>* s3 s4" "vq_ok nr cpu v ?P [b] ps s4" "\<forall>p\<in>set ps. virq_is_pending (vdescs s4 p)" "slot (vdescs s4 b) = None"
    using sends_ok [OF s3(2) ps(1,2), of c] cfg [OF c3] s3(4) unfolding nf by auto
  obtain s5 where s5: "(vq_step cpu v ?P)\<^sup>*\<^sup>* s4 s5" "jammed nr cpu v ?P b s5" using jam_exit [OF s4(2) assms(9) s4(3,4)] by blast
  have "(vq_step cpu v ?P)\<^sup>*\<^sup>* s0 s5" using s1(1) r_into_rtranclp [of "vq_step cpu v ?P", OF step_enter [OF e2]] s3(1) s4(1) s5(1) by (meson rtranclp_trans)
  moreover have "virq_is_pending (vdescs s5 b)" using s5(2) slots_okD(5) [OF vq_okD(2)] by (fastforce simp: jammed_def)
  ultimately show ?thesis using jammed_steps [OF _ s5(2)] jammed_enter jammed_lrs unfolding s0_def by (intro exI [of _ s5]) blast
qed

section \<open>A small machine\<close>

definition small_virt :: virt where
  "small_virt = \<lparr>vdescs = (\<lambda>_. zero_vdesc), vlists = \<lparr>nxt = (\<lambda>_. 0), pre = (\<lambda>_. 0)\<rparr>,
     vstructs = (\<lambda>_. \<lparr>active_count = 0, pending_hirq = 0, pending_virq = 0, irq_bitmap = [0]\<rparr>),
     vcpu_tab = (\<lambda>_. \<lparr>vcpu_id = 0, vcpu_vm = 0, vcpu_affinity = 0\<rparr>),
     vm_tab = (\<lambda>_. \<lparr>vmid = 0, vcpu_nr = 1, vm_state = VM_STAT_ONLINE, vm_flags = 0, vcpus = [0], vspi_nr = 0, vspi_map = [], virq_same_page = False,
        virq_chip = Some \<lparr>nr_lrs = 2, vc_flags = VIRQCHIP_F_HW_VIRT\<rparr>\<rparr>),
     vms = [Some 0], current_vcpus = (\<lambda>_. Some 0), gich = (\<lambda>_ _. zero_lr),
     hirqs = small_irqs, kicks = []\<rparr>"

lemma small_virt_ok:
  "map_option nr_lrs (hw_chip 0 small_virt) = Some 2" "\<forall>i<2. gich small_virt 0 i = zero_lr" "idle_descs {} small_virt"
  "vm_state (the_vm 0 small_virt) = VM_STAT_ONLINE" "current_vcpus small_virt 0 \<noteq> None"
  by (simp_all add: small_virt_def hw_chip_def the_vm_def VIRQCHIP_F_HW_VIRT_def idle_descs_def)

theorem virq_well_formed_witness:
  "\<exists>xs ys s1 s2. vq_ok 2 0 0 (local_descs 0 \<union> {}) xs ys (guest_run 0 (\<lambda>_. 2) (vcpu_virq_struct_reset 0 small_virt)) \<and>
    virqchip_enter_to_guest 0 0 (guest_run 0 (\<lambda>_. 2) (vcpu_virq_struct_reset 0 small_virt)) = Some (None, s1) \<and>
    virqchip_exit_from_guest 0 0 (guest_run 0 (\<lambda>_. 2) (vcpu_virq_struct_reset 0 small_virt)) = Some s2"
  by (rule virq_well_formed [OF small_virt_ok(1) _ small_virt_ok(2,3) r_into_rtranclp [of "vq_step 0 0 (local_descs 0 \<union> {})", OF step_guest]]) simp

lemma small_reset: "vq_ok 2 0 0 (local_descs 0 \<union> {}) [] [] (vcpu_virq_struct_reset 0 small_virt)" "same_config small_virt (vcpu_virq_struct_reset 0 small_virt)"
  using reset_ok [OF small_virt_ok(1) _ small_virt_ok(2,3)] by simp_all


theorem virq_jam_witness:
  "\<exists>st'. (vq_step 0 0 (local_descs 0 \<union> {}))\<^sup>*\<^sup>* (vcpu_virq_struct_reset 0 small_virt) st' \<and> virq_is_pending (vdescs st' (local_desc 0 30)) \<and>
    (\<forall>st''. (vq_step 0 0 (local_descs 0 \<union> {}))\<^sup>*\<^sup>* st' st'' \<longrightarrow> virqchip_enter_to_guest 0 0 st'' = Some (None, st'') \<and> (\<forall>i<2. gich st'' 0 i = zero_lr))"
  by (rule virq_jam [OF small_virt_ok(1) _ small_virt_ok(2-5), where ps = "[local_desc 0 27, local_desc 0 2]"]) (simp_all add: local_descs_def)

end
