(* ===== verification/Vgicv2.thy ===== *)
theory Vgicv2
  imports Virq_Inv
begin

text \<open>
  The emulated GICv2: the registers of the distributor and of the CPU interface in \<^verbatim>\<open>os/virt/virq_chips/vgicv2.c\<close>, and its state at a
  switch of the task. A read gives the value that is stored for the guest, or \<open>None\<close> when no case of the switch matches and nothing is
  stored; around it, \<open>None\<close> is a fault. \<open>cpus\<close> is \<^verbatim>\<open>CONFIG_NR_CPUS\<close>, and \<open>cpu\<close> is the physical CPU.
\<close>

section \<open>Registers\<close>

definition GICD_CTLR :: u64 where "GICD_CTLR = 0x0"
definition GICD_TYPER :: u64 where "GICD_TYPER = 0x4"
definition GICD_IGROUPR :: u64 where "GICD_IGROUPR = 0x80"
definition GICD_IGROUPRN :: u64 where "GICD_IGROUPRN = 0xfc"
definition GICD_ISENABLER :: u64 where "GICD_ISENABLER = 0x100"
definition GICD_ISENABLERN :: u64 where "GICD_ISENABLERN = 0x17c"
definition GICD_ICENABLER :: u64 where "GICD_ICENABLER = 0x180"
definition GICD_ICENABLERN :: u64 where "GICD_ICENABLERN = 0x1fc"
definition GICD_ISPENDR :: u64 where "GICD_ISPENDR = 0x200"
definition GICD_ISPENDRN :: u64 where "GICD_ISPENDRN = 0x27c"
definition GICD_ICPENDR :: u64 where "GICD_ICPENDR = 0x280"
definition GICD_ICPENDRN :: u64 where "GICD_ICPENDRN = 0x2fc"
definition GICD_ISACTIVER :: u64 where "GICD_ISACTIVER = 0x300"
definition GICD_ISACTIVERN :: u64 where "GICD_ISACTIVERN = 0x37c"
definition GICD_ICACTIVER :: u64 where "GICD_ICACTIVER = 0x380"
definition GICD_ICACTIVERN :: u64 where "GICD_ICACTIVERN = 0x3fc"
definition GICD_IPRIORITYR :: u64 where "GICD_IPRIORITYR = 0x400"
definition GICD_IPRIORITYRN :: u64 where "GICD_IPRIORITYRN = 0x7f8"
definition GICD_ITARGETSR :: u64 where "GICD_ITARGETSR = 0x800"
definition GICD_ITARGETSR7 :: u64 where "GICD_ITARGETSR7 = 0x81c"
definition GICD_ITARGETSR8 :: u64 where "GICD_ITARGETSR8 = 0x820"
definition GICD_ITARGETSRN :: u64 where "GICD_ITARGETSRN = 0xbf8"
definition GICD_ICFGR :: u64 where "GICD_ICFGR = 0xc00"
definition GICD_ICFGRN :: u64 where "GICD_ICFGRN = 0xcfc"
definition GICD_SGIR :: u64 where "GICD_SGIR = 0xf00"
definition GICD_ICPIDR2 :: u64 where "GICD_ICPIDR2 = 0xfe8"
definition GICC_CTLR :: u64 where "GICC_CTLR = 0x0"
definition GICC_PMR :: u64 where "GICC_PMR = 0x4"
definition GICC_BPR :: u64 where "GICC_BPR = 0x8"
definition GICC_IAR :: u64 where "GICC_IAR = 0xc"
definition GICC_EOIR :: u64 where "GICC_EOIR = 0x10"
definition GICC_RPR :: u64 where "GICC_RPR = 0x14"
definition GICC_HPPIR :: u64 where "GICC_HPPIR = 0x18"
definition GICC_IIDR :: u64 where "GICC_IIDR = 0xfc"
definition GICC_DIR :: u64 where "GICC_DIR = 0x1000"
definition VGICV2_GICC_GVM_BASE :: u64 where "VGICV2_GICC_GVM_BASE = 0x2c000000"

lemmas gic_regs = GICD_CTLR_def GICD_TYPER_def GICD_IGROUPR_def GICD_IGROUPRN_def GICD_ISENABLER_def GICD_ISENABLERN_def GICD_ICENABLER_def GICD_ICENABLERN_def GICD_ISPENDR_def GICD_ISPENDRN_def GICD_ICPENDR_def GICD_ICPENDRN_def GICD_ISACTIVER_def GICD_ISACTIVERN_def GICD_ICACTIVER_def GICD_ICACTIVERN_def GICD_IPRIORITYR_def GICD_IPRIORITYRN_def GICD_ITARGETSR_def GICD_ITARGETSR7_def GICD_ITARGETSR8_def GICD_ITARGETSRN_def GICD_ICFGR_def GICD_ICFGRN_def GICD_SGIR_def GICD_ICPIDR2_def GICC_CTLR_def GICC_PMR_def GICC_BPR_def GICC_IAR_def GICC_EOIR_def GICC_RPR_def GICC_HPPIR_def GICC_IIDR_def GICC_DIR_def

record vgicv2_dev =
  gicd_ctlr :: u32
  gicd_typer :: u32
  gicd_base :: u64

record vgicc =
  gicc_ctlr :: u32
  gicc_pmr :: u32
  gicc_bpr :: u32

datatype sgi_mode = SGI_TO_LIST | SGI_TO_OTHERS | SGI_TO_SELF

definition in_regs :: "u64 \<Rightarrow> u64 \<Rightarrow> u64 \<Rightarrow> bool" where
  "in_regs a b off \<longleftrightarrow> a \<le> off \<and> off \<le> b"

section \<open>Reading the distributor\<close>

text \<open>A register that packs \<open>n\<close> fields of \<open>w\<close> bits, one for each interrupt from \<open>irq\<close> on.\<close>

definition pack_fields :: "nat \<Rightarrow> nat \<Rightarrow> (u32 \<Rightarrow> u32) \<Rightarrow> u32 \<Rightarrow> u32" where
  "pack_fields n w g irq = fold (\<lambda>i val. val OR push_bit (w * i) (g (irq + word_of_nat i))) [0..<n] 0"

definition vgicv2_get_virq_type :: "nat \<Rightarrow> u64 \<Rightarrow> virt \<Rightarrow> u32" where
  "vgicv2_get_virq_type v off st = pack_fields 16 2 (\<lambda>irq. virq_get_type v irq st) (16 * ucast ((off - GICD_ICFGR) div 4))"

fun set_virq_types :: "nat \<Rightarrow> nat \<Rightarrow> nat \<Rightarrow> u32 \<Rightarrow> u32 \<Rightarrow> virt \<Rightarrow> virt option" where
  "set_virq_types cpu v 0 irq val st = Some st"
| "set_virq_types cpu v (Suc n) irq val st =
    (case virq_set_type cpu v irq (uint (val AND 3)) st of
       None \<Rightarrow> None
     | Some (_, st) \<Rightarrow> set_virq_types cpu v n (irq + 1) (drop_bit 2 val) st)"

definition vgicv2_set_virq_type :: "nat \<Rightarrow> nat \<Rightarrow> u64 \<Rightarrow> u32 \<Rightarrow> virt \<Rightarrow> virt option" where
  "vgicv2_set_virq_type cpu v off val st = set_virq_types cpu v 16 (16 * ucast ((off - GICD_ICFGR) div 4)) val st"

text \<open>
  \<^verbatim>\<open>vgicv2_get_virq_affinity\<close>: the shift by the number of the virtual CPU is undefined in C from 32 on, as for the local interrupts,
  whose number is \<^verbatim>\<open>0xff\<close>; the read is then a fault.
\<close>

definition vgicv2_get_virq_affinity :: "nat \<Rightarrow> u64 \<Rightarrow> virt \<Rightarrow> u32 option" where
  "vgicv2_get_virq_affinity v off st =
    (let irq = 4 * ucast ((off - GICD_ITARGETSR) div 4) in
     if \<exists>i\<in>set [0..<4]. virq_get_affinity v (irq + word_of_nat i) st \<ge> 32 then None
     else Some (pack_fields 4 8 (\<lambda>irq. push_bit (unat (virq_get_affinity v irq st)) 1) irq))"

definition vgicv2_get_virq_pr :: "nat \<Rightarrow> u64 \<Rightarrow> virt \<Rightarrow> u32" where
  "vgicv2_get_virq_pr v off st = pack_fields 4 8 (\<lambda>irq. virq_get_pr v irq st) (4 * ucast ((off - GICD_IPRIORITYR) div 4))"

definition vgicv2_get_virq_state :: "nat \<Rightarrow> u64 \<Rightarrow> u64 \<Rightarrow> virt \<Rightarrow> u32" where
  "vgicv2_get_virq_state v off reg st = pack_fields 32 1 (\<lambda>irq. virq_get_state v irq st) (32 * ucast ((off - reg) div 4))"

definition vgicv2_get_virq_mask :: "nat \<Rightarrow> u64 \<Rightarrow> virt \<Rightarrow> u32" where
  "vgicv2_get_virq_mask v off st = vgicv2_get_virq_state v off GICD_ICENABLER st"

definition vgicv2_get_virq_unmask :: "nat \<Rightarrow> u64 \<Rightarrow> virt \<Rightarrow> u32" where
  "vgicv2_get_virq_unmask v off st = vgicv2_get_virq_state v off GICD_ISENABLER st"

definition vgicv2_read :: "nat \<Rightarrow> vgicv2_dev \<Rightarrow> u64 \<Rightarrow> virt \<Rightarrow> u32 option option" where
  "vgicv2_read v gic off st =
    (if off = GICD_CTLR then Some (Some (if gicd_ctlr gic \<noteq> 0 then 1 else 0))
     else if off = GICD_TYPER then Some (Some (gicd_typer gic))
     else if in_regs GICD_IGROUPR GICD_IGROUPRN off then Some (Some 0xffffffff)
     else if in_regs GICD_ISENABLER GICD_ISENABLERN off then Some (Some (vgicv2_get_virq_unmask v off st))
     else if in_regs GICD_ICENABLER GICD_ICENABLERN off then Some (Some (vgicv2_get_virq_mask v off st))
     else if in_regs GICD_ISPENDR GICD_ISPENDRN off \<or> in_regs GICD_ICPENDR GICD_ICPENDRN off \<or>
             in_regs GICD_ISACTIVER GICD_ISACTIVERN off \<or> in_regs GICD_ICACTIVER GICD_ICACTIVERN off then Some (Some 0)
     else if in_regs GICD_IPRIORITYR GICD_IPRIORITYRN off then Some (Some (vgicv2_get_virq_pr v off st))
     else if in_regs GICD_ITARGETSR GICD_ITARGETSR7 off
     then let tmp = push_bit (unat (vcpu_id (vcpu_tab st v))) 1
          in Some (Some (tmp OR push_bit 8 tmp OR push_bit 16 tmp OR push_bit 24 tmp))
     else if in_regs GICD_ITARGETSR8 GICD_ITARGETSRN off then map_option Some (vgicv2_get_virq_affinity v off st)
     else if in_regs GICD_ICFGR GICD_ICFGRN off then Some (Some (vgicv2_get_virq_type v off st))
     else if off = GICD_ICPIDR2 then Some (Some 0x20)
     else Some None)"

section \<open>Software-generated interrupts\<close>

text \<open>The set of the targets, a \<^verbatim>\<open>cpumask_t\<close>; a number beyond its words is a write out of bounds.\<close>

fun cpumask_set_cpus :: "nat list \<Rightarrow> bitmap \<Rightarrow> bitmap option" where
  "cpumask_set_cpus [] m = Some m"
| "cpumask_set_cpus (b # bs) m = (if b \<ge> 64 * length m then None else cpumask_set_cpus bs (bm_set_bit b m))"

definition sgi_mode_of :: "u32 \<Rightarrow> sgi_mode option" where
  "sgi_mode_of sgi_value =
    (let mode = drop_bit 24 sgi_value AND 3 in
     if mode = 3 then None else Some (if mode = 0 then SGI_TO_LIST else if mode = 1 then SGI_TO_OTHERS else SGI_TO_SELF))"

definition sgi_targets :: "nat \<Rightarrow> nat \<Rightarrow> nat \<Rightarrow> sgi_mode \<Rightarrow> u32 \<Rightarrow> virt \<Rightarrow> bitmap option" where
  "sgi_targets cpus cpu v mode sgi_value st =
    (let empty = replicate ((cpus + 63) div 64) 0 in
     case mode of
       SGI_TO_LIST \<Rightarrow> cpumask_set_cpus (for_each_set_bit [ucast (drop_bit 16 sgi_value) AND 0xff] 8) empty
     | SGI_TO_OTHERS \<Rightarrow> cpumask_set_cpus (filter (\<lambda>b. b \<noteq> unat (vcpu_id (vcpu_tab st v))) [0..<unat (vcpu_nr (the_vm v st))]) empty
     | SGI_TO_SELF \<Rightarrow> cpumask_set_cpus [cpu] empty)"

fun send_sgis :: "nat \<Rightarrow> nat \<Rightarrow> u32 \<Rightarrow> nat list \<Rightarrow> virt \<Rightarrow> virt option" where
  "send_sgis cpu m sgi [] st = Some st"
| "send_sgis cpu m sgi (b # bs) st =
    (case get_vcpu_in_vm m (word_of_nat b) st of
       None \<Rightarrow> None
     | Some target \<Rightarrow> (case send_virq_to_vcpu cpu target sgi st of None \<Rightarrow> None | Some (_, st) \<Rightarrow> send_sgis cpu m sgi bs st))"

definition vgicv2_send_sgi :: "nat \<Rightarrow> nat \<Rightarrow> nat \<Rightarrow> u32 \<Rightarrow> virt \<Rightarrow> virt option" where
  "vgicv2_send_sgi cpus cpu v sgi_value st =
    (case sgi_mode_of sgi_value of
       None \<Rightarrow> Some st
     | Some mode \<Rightarrow>
         (case sgi_targets cpus cpu v mode sgi_value st of
            None \<Rightarrow> None
          | Some m \<Rightarrow> send_sgis cpu (vcpu_vm (vcpu_tab st v)) (sgi_value AND 0xf) (for_each_set_bit m cpus) st))"

section \<open>Writing the distributor\<close>

fun on_virqs :: "(u32 \<Rightarrow> virt \<Rightarrow> (int \<times> virt) option) \<Rightarrow> u32 \<Rightarrow> nat list \<Rightarrow> virt \<Rightarrow> virt option" where
  "on_virqs f y [] st = Some st"
| "on_virqs f y (b # bs) st = (case f (y + word_of_nat b) st of None \<Rightarrow> None | Some (_, st) \<Rightarrow> on_virqs f y bs st)"

definition set_priorities :: "nat \<Rightarrow> u32 \<Rightarrow> u32 \<Rightarrow> virt \<Rightarrow> virt" where
  "set_priorities v x t st =
    (let y = x * 4 - 1; set1 = (\<lambda>i m k st. snd (virq_set_priority v (y + i) (uint (drop_bit k (t AND m))) st))
     in set1 4 0xff000000 24 (set1 3 0x00ff0000 16 (set1 2 0x0000ff00 8 (set1 1 0x000000ff 0 st))))"

definition vgicv2_write :: "nat \<Rightarrow> nat \<Rightarrow> nat \<Rightarrow> vgicv2_dev \<Rightarrow> u64 \<Rightarrow> u64 \<Rightarrow> virt \<Rightarrow> (vgicv2_dev \<times> virt) option" where
  "vgicv2_write cpus cpu v gic off val st =
    (let value32 = ucast val :: u32 in
     if off = GICD_CTLR then Some (gic\<lparr>gicd_ctlr := value32\<rparr>, st)
     else if in_regs GICD_ISENABLER GICD_ISENABLERN off
     then map_option (Pair gic) (on_virqs (virq_enable cpu v) (32 * ucast ((off - GICD_ISENABLER) div 4)) (for_each_set_bit [val] 32) st)
     else if in_regs GICD_ICENABLER GICD_ICENABLERN off
     then map_option (Pair gic) (on_virqs (virq_disable cpu v) (32 * ucast ((off - GICD_ICENABLER) div 4)) (for_each_set_bit [val] 32) st)
     else if in_regs GICD_IPRIORITYR GICD_IPRIORITYRN off
     then Some (gic, set_priorities v (ucast ((off - GICD_IPRIORITYR) div 4)) value32 st)
     else if in_regs GICD_ICFGR GICD_ICFGRN off then map_option (Pair gic) (vgicv2_set_virq_type cpu v off value32 st)
     else if off = GICD_SGIR then map_option (Pair gic) (vgicv2_send_sgi cpus cpu v value32 st)
     else Some (gic, st))"

text \<open>The handlers of a trapped access: the virtual CPU is the current one. The value of a read that matches no register stays.\<close>

definition vgicv2_mmio_read :: "nat \<Rightarrow> vgicv2_dev \<Rightarrow> u64 \<Rightarrow> virt \<Rightarrow> u32 option option" where
  "vgicv2_mmio_read cpu gic address st =
    (case current_vcpus st cpu of None \<Rightarrow> None | Some v \<Rightarrow> vgicv2_read v gic (address - gicd_base gic) st)"

definition vgicv2_mmio_write :: "nat \<Rightarrow> nat \<Rightarrow> vgicv2_dev \<Rightarrow> u64 \<Rightarrow> u64 \<Rightarrow> virt \<Rightarrow> (vgicv2_dev \<times> virt) option" where
  "vgicv2_mmio_write cpus cpu gic address val st =
    (case current_vcpus st cpu of None \<Rightarrow> None | Some v \<Rightarrow> vgicv2_write cpus cpu v gic (address - gicd_base gic) val st)"

section \<open>The CPU interface, when the hardware has none\<close>

definition vgicc_read :: "nat \<Rightarrow> vgicc \<Rightarrow> u64 \<Rightarrow> virt \<Rightarrow> (u64 option \<times> virt) option" where
  "vgicc_read cpu c address st =
    (let off = address - VGICV2_GICC_GVM_BASE in
     if off = GICC_CTLR then Some (Some (ucast (gicc_ctlr c)), st)
     else if off = GICC_PMR then Some (Some (ucast (gicc_pmr c)), st)
     else if off = GICC_BPR then Some (Some (ucast (gicc_bpr c)), st)
     else if off = GICC_IAR
     then case current_vcpus st cpu of None \<Rightarrow> None | Some v \<Rightarrow> let (irq, st) = get_pending_virq v st in Some (Some (ucast irq), st)
     else if off = GICC_RPR \<or> off = GICC_HPPIR then Some (Some 0xa0, st)
     else if off = GICC_IIDR then Some (Some 0x2043b, st)
     else Some (None, st))"

definition vgicc_write :: "nat \<Rightarrow> vgicc \<Rightarrow> u64 \<Rightarrow> u64 \<Rightarrow> virt \<Rightarrow> (vgicc \<times> virt) option" where
  "vgicc_write cpu c address val st =
    (let off = address - VGICV2_GICC_GVM_BASE in
     if off = GICC_CTLR then Some (c\<lparr>gicc_ctlr := ucast val\<rparr>, st)
     else if off = GICC_PMR then Some (c\<lparr>gicc_pmr := ucast val\<rparr>, st)
     else if off = GICC_BPR then Some (c\<lparr>gicc_bpr := ucast val\<rparr>, st)
     else if off = GICC_EOIR
     then case current_vcpus st cpu of None \<Rightarrow> None | Some v \<Rightarrow> Some (c, clear_pending_virq cpu v (ucast val) st)
     else Some (c, st))"

section \<open>Set-up and switch of the task\<close>

definition gicd_typer_of :: "u32 \<Rightarrow> u32 \<Rightarrow> u32" where
  "gicd_typer_of nvcpu nspi = push_bit 5 nvcpu OR (drop_bit 5 nspi - 1)"

definition gicv2_nr_lrs_of :: "u32 \<Rightarrow> nat" where
  "gicv2_nr_lrs_of vtr = unat (vtr AND 0x3f) + 1"

definition vgicv2_init_virqchip :: "nat \<Rightarrow> u64 \<Rightarrow> virq_chip" where
  "vgicv2_init_virqchip nr flags = \<lparr>nr_lrs = (if flags AND VIRQCHIP_F_HW_VIRT \<noteq> 0 then nr else 0), vc_flags = flags\<rparr>"

record gich_regs =
  gich_hcr :: u32
  gich_vmcr :: u32
  gich_apr :: u32
  gich_lrs :: "nat \<Rightarrow> gich_lr"

record gicv2_context =
  hcr :: u32
  vmcr :: u32
  apr :: u32
  lr :: "gich_lr list"

definition gicv2_state_restore :: "nat \<Rightarrow> gicv2_context \<Rightarrow> gich_regs \<Rightarrow> gich_regs" where
  "gicv2_state_restore nr c r =
    r\<lparr>gich_lrs := (\<lambda>i. if i < nr then lr c ! i else gich_lrs r i), gich_apr := apr c, gich_vmcr := vmcr c, gich_hcr := hcr c\<rparr>"

definition gicv2_state_init :: "gicv2_context \<Rightarrow> gicv2_context" where
  "gicv2_state_init c = \<lparr>hcr = 1, vmcr = 0, apr = 0, lr = replicate 64 zero_lr\<rparr>"

definition gicv2_state_save :: "nat \<Rightarrow> gicv2_context \<Rightarrow> gich_regs \<Rightarrow> gicv2_context \<times> gich_regs" where
  "gicv2_state_save nr c r =
    (c\<lparr>lr := map (gich_lrs r) [0..<nr] @ drop nr (lr c), vmcr := gich_vmcr r, apr := gich_apr r, hcr := gich_hcr r\<rparr>, r\<lparr>gich_hcr := 0\<rparr>)"

definition gicv2_state_resume :: "gicv2_context \<Rightarrow> gicv2_context" where
  "gicv2_state_resume c = gicv2_state_init c"

section \<open>Properties\<close>

text \<open>The registers that a switch saves are those that the switch back restores.\<close>

lemma gicv2_save_restore:
  assumes "nr \<le> length (lr c)" "gicv2_state_save nr c r = (c', r1)"
  shows "gich_hcr r1 = 0" "let r' = gicv2_state_restore nr c' r2 in gich_hcr r' = gich_hcr r \<and> gich_vmcr r' = gich_vmcr r \<and> gich_apr r' = gich_apr r \<and>
    (\<forall>i<nr. gich_lrs r' i = gich_lrs r i)"
  using assms by (auto simp: gicv2_state_save_def gicv2_state_restore_def Let_def nth_append)

lemma cpumask_set_cpus_ok:
  "\<forall>b\<in>set bs. b < 64 * length m \<Longrightarrow> \<exists>m'. cpumask_set_cpus bs m = Some m' \<and> length m' = length m \<and> (\<forall>i. bm_bit m' i \<longleftrightarrow> i \<in> set bs \<or> bm_bit m i)"
proof (induction bs arbitrary: m)
  case (Cons b bs)
  have "\<forall>i\<in>set bs. i < 64 * length (bm_set_bit b m)" using Cons.prems by simp
  from Cons.IH [OF this] obtain m' where m': "cpumask_set_cpus bs (bm_set_bit b m) = Some m'" "length m' = length (bm_set_bit b m)"
    "\<forall>i. bm_bit m' i \<longleftrightarrow> i \<in> set bs \<or> bm_bit (bm_set_bit b m) i" by blast
  then show ?case using Cons.prems by (intro exI [of _ m']) (auto simp: bm_bit_set_bit)
qed simp

text \<open>The virtual CPUs that a write to the register of the software-generated interrupts names.\<close>

definition sgi_list :: "u64 \<Rightarrow> nat list" where
  "sgi_list val = filter (\<lambda>b. bit val (16 + b)) [0..<8]"

lemma sgi_targets_list:
  assumes "8 \<le> cpus"
  shows "\<exists>m. sgi_targets cpus cpu v SGI_TO_LIST (ucast val) st = Some m \<and> for_each_set_bit m cpus = sgi_list val"
proof -
  have bit: "bm_bit [ucast (drop_bit 16 (ucast val :: u32)) AND 0xff :: u64] b \<longleftrightarrow> bit val (16 + b)" if "b < 8" for b
  proof -
    have m: "(0xff :: u64) = mask 8" by (simp add: mask_eq_exp_minus_1)
    show ?thesis unfolding m using that by (simp add: bm_bit_def bit_simps)
  qed
  have l: "for_each_set_bit [ucast (drop_bit 16 (ucast val :: u32)) AND 0xff :: u64] 8 = sgi_list val"
    unfolding for_each_set_bit_eq sgi_list_def by (rule filter_cong) (auto simp: bit)
  let ?e = "replicate ((cpus + 63) div 64) 0 :: bitmap"
  have w: "1 \<le> (cpus + 63) div 64" using assms by simp
  then have z: "\<not> bm_bit ?e i" if "i < 64" for i using that by (simp add: bm_bit_def)
  have z': "\<not> bm_bit ?e i" if "i < cpus" for i
  proof -
    have "i div 64 < (cpus + 63) div 64" using that by (simp add: div_less_iff_less_mult)
    then show ?thesis by (simp add: bm_bit_def)
  qed
  have "\<forall>b\<in>set (sgi_list val). b < 64 * length ?e" using w by (auto simp: sgi_list_def)
  then obtain m where m: "cpumask_set_cpus (sgi_list val) ?e = Some m" "\<forall>i. bm_bit m i \<longleftrightarrow> i \<in> set (sgi_list val) \<or> bm_bit ?e i"
    using cpumask_set_cpus_ok by blast
  have "for_each_set_bit m cpus = filter (\<lambda>b. b \<in> set (sgi_list val)) [0..<cpus]"
    unfolding for_each_set_bit_eq using m(2) z' by (intro filter_cong) auto
  also have "[0..<cpus] = [0..<8] @ [8..<cpus]" using assms upt_add_eq_append [of 0 8 "cpus - 8"] by simp
  also have "filter (\<lambda>b. b \<in> set (sgi_list val)) ([0..<8] @ [8..<cpus]) = filter (\<lambda>b. bit val (16 + b)) [0..<8]"
  proof -
    have "filter (\<lambda>b. b \<in> set (sgi_list val)) [8..<cpus] = []" by (auto simp: sgi_list_def filter_empty_conv)
    moreover have "filter (\<lambda>b. b \<in> set (sgi_list val)) [0..<8] = filter (\<lambda>b. bit val (16 + b)) [0..<8]" by (rule filter_cong) (auto simp: sgi_list_def)
    ultimately show ?thesis by simp
  qed
  finally show ?thesis using m(1) l by (auto simp: sgi_targets_def Let_def sgi_list_def)
qed

lemma send_virq0_pending:
  assumes "send_virq0 c v p st = Some st'"
  shows "same_config st st'" "virq_is_pending (vdescs st' p)" "virq_is_pending (vdescs st q) \<Longrightarrow> virq_is_pending (vdescs st' q)"
proof -
  have "same_config st st' \<and> virq_is_pending (vdescs st' p) \<and> (virq_is_pending (vdescs st q) \<longrightarrow> virq_is_pending (vdescs st' q))"
    using assms by (auto simp: send_virq0_def upd_defs Let_def same_config_def split: if_splits option.splits)
  then show "same_config st st'" "virq_is_pending (vdescs st' p)" "virq_is_pending (vdescs st q) \<Longrightarrow> virq_is_pending (vdescs st' q)" by blast+
qed

text \<open>Sending to the virtual CPUs of a list: it faults at the first one that does not exist.\<close>

definition online :: "nat \<Rightarrow> virt \<Rightarrow> bool" where
  "online m st \<longleftrightarrow> vm_state (vm_tab st m) = VM_STAT_ONLINE \<and> length (vcpus (vm_tab st m)) = unat (vcpu_nr (vm_tab st m)) \<and>
     (\<forall>w\<in>set (vcpus (vm_tab st m)). vcpu_vm (vcpu_tab st w) = m)"

lemma send_sgis_ok:
  assumes "online m st" "current_vcpus st cpu \<noteq> None" "sgi < 16" "\<forall>b\<in>set bs. b < unat (vcpu_nr (vm_tab st m))"
  shows "\<exists>st'. send_sgis cpu m sgi bs st = Some st' \<and> same_config st st' \<and>
    (\<forall>b\<in>set bs. virq_is_pending (vdescs st' (local_desc (vcpus (vm_tab st m) ! b) (unat sgi)))) \<and> (\<forall>q. virq_is_pending (vdescs st q) \<longrightarrow> virq_is_pending (vdescs st' q))"
  using assms
proof (induction bs arbitrary: st)
  case Nil
  then show ?case by simp
next
  case (Cons b bs)
  let ?w = "vcpus (vm_tab st m) ! b" and ?p = "local_desc (vcpus (vm_tab st m) ! b) (unat sgi)"
  have b: "b < unat (vcpu_nr (vm_tab st m))" using Cons.prems(4) by simp
  have b32: "unat (word_of_nat b :: u32) = b" using b unsigned_less [of "vcpu_nr (vm_tab st m)", where 'a = nat] by (simp add: unat_of_nat)
  have lt: "word_of_nat b < vcpu_nr (vm_tab st m)" using b b32 by (simp add: word_less_nat_alt)
  have g: "get_vcpu_in_vm m (word_of_nat b) st = Some ?w" using lt b32 by (simp add: get_vcpu_in_vm_def)
  have w: "vcpu_vm (vcpu_tab st ?w) = m" using Cons.prems(1) b by (simp add: online_def)
  have d: "get_virq_desc ?w sgi st = Some ?p"
    using Cons.prems(3) by (simp add: get_virq_desc_def VM_LOCAL_VIRQ_NR_def word_less_nat_alt)
  have on: "vm_state (the_vm ?w st) = VM_STAT_ONLINE" using Cons.prems(1) w by (simp add: the_vm_def online_def)
  obtain s where s: "send_virq0 cpu ?w ?p st = Some s" "send_virq cpu ?w ?p st = Some (0, s\<lparr>kicks := kicks s @ [?w]\<rparr>)"
    by (rule send_virq_some [OF on Cons.prems(2)])
  let ?s = "s\<lparr>kicks := kicks s @ [?w]\<rparr>"
  note sp = send_virq0_pending [OF s(1)]
  have c: "same_config st ?s" using sp(1) by simp
  then have vt: "vm_tab ?s = vm_tab st" by (simp add: same_config_def)
  have "online m ?s" "current_vcpus ?s cpu \<noteq> None" using Cons.prems(1,2) c by (simp_all add: online_def same_config_def)
  from Cons.IH [OF this Cons.prems(3)] obtain st' where st': "send_sgis cpu m sgi bs ?s = Some st'" "same_config ?s st'"
    "\<forall>b\<in>set bs. virq_is_pending (vdescs st' (local_desc (vcpus (vm_tab st m) ! b) (unat sgi)))" "\<forall>q. virq_is_pending (vdescs ?s q) \<longrightarrow> virq_is_pending (vdescs st' q)"
    using Cons.prems(4) unfolding vt by auto
  have "send_sgis cpu m sgi (b # bs) st = Some st'" using g d s(2) st'(1) by (simp add: send_virq_to_vcpu_def)
  then show ?case using st'(3,4) sp(2,3) same_config_trans [OF c st'(2)] by (intro exI [of _ st']) auto
qed

lemma send_sgis_fault:
  assumes "b \<in> set bs" "unat (vcpu_nr (vm_tab st m)) \<le> b" "b < 2 ^ 32" shows "send_sgis cpu m sgi bs st = None"
  using assms
proof (induction bs arbitrary: st)
  case (Cons a bs)
  show ?case
  proof (cases "a = b")
    case True
    have "unat (word_of_nat b :: u32) = b" using Cons.prems(3) by (simp add: unat_of_nat)
    then have "vcpu_nr (vm_tab st m) \<le> word_of_nat b" using Cons.prems(2) by (simp add: word_le_nat_alt)
    then show ?thesis using True by (simp add: get_vcpu_in_vm_def)
  next
    case False
    have "vm_tab s = vm_tab st" if "send_virq_to_vcpu cpu w sgi st = Some (r, s)" for w r s
      using that send_virq0_pending(1) by (fastforce simp: send_virq_to_vcpu_def send_virq_def Let_def same_config_def split: option.splits if_splits)
    then show ?thesis using False Cons by (auto split: option.splits)
  qed
qed simp



end
