(* ===== verification/Vcpu.thy ===== *)
theory Vcpu
  imports Virq_Inv Task Vmm
begin

text \<open>
  The virtual machines: \<^verbatim>\<open>os/virt/vm.c\<close> and \<^verbatim>\<open>os/virt/vcpu.c\<close>: the choice of the CPUs of a machine, its number, and the power states of
  machines and of virtual CPUs. The state joins the virtual interrupts, the kernel and the tables of the machines;
  \<open>vtask\<close> is the task of a virtual CPU. The calls of the guest's system, of the modules and of the trap to the
  first machine are recorded.
\<close>

section \<open>Choice of the CPUs\<close>

record affinity_state =
  e_base :: nat
  f_base :: nat
  e_base_current :: nat
  f_base_current :: nat
  e_nr :: nat
  f_nr :: nat

fun aff_e :: "nat \<Rightarrow> nat \<Rightarrow> nat \<Rightarrow> nat \<Rightarrow> nat list \<times> nat" where
  "aff_e cpus base 0 cur = ([], cur)"
| "aff_e cpus base (Suc n) cur = (let (l, c) = aff_e cpus base n (if cur + 1 = cpus then base else cur + 1) in (cur # l, c))"

definition aff_wrap :: "nat \<Rightarrow> nat \<Rightarrow> nat \<Rightarrow> nat" where
  "aff_wrap eb fb c = (if c = eb then fb else c)"

fun aff_f :: "nat \<Rightarrow> nat \<Rightarrow> nat \<Rightarrow> nat \<Rightarrow> nat \<Rightarrow> nat \<Rightarrow> nat \<Rightarrow> nat list \<times> nat" where
  "aff_f eb fb fnr f i 0 cur = ([], cur)"
| "aff_f eb fb fnr f i (Suc n) cur =
    (let c = (if cur = 0 \<and> (f < fnr \<or> i = 0) then aff_wrap eb fb (cur + 1) else cur);
         (l, c') = aff_f eb fb fnr f (i + 1) n (aff_wrap eb fb (c + 1))
     in (c # l, c'))"

definition get_vcpu_affinity :: "nat \<Rightarrow> nat \<Rightarrow> affinity_state \<Rightarrow> nat list \<times> affinity_state" where
  "get_vcpu_affinity cpus nr s =
    (let e = min nr (e_nr s); f = nr - e;
         (le, ec) = aff_e cpus (e_base s) e (e_base_current s);
         (lf, fc) = aff_f (e_base s) (f_base s) (f_nr s) f 0 f (f_base_current s)
     in (le @ lf, s\<lparr>e_base_current := ec, f_base_current := fc\<rparr>))"

definition vcpu_affinity_init :: "nat \<Rightarrow> nat \<Rightarrow> affinity_state \<Rightarrow> affinity_state" where
  "vcpu_affinity_init cpus vm0_vcpus s =
    s\<lparr>e_base := vm0_vcpus, e_base_current := vm0_vcpus, e_nr := cpus - vm0_vcpus, f_base := 0, f_base_current := 0, f_nr := vm0_vcpus\<rparr>"

text \<open>
  \<^verbatim>\<open>vm_check_vcpu_affinity\<close>: the shift is of a signed 32-bit one, so that bit 31 extends its sign into the mask; beyond, it is
  undefined, a fault. \<open>cpus\<close> is \<^verbatim>\<open>VM_MAX_VCPU\<close>.
\<close>

definition aff_bit :: "nat \<Rightarrow> u64" where
  "aff_bit a = (if a = 31 then NOT (mask 31) else push_bit a 1)"

fun vm_check_vcpu_affinity :: "nat \<Rightarrow> nat list \<Rightarrow> u64 \<Rightarrow> int option" where
  "vm_check_vcpu_affinity cpus [] m = Some 0"
| "vm_check_vcpu_affinity cpus (a # as) m =
    (if a \<ge> cpus then Some (- EINVAL)
     else if a \<ge> 32 then None
     else if m AND aff_bit a \<noteq> 0 then Some (- EINVAL)
     else vm_check_vcpu_affinity cpus as (m OR aff_bit a))"

record vmtag =
  tag_nr_vcpu :: int
  tag_mem_base :: u64
  tag_mem_size :: u64
  tag_flags :: u64
  tag_affinity :: "nat list"

definition VM_FLAGS_64BIT :: u64 where "VM_FLAGS_64BIT = 1"
definition VM_FLAGS_NATIVE :: u64 where "VM_FLAGS_NATIVE = 2"
definition VM_FLAGS_DYNAMIC_AFF :: u64 where "VM_FLAGS_DYNAMIC_AFF = 4"

definition vmtag_check_and_config :: "nat \<Rightarrow> mm \<Rightarrow> vmtag \<Rightarrow> affinity_state \<Rightarrow> int \<times> vmtag \<times> affinity_state" where
  "vmtag_check_and_config cpus m tag s =
    (let sz = tag_mem_size tag;
         tag = (if tag_mem_base tag = 0 then tag\<lparr>tag_mem_base := GVM_NORMAL_MEM_START\<rparr> else tag)
     in if tag_mem_base tag < GVM_NORMAL_MEM_START \<or> tag_mem_base tag + sz \<ge> GVM_NORMAL_MEM_END \<or> \<not> has_enough_memory sz m \<or>
           tag_nr_vcpu tag > int cpus then (- EINVAL, tag, s)
        else if tag_flags tag AND VM_FLAGS_DYNAMIC_AFF \<noteq> 0
        then let (l, s) = get_vcpu_affinity cpus (nat (tag_nr_vcpu tag)) s in (0, tag\<lparr>tag_affinity := l @ replicate (8 - length l) 0\<rparr>, s)
        else (0, tag, s))"

text \<open>
  The array of the CPUs of the tag has eight entries, so \<open>cpus\<close> is at most eight. The number of virtual CPUs is signed; a negative one
  passes the test, and the loops over it do nothing.
\<close>

section \<open>The number of a machine\<close>

definition VMID_INVALID :: int where "VMID_INVALID = - 1"

text \<open>\<^verbatim>\<open>alloc_new_vmid\<close> with \<open>mx\<close> for \<^verbatim>\<open>CONFIG_MAX_VM\<close>.\<close>

definition alloc_new_vmid :: "nat \<Rightarrow> nat \<Rightarrow> bitmap \<Rightarrow> int \<times> bitmap" where
  "alloc_new_vmid mx total_vms bm =
    (let i = find_next_zero_bit_loop bm mx total_vms in if i \<ge> mx then (int i, bm) else (int i, bm_set_bit i bm))"

text \<open>
  The start of \<^verbatim>\<open>create_vm\<close>, up to \<^verbatim>\<open>__create_vm\<close>: the number, whether it was wanted, and the bitmap; \<open>None\<close> is the NULL result.
\<close>

definition create_vm_vmid :: "nat \<Rightarrow> nat \<Rightarrow> u32 \<Rightarrow> bitmap \<Rightarrow> (int \<times> bool \<times> bitmap) option" where
  "create_vm_vmid mx total_vms i bm =
    (if unat i \<ge> mx
     then let (j, bm) = alloc_new_vmid mx total_vms bm in if j = VMID_INVALID then None else Some (j, False, bm)
     else let (old, bm) = bm_test_and_set_bit (unat i) bm in if old then None else Some (int (unat i), True, bm))"

section \<open>Power states of virtual CPUs\<close>

text \<open>The calls of code outside of this theory: the system of the guest, the modules, the hooks, and the trap to the first machine with its reason.\<close>

datatype hyp_call = Os_power_on nat u64 | Modules_reset nat | Modules_suspend nat | Modules_resume nat | Hook_suspend_vm nat | Hook_resume_vm nat | Trap_nonblock u32

definition VMTRAP_REASON_REBOOT :: u32 where "VMTRAP_REASON_REBOOT = 3"
definition VMTRAP_REASON_SHUTDOWN :: u32 where "VMTRAP_REASON_SHUTDOWN = 4"
definition VMTRAP_REASON_VM_SUSPEND :: u32 where "VMTRAP_REASON_VM_SUSPEND = 5"
definition VMTRAP_REASON_VM_RESUMED :: u32 where "VMTRAP_REASON_VM_RESUMED = 6"

record hyp =
  hv :: virt
  hk :: kernel
  vtask :: "nat \<Rightarrow> nat"
  hyp_calls :: "hyp_call list"

definition note_call :: "hyp_call \<Rightarrow> hyp \<Rightarrow> hyp" where
  "note_call c h = h\<lparr>hyp_calls := hyp_calls h @ [c]\<rparr>"

definition vtask_stat :: "nat \<Rightarrow> hyp \<Rightarrow> u16" where
  "vtask_stat v h = t_stat (tasks (hk h) (vtask h v))"

definition on_kernel :: "(kernel \<Rightarrow> kernel option) \<Rightarrow> hyp \<Rightarrow> hyp option" where
  "on_kernel f h = map_option (\<lambda>k. h\<lparr>hk := k\<rparr>) (f (hk h))"

definition set_vcpu_stat :: "nat \<Rightarrow> u16 \<Rightarrow> hyp \<Rightarrow> hyp" where
  "set_vcpu_stat v s h = h\<lparr>hk := upd_task (vtask h v) (\<lambda>t. t\<lparr>t_stat := s\<rparr>) (hk h)\<rparr>"

definition set_vcpu_ready :: "nat \<Rightarrow> nat \<Rightarrow> hyp \<Rightarrow> hyp option" where
  "set_vcpu_ready cpu v h = (let h = set_vcpu_stat v TASK_STAT_RDY h in on_kernel (set_task_ready cpu (vtask h v)) h)"

definition set_vcpu_suspend :: "nat \<Rightarrow> nat \<Rightarrow> hyp \<Rightarrow> hyp option" where
  "set_vcpu_suspend cpu v h = (let h = set_vcpu_stat v TASK_STAT_SUSPEND h in on_kernel (set_task_sleep cpu (vtask h v)) h)"

definition set_vcpu_stop :: "nat \<Rightarrow> nat \<Rightarrow> hyp \<Rightarrow> hyp option" where
  "set_vcpu_stop cpu v h = (let h = set_vcpu_stat v TASK_STAT_STOPPED h in on_kernel (set_task_sleep cpu (vtask h v)) h)"

definition vcpu_online :: "nat \<Rightarrow> nat \<Rightarrow> hyp \<Rightarrow> hyp option" where
  "vcpu_online cpu v h = set_vcpu_ready cpu v h"

definition affinity_to_cpuid :: "u64 \<Rightarrow> u32" where
  "affinity_to_cpuid affinity = ucast (drop_bit 8 affinity AND 0xff) * 256 + ucast (affinity AND 0xff)"

text \<open>\<^verbatim>\<open>vcpu_power_on\<close>: the registers that the system of the guest sets are recorded as the entry point.\<close>

definition vcpu_power_on :: "nat \<Rightarrow> nat \<Rightarrow> u64 \<Rightarrow> u64 \<Rightarrow> hyp \<Rightarrow> (int \<times> hyp) option" where
  "vcpu_power_on cpu caller affinity entry h =
    (case get_vcpu_by_id (word_of_int (vmid (the_vm caller (hv h)))) (affinity_to_cpuid affinity) (hv h) of
       None \<Rightarrow> Some (- ENOENT, h)
     | Some v \<Rightarrow>
         if vtask_stat v h = TASK_STAT_STOPPED
         then map_option (Pair 0) (vcpu_online cpu v (note_call (Os_power_on v entry) h))
         else Some (- EINVAL, h))"

definition vcpu_can_idle :: "nat \<Rightarrow> hyp \<Rightarrow> bool" where
  "vcpu_can_idle v h \<longleftrightarrow> \<not> vcpu_has_irq v (hv h) \<and> vtask_stat v h = TASK_STAT_RUNNING"

text \<open>\<^verbatim>\<open>vcpu_idle\<close>: the test and its repetition under the lock are one step here; \<open>sch\<close> is the call of the scheduler.\<close>

definition vcpu_idle :: "(kernel \<Rightarrow> kernel option) \<Rightarrow> nat \<Rightarrow> nat \<Rightarrow> hyp \<Rightarrow> hyp option" where
  "vcpu_idle sch cpu v h =
    (if vcpu_can_idle v h then Option.bind (set_vcpu_suspend cpu v h) (on_kernel sch) else Some h)"

definition vcpu_suspend :: "(kernel \<Rightarrow> kernel option) \<Rightarrow> nat \<Rightarrow> nat \<Rightarrow> hyp \<Rightarrow> (int \<times> hyp) option" where
  "vcpu_suspend sch cpu v h = map_option (Pair 0) (vcpu_idle sch cpu v h)"

definition vcpu_off :: "(kernel \<Rightarrow> kernel option) \<Rightarrow> nat \<Rightarrow> nat \<Rightarrow> hyp \<Rightarrow> (int \<times> hyp) option" where
  "vcpu_off sch cpu v h = map_option (Pair 0) (Option.bind (set_vcpu_stop cpu v h) (on_kernel sch))"

definition kick_vcpu :: "nat \<Rightarrow> nat \<Rightarrow> hyp \<Rightarrow> hyp option" where
  "kick_vcpu cpu v h = (if \<not> task_is_ready (tasks (hk h) (vtask h v)) then set_vcpu_ready cpu v h else Some h)"

definition vcpu_reset :: "nat option \<Rightarrow> hyp \<Rightarrow> int \<times> hyp" where
  "vcpu_reset v h = (case v of None \<Rightarrow> (- EINVAL, h) | Some v \<Rightarrow> (0, note_call (Modules_reset v) (h\<lparr>hv := vcpu_virq_struct_reset v (hv h)\<rparr>)))"

text \<open>
  \<^verbatim>\<open>vcpu_power_off_call\<close> on its CPU; \<^verbatim>\<open>vcpu_power_off\<close> waits for it when it is another CPU, so that the call is its effect there.
\<close>

definition vcpu_power_off_call :: "nat \<Rightarrow> nat option \<Rightarrow> hyp \<Rightarrow> hyp option" where
  "vcpu_power_off_call cpu v h =
    (case v of
       None \<Rightarrow> Some h
     | Some v \<Rightarrow>
         if t_affinity (tasks (hk h) (vtask h v)) \<noteq> cpu then Some h
         else map_option (\<lambda>h. if current_vcpus (hv h) cpu = Some v then h\<lparr>hk := set_need_resched cpu (hk h)\<rparr> else h) (set_vcpu_stop cpu v h))"

definition vcpu_power_off :: "nat \<Rightarrow> nat \<Rightarrow> hyp \<Rightarrow> (int \<times> hyp) option" where
  "vcpu_power_off cpu v h =
    (let aff = t_affinity (tasks (hk h) (vtask h v)) in
     map_option (Pair 0) (if aff \<noteq> cpu then vcpu_power_off_call aff (Some v) h else set_vcpu_stop cpu v h))"

section \<open>Power states of machines\<close>

definition set_vm_state :: "nat \<Rightarrow> nat \<Rightarrow> hyp \<Rightarrow> hyp" where
  "set_vm_state m s h = h\<lparr>hv := upd_vm m (\<lambda>vm. vm\<lparr>vm_state := s\<rparr>) (hv h)\<rparr>"

definition on_preempt :: "(kernel \<Rightarrow> kernel) \<Rightarrow> hyp \<Rightarrow> hyp" where
  "on_preempt f h = h\<lparr>hk := f (hk h)\<rparr>"

text \<open>\<^verbatim>\<open>vm_power_up\<close>; \<open>init\<close> is \<^verbatim>\<open>vm_vcpus_init\<close>, which runs the modules and the system of the guest.\<close>

definition vm_power_up :: "(nat \<Rightarrow> hyp \<Rightarrow> hyp option) \<Rightarrow> u32 \<Rightarrow> hyp \<Rightarrow> (int \<times> hyp) option" where
  "vm_power_up init i h =
    (case get_vm_by_id i (hv h) of
       None \<Rightarrow> Some (- ENOENT, h)
     | Some m \<Rightarrow> map_option (\<lambda>h. (0, set_vm_state m VM_STAT_ONLINE h)) (init m h))"

fun vcpus_power_off :: "nat \<Rightarrow> nat list \<Rightarrow> hyp \<Rightarrow> hyp option" where
  "vcpus_power_off cpu [] h = Some h"
| "vcpus_power_off cpu (v # vs) h = (case vcpu_power_off cpu v h of None \<Rightarrow> None | Some (_, h) \<Rightarrow> vcpus_power_off cpu vs h)"

text \<open>The end of a power-off and of a reset: a machine that asked for it itself leaves the CPU. \<open>sch\<close> is the call of the scheduler.\<close>

definition vm_leave :: "u32 \<Rightarrow> (kernel \<Rightarrow> kernel option) \<Rightarrow> nat \<Rightarrow> bool \<Rightarrow> hyp \<Rightarrow> (int \<times> hyp) option" where
  "vm_leave reason sch cpu itself h =
    (if itself
     then map_option (Pair 0) (on_kernel (\<lambda>k. sch (preempt_enable cpu (set_need_resched cpu k))) (note_call (Trap_nonblock reason) h))
     else Some (0, on_preempt (preempt_enable cpu) h))"

definition vm_power_off0 :: "(kernel \<Rightarrow> kernel option) \<Rightarrow> nat \<Rightarrow> nat \<Rightarrow> bool \<Rightarrow> hyp \<Rightarrow> (int \<times> hyp) option" where
  "vm_power_off0 sch cpu m itself h =
    (if vm_is_hvm (vm_tab (hv h) m) then None
     else
       let h = set_vm_state m VM_STAT_OFFLINE (on_preempt (preempt_disable cpu) h)
       in Option.bind (vcpus_power_off cpu (vcpus (vm_tab (hv h) m)) h) (vm_leave VMTRAP_REASON_SHUTDOWN sch cpu itself))"

text \<open>\<^verbatim>\<open>vm_power_off\<close> of the first machine shuts the system down and does not return.\<close>

definition vm_power_off :: "(kernel \<Rightarrow> kernel option) \<Rightarrow> nat \<Rightarrow> u32 \<Rightarrow> bool \<Rightarrow> hyp \<Rightarrow> (int \<times> hyp) option" where
  "vm_power_off sch cpu i itself h =
    (if i = 0 then None
     else case get_vm_by_id i (hv h) of None \<Rightarrow> Some (- EINVAL, h) | Some m \<Rightarrow> vm_power_off0 sch cpu m itself h)"

fun vcpus_power_off_reset :: "nat \<Rightarrow> nat list \<Rightarrow> hyp \<Rightarrow> hyp option" where
  "vcpus_power_off_reset cpu [] h = Some h"
| "vcpus_power_off_reset cpu (v # vs) h =
    (case vcpu_power_off cpu v h of None \<Rightarrow> None | Some (_, h) \<Rightarrow> vcpus_power_off_reset cpu vs (snd (vcpu_reset (Some v) h)))"

text \<open>\<^verbatim>\<open>__vm_reset\<close>; the devices that are reset are \<open>vdevs\<close>.\<close>

definition vm_reset0 :: "(kernel \<Rightarrow> kernel option) \<Rightarrow> (nat \<Rightarrow> hyp \<Rightarrow> hyp option) \<Rightarrow> nat \<Rightarrow> nat \<Rightarrow> bool \<Rightarrow> hyp \<Rightarrow> (int \<times> hyp) option" where
  "vm_reset0 sch vdevs cpu m itself h =
    (if vm_is_hvm (vm_tab (hv h) m) then None
     else
       let h = set_vm_state m VM_STAT_REBOOT (on_preempt (preempt_disable cpu) h)
       in Option.bind (vcpus_power_off_reset cpu (vcpus (vm_tab (hv h) m)) h) (\<lambda>h.
          Option.bind (vdevs m h) (\<lambda>h.
          Option.bind (map_option (\<lambda>st. h\<lparr>hv := st\<rparr>) (vm_virq_reset cpu m (hv h))) (vm_leave VMTRAP_REASON_REBOOT sch cpu itself))))"

definition vm_reset :: "(kernel \<Rightarrow> kernel option) \<Rightarrow> (nat \<Rightarrow> hyp \<Rightarrow> hyp option) \<Rightarrow> nat \<Rightarrow> u32 \<Rightarrow> bool \<Rightarrow> hyp \<Rightarrow> (int \<times> hyp) option" where
  "vm_reset sch vdevs cpu i itself h =
    (if i = 0 then None
     else case get_vm_by_id i (hv h) of None \<Rightarrow> Some (- ENOENT, h) | Some m \<Rightarrow> vm_reset0 sch vdevs cpu m itself h)"

text \<open>
  \<^verbatim>\<open>__vm_suspend\<close> up to the call of the scheduler, and after its return: only the first virtual CPU may ask for it, when all others are
  stopped; the modules of those before one that is not have been suspended. \<open>susp\<close> suspends the task and calls the scheduler.
\<close>

fun suspend_vcpus :: "nat list \<Rightarrow> hyp \<Rightarrow> bool \<times> hyp" where
  "suspend_vcpus [] h = (True, h)"
| "suspend_vcpus (v # vs) h =
    (if vcpu_id (vcpu_tab (hv h) v) = 0 then suspend_vcpus vs h
     else if vtask_stat v h \<noteq> TASK_STAT_STOPPED then (False, h)
     else suspend_vcpus vs (note_call (Modules_suspend v) h))"

definition vm_suspend_begin :: "(kernel \<Rightarrow> kernel option) \<Rightarrow> nat \<Rightarrow> nat \<Rightarrow> hyp \<Rightarrow> (int \<times> hyp) option" where
  "vm_suspend_begin susp cpu m h =
    (case current_vcpus (hv h) cpu of
       None \<Rightarrow> None
     | Some c \<Rightarrow>
         if vcpu_id (vcpu_tab (hv h) c) \<noteq> 0 then Some (- EPERM, h)
         else let (ok, h) = suspend_vcpus (vcpus (vm_tab (hv h) m)) h
           in if \<not> ok then Some (- EINVAL, h)
              else map_option (Pair 0) (on_kernel susp
                (note_call (Hook_suspend_vm m) (note_call (Trap_nonblock VMTRAP_REASON_VM_SUSPEND) (set_vm_state m VM_STAT_SUSPEND h)))))"

fun resume_vcpus :: "nat list \<Rightarrow> hyp \<Rightarrow> hyp" where
  "resume_vcpus [] h = h"
| "resume_vcpus (v # vs) h = resume_vcpus vs (if vcpu_id (vcpu_tab (hv h) v) = 0 then h else note_call (Modules_resume v) h)"

definition vm_resume :: "nat \<Rightarrow> hyp \<Rightarrow> int \<times> hyp" where
  "vm_resume m h =
    (let h = note_call (Hook_resume_vm m) (resume_vcpus (vcpus (vm_tab (hv h) m)) h) in (0, note_call (Trap_nonblock VMTRAP_REASON_VM_RESUMED) h))"

definition vm_suspend_finish :: "nat \<Rightarrow> hyp \<Rightarrow> int \<times> hyp" where
  "vm_suspend_finish m h = (0, snd (vm_resume m (set_vm_state m VM_STAT_ONLINE h)))"

definition GVM_IRQ_BASE :: int where "GVM_IRQ_BASE = 64"
definition GVM_IRQ_COUNT :: int where "GVM_IRQ_COUNT = 32"
definition GVM_IRQ_END :: int where "GVM_IRQ_END = GVM_IRQ_BASE + GVM_IRQ_COUNT"

fun request_virqs_from :: "nat \<Rightarrow> nat \<Rightarrow> nat \<Rightarrow> int \<Rightarrow> nat \<Rightarrow> virt \<Rightarrow> virt option" where
  "request_virqs_from cpus cpu m b 0 st = Some st"
| "request_virqs_from cpus cpu m b (Suc n) st =
    (case request_virq cpus cpu m (word_of_int b) 0 st of None \<Rightarrow> None | Some (_, st) \<Rightarrow> request_virqs_from cpus cpu m (b + 1) n st)"

definition request_vm_virqs :: "nat \<Rightarrow> nat \<Rightarrow> nat option \<Rightarrow> int \<Rightarrow> int \<Rightarrow> virt \<Rightarrow> (int \<times> virt) option" where
  "request_vm_virqs cpus cpu m b nr st =
    (case m of
       None \<Rightarrow> Some (- EINVAL, st)
     | Some m \<Rightarrow>
         if b < GVM_IRQ_BASE \<or> nr \<le> 0 \<or> b + nr \<ge> GVM_IRQ_END then Some (- EINVAL, st)
         else map_option (Pair 0) (request_virqs_from cpus cpu m b (nat nr) st))"

section \<open>Running through a ring of CPUs\<close>

fun ring :: "nat \<Rightarrow> nat \<Rightarrow> nat \<Rightarrow> nat \<Rightarrow> nat list" where
  "ring lo hi 0 c = []"
| "ring lo hi (Suc n) c = c # ring lo hi n (if c + 1 = hi then lo else c + 1)"

lemma ring_eq: "lo \<le> c \<Longrightarrow> c < hi \<Longrightarrow> ring lo hi n c = map (\<lambda>i. lo + (c - lo + i) mod (hi - lo)) [0..<n]"
proof (induction n arbitrary: c)
  case (Suc n)
  let ?d = "if c + 1 = hi then lo else c + 1"
  have d: "lo \<le> ?d" "?d < hi" using Suc.prems by auto
  have e: "(?d - lo + i) mod (hi - lo) = (c - lo + Suc i) mod (hi - lo)" for i
  proof (cases "c + 1 = hi")
    case True
    then have eq: "c - lo + Suc i = (hi - lo) + i" using Suc.prems by simp
    show ?thesis unfolding eq using True by simp
  qed (use Suc.prems in \<open>simp add: Suc_diff_le\<close>)
  have "ring lo hi n ?d = map (\<lambda>i. lo + (c - lo + Suc i) mod (hi - lo)) [0..<n]" unfolding Suc.IH [OF d] e ..
  then have "ring lo hi (Suc n) c = c # map (\<lambda>i. lo + (c - lo + Suc i) mod (hi - lo)) [0..<n]" by simp
  also have "\<dots> = map (\<lambda>i. lo + (c - lo + i) mod (hi - lo)) (0 # map Suc [0..<n])" using Suc.prems by (simp add: Suc_diff_le)
  also have "0 # map Suc [0..<n] = [0..<Suc n]" by (simp add: map_Suc_upt upt_conv_Cons)
  finally show ?case .
qed simp

lemma ring_ok:
  assumes "lo \<le> c" "c < hi" "n \<le> hi - lo"
  shows "distinct (ring lo hi n c)" "set (ring lo hi n c) \<subseteq> {lo..<hi}" "length (ring lo hi n c) = n"
proof -
  have "inj_on (\<lambda>i. lo + (c - lo + i) mod (hi - lo)) {0..<n}"
  proof (rule linorder_inj_onI)
    fix i j assume ij: "i < j" "i \<in> {0..<n}" "j \<in> {0..<n}"
    have "\<not> hi - lo dvd (c - lo + j) - (c - lo + i)" using ij assms(3) by (auto dest: dvd_imp_le)
    then have "(c - lo + j) mod (hi - lo) \<noteq> (c - lo + i) mod (hi - lo)" using mod_eq_dvd_iff_nat [of "c - lo + i" "c - lo + j" "hi - lo"] ij(1) by auto
    then show "lo + (c - lo + i) mod (hi - lo) \<noteq> lo + (c - lo + j) mod (hi - lo)" by simp
  qed (simp add: linear)
  then show "distinct (ring lo hi n c)" by (simp add: ring_eq [OF assms(1,2)] distinct_map)
  have "lo + x mod (hi - lo) < hi" for x using assms mod_less_divisor [of "hi - lo" x] by linarith
  then show "set (ring lo hi n c) \<subseteq> {lo..<hi}" by (auto simp: ring_eq [OF assms(1,2)] simp del: diff_add_assoc2)
  show "length (ring lo hi n c) = n" by (simp add: ring_eq [OF assms(1,2)])
qed

lemma aff_e_ring:
  "base \<le> cur \<Longrightarrow> cur < cpus \<Longrightarrow> fst (aff_e cpus base n cur) = ring base cpus n cur \<and> base \<le> snd (aff_e cpus base n cur) \<and> snd (aff_e cpus base n cur) < cpus"
proof (induction n arbitrary: cur)
  case (Suc n)
  have "base \<le> (if cur + 1 = cpus then base else cur + 1)" "(if cur + 1 = cpus then base else cur + 1) < cpus" using Suc.prems by auto
  from Suc.IH [OF this] show ?case by (simp add: Let_def split_beta)
qed simp

text \<open>The CPUs that are shared with the first machine: its CPU 0 is left out as long as others are left, and is not the first choice.\<close>

lemma aff_f_part:
  "f < eb \<Longrightarrow> n \<le> f \<Longrightarrow> cur < eb \<Longrightarrow> fst (aff_f eb 0 eb f i n cur) = ring 1 eb n (max 1 cur) \<and> snd (aff_f eb 0 eb f i n cur) < eb"
proof (induction n arbitrary: i cur)
  case (Suc n)
  have eb: "2 \<le> eb" using Suc.prems by linarith
  let ?c = "if cur = 0 then aff_wrap eb 0 1 else cur"
  have c: "?c = max 1 cur" using eb by (auto simp: aff_wrap_def)
  have w: "aff_wrap eb 0 (?c + 1) < eb" "max 1 (aff_wrap eb 0 (?c + 1)) = (if max 1 cur + 1 = eb then 1 else max 1 cur + 1)"
    using eb Suc.prems(3) unfolding c by (auto simp: aff_wrap_def max_def)
  have "n \<le> f" using Suc.prems(2) by simp
  note IH = Suc.IH [OF Suc.prems(1) this w(1), of "i + 1", unfolded w(2)]
  have d: "aff_f eb 0 eb f i (Suc n) cur = (max 1 cur # fst (aff_f eb 0 eb f (i + 1) n (aff_wrap eb 0 (?c + 1))), snd (aff_f eb 0 eb f (i + 1) n (aff_wrap eb 0 (?c + 1))))"
    using Suc.prems(1) eb by (cases "cur = 0") (simp_all add: Let_def split_beta aff_wrap_def max_def)
  show ?case unfolding d using IH by simp
qed simp

lemma aff_f_rest:
  "cur < eb \<Longrightarrow> fst (aff_f eb 0 eb eb (Suc i) n cur) = ring 0 eb n cur \<and> snd (aff_f eb 0 eb eb (Suc i) n cur) < eb"
proof (induction n arbitrary: i cur)
  case (Suc n)
  have w: "aff_wrap eb 0 (cur + 1) < eb" "aff_wrap eb 0 (cur + 1) = (if cur + 1 = eb then 0 else cur + 1)" using Suc.prems by (auto simp: aff_wrap_def)
  show ?case using Suc.IH [OF w(1), of "Suc i"] w(2) by (simp add: Let_def split_beta)
qed simp

lemma aff_f_all:
  assumes "cur < eb" shows "\<exists>c<eb. fst (aff_f eb 0 eb eb 0 eb cur) = ring 0 eb eb c \<and> snd (aff_f eb 0 eb eb 0 eb cur) < eb"
proof -
  obtain n where eb: "eb = Suc n" using assms by (cases eb) auto
  let ?c = "if cur = 0 then aff_wrap eb 0 1 else cur"
  have c: "?c < eb" using assms eb by (auto simp: aff_wrap_def)
  have w: "aff_wrap eb 0 (?c + 1) < eb" "aff_wrap eb 0 (?c + 1) = (if ?c + 1 = eb then 0 else ?c + 1)" using c by (auto simp: aff_wrap_def)
  have d: "aff_f eb 0 eb eb 0 (Suc n) cur = (?c # fst (aff_f eb 0 eb eb (Suc 0) n (aff_wrap eb 0 (?c + 1))), snd (aff_f eb 0 eb eb (Suc 0) n (aff_wrap eb 0 (?c + 1))))"
    by (simp add: Let_def split_beta)
  have "fst (aff_f eb 0 eb eb 0 (Suc n) cur) = ring 0 eb (Suc n) ?c" "snd (aff_f eb 0 eb eb 0 (Suc n) cur) < eb"
    unfolding d using aff_f_rest [OF w(1), of 0 n] w(2) by simp_all
  then show ?thesis using c eb by (intro exI [of _ ?c]) simp
qed

definition aff_ok :: "nat \<Rightarrow> affinity_state \<Rightarrow> bool" where
  "aff_ok cpus s \<longleftrightarrow> 0 < e_base s \<and> e_base s \<le> cpus \<and> f_base s = 0 \<and> e_nr s = cpus - e_base s \<and> f_nr s = e_base s \<and>
     f_base_current s < e_base s \<and> (e_base s < cpus \<longrightarrow> e_base s \<le> e_base_current s \<and> e_base_current s < cpus)"

lemma aff_f_ok:
  assumes "f \<le> eb" "cur < eb"
  shows "distinct (fst (aff_f eb 0 eb f 0 f cur)) \<and> set (fst (aff_f eb 0 eb f 0 f cur)) \<subseteq> {..<eb} \<and> length (fst (aff_f eb 0 eb f 0 f cur)) = f \<and>
    snd (aff_f eb 0 eb f 0 f cur) < eb"
proof (cases "f = eb")
  case True
  then show ?thesis using aff_f_all [OF assms(2)] ring_ok [of 0 _ eb eb] by fastforce
next
  case False
  then have f: "f < eb" using assms(1) by simp
  note p = aff_f_part [OF f le_refl assms(2), of 0]
  show ?thesis
  proof (cases "f = 0")
    case nz: False
    have "1 \<le> max 1 cur" "max 1 cur < eb" "f \<le> eb - 1" using f nz assms(2) by auto
    from ring_ok [OF this] show ?thesis using p by auto
  qed (use assms(2) in simp)
qed

lemma affinity_distinct:
  assumes ok: "aff_ok cpus s" and nr: "nr \<le> cpus" and g: "get_vcpu_affinity cpus nr s = (l, s')"
  shows "distinct l" "set l \<subseteq> {..<cpus}" "length l = nr" "aff_ok cpus s'"
proof -
  let ?e = "min nr (e_nr s)" and ?eb = "e_base s"
  let ?E = "aff_e cpus ?eb ?e (e_base_current s)" and ?F = "aff_f ?eb 0 ?eb (nr - ?e) 0 (nr - ?e) (f_base_current s)"
  have l: "l = fst ?E @ fst ?F" "s' = s\<lparr>e_base_current := snd ?E, f_base_current := snd ?F\<rparr>"
    using g ok by (auto simp: get_vcpu_affinity_def Let_def split_beta aff_ok_def)
  have f: "nr - ?e \<le> ?eb" "f_base_current s < ?eb" using ok nr by (auto simp: aff_ok_def)
  note F = aff_f_ok [OF f]
  have E: "distinct (fst ?E) \<and> set (fst ?E) \<subseteq> {?eb..<cpus} \<and> length (fst ?E) = ?e \<and> (?eb < cpus \<longrightarrow> ?eb \<le> snd ?E \<and> snd ?E < cpus)"
  proof (cases "?eb < cpus")
    case True
    then have b: "?eb \<le> e_base_current s" "e_base_current s < cpus" "?e \<le> cpus - ?eb" using ok by (auto simp: aff_ok_def)
    show ?thesis using aff_e_ring [OF b(1,2), of ?e] ring_ok [OF b] by auto
  next
    case False
    then have "?e = 0" using ok by (simp add: aff_ok_def)
    then show ?thesis using False by simp
  qed
  have "{?eb..<cpus} \<inter> {..<?eb} = {}" by auto
  then have "set (fst ?E) \<inter> set (fst ?F) = {}" using E F by blast
  then show "distinct l" using E F unfolding l(1) distinct_append by blast
  have "{?eb..<cpus} \<subseteq> {..<cpus}" "{..<?eb} \<subseteq> {..<cpus}" using ok by (auto simp: aff_ok_def)
  then show "set l \<subseteq> {..<cpus}" using E F unfolding l(1) set_append by (meson Un_least subset_trans)
  have "length (fst ?E) = ?e" "length (fst ?F) = nr - ?e" using E F by blast+
  then show "length l = nr" unfolding l(1) length_append by linarith
  have "snd ?F < ?eb" "?eb < cpus \<longrightarrow> ?eb \<le> snd ?E \<and> snd ?E < cpus" using E F by blast+
  then show "aff_ok cpus s'" using ok unfolding l(2) aff_ok_def by simp
qed

lemma affinity_init_ok: "0 < n \<Longrightarrow> n \<le> cpus \<Longrightarrow> aff_ok cpus (vcpu_affinity_init cpus n s)"
  by (simp add: aff_ok_def vcpu_affinity_init_def)

lemma check_affinity_ok:
  "distinct l \<Longrightarrow> set l \<subseteq> {..<cpus} \<Longrightarrow> cpus \<le> 31 \<Longrightarrow> \<forall>a\<in>set l. \<not> bit m a \<Longrightarrow> vm_check_vcpu_affinity cpus l m = Some 0"
proof (induction l arbitrary: m)
  case (Cons a l)
  have a: "a < cpus" "a < 31" "aff_bit a = push_bit a 1" using Cons.prems(2,3) by (auto simp: aff_bit_def)
  have "\<not> bit m a" using Cons.prems(4) by simp
  then have n: "m AND aff_bit a = 0" using bit_iff_and_push_bit_not_eq_0 [of m a] a by simp
  have "\<forall>b\<in>set l. \<not> bit (m OR aff_bit a) b" using Cons.prems(1,4) a(3) by (auto simp: bit_simps)
  then have "vm_check_vcpu_affinity cpus l (m OR aff_bit a) = Some 0" using Cons.prems(1,2,3) by (intro Cons.IH) auto
  then show ?case using a n by simp
qed simp

text \<open>
  C14. The CPUs chosen for a machine with dynamic affinity: starting from \<^verbatim>\<open>vcpu_affinity_init\<close> and after any number of choices, a tag that
  \<^verbatim>\<open>vmtag_check_and_config\<close> accepts gets one CPU for each virtual CPU, all different and existing, so that the check of
  \<^verbatim>\<open>__create_vm\<close> passes; and the next choice starts from a state of the same kind.
\<close>

theorem dynamic_affinity:
  assumes "aff_ok cpus s" "cpus \<le> 8" "tag_flags tag AND VM_FLAGS_DYNAMIC_AFF \<noteq> 0" "vmtag_check_and_config cpus m tag s = (0, tag', s')"
  shows "vm_check_vcpu_affinity cpus (take (nat (tag_nr_vcpu tag')) (tag_affinity tag')) 0 = Some 0 \<and> distinct (take (nat (tag_nr_vcpu tag')) (tag_affinity tag')) \<and>
    length (tag_affinity tag') = 8 \<and> tag_nr_vcpu tag' = tag_nr_vcpu tag \<and> aff_ok cpus s' \<and> (0 < n \<and> n \<le> cpus \<longrightarrow> aff_ok cpus (vcpu_affinity_init cpus n s))"
proof -
  obtain l s1 where g: "get_vcpu_affinity cpus (nat (tag_nr_vcpu tag)) s = (l, s1)" by fastforce
  have nr: "nat (tag_nr_vcpu tag) \<le> cpus" "tag_nr_vcpu tag' = tag_nr_vcpu tag" "tag_affinity tag' = l @ replicate (8 - length l) 0" "s' = s1"
    using assms(3,4) g by (auto simp: vmtag_check_and_config_def Let_def EINVAL_def split: if_splits)
  note a = affinity_distinct [OF assms(1) nr(1) g]
  have "vm_check_vcpu_affinity cpus l 0 = Some 0" using check_affinity_ok [OF a(1,2)] assms(2) by simp
  then show ?thesis using a nr assms(2) affinity_init_ok by simp
qed

text \<open>A machine that is powered off takes no interrupt any more.\<close>

lemma vcpu_power_off_hv: "vcpu_power_off cpu v h = Some (r, h') \<Longrightarrow> hv h' = hv h"
  by (auto simp: vcpu_power_off_def vcpu_power_off_call_def set_vcpu_stop_def set_vcpu_stat_def on_kernel_def Let_def split: if_splits)

lemma vcpus_power_off_hv: "vcpus_power_off cpu vs h = Some h' \<Longrightarrow> hv h' = hv h"
  by (induction vs arbitrary: h) (auto dest: vcpu_power_off_hv split: option.splits)

lemma powered_off_refuses:
  assumes "vm_power_off0 sch cpu m itself h = Some (r, h')" "vcpu_vm (vcpu_tab (hv h) v) = m"
  shows "r = 0 \<and> vm_state (vm_tab (hv h') m) = VM_STAT_OFFLINE \<and> send_virq c v p (hv h') = Some (- EINVAL, hv h')"
proof -
  let ?h = "set_vm_state m VM_STAT_OFFLINE (on_preempt (preempt_disable cpu) h)"
  obtain h1 where h1: "vcpus_power_off cpu (vcpus (vm_tab (hv ?h) m)) ?h = Some h1" "vm_leave VMTRAP_REASON_SHUTDOWN sch cpu itself h1 = Some (r, h')"
    using assms(1) by (auto simp: vm_power_off0_def Let_def bind_eq_Some_conv split: if_splits)
  have "hv h' = hv h1 \<and> r = 0" using h1(2) by (auto simp: vm_leave_def note_call_def on_kernel_def on_preempt_def split: if_splits)
  moreover have "hv h1 = hv ?h" by (rule vcpus_power_off_hv [OF h1(1)])
  ultimately show ?thesis using assms(2) by (simp add: set_vm_state_def on_preempt_def upd_vm_def send_virq_def the_vm_def Let_def)
qed

text \<open>When no number is free, \<^verbatim>\<open>alloc_new_vmid\<close> gives the number of the first entry behind the table, which \<^verbatim>\<open>create_vm\<close> takes for valid.\<close>

lemma vmid_exhausted:
  assumes "\<forall>i<mx. bm_bit bm i" "mx \<le> unat i" shows "create_vm_vmid mx tv i bm = Some (int mx, False, bm)"
proof -
  have "find_next_zero_bit_loop bm mx tv = mx"
    using assms(1) search_from_none [of _ mx "\<lambda>i. \<not> bm_bit bm i"] find_next_zero_bit_eq [of bm mx, unfolded find_next_zero_bit_def]
    by (auto simp: find_next_zero_bit_loop_def find_next_bit_loop_gen_def Let_def)
  then show ?thesis using assms(2) by (simp add: create_vm_vmid_def alloc_new_vmid_def VMID_INVALID_def Let_def)
qed

definition small_tag :: vmtag where
  "small_tag = \<lparr>tag_nr_vcpu = 3, tag_mem_base = 0, tag_mem_size = 0, tag_flags = VM_FLAGS_DYNAMIC_AFF, tag_affinity = []\<rparr>"

definition no_affinity :: affinity_state where
  "no_affinity = \<lparr>e_base = 0, f_base = 0, e_base_current = 0, f_base_current = 0, e_nr = 0, f_nr = 0\<rparr>"

theorem dynamic_affinity_witness:
  "\<exists>tag' s'. vmtag_check_and_config 4 two_blocks small_tag (vcpu_affinity_init 4 2 no_affinity) = (0, tag', s') \<and>
     tag_affinity tag' = [2, 3, 1, 0, 0, 0, 0, 0] \<and>
     vm_check_vcpu_affinity 4 (take (nat (tag_nr_vcpu tag')) (tag_affinity tag')) 0 = Some 0 \<and> aff_ok 4 s'"
proof -
  let ?s = "vcpu_affinity_init 4 2 no_affinity"
  have g: "get_vcpu_affinity 4 3 ?s = ([2, 3, 1], ?s\<lparr>e_base_current := 2, f_base_current := 0\<rparr>)"
    by (simp add: get_vcpu_affinity_def vcpu_affinity_init_def no_affinity_def aff_wrap_def numeral_eq_Suc)
  have r: "replicate 5 0 = [0, 0, 0, 0, 0 :: nat]" by (simp add: numeral_eq_Suc)
  have c: "vmtag_check_and_config 4 two_blocks small_tag ?s =
      (0, small_tag\<lparr>tag_mem_base := GVM_NORMAL_MEM_START, tag_affinity := [2, 3, 1, 0, 0, 0, 0, 0]\<rparr>, ?s\<lparr>e_base_current := 2, f_base_current := 0\<rparr>)"
    using g r by (simp add: vmtag_check_and_config_def small_tag_def has_enough_memory_def VM_FLAGS_DYNAMIC_AFF_def GVM_NORMAL_MEM_START_def
        GVM_NORMAL_MEM_END_def GVM_NORMAL_MEM_SIZE_def GVM_IO_MEM_START_def GVM_IO_MEM_SIZE_def Let_def)
  have ok: "aff_ok 4 ?s" by (rule affinity_init_ok) simp_all
  show ?thesis using dynamic_affinity [OF ok _ _ c] c by (auto simp: small_tag_def VM_FLAGS_DYNAMIC_AFF_def)
qed

end
