(* ===== verification/Vdev.thy ===== *)
theory Vdev
  imports Virq_Inv Vmm
begin

text \<open>
  The virtual devices and the channel to the first machine: \<^verbatim>\<open>os/virt/vdev.c\<close> and \<^verbatim>\<open>os/virt/vmcs.c\<close>. The devices of a machine are the sequence
  of its list. The handlers of a device are addresses of functions, with 0 for NULL, and what they do is a parameter.
\<close>

section \<open>Devices\<close>

record vdev =
  dev_iomem :: u64
  dev_mem_size :: u32
  dev_gvm_paddr :: u64
  dev_hvm_paddr :: u64
  dev_host :: bool
  dev_read :: nat
  dev_write :: nat

definition zero_vdev :: vdev where
  "zero_vdev = \<lparr>dev_iomem = 0, dev_mem_size = 0, dev_gvm_paddr = 0, dev_hvm_paddr = 0, dev_host = False, dev_read = 0, dev_write = 0\<rparr>"

text \<open>
  \<^verbatim>\<open>iomem_vdev_init\<close>: \<open>mm0\<close> is the memory of the first machine, into which the pages of the device are mapped, and \<open>ms\<close> that of the machine.
  The result is the error code, the device when it was made, and what changed.
\<close>

definition iomem_vdev_init :: "u32 \<Rightarrow> vdev list \<Rightarrow> mm_struct \<Rightarrow> mm_struct \<Rightarrow> mmap_windows \<Rightarrow> mmu
    \<Rightarrow> (int \<times> vdev list \<times> mm_struct \<times> mm_struct \<times> mmap_windows \<times> mmu) option" where
  "iomem_vdev_init sz vdevs ms mm0 w st =
    (let sz = PAGE_BALIGN sz;
         finish = (\<lambda>iomem hvm mm0 w st.
           (0, vdevs @ [zero_vdev\<lparr>dev_iomem := iomem, dev_hvm_paddr := hvm, dev_gvm_paddr := gvm_iomem_base ms, dev_mem_size := sz\<rparr>],
            ms\<lparr>gvm_iomem_base := gvm_iomem_base ms + ucast sz, gvm_iomem_size := gvm_iomem_size ms - ucast sz\<rparr>, mm0, w, st))
     in if gvm_iomem_size ms < ucast sz then Some (- ENOMEM, vdevs, ms, mm0, w, st)
        else if sz = 0 then Some (finish 0 0 mm0 w st)
        else
          case get_io_pages (uint (drop_bit 12 sz)) 1 (mmu_mm st) of
            None \<Rightarrow> None
          | Some (None, m) \<Rightarrow> Some (- ENOMEM, vdevs, ms, mm0, w, st\<lparr>mmu_mm := m\<rparr>)
          | Some (Some pa, m) \<Rightarrow>
              (case create_hvm_iomem_map mm0 pa sz w (st\<lparr>mmu_mm := m\<rparr>) of
                 None \<Rightarrow> None
               | Some (hvm, mm0, w, st) \<Rightarrow>
                   if hvm = 0 then Some (- ENOMEM, vdevs, ms, mm0, w, st) else Some (finish pa hvm mm0 w st)))"

definition host_vdev_init :: "u64 \<Rightarrow> u32 \<Rightarrow> vdev list \<Rightarrow> vdev list" where
  "host_vdev_init b sz vdevs = vdevs @ [zero_vdev\<lparr>dev_gvm_paddr := b, dev_mem_size := sz, dev_host := True\<rparr>]"

text \<open>\<^verbatim>\<open>create_host_vdev\<close>; \<open>heap\<close> is whether the allocation succeeds.\<close>

definition create_host_vdev :: "bool \<Rightarrow> u64 \<Rightarrow> u32 \<Rightarrow> vdev list \<Rightarrow> bool \<times> vdev list" where
  "create_host_vdev heap b sz vdevs = (if \<not> heap then (False, vdevs) else (True, host_vdev_init b (PAGE_BALIGN sz) vdevs))"

definition create_guest_vdev :: "u32 \<Rightarrow> mm_struct \<Rightarrow> u64 \<times> mm_struct" where
  "create_guest_vdev sz ms =
    (let sz = ucast (PAGE_BALIGN sz) :: u64
     in if gvm_iomem_size ms < sz then (0, ms)
        else (gvm_iomem_base ms, ms\<lparr>gvm_iomem_base := gvm_iomem_base ms + sz, gvm_iomem_size := gvm_iomem_size ms - sz\<rparr>))"

text \<open>The device that takes an access is the first one of the list whose window holds the address.\<close>

definition in_vdev :: "u64 \<Rightarrow> vdev \<Rightarrow> bool" where
  "in_vdev address d \<longleftrightarrow> address \<ge> dev_gvm_paddr d \<and> address < dev_gvm_paddr d + ucast (dev_mem_size d)"

definition vdev_mmio_emulation :: "(nat \<Rightarrow> vdev \<Rightarrow> u64 \<Rightarrow> u64 \<Rightarrow> 's \<Rightarrow> (int \<times> u64 \<times> 's) option) \<Rightarrow> (bool \<Rightarrow> u64 \<Rightarrow> u64 \<Rightarrow> 's \<Rightarrow> (int \<times> u64 \<times> 's) option)
    \<Rightarrow> vdev list \<Rightarrow> bool \<Rightarrow> u64 \<Rightarrow> u64 \<Rightarrow> 's \<Rightarrow> (int \<times> u64 \<times> 's) option" where
  "vdev_mmio_emulation call trap vdevs wr address val s =
    (case find (in_vdev address) vdevs of
       Some d \<Rightarrow> let f = (if wr then dev_write d else dev_read d) in if f = 0 then None else call f d address val s
     | None \<Rightarrow> trap wr address val s)"

section \<open>The channel to the first machine\<close>

definition VMTRAP_TYPE_MMIO :: u32 where "VMTRAP_TYPE_MMIO = 0"
definition VMTRAP_TYPE_COMMON :: u32 where "VMTRAP_TYPE_COMMON = 1"
definition VMTRAP_TYPE_UNKNOWN :: u32 where "VMTRAP_TYPE_UNKNOWN = 2"
definition VMTRAP_REASON_UNKNOWN :: u32 where "VMTRAP_REASON_UNKNOWN = 9"

record vmcs =
  trap_type :: u32
  trap_reason :: u32
  trap_ret :: int
  trap_data :: u64
  trap_result :: u64
  host_index :: u64
  guest_index :: u64

definition EFAULT :: int where "EFAULT = 14"

text \<open>
  \<^verbatim>\<open>__vcpu_trap\<close> in two parts. The first is up to the second wait: the first wait has ended when the indices are equal, and \<open>Inr\<close>
  says that it has not, so that the caller runs it again. \<open>irq\<close> is \<^verbatim>\<open>vmcs_irq\<close>. The second part is from when the indices are equal
  again, or at once for a trap that does not block.
\<close>

definition trap_idle :: "vmcs \<Rightarrow> bool" where
  "trap_idle c \<longleftrightarrow> guest_index c = host_index c"

definition vcpu_trap_begin :: "nat \<Rightarrow> int \<Rightarrow> u32 \<Rightarrow> u32 \<Rightarrow> u64 \<Rightarrow> u64 option \<Rightarrow> vmcs \<times> virt \<Rightarrow> ((int \<times> bool) option \<times> vmcs \<times> virt) option" where
  "vcpu_trap_begin cpu irq typ reason data result s =
    (let (c, st) = s in
     if irq < 0 then Some (Some (- ENOENT, True), c, st)
     else if typ \<ge> VMTRAP_TYPE_UNKNOWN \<or> reason \<ge> VMTRAP_REASON_UNKNOWN then Some (Some (- EINVAL, True), c, st)
     else if \<not> trap_idle c then Some (None, c, st)
     else
       let c = c\<lparr>trap_type := typ, trap_reason := reason, trap_data := data, trap_ret := 0,
                 trap_result := (case result of None \<Rightarrow> 0 | Some r \<Rightarrow> r), host_index := host_index c + 1\<rparr>
       in case send_virq_to_vm cpu (get_vm_by_id 0 st) (word_of_int irq) st of
            None \<Rightarrow> None
          | Some (ret, st) \<Rightarrow>
              if ret \<noteq> 0
              then Some (Some (- EFAULT, True), c\<lparr>host_index := host_index c - 1, trap_ret := - EPERM, trap_result := 0\<rparr>, st)
              else Some (Some (0, False), c, st))"

text \<open>A trap from the CPU of the first machine always blocks; \<open>aff\<close> and \<open>aff0\<close> are the CPUs of the caller and of the first virtual CPU of that machine.\<close>

definition vcpu_trap_nonblock :: "nat \<Rightarrow> nat \<Rightarrow> bool \<Rightarrow> bool" where
  "vcpu_trap_nonblock aff aff0 nonblock = (if aff = aff0 then False else nonblock)"

definition vcpu_trap_finish :: "bool \<Rightarrow> vmcs \<Rightarrow> int \<times> u64" where
  "vcpu_trap_finish nonblock c = (trap_ret c, if nonblock then 0 else trap_result c)"

text \<open>The first machine answers: it stores the result and makes the indices equal.\<close>

definition vmcs_answer :: "int \<Rightarrow> u64 \<Rightarrow> vmcs \<Rightarrow> vmcs" where
  "vmcs_answer ret res c = c\<lparr>trap_ret := ret, trap_result := res, guest_index := host_index c\<rparr>"

section \<open>Properties\<close>

text \<open>The windows of the devices of a guest are disjoint pieces of its window.\<close>

definition iomem_window :: "mm_struct \<Rightarrow> nat set" where
  "iomem_window ms = {unat (gvm_iomem_base ms)..<unat (gvm_iomem_base ms) + unat (gvm_iomem_size ms)}"

lemma guest_vdev_window:
  assumes "create_guest_vdev sz ms = (b, ms')" "unat (gvm_iomem_base ms) + unat (gvm_iomem_size ms) < 2 ^ 64" "0 < gvm_iomem_base ms"
  defines "n \<equiv> unat (PAGE_BALIGN sz)"
  shows "b = 0 \<and> ms' = ms \<or> {unat b..<unat b + n} \<subseteq> iomem_window ms \<and> iomem_window ms' = iomem_window ms - {unat b..<unat b + n} \<and>
    unat (gvm_iomem_base ms') + unat (gvm_iomem_size ms') < 2 ^ 64 \<and> 0 < gvm_iomem_base ms'"
proof (cases "gvm_iomem_size ms < ucast (PAGE_BALIGN sz)")
  case True
  then show ?thesis using assms(1) by (simp add: create_guest_vdev_def Let_def)
next
  case False
  let ?n = "ucast (PAGE_BALIGN sz) :: u64"
  have n: "unat ?n = n" unfolding n_def using unsigned_less [of "PAGE_BALIGN sz", where 'a = nat] by (simp add: unsigned_ucast_eq take_bit_nat_eq_self)
  have le: "n \<le> unat (gvm_iomem_size ms)" using False n by (simp add: word_less_nat_alt)
  have b: "b = gvm_iomem_base ms" "gvm_iomem_base ms' = gvm_iomem_base ms + ?n" "gvm_iomem_size ms' = gvm_iomem_size ms - ?n"
    using assms(1) False by (auto simp: create_guest_vdev_def Let_def)
  have u: "unat (gvm_iomem_base ms') = unat (gvm_iomem_base ms) + n" "unat (gvm_iomem_size ms') = unat (gvm_iomem_size ms) - n"
    unfolding b using assms(2) le n False by (auto simp: unat_add_lem [THEN iffD1] unat_sub word_le_nat_alt)
  have "0 < unat (gvm_iomem_base ms)" using assms(3) by (simp add: word_less_nat_alt)
  then have "0 < gvm_iomem_base ms'" using u(1) by (simp add: word_less_nat_alt)
  then show ?thesis using u le assms(2) b(1) by (auto simp: iomem_window_def)
qed

text \<open>When no two windows overlap, the device that takes an access is the only one whose window holds the address.\<close>

lemma mmio_unique:
  assumes "\<forall>d\<in>set vdevs. \<forall>e\<in>set vdevs. in_vdev a d \<and> in_vdev a e \<longrightarrow> d = e" "d \<in> set vdevs" "in_vdev a d" "dev_read d \<noteq> 0"
  shows "vdev_mmio_emulation call trap vdevs False a val s = call (dev_read d) d a val s"
proof -
  obtain e where e: "find (in_vdev a) vdevs = Some e" using assms(2,3) by (cases "find (in_vdev a) vdevs") (auto simp: find_None_iff)
  then have "e \<in> set vdevs" "in_vdev a e" by (auto simp: find_Some_iff)
  then have "e = d" using assms(1-3) by blast
  then show ?thesis using e assms(4) by (simp add: vdev_mmio_emulation_def)
qed

text \<open>A trap reaches the first machine as it was posted, and its answer is the result; an interrupt that cannot be sent withdraws the trap.\<close>

lemma trap_roundtrip:
  assumes "vcpu_trap_begin cpu irq typ reason data result (c, st) = Some (Some (r, done1), c', st')" "0 \<le> irq" "typ < VMTRAP_TYPE_UNKNOWN" "reason < VMTRAP_REASON_UNKNOWN"
  shows "if done1 then r = - EFAULT \<and> trap_idle c'
    else r = 0 \<and> \<not> trap_idle c' \<and> trap_type c' = typ \<and> trap_reason c' = reason \<and> trap_data c' = data \<and>
      trap_idle (vmcs_answer ret res c') \<and> vcpu_trap_finish False (vmcs_answer ret res c') = (ret, res)"
  using assms by (auto simp: vcpu_trap_begin_def trap_idle_def vmcs_answer_def vcpu_trap_finish_def Let_def split: if_splits option.splits)

end
