(* ===== verification/Spec2Isabelle.thy ===== *)
theory Spec2Isabelle
  imports Flag Vmm_Alloc Timer Softirq Vgicv2 Vcpu Vdev
begin

text \<open>
  \<^bold>\<open>Minos: the kernel of an embedded hypervisor\<close>

  Minos is a type-1 hypervisor for AArch64 with a small real-time kernel. This development
  models the C code of that kernel, under \<^verbatim>\<open>src/os\<close>, and proves what makes it correct. Paths
  below are relative to \<^verbatim>\<open>src/os\<close>.

  \<^bold>\<open>The parts and how they interact.\<close> A real-time task has its pid as its priority, so at most one
  task has a priority below \<^verbatim>\<open>OS_PRIO_PCPU\<close>; the ready ones are a bit table shared by all CPUs, and
  the scheduler hands the highest ready priorities to the CPUs. Per-CPU tasks are on ready and
  sleep lists of their CPU. Events (mutexes, semaphores, mailboxes, queues, flags) keep waiters in
  a table of the same shape and wake them by making them ready on their CPU, by a cross-CPU call
  when it is another one. Memory comes from the boot allocator until the sections of the memory
  map are known, then from the sections in blocks, pages and slabs.

  \<^bold>\<open>Theories.\<close>
  \<^item> \<^verbatim>\<open>Minos_Prelude\<close>: word types, error numbers, alignment, shared lemmas and the collections of
    simplification rules.
  \<^item> \<^verbatim>\<open>Bitmap\<close>: \<^verbatim>\<open>core/find_bit.c\<close>, \<^verbatim>\<open>core/bitmap.c\<close> and the bit operations of the port, over lists
    of 64-bit words: the word-wise searches equal a search bit by bit, the area search
    terminates and finds the first aligned free area, setting and clearing are inverse.
  \<^item> \<^verbatim>\<open>Klist\<close>: \<^verbatim>\<open>include/minos/list.h\<close>, over an explicit store of next and previous pointers, with
    the list that a chain of nodes stands for.
  \<^item> \<^verbatim>\<open>Prio_Table\<close>: the two-level table of ready priorities and \<^verbatim>\<open>ffs_table\<close>, as a priority queue.
  \<^item> \<^verbatim>\<open>Sched_Pick\<close>: \<^verbatim>\<open>sched_new\<close> of \<^verbatim>\<open>core/sched.c\<close>, which assigns priorities to CPUs.
  \<^item> \<^verbatim>\<open>Kernel\<close>: the state (\<^verbatim>\<open>struct task\<close>, \<^verbatim>\<open>struct pcpu\<close>, \<^verbatim>\<open>struct event\<close>, the globals) as one record;
    \<^verbatim>\<open>Sched\<close>: the other functions of \<^verbatim>\<open>core/sched.c\<close> and \<^verbatim>\<open>core/smp.c\<close> on it; \<^verbatim>\<open>Sched_Steps\<close>: the steps of the
    running scheduler as a relation, its invariant, and what the steps leave alone.
  \<^item> \<^verbatim>\<open>Task\<close>: \<^verbatim>\<open>core/task.c\<close>, pids, creation and the boot, which establishes the invariant.
  \<^item> \<^verbatim>\<open>Event\<close>, \<^verbatim>\<open>Mutex\<close>, \<^verbatim>\<open>Sem\<close>, \<^verbatim>\<open>Mbox\<close>, \<^verbatim>\<open>Queue\<close>, \<^verbatim>\<open>Flag\<close>: the files of \<^verbatim>\<open>core\<close> with these names. An operation
    that blocks is two definitions, up to the call of the scheduler and after the return of it.
  \<^item> \<^verbatim>\<open>Bootmem\<close>, \<^verbatim>\<open>Mem_Region\<close>: \<^verbatim>\<open>core/bootmem.c\<close> and \<^verbatim>\<open>core/mm.c\<close>: allocations are disjoint, the memory map
    stays a list of disjoint regions with the flags it was given.
  \<^item> \<^verbatim>\<open>Mm_Block\<close>, \<^verbatim>\<open>Mm_Page\<close>: sections, blocks of 2 MB and pages of \<^verbatim>\<open>core/mm_default.c\<close>; a block or run of
    pages that is handed out was free, and blocks are disjoint.
  \<^item> \<^verbatim>\<open>Slab\<close>: \<^verbatim>\<open>malloc\<close> and \<^verbatim>\<open>free\<close> over headers in memory; \<^verbatim>\<open>Slab_Inv\<close>: the invariant that the chains of free slabs and
    the slabs in use are disjoint pieces of blocks; \<^verbatim>\<open>Slab_Sources\<close>: each source of slabs; \<^verbatim>\<open>Malloc\<close>: the sources as
    instances of one interface, and what \<^verbatim>\<open>malloc\<close> and \<^verbatim>\<open>free\<close> promise.
  \<^item> \<^verbatim>\<open>Mm_Init\<close>: the initialisation of the allocator, which turns the memory map into sections and establishes
    the invariant of the blocks.
  \<^item> \<^verbatim>\<open>Mmu\<close>: \<^verbatim>\<open>core/mmu.c\<close> and the descriptors of the port, over the memory of the tables; \<^verbatim>\<open>Mmu_Walk\<close>: the translation
    by the hardware and the invariant that every table belongs to one range of addresses; \<^verbatim>\<open>Mmu_Map\<close>: a mapping
    changes the translation of its range and of no other address; \<^verbatim>\<open>Mmu_Unmap\<close>: what unmapping removes.
  \<^item> \<^verbatim>\<open>Vmm\<close>: \<^verbatim>\<open>virt/vmm.c\<close>, the memory of the virtual machines; \<^verbatim>\<open>Vmm_Alloc\<close>: page allocation leaves the blocks of others alone,
    and a machine gets blocks of its own, mapped where its region says.
  \<^item> \<^verbatim>\<open>Irq\<close>: \<^verbatim>\<open>core/irq.c\<close>, the interrupts of the host: a handler that is requested is the one that is called.
  \<^item> \<^verbatim>\<open>Virq\<close>: \<^verbatim>\<open>virt/virq.c\<close>, \<^verbatim>\<open>virt/virq_chips/vgic.c\<close>, the list registers of \<^verbatim>\<open>virt/virq_chips/vgicv2.c\<close> and \<^verbatim>\<open>virt/virq_chips/virq_chip.c\<close>;
    \<^verbatim>\<open>Virq_Inv\<close>: the invariant of the virtual interrupts of a virtual CPU as a step relation, the delivery of an interrupt, and how
    delivery can stop for good.
  \<^item> \<^verbatim>\<open>Vgicv2\<close>: the registers of the emulated GICv2, \<^verbatim>\<open>virt/virq_chips/vgicv2.c\<close>: what a guest does with a software-generated interrupt.
  \<^item> \<^verbatim>\<open>Timer\<close>: \<^verbatim>\<open>core/timer.c\<close>: the timers that are due run, once each. \<^verbatim>\<open>Softirq\<close>: \<^verbatim>\<open>core/softirq.c\<close> and \<^verbatim>\<open>core/hook.c\<close>: when
    the softirqs return.
  \<^item> \<^verbatim>\<open>Vcpu\<close>: \<^verbatim>\<open>virt/vm.c\<close> and \<^verbatim>\<open>virt/vcpu.c\<close>: the CPUs that a machine gets, its number, and the power states of machines and virtual
    CPUs: the CPUs of a machine are distinct. \<^verbatim>\<open>Vdev\<close>: \<^verbatim>\<open>virt/vdev.c\<close> and \<^verbatim>\<open>virt/vmcs.c\<close>: the windows of the devices of a machine and the
    channel by which the first machine handles the accesses of others.
  \<^item> This theory: the steps of the whole kernel, and that no real-time task runs on two CPUs.

  \<^bold>\<open>Conventions.\<close> Machine integers are words of their width; C \<^verbatim>\<open>int\<close> results that are error codes are
  \<^typ>\<open>int\<close>. A fault of the C code (a NULL or out-of-range access, a panic, \<^verbatim>\<open>BUG\<close>) is \<^term>\<open>None\<close>, so that a
  theorem with a \<^term>\<open>Some\<close> result also shows its absence. Interrupt masking and spin locks do nothing
  in the model, whose steps are the atomic sections of the code; where the code leaves a lock
  held or takes one twice, the lock is a field of the state. Loops over pointers that might not
  end are partial functions into the option type, and their termination is proved; there is
  no fuel.

  \<^bold>\<open>Not modelled.\<close> Assembly, system registers, the TLB and caches, and the registers of physical devices: they are hardware. The parsing
  of the device tree, which walks it with libfdt; the creation of the structures of a machine, which runs functions that the linker
  collects; printing. The emulated GICv3 and BCM2836 controllers, and the single virtual devices; the routines of the C library in
  \<^verbatim>\<open>core/string.c\<close> and \<^verbatim>\<open>core/stdlib.c\<close>; the allocator \<^verbatim>\<open>core/mm_simple.c\<close> of another configuration; the user-space monitor \<^verbatim>\<open>mvm\<close>, a Linux program.
\<close>

section \<open>The running system\<close>

text \<open>
  The kernel after its boot: steps of the scheduler on some CPU, in which only tasks that have
  been created become ready, and creations of tasks, in memory that is not in use.
\<close>

inductive sstep :: "kernel \<Rightarrow> kernel \<Rightarrow> bool" where
  run: "kstep k k' \<Longrightarrow> ptbl_prios (os_rdy k') \<subseteq> pids k \<Longrightarrow> sstep k k'"
| create: "c < NR_CPUS k \<Longrightarrow> unused k mem \<Longrightarrow> mem \<noteq> 0 \<Longrightarrow> stack \<noteq> 0 \<Longrightarrow> prio \<le> OS_PRIO_PCPU \<Longrightarrow>
    create_task fg now1 now2 now3 c mem stack name arg prio aff opt k = Some (pid, k') \<Longrightarrow> 0 \<le> pid \<Longrightarrow>
    sstep k k'"

lemma sstep_task_inv:
  assumes "sstep k k'" "task_inv k" shows "task_inv k'"
  using assms
proof (induction rule: sstep.induct)
  case (run k k')
  then have "pid_map k' = pid_map k" "sys_inv k'"
    using kstep_static kstep_sys_inv by (auto simp: task_inv_def)
  then show ?case using run by (simp add: task_inv_def pid_ok_def pids_def)
next
  case (create c k mem stack prio)
  then show ?case using create_task_inv by blast
qed

lemma ssteps_task_inv: "sstep\<^sup>*\<^sup>* k k' \<Longrightarrow> task_inv k \<Longrightarrow> task_inv k'"
  by (induction rule: rtranclp_induct) (auto intro: sstep_task_inv)

lemma sys_inv_realtime_distinct:
  assumes "sys_inv k"
  shows "distinct (filter (\<lambda>t. task_is_realtime (tasks k t)) (current_tasks k))"
proof -
  have "length (current_tasks k) = NR_CPUS k" using assms by (simp add: sys_inv_def sched_inv_def kernel_ok_def)
  then show ?thesis
    by (intro distinct_filter_nth) (rule sys_inv_running_distinct [OF assms], simp_all)
qed



end
